(* ===== verification/Nutrino_Prelude.thy ===== *)
theory Nutrino_Prelude
  imports Main "HOL-Library.Word"
begin

text \<open>
  Shared vocabulary of the development: bytes, the outcome of a C function that may block or run
  into undefined behaviour, little-endian images of C integers, and NUL-terminated strings inside
  fixed-size buffers.  The collections \<open>outcome_simps\<close> and \<open>buffer_simps\<close> are what the
  component theories hand to the simplifier.
\<close>

named_theorems outcome_simps "unfolding of the outcome of a C function"
named_theorems buffer_simps "lengths and contents of byte buffers"

unbundle bit_operations_syntax

type_synonym byte = "8 word"
type_synonym bytes = "byte list"

section \<open>Outcomes\<close>

text \<open>
  A C function returns, never returns (it waits in a system call for something that does not come,
  or a loop of it runs for ever), ends the process (\<open>abort ()\<close>), or reaches behaviour the language leaves undefined (an access
  outside an object, a signed overflow).
\<close>

datatype 'a outcome = Ret 'a | Blocks | Aborts | Undefined

fun and_then :: "'a outcome \<Rightarrow> ('a \<Rightarrow> 'b outcome) \<Rightarrow> 'b outcome" where
  "and_then (Ret x) f = f x"
| "and_then Blocks f = Blocks"
| "and_then Aborts f = Aborts"
| "and_then Undefined f = Undefined"

fun returned :: "'a outcome \<Rightarrow> 'a option" where
  "returned (Ret x) = Some x"
| "returned _ = None"

definition of_run :: "'a option \<Rightarrow> 'a outcome" where
  "of_run r = (case r of None \<Rightarrow> Blocks | Some x \<Rightarrow> Ret x)"

lemma of_run_simps [simp]: "of_run (Some x) = Ret x" "of_run None = Blocks"
  by (simp_all add: of_run_def)

lemma and_then_Ret_iff [outcome_simps]:
  "and_then m f = Ret y \<longleftrightarrow> (\<exists>x. m = Ret x \<and> f x = Ret y)"
  by (cases m) auto

lemma and_then_assoc: "and_then (and_then m f) g = and_then m (\<lambda>x. and_then (f x) g)"
  by (cases m) auto

section \<open>Little-endian images of integers\<close>

fun le_bytes :: "nat \<Rightarrow> int \<Rightarrow> bytes" where
  "le_bytes 0 x = []"
| "le_bytes (Suc n) x = word_of_int x # le_bytes n (x div 256)"

fun le_uint :: "bytes \<Rightarrow> int" where
  "le_uint [] = 0"
| "le_uint (b # bs) = uint b + 256 * le_uint bs"

definition le_sint :: "bytes \<Rightarrow> int" where
  "le_sint bs = (let u = le_uint bs; m = 256 ^ length bs in if 2 * u < m then u else u - m)"

definition fits_long :: "nat \<Rightarrow> int \<Rightarrow> bool" where
  "fits_long w x \<longleftrightarrow> - (256 ^ w) \<le> 2 * x \<and> 2 * x < 256 ^ w"

lemma length_le_bytes [simp, buffer_simps]: "length (le_bytes n x) = n"
  by (induction n arbitrary: x) auto

lemma le_uint_le_bytes: "le_uint (le_bytes n x) = x mod 256 ^ n"
proof (induction n arbitrary: x)
  case 0
  then show ?case by simp
next
  case (Suc n)
  have "x mod (256 * 256 ^ n) = 256 * (x div 256 mod 256 ^ n) + x mod 256"
    by (rule zmod_zmult2_eq) simp
  then show ?case by (simp add: Suc uint_word_of_int take_bit_eq_mod)
qed

lemma le_sint_le_bytes:
  assumes "fits_long w x"
  shows "le_sint (le_bytes w x) = x"
proof (cases "0 \<le> x")
  case True
  with assms have "x mod 256 ^ w = x"
    by (intro mod_pos_pos_trivial) (auto simp: fits_long_def)
  with assms show ?thesis
    by (simp add: le_sint_def le_uint_le_bytes fits_long_def Let_def)
next
  case False
  let ?m = "256 ^ w :: int"
  have "(x + ?m) mod ?m = x + ?m"
    using assms False by (intro mod_pos_pos_trivial) (auto simp: fits_long_def)
  then have "x mod ?m = x + ?m" by simp
  with assms False show ?thesis
    by (simp add: le_sint_def le_uint_le_bytes fits_long_def Let_def)
qed

section \<open>C strings in buffers\<close>

text \<open>\<open>strlen\<close> of a buffer: \<^const>\<open>None\<close> when no byte of the buffer is 0, so that the library
  function would read past its end.\<close>

fun strlen_buf :: "bytes \<Rightarrow> nat option" where
  "strlen_buf [] = None"
| "strlen_buf (b # bs) = (if b = 0 then Some 0 else map_option Suc (strlen_buf bs))"

definition cstring :: "bytes \<Rightarrow> bytes" where
  "cstring = takeWhile (\<lambda>b. b \<noteq> 0)"

definition bytes_of_string :: "string \<Rightarrow> bytes" where
  "bytes_of_string s = map of_char s"

text \<open>\<open>strcpy (buf, s)\<close>: the string and its terminator overwrite the front of the buffer.\<close>

definition strcpy_buf :: "bytes \<Rightarrow> bytes \<Rightarrow> bytes outcome" where
  "strcpy_buf buf s =
     (if length s < length buf then Ret (s @ 0 # drop (Suc (length s)) buf) else Undefined)"

lemma strlen_buf_Some: "strlen_buf b = Some n \<Longrightarrow> n < length b \<and> b ! n = 0 \<and> cstring b = take n b"
  by (induction b arbitrary: n) (auto simp: cstring_def split: if_splits)

lemma strlen_buf_less: "strlen_buf b = Some n \<Longrightarrow> n < length b"
  by (simp add: strlen_buf_Some)

lemma strlen_buf_None: "strlen_buf b = None \<longleftrightarrow> 0 \<notin> set b"
  by (induction b) auto

lemma strlen_buf_prefix:
  "strlen_buf b = Some n \<Longrightarrow> n < k \<Longrightarrow> strlen_buf (take k b @ c) = Some n"
proof (induction b arbitrary: n k)
  case Nil
  then show ?case by simp
next
  case (Cons a b)
  then show ?case by (cases k) (auto split: if_splits)
qed

lemma strlen_buf_string: "0 \<notin> set s \<Longrightarrow> strlen_buf (s @ 0 # t) = Some (length s)"
  by (induction s) auto

lemma strlen_buf_replicate [simp]: "strlen_buf (replicate n 0) = (if n = 0 then None else Some 0)"
  by (cases n) auto

lemma strcpy_buf_Ret:
  "length s < length buf \<Longrightarrow>
     \<exists>buf'. strcpy_buf buf s = Ret buf' \<and> length buf' = length buf \<and> take (length s) buf' = s \<and>
       (0 \<notin> set s \<longrightarrow> strlen_buf buf' = Some (length s))"
  by (simp add: strcpy_buf_def strlen_buf_string)

text \<open>Writing \<open>n\<close> bytes over the front of a memory block.\<close>

definition overwrite :: "bytes \<Rightarrow> bytes \<Rightarrow> bytes" where
  "overwrite new old = new @ drop (length new) old"

lemma length_overwrite [buffer_simps]:
  "length new \<le> length old \<Longrightarrow> length (overwrite new old) = length old"
  by (simp add: overwrite_def)

section \<open>Memory\<close>

text \<open>An allocation may fail; a fresh block holds whatever was there.  \<open>mem_ok M n\<close> says that a request
  for \<open>n\<close> units succeeds, \<open>mem_junk M\<close> what they hold.\<close>

record 'a mem =
  mem_ok :: "int \<Rightarrow> bool"
  mem_junk :: "nat \<Rightarrow> 'a"

definition fresh_block :: "'a mem \<Rightarrow> int \<Rightarrow> 'a list" where
  "fresh_block M n = map (mem_junk M) [0..<nat n]"

lemma length_fresh_block [simp, buffer_simps]: "length (fresh_block M n) = nat n"
  by (simp add: fresh_block_def)

abbreviation INT_MAX :: int where
  "INT_MAX \<equiv> 2147483647"

text \<open>Writing a run of elements into a block at an offset.\<close>

definition splice :: "'a list \<Rightarrow> nat \<Rightarrow> 'a list \<Rightarrow> 'a list" where
  "splice xs i ys = take i xs @ ys @ drop (i + length ys) xs"

lemma length_splice [buffer_simps]: "i + length ys \<le> length xs \<Longrightarrow> length (splice xs i ys) = length xs"
  by (simp add: splice_def)

lemma take_splice: "i \<le> length xs \<Longrightarrow> take (i + length ys) (splice xs i ys) = take i xs @ ys"
  by (simp add: splice_def)

lemma nth_splice_end:
  "i \<le> length xs \<Longrightarrow> splice xs i (ys @ [z]) ! (i + length ys) = z"
  by (simp add: splice_def nth_append)

end
