(* ===== verification/Message_Queue.thy ===== *)
theory Message_Queue
  imports Nutrino_Prelude
begin

text \<open>
  The queue managers of the stack: \<open>core/src/queue_manager.c\<close> (shared with
  \<open>application/queue_manager.c\<close>), \<open>queue_manager/queue_manager.c\<close> and
  \<open>utility_handler/src/queue_manager.c\<close>.  They wrap System V message queues.  The calls
  \<open>msgget\<close>, \<open>msgsnd\<close> and \<open>msgrcv\<close> belong to the standard library and are modelled by
  their documented behaviour; what the managers hand them is a byte image of \<open>struct msgbuff\<close>, so
  the width \<open>w\<close> of \<open>long\<close> (4 bytes on ILP32, 8 on LP64) is a parameter of every operation.
\<close>

section \<open>System V message queues\<close>

record sysv_msg =
  mtype :: int
  mtext :: bytes

record ipc =
  queues :: "int \<Rightarrow> sysv_msg list option"
  free_ids :: nat
  msgmax :: nat
  msgmnb :: nat

definition qbytes :: "sysv_msg list \<Rightarrow> nat" where
  "qbytes q = sum_list (map (\<lambda>x. length (mtext x)) q)"

definition set_queue :: "int \<Rightarrow> sysv_msg list \<Rightarrow> ipc \<Rightarrow> ipc" where
  "set_queue key q s = s\<lparr>queues := (queues s)(key := Some q)\<rparr>"

definition msgget_creat :: "int \<Rightarrow> ipc \<Rightarrow> int \<times> ipc" where
  "msgget_creat key s =
     (if queues s key \<noteq> None then (0, s)
      else if free_ids s = 0 then (-1, s)
      else (0, set_queue key [] (s\<lparr>free_ids := free_ids s - 1\<rparr>)))"

text \<open>\<open>msgsnd\<close>: \<open>EINVAL\<close> for a type below 1 or a text above the limit; a full queue makes it
  fail under \<open>IPC_NOWAIT\<close> and block otherwise.\<close>

definition has_room :: "ipc \<Rightarrow> sysv_msg list \<Rightarrow> nat \<Rightarrow> bool" where
  "has_room s q n \<longleftrightarrow> qbytes q + n \<le> msgmnb s \<and> Suc (length q) \<le> msgmnb s"

definition msgsnd :: "bool \<Rightarrow> int \<Rightarrow> sysv_msg \<Rightarrow> ipc \<Rightarrow> (int \<times> ipc) outcome" where
  "msgsnd nowait key x s =
     (case queues s key of
        None \<Rightarrow> Ret (-1, s)
      | Some q \<Rightarrow>
          if mtype x < 1 \<or> msgmax s < length (mtext x) then Ret (-1, s)
          else if has_room s q (length (mtext x)) then Ret (0, set_queue key (q @ [x]) s)
          else if nowait then Ret (-1, s)
          else Blocks)"

text \<open>\<open>msgrcv\<close> takes the first message, or the first of a given positive type; it blocks when there
  is none and fails (leaving the message in place) when the text does not fit \<open>msgsz\<close>.\<close>

fun take_first :: "('a \<Rightarrow> bool) \<Rightarrow> 'a list \<Rightarrow> ('a \<times> 'a list) option" where
  "take_first P [] = None"
| "take_first P (x # xs) =
     (if P x then Some (x, xs) else map_option (\<lambda>(y, ys). (y, x # ys)) (take_first P xs))"

definition msgrcv :: "int \<Rightarrow> nat \<Rightarrow> int \<Rightarrow> ipc \<Rightarrow> (sysv_msg option \<times> ipc) outcome" where
  "msgrcv key msgsz typ s =
     (case queues s key of
        None \<Rightarrow> Ret (None, s)
      | Some q \<Rightarrow>
          (case take_first (\<lambda>x. typ = 0 \<or> mtype x = typ) q of
             None \<Rightarrow> Blocks
           | Some (x, rest) \<Rightarrow>
               if msgsz < length (mtext x) then Ret (None, s)
               else Ret (Some x, set_queue key rest s)))"

section \<open>struct msgbuff\<close>

definition MAXSIZE :: nat where
  "MAXSIZE = 128"

record msgbuff =
  msg_session_id :: int
  msg_type :: int
  msg_state :: int
  msg_event :: int
  msg_text :: bytes

text \<open>The bytes after the first \<open>long\<close>, in the order the header of the core and the application
  declares the fields.  The first \<open>long\<close> is what \<open>msgsnd\<close> takes as the type.\<close>

definition core_image :: "nat \<Rightarrow> msgbuff \<Rightarrow> bytes" where
  "core_image w m =
     le_bytes w (msg_type m) @ le_bytes w (msg_state m) @ le_bytes w (msg_event m) @ msg_text m"

definition core_of_image :: "nat \<Rightarrow> int \<Rightarrow> bytes \<Rightarrow> msgbuff" where
  "core_of_image w sid p =
     \<lparr>msg_session_id = sid, msg_type = le_sint (take w p),
      msg_state = le_sint (take w (drop w p)), msg_event = le_sint (take w (drop (2 * w) p)),
      msg_text = drop (3 * w) p\<rparr>"

text \<open>The header of the stand-alone manager and of the utility handler puts the text before the
  state and the event.\<close>

definition util_image :: "nat \<Rightarrow> msgbuff \<Rightarrow> bytes" where
  "util_image w m =
     le_bytes w (msg_type m) @ msg_text m @ le_bytes w (msg_state m) @ le_bytes w (msg_event m)"

definition util_of_image :: "nat \<Rightarrow> int \<Rightarrow> bytes \<Rightarrow> msgbuff" where
  "util_of_image w sid p =
     \<lparr>msg_session_id = sid, msg_type = le_sint (take w p),
      msg_state = le_sint (take w (drop (w + MAXSIZE) p)),
      msg_event = le_sint (take w (drop (2 * w + MAXSIZE) p)),
      msg_text = take MAXSIZE (drop w p)\<rparr>"

text \<open>\<open>msgsnd\<close> reads as many bytes behind the session id as it is told to; a length beyond the
  structure makes it read what lies behind it, which is undefined.  \<open>printf ("%s")\<close> of the text runs past the array when it holds no terminator.\<close>

definition print_text :: "msgbuff \<Rightarrow> 'a outcome \<Rightarrow> 'a outcome" where
  "print_text m k = (if strlen_buf (msg_text m) = None then Undefined else k)"

section \<open>The manager of the core and the application\<close>

definition message_queue_init :: "int \<Rightarrow> ipc \<Rightarrow> int \<times> ipc" where
  "message_queue_init key s =
     (let (r, s') = msgget_creat key s in if r < 0 then (-1, s') else (0, s'))"

definition message_queue_write :: "nat \<Rightarrow> int \<Rightarrow> msgbuff \<Rightarrow> ipc \<Rightarrow> (int \<times> ipc) outcome" where
  "message_queue_write w key sbuf s =
     (if queues s key = None then Ret (-1, s)
      else case strlen_buf (msg_text sbuf) of
        None \<Rightarrow> Undefined
      | Some n \<Rightarrow>
          (let buflen = n + 1 + 12 in
           if length (core_image w sbuf) < buflen then Undefined
           else and_then (msgsnd True key
               \<lparr>mtype = msg_session_id sbuf, mtext = take buflen (core_image w sbuf)\<rparr> s)
             (\<lambda>(r, s'). if r < 0 then Ret (-1, s') else Ret (0, s'))))"

definition message_queue_read ::
  "nat \<Rightarrow> int \<Rightarrow> msgbuff \<Rightarrow> ipc \<Rightarrow> (int \<times> msgbuff \<times> ipc) outcome" where
  "message_queue_read w key sbuf s =
     (if queues s key = None then Ret (-1, sbuf, s)
      else
        (let buflen = MAXSIZE + 1 + 12 in
         and_then (msgrcv key buflen 0 s)
           (\<lambda>(r, s'). case r of
                None \<Rightarrow> print_text sbuf (Ret (-1, sbuf, s'))
              | Some x \<Rightarrow>
                  if length (core_image w sbuf) < length (mtext x) then Undefined
                  else
                    (let m = core_of_image w (mtype x) (overwrite (mtext x) (core_image w sbuf))
                     in print_text m (Ret (0, m, s'))))))"

section \<open>The stand-alone manager and the manager of the utility handler\<close>

text \<open>Both send the string length alone and receive type 1 only; they differ in the flag of
  \<open>msgsnd\<close>.\<close>

definition util_queue_send ::
  "bool \<Rightarrow> nat \<Rightarrow> int \<Rightarrow> msgbuff \<Rightarrow> ipc \<Rightarrow> (int \<times> ipc) outcome" where
  "util_queue_send nowait w key sbuf s =
     (if queues s key = None then Ret (-1, s)
      else case strlen_buf (msg_text sbuf) of
        None \<Rightarrow> Undefined
      | Some n \<Rightarrow>
          (let buflen = n + 1 in
           if length (util_image w sbuf) < buflen then Undefined
           else and_then (msgsnd nowait key
               \<lparr>mtype = msg_session_id sbuf, mtext = take buflen (util_image w sbuf)\<rparr> s)
             (\<lambda>(r, s'). if r < 0 then Ret (-1, s') else Ret (0, s'))))"

definition util_queue_receive ::
  "nat \<Rightarrow> int \<Rightarrow> msgbuff \<Rightarrow> ipc \<Rightarrow> (int \<times> msgbuff \<times> ipc) outcome" where
  "util_queue_receive w key sbuf s =
     (if queues s key = None then Ret (-1, sbuf, s)
      else print_text sbuf
        (and_then (msgrcv key MAXSIZE 1 s)
           (\<lambda>(r, s'). case r of
                None \<Rightarrow> Ret (-1, sbuf, s')
              | Some x \<Rightarrow>
                  (let m = util_of_image w (mtype x) (overwrite (mtext x) (util_image w sbuf))
                   in print_text m (Ret (0, m, s'))))))"

definition standalone_queue_write :: "nat \<Rightarrow> int \<Rightarrow> msgbuff \<Rightarrow> ipc \<Rightarrow> (int \<times> ipc) outcome" where
  "standalone_queue_write = util_queue_send False"

definition standalone_queue_read ::
  "nat \<Rightarrow> int \<Rightarrow> msgbuff \<Rightarrow> ipc \<Rightarrow> (int \<times> msgbuff \<times> ipc) outcome" where
  "standalone_queue_read = util_queue_receive"

definition utility_queue_write :: "nat \<Rightarrow> int \<Rightarrow> msgbuff \<Rightarrow> ipc \<Rightarrow> (int \<times> ipc) outcome" where
  "utility_queue_write = util_queue_send True"

definition utility_queue_read ::
  "nat \<Rightarrow> int \<Rightarrow> msgbuff \<Rightarrow> ipc \<Rightarrow> (int \<times> msgbuff \<times> ipc) outcome" where
  "utility_queue_read = util_queue_receive"


section \<open>What a manager puts on the wire\<close>

definition msg_ok :: "nat \<Rightarrow> msgbuff \<Rightarrow> bool" where
  "msg_ok w m \<longleftrightarrow> fits_long w (msg_type m) \<and> fits_long w (msg_state m) \<and> fits_long w (msg_event m)
     \<and> length (msg_text m) = MAXSIZE \<and> strlen_buf (msg_text m) \<noteq> None"

definition text_len :: "msgbuff \<Rightarrow> nat" where
  "text_len m = the (strlen_buf (msg_text m))"

definition wire :: "nat \<Rightarrow> msgbuff \<Rightarrow> sysv_msg" where
  "wire w m = \<lparr>mtype = msg_session_id m, mtext = take (text_len m + 13) (core_image w m)\<rparr>"

lemma text_len_less: "msg_ok w m \<Longrightarrow> text_len m < MAXSIZE"
  using strlen_buf_less [of "msg_text m"] by (auto simp: msg_ok_def text_len_def)

lemma length_core_image: "length (core_image w m) = 3 * w + length (msg_text m)"
  by (simp add: core_image_def)

lemma length_util_image: "length (util_image w m) = 3 * w + length (msg_text m)"
  by (simp add: util_image_def)

lemma core_of_image_core_image:
  assumes "fits_long w (msg_type m)" "fits_long w (msg_state m)" "fits_long w (msg_event m)"
  shows "core_of_image w sid
      (le_bytes w (msg_type m) @ le_bytes w (msg_state m) @ le_bytes w (msg_event m) @ t) =
    m\<lparr>msg_session_id := sid, msg_text := t\<rparr>"
  using assms by (simp add: core_of_image_def le_sint_le_bytes)

text \<open>Receiving the first \<open>n\<close> bytes of an image over a stale buffer: the header arrives when
  \<open>n\<close> covers it, the text is spliced with what the buffer held.\<close>

lemma core_of_image_prefix:
  assumes "msg_ok w m" and "length (msg_text b) = MAXSIZE" and "3 * w \<le> n" and "n \<le> 3 * w + MAXSIZE"
  shows "core_of_image w sid (overwrite (take n (core_image w m)) (core_image w b)) =
    m\<lparr>msg_session_id := sid,
      msg_text := take (n - 3 * w) (msg_text m) @ drop (n - 3 * w) (msg_text b)\<rparr>"
proof -
  have lm: "length (msg_text m) = MAXSIZE" using assms(1) by (simp add: msg_ok_def)
  have tk: "take n (core_image w m) = le_bytes w (msg_type m) @ le_bytes w (msg_state m) @
      le_bytes w (msg_event m) @ take (n - 3 * w) (msg_text m)"
    using assms(3) by (simp add: core_image_def diff_diff_left numeral_3_eq_3 add.assoc)
  have "drop n (core_image w b) = drop (n - 3 * w) (msg_text b)"
    using assms(3) by (simp add: core_image_def diff_diff_left numeral_3_eq_3 add.assoc)
  moreover have "length (take n (core_image w m)) = n"
    using assms(4) lm by (simp add: length_core_image)
  ultimately have "overwrite (take n (core_image w m)) (core_image w b) =
      le_bytes w (msg_type m) @ le_bytes w (msg_state m) @ le_bytes w (msg_event m) @
      (take (n - 3 * w) (msg_text m) @ drop (n - 3 * w) (msg_text b))"
    by (simp add: overwrite_def tk)
  then show ?thesis
    using assms(1) by (simp add: core_of_image_core_image msg_ok_def)
qed

lemma message_queue_write_eq:
  assumes "msg_ok w m" and "4 \<le> w" and "queues s key = Some q"
  shows "message_queue_write w key m s =
    (if msg_session_id m < 1 \<or> msgmax s < length (mtext (wire w m)) \<or>
        \<not> has_room s q (length (mtext (wire w m)))
     then Ret (-1, s) else Ret (0, set_queue key (q @ [wire w m]) s))"
proof -
  from assms(1) obtain n where n: "strlen_buf (msg_text m) = Some n"
    by (auto simp: msg_ok_def)
  then have "n + 1 + 12 = text_len m + 13" by (simp add: text_len_def)
  moreover have "\<not> length (core_image w m) < text_len m + 13"
    using text_len_less [OF assms(1)] assms(1,2)
    by (simp add: length_core_image msg_ok_def)
  ultimately show ?thesis
    using assms(3) n
    by (simp add: message_queue_write_def msgsnd_def wire_def Let_def add.commute)
qed

lemma message_queue_read_Cons:
  assumes "queues s key = Some (x # q)" and "length (mtext x) \<le> MAXSIZE + 13"
    and "length (mtext x) \<le> length (core_image w b)"
  shows "message_queue_read w key b s =
    (let m = core_of_image w (mtype x) (overwrite (mtext x) (core_image w b))
     in print_text m (Ret (0, m, set_queue key q s)))"
  using assms by (simp add: message_queue_read_def msgrcv_def Let_def)

section \<open>The ILP32 channel\<close>

text \<open>On a 4-byte \<open>long\<close> the 12 of \<open>buflen\<close> is exactly the three header fields.  What a receiver can
  observe of a message is its header and its C string.\<close>

type_synonym msg_view = "int \<times> int \<times> int \<times> int \<times> bytes"

definition view :: "msgbuff \<Rightarrow> msg_view" where
  "view m = (msg_session_id m, msg_type m, msg_state m, msg_event m, cstring (msg_text m))"

definition wire_view :: "sysv_msg \<Rightarrow> msg_view" where
  "wire_view x = (mtype x, le_sint (take 4 (mtext x)), le_sint (take 4 (drop 4 (mtext x))),
     le_sint (take 4 (drop 8 (mtext x))), cstring (drop 12 (mtext x)))"

definition contents :: "ipc \<Rightarrow> int \<Rightarrow> msg_view list option" where
  "contents s key = map_option (map wire_view) (queues s key)"

definition sent32 :: "sysv_msg \<Rightarrow> bool" where
  "sent32 x \<longleftrightarrow> (\<exists>m. msg_ok 4 m \<and> 0 < msg_session_id m \<and> x = wire 4 m)"

definition ipc_ok :: "ipc \<Rightarrow> bool" where
  "ipc_ok s \<longleftrightarrow> (\<forall>key q x. queues s key = Some q \<longrightarrow> x \<in> set q \<longrightarrow> sent32 x)"

lemma take_text_cstring:
  assumes "strlen_buf t = Some n"
  shows "cstring (take (Suc n) t @ u) = cstring t"
proof -
  have "strlen_buf (take (Suc n) t @ u) = Some n"
    using assms by (rule strlen_buf_prefix) simp
  then have "cstring (take (Suc n) t @ u) = take n (take (Suc n) t @ u)"
    by (simp add: strlen_buf_Some)
  also have "\<dots> = take n t" using strlen_buf_less [OF assms] by simp
  finally show ?thesis using assms by (simp add: strlen_buf_Some)
qed

lemma wire32_text:
  assumes "msg_ok 4 m"
  shows "mtext (wire 4 m) = le_bytes 4 (msg_type m) @ le_bytes 4 (msg_state m) @
    le_bytes 4 (msg_event m) @ take (Suc (text_len m)) (msg_text m)"
  by (simp add: wire_def core_image_def numeral_eq_Suc)

lemma wire_view_wire: "msg_ok 4 m \<Longrightarrow> wire_view (wire 4 m) = view m"
proof -
  assume ok: "msg_ok 4 m"
  then obtain n where n: "strlen_buf (msg_text m) = Some n" by (auto simp: msg_ok_def)
  then have "cstring (take (Suc n) (msg_text m)) = cstring (msg_text m)"
    using take_text_cstring [OF n, of "[]"] by simp
  then show ?thesis
    using ok n wire32_text [OF ok]
    by (simp add: wire_view_def view_def le_sint_le_bytes msg_ok_def text_len_def wire_def)
qed

lemma length_wire32: "msg_ok 4 m \<Longrightarrow> length (mtext (wire 4 m)) = text_len m + 13"
  using text_len_less [of 4 m] by (simp add: wire32_text msg_ok_def)

lemma read_wire32:
  assumes "msg_ok 4 m" and "length (msg_text b) = MAXSIZE"
  shows "let m' = core_of_image 4 (msg_session_id m)
                    (overwrite (mtext (wire 4 m)) (core_image 4 b))
         in view m' = view m \<and> msg_ok 4 m' \<and> msg_session_id m' = msg_session_id m"
proof -
  obtain n where n: "strlen_buf (msg_text m) = Some n" using assms(1) by (auto simp: msg_ok_def)
  have len: "length (msg_text m) = MAXSIZE" using assms(1) by (simp add: msg_ok_def)
  have less: "n < MAXSIZE" using strlen_buf_less [OF n] len by simp
  let ?t = "take (Suc n) (msg_text m) @ drop (Suc n) (msg_text b)"
  have "core_of_image 4 (msg_session_id m) (overwrite (mtext (wire 4 m)) (core_image 4 b)) =
      m\<lparr>msg_text := ?t\<rparr>"
    using core_of_image_prefix [OF assms, of "n + 13"] less n
    by (simp add: wire_def text_len_def)
  moreover have "strlen_buf ?t = Some n" using n by (rule strlen_buf_prefix) simp
  ultimately show ?thesis
    using assms len less take_text_cstring [OF n]
    by (simp add: view_def msg_ok_def Let_def)
qed

section \<open>The channel contract\<close>

text \<open>
  What the processes of the stack rely on: a send appends the observable message or fails without
  effect, a receive takes the oldest message, blocks on an empty queue, and fails on a queue that
  was never created.
\<close>

locale message_channel =
  fixes send :: "int \<Rightarrow> 'm \<Rightarrow> 's \<Rightarrow> (int \<times> 's) outcome"
    and recv :: "int \<Rightarrow> 'm \<Rightarrow> 's \<Rightarrow> (int \<times> 'm \<times> 's) outcome"
    and queue_of :: "'s \<Rightarrow> int \<Rightarrow> 'v list option"
    and observe :: "'m \<Rightarrow> 'v"
    and fits :: "'s \<Rightarrow> 'v list \<Rightarrow> 'v \<Rightarrow> bool"
    and sendable :: "'m \<Rightarrow> bool"
    and buffer_ok :: "'m \<Rightarrow> bool"
    and invar :: "'s \<Rightarrow> bool"
  assumes send_absent: "queue_of s k = None \<Longrightarrow> send k m s = Ret (-1, s)"
    and send_present: "invar s \<Longrightarrow> sendable m \<Longrightarrow> queue_of s k = Some q \<Longrightarrow>
      (if fits s q (observe m)
       then \<exists>s'. send k m s = Ret (0, s') \<and> invar s' \<and> fits s' = fits s \<and>
         queue_of s' = (queue_of s)(k := Some (q @ [observe m]))
       else send k m s = Ret (-1, s))"
    and recv_absent: "queue_of s k = None \<Longrightarrow> recv k b s = Ret (-1, b, s)"
    and recv_empty: "queue_of s k = Some [] \<Longrightarrow> recv k b s = Blocks"
    and recv_Cons: "invar s \<Longrightarrow> buffer_ok b \<Longrightarrow> queue_of s k = Some (v # q) \<Longrightarrow>
      \<exists>m s'. recv k b s = Ret (0, m, s') \<and> observe m = v \<and> sendable m \<and> buffer_ok m \<and>
        invar s' \<and> fits s' = fits s \<and> queue_of s' = (queue_of s)(k := Some q)"
begin

lemma send_returns:
  assumes "invar s" "sendable m"
  shows "\<exists>r s'. send k m s = Ret (r, s') \<and> invar s' \<and> fits s' = fits s \<and> (r = 0 \<or> r = -1 \<and> s' = s)"
proof (cases "queue_of s k")
  case None
  then show ?thesis using assms by (simp add: send_absent)
next
  case (Some q)
  from send_present [OF assms Some] assms show ?thesis by (auto split: if_splits)
qed

lemma send_result:
  assumes "invar s" "sendable m" "send k m s = Ret (r, s')"
  shows "invar s' \<and> fits s' = fits s \<and> queue_of s' =
    (case queue_of s k of
       None \<Rightarrow> queue_of s
     | Some q \<Rightarrow> if fits s q (observe m) then (queue_of s)(k := Some (q @ [observe m])) else queue_of s)"
proof (cases "queue_of s k")
  case None
  then show ?thesis using assms by (simp add: send_absent)
next
  case (Some q)
  from send_present [OF assms(1,2) Some] assms Some show ?thesis by (auto split: if_splits)
qed

lemma recv_result:
  assumes "invar s" "buffer_ok b" "recv k b s = Ret (0, m, s')"
  shows "\<exists>v q. queue_of s k = Some (v # q) \<and> observe m = v \<and> sendable m \<and> buffer_ok m \<and> invar s' \<and>
    fits s' = fits s \<and> queue_of s' = (queue_of s)(k := Some q)"
proof (cases "queue_of s k")
  case None
  then show ?thesis using assms by (simp add: recv_absent)
next
  case (Some q)
  then show ?thesis
  proof (cases q)
    case Nil
    then show ?thesis using assms Some by (simp add: recv_empty)
  next
    case (Cons v q')
    from recv_Cons [OF assms(1,2) Some [unfolded Cons]] assms(3) Some Cons show ?thesis by auto
  qed
qed

lemma recv_cases:
  assumes "invar s" "buffer_ok b"
  shows "recv k b s = Blocks \<or> recv k b s = Ret (-1, b, s) \<or> (\<exists>m s'. recv k b s = Ret (0, m, s'))"
proof (cases "queue_of s k")
  case None
  then show ?thesis by (simp add: recv_absent)
next
  case (Some q)
  then show ?thesis
    using recv_Cons [OF assms] recv_empty by (cases q) fastforce+
qed

text \<open>A message sent into an empty queue is what the next receive delivers.\<close>

lemma send_recv:
  assumes "invar s" "sendable m" "buffer_ok b" "queue_of s k = Some []" "send k m s = Ret (0, s1)"
  shows "\<exists>m' s2. recv k b s1 = Ret (0, m', s2) \<and> observe m' = observe m \<and> queue_of s2 = queue_of s"
proof -
  from send_present [OF assms(1,2,4)] assms(5)
  have "invar s1" and q: "queue_of s1 = (queue_of s)(k := Some [observe m])"
    by (auto split: if_splits)
  from recv_Cons [OF this(1) assms(3), of k "observe m" "[]"] q
  obtain m' s2 where "recv k b s1 = Ret (0, m', s2)" "observe m' = observe m"
    "queue_of s2 = (queue_of s1)(k := Some [])" by auto
  then show ?thesis using q assms(4) by (auto simp: fun_upd_idem)
qed

end

definition sendable32 :: "msgbuff \<Rightarrow> bool" where
  "sendable32 m \<longleftrightarrow> msg_ok 4 m \<and> 0 < msg_session_id m"

text \<open>When a queue takes a message, in terms of what can be observed: a message counts with its
  header, its characters and the terminator.\<close>

fun vsize :: "msg_view \<Rightarrow> nat" where
  "vsize (sid, ty, st, ev, tx) = length tx + 13"

definition accepts :: "ipc \<Rightarrow> msg_view list \<Rightarrow> msg_view \<Rightarrow> bool" where
  "accepts s q v \<longleftrightarrow> vsize v \<le> msgmax s \<and> sum_list (map vsize q) + vsize v \<le> msgmnb s \<and>
     Suc (length q) \<le> msgmnb s"

lemma accepts_set_queue [simp]: "accepts (set_queue k q s) = accepts s"
  by (intro ext) (simp add: accepts_def set_queue_def)

lemma vsize_view: "msg_ok w m \<Longrightarrow> vsize (view m) = text_len m + 13"
  using text_len_less [of w m]
  by (auto simp: view_def text_len_def msg_ok_def strlen_buf_Some)

lemma sent32_size: "sent32 x \<Longrightarrow> length (mtext x) = vsize (wire_view x)"
  by (auto simp: sent32_def wire_view_wire length_wire32 vsize_view)

lemma ipc_ok_bytes:
  assumes "ipc_ok s" "queues s k = Some xs"
  shows "qbytes xs = sum_list (map vsize (map wire_view xs))"
proof -
  have "map (\<lambda>x. length (mtext x)) xs = map (\<lambda>x. vsize (wire_view x)) xs"
    using assms by (intro map_cong) (auto simp: ipc_ok_def sent32_size)
  then show ?thesis by (simp only: qbytes_def map_map o_def)
qed

definition buffer32 :: "msgbuff \<Rightarrow> bool" where
  "buffer32 b \<longleftrightarrow> length (msg_text b) = MAXSIZE"

lemma contents_set_queue:
  "contents (set_queue k q s) = (contents s)(k := Some (map wire_view q))"
  by (rule ext) (simp add: contents_def set_queue_def)

lemma ipc_ok_set_queue:
  "ipc_ok s \<Longrightarrow> (\<And>x. x \<in> set q \<Longrightarrow> sent32 x) \<Longrightarrow> ipc_ok (set_queue k q s)"
  by (auto simp: ipc_ok_def set_queue_def split: if_splits)

lemma write32_present:
  assumes "ipc_ok s" "sendable32 m" "contents s k = Some q"
  shows "if accepts s q (view m)
    then \<exists>s'. message_queue_write 4 k m s = Ret (0, s') \<and> ipc_ok s' \<and> accepts s' = accepts s \<and>
       contents s' = (contents s)(k := Some (q @ [view m]))
    else message_queue_write 4 k m s = Ret (-1, s)"
proof -
  from assms(3) obtain xs where xs: "queues s k = Some xs" "q = map wire_view xs"
    by (auto simp: contents_def)
  from assms(2) have ok: "msg_ok 4 m" and "0 < msg_session_id m" by (auto simp: sendable32_def)
  then have "sent32 (wire 4 m)" by (auto simp: sent32_def)
  with assms(1) xs(1) have "ipc_ok (set_queue k (xs @ [wire 4 m]) s)"
    by (intro ipc_ok_set_queue) (auto simp: ipc_ok_def)
  moreover have "accepts s q (view m) \<longleftrightarrow>
      \<not> (msg_session_id m < 1 \<or> msgmax s < length (mtext (wire 4 m)) \<or>
         \<not> has_room s xs (length (mtext (wire 4 m))))"
    using \<open>0 < msg_session_id m\<close> ipc_ok_bytes [OF assms(1) xs(1)] xs(2)
    by (auto simp: accepts_def has_room_def length_wire32 [OF ok] vsize_view [OF ok])
  ultimately show ?thesis
    using xs by (simp add: message_queue_write_eq [OF ok] contents_set_queue wire_view_wire [OF ok])
qed

lemma read32_Cons:
  assumes "ipc_ok s" "buffer32 b" "contents s k = Some (v # q)"
  shows "\<exists>m s'. message_queue_read 4 k b s = Ret (0, m, s') \<and> view m = v \<and> sendable32 m \<and>
    buffer32 m \<and> ipc_ok s' \<and> accepts s' = accepts s \<and> contents s' = (contents s)(k := Some q)"
proof -
  from assms(3) obtain x xs where xs: "queues s k = Some (x # xs)" "v = wire_view x"
    "q = map wire_view xs" by (auto simp: contents_def)
  from assms(1) xs(1) obtain m0 where m0: "msg_ok 4 m0" "0 < msg_session_id m0" "x = wire 4 m0"
    by (fastforce simp: ipc_ok_def sent32_def)
  have len: "length (mtext x) \<le> MAXSIZE + 13 \<and> length (mtext x) \<le> length (core_image 4 b)"
    using text_len_less [OF m0(1)] assms(2)
    by (simp add: m0(3) length_wire32 [OF m0(1)] length_core_image buffer32_def)
  let ?m = "core_of_image 4 (mtype x) (overwrite (mtext x) (core_image 4 b))"
  have m: "view ?m = view m0 \<and> msg_ok 4 ?m \<and> msg_session_id ?m = msg_session_id m0"
    using read_wire32 [OF m0(1), of b] assms(2)
    by (simp add: buffer32_def m0(3) wire_def Let_def)
  have "ipc_ok (set_queue k xs s)"
    using assms(1) xs(1) by (intro ipc_ok_set_queue) (auto simp: ipc_ok_def)
  then show ?thesis
    using message_queue_read_Cons [OF xs(1)] len m m0 xs wire_view_wire [OF m0(1)]
    by (simp add: Let_def print_text_def msg_ok_def sendable32_def buffer32_def contents_set_queue)
qed

interpretation chan: message_channel "message_queue_write 4" "message_queue_read 4" contents view
  accepts sendable32 buffer32 ipc_ok
proof unfold_locales
  show "message_queue_write 4 k m s = Ret (-1, s)" if "contents s k = None" for s k m
    using that by (simp add: message_queue_write_def contents_def)
  show "message_queue_read 4 k b s = Ret (-1, b, s)" if "contents s k = None" for s k b
    using that by (simp add: message_queue_read_def contents_def)
  show "message_queue_read 4 k b s = Blocks" if "contents s k = Some []" for s k b
    using that by (auto simp: message_queue_read_def contents_def msgrcv_def Let_def)
qed (fact write32_present read32_Cons)+

section \<open>Properties of the managers\<close>

text \<open>Reading a queue out: the observed messages, in order.\<close>

fun receive_n :: "nat \<Rightarrow> int \<Rightarrow> msgbuff \<Rightarrow> ipc \<Rightarrow> (msg_view list \<times> ipc) outcome" where
  "receive_n 0 key b s = Ret ([], s)"
| "receive_n (Suc n) key b s =
     and_then (message_queue_read 4 key b s)
       (\<lambda>(r, m, s1). and_then (receive_n n key m s1) (\<lambda>(vs, s2). Ret (view m # vs, s2)))"

lemma receive_n_contents:
  assumes "ipc_ok s" "buffer32 b" "contents s key = Some (vs @ ws)"
  shows "\<exists>s'. receive_n (length vs) key b s = Ret (vs, s') \<and>
    contents s' = (contents s)(key := Some ws)"
  using assms
proof (induction vs arbitrary: s b)
  case Nil
  then show ?case by (auto simp: fun_upd_idem)
next
  case (Cons v vs)
  from chan.recv_Cons [OF Cons.prems(1,2), of key v "vs @ ws"] Cons.prems(3) obtain m s1 where
    r: "message_queue_read 4 key b s = Ret (0, m, s1)" "view m = v" "buffer32 m" "ipc_ok s1"
      "contents s1 = (contents s)(key := Some (vs @ ws))" by auto
  have "contents s1 key = Some (vs @ ws)" using r(5) by simp
  from Cons.IH [OF r(4,3) this] obtain s' where
    "receive_n (length vs) key m s1 = Ret (vs, s')" "contents s' = (contents s1)(key := Some ws)"
    by blast
  with r show ?case by (simp del: fun_upd_apply)
qed

text \<open>C1. On ILP32 a message that was written is read back, by any buffer, after the messages already
  in the queue and with the same session, type, state, event and text.\<close>
theorem ilp32_written_is_read_in_order:
  assumes "ipc_ok s" "sendable32 m" "buffer32 b" "contents s key = Some q"
    and "message_queue_write 4 key m s = Ret (0, s1)"
  shows "\<exists>s2. receive_n (Suc (length q)) key b s1 = Ret (q @ [view m], s2) \<and>
    contents s2 = (contents s)(key := Some [])"
proof -
  from chan.send_present [OF assms(1,2,4)] assms(5)
  have s1: "ipc_ok s1" "contents s1 = (contents s)(key := Some (q @ [view m]))"
    by (auto split: if_splits)
  from receive_n_contents [OF s1(1) assms(3), of key "q @ [view m]" "[]"] s1(2)
  show ?thesis by simp
qed

definition sample_msg :: msgbuff where
  "sample_msg = \<lparr>msg_session_id = 1, msg_type = 0, msg_state = 7, msg_event = 9,
     msg_text = [65, 66, 67, 68, 69, 70, 71, 72, 73, 74, 75, 76] @ 0 # replicate 115 0\<rparr>"

definition sample_buffer :: msgbuff where
  "sample_buffer = sample_msg\<lparr>msg_state := 3, msg_event := 4, msg_text := replicate 128 0\<rparr>"

definition sample_ipc :: ipc where
  "sample_ipc = \<lparr>queues = [5 \<mapsto> []], free_ids = 3, msgmax = 8192, msgmnb = 16384\<rparr>"

lemma sample_strlen: "strlen_buf (msg_text sample_msg) = Some 12"
  using strlen_buf_string [of "[65, 66, 67, 68, 69, 70, 71, 72, 73, 74, 75, 76]" "replicate 115 0"]
  by (simp add: sample_msg_def)

lemma sample_ok:
  "w \<in> {4, 8} \<Longrightarrow> msg_ok w sample_msg" "sendable32 sample_msg" "buffer32 sample_buffer"
  "buffer32 sample_msg" "ipc_ok sample_ipc" "contents sample_ipc 5 = Some []"
  "text_len sample_msg = 12" "length (msg_text sample_buffer) = MAXSIZE"
  "strlen_buf (msg_text sample_buffer) \<noteq> None" "fits_long 8 (msg_state sample_buffer)"
  "fits_long 8 (msg_event sample_buffer)" "length (msg_text sample_msg) = 128"
proof -
  have "length (msg_text sample_msg) = MAXSIZE" "msg_type sample_msg = 0" "msg_state sample_msg = 7"
    "msg_event sample_msg = 9" "msg_session_id sample_msg = 1"
    by (simp_all add: sample_msg_def MAXSIZE_def)
  then show "w \<in> {4, 8} \<Longrightarrow> msg_ok w sample_msg" "sendable32 sample_msg" "buffer32 sample_msg"
    "length (msg_text sample_msg) = 128"
    by (auto simp: msg_ok_def sendable32_def buffer32_def fits_long_def sample_strlen MAXSIZE_def)
  show "text_len sample_msg = 12" by (simp add: text_len_def sample_strlen)
qed (simp_all add: sample_buffer_def buffer32_def ipc_ok_def sample_ipc_def contents_def fits_long_def
    MAXSIZE_def)

lemma sample_write:
  "w \<in> {4, 8} \<Longrightarrow> message_queue_write w 5 sample_msg sample_ipc =
     Ret (0, set_queue 5 [wire w sample_msg] sample_ipc)"
  using message_queue_write_eq [OF sample_ok(1), of w sample_ipc 5 "[]"]
  by (auto simp: sample_ipc_def wire_def sample_ok length_core_image has_room_def qbytes_def sample_msg_def)

lemma ilp32_written_is_read_in_order_witness:
  "\<exists>s2. receive_n (Suc 0) 5 sample_buffer (set_queue 5 [wire 4 sample_msg] sample_ipc) =
     Ret ([view sample_msg], s2) \<and> contents s2 = (contents sample_ipc)(5 := Some [])"
  using ilp32_written_is_read_in_order [OF sample_ok(5) sample_ok(2,3) sample_ok(6) sample_write]
  by simp

text \<open>What the programs of this library can have done to the kernel's queues: created them, written
  messages of whatever fields and text, and read messages into whatever buffer.\<close>

inductive peers :: "ipc \<Rightarrow> bool" where
  start: "queues s = (\<lambda>_. None) \<Longrightarrow> peers s"
| creates: "peers s \<Longrightarrow> peers (snd (message_queue_init key s))"
| writes: "peers s \<Longrightarrow> fits_long 4 (msg_type m) \<Longrightarrow> fits_long 4 (msg_state m) \<Longrightarrow>
    fits_long 4 (msg_event m) \<Longrightarrow> length (msg_text m) = MAXSIZE \<Longrightarrow>
    message_queue_write 4 key m s = Ret (r, s') \<Longrightarrow> peers s'"
| reads: "peers s \<Longrightarrow> length (msg_text b) = MAXSIZE \<Longrightarrow>
    message_queue_read 4 key b s = Ret (r, b', s') \<Longrightarrow> peers s'"

lemma write32_unterminated:
  assumes "length (msg_text m) = MAXSIZE" "strlen_buf (msg_text m) = None"
  shows "message_queue_write 4 key m s = (if queues s key = None then Ret (-1, s) else Undefined)"
  using assms by (simp add: message_queue_write_def)

lemma write32_ipc_ok:
  assumes "ipc_ok s" "fits_long 4 (msg_type m)" "fits_long 4 (msg_state m)" "fits_long 4 (msg_event m)"
    "length (msg_text m) = MAXSIZE" "message_queue_write 4 key m s = Ret (r, s')"
  shows "ipc_ok s'"
proof (cases "queues s key = None \<or> strlen_buf (msg_text m) = None")
  case True
  then have "s' = s" using assms(6) write32_unterminated [OF assms(5), of key s]
    by (cases "queues s key") (simp_all add: message_queue_write_def)
  then show ?thesis using assms(1) by simp
next
  case False
  then obtain xs where xs: "queues s key = Some xs" and ok: "msg_ok 4 m"
    using assms by (auto simp: msg_ok_def)
  show ?thesis
  proof (cases "msg_session_id m < 1")
    case True
    then show ?thesis using assms(1,6) by (simp add: message_queue_write_eq [OF ok _ xs])
  next
    case False
    then have "sendable32 m" using ok by (simp add: sendable32_def)
    from chan.send_result [OF assms(1) this assms(6)] show ?thesis by simp
  qed
qed

lemma peers_ipc_ok: "peers s \<Longrightarrow> ipc_ok s"
proof (induction rule: peers.induct)
  case (start s)
  then show ?case by (simp add: ipc_ok_def)
next
  case (creates s key)
  then show ?case
    by (auto simp: message_queue_init_def msgget_creat_def ipc_ok_def set_queue_def split: if_splits)
next
  case (writes s m key r s')
  from write32_ipc_ok [OF writes.IH writes.hyps(2-6)] show ?case .
next
  case (reads s b key r b' s')
  then have b: "buffer32 b" by (simp add: buffer32_def)
  from chan.recv_cases [OF reads.IH b, of key] show ?case
  proof (elim disjE exE)
    fix m s1 assume "message_queue_read 4 key b s = Ret (0, m, s1)"
    with chan.recv_result [OF reads.IH b this] reads.hyps show ?thesis by auto
  qed (use reads in auto)
qed

lemma write32_undefined:
  assumes "length (msg_text m) = MAXSIZE"
  shows "message_queue_write 4 key m s = Undefined \<longleftrightarrow> queues s key \<noteq> None \<and> 0 \<notin> set (msg_text m)"
proof (cases "strlen_buf (msg_text m)")
  case None
  then show ?thesis using strlen_buf_None [of "msg_text m"] by (simp add: message_queue_write_def)
next
  case (Some n)
  then have "0 \<in> set (msg_text m)" using strlen_buf_None [of "msg_text m"] by auto
  moreover have "\<not> length (core_image 4 m) < n + 1 + 12"
    using strlen_buf_less [OF Some] assms by (simp add: length_core_image)
  ultimately show ?thesis
    using Some by (auto simp: message_queue_write_def msgsnd_def Let_def split: option.splits)
qed

lemma write32_image:
  assumes "length (msg_text m) = MAXSIZE" "message_queue_write 4 key m s = Ret (0, s')"
  shows "\<exists>q. queues s key = Some q \<and> s' = set_queue key (q @ [\<lparr>mtype = msg_session_id m,
     mtext = le_bytes 4 (msg_type m) @ le_bytes 4 (msg_state m) @ le_bytes 4 (msg_event m) @
       cstring (msg_text m) @ [0]\<rparr>]) s"
proof (cases "strlen_buf (msg_text m)")
  case None
  then show ?thesis using assms(2) by (simp add: message_queue_write_def split: if_splits)
next
  case (Some n)
  note n = strlen_buf_Some [OF Some]
  then have "take (Suc n) (msg_text m) = cstring (msg_text m) @ [0]"
    by (simp add: take_Suc_conv_app_nth)
  then have img: "take (n + 1 + 12) (core_image 4 m) = le_bytes 4 (msg_type m) @
      le_bytes 4 (msg_state m) @ le_bytes 4 (msg_event m) @ cstring (msg_text m) @ [0]"
    by (simp add: core_image_def numeral_eq_Suc)
  have "\<not> length (core_image 4 m) < n + 1 + 12"
    using n assms(1) by (simp add: length_core_image)
  with assms(2) Some img show ?thesis
    by (auto simp: message_queue_write_def msgsnd_def Let_def split: option.splits if_splits)
qed



text \<open>The session id doubles as the message type of the system call: with an id below 1 nothing is
  ever sent, on any width of \<open>long\<close>.\<close>
lemma write_needs_positive_session:
  assumes "msg_ok w m" "4 \<le> w" "msg_session_id m \<le> 0"
  shows "message_queue_write w key m s = Ret (-1, s)"
proof (cases "queues s key")
  case None
  then show ?thesis by (simp add: message_queue_write_def)
next
  case (Some q)
  then show ?thesis using assms(3) by (simp add: message_queue_write_eq [OF assms(1,2)])
qed

lemma write_needs_positive_session_witness:
  "message_queue_write 8 5 (sample_msg\<lparr>msg_session_id := 0\<rparr>) sample_ipc = Ret (-1, sample_ipc)"
proof (rule write_needs_positive_session)
  show "msg_ok 8 (sample_msg\<lparr>msg_session_id := 0\<rparr>)" using sample_ok(1) [of 8] by (simp add: msg_ok_def)
qed simp_all

lemma set_queue_twice: "set_queue k q (set_queue k q' s) = set_queue k q s"
  by (simp add: set_queue_def)

text \<open>C3. On LP64 the 12 of \<open>buflen\<close> covers half of the three header fields: the last 12 bytes of the
  string, its terminator included, are never sent, and the reader sees its own stale bytes there.\<close>
theorem lp64_write_cuts_text:
  assumes "msg_ok 8 m" "0 < msg_session_id m" "11 \<le> text_len m" "length (msg_text b) = MAXSIZE"
    and "queues s key = Some []" "text_len m + 13 \<le> msgmax s" "text_len m + 13 \<le> msgmnb s"
  shows "\<exists>s1. message_queue_write 8 key m s = Ret (0, s1) \<and>
    message_queue_read 8 key b s1 =
      (let k = text_len m - 11; m' = m\<lparr>msg_text := take k (msg_text m) @ drop k (msg_text b)\<rparr>
       in print_text m' (Ret (0, m', set_queue key [] s)))"
proof -
  let ?n = "text_len m + 13"
  have tl: "text_len m < MAXSIZE" using assms(1) by (rule text_len_less)
  have lm: "length (msg_text m) = MAXSIZE" using assms(1) by (simp add: msg_ok_def)
  have len: "length (mtext (wire 8 m)) = ?n"
    using tl lm by (simp add: wire_def length_core_image)
  have w: "message_queue_write 8 key m s = Ret (0, set_queue key [wire 8 m] s)"
    using assms by (simp add: message_queue_write_eq [OF assms(1) _ assms(5)] len has_room_def qbytes_def)
  have "message_queue_read 8 key b (set_queue key [wire 8 m] s) =
      (let m' = core_of_image 8 (msg_session_id m) (overwrite (take ?n (core_image 8 m)) (core_image 8 b))
       in print_text m' (Ret (0, m', set_queue key [] s)))"
    using message_queue_read_Cons [of "set_queue key [wire 8 m] s" key "wire 8 m" "[]" 8 b] tl assms(4) lm
    by (simp add: len set_queue_twice length_core_image) (simp add: set_queue_def wire_def)
  also have "core_of_image 8 (msg_session_id m) (overwrite (take ?n (core_image 8 m)) (core_image 8 b)) =
      m\<lparr>msg_text := take (text_len m - 11) (msg_text m) @ drop (text_len m - 11) (msg_text b)\<rparr>"
    using core_of_image_prefix [OF assms(1,4), of ?n] assms(3) tl by simp
  finally show ?thesis using w by (simp add: Let_def)
qed

lemma lp64_write_cuts_text_witness:
  "\<exists>s1. message_queue_write 8 5 sample_msg sample_ipc = Ret (0, s1) \<and>
    message_queue_read 8 5 sample_buffer s1 =
      Ret (0, sample_msg\<lparr>msg_text := 65 # replicate 127 0\<rparr>, set_queue 5 [] sample_ipc)"
proof -
  have "\<exists>s1. message_queue_write 8 5 sample_msg sample_ipc = Ret (0, s1) \<and>
    message_queue_read 8 5 sample_buffer s1 =
      (let k = text_len sample_msg - 11;
           m' = sample_msg\<lparr>msg_text := take k (msg_text sample_msg) @ drop k (msg_text sample_buffer)\<rparr>
       in print_text m' (Ret (0, m', set_queue 5 [] sample_ipc)))"
    by (rule lp64_write_cuts_text)
      (simp_all add: sample_ok, simp_all add: sample_msg_def sample_ipc_def)
  moreover have "take (Suc 0) (msg_text sample_msg) @ drop (Suc 0) (msg_text sample_buffer) = 65 # replicate 127 0"
    by (simp add: sample_msg_def sample_buffer_def)
  ultimately show ?thesis by (simp add: sample_ok print_text_def Let_def)
qed

lemma util_of_image_prefix:
  assumes "msg_ok w m" "msg_ok w b" "w \<le> n" "n \<le> w + MAXSIZE"
  shows "util_of_image w sid (overwrite (take n (util_image w m)) (util_image w b)) =
    b\<lparr>msg_session_id := sid, msg_type := msg_type m,
      msg_text := take (n - w) (msg_text m) @ drop (n - w) (msg_text b)\<rparr>"
proof -
  have lm: "length (msg_text m) = MAXSIZE" "length (msg_text b) = MAXSIZE"
    using assms(1,2) by (simp_all add: msg_ok_def)
  have tk: "take n (util_image w m) = le_bytes w (msg_type m) @ take (n - w) (msg_text m)"
    using assms(3,4) lm by (simp add: util_image_def)
  have "drop n (util_image w b) = drop (n - w) (msg_text b) @
      le_bytes w (msg_state b) @ le_bytes w (msg_event b)"
    using assms(3,4) lm by (simp add: util_image_def)
  moreover have "length (take n (util_image w m)) = n"
    using assms(4) lm by (simp add: length_util_image)
  ultimately have eq: "overwrite (take n (util_image w m)) (util_image w b) =
      le_bytes w (msg_type m) @ (take (n - w) (msg_text m) @ drop (n - w) (msg_text b)) @
      le_bytes w (msg_state b) @ le_bytes w (msg_event b)"
    by (simp add: overwrite_def tk)
  have len: "length (take (n - w) (msg_text m) @ drop (n - w) (msg_text b)) = MAXSIZE"
    using assms(4) lm by simp
  show ?thesis
    unfolding eq util_of_image_def using assms(1,2,4) len
    by (cases b) (simp add: le_sint_le_bytes msg_ok_def min_absorb2)
qed

lemma util_send_receive:
  assumes "msg_ok w m" "msg_ok w b" "msg_session_id m = 1" "w \<le> Suc (text_len m)"
    and "queues s key = Some []" "Suc (text_len m) \<le> msgmax s" "Suc (text_len m) \<le> msgmnb s"
  shows "\<exists>s1. util_queue_send nowait w key m s = Ret (0, s1) \<and>
    util_queue_receive w key b s1 =
      (let k = Suc (text_len m) - w;
           m' = \<lparr>msg_session_id = 1, msg_type = msg_type m, msg_state = msg_state b,
                 msg_event = msg_event b, msg_text = take k (msg_text m) @ drop k (msg_text b)\<rparr>
       in print_text m' (Ret (0, m', set_queue key [] s)))"
proof -
  let ?n = "Suc (text_len m)"
  let ?x = "\<lparr>mtype = 1, mtext = take ?n (util_image w m)\<rparr>"
  have tl: "text_len m < MAXSIZE" using assms(1) by (rule text_len_less)
  have lm: "length (msg_text m) = MAXSIZE" using assms(1) by (simp add: msg_ok_def)
  have len: "length (mtext ?x) = ?n" using tl lm by (simp add: length_util_image)
  have st: "strlen_buf (msg_text m) = Some (text_len m)" "strlen_buf (msg_text b) \<noteq> None"
    using assms(1,2) by (auto simp: msg_ok_def text_len_def)
  have "has_room s [] ?n" using assms(6,7) by (simp add: has_room_def qbytes_def)
  then have "util_queue_send nowait w key m s = Ret (0, set_queue key [?x] s)"
    using assms(3,5,6) st len tl lm by (simp add: util_queue_send_def msgsnd_def length_util_image Let_def)
  moreover have "util_queue_receive w key b (set_queue key [?x] s) =
      (let m' = util_of_image w 1 (overwrite (mtext ?x) (util_image w b))
       in print_text m' (Ret (0, m', set_queue key [] s)))"
    using st len tl
    by (auto simp: util_queue_receive_def msgrcv_def print_text_def set_queue_def Let_def)
  moreover have "util_of_image w 1 (overwrite (mtext ?x) (util_image w b)) =
      \<lparr>msg_session_id = 1, msg_type = msg_type m, msg_state = msg_state b, msg_event = msg_event b,
       msg_text = take (?n - w) (msg_text m) @ drop (?n - w) (msg_text b)\<rparr>"
    using util_of_image_prefix [OF assms(1,2,4)] tl by (cases b) simp
  ultimately show ?thesis by (simp add: Let_def)
qed

text \<open>C4. The managers of the utility handler and of the stand-alone program never transmit the state
  and the event of a message: after a successful exchange the reader has the sender's type, a text
  cut by one \<open>long\<close>, and its own old state and event.\<close>
theorem util_exchange_drops_state_and_event:
  assumes "msg_ok w m" "msg_ok w b" "msg_session_id m = 1" "w \<le> Suc (text_len m)"
    and "queues s key = Some []" "Suc (text_len m) \<le> msgmax s" "Suc (text_len m) \<le> msgmnb s"
    and "(wr, rd) \<in> {(utility_queue_write, utility_queue_read),
                     (standalone_queue_write, standalone_queue_read)}"
  shows "\<exists>s1. wr w key m s = Ret (0, s1) \<and>
    rd w key b s1 =
      (let k = Suc (text_len m) - w;
           m' = \<lparr>msg_session_id = 1, msg_type = msg_type m, msg_state = msg_state b,
                 msg_event = msg_event b, msg_text = take k (msg_text m) @ drop k (msg_text b)\<rparr>
       in print_text m' (Ret (0, m', set_queue key [] s)))"
  using util_send_receive [OF assms(1-7), of True] util_send_receive [OF assms(1-7), of False] assms(8)
  by (auto simp: utility_queue_write_def utility_queue_read_def standalone_queue_write_def
      standalone_queue_read_def)

lemma util_exchange_drops_state_and_event_witness:
  "\<exists>s1. utility_queue_write 8 5 sample_msg sample_ipc = Ret (0, s1) \<and>
    utility_queue_read 8 5 sample_buffer s1 =
      (let k = Suc (text_len sample_msg) - 8;
           m' = \<lparr>msg_session_id = 1, msg_type = msg_type sample_msg, msg_state = msg_state sample_buffer,
                 msg_event = msg_event sample_buffer,
                 msg_text = take k (msg_text sample_msg) @ drop k (msg_text sample_buffer)\<rparr>
       in print_text m' (Ret (0, m', set_queue 5 [] sample_ipc)))"
proof (rule util_exchange_drops_state_and_event)
  show "msg_ok 8 sample_msg" by (simp add: sample_ok)
  show "msg_ok 8 sample_buffer"
    using sample_ok(8-11) by (simp add: msg_ok_def sample_buffer_def sample_msg_def fits_long_def)
qed (simp_all add: sample_ok, simp_all add: sample_msg_def sample_ipc_def)

end
