(* ===== verification/Core_Fsm.thy ===== *)
theory Core_Fsm
  imports Message_Queue
begin

text \<open>
  The core state machine, \<open>core/src/core_fsm.c\<close> with \<open>core/include/core_fsm.h\<close> and
  \<open>core/include/queue_manager.h\<close>: its transition table, the transition functions, the reading of
  the next message and the loop of \<open>main\<close>.  The width of \<open>long\<close> stays a parameter.
\<close>

section \<open>Constants\<close>

abbreviation (input) QUEUE_DEVICE :: int where "QUEUE_DEVICE \<equiv> 10201"
abbreviation (input) QUEUE_APPLICATION :: int where "QUEUE_APPLICATION \<equiv> 10202"
abbreviation (input) QUEUE_CORE :: int where "QUEUE_CORE \<equiv> 10204"

abbreviation (input) MSG_TYPE_GLOW_LED :: int where "MSG_TYPE_GLOW_LED \<equiv> 0"

abbreviation (input) ST_TERM :: int where "ST_TERM \<equiv> 2"
abbreviation (input) ST_INIT :: int where "ST_INIT \<equiv> 12301"
abbreviation (input) ST_SEND_TO_DEVICE :: int where "ST_SEND_TO_DEVICE \<equiv> 12302"
abbreviation (input) ST_SEND_ACK :: int where "ST_SEND_ACK \<equiv> 12303"

abbreviation (input) EV_READ_FROM_DEVICE :: int where "EV_READ_FROM_DEVICE \<equiv> 5000"
abbreviation (input) EV_SEND_TO_CORE_NO_ACK :: int where "EV_SEND_TO_CORE_NO_ACK \<equiv> 12351"
abbreviation (input) EV_SEND_TO_DEVICE :: int where "EV_SEND_TO_DEVICE \<equiv> 12352"
abbreviation (input) EV_SEND_TO_CORE :: int where "EV_SEND_TO_CORE \<equiv> 12353"
abbreviation (input) EV_SEND_TO_APP :: int where "EV_SEND_TO_APP \<equiv> 12354"
abbreviation (input) EV_SEND_TO_CORE_DEV_ACK :: int where "EV_SEND_TO_CORE_DEV_ACK \<equiv> 12355"
abbreviation (input) EV_SEND_TO_DEVICE_NO_ACK :: int where "EV_SEND_TO_DEVICE_NO_ACK \<equiv> 12352"

section \<open>State and transition functions\<close>

text \<open>The globals of the process and the kernel's queues.\<close>

record core =
  c_state :: int
  c_event :: int
  c_message_type :: int
  c_msg :: msgbuff
  c_ipc :: ipc

text \<open>A transition function gets the message by value, sends copies of it, and returns what
  \<open>main\<close> stores in \<open>state\<close>.  The traces print the global \<open>msg\<close>, here \<open>g\<close>.\<close>

definition send_copy ::
  "nat \<Rightarrow> msgbuff \<Rightarrow> int \<Rightarrow> msgbuff \<Rightarrow> ipc \<Rightarrow> ipc outcome" where
  "send_copy w g key m s =
     and_then (message_queue_write w key m s) (\<lambda>(_, s'). print_text g (Ret s'))"

text \<open>The two string literals the transition functions copy.\<close>

definition led_text :: bytes where
  "led_text = bytes_of_string (''Hey Device Please GLow the LED'' @ [CHR 0x0A])"

definition ack_text :: bytes where
  "ack_text = bytes_of_string (''Ack for the Application'' @ [CHR 0x0A])"

definition Init_led :: "nat \<Rightarrow> msgbuff \<Rightarrow> msgbuff \<Rightarrow> ipc \<Rightarrow> (int \<times> ipc) outcome" where
  "Init_led w g m s =
     (if msg_event m = EV_SEND_TO_CORE_NO_ACK then
        and_then (send_copy w g QUEUE_CORE
            (m\<lparr>msg_state := ST_SEND_TO_DEVICE, msg_event := EV_SEND_TO_DEVICE_NO_ACK\<rparr>) s)
          (\<lambda>s1. Ret (0, s1))
      else if msg_event m = EV_SEND_TO_CORE then
        and_then (send_copy w g QUEUE_APPLICATION
            (m\<lparr>msg_state := ST_SEND_ACK, msg_event := EV_SEND_TO_APP\<rparr>) s)
          (\<lambda>s1. and_then (send_copy w g QUEUE_DEVICE
              (m\<lparr>msg_state := ST_SEND_TO_DEVICE, msg_event := EV_SEND_TO_DEVICE_NO_ACK\<rparr>) s1)
            (\<lambda>s2. Ret (0, s2)))
      else if msg_event m = EV_SEND_TO_CORE_DEV_ACK then
        and_then (strcpy_buf (msg_text m) led_text)
          (\<lambda>t. and_then (send_copy w g QUEUE_DEVICE
              (m\<lparr>msg_state := ST_SEND_TO_DEVICE, msg_event := EV_SEND_TO_DEVICE, msg_text := t\<rparr>) s)
            (\<lambda>s1. Ret (0, s1)))
      else Ret (0, s))"

text \<open>Both tests of \<open>Send_ack\<close> are on constants; the second guards the ack.\<close>

definition Send_ack :: "nat \<Rightarrow> msgbuff \<Rightarrow> msgbuff \<Rightarrow> ipc \<Rightarrow> (int \<times> ipc) outcome" where
  "Send_ack w g m s =
     (if EV_SEND_TO_DEVICE \<noteq> 0 then
        and_then (strcpy_buf (msg_text m) ack_text)
          (\<lambda>t. and_then (send_copy w g QUEUE_APPLICATION
              (m\<lparr>msg_state := ST_SEND_ACK, msg_event := EV_SEND_TO_APP, msg_text := t\<rparr>) s)
            (\<lambda>s1. Ret (0, s1)))
      else Ret (0, s))"

definition core_GotKey :: "msgbuff \<Rightarrow> ipc \<Rightarrow> (int \<times> ipc) outcome" where
  "core_GotKey m s = Ret (0, s)"

definition core_FsmError :: "nat \<Rightarrow> msgbuff \<Rightarrow> ipc \<Rightarrow> (int \<times> ipc) outcome" where
  "core_FsmError w m s =
     and_then (message_queue_write w QUEUE_CORE
         (m\<lparr>msg_state := ST_TERM, msg_event := EV_READ_FROM_DEVICE\<rparr>) s)
       (\<lambda>(_, s'). Ret (0, s'))"

definition core_Auth :: "msgbuff \<Rightarrow> ipc \<Rightarrow> (int \<times> ipc) outcome" where
  "core_Auth m s = Ret (0, s)"

definition core_ReadData :: "msgbuff \<Rightarrow> ipc \<Rightarrow> (int \<times> ipc) outcome" where
  "core_ReadData m s = Ret (0, s)"

definition core_EndComm :: "core \<Rightarrow> msgbuff \<Rightarrow> ipc \<Rightarrow> (int \<times> ipc) outcome" where
  "core_EndComm c m s = Ret (c_state c, s)"

section \<open>The transition table\<close>

datatype transition_fn = Init_led_fn | Send_ack_fn

record tTransition =
  t_st :: int
  t_ev :: int
  t_fn :: transition_fn

definition trans :: "tTransition list" where
  "trans =
     [\<lparr>t_st = ST_INIT, t_ev = EV_SEND_TO_CORE_NO_ACK, t_fn = Init_led_fn\<rparr>,
      \<lparr>t_st = ST_INIT, t_ev = EV_SEND_TO_CORE, t_fn = Init_led_fn\<rparr>,
      \<lparr>t_st = ST_INIT, t_ev = EV_SEND_TO_CORE_DEV_ACK, t_fn = Init_led_fn\<rparr>,
      \<lparr>t_st = ST_SEND_TO_DEVICE, t_ev = EV_SEND_TO_DEVICE_NO_ACK, t_fn = Send_ack_fn\<rparr>,
      \<lparr>t_st = ST_SEND_TO_DEVICE, t_ev = EV_SEND_TO_DEVICE, t_fn = Send_ack_fn\<rparr>]"

fun call_fn :: "nat \<Rightarrow> transition_fn \<Rightarrow> msgbuff \<Rightarrow> msgbuff \<Rightarrow> ipc \<Rightarrow> (int \<times> ipc) outcome" where
  "call_fn w Init_led_fn g m s = Init_led w g m s"
| "call_fn w Send_ack_fn g m s = Send_ack w g m s"

text \<open>The \<open>for\<close> loop over the table stops at the first entry for the current state and event.\<close>

fun fsm_scan :: "nat \<Rightarrow> tTransition list \<Rightarrow> core \<Rightarrow> core outcome" where
  "fsm_scan w [] c = Ret c"
| "fsm_scan w (t # ts) c =
     (if c_state c = t_st t \<and> c_event c = t_ev t then
        and_then (call_fn w (t_fn t) (c_msg c) (c_msg c) (c_ipc c))
          (\<lambda>(r, s). Ret (c\<lparr>c_state := r, c_ipc := s\<rparr>))
      else fsm_scan w ts c)"

section \<open>The loop\<close>

text \<open>\<open>GetMessageStateEvent\<close> ignores the result of the read: after a failed read the old message
  is looked at again.\<close>

definition core_GetMessageStateEvent :: "nat \<Rightarrow> core \<Rightarrow> core outcome" where
  "core_GetMessageStateEvent w c =
     and_then (message_queue_read w QUEUE_CORE (c_msg c) (c_ipc c))
       (\<lambda>(_, m, s).
          let c1 = c\<lparr>c_msg := m, c_ipc := s\<rparr>
          in Ret (if msg_type m = MSG_TYPE_GLOW_LED
                  then c1\<lparr>c_state := msg_state m, c_event := msg_event m\<rparr> else c1))"

definition core_iter :: "nat \<Rightarrow> core \<Rightarrow> core outcome" where
  "core_iter w c =
     and_then (core_GetMessageStateEvent w c)
       (\<lambda>c1. if c_message_type c1 = MSG_TYPE_GLOW_LED then fsm_scan w trans c1 else Ret c1)"

definition zero_msg :: msgbuff where
  "zero_msg = \<lparr>msg_session_id = 0, msg_type = 0, msg_state = 0, msg_event = 0,
     msg_text = replicate MAXSIZE 0\<rparr>"

definition core_start :: "ipc \<Rightarrow> core" where
  "core_start s =
     \<lparr>c_state = ST_INIT, c_event = 0, c_message_type = 0, c_msg = zero_msg,
      c_ipc = snd (message_queue_init QUEUE_DEVICE
        (snd (message_queue_init QUEUE_APPLICATION
          (snd (message_queue_init QUEUE_CORE s)))))\<rparr>"

text \<open>The loop of \<open>main\<close> run until it leaves (\<open>state == ST_TERM\<close>), waits for a message, or
  reaches undefined behaviour; \<^const>\<open>None\<close> is a loop that never does any of these.\<close>

datatype core_stop = Exited core | Waiting core | Crashed

partial_function (option) core_run :: "nat \<Rightarrow> core \<Rightarrow> core_stop option" where
  "core_run w c =
     (if c_state c = ST_TERM then Some (Exited c)
      else (case core_iter w c of
              Ret c' \<Rightarrow> core_run w c'
            | Blocks \<Rightarrow> Some (Waiting c)
            | _ \<Rightarrow> Some Crashed))"

declare core_run.simps [code]

definition core_main :: "nat \<Rightarrow> ipc \<Rightarrow> core_stop option" where
  "core_main w s = core_run w (core_start s)"

section \<open>The abstract machine\<close>

text \<open>What one iteration does to the observable queues: it consumes the first message of the core's
  queue and sends the messages of \<open>core_reaction\<close> in their order; each of them is appended to its
  queue when the queue exists and accepts it, and is dropped otherwise, because no transition
  function looks at the result of its send.\<close>

fun core_reaction :: "msg_view \<Rightarrow> (int \<times> msg_view) list" where
  "core_reaction (sid, ty, st, ev, txt) =
     (if st = ST_INIT \<and> ev = EV_SEND_TO_CORE_NO_ACK then
        [(QUEUE_CORE, (sid, ty, ST_SEND_TO_DEVICE, EV_SEND_TO_DEVICE_NO_ACK, txt))]
      else if st = ST_INIT \<and> ev = EV_SEND_TO_CORE then
        [(QUEUE_APPLICATION, (sid, ty, ST_SEND_ACK, EV_SEND_TO_APP, txt)),
         (QUEUE_DEVICE, (sid, ty, ST_SEND_TO_DEVICE, EV_SEND_TO_DEVICE_NO_ACK, txt))]
      else if st = ST_INIT \<and> ev = EV_SEND_TO_CORE_DEV_ACK then
        [(QUEUE_DEVICE, (sid, ty, ST_SEND_TO_DEVICE, EV_SEND_TO_DEVICE, led_text))]
      else if st = ST_SEND_TO_DEVICE \<and> ev = EV_SEND_TO_DEVICE then
        [(QUEUE_APPLICATION, (sid, ty, ST_SEND_ACK, EV_SEND_TO_APP, ack_text))]
      else [])"

type_synonym channels = "int \<Rightarrow> msg_view list option"

fun deliver ::
  "(msg_view list \<Rightarrow> msg_view \<Rightarrow> bool) \<Rightarrow> (int \<times> msg_view) list \<Rightarrow> channels \<Rightarrow> channels" where
  "deliver acc [] f = f"
| "deliver acc ((k, v) # xs) f =
     deliver acc xs (case f k of
         None \<Rightarrow> f
       | Some q \<Rightarrow> if acc q v then f(k := Some (q @ [v])) else f)"

text \<open>The kernel after the messages \<open>xs\<close> were handed to the manager one after the other.\<close>

definition posts :: "ipc \<Rightarrow> (int \<times> msg_view) list \<Rightarrow> ipc \<Rightarrow> bool" where
  "posts s xs s2 \<longleftrightarrow> ipc_ok s2 \<and> accepts s2 = accepts s \<and>
     contents s2 = deliver (accepts s) xs (contents s)"

lemma posts_Nil: "ipc_ok s \<Longrightarrow> posts s [] s"
  by (simp add: posts_def)

lemma posts_Cons: "posts s [x] s1 \<Longrightarrow> posts s1 xs s2 \<Longrightarrow> posts s (x # xs) s2"
  by (cases x) (simp add: posts_def)

lemma write_posts:
  assumes "ipc_ok s" "sendable32 m" "message_queue_write 4 k m s = Ret (r, s')"
  shows "posts s [(k, view m)] s'"
  using chan.send_result [OF assms] by (auto simp: posts_def split: option.splits)

definition core_ok :: "core \<Rightarrow> bool" where
  "core_ok c \<longleftrightarrow> ipc_ok (c_ipc c) \<and> buffer32 (c_msg c) \<and> strlen_buf (msg_text (c_msg c)) \<noteq> None
     \<and> c_message_type c = 0"

lemma send_copy_posts:
  assumes "ipc_ok s" "sendable32 m" "strlen_buf (msg_text g) \<noteq> None"
    and rest: "\<And>s1. ipc_ok s1 \<Longrightarrow> \<exists>s2. F s1 = Ret (0, s2) \<and> posts s1 xs s2"
  shows "\<exists>s2. and_then (send_copy 4 g k m s) F = Ret (0, s2) \<and> posts s ((k, view m) # xs) s2"
proof -
  from chan.send_returns [OF assms(1,2)] obtain r s1 where
    r: "message_queue_write 4 k m s = Ret (r, s1)" "ipc_ok s1" by blast
  note p = write_posts [OF assms(1,2) r(1)]
  from rest [OF r(2)] obtain s2 where "F s1 = Ret (0, s2)" "posts s1 xs s2" by blast
  with p posts_Cons [OF p] r(1) assms(3) show ?thesis
    by (auto simp: send_copy_def print_text_def)
qed

lemma posts_stop: "ipc_ok s \<Longrightarrow> \<exists>s2. Ret (0::int, s) = Ret (0, s2) \<and> posts s [] s2"
  by (simp add: posts_Nil)

lemma sendable32_retag:
  "sendable32 m \<Longrightarrow> fits_long 4 st \<Longrightarrow> fits_long 4 ev \<Longrightarrow>
     sendable32 (m\<lparr>msg_state := st, msg_event := ev\<rparr>)"
  by (simp add: sendable32_def msg_ok_def)

lemma sendable32_retext:
  "sendable32 m \<Longrightarrow> length t = MAXSIZE \<Longrightarrow> strlen_buf t \<noteq> None \<Longrightarrow> sendable32 (m\<lparr>msg_text := t\<rparr>)"
  by (simp add: sendable32_def msg_ok_def)

lemma sendable32_buffer: "sendable32 m \<Longrightarrow> length (msg_text m) = MAXSIZE"
  by (simp add: sendable32_def msg_ok_def)

lemma sendable32_terminated: "sendable32 m \<Longrightarrow> strlen_buf (msg_text m) \<noteq> None"
  by (simp add: sendable32_def msg_ok_def)

lemma view_retag:
  "view (m\<lparr>msg_state := st, msg_event := ev\<rparr>) =
     (msg_session_id m, msg_type m, st, ev, cstring (msg_text m))"
  by (simp add: view_def)

lemma cstring_of_strcpy:
  assumes "0 \<notin> set s" "strcpy_buf buf s = Ret t"
  shows "cstring t = s \<and> length t = length buf \<and> strlen_buf t = Some (length s)"
proof -
  have t: "t = s @ 0 # drop (Suc (length s)) buf" "length s < length buf"
    using assms(2) by (auto simp: strcpy_buf_def split: if_splits)
  then have l: "strlen_buf t = Some (length s)" using assms(1) by (simp add: strlen_buf_string)
  then show ?thesis using strlen_buf_Some [OF l] t by simp
qed

lemma strcpy_text:
  assumes "sendable32 m" "0 \<notin> set s" "length s < MAXSIZE"
  shows "\<exists>t. strcpy_buf (msg_text m) s = Ret t \<and> cstring t = s \<and> length t = MAXSIZE \<and>
    strlen_buf t \<noteq> None"
proof -
  from assms have "length s < length (msg_text m)" by (simp add: sendable32_buffer)
  from strcpy_buf_Ret [OF this] obtain t where t: "strcpy_buf (msg_text m) s = Ret t" by blast
  from cstring_of_strcpy [OF assms(2) t] assms t show ?thesis by (simp add: sendable32_buffer)
qed

lemma texts_ok:
  "0 \<notin> set led_text" "length led_text < MAXSIZE" "0 \<notin> set ack_text" "length ack_text < MAXSIZE"
  by (simp_all add: led_text_def ack_text_def bytes_of_string_def MAXSIZE_def)

lemma fits_long_consts [simp]:
  "fits_long 4 ST_SEND_TO_DEVICE" "fits_long 4 ST_SEND_ACK" "fits_long 4 EV_SEND_TO_DEVICE"
  "fits_long 4 EV_SEND_TO_APP"
  by (simp_all add: fits_long_def)

lemma Init_led_posts:
  assumes "ipc_ok s" "sendable32 m" "msg_state m = ST_INIT"
    "msg_event m \<in> {EV_SEND_TO_CORE_NO_ACK, EV_SEND_TO_CORE, EV_SEND_TO_CORE_DEV_ACK}"
  shows "\<exists>s2. Init_led 4 m m s = Ret (0, s2) \<and> posts s (core_reaction (view m)) s2"
proof -
  note tag = sendable32_retag [OF assms(2)] and trm = sendable32_terminated [OF assms(2)]
  from assms(4) consider (no_ack) "msg_event m = EV_SEND_TO_CORE_NO_ACK"
    | (fsm_ack) "msg_event m = EV_SEND_TO_CORE" | (dev_ack) "msg_event m = EV_SEND_TO_CORE_DEV_ACK"
    by auto
  then show ?thesis
  proof cases
    case no_ack
    have "Init_led 4 m m s = and_then (send_copy 4 m QUEUE_CORE
        (m\<lparr>msg_state := ST_SEND_TO_DEVICE, msg_event := EV_SEND_TO_DEVICE_NO_ACK\<rparr>) s)
      (\<lambda>s1. Ret (0, s1))"
      using no_ack by (simp add: Init_led_def)
    then show ?thesis
      using send_copy_posts [OF assms(1) tag trm posts_stop,
          of ST_SEND_TO_DEVICE EV_SEND_TO_DEVICE_NO_ACK QUEUE_CORE] no_ack assms(3)
      by (simp add: view_def)
  next
    case fsm_ack
    let ?m2 = "m\<lparr>msg_state := ST_SEND_TO_DEVICE, msg_event := EV_SEND_TO_DEVICE_NO_ACK\<rparr>"
    have second: "\<exists>s2. and_then (send_copy 4 m QUEUE_DEVICE ?m2 s1) (\<lambda>s2. Ret (0::int, s2)) = Ret (0, s2)
        \<and> posts s1 [(QUEUE_DEVICE, view ?m2)] s2"
      if "ipc_ok s1" for s1
      using send_copy_posts [OF that tag trm posts_stop,
          of ST_SEND_TO_DEVICE EV_SEND_TO_DEVICE_NO_ACK QUEUE_DEVICE] by auto
    show ?thesis
      using send_copy_posts [OF assms(1) tag trm second,
          of ST_SEND_ACK EV_SEND_TO_APP QUEUE_APPLICATION] fsm_ack assms(3)
      by (simp add: view_def Init_led_def)
  next
    case dev_ack
    from strcpy_text [OF assms(2) texts_ok(1,2)] obtain t where
      t: "strcpy_buf (msg_text m) led_text = Ret t" "cstring t = led_text" "length t = MAXSIZE"
        "strlen_buf t \<noteq> None" by blast
    let ?m = "m\<lparr>msg_state := ST_SEND_TO_DEVICE, msg_event := EV_SEND_TO_DEVICE, msg_text := t\<rparr>"
    have "sendable32 ?m"
      using sendable32_retext [OF tag t(3,4), of ST_SEND_TO_DEVICE EV_SEND_TO_DEVICE] by simp
    from send_copy_posts [OF assms(1) this trm posts_stop, of QUEUE_DEVICE] t dev_ack assms(3)
    show ?thesis by (simp add: view_def Init_led_def)
  qed
qed

lemma Send_ack_posts:
  assumes "ipc_ok s" "sendable32 m" "msg_state m = ST_SEND_TO_DEVICE" "msg_event m = EV_SEND_TO_DEVICE"
  shows "\<exists>s2. Send_ack 4 m m s = Ret (0, s2) \<and> posts s (core_reaction (view m)) s2"
proof -
  from strcpy_text [OF assms(2) texts_ok(3,4)] obtain t where
    t: "strcpy_buf (msg_text m) ack_text = Ret t" "cstring t = ack_text" "length t = MAXSIZE"
      "strlen_buf t \<noteq> None" by blast
  let ?m = "m\<lparr>msg_state := ST_SEND_ACK, msg_event := EV_SEND_TO_APP, msg_text := t\<rparr>"
  have "sendable32 ?m"
    using sendable32_retext [OF sendable32_retag [OF assms(2)] t(3,4), of ST_SEND_ACK EV_SEND_TO_APP]
    by simp
  from send_copy_posts [OF assms(1) this sendable32_terminated [OF assms(2)] posts_stop,
      of QUEUE_APPLICATION] t assms(3,4)
  show ?thesis by (simp add: view_def Send_ack_def)
qed

lemma fsm_scan_trans:
  "fsm_scan w trans c =
     (if c_state c = ST_INIT \<and>
         c_event c \<in> {EV_SEND_TO_CORE_NO_ACK, EV_SEND_TO_CORE, EV_SEND_TO_CORE_DEV_ACK}
      then and_then (Init_led w (c_msg c) (c_msg c) (c_ipc c))
             (\<lambda>(r, s). Ret (c\<lparr>c_state := r, c_ipc := s\<rparr>))
      else if c_state c = ST_SEND_TO_DEVICE \<and> c_event c = EV_SEND_TO_DEVICE
      then and_then (Send_ack w (c_msg c) (c_msg c) (c_ipc c))
             (\<lambda>(r, s). Ret (c\<lparr>c_state := r, c_ipc := s\<rparr>))
      else Ret c)"
  by (auto simp: trans_def)

lemma core_reaction_idle:
  "core_reaction (view m) = [] \<longleftrightarrow>
     \<not> (msg_state m = ST_INIT \<and>
        msg_event m \<in> {EV_SEND_TO_CORE_NO_ACK, EV_SEND_TO_CORE, EV_SEND_TO_CORE_DEV_ACK}) \<and>
     \<not> (msg_state m = ST_SEND_TO_DEVICE \<and> msg_event m = EV_SEND_TO_DEVICE)"
  by (auto simp: view_def)

text \<open>The refinement: one iteration of the loop is one reaction of the abstract machine.\<close>

lemma core_iter_simulation:
  assumes ok: "core_ok c" and q: "contents (c_ipc c) QUEUE_CORE = Some ((sid, 0, st, ev, txt) # q)"
  shows "\<exists>c'. core_iter 4 c = Ret c' \<and> core_ok c' \<and>
    accepts (c_ipc c') = accepts (c_ipc c) \<and>
    contents (c_ipc c') = deliver (accepts (c_ipc c)) (core_reaction (sid, 0, st, ev, txt))
      ((contents (c_ipc c))(QUEUE_CORE := Some q)) \<and>
    c_state c' = (if core_reaction (sid, 0, st, ev, txt) = [] then st else 0)"
proof -
  from ok have inv: "ipc_ok (c_ipc c)" "buffer32 (c_msg c)" by (auto simp: core_ok_def)
  from chan.recv_Cons [OF inv q] obtain m s where
    m: "message_queue_read 4 QUEUE_CORE (c_msg c) (c_ipc c) = Ret (0, m, s)"
      "view m = (sid, 0, st, ev, txt)" "sendable32 m" "buffer32 m" "ipc_ok s"
      "contents s = (contents (c_ipc c))(QUEUE_CORE := Some q)" "accepts s = accepts (c_ipc c)" by blast
  let ?c = "c\<lparr>c_msg := m, c_ipc := s, c_state := st, c_event := ev\<rparr>"
  have mv: "msg_type m = 0" "msg_state m = st" "msg_event m = ev" using m(2) by (auto simp: view_def)
  have iter: "core_iter 4 c = fsm_scan 4 trans ?c"
    using m(1) mv ok by (simp add: core_iter_def core_GetMessageStateEvent_def core_ok_def Let_def)
  have trm: "strlen_buf (msg_text m) \<noteq> None" using m(3) by (rule sendable32_terminated)
  show ?thesis
  proof (cases "core_reaction (view m) = []")
    case True
    then have "fsm_scan 4 trans ?c = Ret ?c"
      using mv unfolding core_reaction_idle fsm_scan_trans by auto
    moreover have "core_ok ?c" using m trm ok by (simp add: core_ok_def)
    ultimately show ?thesis using True m(7) unfolding iter m(2) m(6) [symmetric]
      by (simp del: core_reaction.simps)
  next
    case False
    have "\<exists>s2. fsm_scan 4 trans ?c = Ret (?c\<lparr>c_state := 0, c_ipc := s2\<rparr>) \<and>
        posts s (core_reaction (view m)) s2"
    proof (cases "msg_state m = ST_INIT")
      case True
      with False have ev: "msg_event m \<in> {EV_SEND_TO_CORE_NO_ACK, EV_SEND_TO_CORE, EV_SEND_TO_CORE_DEV_ACK}"
        unfolding core_reaction_idle by simp
      from Init_led_posts [OF m(5,3) True ev] True ev mv show ?thesis
        by (auto simp: fsm_scan_trans simp del: core_reaction.simps)
    next
      case noinit: False
      with False have "msg_state m = ST_SEND_TO_DEVICE" "msg_event m = EV_SEND_TO_DEVICE"
        unfolding core_reaction_idle by auto
      from Send_ack_posts [OF m(5,3) this] this mv show ?thesis
        by (auto simp: fsm_scan_trans simp del: core_reaction.simps)
    qed
    then obtain s2 where "fsm_scan 4 trans ?c = Ret (?c\<lparr>c_state := 0, c_ipc := s2\<rparr>)"
      and p: "posts s (core_reaction (view m)) s2" by blast
    moreover have "core_ok (?c\<lparr>c_state := 0, c_ipc := s2\<rparr>)"
      using m trm ok p by (simp add: core_ok_def posts_def)
    ultimately show ?thesis using False p m(7) unfolding iter m(2) m(6) [symmetric] posts_def
      by (simp del: core_reaction.simps)
  qed
qed

section \<open>Running the loop\<close>

text \<open>How many iterations a queued message can cause: a request without ack is put back into the
  core's own queue once.\<close>

fun load :: "msg_view \<Rightarrow> nat" where
  "load (sid, ty, st, ev, txt) = (if st = ST_INIT \<and> ev = EV_SEND_TO_CORE_NO_ACK then 2 else 1)"

definition led_queue :: "msg_view list \<Rightarrow> bool" where
  "led_queue q \<longleftrightarrow> (\<forall>v \<in> set q. fst (snd v) = 0)"

lemma reaction_type: "(k, v') \<in> set (core_reaction v) \<Longrightarrow> fst (snd v') = fst (snd v)"
  by (cases v) (auto split: if_splits)

lemma deliver_queue:
  "f k = Some q \<Longrightarrow>
     \<exists>q'. deliver acc xs f k = Some (q @ q') \<and> set q' \<subseteq> {v. (k, v) \<in> set xs} \<and>
       sum_list (map load q') \<le> sum_list (map (\<lambda>(j, v). if j = k then load v else 0) xs)"
proof (induction xs arbitrary: f q)
  case Nil
  then show ?case by simp
next
  case (Cons x xs)
  obtain j v where x: "x = (j, v)" by (cases x)
  let ?g = "case f j of None \<Rightarrow> f | Some p \<Rightarrow> if acc p v then f(j := Some (p @ [v])) else f"
  obtain p where p: "?g k = Some (q @ p)" "p = [] \<or> p = [v] \<and> j = k"
    using Cons.prems by (cases "f j"; cases "j = k"; cases "acc q v") (auto split: if_splits)
  from Cons.IH [of ?g "q @ p", OF p(1)] obtain q' where q': "deliver acc xs ?g k = Some (q @ p @ q')"
    "set q' \<subseteq> {v. (k, v) \<in> set xs}"
    "sum_list (map load q') \<le> sum_list (map (\<lambda>(j, v). if j = k then load v else 0) xs)" by auto
  show ?case
    using q' p(2) by (intro exI [of _ "p @ q'"]) (auto simp: x)
qed

lemma reaction_load:
  "Suc (sum_list (map (\<lambda>(j, v). if j = QUEUE_CORE then load v else 0) (core_reaction v))) \<le> load v"
  by (cases v) auto

lemma core_iter_progress:
  assumes "core_ok c" "contents (c_ipc c) QUEUE_CORE = Some ((sid, 0, st, ev, txt) # q)" "led_queue q"
  shows "\<exists>c' q'. core_iter 4 c = Ret c' \<and> core_ok c' \<and> contents (c_ipc c') QUEUE_CORE = Some q' \<and>
    led_queue q' \<and> sum_list (map load q') < sum_list (map load ((sid, 0, st, ev, txt) # q))"
proof -
  let ?v = "(sid, 0, st, ev, txt)"
  from core_iter_simulation [OF assms(1,2)] obtain c' where
    c': "core_iter 4 c = Ret c'" "core_ok c'" "contents (c_ipc c') =
      deliver (accepts (c_ipc c)) (core_reaction ?v) ((contents (c_ipc c))(QUEUE_CORE := Some q))"
    by blast
  have "((contents (c_ipc c))(QUEUE_CORE := Some q)) QUEUE_CORE = Some q" by simp
  from deliver_queue [where f = "(contents (c_ipc c))(QUEUE_CORE := Some q)" and acc = "accepts (c_ipc c)"
      and xs = "core_reaction ?v", OF this] obtain q' where
    q': "contents (c_ipc c') QUEUE_CORE = Some (q @ q')"
      "set q' \<subseteq> {v. (QUEUE_CORE, v) \<in> set (core_reaction ?v)}"
      "sum_list (map load q') \<le>
        sum_list (map (\<lambda>(j, v). if j = QUEUE_CORE then load v else 0) (core_reaction ?v))" unfolding c'(3) by blast
  have "led_queue (q @ q')"
    using assms(3) q'(2) reaction_type [of QUEUE_CORE _ ?v]
    by (fastforce simp: led_queue_def simp del: core_reaction.simps)
  moreover have "sum_list (map load (q @ q')) < sum_list (map load (?v # q))"
    using q'(3) reaction_load [of ?v] by (simp del: core_reaction.simps load.simps)
  ultimately show ?thesis using c' q'(1) by blast
qed

lemma core_run_returns:
  assumes "core_ok c" "contents (c_ipc c) QUEUE_CORE = Some q" "led_queue q"
  shows "\<exists>c'. core_ok c' \<and> (core_run 4 c = Some (Exited c') \<and> c_state c' = ST_TERM \<or>
    core_run 4 c = Some (Waiting c') \<and> contents (c_ipc c') QUEUE_CORE = Some [])"
  using assms
proof (induction "sum_list (map load q)" arbitrary: c q rule: less_induct)
  case less
  show ?case
  proof (cases "c_state c = ST_TERM")
    case True
    then show ?thesis using less.prems(1) by (intro exI [of _ c]) (simp add: core_run.simps)
  next
    case run: False
    show ?thesis
    proof (cases q)
      case Nil
      then have "core_iter 4 c = Blocks"
        using chan.recv_empty less.prems(2) by (simp add: core_iter_def core_GetMessageStateEvent_def)
      then show ?thesis
        using run less.prems Nil by (intro exI [of _ c]) (simp add: core_run.simps)
    next
      case (Cons v q2)
      obtain sid ty st ev tx where v: "v = (sid, ty, st, ev, tx)" by (cases v)
      with less.prems(3) Cons have ty: "ty = 0" and led: "led_queue q2" by (auto simp: led_queue_def)
      from core_iter_progress [OF less.prems(1) less.prems(2) [unfolded Cons v ty] led] obtain c' q'
        where c': "core_iter 4 c = Ret c'" "core_ok c'" "contents (c_ipc c') QUEUE_CORE = Some q'"
          "led_queue q'" "sum_list (map load q') < sum_list (map load q)"
        unfolding Cons v ty by blast
      from less.hyps [OF c'(5,2,3,4)] run c'(1) show ?thesis by (simp add: core_run.simps [of 4 c])
    qed
  qed
qed

text \<open>Without a core queue every read fails at once, and nothing in the loop changes.\<close>

lemma core_run_no_queue_stuck:
  assumes "queues (c_ipc c) QUEUE_CORE = None" "c_message_type c = 0"
    "msg_type (c_msg c) = 0" "msg_state (c_msg c) = 0" "c_state c \<noteq> ST_TERM"
  shows "core_run w c = None"
proof (rule ccontr)
  assume "core_run w c \<noteq> None"
  then obtain r where r: "core_run w c = Some r" by auto
  let ?P = "\<lambda>w c r. \<not> (queues (c_ipc c) QUEUE_CORE = None \<and> c_message_type c = 0 \<and>
    msg_type (c_msg c) = 0 \<and> msg_state (c_msg c) = 0 \<and> c_state c \<noteq> ST_TERM)"
  have "?P w c r"
  proof (rule core_run.raw_induct [where P = ?P, OF _ r], rule notI)
    fix run w c r
    assume IH: "\<And>w c r. run w c = Some r \<Longrightarrow> \<not> (queues (c_ipc c) QUEUE_CORE = None \<and>
        c_message_type c = 0 \<and> msg_type (c_msg c) = 0 \<and> msg_state (c_msg c) = 0 \<and> c_state c \<noteq> ST_TERM)"
      and step: "(if c_state c = ST_TERM then Some (Exited c)
         else case core_iter w c of Ret c' \<Rightarrow> run w c' | Blocks \<Rightarrow> Some (Waiting c)
            | _ \<Rightarrow> Some Crashed) = Some r"
      and bad: "queues (c_ipc c) QUEUE_CORE = None \<and> c_message_type c = 0 \<and>
        msg_type (c_msg c) = 0 \<and> msg_state (c_msg c) = 0 \<and> c_state c \<noteq> ST_TERM"
    let ?c = "c\<lparr>c_state := 0, c_event := msg_event (c_msg c)\<rparr>"
    have "core_iter w c = Ret ?c"
      using bad by (simp add: core_iter_def core_GetMessageStateEvent_def message_queue_read_def
          Let_def trans_def)
    with step bad have "run w ?c = Some r" by simp
    from IH [OF this] bad show False by simp
  qed
  with assms show False by blast
qed

section \<open>Properties of the core\<close>

definition core_sample :: "int \<Rightarrow> int \<Rightarrow> core" where
  "core_sample st ev =
     \<lparr>c_state = ST_INIT, c_event = 0, c_message_type = 0, c_msg = zero_msg,
      c_ipc = set_queue QUEUE_CORE [wire 4 (sample_msg\<lparr>msg_state := st, msg_event := ev\<rparr>)] sample_ipc\<rparr>"

lemma core_sample_ok:
  assumes "fits_long 4 st" "fits_long 4 ev"
  shows "core_ok (core_sample st ev)"
    "contents (c_ipc (core_sample st ev)) QUEUE_CORE =
       Some [(1, 0, st, ev, cstring (msg_text sample_msg))]"
proof -
  let ?m = "sample_msg\<lparr>msg_state := st, msg_event := ev\<rparr>"
  have m: "sendable32 ?m" using sendable32_retag [OF sample_ok(2) assms] .
  then have ok: "msg_ok 4 ?m" "sent32 (wire 4 ?m)" by (auto simp: sendable32_def sent32_def)
  have "ipc_ok (set_queue QUEUE_CORE [wire 4 ?m] sample_ipc)"
    using ok(2) by (intro ipc_ok_set_queue sample_ok) auto
  then show "core_ok (core_sample st ev)"
    by (simp add: core_sample_def core_ok_def buffer32_def zero_msg_def MAXSIZE_def)
  show "contents (c_ipc (core_sample st ev)) QUEUE_CORE =
      Some [(1, 0, st, ev, cstring (msg_text sample_msg))]"
    using wire_view_wire [OF ok(1)]
    by (simp add: core_sample_def contents_set_queue view_retag) (simp add: sample_msg_def)
qed



text \<open>C6. The loop of \<open>main\<close> makes progress: when only LED messages are queued it comes to an end, either
  leaving on \<open>ST_TERM\<close> or waiting with an empty core queue; it neither spins nor crashes.\<close>
theorem core_run_drains_queue:
  assumes "core_ok c" "contents (c_ipc c) QUEUE_CORE = Some q" "led_queue q"
  shows "\<exists>c'. core_ok c' \<and> (core_run 4 c = Some (Exited c') \<and> c_state c' = ST_TERM \<or>
    core_run 4 c = Some (Waiting c') \<and> contents (c_ipc c') QUEUE_CORE = Some [])"
  using assms by (rule core_run_returns)

lemma core_run_drains_queue_witness:
  "\<exists>c'. core_run 4 (core_sample ST_INIT EV_SEND_TO_CORE_NO_ACK) \<in> {Some (Exited c'), Some (Waiting c')}"
proof -
  have "fits_long 4 ST_INIT" "fits_long 4 EV_SEND_TO_CORE_NO_ACK" by (simp_all add: fits_long_def)
  note s = core_sample_ok [OF this]
  from core_run_drains_queue [OF s] show ?thesis by (auto simp: led_queue_def)
qed

text \<open>\<open>main\<close> ignores a failed creation of the core queue: the reads fail at once and the loop then
  spins for ever instead of reporting the error.\<close>
lemma core_main_spins_without_queue:
  assumes "queues s QUEUE_CORE = None" "free_ids s = 0"
  shows "core_main w s = None"
proof -
  have keep: "queues (snd (message_queue_init k s)) = queues s \<and>
      free_ids (snd (message_queue_init k s)) = 0" if "free_ids s = 0" for k s
    using that by (simp add: message_queue_init_def msgget_creat_def)
  have "queues (c_ipc (core_start s)) QUEUE_CORE = None"
    using assms keep by (simp add: core_start_def)
  then show ?thesis
    unfolding core_main_def by (rule core_run_no_queue_stuck) (simp_all add: core_start_def zero_msg_def)
qed

lemma core_main_spins_without_queue_witness:
  "core_main 4 (sample_ipc\<lparr>free_ids := 0\<rparr>) = None"
  by (rule core_main_spins_without_queue) (simp_all add: sample_ipc_def)

end
