(* ===== verification/Nutrino_System.thy ===== *)
theory Nutrino_System
  imports Core_Fsm
begin

text \<open>
  The processes around the core: the LED handlers and the menu of the application
  (\<open>application/application_handler.c\<close>, \<open>application/my_NFC_UserSpace_App.c\<close>), the device
  wrapper (\<open>application/callback_tester.c\<close>), and the system they form with the core over the three
  shared queues.  Local variables that C leaves uninitialised are arguments of the operations.
\<close>

section \<open>The application\<close>

definition no_ack_text :: bytes where
  "no_ack_text = bytes_of_string (''Sending Data to core I am NOT going to get an Ack '' @ [CHR 0x0A])"

definition fsm_ack_text :: bytes where
  "fsm_ack_text = bytes_of_string (''Sending Data to Core I am going to get an Ack from FSM'' @ [CHR 0x0A])"

text \<open>The first half of every handler: fill the message, send it to the core, print it.\<close>

definition app_send :: "nat \<Rightarrow> bytes \<Rightarrow> int \<Rightarrow> msgbuff \<Rightarrow> ipc \<Rightarrow> (msgbuff \<times> ipc) outcome" where
  "app_send w text ev msg s =
     and_then (strcpy_buf (msg_text msg) text)
       (\<lambda>t. let m = msg\<lparr>msg_type := MSG_TYPE_GLOW_LED, msg_text := t, msg_session_id := 34567,
                        msg_state := ST_INIT, msg_event := ev\<rparr>
            in and_then (message_queue_write w QUEUE_CORE m s)
                 (\<lambda>(_, s'). print_text m (Ret (m, s'))))"

text \<open>The second half of the handlers that wait: the blocking read of the ack.\<close>

definition app_wait :: "nat \<Rightarrow> msgbuff \<Rightarrow> ipc \<Rightarrow> (msgbuff \<times> ipc) outcome" where
  "app_wait w msg s =
     and_then (message_queue_read w QUEUE_APPLICATION msg s)
       (\<lambda>(_, m, s'). print_text m (Ret (m, s')))"

definition glow_led :: "nat \<Rightarrow> msgbuff \<Rightarrow> ipc \<Rightarrow> (int \<times> ipc) outcome" where
  "glow_led w msg s =
     and_then (app_send w no_ack_text EV_SEND_TO_CORE_NO_ACK msg s) (\<lambda>(_, s'). Ret (0, s'))"

definition glow_led_with_fsm_ack :: "nat \<Rightarrow> msgbuff \<Rightarrow> ipc \<Rightarrow> (int \<times> ipc) outcome" where
  "glow_led_with_fsm_ack w msg s =
     and_then (app_send w fsm_ack_text EV_SEND_TO_CORE msg s)
       (\<lambda>(m, s1). and_then (app_wait w m s1) (\<lambda>(_, s2). Ret (0, s2)))"

definition glow_led_with_board_ack :: "nat \<Rightarrow> msgbuff \<Rightarrow> ipc \<Rightarrow> (int \<times> ipc) outcome" where
  "glow_led_with_board_ack w msg s =
     and_then (app_send w fsm_ack_text EV_SEND_TO_CORE_DEV_ACK msg s)
       (\<lambda>(m, s1). and_then (app_wait w m s1) (\<lambda>(_, s2). Ret (0, s2)))"

text \<open>One turn of the menu: what the user reads last, and the queues afterwards.\<close>

datatype menu_line = Sent_success | Sent_with_ack | Send_error | Invalid_input

definition menu_turn :: "nat \<Rightarrow> int \<Rightarrow> msgbuff \<Rightarrow> ipc \<Rightarrow> (menu_line \<times> ipc) outcome" where
  "menu_turn w choice msg s =
     (if choice = 1 then
        and_then (glow_led w msg s)
          (\<lambda>(r, s'). Ret (if r = 0 then Sent_success else Send_error, s'))
      else if choice = 2 then
        and_then (glow_led_with_fsm_ack w msg s)
          (\<lambda>(r, s'). Ret (if r = 0 then Sent_with_ack else Send_error, s'))
      else if choice = 3 then
        and_then (glow_led_with_board_ack w msg s)
          (\<lambda>(r, s'). Ret (if r = 0 then Sent_success else Send_error, s'))
      else Ret (Invalid_input, s))"

section \<open>The device wrapper\<close>

definition device_text :: bytes where
  "device_text = bytes_of_string (''Sending Data to Core I am sending an ack from device '' @ [CHR 0x0A])"

text \<open>The body of the wrapper's endless loop.\<close>

definition device_iter :: "nat \<Rightarrow> msgbuff \<Rightarrow> ipc \<Rightarrow> (msgbuff \<times> ipc) outcome" where
  "device_iter w msg s =
     and_then (message_queue_read w QUEUE_DEVICE msg s)
       (\<lambda>(_, m, s1). print_text m
          (and_then (strcpy_buf (msg_text m) device_text)
            (\<lambda>t. let m' = m\<lparr>msg_type := MSG_TYPE_GLOW_LED, msg_text := t\<rparr>
                 in and_then (message_queue_write w QUEUE_CORE m' s1)
                      (\<lambda>(_, s2). print_text m' (Ret (m', s2))))))"

section \<open>The system\<close>

text \<open>The core with the queues it shares, the buffer of the device wrapper, and the application:
  \<^const>\<open>None\<close> between two menu choices, the handler's message while it waits for an ack.\<close>

record sys =
  y_core :: core
  y_device :: msgbuff
  y_app :: "msgbuff option"
  y_owed :: nat
  y_acks :: nat

text \<open>The counters are ghosts: the acks the requests so far can cause, and the acks the application
  has read.  A step is one process running to its next system call on a queue it waits for.\<close>

definition with_ipc :: "sys \<Rightarrow> ipc \<Rightarrow> sys" where
  "with_ipc y s = y\<lparr>y_core := (y_core y)\<lparr>c_ipc := s\<rparr>\<rparr>"

abbreviation y_ipc :: "sys \<Rightarrow> ipc" where
  "y_ipc y \<equiv> c_ipc (y_core y)"

inductive sys_step :: "sys \<Rightarrow> sys \<Rightarrow> bool" where
  core_moves: "c_state (y_core y) \<noteq> ST_TERM \<Longrightarrow> core_iter 4 (y_core y) = Ret c \<Longrightarrow>
    sys_step y (y\<lparr>y_core := c\<rparr>)"
| device_moves: "device_iter 4 (y_device y) (y_ipc y) = Ret (m, s) \<Longrightarrow>
    sys_step y ((with_ipc y s)\<lparr>y_device := m\<rparr>)"
| app_no_ack: "y_app y = None \<Longrightarrow> length (msg_text g) = MAXSIZE \<Longrightarrow>
    glow_led 4 g (y_ipc y) = Ret (r, s) \<Longrightarrow>
    sys_step y ((with_ipc y s)\<lparr>y_owed := y_owed y + 1\<rparr>)"
| app_fsm_ack: "y_app y = None \<Longrightarrow> length (msg_text g) = MAXSIZE \<Longrightarrow>
    app_send 4 fsm_ack_text EV_SEND_TO_CORE g (y_ipc y) = Ret (m, s) \<Longrightarrow>
    sys_step y ((with_ipc y s)\<lparr>y_app := Some m, y_owed := y_owed y + 2\<rparr>)"
| app_board_ack: "y_app y = None \<Longrightarrow> length (msg_text g) = MAXSIZE \<Longrightarrow>
    app_send 4 fsm_ack_text EV_SEND_TO_CORE_DEV_ACK g (y_ipc y) = Ret (m, s) \<Longrightarrow>
    sys_step y ((with_ipc y s)\<lparr>y_app := Some m, y_owed := y_owed y + 1\<rparr>)"
| app_reads: "y_app y = Some b \<Longrightarrow> app_wait 4 b (y_ipc y) = Ret (m, s) \<Longrightarrow>
    sys_step y ((with_ipc y s)\<lparr>y_app := None, y_acks := y_acks y + 1\<rparr>)"

inductive_cases sys_stepE: "sys_step y y'"

text \<open>The system starts when \<open>main\<close> of the core has created the queues.\<close>

definition fresh_ipc :: "nat \<Rightarrow> nat \<Rightarrow> ipc" where
  "fresh_ipc mmax mnb = \<lparr>queues = (\<lambda>_. None), free_ids = 3, msgmax = mmax, msgmnb = mnb\<rparr>"

definition sys_start :: "nat \<Rightarrow> nat \<Rightarrow> msgbuff \<Rightarrow> sys" where
  "sys_start mmax mnb g =
     \<lparr>y_core = core_start (fresh_ipc mmax mnb), y_device = g, y_app = None, y_owed = 0, y_acks = 0\<rparr>"

inductive reachable :: "sys \<Rightarrow> bool" where
  start: "length (msg_text g) = MAXSIZE \<Longrightarrow> reachable (sys_start mmax mnb g)"
| step: "reachable y \<Longrightarrow> sys_step y y' \<Longrightarrow> reachable y'"

section \<open>What travels on the queues\<close>

fun request :: "msg_view \<Rightarrow> bool" where
  "request (sid, ty, st, ev, tx) \<longleftrightarrow> sid = 34567 \<and> ty = MSG_TYPE_GLOW_LED \<and> st = ST_INIT \<and>
     ev \<in> {EV_SEND_TO_CORE_NO_ACK, EV_SEND_TO_CORE, EV_SEND_TO_CORE_DEV_ACK}"

fun order_msg :: "msg_view \<Rightarrow> bool" where
  "order_msg (sid, ty, st, ev, tx) \<longleftrightarrow> sid = 34567 \<and> ty = MSG_TYPE_GLOW_LED \<and>
     st = ST_SEND_TO_DEVICE \<and> ev = EV_SEND_TO_DEVICE"

fun ack_msg :: "msg_view \<Rightarrow> bool" where
  "ack_msg (sid, ty, st, ev, tx) \<longleftrightarrow> sid = 34567 \<and> ty = MSG_TYPE_GLOW_LED \<and>
     st = ST_SEND_ACK \<and> ev = EV_SEND_TO_APP"

definition may_carry :: "int \<Rightarrow> msg_view \<Rightarrow> bool" where
  "may_carry k v \<longleftrightarrow> (if k = QUEUE_CORE then request v \<or> order_msg v
     else if k = QUEUE_DEVICE then order_msg v
     else k = QUEUE_APPLICATION \<and> ack_msg v)"

text \<open>How many acks a message in a queue will still cause (or is).\<close>

fun promise :: "msg_view \<Rightarrow> nat" where
  "promise (sid, ty, st, ev, tx) = (if st = ST_INIT \<and> ev = EV_SEND_TO_CORE then 2 else 1)"

abbreviation promises :: "msg_view list \<Rightarrow> nat" where
  "promises q \<equiv> sum_list (map promise q)"

definition in_flight :: "channels \<Rightarrow> nat" where
  "in_flight f = promises (the (f QUEUE_CORE)) + promises (the (f QUEUE_DEVICE)) +
     promises (the (f QUEUE_APPLICATION))"

definition channels_ok :: "channels \<Rightarrow> bool" where
  "channels_ok f \<longleftrightarrow> f QUEUE_CORE \<noteq> None \<and> f QUEUE_DEVICE \<noteq> None \<and> f QUEUE_APPLICATION \<noteq> None \<and>
     (\<forall>k \<in> {QUEUE_CORE, QUEUE_DEVICE, QUEUE_APPLICATION}. \<forall>v \<in> set (the (f k)). may_carry k v)"

lemma may_carry_key: "may_carry k v \<Longrightarrow> k = QUEUE_CORE \<or> k = QUEUE_DEVICE \<or> k = QUEUE_APPLICATION"
  by (auto simp: may_carry_def split: if_splits)

lemma channels_push:
  assumes "channels_ok f" "f k = Some q" "may_carry k v"
  shows "channels_ok (f(k := Some (q @ [v]))) \<and>
    in_flight (f(k := Some (q @ [v]))) = in_flight f + promise v"
  using assms may_carry_key [OF assms(3)]
  by (elim disjE) (auto simp: channels_ok_def in_flight_def)

lemma channels_pop:
  assumes "channels_ok f" "f k = Some (v # q)"
    "k = QUEUE_CORE \<or> k = QUEUE_DEVICE \<or> k = QUEUE_APPLICATION"
  shows "channels_ok (f(k := Some q)) \<and> in_flight (f(k := Some q)) + promise v = in_flight f \<and>
    may_carry k v"
  using assms(3,1,2) by (elim disjE) (auto simp: channels_ok_def in_flight_def)

lemma channels_deliver:
  assumes "channels_ok f" "\<And>k v. (k, v) \<in> set xs \<Longrightarrow> may_carry k v"
  shows "channels_ok (deliver acc xs f) \<and>
    in_flight (deliver acc xs f) \<le> in_flight f + promises (map snd xs)"
  using assms
proof (induction xs arbitrary: f)
  case Nil
  then show ?case by simp
next
  case (Cons x xs)
  obtain k v where x: "x = (k, v)" by (cases x)
  let ?g = "case f k of None \<Rightarrow> f | Some q \<Rightarrow> if acc q v then f(k := Some (q @ [v])) else f"
  have g: "channels_ok ?g \<and> in_flight ?g \<le> in_flight f + promise v"
    using channels_push [OF Cons.prems(1), of k _ v] Cons.prems x
    by (auto split: option.splits)
  then have "channels_ok (deliver acc xs ?g) \<and>
      in_flight (deliver acc xs ?g) \<le> in_flight ?g + promises (map snd xs)"
    using Cons.IH [of ?g] Cons.prems(2) by simp
  then show ?case using g by (simp add: x)
qed

lemma channels_posts:
  assumes "posts s xs s'" "channels_ok (contents s)" "\<And>k v. (k, v) \<in> set xs \<Longrightarrow> may_carry k v"
  shows "channels_ok (contents s') \<and> in_flight (contents s') \<le> in_flight (contents s) + promises (map snd xs)"
  using channels_deliver [OF assms(2,3)] assms(1) by (simp add: posts_def)

lemma reaction_carried:
  "may_carry QUEUE_CORE v \<Longrightarrow> (k, v') \<in> set (core_reaction v) \<Longrightarrow> may_carry k v'"
  by (cases v) (auto simp: may_carry_def split: if_splits)

lemma reaction_promises: "may_carry QUEUE_CORE v \<Longrightarrow> promises (map snd (core_reaction v)) = promise v"
  by (cases v) (auto simp: may_carry_def)

lemma reaction_nonempty: "may_carry QUEUE_CORE v \<Longrightarrow> core_reaction v \<noteq> []"
  by (cases v) (auto simp: may_carry_def)

lemma carried_view:
  "may_carry QUEUE_CORE v \<Longrightarrow> \<exists>sid st ev tx. v = (sid, 0, st, ev, tx)"
  by (cases v) (auto simp: may_carry_def)

section \<open>The invariant\<close>

definition sys_inv :: "sys \<Rightarrow> bool" where
  "sys_inv y \<longleftrightarrow> core_ok (y_core y) \<and> c_state (y_core y) \<in> {ST_INIT, 0} \<and>
     buffer32 (y_device y) \<and> (\<forall>m. y_app y = Some m \<longrightarrow> sendable32 m) \<and>
     channels_ok (contents (y_ipc y)) \<and>
     y_acks y + in_flight (contents (y_ipc y)) \<le> y_owed y"

lemma core_step_inv:
  assumes "sys_inv y" "core_iter 4 (y_core y) = Ret c"
  shows "sys_inv (y\<lparr>y_core := c\<rparr>) \<and> c_state c = 0"
proof -
  let ?c = "y_core y"
  from assms(1) have ok: "core_ok ?c" and ch: "channels_ok (contents (c_ipc ?c))"
    by (auto simp: sys_inv_def)
  then obtain q where q: "contents (c_ipc ?c) QUEUE_CORE = Some q" by (auto simp: channels_ok_def)
  have "q \<noteq> []"
  proof
    assume "q = []"
    with q chan.recv_empty have "core_iter 4 ?c = Blocks"
      by (simp add: core_iter_def core_GetMessageStateEvent_def)
    with assms(2) show False by simp
  qed
  then obtain v q' where vq: "q = v # q'" by (cases q) auto
  note pop = channels_pop [OF ch q [unfolded vq], simplified]
  then obtain sid st ev tx where v: "v = (sid, 0, st, ev, tx)" using carried_view by blast
  from core_iter_simulation [OF ok q [unfolded vq v]] assms(2) reaction_nonempty [of v] pop v
  have c: "core_ok c" "c_state c = 0" "contents (c_ipc c) = deliver (accepts (c_ipc ?c))
      (core_reaction v) ((contents (c_ipc ?c))(QUEUE_CORE := Some q'))" by auto
  from channels_deliver [of "(contents (c_ipc ?c))(QUEUE_CORE := Some q')" "core_reaction v"
      "accepts (c_ipc ?c)"] pop reaction_carried [of v] reaction_promises [of v]
  have "channels_ok (contents (c_ipc c)) \<and> in_flight (contents (c_ipc c)) \<le> in_flight (contents (c_ipc ?c))"
    unfolding c(3) by auto
  then show ?thesis using assms(1) c by (auto simp: sys_inv_def)
qed

lemma with_ipc_simps [simp]:
  "y_core (with_ipc y s) = (y_core y)\<lparr>c_ipc := s\<rparr>" "y_device (with_ipc y s) = y_device y"
  "y_app (with_ipc y s) = y_app y" "y_owed (with_ipc y s) = y_owed y" "y_acks (with_ipc y s) = y_acks y"
  by (simp_all add: with_ipc_def)

lemma app_send_sent:
  assumes "ipc_ok s" "length (msg_text g) = MAXSIZE" "0 \<notin> set tx" "length tx < MAXSIZE"
    "fits_long 4 ev" "app_send 4 tx ev g s = Ret (m, s')"
  shows "sendable32 m \<and> view m = (34567, 0, ST_INIT, ev, tx) \<and>
    posts s [(QUEUE_CORE, view m)] s'"
proof -
  from strcpy_buf_Ret [of tx "msg_text g"] assms(2,4) obtain t where
    t: "strcpy_buf (msg_text g) tx = Ret t" by auto
  note t' = cstring_of_strcpy [OF assms(3) t]
  let ?m = "g\<lparr>msg_type := MSG_TYPE_GLOW_LED, msg_text := t, msg_session_id := 34567,
              msg_state := ST_INIT, msg_event := ev\<rparr>"
  have ok: "sendable32 ?m"
    using t' assms(2,5) by (simp add: sendable32_def msg_ok_def fits_long_def)
  from assms(6) t obtain r where "m = ?m" "message_queue_write 4 QUEUE_CORE ?m s = Ret (r, s')"
    by (auto simp: app_send_def outcome_simps Let_def print_text_def split: if_splits)
  then show ?thesis
    using ok write_posts [OF assms(1) ok] t' by (auto simp: view_def)
qed

lemma app_texts_ok:
  "0 \<notin> set no_ack_text" "length no_ack_text < MAXSIZE" "0 \<notin> set fsm_ack_text"
  "length fsm_ack_text < MAXSIZE" "0 \<notin> set device_text" "length device_text < MAXSIZE"
  by (simp_all add: no_ack_text_def fsm_ack_text_def device_text_def bytes_of_string_def MAXSIZE_def)

lemma app_step_inv:
  assumes "sys_inv y" "length (msg_text g) = MAXSIZE" "0 \<notin> set tx" "length tx < MAXSIZE"
    "ev \<in> {EV_SEND_TO_CORE_NO_ACK, EV_SEND_TO_CORE, EV_SEND_TO_CORE_DEV_ACK}"
    "app_send 4 tx ev g (y_ipc y) = Ret (m, s)"
  shows "sendable32 m \<and> sys_inv ((with_ipc y s)\<lparr>y_app := None, y_owed :=
    y_owed y + promise (34567, 0, ST_INIT, ev, tx)\<rparr>)"
proof -
  from assms(1) have inv: "ipc_ok (y_ipc y)" "channels_ok (contents (y_ipc y))"
    by (auto simp: sys_inv_def core_ok_def)
  have "fits_long 4 ev" using assms(5) by (auto simp: fits_long_def)
  from app_send_sent [OF inv(1) assms(2-4) this assms(6)]
  have m: "sendable32 m" "view m = (34567, 0, ST_INIT, ev, tx)" "ipc_ok s"
    "posts (y_ipc y) [(QUEUE_CORE, view m)] s" unfolding posts_def by blast+
  have "may_carry QUEUE_CORE (view m)" using m(2) assms(5) by (auto simp: may_carry_def)
  with channels_posts [OF m(4) inv(2)] m(2)
  have "channels_ok (contents s) \<and> in_flight (contents s) \<le>
      in_flight (contents (y_ipc y)) + promise (34567, 0, ST_INIT, ev, tx)" by simp
  then show ?thesis using assms(1) m(1,3) by (auto simp: sys_inv_def core_ok_def)
qed

lemma device_step_inv:
  assumes "sys_inv y" "device_iter 4 (y_device y) (y_ipc y) = Ret (m, s)"
  shows "sys_inv ((with_ipc y s)\<lparr>y_device := m\<rparr>)"
proof -
  from assms(1) have inv: "ipc_ok (y_ipc y)" "buffer32 (y_device y)" "channels_ok (contents (y_ipc y))"
    by (auto simp: sys_inv_def core_ok_def)
  from inv(3) obtain q where q: "contents (y_ipc y) QUEUE_DEVICE = Some q" by (auto simp: channels_ok_def)
  from assms(2) chan.recv_empty [of "y_ipc y" QUEUE_DEVICE] q obtain v q' where vq: "q = v # q'"
    by (cases q) (auto simp: device_iter_def)
  note pop = channels_pop [OF inv(3) q [unfolded vq], simplified]
  from chan.recv_Cons [OF inv(1,2) q [unfolded vq]] obtain m1 s1 where
    r: "message_queue_read 4 QUEUE_DEVICE (y_device y) (y_ipc y) = Ret (0, m1, s1)" "view m1 = v"
      "sendable32 m1" "ipc_ok s1" "contents s1 = (contents (y_ipc y))(QUEUE_DEVICE := Some q')" by blast
  from strcpy_text [OF r(3) app_texts_ok(5,6)] obtain t where
    t: "strcpy_buf (msg_text m1) device_text = Ret t" "length t = MAXSIZE" "strlen_buf t \<noteq> None"
      "cstring t = device_text" by blast
  let ?m = "m1\<lparr>msg_type := MSG_TYPE_GLOW_LED, msg_text := t\<rparr>"
  have ok: "sendable32 ?m" using r(3) t by (simp add: sendable32_def msg_ok_def fits_long_def)
  from assms(2) r(1) t obtain rc where w: "m = ?m" "message_queue_write 4 QUEUE_CORE ?m s1 = Ret (rc, s)"
    by (auto simp: device_iter_def outcome_simps Let_def print_text_def split: if_splits)
  from write_posts [OF r(4) ok w(2)] have d: "ipc_ok s" "posts s1 [(QUEUE_CORE, view ?m)] s"
    by (auto simp: posts_def)
  have "may_carry QUEUE_CORE (view ?m) \<and> promise (view ?m) = promise v"
    using pop r(2) by (cases v) (auto simp: view_def may_carry_def)
  with channels_posts [OF d(2)] pop r(5)
  have "channels_ok (contents s) \<and> in_flight (contents s) \<le> in_flight (contents (y_ipc y))" by simp
  then show ?thesis using assms(1) w ok d(1) t by (auto simp: sys_inv_def core_ok_def buffer32_def)
qed

lemma reads_step_inv:
  assumes "sys_inv y" "y_app y = Some b" "app_wait 4 b (y_ipc y) = Ret (m, s)"
  shows "sys_inv ((with_ipc y s)\<lparr>y_app := None, y_acks := y_acks y + 1\<rparr>) \<and> ack_msg (view m)"
proof -
  from assms(1,2) have inv: "ipc_ok (y_ipc y)" "channels_ok (contents (y_ipc y))" "buffer32 b"
    by (auto simp: sys_inv_def core_ok_def sendable32_buffer buffer32_def)
  from inv(2) obtain q where q: "contents (y_ipc y) QUEUE_APPLICATION = Some q"
    by (auto simp: channels_ok_def)
  from assms(3) chan.recv_empty [of "y_ipc y" QUEUE_APPLICATION] q obtain v q' where vq: "q = v # q'"
    by (cases q) (auto simp: app_wait_def)
  note pop = channels_pop [OF inv(2) q [unfolded vq], simplified]
  from chan.recv_Cons [OF inv(1,3) q [unfolded vq]] obtain m1 s1 where
    r: "message_queue_read 4 QUEUE_APPLICATION b (y_ipc y) = Ret (0, m1, s1)" "view m1 = v"
      "ipc_ok s1" "contents s1 = (contents (y_ipc y))(QUEUE_APPLICATION := Some q')" by blast
  with assms(3) have "m = m1" "s = s1" by (auto simp: app_wait_def print_text_def split: if_splits)
  moreover have "promise v = 1" "ack_msg v" using pop by (cases v; auto simp: may_carry_def)+
  ultimately show ?thesis using assms(1) r pop by (auto simp: sys_inv_def core_ok_def)
qed

lemma sys_inv_start:
  assumes "length (msg_text g) = MAXSIZE"
  shows "sys_inv (sys_start mmax mnb g)"
proof -
  have q: "queues (y_ipc (sys_start mmax mnb g)) =
      [QUEUE_CORE \<mapsto> [], QUEUE_APPLICATION \<mapsto> [], QUEUE_DEVICE \<mapsto> []]"
    by (simp add: sys_start_def core_start_def message_queue_init_def msgget_creat_def fresh_ipc_def
        set_queue_def)
  then have "ipc_ok (y_ipc (sys_start mmax mnb g))" by (auto simp: ipc_ok_def split: if_splits)
  moreover have "channels_ok (contents (y_ipc (sys_start mmax mnb g))) \<and>
      in_flight (contents (y_ipc (sys_start mmax mnb g))) = 0"
    by (simp add: channels_ok_def in_flight_def contents_def q)
  ultimately show ?thesis using assms
    by (simp add: sys_inv_def core_ok_def sys_start_def core_start_def buffer32_def zero_msg_def MAXSIZE_def)
qed

lemma sys_step_inv:
  assumes "sys_inv y" "sys_step y y'"
  shows "sys_inv y'"
  using assms(2)
proof cases
  case (core_moves c)
  then show ?thesis using core_step_inv [OF assms(1)] by simp
next
  case (device_moves m s)
  then show ?thesis using device_step_inv [OF assms(1)] by simp
next
  case (app_no_ack g r s)
  then obtain m where "app_send 4 no_ack_text EV_SEND_TO_CORE_NO_ACK g (y_ipc y) = Ret (m, s)"
    by (auto simp: glow_led_def outcome_simps)
  with app_step_inv [OF assms(1) _ app_texts_ok(1,2) _ this] app_no_ack show ?thesis
    by (simp add: sys_inv_def)
next
  case (app_fsm_ack g m s)
  with app_step_inv [OF assms(1) _ app_texts_ok(3,4) _ app_fsm_ack(4)] show ?thesis
    by (simp add: sys_inv_def)
next
  case (app_board_ack g m s)
  with app_step_inv [OF assms(1) _ app_texts_ok(3,4) _ app_board_ack(4)] show ?thesis
    by (simp add: sys_inv_def)
next
  case (app_reads b m s)
  then show ?thesis using reads_step_inv [OF assms(1)] by simp
qed

lemma reachable_inv: "reachable y \<Longrightarrow> sys_inv y"
  by (induction rule: reachable.induct) (auto intro: sys_inv_start sys_step_inv)

lemma reachable_sample: "reachable (sys_start 8192 16384 sample_buffer)"
  by (rule reachable.start) (simp add: sample_ok)

text \<open>What each process can do in a state of the invariant.\<close>

lemma core_step_cases:
  assumes "sys_inv y"
  shows "contents (y_ipc y) QUEUE_CORE = Some [] \<and> core_iter 4 (y_core y) = Blocks \<or>
    (\<exists>c. core_iter 4 (y_core y) = Ret c \<and> c_state c = 0)"
proof -
  from assms have ok: "core_ok (y_core y)" "channels_ok (contents (y_ipc y))"
    by (auto simp: sys_inv_def)
  from ok(2) obtain q where q: "contents (y_ipc y) QUEUE_CORE = Some q" by (auto simp: channels_ok_def)
  show ?thesis
  proof (cases q)
    case Nil
    then show ?thesis using q chan.recv_empty
      by (simp add: core_iter_def core_GetMessageStateEvent_def)
  next
    case (Cons v q')
    with channels_pop [OF ok(2) q [unfolded Cons]] carried_view obtain sid st ev tx where
      v: "v = (sid, 0, st, ev, tx)" by blast
    from core_iter_simulation [OF ok(1) q [unfolded Cons v]] core_step_inv [OF assms] show ?thesis
      by blast
  qed
qed

lemma device_step_cases:
  assumes "sys_inv y"
  shows "contents (y_ipc y) QUEUE_DEVICE = Some [] \<and> device_iter 4 (y_device y) (y_ipc y) = Blocks \<or>
    (\<exists>m s. device_iter 4 (y_device y) (y_ipc y) = Ret (m, s) \<and> cstring (msg_text m) = device_text)"
proof -
  from assms have ok: "ipc_ok (y_ipc y)" "channels_ok (contents (y_ipc y))" "buffer32 (y_device y)"
    by (auto simp: sys_inv_def core_ok_def)
  from ok(2) obtain q where q: "contents (y_ipc y) QUEUE_DEVICE = Some q" by (auto simp: channels_ok_def)
  show ?thesis
  proof (cases q)
    case Nil
    then show ?thesis using q chan.recv_empty by (simp add: device_iter_def)
  next
    case (Cons v q')
    from chan.recv_Cons [OF ok(1,3) q [unfolded Cons]] obtain m s where
      r: "message_queue_read 4 QUEUE_DEVICE (y_device y) (y_ipc y) = Ret (0, m, s)" "sendable32 m"
        "ipc_ok s" by blast
    from strcpy_text [OF r(2) app_texts_ok(5,6)] obtain t where
      t: "strcpy_buf (msg_text m) device_text = Ret t" "length t = MAXSIZE" "strlen_buf t \<noteq> None"
        "cstring t = device_text" by blast
    let ?m = "m\<lparr>msg_type := MSG_TYPE_GLOW_LED, msg_text := t\<rparr>"
    have "sendable32 ?m" using r(2) t by (simp add: sendable32_def msg_ok_def fits_long_def)
    from chan.send_returns [OF r(3) this, of QUEUE_CORE] sendable32_terminated [OF r(2)] t r(1)
    show ?thesis by (auto simp: device_iter_def print_text_def Let_def)
  qed
qed

lemma app_wait_cases:
  assumes "sys_inv y" "y_app y = Some b"
  shows "contents (y_ipc y) QUEUE_APPLICATION = Some [] \<and> app_wait 4 b (y_ipc y) = Blocks \<or>
    (\<exists>m s. app_wait 4 b (y_ipc y) = Ret (m, s) \<and> ack_msg (view m))"
proof -
  from assms have ok: "ipc_ok (y_ipc y)" "channels_ok (contents (y_ipc y))" "buffer32 b"
    by (auto simp: sys_inv_def core_ok_def sendable32_buffer buffer32_def)
  from ok(2) obtain q where q: "contents (y_ipc y) QUEUE_APPLICATION = Some q"
    by (auto simp: channels_ok_def)
  show ?thesis
  proof (cases q)
    case Nil
    then show ?thesis using q chan.recv_empty by (simp add: app_wait_def)
  next
    case (Cons v q')
    from chan.recv_Cons [OF ok(1,3) q [unfolded Cons]] obtain m s where
      r: "message_queue_read 4 QUEUE_APPLICATION b (y_ipc y) = Ret (0, m, s)" "sendable32 m" by blast
    then have "app_wait 4 b (y_ipc y) = Ret (m, s)"
      using sendable32_terminated [OF r(2)] by (simp add: app_wait_def print_text_def)
    with reads_step_inv [OF assms this] show ?thesis by blast
  qed
qed

lemma app_send_returns:
  assumes "ipc_ok s" "length (msg_text g) = MAXSIZE" "0 \<notin> set tx" "length tx < MAXSIZE" "fits_long 4 ev"
  shows "\<exists>m s'. app_send 4 tx ev g s = Ret (m, s') \<and> sendable32 m \<and>
    view m = (34567, 0, ST_INIT, ev, tx) \<and> posts s [(QUEUE_CORE, view m)] s'"
proof -
  from strcpy_buf_Ret [of tx "msg_text g"] assms(2,4) obtain t where
    t: "strcpy_buf (msg_text g) tx = Ret t" by auto
  note t' = cstring_of_strcpy [OF assms(3) t]
  let ?m = "g\<lparr>msg_type := MSG_TYPE_GLOW_LED, msg_text := t, msg_session_id := 34567,
              msg_state := ST_INIT, msg_event := ev\<rparr>"
  have "sendable32 ?m"
    using t' assms(2,5) by (simp add: sendable32_def msg_ok_def fits_long_def)
  from chan.send_returns [OF assms(1) this, of QUEUE_CORE] t t' obtain s' where
    s': "app_send 4 tx ev g s = Ret (?m, s')"
    by (auto simp: app_send_def print_text_def Let_def)
  from app_send_sent [OF assms s'] show ?thesis using s' by blast
qed

section \<open>Properties of the system\<close>

text \<open>C7. In every reachable state of the system the three queues exist and carry only what their
  readers expect: requests and device answers to the core, LED orders to the device, acks to the
  application, all of the session of the application; so the core never reaches \<open>ST_TERM\<close>.\<close>
theorem reachable_traffic:
  assumes "reachable y"
  shows "channels_ok (contents (y_ipc y)) \<and> c_state (y_core y) \<in> {ST_INIT, 0} \<and>
    c_state (y_core y) \<noteq> ST_TERM"
  using reachable_inv [OF assms] by (auto simp: sys_inv_def)

lemma reachable_traffic_witness:
  "channels_ok (contents (y_ipc (sys_start 8192 16384 sample_buffer)))"
  using reachable_traffic [OF reachable_sample] by blast

text \<open>C8. Acks are accounted for: what the application has read, together with everything still in the
  queues, never exceeds what its requests can cause, one ack for a plain or a board request and two
  for a request acknowledged by the state machine.\<close>
theorem acks_never_exceed_requests:
  assumes "reachable y"
  shows "y_acks y + in_flight (contents (y_ipc y)) \<le> y_owed y"
  using reachable_inv [OF assms] by (simp add: sys_inv_def)

lemma acks_never_exceed_requests_witness:
  "y_acks (sys_start 8192 16384 sample_buffer) \<le> y_owed (sys_start 8192 16384 sample_buffer)"
  using acks_never_exceed_requests [OF reachable_sample] by linarith



lemma core_run_unfold:
  "c_state c \<noteq> ST_TERM \<Longrightarrow> core_iter 4 c = Ret c' \<Longrightarrow> core_run 4 c = core_run 4 c'"
  by (simp add: core_run.simps [of 4 c])

lemma core_run_waits:
  assumes "c_state c \<noteq> ST_TERM" "contents (c_ipc c) QUEUE_CORE = Some []"
  shows "core_run 4 c = Some (Waiting c)"
proof -
  have "core_iter 4 c = Blocks"
    using chan.recv_empty assms(2) by (simp add: core_iter_def core_GetMessageStateEvent_def)
  then show ?thesis using assms(1) by (simp add: core_run.simps [of 4 c])
qed

lemma deliver_single:
  "f' = deliver acc [(k, v)] f \<Longrightarrow> f k = Some q \<Longrightarrow> f' = f \<or> f' = f(k := Some (q @ [v]))"
  by simp

text \<open>A request without ack never reaches the device: when \<open>glow_led\<close> sends into an idle core, the
  core runs until it waits again with the device queue unchanged, and the only new message, if any,
  is an ack for the application, which did not ask for one.\<close>
lemma no_ack_request_never_reaches_device:
  assumes ok: "core_ok c" "c_state c \<noteq> ST_TERM" "contents (c_ipc c) QUEUE_CORE = Some []"
    "contents (c_ipc c) QUEUE_APPLICATION = Some aq" "length (msg_text g) = MAXSIZE"
    and sent: "glow_led 4 g (c_ipc c) = Ret (r, s)"
  shows "\<exists>c'. core_run 4 (c\<lparr>c_ipc := s\<rparr>) = Some (Waiting c') \<and>
    contents (c_ipc c') QUEUE_DEVICE = contents (c_ipc c) QUEUE_DEVICE \<and>
    contents (c_ipc c') QUEUE_APPLICATION \<in>
      {Some aq, Some (aq @ [(34567, 0, ST_SEND_ACK, EV_SEND_TO_APP, ack_text)])}"
proof -
  let ?f = "contents (c_ipc c)"
  let ?v = "(34567, 0, ST_INIT, EV_SEND_TO_CORE_NO_ACK, no_ack_text) :: msg_view"
  let ?o = "(34567, 0, ST_SEND_TO_DEVICE, EV_SEND_TO_DEVICE, no_ack_text) :: msg_view"
  let ?c = "c\<lparr>c_ipc := s\<rparr>"
  have inv: "ipc_ok (c_ipc c)" using ok(1) by (simp add: core_ok_def)
  from sent obtain m where m: "app_send 4 no_ack_text EV_SEND_TO_CORE_NO_ACK g (c_ipc c) = Ret (m, s)"
    by (auto simp: glow_led_def outcome_simps)
  have "fits_long 4 EV_SEND_TO_CORE_NO_ACK" by (simp add: fits_long_def)
  from app_send_sent [OF inv ok(5) app_texts_ok(1,2) this m]
  have v: "view m = ?v" and p: "posts (c_ipc c) [(QUEUE_CORE, view m)] s" by blast+
  from p have s: "ipc_ok s" "contents s = deliver (accepts (c_ipc c)) [(QUEUE_CORE, ?v)] ?f"
    unfolding posts_def v by blast+
  then have okc: "core_ok ?c" using ok(1) by (simp add: core_ok_def)
  from deliver_single [OF s(2) ok(3)] show ?thesis
  proof
    assume "contents s = ?f"
    with core_run_waits [of ?c] ok show ?thesis by (intro exI [of _ ?c]) simp
  next
    assume cs: "contents s = ?f(QUEUE_CORE := Some ([] @ [?v]))"
    then have "contents (c_ipc ?c) QUEUE_CORE = Some [?v]" by simp
    from core_iter_simulation [OF okc this] obtain c1 where
      c1: "core_iter 4 ?c = Ret c1" "core_ok c1" "c_state c1 = 0"
        "contents (c_ipc c1) = deliver (accepts s) [(QUEUE_CORE, ?o)] (?f(QUEUE_CORE := Some []))"
      using cs by auto
    have run: "core_run 4 ?c = core_run 4 c1" using ok(2) c1(1) by (intro core_run_unfold) simp_all
    have "(?f(QUEUE_CORE := Some [])) QUEUE_CORE = Some []" by simp
    from deliver_single [OF c1(4) this] show ?thesis
    proof
      assume "contents (c_ipc c1) = ?f(QUEUE_CORE := Some [])"
      with core_run_waits [of c1] c1(3) ok(4) run show ?thesis by (intro exI [of _ c1]) simp
    next
      assume cs1: "contents (c_ipc c1) = (?f(QUEUE_CORE := Some []))(QUEUE_CORE := Some ([] @ [?o]))"
      then have "contents (c_ipc c1) QUEUE_CORE = Some [?o]" by simp
      from core_iter_simulation [OF c1(2) this] obtain c2 where
        c2: "core_iter 4 c1 = Ret c2" "c_state c2 = 0"
          "contents (c_ipc c2) = deliver (accepts (c_ipc c1))
            [(QUEUE_APPLICATION, (34567, 0, ST_SEND_ACK, EV_SEND_TO_APP, ack_text))]
            (?f(QUEUE_CORE := Some []))"
        using cs1 by auto
      have run2: "core_run 4 c1 = core_run 4 c2" using c1(3) c2(1) by (intro core_run_unfold) simp_all
      have "(?f(QUEUE_CORE := Some [])) QUEUE_APPLICATION = Some aq" using ok(4) by simp
      from deliver_single [OF c2(3) this] show ?thesis
        using core_run_waits [of c2] c2(2) ok(4) run run2 by (intro exI [of _ c2]) auto
    qed
  qed
qed

lemma no_ack_request_never_reaches_device_witness:
  "\<exists>r s c'. glow_led 4 sample_buffer (c_ipc (core_start (fresh_ipc 8192 16384))) = Ret (r, s) \<and>
    core_run 4 ((core_start (fresh_ipc 8192 16384))\<lparr>c_ipc := s\<rparr>) = Some (Waiting c') \<and>
    contents (c_ipc c') QUEUE_DEVICE = Some []"
proof -
  let ?y = "sys_start 8192 16384 sample_buffer"
  let ?c = "core_start (fresh_ipc 8192 16384)"
  have y: "y_core ?y = ?c" by (simp add: sys_start_def)
  have inv: "core_ok ?c" using sys_inv_start [of sample_buffer 8192 16384] y
    by (simp add: sys_inv_def sample_ok)
  have q: "queues (c_ipc ?c) = [QUEUE_CORE \<mapsto> [], QUEUE_APPLICATION \<mapsto> [], QUEUE_DEVICE \<mapsto> []]"
    by (simp add: core_start_def message_queue_init_def msgget_creat_def fresh_ipc_def set_queue_def)
  from strcpy_buf_Ret [of no_ack_text "msg_text sample_buffer"] app_texts_ok(2) sample_ok(8) obtain t where
    t: "strcpy_buf (msg_text sample_buffer) no_ack_text = Ret t" "length t = MAXSIZE"
      "strlen_buf t = Some (length no_ack_text)" using app_texts_ok(1) by auto
  let ?m = "sample_buffer\<lparr>msg_type := 0, msg_text := t, msg_session_id := 34567,
    msg_state := ST_INIT, msg_event := EV_SEND_TO_CORE_NO_ACK\<rparr>"
  have "sendable32 ?m" using t by (simp add: sendable32_def msg_ok_def fits_long_def)
  moreover have "ipc_ok (c_ipc ?c)" using inv by (simp add: core_ok_def)
  ultimately obtain rc s where "message_queue_write 4 QUEUE_CORE ?m (c_ipc ?c) = Ret (rc, s)"
    using chan.send_returns by blast
  with t have g: "glow_led 4 sample_buffer (c_ipc ?c) = Ret (0, s)"
    by (simp add: glow_led_def app_send_def Let_def print_text_def)
  have "c_state ?c \<noteq> ST_TERM" by (simp add: core_start_def)
  from no_ack_request_never_reaches_device [OF inv this _ _ sample_ok(8) g] q g
  show ?thesis by (fastforce simp: contents_def)
qed

end
