(* ===== verification/Utility_Handler.thy ===== *)
theory Utility_Handler
  imports Message_Queue
begin

text \<open>
  The two utility handlers: the key-press machine of \<open>core/src/utility_handler.c\<close>, which keeps its
  state in a global, and \<open>utility_handler/src/utility_handler.c\<close>, which takes the state from the
  messages it reads.  Both run a table of states and events whose last entry, for \<open>ST_ANY\<close>, is
  meant for every other state.
\<close>

abbreviation (input) UST_ANY :: int where "UST_ANY \<equiv> -1"
abbreviation (input) UST_INIT :: int where "UST_INIT \<equiv> 0"
abbreviation (input) UST_TERM :: int where "UST_TERM \<equiv> 2"
abbreviation (input) UST_AUTH :: int where "UST_AUTH \<equiv> 3"
abbreviation (input) UST_READ :: int where "UST_READ \<equiv> 4"
abbreviation (input) UST_END :: int where "UST_END \<equiv> 5"

text \<open>Event 5000 is \<open>EV_KEYPRESS\<close> in one header and \<open>EV_READ_FROM_DEVICE\<close> in the other.\<close>

abbreviation (input) UEV_KEYPRESS :: int where "UEV_KEYPRESS \<equiv> 5000"
abbreviation (input) UEV_READ_FROM_DEVICE :: int where "UEV_READ_FROM_DEVICE \<equiv> 5000"

datatype util_fn = GotKey_fn | Auth_fn | ReadData_fn | EndComm_fn | FsmError_fn

record util_transition =
  ut_st :: int
  ut_ev :: int
  ut_fn :: util_fn

definition key_trans :: "util_transition list" where
  "key_trans =
     [\<lparr>ut_st = UST_INIT, ut_ev = UEV_KEYPRESS, ut_fn = GotKey_fn\<rparr>,
      \<lparr>ut_st = UST_AUTH, ut_ev = UEV_KEYPRESS, ut_fn = Auth_fn\<rparr>,
      \<lparr>ut_st = UST_READ, ut_ev = UEV_KEYPRESS, ut_fn = ReadData_fn\<rparr>,
      \<lparr>ut_st = UST_END, ut_ev = UEV_KEYPRESS, ut_fn = EndComm_fn\<rparr>,
      \<lparr>ut_st = UST_ANY, ut_ev = UEV_KEYPRESS, ut_fn = FsmError_fn\<rparr>]"

definition util_trans :: "util_transition list" where
  "util_trans =
     [\<lparr>ut_st = UST_INIT, ut_ev = UEV_READ_FROM_DEVICE, ut_fn = GotKey_fn\<rparr>,
      \<lparr>ut_st = UST_AUTH, ut_ev = UEV_READ_FROM_DEVICE, ut_fn = Auth_fn\<rparr>,
      \<lparr>ut_st = UST_READ, ut_ev = UEV_READ_FROM_DEVICE, ut_fn = ReadData_fn\<rparr>,
      \<lparr>ut_st = UST_END, ut_ev = UEV_READ_FROM_DEVICE, ut_fn = EndComm_fn\<rparr>,
      \<lparr>ut_st = UST_ANY, ut_ev = UEV_READ_FROM_DEVICE, ut_fn = FsmError_fn\<rparr>]"

section \<open>The key-press machine\<close>

text \<open>The transition functions set the global and return it; \<open>FsmError\<close> has no \<open>return\<close>, and \<open>main\<close>
  uses the value it would have returned.\<close>

fun key_fn :: "util_fn \<Rightarrow> int outcome" where
  "key_fn GotKey_fn = Ret UST_AUTH"
| "key_fn Auth_fn = Ret UST_READ"
| "key_fn ReadData_fn = Ret UST_END"
| "key_fn EndComm_fn = Ret UST_TERM"
| "key_fn FsmError_fn = Undefined"

definition GetNextEvent :: int where
  "GetNextEvent = UEV_KEYPRESS"

fun key_scan :: "util_transition list \<Rightarrow> int \<Rightarrow> int \<Rightarrow> int outcome" where
  "key_scan [] st ev = Ret st"
| "key_scan (t # ts) st ev =
     (if st = ut_st t \<and> ev = ut_ev t then key_fn (ut_fn t) else key_scan ts st ev)"

text \<open>The states \<open>main\<close> goes through, with the outcome of the last step; \<^const>\<open>None\<close> when the loop never
  ends.\<close>

partial_function (option) key_run :: "int \<Rightarrow> (int list \<times> bool) option" where
  "key_run st =
     (if st = UST_TERM then Some ([st], True)
      else (case key_scan key_trans st GetNextEvent of
              Ret st' \<Rightarrow> Option.bind (key_run st') (\<lambda>(sts, b). Some (st # sts, b))
            | _ \<Rightarrow> Some ([st], False)))"

declare key_run.simps [code]

definition key_main :: "(int list \<times> bool) option" where
  "key_main = key_run UST_INIT"

lemma key_scan_trans:
  "key_scan key_trans st GetNextEvent =
     (if st = UST_INIT then Ret UST_AUTH else if st = UST_AUTH then Ret UST_READ
      else if st = UST_READ then Ret UST_END else if st = UST_END then Ret UST_TERM
      else if st = UST_ANY then Undefined else Ret st)"
  by (simp add: key_trans_def GetNextEvent_def)

text \<open>The catch-all entry catches nothing: it is compared with \<open>ST_ANY\<close> itself, so from every state
  outside the table, \<open>ST_ERROR\<close> for one, the loop runs for ever without reaching \<open>FsmError\<close>.\<close>
lemma key_run_unknown_state_spins:
  assumes "st \<notin> {UST_ANY, UST_INIT, UST_TERM, UST_AUTH, UST_READ, UST_END}"
  shows "key_run st = None"
proof (rule ccontr)
  assume "key_run st \<noteq> None"
  then obtain r where r: "key_run st = Some r" by auto
  let ?known = "{UST_ANY, UST_INIT, UST_TERM, UST_AUTH, UST_READ, UST_END}"
  let ?P = "\<lambda>st r :: int list \<times> bool. st \<in> ?known"
  have "?P st r"
  proof (rule key_run.raw_induct [where P = ?P, OF _ r], rule ccontr)
    fix run st and r :: "int list \<times> bool"
    assume IH: "\<And>st r. run st = Some r \<Longrightarrow> st \<in> ?known"
      and step: "(if st = UST_TERM then Some ([st], True)
         else (case key_scan key_trans st GetNextEvent of
              Ret st' \<Rightarrow> Option.bind (run st') (\<lambda>(sts, b). Some (st # sts, b))
            | _ \<Rightarrow> Some ([st], False))) = Some r"
      and unknown: "st \<notin> ?known"
    then have "Option.bind (run st) (\<lambda>(sts, b). Some (st # sts, b)) = Some r"
      by (simp add: key_scan_trans)
    then obtain r' where "run st = Some r'" by (cases "run st") auto
    from IH [OF this] unknown show False by blast
  qed
  with assms show False by blast
qed

lemma key_run_unknown_state_spins_witness: "key_run 1 = None"
  by (rule key_run_unknown_state_spins) simp

text \<open>The states of a run from \<open>ST_INIT\<close>.\<close>

definition key_path :: "int list" where
  "key_path = [UST_INIT, UST_AUTH, UST_READ, UST_END, UST_TERM]"

text \<open>C10. The loop of the key-press machine, for every value its state variable can start with: from a
  state of the path it passes the rest of the path, each state once, and leaves on \<open>ST_TERM\<close>, from
  \<open>ST_INIT\<close>, where \<open>main\<close> starts, after four events; from \<open>ST_ANY\<close> it uses the value \<open>FsmError\<close>
  does not return, which is undefined; from every other value, \<open>ST_ERROR\<close> for one, which the
  catch-all entry is meant for, it runs for ever.\<close>
theorem key_run_from_every_state:
  "key_run st =
     (if st \<in> set key_path then Some (dropWhile (\<lambda>s. s \<noteq> st) key_path, True)
      else if st = UST_ANY then Some ([UST_ANY], False)
      else None) \<and>
   key_main = Some (key_path, True)"
proof -
  have path: "key_run UST_TERM = Some ([UST_TERM], True)"
    "key_run UST_END = Some ([UST_END, UST_TERM], True)"
    "key_run UST_READ = Some ([UST_READ, UST_END, UST_TERM], True)"
    "key_run UST_AUTH = Some ([UST_AUTH, UST_READ, UST_END, UST_TERM], True)"
    "key_run UST_INIT = Some (key_path, True)" "key_run UST_ANY = Some ([UST_ANY], False)"
    by (simp_all add: key_run.simps key_scan_trans key_path_def)
  have "key_run st = None" if "st \<notin> set key_path" "st \<noteq> UST_ANY"
    using that by (intro key_run_unknown_state_spins) (simp add: key_path_def)
  then show ?thesis using path by (auto simp: key_main_def key_path_def)
qed

section \<open>The message-driven handler\<close>

abbreviation (input) QUEUE_READ_FROM_DEVICE :: int where "QUEUE_READ_FROM_DEVICE \<equiv> 10201"
abbreviation (input) QUEUE_WRITE_TO_APPLICATION :: int where "QUEUE_WRITE_TO_APPLICATION \<equiv> 10204"

record handler =
  h_state :: int
  h_event :: int
  h_ipc :: ipc

text \<open>The globals are \<open>int\<close>, the fields of a message are \<open>long\<close>.\<close>

definition int_of_long :: "int \<Rightarrow> int" where
  "int_of_long x = (x + 2 ^ 31) mod 2 ^ 32 - 2 ^ 31"

definition reply :: "nat \<Rightarrow> int \<Rightarrow> int \<Rightarrow> msgbuff \<Rightarrow> ipc \<Rightarrow> (int \<times> ipc) outcome" where
  "reply w st ret m s =
     and_then (utility_queue_write w QUEUE_WRITE_TO_APPLICATION
         (m\<lparr>msg_state := st, msg_event := UEV_READ_FROM_DEVICE\<rparr>) s)
       (\<lambda>(_, s'). Ret (ret, s'))"

definition util_GotKey :: "nat \<Rightarrow> msgbuff \<Rightarrow> ipc \<Rightarrow> (int \<times> ipc) outcome" where
  "util_GotKey w m s = reply w UST_AUTH 0 m s"

definition util_FsmError :: "nat \<Rightarrow> msgbuff \<Rightarrow> ipc \<Rightarrow> (int \<times> ipc) outcome" where
  "util_FsmError w m s = reply w UST_TERM 0 m s"

definition util_Auth :: "nat \<Rightarrow> msgbuff \<Rightarrow> ipc \<Rightarrow> (int \<times> ipc) outcome" where
  "util_Auth w m s = reply w UST_READ 0 m s"

definition util_ReadData :: "nat \<Rightarrow> msgbuff \<Rightarrow> ipc \<Rightarrow> (int \<times> ipc) outcome" where
  "util_ReadData w m s = reply w UST_READ 0 m s"

definition util_EndComm :: "nat \<Rightarrow> int \<Rightarrow> msgbuff \<Rightarrow> ipc \<Rightarrow> (int \<times> ipc) outcome" where
  "util_EndComm w st m s = reply w UST_TERM st m s"

fun util_call :: "nat \<Rightarrow> util_fn \<Rightarrow> int \<Rightarrow> msgbuff \<Rightarrow> ipc \<Rightarrow> (int \<times> ipc) outcome" where
  "util_call w GotKey_fn st m s = util_GotKey w m s"
| "util_call w Auth_fn st m s = util_Auth w m s"
| "util_call w ReadData_fn st m s = util_ReadData w m s"
| "util_call w EndComm_fn st m s = util_EndComm w st m s"
| "util_call w FsmError_fn st m s = util_FsmError w m s"

fun util_scan :: "nat \<Rightarrow> util_transition list \<Rightarrow> msgbuff \<Rightarrow> handler \<Rightarrow> handler outcome" where
  "util_scan w [] m h = Ret h"
| "util_scan w (t # ts) m h =
     (if h_state h = ut_st t \<and> h_event h = ut_ev t then
        and_then (util_call w (ut_fn t) (h_state h) m (h_ipc h))
          (\<lambda>(r, s). Ret (h\<lparr>h_state := r, h_ipc := s\<rparr>))
      else util_scan w ts m h)"

text \<open>\<open>GetMessageStateEvent\<close> reads into an uninitialised local (\<open>g\<close>) and has no \<open>return\<close>: what \<open>main\<close>
  stores in its own message (\<open>ret\<close>) is not the message that was read.\<close>

definition util_GetMessageStateEvent :: "nat \<Rightarrow> msgbuff \<Rightarrow> handler \<Rightarrow> handler outcome" where
  "util_GetMessageStateEvent w g h =
     and_then (utility_queue_read w QUEUE_READ_FROM_DEVICE g (h_ipc h))
       (\<lambda>(_, m, s). print_text m
          (Ret (if msg_type m = 1
                then h\<lparr>h_state := int_of_long (msg_state m), h_event := int_of_long (msg_event m),
                       h_ipc := s\<rparr>
                else h\<lparr>h_ipc := s\<rparr>)))"

definition util_iter :: "nat \<Rightarrow> msgbuff \<Rightarrow> msgbuff \<Rightarrow> handler \<Rightarrow> handler outcome" where
  "util_iter w g ret h =
     and_then (util_GetMessageStateEvent w g h) (\<lambda>h1. util_scan w util_trans ret h1)"

lemma utility_write_ignores_state:
  assumes "length (msg_text m) = MAXSIZE"
  shows "utility_queue_write w key (m\<lparr>msg_state := st, msg_event := ev\<rparr>) s = utility_queue_write w key m s"
proof (cases "strlen_buf (msg_text m)")
  case None
  then show ?thesis by (simp add: utility_queue_write_def util_queue_send_def)
next
  case (Some n)
  from strlen_buf_less [OF this] assms have "n < MAXSIZE" by simp
  then have "take (Suc n) (util_image w (m\<lparr>msg_state := st, msg_event := ev\<rparr>)) =
      take (Suc n) (util_image w m)"
    using assms by (simp add: util_image_def)
  then show ?thesis using Some by (simp add: utility_queue_write_def util_queue_send_def length_util_image Let_def)
qed

text \<open>The answers of the message-driven handler carry no state: whatever transition fires, the queue
  of the application receives the same bytes, those of the message \<open>main\<close> happens to hold.\<close>
theorem util_answers_carry_no_state:
  assumes "length (msg_text m) = MAXSIZE"
  shows "map_option snd (returned (util_call w f st m s)) =
    map_option snd (returned (utility_queue_write w QUEUE_WRITE_TO_APPLICATION m s))"
proof -
  have "map_option snd (returned (reply w st' ret m s)) =
      map_option snd (returned (utility_queue_write w QUEUE_WRITE_TO_APPLICATION m s))" for st' ret
    unfolding reply_def utility_write_ignores_state [OF assms]
    by (cases "utility_queue_write w QUEUE_WRITE_TO_APPLICATION m s") auto
  then show ?thesis
    by (cases f) (simp_all add: util_GotKey_def util_Auth_def util_ReadData_def util_EndComm_def
        util_FsmError_def)
qed

lemma util_answers_carry_no_state_witness:
  "map_option snd (returned (util_call 4 EndComm_fn UST_END sample_buffer sample_ipc)) =
   map_option snd (returned (utility_queue_write 4 QUEUE_WRITE_TO_APPLICATION sample_buffer sample_ipc))"
  by (rule util_answers_carry_no_state) (simp add: sample_ok)

text \<open>One turn of the handler leaves the machine in \<open>ST_INIT\<close>, in a state without a transition, or,
  after the end of a communication, in \<open>ST_END\<close>; it never steps on to the next state by itself.\<close>
theorem util_iter_next_state:
  assumes "util_iter w g ret h = Ret h'"
  shows "h_state h' \<in> {UST_INIT, UST_END} \<or>
    (h_state h' \<notin> {UST_INIT, UST_AUTH, UST_READ, UST_END, UST_ANY} \<or> h_event h' \<noteq> UEV_READ_FROM_DEVICE)"
proof -
  from assms obtain h1 where "util_scan w util_trans ret h1 = Ret h'"
    by (auto simp: util_iter_def outcome_simps)
  then show ?thesis
    by (auto simp: util_trans_def outcome_simps util_GotKey_def util_Auth_def util_ReadData_def
        util_EndComm_def util_FsmError_def reply_def split: if_splits)
qed

definition handler_sample :: handler where
  "handler_sample = \<lparr>h_state = UST_INIT, h_event = 0,
     h_ipc = sample_ipc\<lparr>queues := (\<lambda>_. None)\<rparr>\<rparr>"

lemma util_iter_next_state_witness:
  "\<exists>h'. util_iter 4 sample_buffer sample_buffer handler_sample = Ret h' \<and>
    (h_state h' \<in> {UST_INIT, UST_END} \<or>
     (h_state h' \<notin> {UST_INIT, UST_AUTH, UST_READ, UST_END, UST_ANY} \<or> h_event h' \<noteq> UEV_READ_FROM_DEVICE))"
proof -
  have "util_GetMessageStateEvent 4 sample_buffer handler_sample = Ret handler_sample"
    by (simp add: util_GetMessageStateEvent_def utility_queue_read_def util_queue_receive_def
        handler_sample_def print_text_def sample_buffer_def sample_msg_def)
  then have "util_iter 4 sample_buffer sample_buffer handler_sample = Ret handler_sample"
    by (simp add: util_iter_def util_trans_def handler_sample_def)
  from this util_iter_next_state [OF this] show ?thesis by blast
qed

end
