(* ===== verification/Printbuf.thy ===== *)
theory Printbuf
  imports Nutrino_Prelude
begin

text \<open>
  The growing output buffer of json-c, \<open>json-c-0.9/printbuf.c\<close> and the macro of \<open>printbuf.h\<close>:
  its operations with allocation failure and signed overflow written out, the invariant that the
  write position stays inside the block, and the abstraction to the string written so far.
\<close>

record printbuf =
  pb_buf :: string
  pb_bpos :: int
  pb_size :: int

definition printbuf_new :: "char mem \<Rightarrow> printbuf option" where
  "printbuf_new M =
     (if \<not> mem_ok M 16 then None
      else if \<not> mem_ok M 32 then None
      else Some \<lparr>pb_buf = fresh_block M 32, pb_bpos = 0, pb_size = 32\<rparr>)"

definition json_max :: "int \<Rightarrow> int \<Rightarrow> int" where
  "json_max a b = (if a > b then a else b)"

text \<open>\<open>memcpy\<close> of the data, the new position, and the terminator after it.\<close>

definition pb_store :: "printbuf \<Rightarrow> string \<Rightarrow> printbuf" where
  "pb_store p data =
     p\<lparr>pb_buf := splice (pb_buf p) (nat (pb_bpos p)) (data @ [CHR 0x00]),
       pb_bpos := pb_bpos p + int (length data)\<rparr>"

definition printbuf_memappend :: "char mem \<Rightarrow> printbuf \<Rightarrow> string \<Rightarrow> (int \<times> printbuf) outcome" where
  "printbuf_memappend M p data =
     (let size = int (length data) in
      if pb_size p - pb_bpos p \<le> size then
        (if pb_size p * 2 > INT_MAX \<or> pb_bpos p + size + 8 > INT_MAX then Undefined
         else
           (let new_size = json_max (pb_size p * 2) (pb_bpos p + size + 8) in
            if \<not> mem_ok M new_size then Ret (-1, p)
            else Ret (size, pb_store
              (p\<lparr>pb_buf := pb_buf p @ fresh_block M (new_size - pb_size p), pb_size := new_size\<rparr>) data)))
      else Ret (size, pb_store p data))"

definition printbuf_memappend_fast :: "char mem \<Rightarrow> printbuf \<Rightarrow> string \<Rightarrow> printbuf outcome" where
  "printbuf_memappend_fast M p data =
     (if pb_size p - pb_bpos p > int (length data) then Ret (pb_store p data)
      else and_then (printbuf_memappend M p data) (\<lambda>(_, p'). Ret p'))"

text \<open>\<open>sprintbuf\<close>: the formatted text is the argument, \<^const>\<open>None\<close> when the conversion fails.  Up to 127
  bytes fit the stack buffer, a longer text is formatted again into an allocated string.\<close>

definition sprintbuf :: "char mem \<Rightarrow> printbuf \<Rightarrow> string option \<Rightarrow> (int \<times> printbuf) outcome" where
  "sprintbuf M p out =
     (case out of
        None \<Rightarrow> Ret (-1, p)
      | Some s \<Rightarrow>
          if int (length s) > 127 then
            (if \<not> mem_ok M (int (length s) + 1) then Ret (-1, p)
             else and_then (printbuf_memappend M p s) (\<lambda>(_, p'). Ret (int (length s), p')))
          else and_then (printbuf_memappend M p s) (\<lambda>(_, p'). Ret (int (length s), p')))"

definition printbuf_reset :: "printbuf \<Rightarrow> printbuf" where
  "printbuf_reset p = p\<lparr>pb_buf := (pb_buf p)[0 := CHR 0x00], pb_bpos := 0\<rparr>"

section \<open>Invariant and abstraction\<close>

definition pb_inv :: "printbuf \<Rightarrow> bool" where
  "pb_inv p \<longleftrightarrow> 0 \<le> pb_bpos p \<and> pb_bpos p < pb_size p \<and> int (length (pb_buf p)) = pb_size p \<and>
     pb_size p \<le> INT_MAX"

definition written :: "printbuf \<Rightarrow> string" where
  "written p = take (nat (pb_bpos p)) (pb_buf p)"

definition pb_terminated :: "printbuf \<Rightarrow> bool" where
  "pb_terminated p \<longleftrightarrow> pb_buf p ! nat (pb_bpos p) = CHR 0x00"

lemma pb_store_correct:
  assumes "pb_inv p" "pb_bpos p + int (length data) < pb_size p"
  shows "pb_inv (pb_store p data) \<and> written (pb_store p data) = written p @ data \<and>
    pb_terminated (pb_store p data)"
proof -
  let ?n = "nat (pb_bpos p)"
  from assms have n: "?n + length (data @ [CHR 0x00]) \<le> length (pb_buf p)" "?n \<le> length (pb_buf p)"
    by (auto simp: pb_inv_def)
  have pos: "nat (pb_bpos p + int (length data)) = ?n + length data"
    using assms(1) by (simp add: pb_inv_def nat_add_distrib)
  have "take (?n + length data) (splice (pb_buf p) ?n (data @ [CHR 0x00])) = take ?n (pb_buf p) @ data"
    using n(2) by (simp add: splice_def)
  then show ?thesis
    using assms n nth_splice_end [OF n(2), of data "CHR 0x00"]
    by (simp add: pb_inv_def pb_store_def written_def pb_terminated_def length_splice pos)
qed

lemma pb_grow:
  assumes "pb_inv p" "pb_size p \<le> n" "n \<le> INT_MAX"
  shows "pb_inv (p\<lparr>pb_buf := pb_buf p @ fresh_block M (n - pb_size p), pb_size := n\<rparr>) \<and>
    written (p\<lparr>pb_buf := pb_buf p @ fresh_block M (n - pb_size p), pb_size := n\<rparr>) = written p"
  using assms by (auto simp: pb_inv_def written_def)

lemma memappend_cases:
  assumes "pb_inv p"
  shows "printbuf_memappend M p data = Undefined \<or> printbuf_memappend M p data = Ret (-1, p) \<or>
    (\<exists>p'. printbuf_memappend M p data = Ret (int (length data), p') \<and> pb_inv p' \<and>
       written p' = written p @ data \<and> pb_terminated p')"
proof (cases "pb_size p - pb_bpos p \<le> int (length data)")
  case False
  with pb_store_correct [OF assms, of data] show ?thesis
    by (auto simp: printbuf_memappend_def Let_def)
next
  case grow: True
  let ?n = "json_max (pb_size p * 2) (pb_bpos p + int (length data) + 8)"
  show ?thesis
  proof (cases "pb_size p * 2 > INT_MAX \<or> pb_bpos p + int (length data) + 8 > INT_MAX \<or> \<not> mem_ok M ?n")
    case True
    with grow show ?thesis by (auto simp: printbuf_memappend_def Let_def)
  next
    case False
    have n: "pb_size p \<le> ?n" "?n \<le> INT_MAX" "pb_bpos p + int (length data) < ?n"
      using assms False by (auto simp: json_max_def pb_inv_def)
    let ?g = "p\<lparr>pb_buf := pb_buf p @ fresh_block M (?n - pb_size p), pb_size := ?n\<rparr>"
    have "pb_inv ?g" "written ?g = written p" using pb_grow [OF assms n(1,2), of M] by auto
    with pb_store_correct [of ?g data] n(3) False grow show ?thesis
      by (auto simp: printbuf_memappend_def Let_def)
  qed
qed

lemma memappend_defined:
  assumes "pb_size p * 2 \<le> INT_MAX" "pb_bpos p + int (length data) + 8 \<le> INT_MAX"
  shows "printbuf_memappend M p data \<noteq> Undefined"
  using assms by (simp add: printbuf_memappend_def Let_def)

section \<open>Properties\<close>

definition all_memory :: "'a \<Rightarrow> 'a mem" where
  "all_memory x = \<lparr>mem_ok = (\<lambda>_. True), mem_junk = (\<lambda>_. x)\<rparr>"

definition pb_sample :: printbuf where
  "pb_sample = \<lparr>pb_buf = replicate 32 CHR ''x'', pb_bpos = 0, pb_size = 32\<rparr>"

lemma pb_sample_inv: "pb_inv pb_sample"
  by (simp add: pb_inv_def pb_sample_def)

text \<open>C12. Appending to a print buffer either fails without a trace or appends exactly the given bytes
  and terminates them; the write position never leaves the block, and below the 2 GB limits no
  signed overflow can occur.\<close>
theorem printbuf_append_correct:
  assumes "pb_inv p" "pb_size p * 2 \<le> INT_MAX" "pb_bpos p + int (length data) + 8 \<le> INT_MAX"
  shows "printbuf_memappend M p data = Ret (-1, p) \<or>
    (\<exists>p'. printbuf_memappend M p data = Ret (int (length data), p') \<and> pb_inv p' \<and>
       written p' = written p @ data \<and> pb_terminated p')"
  using memappend_cases [OF assms(1), of M data] memappend_defined [OF assms(2,3), of M] by blast

lemma printbuf_append_correct_witness:
  "printbuf_memappend (all_memory CHR ''x'') pb_sample ''null'' = Ret (-1, pb_sample) \<or>
   (\<exists>p'. printbuf_memappend (all_memory CHR ''x'') pb_sample ''null'' = Ret (4, p') \<and> written p' = ''null'')"
proof -
  have "written pb_sample = []" by (simp add: written_def pb_sample_def)
  then show ?thesis
    using printbuf_append_correct [OF pb_sample_inv, of "''null''" "all_memory CHR ''x''"]
    by (simp add: pb_sample_def) blast
qed

text \<open>The macro that skips the call when the block has room is the call: same outcome, same buffer.\<close>
lemma memappend_fast_is_memappend:
  "printbuf_memappend_fast M p data = and_then (printbuf_memappend M p data) (\<lambda>(_, p'). Ret p')"
  by (simp add: printbuf_memappend_fast_def printbuf_memappend_def Let_def)

end
