(* ===== verification/Array_List.thy ===== *)
theory Array_List
  imports Printbuf
begin

text \<open>
  The growing pointer array of json-c, \<open>json-c-0.9/arraylist.c\<close>.  A slot holds \<^const>\<open>None\<close> for
  \<open>NULL\<close>; \<open>al_freed\<close> logs the objects handed to \<open>free_fn\<close>.  An access outside the allocated block
  is undefined, and so is the doubling of a size that does not fit an \<open>int\<close>.
\<close>

record 'a array_list =
  al_array :: "'a option list"
  al_length :: int
  al_size :: int
  al_freed :: "'a list"

definition ARRAY_LIST_DEFAULT_SIZE :: int where
  "ARRAY_LIST_DEFAULT_SIZE = 32"

definition array_list_new :: "'a option mem \<Rightarrow> 'a array_list option" where
  "array_list_new M =
     (if \<not> mem_ok M 1 then None
      else if \<not> mem_ok M ARRAY_LIST_DEFAULT_SIZE then None
      else Some \<lparr>al_array = replicate (nat ARRAY_LIST_DEFAULT_SIZE) None, al_length = 0,
                 al_size = ARRAY_LIST_DEFAULT_SIZE, al_freed = []\<rparr>)"

fun free_slots :: "'a option list \<Rightarrow> 'a list" where
  "free_slots [] = []"
| "free_slots (Some x # xs) = x # free_slots xs"
| "free_slots (None # xs) = free_slots xs"

text \<open>\<open>array_list_free\<close> returns nothing; its result here is the log of freed objects.\<close>

definition array_list_free :: "'a array_list \<Rightarrow> 'a list outcome" where
  "array_list_free arr =
     (if al_length arr > int (length (al_array arr)) then Undefined
      else Ret (al_freed arr @ free_slots (take (nat (al_length arr)) (al_array arr))))"

definition array_list_get_idx :: "'a array_list \<Rightarrow> int \<Rightarrow> 'a option outcome" where
  "array_list_get_idx arr i =
     (if i \<ge> al_length arr then Ret None
      else if i < 0 \<or> i \<ge> int (length (al_array arr)) then Undefined
      else Ret (al_array arr ! nat i))"

definition array_list_expand_internal ::
    "'a option mem \<Rightarrow> 'a array_list \<Rightarrow> int \<Rightarrow> (int \<times> 'a array_list) outcome" where
  "array_list_expand_internal M arr maxi =
     (if maxi < al_size arr then Ret (0, arr)
      else if al_size arr * 2 > INT_MAX then Undefined
      else
        (let new_size = json_max (al_size arr * 2) maxi in
         if \<not> mem_ok M new_size then Ret (-1, arr)
         else Ret (0, arr\<lparr>al_array := al_array arr @ replicate (nat (new_size - al_size arr)) None,
                          al_size := new_size\<rparr>)))"

definition array_list_put_idx ::
    "'a option mem \<Rightarrow> 'a array_list \<Rightarrow> int \<Rightarrow> 'a option \<Rightarrow> (int \<times> 'a array_list) outcome" where
  "array_list_put_idx M arr idx data =
     and_then (array_list_expand_internal M arr idx) (\<lambda>(rc, arr').
       if rc \<noteq> 0 then Ret (-1, arr')
       else if idx < 0 \<or> idx \<ge> int (length (al_array arr')) then Undefined
       else Ret (0,
         arr'\<lparr>al_freed := al_freed arr' @ free_slots [al_array arr' ! nat idx],
              al_array := (al_array arr')[nat idx := data],
              al_length := (if al_length arr' \<le> idx then idx + 1 else al_length arr')\<rparr>))"

definition array_list_add ::
    "'a option mem \<Rightarrow> 'a array_list \<Rightarrow> 'a option \<Rightarrow> (int \<times> 'a array_list) outcome" where
  "array_list_add M arr data = array_list_put_idx M arr (al_length arr) data"

definition array_list_length :: "'a array_list \<Rightarrow> int" where
  "array_list_length arr = al_length arr"

section \<open>Invariant and abstraction\<close>

text \<open>The block has \<open>size\<close> slots, and the slots from \<open>length\<close> on are \<open>NULL\<close>.\<close>

definition al_inv :: "'a array_list \<Rightarrow> bool" where
  "al_inv arr \<longleftrightarrow> 0 < al_size arr \<and> int (length (al_array arr)) = al_size arr \<and>
     0 \<le> al_length arr \<and> al_length arr \<le> al_size arr \<and>
     drop (nat (al_length arr)) (al_array arr) = replicate (nat (al_size arr - al_length arr)) None"

definition items :: "'a array_list \<Rightarrow> 'a option list" where
  "items arr = take (nat (al_length arr)) (al_array arr)"

text \<open>What a store at an index means for the items: a replacement, or an extension with \<open>NULL\<close>s
  before the new last item.\<close>

definition stored :: "'a option list \<Rightarrow> nat \<Rightarrow> 'a option \<Rightarrow> 'a option list" where
  "stored xs i x = (if i < length xs then xs[i := x] else xs @ replicate (i - length xs) None @ [x])"

lemma al_inv_new: "array_list_new M = Some arr \<Longrightarrow> al_inv arr \<and> items arr = [] \<and> al_freed arr = []"
  by (auto simp: array_list_new_def al_inv_def items_def ARRAY_LIST_DEFAULT_SIZE_def split: if_splits)

lemma al_array_split:
  assumes "al_inv arr"
  shows "al_array arr = items arr @ replicate (nat (al_size arr - al_length arr)) None"
    and "length (items arr) = nat (al_length arr)"
  using assms append_take_drop_id [of "nat (al_length arr)" "al_array arr"]
  by (auto simp: al_inv_def items_def)

lemma expand_cases:
  assumes "al_inv arr" "al_size arr * 2 \<le> INT_MAX"
  shows "array_list_expand_internal M arr m = Ret (-1, arr) \<or>
    (\<exists>n. array_list_expand_internal M arr m = Ret (0, arr\<lparr>al_array := al_array arr @
         replicate (nat (n - al_size arr)) None, al_size := n\<rparr>) \<and> al_size arr \<le> n \<and>
         n = (if m < al_size arr then al_size arr else json_max (al_size arr * 2) m))"
  using assms
  by (cases "m < al_size arr"; cases "mem_ok M (json_max (al_size arr * 2) m)")
     (auto simp: array_list_expand_internal_def Let_def json_max_def al_inv_def
        intro!: exI [of _ "al_size arr"])

lemma items_expand:
  assumes "al_inv arr" "al_size arr \<le> n"
  shows "al_inv (arr\<lparr>al_array := al_array arr @ replicate (nat (n - al_size arr)) None, al_size := n\<rparr>)"
    "items (arr\<lparr>al_array := al_array arr @ replicate (nat (n - al_size arr)) None, al_size := n\<rparr>) = items arr"
  using assms
  by (auto simp: al_inv_def items_def nat_diff_distrib' replicate_add [symmetric])

definition put_slot :: "'a array_list \<Rightarrow> int \<Rightarrow> 'a option \<Rightarrow> 'a array_list" where
  "put_slot arr i x =
     arr\<lparr>al_freed := al_freed arr @ free_slots [al_array arr ! nat i],
         al_array := (al_array arr)[nat i := x],
         al_length := (if al_length arr \<le> i then i + 1 else al_length arr)\<rparr>"

lemma replicate_split: "k < r \<Longrightarrow> replicate r x = replicate k x @ x # replicate (r - Suc k) x"
  using replicate_add [of k "Suc (r - Suc k)" x] by simp

lemma al_inv_bounds:
  "al_inv arr \<Longrightarrow> 0 < al_size arr \<and> int (length (al_array arr)) = al_size arr \<and> 0 \<le> al_length arr"
  by (simp add: al_inv_def)

lemma put_in_place:
  assumes inv: "al_inv arr" and i: "0 \<le> i" "i < al_size arr"
  shows "al_inv (put_slot arr i x) \<and> items (put_slot arr i x) = stored (items arr) (nat i) x"
proof -
  let ?n = "nat (al_length arr)"
  let ?r = "nat (al_size arr - al_length arr)"
  have arr: "al_array arr = items arr @ replicate ?r None" and len: "length (items arr) = ?n"
    using al_array_split [OF inv] by auto
  show ?thesis
  proof (cases "i < al_length arr")
    case True
    then show ?thesis
      using inv i by (auto simp: put_slot_def al_inv_def items_def stored_def take_update_swap)
  next
    case False
    define k where "k = nat i - ?n"
    have k: "nat i = ?n + k" "k < ?r" using inv False i by (auto simp: k_def al_inv_def)
    have upd: "(al_array arr)[nat i := x] = (items arr @ replicate k None @ [x]) @ replicate (?r - Suc k) None"
      unfolding arr by (simp add: k(1) list_update_append len replicate_split [OF k(2)])
    have l: "nat (i + 1) = length (items arr @ replicate k None @ [x])"
      using k i len by (simp add: nat_add_distrib)
    have "drop (nat (i + 1)) ((al_array arr)[nat i := x]) = replicate (?r - Suc k) None"
      "take (nat (i + 1)) ((al_array arr)[nat i := x]) = items arr @ replicate k None @ [x]"
      unfolding upd l by simp_all
    moreover have "?r - Suc k = nat (al_size arr - (i + 1))" using k i inv by (auto simp: al_inv_def)
    ultimately have "items (put_slot arr i x) = items arr @ replicate k None @ [x]"
      "drop (nat (i + 1)) ((al_array arr)[nat i := x]) = replicate (nat (al_size arr - (i + 1))) None"
      using False by (simp_all add: items_def put_slot_def)
    moreover from this(2) have "al_inv (put_slot arr i x)"
      unfolding al_inv_def put_slot_def using False i al_inv_bounds [OF inv] by (simp del: drop_update_cancel)
    moreover have "stored (items arr) (nat i) x = items arr @ replicate k None @ [x]"
      by (simp add: stored_def len k(1))
    ultimately show ?thesis by simp
  qed
qed

lemma put_idx_cases:
  assumes "al_inv arr" "al_size arr * 2 \<le> INT_MAX" "0 \<le> i" "i < al_size arr * 2"
  shows "array_list_put_idx M arr i x = Ret (-1, arr) \<or>
    (\<exists>arr'. array_list_put_idx M arr i x = Ret (0, arr') \<and> al_inv arr' \<and>
       items arr' = stored (items arr) (nat i) x \<and> al_size arr' \<le> al_size arr * 2 \<and>
       al_length arr' = (if al_length arr \<le> i then i + 1 else al_length arr))"
proof -
  consider "array_list_expand_internal M arr i = Ret (-1, arr)"
    | n where "array_list_expand_internal M arr i = Ret (0, arr\<lparr>al_array := al_array arr @
         replicate (nat (n - al_size arr)) None, al_size := n\<rparr>)" "al_size arr \<le> n"
         "n = (if i < al_size arr then al_size arr else json_max (al_size arr * 2) i)"
    using expand_cases [OF assms(1,2), of M i] by blast
  then show ?thesis
  proof cases
    case 1
    then show ?thesis by (simp add: array_list_put_idx_def)
  next
    case (2 n)
    let ?g = "arr\<lparr>al_array := al_array arr @ replicate (nat (n - al_size arr)) None, al_size := n\<rparr>"
    have g: "al_inv ?g" "items ?g = items arr" using items_expand [OF assms(1) 2(2)] .
    have "i < n" "n \<le> al_size arr * 2" using 2(3) assms by (auto simp: json_max_def al_inv_def)
    then have put: "al_inv (put_slot ?g i x)" "items (put_slot ?g i x) = stored (items arr) (nat i) x"
      using put_in_place [OF g(1) assms(3), of x] g(2) by auto
    have len: "int (length (al_array ?g)) = n" using g(1) by (simp add: al_inv_def)
    have "array_list_put_idx M arr i x = Ret (0, put_slot ?g i x)"
      using \<open>i < n\<close> assms(3) len by (simp add: array_list_put_idx_def 2(1) put_slot_def)
    with put \<open>n \<le> al_size arr * 2\<close> show ?thesis by (simp add: put_slot_def)
  qed
qed

lemma add_cases:
  assumes "al_inv arr" "al_size arr * 2 \<le> INT_MAX"
  shows "array_list_add M arr x = Ret (-1, arr) \<or>
    (\<exists>arr'. array_list_add M arr x = Ret (0, arr') \<and> al_inv arr' \<and>
       items arr' = items arr @ [x] \<and> al_size arr' \<le> al_size arr * 2)"
proof -
  have "0 \<le> al_length arr" "al_length arr < al_size arr * 2" using assms(1) by (auto simp: al_inv_def)
  moreover have "stored (items arr) (nat (al_length arr)) x = items arr @ [x]"
    using al_array_split(2) [OF assms(1)] by (simp add: stored_def)
  ultimately show ?thesis
    using put_idx_cases [OF assms, of "al_length arr" M x] by (auto simp: array_list_add_def)
qed

lemma get_idx_items:
  assumes "al_inv arr" "0 \<le> i"
  shows "array_list_get_idx arr i =
    Ret (if nat i < length (items arr) then items arr ! nat i else None)"
  using assms al_array_split(2) [OF assms(1)]
  by (auto simp: array_list_get_idx_def items_def al_inv_def)

lemma get_idx_negative: "al_inv arr \<Longrightarrow> i < 0 \<Longrightarrow> array_list_get_idx arr i = Undefined"
  by (simp add: array_list_get_idx_def al_inv_def)

lemma free_slots_append: "free_slots (xs @ ys) = free_slots xs @ free_slots ys"
  by (induction xs rule: free_slots.induct) auto

lemma free_slots_replicate [simp]: "free_slots (replicate n None) = []"
  by (induction n) auto

section \<open>Properties\<close>

definition al_sample :: "nat array_list" where
  "al_sample = \<lparr>al_array = Some 7 # replicate 31 None, al_length = 1, al_size = 32, al_freed = []\<rparr>"

lemma al_sample_inv: "al_inv al_sample"
  by (simp add: al_inv_def al_sample_def)

lemma al_sample_items: "items al_sample = [Some 7]"
  by (simp add: items_def al_sample_def)

text \<open>C13. A store below twice the block size either fails and changes nothing or replaces the item,
  padding with \<open>NULL\<close> when the index is past the end.  Reading then gives, at every index from 0 on,
  the item stored there and \<open>NULL\<close> past the end, whatever the block holds; a negative index reads in
  front of the block, since only the upper bound is tested.\<close>
theorem array_put_get:
  assumes "al_inv arr" "al_size arr * 2 \<le> INT_MAX" "0 \<le> i" "i < al_size arr * 2"
  shows "array_list_put_idx M arr i x = Ret (-1, arr) \<or>
    (\<exists>arr'. array_list_put_idx M arr i x = Ret (0, arr') \<and> al_inv arr' \<and>
       items arr' = stored (items arr) (nat i) x \<and> array_list_get_idx arr' i = Ret x \<and>
       (\<forall>j. array_list_get_idx arr' j =
          (if j < 0 then Undefined
           else Ret (if nat j < length (stored (items arr) (nat i) x)
                     then stored (items arr) (nat i) x ! nat j else None))))"
proof -
  have "array_list_get_idx arr' j =
      (if j < 0 then Undefined
       else Ret (if nat j < length (stored (items arr) (nat i) x)
                 then stored (items arr) (nat i) x ! nat j else None))"
    if "al_inv arr'" "items arr' = stored (items arr) (nat i) x" for arr' j
    using get_idx_items [OF that(1), of j] get_idx_negative [OF that(1), of j] by (simp add: that(2))
  moreover have "array_list_get_idx arr' i = Ret x"
    if "al_inv arr'" "items arr' = stored (items arr) (nat i) x" for arr'
    using get_idx_items [OF that(1) assms(3)] that(2) by (auto simp: stored_def nth_append)
  ultimately show ?thesis using put_idx_cases [OF assms, of M x] by blast
qed

lemma array_put_get_witness:
  "array_list_put_idx (all_memory None) al_sample 40 (Some 9) = Ret (-1, al_sample) \<or>
   (\<exists>arr'. array_list_put_idx (all_memory None) al_sample 40 (Some 9) = Ret (0, arr') \<and>
      items arr' = Some 7 # replicate 39 None @ [Some 9] \<and> array_list_get_idx arr' 0 = Ret (Some 7) \<and>
      array_list_get_idx arr' 41 = Ret None)"
proof -
  have "stored [Some 7] 40 (Some (9::nat)) = Some 7 # replicate 39 None @ [Some 9]"
    by (simp add: stored_def)
  moreover have "al_size al_sample = 32" by (simp add: al_sample_def)
  ultimately show ?thesis
    using array_put_get [OF al_sample_inv, of 40 "all_memory None" "Some 9"]
    by (auto simp: al_sample_items nth_append)
qed

text \<open>The growth step makes room for exactly \<open>idx\<close> slots when the index is at least twice the size:
  the store then goes to the slot after the block.  Any such call with enough memory is undefined.\<close>
lemma array_put_overflows:
  assumes "al_inv arr" "al_size arr * 2 \<le> i" "al_size arr * 2 \<le> INT_MAX" "mem_ok M i"
  shows "array_list_put_idx M arr i x = Undefined"
  using assms
  by (auto simp: array_list_put_idx_def array_list_expand_internal_def Let_def json_max_def al_inv_def)

lemma array_put_overflows_witness:
  "array_list_put_idx (all_memory None) al_sample 64 (Some 9) = Undefined"
  by (rule array_put_overflows [OF al_sample_inv]) (simp_all add: al_sample_def all_memory_def)

end
