(* ===== verification/Link_Hash.thy ===== *)
theory Link_Hash
  imports Nutrino_Prelude
begin

text \<open>
  The linked hash table of json-c, \<open>json-c-0.9/linkhash.c\<close>: an open-addressing table whose used
  slots are threaded, in insertion order, into a doubly linked list.  Pointers into the table are
  slot numbers.  A failed allocation ends the process in \<open>lh_abort\<close>, which is the outcome
  \<^const>\<open>Aborts\<close>, and the doubling of a size beyond an \<open>int\<close> is \<^const>\<open>Undefined\<close>
  (\<open>lh_table_insert_in\<close>); the statistics counters are unbounded.  The probe loops have no bound of their own: a
  search that never meets a slot to stop at is the outcome \<^const>\<open>Blocks\<close>.
\<close>

datatype 'k slot_key = LH_EMPTY | LH_FREED | LH_KEY 'k

record ('k, 'v) lh_entry =
  ent_k :: "'k slot_key"
  ent_v :: "'v option"
  ent_next :: "nat option"
  ent_prev :: "nat option"

record ('k, 'v) lh_table =
  lh_size :: nat
  lh_count :: nat
  lh_collisions :: nat
  lh_resizes :: nat
  lh_lookups :: nat
  lh_inserts :: nat
  lh_head :: "nat option"
  lh_tail :: "nat option"
  lh_slots :: "('k, 'v) lh_entry list"
  lh_hash :: "'k \<Rightarrow> nat"
  lh_freed :: "('k \<times> 'v option) list"

section \<open>Hash functions\<close>

abbreviation LH_PRIME :: int where "LH_PRIME \<equiv> 0x9e370001"

definition signed_char :: "char \<Rightarrow> int" where
  "signed_char c = (if of_char c < (128 :: int) then of_char c else of_char c - 256)"

text \<open>The sum is computed at the width of \<open>unsigned long\<close> and cut to 32 bits by the assignment.\<close>

fun lh_char_hash_from :: "32 word \<Rightarrow> string \<Rightarrow> 32 word" where
  "lh_char_hash_from h [] = h"
| "lh_char_hash_from h (c # cs) =
     lh_char_hash_from (h * 129 + word_of_int (signed_char c) + word_of_int LH_PRIME) cs"

definition lh_char_hash :: "string \<Rightarrow> nat" where
  "lh_char_hash k = unat (lh_char_hash_from 0 k)"

definition lh_char_equal :: "string \<Rightarrow> string \<Rightarrow> bool" where
  "lh_char_equal k1 k2 \<longleftrightarrow> k1 = k2"

definition lh_ptr_hash :: "'a::len word \<Rightarrow> nat" where
  "lh_ptr_hash k = unat (drop_bit 4 (k * word_of_int LH_PRIME))"

definition lh_ptr_equal :: "'a::len word \<Rightarrow> 'a word \<Rightarrow> bool" where
  "lh_ptr_equal k1 k2 \<longleftrightarrow> k1 = k2"

section \<open>Operations\<close>

definition empty_entry :: "('k, 'v) lh_entry" where
  "empty_entry = \<lparr>ent_k = LH_EMPTY, ent_v = None, ent_next = None, ent_prev = None\<rparr>"

definition lh_table_new :: "nat \<Rightarrow> ('k \<Rightarrow> nat) \<Rightarrow> ('k, 'v) lh_table" where
  "lh_table_new sz hash_fn =
     \<lparr>lh_size = sz, lh_count = 0, lh_collisions = 0, lh_resizes = 0, lh_lookups = 0, lh_inserts = 0,
      lh_head = None, lh_tail = None, lh_slots = replicate sz empty_entry, lh_hash = hash_fn,
      lh_freed = []\<rparr>"

text \<open>The two allocations of \<open>lh_table_new\<close>; the size is an \<open>int\<close>.\<close>

definition lh_fresh :: "'a mem \<Rightarrow> nat \<Rightarrow> unit outcome" where
  "lh_fresh M sz =
     (if int sz > INT_MAX then Undefined
      else if \<not> mem_ok M 1 then Aborts
      else if \<not> mem_ok M (int sz) then Aborts
      else Ret ())"

definition lh_table_new_in :: "'a mem \<Rightarrow> nat \<Rightarrow> ('k \<Rightarrow> nat) \<Rightarrow> ('k, 'v) lh_table outcome" where
  "lh_table_new_in M sz hash_fn = and_then (lh_fresh M sz) (\<lambda>_. Ret (lh_table_new sz hash_fn))"

definition lh_kchar_table_new :: "nat \<Rightarrow> (string, 'v) lh_table" where
  "lh_kchar_table_new sz = lh_table_new sz lh_char_hash"

definition lh_kptr_table_new :: "nat \<Rightarrow> ('a::len word, 'v) lh_table" where
  "lh_kptr_table_new sz = lh_table_new sz lh_ptr_hash"

text \<open>Both searches step through the slots, wrapping at the end, until one satisfies their test; the
  second result counts the steps.\<close>

partial_function (option) probe :: "(nat \<Rightarrow> bool) \<Rightarrow> nat \<Rightarrow> nat \<Rightarrow> nat \<Rightarrow> (nat \<times> nat) option" where
  "probe stop sz n c =
     (if stop n then Some (n, c) else probe stop sz (if Suc n = sz then 0 else Suc n) (Suc c))"

declare probe.simps [code]

text \<open>The list loops (\<open>lh_foreach\<close>, the loops of \<open>lh_table_resize\<close> and \<open>lh_table_free\<close>): the slots they
  visit; a cyclic list is followed for ever.\<close>

partial_function (option) lh_walk :: "('k, 'v) lh_entry list \<Rightarrow> nat option \<Rightarrow> nat list option" where
  "lh_walk slots e =
     (case e of None \<Rightarrow> Some []
      | Some n \<Rightarrow> Option.bind (lh_walk slots (ent_next (slots ! n))) (\<lambda>ns. Some (n # ns)))"

declare lh_walk.simps [code]

definition slot_free :: "('k, 'v) lh_entry \<Rightarrow> bool" where
  "slot_free e \<longleftrightarrow> ent_k e = LH_EMPTY \<or> ent_k e = LH_FREED"

text \<open>The stores after the search: key, value and count, then the entry becomes the new tail.\<close>

definition lh_link :: "('k, 'v) lh_table \<Rightarrow> nat \<Rightarrow> 'k \<Rightarrow> 'v option \<Rightarrow> ('k, 'v) lh_table outcome" where
  "lh_link t n k v =
     (let s = (lh_slots t)[n := (lh_slots t ! n)\<lparr>ent_k := LH_KEY k, ent_v := v\<rparr>];
          t' = t\<lparr>lh_count := lh_count t + 1\<rparr> in
      case lh_head t of
        None \<Rightarrow> Ret (t'\<lparr>lh_head := Some n, lh_tail := Some n,
                         lh_slots := s[n := (s ! n)\<lparr>ent_next := None, ent_prev := None\<rparr>]\<rparr>)
      | Some _ \<Rightarrow>
          (case lh_tail t of
             None \<Rightarrow> Undefined
           | Some z \<Rightarrow>
               let s' = s[z := (s ! z)\<lparr>ent_next := Some n\<rparr>] in
               Ret (t'\<lparr>lh_tail := Some n,
                       lh_slots := s'[n := (s' ! n)\<lparr>ent_prev := Some z, ent_next := None\<rparr>]\<rparr>)))"

definition lh_place :: "('k, 'v) lh_table \<Rightarrow> 'k \<Rightarrow> 'v option \<Rightarrow> ('k, 'v) lh_table outcome" where
  "lh_place t k v =
     (if lh_size t = 0 then Undefined
      else and_then (of_run (probe (\<lambda>n. slot_free (lh_slots t ! n)) (lh_size t)
                               (lh_hash t k mod lh_size t) 0)) (\<lambda>(n, c).
             lh_link (t\<lparr>lh_collisions := lh_collisions t + c\<rparr>) n k v))"

text \<open>The loop of \<open>lh_table_resize\<close>, over the insertion it calls.\<close>

fun lh_refill ::
    "(('k, 'v) lh_table \<Rightarrow> 'k \<Rightarrow> 'v option \<Rightarrow> ('k, 'v) lh_table outcome) \<Rightarrow>
     ('k, 'v) lh_entry list \<Rightarrow> ('k, 'v) lh_table \<Rightarrow> ('k, 'v) lh_table outcome" where
  "lh_refill ins [] new_t = Ret new_t"
| "lh_refill ins (e # es) new_t =
     (case ent_k e of
        LH_KEY k \<Rightarrow> and_then (ins new_t k (ent_v e)) (lh_refill ins es)
      | _ \<Rightarrow> Undefined)"

text \<open>\<open>room\<close> is what the allocation of the new table comes to.\<close>

definition lh_resize_with ::
    "(nat \<Rightarrow> unit outcome) \<Rightarrow>
     (('k, 'v) lh_table \<Rightarrow> 'k \<Rightarrow> 'v option \<Rightarrow> ('k, 'v) lh_table outcome) \<Rightarrow>
     ('k, 'v) lh_table \<Rightarrow> nat \<Rightarrow> ('k, 'v) lh_table outcome" where
  "lh_resize_with room ins t new_size =
     and_then (room new_size) (\<lambda>_.
     and_then (of_run (lh_walk (lh_slots t) (lh_head t))) (\<lambda>ns.
     and_then (lh_refill ins (map (\<lambda>n. lh_slots t ! n) ns) (lh_table_new new_size (lh_hash t))) (\<lambda>new_t.
       Ret (t\<lparr>lh_slots := lh_slots new_t, lh_size := new_size, lh_head := lh_head new_t,
              lh_tail := lh_tail new_t, lh_resizes := lh_resizes t + 1\<rparr>))))"

text \<open>Insertion and resizing call each other; the second argument bounds the depth of that recursion.
  The test against \<open>size * 0.66\<close> is the one of the integers: the \<open>double\<close> product is above or equal to
  the exact one and less than an integer away from it.\<close>

primrec lh_insert_depth ::
    "(nat \<Rightarrow> unit outcome) \<Rightarrow> nat \<Rightarrow> ('k, 'v) lh_table \<Rightarrow> 'k \<Rightarrow> 'v option \<Rightarrow> ('k, 'v) lh_table outcome"
where
  "lh_insert_depth room 0 t k v = Blocks"
| "lh_insert_depth room (Suc d) t k v =
     (let t1 = t\<lparr>lh_inserts := lh_inserts t + 1\<rparr> in
      and_then (if 100 * lh_count t1 > 66 * lh_size t1
                then lh_resize_with room (lh_insert_depth room d) t1 (lh_size t1 * 2) else Ret t1)
        (\<lambda>t2. lh_place t2 k v))"

text \<open>With the memory \<open>M\<close>, and as the JSON objects use it, when the memory suffices and no size
  leaves the range of \<open>int\<close>.\<close>

definition lh_table_insert_in ::
    "'a mem \<Rightarrow> ('k, 'v) lh_table \<Rightarrow> 'k \<Rightarrow> 'v option \<Rightarrow> ('k, 'v) lh_table outcome" where
  "lh_table_insert_in M = lh_insert_depth (lh_fresh M) 2"

definition lh_table_insert :: "('k, 'v) lh_table \<Rightarrow> 'k \<Rightarrow> 'v option \<Rightarrow> ('k, 'v) lh_table outcome" where
  "lh_table_insert = lh_insert_depth (\<lambda>_. Ret ()) 2"

definition lh_table_resize ::
    "'a mem \<Rightarrow> ('k, 'v) lh_table \<Rightarrow> nat \<Rightarrow> ('k, 'v) lh_table outcome" where
  "lh_table_resize M = lh_resize_with (lh_fresh M) (lh_table_insert_in M)"

definition lh_table_lookup_entry ::
    "('k, 'v) lh_table \<Rightarrow> 'k \<Rightarrow> (nat option \<times> ('k, 'v) lh_table) outcome" where
  "lh_table_lookup_entry t k =
     (if lh_size t = 0 then Undefined
      else and_then (of_run (probe (\<lambda>n. ent_k (lh_slots t ! n) = LH_EMPTY \<or> ent_k (lh_slots t ! n) = LH_KEY k)
                               (lh_size t) (lh_hash t k mod lh_size t) 0)) (\<lambda>(n, _).
             Ret (if ent_k (lh_slots t ! n) = LH_EMPTY then None else Some n,
                  t\<lparr>lh_lookups := lh_lookups t + 1\<rparr>)))"

definition lh_table_lookup ::
    "('k, 'v) lh_table \<Rightarrow> 'k \<Rightarrow> ('v option \<times> ('k, 'v) lh_table) outcome" where
  "lh_table_lookup t k =
     and_then (lh_table_lookup_entry t k) (\<lambda>(e, t').
       Ret (case e of None \<Rightarrow> None | Some n \<Rightarrow> ent_v (lh_slots t' ! n), t'))"

definition key_of :: "('k, 'v) lh_entry \<Rightarrow> 'k" where
  "key_of e = (case ent_k e of LH_KEY k \<Rightarrow> k)"

text \<open>Taking slot \<open>n\<close> out of the list.\<close>

definition lh_unlink :: "('k, 'v) lh_table \<Rightarrow> nat \<Rightarrow> ('k, 'v) lh_table outcome" where
  "lh_unlink t n =
     (let s = lh_slots t in
      if lh_tail t = Some n \<and> lh_head t = Some n then Ret (t\<lparr>lh_head := None, lh_tail := None\<rparr>)
      else if lh_head t = Some n then
        (case ent_next (s ! n) of
           None \<Rightarrow> Undefined
         | Some m \<Rightarrow> Ret (t\<lparr>lh_slots := s[m := (s ! m)\<lparr>ent_prev := None\<rparr>], lh_head := Some m\<rparr>))
      else if lh_tail t = Some n then
        (case ent_prev (s ! n) of
           None \<Rightarrow> Undefined
         | Some m \<Rightarrow> Ret (t\<lparr>lh_slots := s[m := (s ! m)\<lparr>ent_next := None\<rparr>], lh_tail := Some m\<rparr>))
      else
        (case (ent_prev (s ! n), ent_next (s ! n)) of
           (Some p, Some q) \<Rightarrow>
             let s' = s[p := (s ! p)\<lparr>ent_next := Some q\<rparr>] in
             Ret (t\<lparr>lh_slots := s'[q := (s' ! q)\<lparr>ent_prev := Some p\<rparr>]\<rparr>)
         | _ \<Rightarrow> Undefined))"

definition lh_table_delete_entry ::
    "('k, 'v) lh_table \<Rightarrow> int \<Rightarrow> (int \<times> ('k, 'v) lh_table) outcome" where
  "lh_table_delete_entry t e =
     (let n = nat e; s = lh_slots t in
      if e < 0 then Ret (-2, t)
      else if n \<ge> length s then Undefined
      else if slot_free (s ! n) then Ret (-1, t)
      else and_then
        (lh_unlink (t\<lparr>lh_count := lh_count t - 1,
                      lh_freed := lh_freed t @ [(key_of (s ! n), ent_v (s ! n))],
                      lh_slots := s[n := (s ! n)\<lparr>ent_v := None, ent_k := LH_FREED\<rparr>]\<rparr>) n) (\<lambda>t'.
          Ret (0, t'\<lparr>lh_slots := (lh_slots t')[n := (lh_slots t' ! n)\<lparr>ent_next := None, ent_prev := None\<rparr>]\<rparr>)))"

definition lh_table_delete :: "('k, 'v) lh_table \<Rightarrow> 'k \<Rightarrow> (int \<times> ('k, 'v) lh_table) outcome" where
  "lh_table_delete t k =
     and_then (lh_table_lookup_entry t k) (\<lambda>(e, t').
       case e of None \<Rightarrow> Ret (-1, t') | Some n \<Rightarrow> lh_table_delete_entry t' (int n))"

definition lh_foreach :: "('k, 'v) lh_table \<Rightarrow> ('k \<times> 'v option) list option" where
  "lh_foreach t =
     map_option (map (\<lambda>n. (key_of (lh_slots t ! n), ent_v (lh_slots t ! n)))) (lh_walk (lh_slots t) (lh_head t))"

text \<open>\<open>lh_table_free\<close> leaves nothing behind but the entries its \<open>free_fn\<close> has seen.\<close>

definition lh_table_free :: "('k, 'v) lh_table \<Rightarrow> ('k \<times> 'v option) list outcome" where
  "lh_table_free t = and_then (of_run (lh_foreach t)) (\<lambda>es. Ret (lh_freed t @ es))"

end
