(* ===== verification/Ordered_Map.thy ===== *)
theory Ordered_Map
  imports Nutrino_Prelude
begin

text \<open>
  The interface between a JSON object and the table behind it: a map that keeps its pairs in
  insertion order, whose operations may fail to return when the table can no longer be searched.
  The client lemmas are about the two idioms of the JSON code: replacing a key is a deletion followed
  by an insertion, and a lookup does not tell a missing key from a \<open>NULL\<close> value.
\<close>

locale ordered_map =
  fixes ins :: "'t \<Rightarrow> 'k \<Rightarrow> 'v option \<Rightarrow> 't outcome"
    and find :: "'t \<Rightarrow> 'k \<Rightarrow> ('v option \<times> 't) outcome"
    and del :: "'t \<Rightarrow> 'k \<Rightarrow> (int \<times> 't) outcome"
    and entries :: "'t \<Rightarrow> ('k \<times> 'v option) list"
    and ok :: "'t \<Rightarrow> bool"
    and searchable :: "'t \<Rightarrow> bool"
  assumes keys_distinct: "ok t \<Longrightarrow> distinct (map fst (entries t))"
    and ins_appends: "ok t \<Longrightarrow> k \<notin> fst ` set (entries t) \<Longrightarrow>
      \<exists>t'. ins t k v = Ret t' \<and> ok t' \<and> entries t' = entries t @ [(k, v)]"
    and find_value: "ok t \<Longrightarrow> k \<in> fst ` set (entries t) \<or> searchable t \<Longrightarrow>
      \<exists>t'. find t k = Ret (case map_of (entries t) k of None \<Rightarrow> None | Some v \<Rightarrow> v, t') \<and> ok t' \<and>
        entries t' = entries t"
    and del_removes: "ok t \<Longrightarrow> k \<in> fst ` set (entries t) \<or> searchable t \<Longrightarrow>
      \<exists>t'. del t k = Ret (if k \<in> fst ` set (entries t) then 0 else -1, t') \<and> ok t' \<and>
        entries t' = filter (\<lambda>e. fst e \<noteq> k) (entries t)"
    and stuck: "ok t \<Longrightarrow> k \<notin> fst ` set (entries t) \<Longrightarrow> \<not> searchable t \<Longrightarrow>
      find t k = Blocks \<and> del t k = Blocks"
begin

lemma replace:
  assumes "ok t" "k \<in> fst ` set (entries t) \<or> searchable t"
  shows "\<exists>t'. and_then (del t k) (\<lambda>(_, t1). ins t1 k v) = Ret t' \<and> ok t' \<and>
    entries t' = filter (\<lambda>e. fst e \<noteq> k) (entries t) @ [(k, v)]"
proof -
  from del_removes [OF assms] obtain t1 where
    t1: "del t k = Ret (if k \<in> fst ` set (entries t) then 0 else -1, t1)" "ok t1"
      "entries t1 = filter (\<lambda>e. fst e \<noteq> k) (entries t)" by blast
  then have "k \<notin> fst ` set (entries t1)" by auto
  from ins_appends [OF t1(2) this, of v] t1 show ?thesis by auto
qed

lemma replace_stuck:
  assumes "ok t" "k \<notin> fst ` set (entries t)" "\<not> searchable t"
  shows "and_then (del t k) (\<lambda>(_, t1). ins t1 k v) = Blocks"
  using stuck [OF assms] by simp

lemma find_present:
  assumes "ok t" "(k, v) \<in> set (entries t)"
  shows "\<exists>t'. find t k = Ret (v, t') \<and> ok t' \<and> entries t' = entries t"
proof -
  have "map_of (entries t) k = Some v" using assms keys_distinct by (simp add: map_of_eq_Some_iff)
  moreover have "k \<in> fst ` set (entries t)" using assms(2) by force
  ultimately show ?thesis using find_value [OF assms(1), of k] by auto
qed

lemma find_other:
  assumes "ok t" "k' \<noteq> k" "k' \<in> fst ` set (entries t) \<or> searchable t"
    and "and_then (del t k) (\<lambda>(_, t1). ins t1 k v) = Ret t'" "k \<in> fst ` set (entries t) \<or> searchable t"
    and "k' \<in> fst ` set (entries t') \<or> searchable t'"
  shows "returned (and_then (find t' k') (\<lambda>(x, _). Ret x)) = returned (and_then (find t k') (\<lambda>(x, _). Ret x))"
proof -
  from replace [OF assms(1,5), of v] assms(4)
  have t': "ok t'" "entries t' = filter (\<lambda>e. fst e \<noteq> k) (entries t) @ [(k, v)]" by auto
  have "map_of (filter (\<lambda>e. fst e \<noteq> k) es) k' = map_of es k'" for es :: "('k \<times> 'v option) list"
    using assms(2) by (induction es) auto
  then have "map_of (entries t') k' = map_of (entries t) k'"
    using assms(2) by (simp add: t' map_add_def split: option.splits)
  with find_value [OF t'(1) assms(6)] find_value [OF assms(1,3)] show ?thesis by auto
qed

end

end
