(* ===== verification/Link_Hash_Facts.thy ===== *)
theory Link_Hash_Facts
  imports Link_Hash Ordered_Map
begin

text \<open>
  What makes the linked hash table correct: the representation invariant (the threaded list visits
  exactly the used slots, and no empty slot separates a key from the slot its hash names), its
  preservation by every operation, and the contract \<open>ordered_map\<close> it gives its clients.  The searches
  end when the table has an empty slot; deletions never restore one.
\<close>

section \<open>The searches\<close>

lemma wrap_mod: "n < sz \<Longrightarrow> (if Suc n = sz then 0 else Suc n) = Suc n mod sz"
  by auto

lemma probe_finds:
  assumes "n < sz" "stop ((n + j) mod sz)" "\<forall>i<j. \<not> stop ((n + i) mod sz)"
  shows "probe stop sz n c = Some ((n + j) mod sz, c + j)"
  using assms
proof (induction j arbitrary: n c)
  case 0
  then show ?case by (simp add: probe.simps)
next
  case (Suc j)
  have sz: "0 < sz" using Suc.prems(1) by simp
  have shift: "(Suc n mod sz + i) mod sz = (n + Suc i) mod sz" for i
    by (simp add: mod_add_left_eq)
  have "probe stop sz (Suc n mod sz) (Suc c) = Some ((Suc n mod sz + j) mod sz, Suc c + j)"
    using Suc.prems sz by (intro Suc.IH) (simp_all only: shift, auto)
  moreover have "\<not> stop n" using Suc.prems(1,3) by (auto dest: spec [of _ 0])
  ultimately show ?case
    by (simp only: probe.simps [of stop sz n c] wrap_mod [OF Suc.prems(1)] shift) simp
qed

lemma probe_least:
  assumes "(n :: nat) < sz" "m < sz" "stop m"
  shows "\<exists>j < sz. stop ((n + j) mod sz) \<and> (\<forall>i<j. \<not> stop ((n + i) mod sz))"
proof -
  let ?j = "(m + (sz - n)) mod sz"
  have j: "?j < sz" "(n + ?j) mod sz = m" using assms(1,2) by (auto simp: mod_add_right_eq)
  let ?P = "\<lambda>j. stop ((n + j) mod sz)"
  have "?P ?j" using j assms(3) by simp
  then have "?P (LEAST j. ?P j)" "(LEAST j. ?P j) \<le> ?j" by (rule LeastI, rule Least_le)
  with j(1) not_less_Least [of _ ?P] show ?thesis by (intro exI [of _ "LEAST j. ?P j"]) auto
qed

lemma probe_never:
  assumes "n < sz" "\<And>m. m < sz \<Longrightarrow> \<not> stop m"
  shows "probe stop sz n c = None"
proof (rule ccontr)
  assume "probe stop sz n c \<noteq> None"
  then obtain r where r: "probe stop sz n c = Some r" by auto
  let ?P = "\<lambda>stop' sz' n (c :: nat) (r :: nat \<times> nat). stop' = stop \<and> sz' = sz \<longrightarrow> \<not> n < sz"
  have "?P stop sz n c r"
  proof (rule probe.raw_induct [where P = ?P, OF _ r], intro impI notI, elim conjE)
    fix run stop' sz' n c and r :: "nat \<times> nat"
    assume IH: "\<And>stop' sz' n c r. run stop' sz' n c = Some r \<Longrightarrow> ?P stop' sz' n c r"
      and step: "(if stop' n then Some (n, c) else run stop' sz' (if Suc n = sz' then 0 else Suc n) (Suc c)) = Some r"
      and n: "n < sz" and eq: "stop' = stop" "sz' = sz"
    have "run stop sz (if Suc n = sz then 0 else Suc n) (Suc c) = Some r"
      using step assms(2) [OF n] by (simp add: eq)
    from IH [OF this] n show False by (auto split: if_splits)
  qed
  with assms(1) show False by simp
qed

section \<open>The list threaded through the slots\<close>

fun dll :: "('k, 'v) lh_entry list \<Rightarrow> nat option \<Rightarrow> nat list \<Rightarrow> nat option \<Rightarrow> bool" where
  "dll s p [] q = True"
| "dll s p (n # ns) q =
     (ent_prev (s ! n) = p \<and> ent_next (s ! n) = (if ns = [] then q else Some (hd ns)) \<and>
      dll s (Some n) ns q)"

lemma dll_append:
  "dll s p (xs @ ys) q \<longleftrightarrow>
     dll s p xs (if ys = [] then q else Some (hd ys)) \<and> dll s (if xs = [] then p else Some (last xs)) ys q"
  by (induction xs arbitrary: p) (auto simp: hd_append)

lemma dll_cong:
  assumes "\<And>n. n \<in> set ns \<Longrightarrow> ent_next (s' ! n) = ent_next (s ! n) \<and> ent_prev (s' ! n) = ent_prev (s ! n)"
  shows "dll s' p ns q = dll s p ns q"
  using assms by (induction ns arbitrary: p) auto

lemma walk_dll:
  "dll s p ns None \<Longrightarrow> lh_walk s (if ns = [] then None else Some (hd ns)) = Some ns"
proof (induction ns arbitrary: p)
  case Nil
  then show ?case by (simp add: lh_walk.simps)
next
  case (Cons n ns)
  have "ent_next (s ! n) = (if ns = [] then None else Some (hd ns))" "dll s (Some n) ns None"
    using Cons.prems by simp_all
  with Cons.IH have "lh_walk s (ent_next (s ! n)) = Some ns" by simp
  then show ?case by (simp add: lh_walk.simps [of s "Some n"])
qed

section \<open>The representation invariant\<close>

text \<open>Every key can be found: from the slot its hash names up to its own, no slot is empty.\<close>

definition found_from :: "('k, 'v) lh_table \<Rightarrow> 'k \<Rightarrow> nat \<Rightarrow> bool" where
  "found_from t k n \<longleftrightarrow>
     (\<exists>j<lh_size t. n = (lh_hash t k mod lh_size t + j) mod lh_size t \<and>
        (\<forall>i<j. ent_k (lh_slots t ! ((lh_hash t k mod lh_size t + i) mod lh_size t)) \<noteq> LH_EMPTY))"

text \<open>\<open>ns\<close> lists the used slots in insertion order.\<close>

definition lh_repr :: "('k, 'v) lh_table \<Rightarrow> nat list \<Rightarrow> bool" where
  "lh_repr t ns \<longleftrightarrow>
     0 < lh_size t \<and> length (lh_slots t) = lh_size t \<and> distinct ns \<and>
     set ns = {n. n < lh_size t \<and> \<not> slot_free (lh_slots t ! n)} \<and> lh_count t = length ns \<and>
     lh_head t = (if ns = [] then None else Some (hd ns)) \<and>
     lh_tail t = (if ns = [] then None else Some (last ns)) \<and>
     dll (lh_slots t) None ns None \<and> 100 * length ns \<le> 66 * lh_size t + 100 \<and>
     (\<forall>n\<in>set ns. found_from t (key_of (lh_slots t ! n)) n)"

definition pairs :: "('k, 'v) lh_table \<Rightarrow> nat list \<Rightarrow> ('k \<times> 'v option) list" where
  "pairs t ns = map (\<lambda>n. (key_of (lh_slots t ! n), ent_v (lh_slots t ! n))) ns"

lemma slot_used: "\<not> slot_free e \<longleftrightarrow> ent_k e = LH_KEY (key_of e)"
  by (cases "ent_k e") (auto simp: slot_free_def key_of_def)

lemma repr_walk: "lh_repr t ns \<Longrightarrow> lh_walk (lh_slots t) (lh_head t) = Some ns"
  using walk_dll [of "lh_slots t" None ns] by (simp add: lh_repr_def)

lemma repr_foreach: "lh_repr t ns \<Longrightarrow> lh_foreach t = Some (pairs t ns)"
  by (simp add: lh_foreach_def repr_walk pairs_def)

lemma repr_snoc:
  assumes R: "lh_repr t ns" and n: "n < lh_size t" "slot_free (lh_slots t ! n)"
    and found: "found_from t k n" and room: "100 * length ns \<le> 66 * lh_size t"
    and t': "lh_size t' = lh_size t" "lh_hash t' = lh_hash t" "lh_count t' = lh_count t + 1"
      "lh_head t' = (if ns = [] then Some n else lh_head t)" "lh_tail t' = Some n"
      "length (lh_slots t') = length (lh_slots t)"
    and new: "lh_slots t' ! n = \<lparr>ent_k = LH_KEY k, ent_v = v, ent_next = None, ent_prev = lh_tail t\<rparr>"
    and old: "\<And>m. m \<noteq> n \<Longrightarrow> m < lh_size t \<Longrightarrow> lh_slots t' ! m =
       (if lh_tail t = Some m then (lh_slots t ! m)\<lparr>ent_next := Some n\<rparr> else lh_slots t ! m)"
  shows "lh_repr t' (ns @ [n]) \<and> pairs t' (ns @ [n]) = pairs t ns @ [(k, v)]"
proof -
  have fresh: "n \<notin> set ns" and ns: "\<And>m. m \<in> set ns \<Longrightarrow> m < lh_size t \<and> m \<noteq> n"
    using R n by (auto simp: lh_repr_def)
  have key: "key_of (lh_slots t' ! m) = key_of (lh_slots t ! m) \<and> ent_v (lh_slots t' ! m) = ent_v (lh_slots t ! m)"
    and free: "slot_free (lh_slots t' ! m) = slot_free (lh_slots t ! m)"
    if "m < lh_size t" "m \<noteq> n" for m
    using old [OF that(2,1)] by (auto simp: key_of_def slot_free_def)
  have key_n: "key_of (lh_slots t' ! n) = k" by (simp add: new key_of_def)
  have nonempty: "ent_k (lh_slots t' ! m) \<noteq> LH_EMPTY"
    if "ent_k (lh_slots t ! m) \<noteq> LH_EMPTY" "m < lh_size t" for m
    using old [of m] that new by (cases "m = n") auto
  have keep: "found_from t' k' m" if "found_from t k' m" for k' m
    using that nonempty by (auto simp: found_from_def t')
  have "dll (lh_slots t') None (ns @ [n]) None"
  proof (cases ns rule: rev_cases)
    case Nil
    then show ?thesis using R by (simp add: new lh_repr_def)
  next
    case (snoc ms z)
    have z: "z < lh_size t" "z \<noteq> n" and tail: "lh_tail t = Some z" using R ns snoc by (auto simp: lh_repr_def)
    have ms: "m < lh_size t" "m \<noteq> n" "m \<noteq> z" if "m \<in> set ms" for m
      using that R ns snoc by (auto simp: lh_repr_def)
    have "dll (lh_slots t) None (ms @ [z]) None" using R snoc by (simp add: lh_repr_def)
    then have "dll (lh_slots t) None ms (Some z)"
      "ent_prev (lh_slots t ! z) = (if ms = [] then None else Some (last ms))"
      by (auto simp: dll_append)
    moreover from this(1) have "dll (lh_slots t') None ms (Some z)"
      using ms(3) by (subst dll_cong) (auto simp: ms(1,2) old tail)
    ultimately show ?thesis
      using z by (auto simp: snoc dll_append new old tail)
  qed
  moreover have "set (ns @ [n]) = {m. m < lh_size t \<and> \<not> slot_free (lh_slots t' ! m)}"
  proof (rule set_eqI)
    fix m
    have "set ns = {m. m < lh_size t \<and> \<not> slot_free (lh_slots t ! m)}" using R by (simp add: lh_repr_def)
    moreover have "\<not> slot_free (lh_slots t' ! n)" by (simp add: new slot_free_def)
    ultimately show "m \<in> set (ns @ [n]) \<longleftrightarrow> m \<in> {m. m < lh_size t \<and> \<not> slot_free (lh_slots t' ! m)}"
      using n(1) free [of m] by (cases "m = n") auto
  qed
  moreover have "\<forall>m\<in>set (ns @ [n]). found_from t' (key_of (lh_slots t' ! m)) m"
  proof -
    have "\<forall>m\<in>set ns. found_from t (key_of (lh_slots t ! m)) m" using R by (simp add: lh_repr_def)
    then show ?thesis using ns key keep found by (simp add: key_n)
  qed
  ultimately have "lh_repr t' (ns @ [n])"
    using R room fresh by (auto simp: lh_repr_def t')
  moreover have "pairs t' (ns @ [n]) = pairs t ns @ [(k, v)]"
    using key ns by (simp add: pairs_def key_n) (simp add: new)
  ultimately show ?thesis by simp
qed

lemma entry_update_all:
  "e\<lparr>ent_k := k, ent_v := v, ent_next := a, ent_prev := b\<rparr> =
     \<lparr>ent_k = k, ent_v = v, ent_next = a, ent_prev = b\<rparr>"
  "e\<lparr>ent_k := k, ent_v := v, ent_prev := b, ent_next := a\<rparr> =
     \<lparr>ent_k = k, ent_v = v, ent_next = a, ent_prev = b\<rparr>"
  by (cases e; simp)+

lemma link_repr:
  assumes R: "lh_repr t ns" and n: "n < lh_size t" "slot_free (lh_slots t ! n)"
    and found: "found_from t k n" and room: "100 * length ns \<le> 66 * lh_size t"
  shows "\<exists>t'. lh_link t n k v = Ret t' \<and> lh_repr t' (ns @ [n]) \<and> pairs t' (ns @ [n]) = pairs t ns @ [(k, v)] \<and>
    lh_size t' = lh_size t \<and> lh_hash t' = lh_hash t \<and> lh_freed t' = lh_freed t \<and>
    (\<forall>m. m \<noteq> n \<longrightarrow> ent_k (lh_slots t' ! m) = ent_k (lh_slots t ! m))"
proof -
  have len: "length (lh_slots t) = lh_size t" using R by (simp add: lh_repr_def)
  have tail: "z < lh_size t \<and> z \<noteq> n" if "lh_tail t = Some z" for z
    using R n that by (auto simp: lh_repr_def split: if_splits)
  show ?thesis
  proof (cases "ns = []")
    case True
    then have e: "lh_head t = None" "lh_tail t = None" using R by (auto simp: lh_repr_def)
    let ?t = "t\<lparr>lh_count := lh_count t + 1, lh_head := Some n, lh_tail := Some n,
      lh_slots := (lh_slots t)[n := \<lparr>ent_k = LH_KEY k, ent_v = v, ent_next = None, ent_prev = None\<rparr>]\<rparr>"
    have "lh_link t n k v = Ret ?t"
      using n len by (simp add: lh_link_def e Let_def entry_update_all)
    moreover have "lh_repr ?t (ns @ [n]) \<and> pairs ?t (ns @ [n]) = pairs t ns @ [(k, v)]"
      by (rule repr_snoc [OF R n found room]) (use True n len e in auto)
    ultimately show ?thesis by auto
  next
    case False
    then obtain z where e: "lh_head t = Some (hd ns)" "lh_tail t = Some z" using R by (auto simp: lh_repr_def)
    let ?t = "t\<lparr>lh_count := lh_count t + 1, lh_tail := Some n,
      lh_slots := ((lh_slots t)[z := (lh_slots t ! z)\<lparr>ent_next := Some n\<rparr>])
         [n := \<lparr>ent_k = LH_KEY k, ent_v = v, ent_next = None, ent_prev = Some z\<rparr>]\<rparr>"
    have "lh_link t n k v = Ret ?t"
      using n len tail [OF e(2)] by (simp add: lh_link_def e Let_def list_update_swap entry_update_all)
    moreover have "lh_repr ?t (ns @ [n]) \<and> pairs ?t (ns @ [n]) = pairs t ns @ [(k, v)]"
      by (rule repr_snoc [OF R n found room]) (use False n len e tail [OF e(2)] in \<open>auto simp: nth_list_update\<close>)
    ultimately show ?thesis using len tail [OF e(2)] by (auto simp: nth_list_update)
  qed
qed

section \<open>Insertion and resizing\<close>

lemma repr_counters [simp]:
  "lh_repr (t\<lparr>lh_collisions := c\<rparr>) ns = lh_repr t ns"
  "lh_repr (t\<lparr>lh_inserts := c\<rparr>) ns = lh_repr t ns"
  "lh_repr (t\<lparr>lh_lookups := c\<rparr>) ns = lh_repr t ns"
  "lh_repr (t\<lparr>lh_freed := fr\<rparr>) ns = lh_repr t ns"
  by (simp_all add: lh_repr_def found_from_def)

lemma pairs_counters [simp]:
  "pairs (t\<lparr>lh_collisions := c\<rparr>) ns = pairs t ns"
  "pairs (t\<lparr>lh_inserts := c\<rparr>) ns = pairs t ns"
  "pairs (t\<lparr>lh_lookups := c\<rparr>) ns = pairs t ns"
  by (simp_all add: pairs_def)

lemma length_pairs [simp]: "length (pairs t ns) = length ns"
  by (simp add: pairs_def)

lemma repr_free_slot:
  assumes "lh_repr t ns" "100 * length ns \<le> 66 * lh_size t"
  shows "\<exists>m < lh_size t. slot_free (lh_slots t ! m)"
proof (rule ccontr)
  assume "\<not> ?thesis"
  with assms have "set ns = {..< lh_size t}" "distinct ns" by (auto simp: lh_repr_def)
  then have "length ns = lh_size t" by (metis card_lessThan distinct_card)
  with assms show False by (simp add: lh_repr_def)
qed

lemma place_repr:
  assumes R: "lh_repr t ns" and room: "100 * length ns \<le> 66 * lh_size t"
  shows "\<exists>t' n. lh_place t k v = Ret t' \<and> lh_repr t' (ns @ [n]) \<and>
    pairs t' (ns @ [n]) = pairs t ns @ [(k, v)] \<and>
    lh_size t' = lh_size t \<and> lh_hash t' = lh_hash t \<and> lh_freed t' = lh_freed t"
proof -
  let ?h = "lh_hash t k mod lh_size t"
  have size: "0 < lh_size t" using R by (simp add: lh_repr_def)
  then have h: "?h < lh_size t" by simp
  from repr_free_slot [OF R room] obtain m where "m < lh_size t" "slot_free (lh_slots t ! m)" by auto
  from probe_least [OF h this(1), of "\<lambda>n. slot_free (lh_slots t ! n)", OF this(2)] obtain j where
    j: "j < lh_size t" "slot_free (lh_slots t ! ((?h + j) mod lh_size t))"
      "\<forall>i<j. \<not> slot_free (lh_slots t ! ((?h + i) mod lh_size t))" by blast
  let ?n = "(?h + j) mod lh_size t"
  have p: "probe (\<lambda>n. slot_free (lh_slots t ! n)) (lh_size t) ?h 0 = Some (?n, 0 + j)"
    by (rule probe_finds [OF h]) (use j in auto)
  have "found_from t k ?n"
    unfolding found_from_def using j by (intro exI [of _ j]) (auto simp: slot_free_def)
  then have found: "found_from (t\<lparr>lh_collisions := lh_collisions t + j\<rparr>) k ?n"
    by (simp add: found_from_def)
  have "?n < lh_size t" using size by simp
  with link_repr [of "t\<lparr>lh_collisions := lh_collisions t + j\<rparr>" ns ?n k v] R j(2) found room
  show ?thesis using size by (auto simp: lh_place_def p)
qed

lemma insert_no_resize:
  assumes "lh_repr t ns" "100 * length ns \<le> 66 * lh_size t"
  shows "\<exists>t' n. lh_insert_depth room (Suc d) t k v = Ret t' \<and> lh_repr t' (ns @ [n]) \<and>
    pairs t' (ns @ [n]) = pairs t ns @ [(k, v)] \<and>
    lh_size t' = lh_size t \<and> lh_hash t' = lh_hash t \<and> lh_freed t' = lh_freed t"
proof -
  have "\<not> 100 * lh_count t > 66 * lh_size t" using assms by (simp add: lh_repr_def)
  with place_repr [of "t\<lparr>lh_inserts := lh_inserts t + 1\<rparr>" ns k v] assms show ?thesis
    by (simp add: Let_def)
qed

lemma refill_repr:
  assumes "lh_repr t ns" "100 * (length ns + length es) \<le> 66 * lh_size t + 100"
    "\<forall>e\<in>set es. \<not> slot_free e"
  shows "\<exists>t' ns'. lh_refill (lh_insert_depth room (Suc d)) es t = Ret t' \<and> lh_repr t' ns' \<and>
    pairs t' ns' = pairs t ns @ map (\<lambda>e. (key_of e, ent_v e)) es \<and>
    lh_size t' = lh_size t \<and> lh_hash t' = lh_hash t"
  using assms
proof (induction es arbitrary: t ns)
  case Nil
  then show ?case by auto
next
  case (Cons e es)
  have e: "ent_k e = LH_KEY (key_of e)" using Cons.prems(3) slot_used by auto
  have "100 * length ns \<le> 66 * lh_size t" using Cons.prems(2) by simp
  from insert_no_resize [OF Cons.prems(1) this, of room d "key_of e" "ent_v e"] obtain t1 n where
    t1: "lh_insert_depth room (Suc d) t (key_of e) (ent_v e) = Ret t1" "lh_repr t1 (ns @ [n])"
      "pairs t1 (ns @ [n]) = pairs t ns @ [(key_of e, ent_v e)]"
      "lh_size t1 = lh_size t" "lh_hash t1 = lh_hash t" by blast
  have "100 * (length (ns @ [n]) + length es) \<le> 66 * lh_size t1 + 100" "\<forall>e\<in>set es. \<not> slot_free e"
    using Cons.prems t1(4) by simp_all
  from Cons.IH [OF t1(2) this] obtain t2 ns2 where
    t2: "lh_refill (lh_insert_depth room (Suc d)) es t1 = Ret t2" "lh_repr t2 ns2"
      "pairs t2 ns2 = pairs t1 (ns @ [n]) @ map (\<lambda>e. (key_of e, ent_v e)) es"
      "lh_size t2 = lh_size t1" "lh_hash t2 = lh_hash t1" by blast
  show ?case
  proof (intro exI conjI)
    show "lh_refill (lh_insert_depth room (Suc d)) (e # es) t = Ret t2"
      using t1(1) t2(1) by (simp add: e del: lh_insert_depth.simps)
  qed (use t1 t2 in auto)
qed

lemma new_repr: "0 < sz \<Longrightarrow> lh_repr (lh_table_new sz h) []"
  by (auto simp: lh_repr_def lh_table_new_def slot_free_def empty_entry_def)

lemma resize_repr:
  assumes R: "lh_repr t ns" and sz: "0 < sz" "100 * length ns \<le> 66 * sz + 100"
    and room: "room sz = Ret ()"
  shows "\<exists>t' ns'. lh_resize_with room (lh_insert_depth room (Suc d)) t sz = Ret t' \<and> lh_repr t' ns' \<and>
    pairs t' ns' = pairs t ns \<and> lh_size t' = sz \<and> lh_hash t' = lh_hash t \<and> lh_freed t' = lh_freed t"
proof -
  let ?es = "map (\<lambda>n. lh_slots t ! n) ns"
  have "\<forall>e\<in>set ?es. \<not> slot_free e" using R by (auto simp: lh_repr_def)
  moreover have "100 * (length [] + length ?es) \<le> 66 * lh_size (lh_table_new sz (lh_hash t)) + 100"
    using sz by (simp add: lh_table_new_def)
  ultimately obtain t1 ns1 where
    t1: "lh_refill (lh_insert_depth room (Suc d)) ?es (lh_table_new sz (lh_hash t)) = Ret t1" "lh_repr t1 ns1"
      "pairs t1 ns1 = map (\<lambda>e. (key_of e, ent_v e)) ?es" "lh_size t1 = sz" "lh_hash t1 = lh_hash t"
    using refill_repr [OF new_repr [OF sz(1), of "lh_hash t"], of ?es room d]
    by (auto simp: pairs_def lh_table_new_def)
  let ?t = "t\<lparr>lh_slots := lh_slots t1, lh_size := sz, lh_head := lh_head t1, lh_tail := lh_tail t1,
    lh_resizes := lh_resizes t + 1\<rparr>"
  have "length ns1 = length ns" using arg_cong [OF t1(3), of length] by (simp del: length_map) simp
  then have "lh_repr ?t ns1" using t1(2,4,5) R by (simp add: lh_repr_def found_from_def)
  moreover have "pairs ?t ns1 = pairs t ns" using t1(3) by (simp add: pairs_def comp_def)
  moreover have "lh_resize_with room (lh_insert_depth room (Suc d)) t sz = Ret ?t"
    by (simp add: lh_resize_with_def repr_walk [OF R] t1(1) room del: lh_insert_depth.simps)
  ultimately show ?thesis by auto
qed

text \<open>The table grows when it is more than two thirds full; only then the memory matters.\<close>

definition lh_grows :: "('k, 'v) lh_table \<Rightarrow> bool" where
  "lh_grows t \<longleftrightarrow> 100 * lh_count t > 66 * lh_size t"

lemma insert_fails:
  assumes "lh_grows t" "room (lh_size t * 2) \<noteq> Ret ()"
  shows "lh_insert_depth room (Suc d) t k v = and_then (room (lh_size t * 2)) (\<lambda>_. Blocks)"
  using assms by (cases "room (lh_size t * 2)") (simp_all add: lh_grows_def Let_def lh_resize_with_def)

lemma insert_depth_repr:
  assumes R: "lh_repr t ns" and room: "lh_grows t \<Longrightarrow> room (lh_size t * 2) = Ret ()"
  shows "\<exists>t' ns'. lh_insert_depth room 2 t k v = Ret t' \<and> lh_repr t' ns' \<and>
    pairs t' ns' = pairs t ns @ [(k, v)] \<and> lh_hash t' = lh_hash t \<and> lh_freed t' = lh_freed t \<and>
    lh_size t' = (if lh_grows t then lh_size t * 2 else lh_size t)"
proof (cases "lh_grows t")
  case False
  then have "100 * length ns \<le> 66 * lh_size t" using R by (simp add: lh_grows_def lh_repr_def)
  from insert_no_resize [OF R this, of room "Suc 0" k v] False show ?thesis
    by (auto simp: numeral_2_eq_2 simp del: lh_insert_depth.simps)
next
  case True
  let ?t = "t\<lparr>lh_inserts := lh_inserts t + 1\<rparr>"
  have c: "lh_count t = length ns" "100 * length ns \<le> 66 * lh_size t + 100" "0 < lh_size t"
    using R by (auto simp: lh_repr_def)
  have R': "lh_repr ?t ns" using R by simp
  have "0 < lh_size ?t * 2" "100 * length ns \<le> 66 * (lh_size ?t * 2) + 100" "room (lh_size ?t * 2) = Ret ()"
    using c room [OF True] by simp_all
  from resize_repr [where room = room and d = 0, OF R' this] obtain t1 ns1 where
    t1: "lh_resize_with room (lh_insert_depth room 1) ?t (lh_size ?t * 2) = Ret t1" "lh_repr t1 ns1"
      "pairs t1 ns1 = pairs t ns" "lh_size t1 = lh_size t * 2" "lh_hash t1 = lh_hash t"
      "lh_freed t1 = lh_freed t" by (auto simp del: lh_insert_depth.simps)
  have "length ns1 = length ns" using arg_cong [OF t1(3), of length] by simp
  moreover have "length ns \<le> 1" if "lh_size t = 1" by (rule ccontr, use c(2) that in simp)
  ultimately have "100 * length ns1 \<le> 66 * lh_size t1" using c t1(4) by (cases "lh_size t = 1") (auto simp: le_Suc_eq)
  from place_repr [OF t1(2) this, of k v] t1 True show ?thesis
    by (auto simp: numeral_2_eq_2 Let_def lh_grows_def)
qed

lemma insert_repr:
  assumes R: "lh_repr t ns"
  shows "\<exists>t' ns'. lh_table_insert t k v = Ret t' \<and> lh_repr t' ns' \<and>
    pairs t' ns' = pairs t ns @ [(k, v)] \<and> lh_hash t' = lh_hash t \<and> lh_freed t' = lh_freed t \<and>
    lh_size t' = (if lh_grows t then lh_size t * 2 else lh_size t)"
  unfolding lh_table_insert_def by (rule insert_depth_repr [OF R]) simp

text \<open>What an insertion does with too little memory is nothing else than with enough of it, unless the
  process ends.\<close>

lemma refill_mono:
  assumes "\<And>t k v t'. ins t k v = Ret t' \<Longrightarrow> ins' t k v = Ret t'" "lh_refill ins es t = Ret t'"
  shows "lh_refill ins' es t = Ret t'"
  using assms(2)
proof (induction es arbitrary: t)
  case (Cons e es)
  from Cons.prems obtain k where "ent_k e = LH_KEY k" by (cases "ent_k e") auto
  with Cons.prems obtain t1 where "ins t k (ent_v e) = Ret t1" "lh_refill ins es t1 = Ret t'"
    by (auto simp: outcome_simps)
  with Cons.IH assms(1) \<open>ent_k e = LH_KEY k\<close> show ?case by simp
qed simp

lemma insert_mono: "lh_insert_depth room d t k v = Ret t' \<Longrightarrow> lh_insert_depth (\<lambda>_. Ret ()) d t k v = Ret t'"
proof (induction d arbitrary: t k v t')
  case (Suc d)
  let ?t = "t\<lparr>lh_inserts := lh_inserts t + 1\<rparr>"
  have "lh_resize_with (\<lambda>_. Ret ()) (lh_insert_depth (\<lambda>_. Ret ()) d) s n = Ret s'"
    if "lh_resize_with room (lh_insert_depth room d) s n = Ret s'"
    for s s' :: "('a, 'b) lh_table" and n
    using that refill_mono [OF Suc.IH] unfolding lh_resize_with_def by (fastforce simp: outcome_simps)
  with Suc.prems show ?case by (auto simp: Let_def outcome_simps split: if_splits)
qed simp

section \<open>Lookup\<close>

definition lh_has_empty :: "('k, 'v) lh_table \<Rightarrow> bool" where
  "lh_has_empty t \<longleftrightarrow> (\<exists>e\<in>set (lh_slots t). ent_k e = LH_EMPTY)"

lemma key_slot:
  assumes "lh_repr t ns" "n < lh_size t"
  shows "ent_k (lh_slots t ! n) = LH_KEY k \<longleftrightarrow> n \<in> set ns \<and> key_of (lh_slots t ! n) = k"
  using assms by (auto simp: lh_repr_def slot_used) (auto simp: key_of_def)

lemma key_pairs: "k \<in> fst ` set (pairs t ns) \<longleftrightarrow> (\<exists>n\<in>set ns. key_of (lh_slots t ! n) = k)"
  by (force simp: pairs_def image_iff)

lemma lookup_hit:
  assumes R: "lh_repr t ns" and k: "k \<in> fst ` set (pairs t ns)"
  shows "\<exists>n\<in>set ns. ent_k (lh_slots t ! n) = LH_KEY k \<and>
    lh_table_lookup_entry t k = Ret (Some n, t\<lparr>lh_lookups := lh_lookups t + 1\<rparr>)"
proof -
  let ?h = "lh_hash t k mod lh_size t"
  let ?stop = "\<lambda>n. ent_k (lh_slots t ! n) = LH_EMPTY \<or> ent_k (lh_slots t ! n) = LH_KEY k"
  from k obtain m where m: "m \<in> set ns" "key_of (lh_slots t ! m) = k" by (auto simp: key_pairs)
  have size: "0 < lh_size t" and h: "?h < lh_size t" and "m < lh_size t" using R m by (auto simp: lh_repr_def)
  then have mk: "ent_k (lh_slots t ! m) = LH_KEY k" using key_slot [OF R] m by auto
  have "found_from t k m" using R m by (auto simp: lh_repr_def)
  then obtain j where j: "m = (?h + j) mod lh_size t"
    "\<forall>i<j. ent_k (lh_slots t ! ((?h + i) mod lh_size t)) \<noteq> LH_EMPTY" by (auto simp: found_from_def)
  let ?P = "\<lambda>j. ?stop ((?h + j) mod lh_size t)"
  define i where "i = (LEAST i. ?P i)"
  have "?P j" using mk j(1) by simp
  then have i: "?P i" "i \<le> j" unfolding i_def by (rule LeastI, rule Least_le)
  let ?n = "(?h + i) mod lh_size t"
  have ik: "ent_k (lh_slots t ! ?n) = LH_KEY k"
  proof (cases "i = j")
    case True
    then show ?thesis using mk j(1) by metis
  next
    case False
    with i j(2) show ?thesis by (meson le_neq_implies_less)
  qed
  have first: "\<not> ?P i'" if "i' < i" for i'
    using that unfolding i_def by (rule not_less_Least)
  have "probe ?stop (lh_size t) ?h 0 = Some (?n, 0 + i)"
    by (rule probe_finds [where stop = ?stop, OF h i(1)]) (use first in blast)
  moreover have "?n \<in> set ns" using key_slot [OF R, of ?n k] ik size by simp
  ultimately show ?thesis using size ik by (intro bexI [of _ ?n]) (simp_all add: lh_table_lookup_entry_def)
qed

lemma lookup_miss:
  assumes R: "lh_repr t ns" and k: "k \<notin> fst ` set (pairs t ns)" and e: "lh_has_empty t"
  shows "lh_table_lookup_entry t k = Ret (None, t\<lparr>lh_lookups := lh_lookups t + 1\<rparr>)"
proof -
  let ?h = "lh_hash t k mod lh_size t"
  let ?stop = "\<lambda>n. ent_k (lh_slots t ! n) = LH_EMPTY \<or> ent_k (lh_slots t ! n) = LH_KEY k"
  have size: "0 < lh_size t" and h: "?h < lh_size t" using R by (auto simp: lh_repr_def)
  from e R obtain m where m: "m < lh_size t" "?stop m"
    by (auto simp: lh_has_empty_def lh_repr_def in_set_conv_nth)
  from probe_least [of ?h "lh_size t" m ?stop, OF h m] obtain j where
    j: "?stop ((?h + j) mod lh_size t)" "\<forall>i<j. \<not> ?stop ((?h + i) mod lh_size t)" by blast
  have "probe ?stop (lh_size t) ?h 0 = Some ((?h + j) mod lh_size t, 0 + j)"
    using j by (intro probe_finds [OF h]) auto
  moreover have "ent_k (lh_slots t ! ((?h + j) mod lh_size t)) = LH_EMPTY"
    using j(1) k key_slot [OF R, of "(?h + j) mod lh_size t" k] size by (auto simp: key_pairs)
  ultimately show ?thesis using size by (simp add: lh_table_lookup_entry_def)
qed

lemma lookup_stuck:
  assumes R: "lh_repr t ns" and k: "k \<notin> fst ` set (pairs t ns)" and e: "\<not> lh_has_empty t"
  shows "lh_table_lookup_entry t k = Blocks"
proof -
  let ?stop = "\<lambda>n. ent_k (lh_slots t ! n) = LH_EMPTY \<or> ent_k (lh_slots t ! n) = LH_KEY k"
  have size: "0 < lh_size t" using R by (simp add: lh_repr_def)
  have "\<not> ?stop m" if "m < lh_size t" for m
    using that k e R key_slot [OF R that, of k]
    by (auto simp: key_pairs lh_has_empty_def lh_repr_def)
  with size have "probe ?stop (lh_size t) (lh_hash t k mod lh_size t) 0 = None"
    by (intro probe_never) auto
  then show ?thesis using size by (simp add: lh_table_lookup_entry_def)
qed

section \<open>Deletion\<close>

lemma unlink_list:
  assumes dll: "dll (lh_slots t) None (xs @ n # ys) None" and dist: "distinct (xs @ n # ys)"
    and bound: "\<forall>m\<in>set (xs @ n # ys). m < length (lh_slots t)"
    and ends: "lh_head t = Some (hd (xs @ n # ys))" "lh_tail t = Some (last (xs @ n # ys))"
  shows "\<exists>s. lh_unlink t n = Ret (t\<lparr>lh_slots := s,
        lh_head := (if xs @ ys = [] then None else Some (hd (xs @ ys))),
        lh_tail := (if xs @ ys = [] then None else Some (last (xs @ ys)))\<rparr>) \<and>
      length s = length (lh_slots t) \<and> dll s None (xs @ ys) None \<and>
      (\<forall>m. ent_k (s ! m) = ent_k (lh_slots t ! m) \<and> ent_v (s ! m) = ent_v (lh_slots t ! m))"
proof -
  let ?s = "lh_slots t"
  show ?thesis
  proof (cases xs rule: rev_cases; cases ys)
    assume e: "xs = []" "ys = []"
    then show ?thesis using ends by (intro exI [of _ ?s]) (simp add: lh_unlink_def)
  next
    fix q ys' assume e: "xs = []" "ys = q # ys'"
    let ?s' = "?s[q := (?s ! q)\<lparr>ent_prev := None\<rparr>]"
    have ne: "last ys \<noteq> n" and q: "q < length ?s" using dist e bound by auto
    have "dll ?s' (Some q) ys' None = dll ?s (Some q) ys' None"
      using dist e by (intro dll_cong) (auto simp: nth_list_update q)
    then have "dll ?s' None (xs @ ys) None" using dll q e by simp
    moreover have "lh_unlink t n = Ret (t\<lparr>lh_slots := ?s', lh_head := Some q\<rparr>)"
      using ends dll ne e by (simp add: lh_unlink_def Let_def)
    ultimately show ?thesis using q e ends by (intro exI [of _ ?s']) (simp add: nth_list_update)
  next
    fix xs' p assume e: "xs = xs' @ [p]" "ys = []"
    let ?s' = "?s[p := (?s ! p)\<lparr>ent_next := None\<rparr>]"
    have ne: "hd xs \<noteq> n" and p: "p < length ?s" using dist e bound by (cases xs'; auto)+
    have "dll ?s' None xs' (Some p) = dll ?s None xs' (Some p)"
      using dist e by (intro dll_cong) (auto simp: nth_list_update p)
    then have "dll ?s' None (xs @ ys) None" using dll p e by (simp add: dll_append)
    moreover have "lh_unlink t n = Ret (t\<lparr>lh_slots := ?s', lh_tail := Some p\<rparr>)"
      using ends dll ne e by (simp add: lh_unlink_def dll_append Let_def hd_append split: if_splits)
    ultimately show ?thesis using p e ends by (intro exI [of _ ?s']) (simp add: nth_list_update hd_append)
  next
    fix xs' p q ys' assume e: "xs = xs' @ [p]" "ys = q # ys'"
    let ?s1 = "?s[p := (?s ! p)\<lparr>ent_next := Some q\<rparr>]"
    let ?s' = "?s1[q := (?s1 ! q)\<lparr>ent_prev := Some p\<rparr>]"
    have ne: "hd xs \<noteq> n" "last ys \<noteq> n" using dist e by (cases xs'; auto)+
    have b: "p < length ?s" "q < length ?s" "p \<noteq> q" using dist e bound by auto
    have "dll ?s' None xs' (Some p) = dll ?s None xs' (Some p)"
      "dll ?s' (Some q) ys' None = dll ?s (Some q) ys' None"
      using dist e by (intro dll_cong; auto simp: nth_list_update b)+
    then have "dll ?s' None (xs @ ys) None" using dll b e by (simp add: dll_append)
    moreover have "lh_unlink t n = Ret (t\<lparr>lh_slots := ?s'\<rparr>)"
      using ends dll ne e by (simp add: lh_unlink_def dll_append Let_def hd_append split: if_splits)
    ultimately show ?thesis using b e ends by (intro exI [of _ ?s']) (simp add: nth_list_update hd_append)
  qed
qed

lemma dll_update: "n \<notin> set ns \<Longrightarrow> dll (s[n := e]) p ns q = dll s p ns q"
  by (rule dll_cong) (metis nth_list_update_neq)

lemma delete_entry_repr:
  assumes R: "lh_repr t (xs @ n # ys)"
  shows "\<exists>t'. lh_table_delete_entry t (int n) = Ret (0, t') \<and> lh_repr t' (xs @ ys) \<and>
    pairs t' (xs @ ys) = pairs t (xs @ ys) \<and>
    lh_freed t' = lh_freed t @ [(key_of (lh_slots t ! n), ent_v (lh_slots t ! n))] \<and>
    lh_hash t' = lh_hash t \<and> lh_size t' = lh_size t \<and> ent_k (lh_slots t' ! n) = LH_FREED \<and>
    (\<forall>m. m \<noteq> n \<longrightarrow> ent_k (lh_slots t' ! m) = ent_k (lh_slots t ! m))"
proof -
  let ?s = "lh_slots t"
  have len: "length ?s = lh_size t" and dist: "distinct (xs @ n # ys)"
    and used: "set (xs @ n # ys) = {m. m < lh_size t \<and> \<not> slot_free (?s ! m)}"
    and all_found: "\<forall>m\<in>set (xs @ n # ys). found_from t (key_of (?s ! m)) m"
    using R unfolding lh_repr_def by blast+
  have n: "n < lh_size t" "\<not> slot_free (?s ! n)" using used by auto
  let ?t = "t\<lparr>lh_count := lh_count t - 1,
    lh_freed := lh_freed t @ [(key_of (?s ! n), ent_v (?s ! n))],
    lh_slots := ?s[n := (?s ! n)\<lparr>ent_v := None, ent_k := LH_FREED\<rparr>]\<rparr>"
  have link: "ent_next (lh_slots ?t ! m) = ent_next (?s ! m) \<and> ent_prev (lh_slots ?t ! m) = ent_prev (?s ! m)" for m
    using n(1) len by (simp add: nth_list_update)
  have "dll (lh_slots ?t) None (xs @ n # ys) None"
    using R dll_cong [of "xs @ n # ys" "lh_slots ?t" ?s] link by (simp add: lh_repr_def)
  moreover have "\<forall>m\<in>set (xs @ n # ys). m < length (lh_slots ?t)" using used len by auto
  moreover have "lh_head ?t = Some (hd (xs @ n # ys))" "lh_tail ?t = Some (last (xs @ n # ys))"
    using R by (simp_all add: lh_repr_def)
  ultimately obtain s where s: "lh_unlink ?t n = Ret (?t\<lparr>lh_slots := s,
        lh_head := (if xs @ ys = [] then None else Some (hd (xs @ ys))),
        lh_tail := (if xs @ ys = [] then None else Some (last (xs @ ys)))\<rparr>)"
      "length s = length (lh_slots ?t)" "dll s None (xs @ ys) None"
      "\<And>m. ent_k (s ! m) = ent_k (lh_slots ?t ! m) \<and> ent_v (s ! m) = ent_v (lh_slots ?t ! m)"
    using unlink_list [OF _ dist, of ?t] by blast
  let ?s' = "s[n := (s ! n)\<lparr>ent_next := None, ent_prev := None\<rparr>]"
  let ?t' = "?t\<lparr>lh_slots := ?s',
        lh_head := (if xs @ ys = [] then None else Some (hd (xs @ ys))),
        lh_tail := (if xs @ ys = [] then None else Some (last (xs @ ys)))\<rparr>"
  have call: "lh_table_delete_entry t (int n) = Ret (0, ?t')"
    using n len s(1) by (simp add: lh_table_delete_entry_def Let_def)
  have km: "ent_k (?s' ! m) = ent_k (?s ! m) \<and> ent_v (?s' ! m) = ent_v (?s ! m)" if "m \<noteq> n" for m
    using s(2,4) n(1) len that by (auto simp: nth_list_update)
  have kn: "ent_k (?s' ! n) = LH_FREED" using s(2,4) n(1) len by (simp add: nth_list_update)
  have keep: "found_from ?t' k m" if "found_from t k m" for k m
  proof -
    have "ent_k (?s ! i) \<noteq> LH_EMPTY \<Longrightarrow> ent_k (?s' ! i) \<noteq> LH_EMPTY" for i
      using kn km by (cases "i = n") auto
    with that show ?thesis by (auto simp: found_from_def)
  qed
  have rest: "m \<noteq> n" if "m \<in> set (xs @ ys)" for m using that dist by auto
  have "dll ?s' None (xs @ ys) None"
    using s(3) dist by (simp add: dll_update)
  moreover have "set (xs @ ys) = {m. m < lh_size t \<and> \<not> slot_free (?s' ! m)}"
  proof (rule set_eqI)
    fix m
    show "m \<in> set (xs @ ys) \<longleftrightarrow> m \<in> {m. m < lh_size t \<and> \<not> slot_free (?s' ! m)}"
    proof (cases "m = n")
      case True
      then show ?thesis using rest kn by (auto simp: slot_free_def)
    next
      case False
      have "slot_free (?s' ! m) = slot_free (?s ! m)" using km [OF False] by (simp add: slot_free_def)
      moreover have "m \<in> set (xs @ ys) \<longleftrightarrow> m \<in> set (xs @ n # ys)" using False by auto
      ultimately show ?thesis unfolding used by simp
    qed
  qed
  moreover have key: "key_of (?s' ! m) = key_of (?s ! m)" if "m \<noteq> n" for m
    using km [OF that] by (simp add: key_of_def)
  moreover have "\<forall>m\<in>set (xs @ ys). found_from ?t' (key_of (?s' ! m)) m"
  proof
    fix m assume m: "m \<in> set (xs @ ys)"
    then have "found_from t (key_of (?s ! m)) m" using all_found by simp
    then show "found_from ?t' (key_of (?s' ! m)) m" unfolding key [OF rest [OF m]] by (rule keep)
  qed
  ultimately have "lh_repr ?t' (xs @ ys)"
    using R s(2) dist len by (simp add: lh_repr_def)
  moreover have "pairs ?t' (xs @ ys) = pairs t (xs @ ys)"
  proof -
    have "(key_of (?s' ! m), ent_v (?s' ! m)) = (key_of (?s ! m), ent_v (?s ! m))" if "m \<in> set (xs @ ys)" for m
      using key [OF rest [OF that]] km [OF rest [OF that]] by (simp only:)
    then show ?thesis by (simp add: pairs_def)
  qed
  ultimately show ?thesis using call kn km by auto
qed

text \<open>\<open>lh_table_delete\<close> of a key that occurs once.\<close>

lemma delete_hit:
  assumes R: "lh_repr t ns" and dist: "distinct (map fst (pairs t ns))" and k: "k \<in> fst ` set (pairs t ns)"
  shows "\<exists>t' n. lh_table_delete t k = Ret (0, t') \<and> lh_repr t' (removeAll n ns) \<and>
    pairs t' (removeAll n ns) = filter (\<lambda>e. fst e \<noteq> k) (pairs t ns) \<and>
    lh_freed t' = lh_freed t @ [(k, the (map_of (pairs t ns) k))] \<and> lh_hash t' = lh_hash t \<and>
    lh_size t' = lh_size t \<and> n \<in> set ns \<and> ent_k (lh_slots t' ! n) = LH_FREED \<and>
    (\<forall>m. m \<noteq> n \<longrightarrow> ent_k (lh_slots t' ! m) = ent_k (lh_slots t ! m))"
proof -
  from lookup_hit [OF R k] obtain n where n: "n \<in> set ns" "ent_k (lh_slots t ! n) = LH_KEY k"
    "lh_table_lookup_entry t k = Ret (Some n, t\<lparr>lh_lookups := lh_lookups t + 1\<rparr>)" by blast
  from split_list [OF n(1)] obtain xs ys where ns: "ns = xs @ n # ys" by blast
  let ?t = "t\<lparr>lh_lookups := lh_lookups t + 1\<rparr>"
  have key: "key_of (lh_slots t ! n) = k" using n(2) by (simp add: key_of_def)
  have others: "key_of (lh_slots t ! m) \<noteq> k" if "m \<in> set xs \<union> set ys" for m
  proof -
    have "inj_on (\<lambda>m. key_of (lh_slots t ! m)) (set ns)"
      using dist by (simp add: pairs_def comp_def distinct_map)
    moreover have "m \<noteq> n" "m \<in> set ns" using that R by (auto simp: ns lh_repr_def)
    ultimately show ?thesis using n(1) key by (auto dest: inj_onD)
  qed
  have filt: "filter (\<lambda>e. fst e \<noteq> k) (pairs t ns) = pairs t (xs @ ys)"
    using others key by (simp add: ns pairs_def filter_map comp_def)
  have "k \<notin> fst ` set (pairs t xs)" using others by (auto simp: key_pairs)
  then have val: "map_of (pairs t ns) k = Some (ent_v (lh_slots t ! n))"
    using key by (simp add: ns pairs_def map_add_def map_of_eq_None_iff [THEN iffD2] del: map_of_map
        split: option.splits)
  have "distinct ns" using R by (simp add: lh_repr_def)
  then have rem: "removeAll n ns = xs @ ys" by (simp add: ns)
  have "lh_repr ?t (xs @ n # ys)" using R ns by simp
  from delete_entry_repr [OF this] obtain t' where
    t': "lh_table_delete_entry ?t (int n) = Ret (0, t')" "lh_repr t' (xs @ ys)"
      "pairs t' (xs @ ys) = pairs t (xs @ ys)" "lh_freed t' = lh_freed t @ [(k, ent_v (lh_slots t ! n))]"
      "lh_hash t' = lh_hash t" "lh_size t' = lh_size t" "ent_k (lh_slots t' ! n) = LH_FREED"
      "\<forall>m. m \<noteq> n \<longrightarrow> ent_k (lh_slots t' ! m) = ent_k (lh_slots t ! m)" using key by auto
  moreover have "lh_table_delete t k = Ret (0, t')" using t'(1) n(3) by (simp add: lh_table_delete_def)
  ultimately show ?thesis
    using n(1) by (intro exI [of _ t'] exI [of _ n] conjI) (simp_all add: rem filt val)
qed

section \<open>The contract\<close>

definition lh_wf :: "('k, 'v) lh_table \<Rightarrow> bool" where
  "lh_wf t \<longleftrightarrow> (case lh_walk (lh_slots t) (lh_head t) of None \<Rightarrow> False | Some ns \<Rightarrow> lh_repr t ns)"

definition lh_entries :: "('k, 'v) lh_table \<Rightarrow> ('k \<times> 'v option) list" where
  "lh_entries t = (case lh_foreach t of None \<Rightarrow> [] | Some es \<Rightarrow> es)"

definition lh_map_ok :: "('k, 'v) lh_table \<Rightarrow> bool" where
  "lh_map_ok t \<longleftrightarrow> lh_wf t \<and> distinct (map fst (lh_entries t))"

lemma wf_repr: "lh_wf t \<longleftrightarrow> (\<exists>ns. lh_repr t ns)"
  by (auto simp: lh_wf_def repr_walk split: option.splits)

lemma repr_entries: "lh_repr t ns \<Longrightarrow> lh_entries t = pairs t ns"
  by (simp add: lh_entries_def repr_foreach)

lemma map_ok_repr: "lh_map_ok t \<longleftrightarrow> (\<exists>ns. lh_repr t ns \<and> distinct (map fst (pairs t ns)))"
  by (auto simp: lh_map_ok_def wf_repr repr_entries)

lemma new_map_ok: "0 < sz \<Longrightarrow> lh_map_ok (lh_table_new sz h) \<and> lh_entries (lh_table_new sz h) = []"
  using repr_entries [OF new_repr [of sz h]] new_repr [of sz h] by (auto simp: map_ok_repr pairs_def)

lemma insert_contract:
  assumes "lh_wf t"
  shows "\<exists>t'. lh_table_insert t k v = Ret t' \<and> lh_wf t' \<and> lh_entries t' = lh_entries t @ [(k, v)]"
proof -
  from assms obtain ns where R: "lh_repr t ns" by (auto simp: wf_repr)
  from insert_repr [OF R, of k v] show ?thesis by (auto simp: wf_repr repr_entries [OF R] repr_entries)
qed

lemma lookup_contract:
  assumes "lh_map_ok t" "k \<in> fst ` set (lh_entries t) \<or> lh_has_empty t"
  shows "\<exists>t'. lh_table_lookup t k = Ret (case map_of (lh_entries t) k of None \<Rightarrow> None | Some v \<Rightarrow> v, t') \<and>
    lh_map_ok t' \<and> lh_entries t' = lh_entries t"
proof -
  from assms(1) obtain ns where R: "lh_repr t ns" and dist: "distinct (map fst (pairs t ns))"
    by (auto simp: map_ok_repr)
  let ?t = "t\<lparr>lh_lookups := lh_lookups t + 1\<rparr>"
  have R': "lh_repr ?t ns" using R by simp
  have same: "lh_map_ok ?t" "lh_entries ?t = pairs t ns"
    using R' dist repr_entries [OF R'] by (auto simp: map_ok_repr)
  show ?thesis
  proof (cases "k \<in> fst ` set (pairs t ns)")
    case True
    from lookup_hit [OF R this] obtain n where n: "n \<in> set ns" "ent_k (lh_slots t ! n) = LH_KEY k"
      "lh_table_lookup_entry t k = Ret (Some n, ?t)" by blast
    then have "(k, ent_v (lh_slots t ! n)) \<in> set (pairs t ns)" by (auto simp: pairs_def key_of_def intro!: rev_image_eqI)
    then have "map_of (pairs t ns) k = Some (ent_v (lh_slots t ! n))" using dist by simp
    then show ?thesis using n(3) same by (simp add: lh_table_lookup_def repr_entries [OF R])
  next
    case False
    then have "map_of (pairs t ns) k = None" by (simp add: map_of_eq_None_iff)
    moreover have "lh_table_lookup_entry t k = Ret (None, ?t)"
      using lookup_miss [OF R False] assms(2) False by (simp add: repr_entries [OF R])
    ultimately show ?thesis using same by (simp add: lh_table_lookup_def repr_entries [OF R])
  qed
qed

lemma filter_absent: "k \<notin> fst ` set es \<Longrightarrow> filter (\<lambda>e. fst e \<noteq> k) es = es"
  by (force simp: filter_id_conv)

lemma delete_contract:
  assumes "lh_map_ok t" "k \<in> fst ` set (lh_entries t) \<or> lh_has_empty t"
  shows "\<exists>t'. lh_table_delete t k = Ret (if k \<in> fst ` set (lh_entries t) then 0 else -1, t') \<and>
    lh_map_ok t' \<and> lh_entries t' = filter (\<lambda>e. fst e \<noteq> k) (lh_entries t) \<and>
    lh_freed t' = lh_freed t @ (case map_of (lh_entries t) k of None \<Rightarrow> [] | Some v \<Rightarrow> [(k, v)])"
proof -
  from assms(1) obtain ns where R: "lh_repr t ns" and dist: "distinct (map fst (pairs t ns))"
    by (auto simp: map_ok_repr)
  show ?thesis
  proof (cases "k \<in> fst ` set (pairs t ns)")
    case True
    from delete_hit [OF R dist True] obtain t' n where
      t': "lh_table_delete t k = Ret (0, t')" "lh_repr t' (removeAll n ns)"
        "pairs t' (removeAll n ns) = filter (\<lambda>e. fst e \<noteq> k) (pairs t ns)"
        "lh_freed t' = lh_freed t @ [(k, the (map_of (pairs t ns) k))]" by blast
    have "distinct (map fst (filter (\<lambda>e. fst e \<noteq> k) (pairs t ns)))"
      using dist by (rule distinct_map_filter)
    then have "lh_map_ok t'" using t'(2,3) by (auto simp: map_ok_repr intro!: exI [of _ "removeAll n ns"])
    moreover obtain v where "map_of (pairs t ns) k = Some v" 
      by (cases "map_of (pairs t ns) k") (use True in \<open>auto simp: map_of_eq_None_iff\<close>)
    ultimately show ?thesis using t' True by (auto simp: repr_entries [OF R] repr_entries [OF t'(2)])
  next
    case False
    have e: "lh_table_lookup_entry t k = Ret (None, t\<lparr>lh_lookups := lh_lookups t + 1\<rparr>)"
      using lookup_miss [OF R False] assms(2) False by (simp add: repr_entries [OF R])
    have R': "lh_repr (t\<lparr>lh_lookups := lh_lookups t + 1\<rparr>) ns" using R by simp
    have "map_of (pairs t ns) k = None" using False by (simp add: map_of_eq_None_iff)
    then show ?thesis using e R' False dist repr_entries [OF R']
      by (auto simp: lh_table_delete_def repr_entries [OF R] map_ok_repr filter_absent)
  qed
qed

lemma stuck_contract:
  assumes "lh_map_ok t" "k \<notin> fst ` set (lh_entries t)" "\<not> lh_has_empty t"
  shows "lh_table_lookup t k = Blocks \<and> lh_table_delete t k = Blocks"
proof -
  from assms(1) obtain ns where R: "lh_repr t ns" by (auto simp: map_ok_repr)
  then show ?thesis using lookup_stuck [OF R _ assms(3), of k] assms(2)
    by (simp add: repr_entries lh_table_lookup_def lh_table_delete_def)
qed

lemma map_ok_distinct: "lh_map_ok t \<Longrightarrow> distinct (map fst (lh_entries t))"
  by (simp add: lh_map_ok_def)

interpretation lh: ordered_map lh_table_insert lh_table_lookup lh_table_delete lh_entries lh_map_ok lh_has_empty
proof unfold_locales
  fix t :: "('k, 'v) lh_table" and k v
  assume "lh_map_ok t" "k \<notin> fst ` set (lh_entries t)"
  then show "\<exists>t'. lh_table_insert t k v = Ret t' \<and> lh_map_ok t' \<and> lh_entries t' = lh_entries t @ [(k, v)]"
    using insert_contract [of t k v] by (auto simp: lh_map_ok_def)
next
  fix t :: "('k, 'v) lh_table" and k
  assume "lh_map_ok t" "k \<in> fst ` set (lh_entries t) \<or> lh_has_empty t"
  from delete_contract [OF this]
  show "\<exists>t'. lh_table_delete t k = Ret (if k \<in> fst ` set (lh_entries t) then 0 else -1, t') \<and>
     lh_map_ok t' \<and> lh_entries t' = filter (\<lambda>e. fst e \<noteq> k) (lh_entries t)"
    by (elim exE conjE) (intro exI conjI; assumption)
qed ((rule map_ok_distinct lookup_contract stuck_contract; assumption)+)

section \<open>Inserting and deleting\<close>

fun lh_churn :: "('k, 'v) lh_table \<Rightarrow> 'k list \<Rightarrow> ('k, 'v) lh_table outcome" where
  "lh_churn t [] = Ret t"
| "lh_churn t (k # ks) =
     and_then (lh_table_insert t k None) (\<lambda>t1.
     and_then (lh_table_delete t1 k) (\<lambda>(_, t2). lh_churn t2 ks))"

lemma churn_step:
  assumes R: "lh_repr t []"
  shows "\<exists>t1 t2. lh_table_insert t k v = Ret t1 \<and> lh_table_delete t1 k = Ret (0, t2) \<and> lh_repr t2 [] \<and>
    lh_size t2 = lh_size t \<and> lh_hash t2 = lh_hash t \<and>
    ent_k (lh_slots t2 ! (lh_hash t k mod lh_size t)) = LH_FREED \<and>
    (\<forall>m. m \<noteq> lh_hash t k mod lh_size t \<longrightarrow> ent_k (lh_slots t2 ! m) = ent_k (lh_slots t ! m))"
proof -
  let ?n = "lh_hash t k mod lh_size t"
  have size: "0 < lh_size t" and n: "?n < lh_size t" "slot_free (lh_slots t ! ?n)" and c: "lh_count t = 0"
    using R by (auto simp: lh_repr_def)
  let ?t = "t\<lparr>lh_inserts := lh_inserts t + 1, lh_collisions := lh_collisions t\<rparr>"
  have "probe (\<lambda>n. slot_free (lh_slots t ! n)) (lh_size t) ?n 0 = Some (?n, 0)"
    using n(2) by (subst probe.simps) simp
  then have call: "lh_table_insert t k v = lh_link ?t ?n k v"
    using size c by (simp add: lh_table_insert_def numeral_2_eq_2 lh_place_def Let_def)
  have "found_from ?t k ?n" using size by (auto simp: found_from_def intro!: exI [of _ 0])
  moreover have "lh_repr ?t []" using R by (simp only: repr_counters)
  ultimately obtain t1 where t1: "lh_link ?t ?n k v = Ret t1" "lh_repr t1 [?n]"
    "pairs t1 [?n] = [(k, v)]" "lh_size t1 = lh_size t" "lh_hash t1 = lh_hash t"
    "\<forall>m. m \<noteq> ?n \<longrightarrow> ent_k (lh_slots t1 ! m) = ent_k (lh_slots t ! m)"
    using link_repr [of ?t "[]" ?n k v] n by (auto simp: pairs_def)
  have "distinct (map fst (pairs t1 [?n]))" "k \<in> fst ` set (pairs t1 [?n])" using t1(3) by auto
  from delete_hit [OF t1(2) this] obtain t2 m where
    t2: "lh_table_delete t1 k = Ret (0, t2)" "lh_repr t2 (removeAll m [?n])" "lh_hash t2 = lh_hash t1"
      "lh_size t2 = lh_size t1" "m \<in> set [?n]" "ent_k (lh_slots t2 ! m) = LH_FREED"
      "\<forall>i. i \<noteq> m \<longrightarrow> ent_k (lh_slots t2 ! i) = ent_k (lh_slots t1 ! i)" by blast
  then have "m = ?n" by simp
  with t1 t2 call show ?thesis by auto
qed

lemma churn_repr:
  assumes "lh_repr t []"
  shows "\<exists>t'. lh_churn t ks = Ret t' \<and> lh_repr t' [] \<and> lh_size t' = lh_size t \<and> lh_hash t' = lh_hash t \<and>
    (\<forall>m. m \<in> (\<lambda>k. lh_hash t k mod lh_size t) ` set ks \<longrightarrow> ent_k (lh_slots t' ! m) = LH_FREED) \<and>
    (\<forall>m. ent_k (lh_slots t ! m) = LH_FREED \<longrightarrow> ent_k (lh_slots t' ! m) = LH_FREED)"
  using assms
proof (induction ks arbitrary: t)
  case Nil
  then show ?case by simp
next
  case (Cons k ks)
  let ?n = "lh_hash t k mod lh_size t"
  from churn_step [OF Cons.prems, of k None] obtain t1 t2 where
    t2: "lh_table_insert t k None = Ret t1" "lh_table_delete t1 k = Ret (0, t2)" "lh_repr t2 []"
      "lh_size t2 = lh_size t" "lh_hash t2 = lh_hash t" "ent_k (lh_slots t2 ! ?n) = LH_FREED"
      "\<forall>m. m \<noteq> ?n \<longrightarrow> ent_k (lh_slots t2 ! m) = ent_k (lh_slots t ! m)" by blast
  from Cons.IH [OF t2(3)] obtain t' where
    t': "lh_churn t2 ks = Ret t'" "lh_repr t' []" "lh_size t' = lh_size t" "lh_hash t' = lh_hash t"
      "\<And>m. m \<in> (\<lambda>k. lh_hash t k mod lh_size t) ` set ks \<Longrightarrow> ent_k (lh_slots t' ! m) = LH_FREED"
      "\<And>m. ent_k (lh_slots t2 ! m) = LH_FREED \<Longrightarrow> ent_k (lh_slots t' ! m) = LH_FREED"
    by (auto simp: t2(4,5))
  have "ent_k (lh_slots t' ! m) = LH_FREED" if "ent_k (lh_slots t ! m) = LH_FREED" for m
    using t'(6) t2(6,7) that by (cases "m = ?n") auto
  then show ?case using t2 t' by (intro exI [of _ t']) auto
qed

section \<open>Properties\<close>

definition lh_sample :: "(nat, nat) lh_table" where
  "lh_sample =
     \<lparr>lh_size = 3, lh_count = 2, lh_collisions = 1, lh_resizes = 0, lh_lookups = 0, lh_inserts = 2,
      lh_head = Some 1, lh_tail = Some 2,
      lh_slots = [empty_entry,
        \<lparr>ent_k = LH_KEY 7, ent_v = Some 70, ent_next = Some 2, ent_prev = None\<rparr>,
        \<lparr>ent_k = LH_KEY 4, ent_v = Some 40, ent_next = None, ent_prev = Some 1\<rparr>],
      lh_hash = id, lh_freed = []\<rparr>"

lemma lh_sample_repr: "lh_repr lh_sample [1, 2]"
proof -
  have "{n. n < 3 \<and> \<not> slot_free (lh_slots lh_sample ! n)} = {1, 2}"
    by (auto simp: lh_sample_def slot_free_def empty_entry_def less_Suc_eq numeral_3_eq_3 numeral_2_eq_2)
  moreover have "found_from lh_sample 7 1"
    unfolding found_from_def by (rule exI [of _ 0]) (simp add: lh_sample_def)
  moreover have "found_from lh_sample 4 2"
    unfolding found_from_def by (rule exI [of _ 1]) (simp add: lh_sample_def)
  ultimately show ?thesis by (simp add: lh_repr_def lh_sample_def key_of_def)
qed

lemma lh_sample_ok: "lh_map_ok lh_sample" "lh_entries lh_sample = [(7, Some 70), (4, Some 40)]" "lh_has_empty lh_sample"
proof -
  have p: "pairs lh_sample [1, 2] = [(7, Some 70), (4, Some 40)]"
    by (simp add: pairs_def lh_sample_def key_of_def)
  then show "lh_map_ok lh_sample" using lh_sample_repr by (auto simp: map_ok_repr intro!: exI [of _ "[1, 2]"])
  show "lh_entries lh_sample = [(7, Some 70), (4, Some 40)]" using repr_entries [OF lh_sample_repr] p by simp
  show "lh_has_empty lh_sample" by (simp add: lh_has_empty_def lh_sample_def empty_entry_def)
qed

text \<open>C14. An insertion, with the limits of the memory and of \<open>int\<close>: the table doubles exactly when its
  count is above 0.66 of its size.  Then a size that does not fit an \<open>int\<close> is undefined and a failed
  allocation ends the process.  In every other case the insertion returns: it loses nothing, the
  list holds the old entries in their order followed by the new one, the invariant holds, and the
  result is the one the JSON objects rely on.\<close>
theorem lh_insert_appends:
  assumes "lh_wf t"
  shows "let grows = 100 * length (lh_entries t) > 66 * lh_size t; size = 2 * int (lh_size t) in
    if grows \<and> size > INT_MAX then lh_table_insert_in M t k v = Undefined
    else if grows \<and> \<not> (mem_ok M 1 \<and> mem_ok M size) then lh_table_insert_in M t k v = Aborts
    else \<exists>t'. lh_table_insert_in M t k v = Ret t' \<and> lh_table_insert t k v = Ret t' \<and> lh_wf t' \<and>
      lh_entries t' = lh_entries t @ [(k, v)] \<and> lh_freed t' = lh_freed t \<and>
      int (lh_size t') = (if grows then size else int (lh_size t))"
proof -
  from assms obtain ns where R: "lh_repr t ns" by (auto simp: wf_repr)
  then have grows: "lh_grows t \<longleftrightarrow> 100 * length (lh_entries t) > 66 * lh_size t"
    by (simp add: lh_grows_def repr_entries [OF R] lh_repr_def)
  show ?thesis
  proof (cases "lh_grows t \<and> lh_fresh M (lh_size t * 2) \<noteq> Ret ()")
    case True
    then have "lh_table_insert_in M t k v = and_then (lh_fresh M (lh_size t * 2)) (\<lambda>_. Blocks)"
      using insert_fails [of t "lh_fresh M" 1 k v]
      by (simp add: lh_table_insert_in_def numeral_2_eq_2 del: lh_insert_depth.simps)
    then show ?thesis unfolding Let_def grows [symmetric]
      using True by (auto simp: lh_fresh_def mult.commute split: if_splits)
  next
    case False
    then have "lh_fresh M (lh_size t * 2) = Ret ()" if "lh_grows t" using that by simp
    from insert_depth_repr [where t = t and room = "lh_fresh M", OF R this, of k v] obtain t' ns' where
      t': "lh_table_insert_in M t k v = Ret t'" "lh_repr t' ns'" "pairs t' ns' = pairs t ns @ [(k, v)]"
        "lh_freed t' = lh_freed t" "lh_size t' = (if lh_grows t then lh_size t * 2 else lh_size t)"
      unfolding lh_table_insert_in_def by blast
    moreover have "lh_table_insert t k v = Ret t'"
      unfolding lh_table_insert_def by (rule insert_mono [OF t'(1) [unfolded lh_table_insert_in_def]])
    ultimately show ?thesis unfolding Let_def grows [symmetric]
      using False by (auto simp: lh_fresh_def wf_repr repr_entries [OF R] repr_entries [OF t'(2)]
          mult.commute split: if_splits)
  qed
qed

lemma lh_insert_appends_witness:
  "\<exists>t'. lh_table_insert_in (\<lparr>mem_ok = (\<lambda>_. True), mem_junk = (\<lambda>_. ())\<rparr>) lh_sample 1 None = Ret t' \<and>
     lh_entries t' = [(7, Some 70), (4, Some 40), (1, None)] \<and> lh_size t' = 6"
proof -
  have "lh_wf lh_sample" "lh_size lh_sample = 3" using lh_sample_ok by (simp_all add: lh_map_ok_def lh_sample_def)
  with lh_insert_appends [of lh_sample "\<lparr>mem_ok = (\<lambda>_. True), mem_junk = (\<lambda>_. ())\<rparr>" 1 None] show ?thesis
    by (auto simp: lh_sample_ok Let_def)
qed

text \<open>C15. A lookup finds the value of a present key whatever else is in the table; for an absent key it
  answers \<open>NULL\<close> when some slot was never used, and otherwise never returns.\<close>
theorem lh_lookup_correct:
  assumes "lh_map_ok t"
  shows "returned (and_then (lh_table_lookup t k) (\<lambda>(v, _). Ret v)) =
    (case map_of (lh_entries t) k of
       Some v \<Rightarrow> Some v
     | None \<Rightarrow> if lh_has_empty t then Some None else None)"
proof (cases "k \<in> fst ` set (lh_entries t) \<or> lh_has_empty t")
  case True
  then have "map_of (lh_entries t) k = None \<longrightarrow> lh_has_empty t" by (auto simp: map_of_eq_None_iff)
  then show ?thesis using lh.find_value [OF assms True] by (auto split: option.splits)
next
  case False
  then have "map_of (lh_entries t) k = None" by (simp add: map_of_eq_None_iff)
  with False show ?thesis using lh.stuck [OF assms, of k] by simp
qed

lemma lh_lookup_correct_witness:
  "returned (and_then (lh_table_lookup lh_sample 4) (\<lambda>(v, _). Ret v)) = Some (Some 40) \<and>
   returned (and_then (lh_table_lookup lh_sample 5) (\<lambda>(v, _). Ret v)) = Some None"
  using lh_lookup_correct [OF lh_sample_ok(1), of 4] lh_lookup_correct [OF lh_sample_ok(1), of 5]
  by (simp add: lh_sample_ok)

text \<open>C16. Deleting a present key removes its entry, keeps the order of the others and hands exactly that
  entry to \<open>free_fn\<close>.  Deleting an absent one answers -1 and changes nothing while some slot was never
  used; when every slot holds or held a key, it searches for ever.\<close>
theorem lh_delete_removes:
  assumes "lh_map_ok t"
  shows "if k \<in> fst ` set (lh_entries t) \<or> lh_has_empty t
    then \<exists>t'. lh_table_delete t k = Ret (if k \<in> fst ` set (lh_entries t) then 0 else -1, t') \<and>
      lh_map_ok t' \<and> lh_entries t' = filter (\<lambda>e. fst e \<noteq> k) (lh_entries t) \<and>
      lh_freed t' = lh_freed t @ (case map_of (lh_entries t) k of None \<Rightarrow> [] | Some v \<Rightarrow> [(k, v)])
    else lh_table_delete t k = Blocks"
  using delete_contract [OF assms, of k] stuck_contract [OF assms, of k] by simp

lemma lh_delete_removes_witness:
  "\<exists>t'. lh_table_delete lh_sample 7 = Ret (0, t') \<and> lh_entries t' = [(4, Some 40)] \<and> lh_freed t' = [(7, Some 70)]"
proof -
  have "lh_freed lh_sample = []" by (simp add: lh_sample_def)
  then show ?thesis using lh_delete_removes [OF lh_sample_ok(1), of 7] by (auto simp: lh_sample_ok)
qed

text \<open>C17. Deletions leave tombstones that no lookup stops at: a new table into which enough keys were
  inserted and deleted again is empty, and every lookup in it loops for ever.\<close>
theorem lh_churn_blocks_lookup:
  assumes "0 < sz" "\<forall>m < sz. \<exists>k\<in>set ks. h k mod sz = m"
  shows "\<exists>t. lh_churn (lh_table_new sz h :: ('k, 'v) lh_table) ks = Ret t \<and> lh_map_ok t \<and>
    lh_entries t = [] \<and> lh_table_lookup t k = Blocks"
proof -
  have "lh_repr (lh_table_new sz h :: ('k, 'v) lh_table) []" by (rule new_repr [OF assms(1)])
  from churn_repr [OF this, of ks] obtain t :: "('k, 'v) lh_table" where
    t: "lh_churn (lh_table_new sz h) ks = Ret t" "lh_repr t []" "lh_size t = sz"
      "\<And>m. m \<in> (\<lambda>k. h k mod sz) ` set ks \<Longrightarrow> ent_k (lh_slots t ! m) = LH_FREED"
    by (auto simp: lh_table_new_def)
  have "ent_k (lh_slots t ! m) = LH_FREED" if "m < sz" for m
    using that assms(2) by (intro t(4)) force
  then have "\<not> lh_has_empty t" using t(2,3) by (auto simp: lh_has_empty_def lh_repr_def in_set_conv_nth)
  moreover have "lh_map_ok t" "lh_entries t = []" using t(2) repr_entries [OF t(2)] by (auto simp: map_ok_repr pairs_def)
  ultimately show ?thesis using t(1) lh.stuck [of t k] by auto
qed

lemma lh_churn_blocks_lookup_witness:
  "\<exists>t. lh_churn (lh_table_new 2 (\<lambda>k. k) :: (nat, nat) lh_table) [0, 1] = Ret t \<and> lh_entries t = [] \<and>
     lh_table_lookup t 5 = Blocks"
proof -
  have "\<forall>m < 2. \<exists>k\<in>set [0, 1]. k mod 2 = (m :: nat)" by (auto simp: less_2_cases_iff)
  from lh_churn_blocks_lookup [OF _ this, of 5] show ?thesis by (metis zero_less_numeral)
qed

end
