(* ===== verification/Json_Object.thy ===== *)
theory Json_Object
  imports Array_List Link_Hash_Facts
begin

text \<open>
  JSON values and their operations, \<open>json-c-0.9/json_object.c\<close>.  A value is a tree: \<open>JNull\<close> is the
  \<open>NULL\<close> pointer, an array its items, an object its pairs in the order of its table.  The operations on
  one object or array are on the table and the array of their own theories; the printers write into a
  print buffer.  What \<open>double\<close>s are, how \<open>printf\<close> and \<open>sscanf\<close> treat them, is a parameter.
\<close>

datatype 'd json =
    JNull
  | JBool int
  | JDouble 'd
  | JInt int
  | JString string
  | JArray "'d json list"
  | JObject "(string \<times> 'd json) list"

datatype json_type = type_null | type_boolean | type_double | type_int | type_object | type_array | type_string

text \<open>The library's part on \<open>double\<close>: \<open>printf ("%lf")\<close>, \<open>sscanf ("%lf")\<close>, the conversions and the test
  against 0.\<close>

record 'd libc =
  fmt_double :: "'d \<Rightarrow> string"
  scan_double :: "string \<Rightarrow> 'd option"
  double_of_int :: "int \<Rightarrow> 'd"
  int_of_double :: "'d \<Rightarrow> int outcome"
  double_nonzero :: "'d \<Rightarrow> bool"

section \<open>Decimal numbers\<close>

definition digit_char :: "nat \<Rightarrow> char" where
  "digit_char d = char_of (48 + d)"

fun dec_nat :: "nat \<Rightarrow> string" where
  "dec_nat n = (if n < 10 then [digit_char n] else dec_nat (n div 10) @ [digit_char (n mod 10)])"

declare dec_nat.simps [simp del]

text \<open>\<open>printf ("%d")\<close>\<close>

definition dec_int :: "int \<Rightarrow> string" where
  "dec_int i = (if i < 0 then CHR ''-'' # dec_nat (nat (- i)) else dec_nat (nat i))"

definition is_digit :: "char \<Rightarrow> bool" where
  "is_digit c \<longleftrightarrow> 48 \<le> (of_char c :: nat) \<and> (of_char c :: nat) \<le> 57"

definition digits_value :: "string \<Rightarrow> int" where
  "digits_value s = foldl (\<lambda>v c. 10 * v + (of_char c - 48)) 0 s"

definition is_space :: "char \<Rightarrow> bool" where
  "is_space c \<longleftrightarrow> of_char c = (32 :: nat) \<or> 9 \<le> (of_char c :: nat) \<and> (of_char c :: nat) \<le> 13"

abbreviation INT_MIN :: int where
  "INT_MIN \<equiv> - 2147483648"

text \<open>\<open>sscanf (s, "%d", ...)\<close>: the value when the call returns 1, \<^const>\<open>None\<close> when it stores nothing; a
  number that does not fit the \<open>int\<close> is undefined.\<close>

definition scan_int :: "string \<Rightarrow> int option outcome" where
  "scan_int s =
     (let s1 = dropWhile is_space s;
          neg = (s1 \<noteq> [] \<and> hd s1 = CHR ''-'');
          s2 = (if s1 \<noteq> [] \<and> (hd s1 = CHR ''-'' \<or> hd s1 = CHR ''+'') then tl s1 else s1);
          ds = takeWhile is_digit s2;
          v = (if neg then - digits_value ds else digits_value ds) in
      if ds = [] then Ret None
      else if INT_MIN \<le> v \<and> v \<le> INT_MAX then Ret (Some v) else Undefined)"

section \<open>Escaping\<close>

definition json_number_chars :: string where
  "json_number_chars = ''0123456789.+-eE''"

definition json_hex_chars :: string where
  "json_hex_chars = ''0123456789abcdef''"

text \<open>The two-character escapes; \<^const>\<open>None\<close> for a character of the \<open>default\<close> case.\<close>

definition short_escape :: "char \<Rightarrow> string option" where
  "short_escape c =
     (if c = CHR 0x08 then Some [CHR 0x5C, CHR ''b'']
      else if c = CHR 0x0A then Some [CHR 0x5C, CHR ''n'']
      else if c = CHR 0x0D then Some [CHR 0x5C, CHR ''r'']
      else if c = CHR 0x09 then Some [CHR 0x5C, CHR ''t'']
      else if c = CHR 0x22 then Some [CHR 0x5C, CHR 0x22]
      else if c = CHR 0x5C then Some [CHR 0x5C, CHR 0x5C]
      else if c = CHR 0x2F then Some [CHR 0x5C, CHR 0x2F]
      else None)"

definition hex_escape :: "char \<Rightarrow> string" where
  "hex_escape c =
     [CHR 0x5C, CHR ''u'', CHR ''0'', CHR ''0'', json_hex_chars ! (of_char c div 16), json_hex_chars ! (of_char c mod 16)]"

text \<open>The pending run \<open>str + start_offset\<close> of plain characters is flushed before every escape.\<close>

definition flush :: "char mem \<Rightarrow> printbuf \<Rightarrow> string \<Rightarrow> printbuf outcome" where
  "flush M pb run =
     (if run = [] then Ret pb else and_then (printbuf_memappend M pb run) (\<lambda>(_, pb'). Ret pb'))"

fun json_escape_str :: "char mem \<Rightarrow> printbuf \<Rightarrow> string \<Rightarrow> string \<Rightarrow> (int \<times> printbuf) outcome" where
  "json_escape_str M pb run [] = and_then (flush M pb run) (\<lambda>pb'. Ret (0, pb'))"
| "json_escape_str M pb run (c # cs) =
     (case short_escape c of
        Some e \<Rightarrow>
          and_then (flush M pb run) (\<lambda>pb1.
          and_then (printbuf_memappend M pb1 e) (\<lambda>(_, pb2). json_escape_str M pb2 [] cs))
      | None \<Rightarrow>
          if of_char c < (32 :: nat) then
            and_then (flush M pb run) (\<lambda>pb1.
            and_then (sprintbuf M pb1 (Some (hex_escape c))) (\<lambda>(_, pb2). json_escape_str M pb2 [] cs))
          else json_escape_str M pb (run @ [c]) cs)"

section \<open>Printers\<close>

definition put_text :: "char mem \<Rightarrow> string \<Rightarrow> printbuf \<Rightarrow> printbuf outcome" where
  "put_text M s pb = and_then (sprintbuf M pb (Some s)) (\<lambda>(_, pb'). Ret pb')"

definition json_object_boolean_to_json_string :: "char mem \<Rightarrow> int \<Rightarrow> printbuf \<Rightarrow> (int \<times> printbuf) outcome" where
  "json_object_boolean_to_json_string M b pb =
     (if b \<noteq> 0 then sprintbuf M pb (Some ''true'') else sprintbuf M pb (Some ''false''))"

definition json_object_int_to_json_string :: "char mem \<Rightarrow> int \<Rightarrow> printbuf \<Rightarrow> (int \<times> printbuf) outcome" where
  "json_object_int_to_json_string M i pb = sprintbuf M pb (Some (dec_int i))"

definition json_object_double_to_json_string ::
    "'d libc \<Rightarrow> char mem \<Rightarrow> 'd \<Rightarrow> printbuf \<Rightarrow> (int \<times> printbuf) outcome" where
  "json_object_double_to_json_string lc M d pb = sprintbuf M pb (Some (fmt_double lc d))"

definition json_object_string_to_json_string :: "char mem \<Rightarrow> string \<Rightarrow> printbuf \<Rightarrow> (int \<times> printbuf) outcome" where
  "json_object_string_to_json_string M s pb =
     and_then (put_text M [CHR 0x22] pb) (\<lambda>pb1.
     and_then (json_escape_str M pb1 [] s) (\<lambda>(_, pb2).
     and_then (put_text M [CHR 0x22] pb2) (\<lambda>pb3. Ret (0, pb3))))"

text \<open>\<open>_to_json_string\<close> of each type, with the loops over the pairs of an object and the items of an
  array; the flag is the test \<open>if(i)\<close> of the loop counter.\<close>

fun to_json_string :: "'d libc \<Rightarrow> char mem \<Rightarrow> 'd json \<Rightarrow> printbuf \<Rightarrow> (int \<times> printbuf) outcome"
and object_entries :: "'d libc \<Rightarrow> char mem \<Rightarrow> bool \<Rightarrow> (string \<times> 'd json) list \<Rightarrow> printbuf \<Rightarrow> printbuf outcome"
and array_entries :: "'d libc \<Rightarrow> char mem \<Rightarrow> bool \<Rightarrow> 'd json list \<Rightarrow> printbuf \<Rightarrow> printbuf outcome" where
  "to_json_string lc M JNull pb = sprintbuf M pb (Some ''null'')"
| "to_json_string lc M (JBool b) pb = json_object_boolean_to_json_string M b pb"
| "to_json_string lc M (JInt i) pb = json_object_int_to_json_string M i pb"
| "to_json_string lc M (JDouble d) pb = json_object_double_to_json_string lc M d pb"
| "to_json_string lc M (JString s) pb = json_object_string_to_json_string M s pb"
| "to_json_string lc M (JObject es) pb =
     and_then (put_text M ''{'' pb) (\<lambda>pb1.
     and_then (object_entries lc M False es pb1) (\<lambda>pb2. sprintbuf M pb2 (Some '' }'')))"
| "to_json_string lc M (JArray vs) pb =
     and_then (put_text M ''['' pb) (\<lambda>pb1.
     and_then (array_entries lc M False vs pb1) (\<lambda>pb2. sprintbuf M pb2 (Some '' ]'')))"
| "object_entries lc M later [] pb = Ret pb"
| "object_entries lc M later ((k, v) # es) pb =
     and_then (if later then put_text M '','' pb else Ret pb) (\<lambda>pb1.
     and_then (put_text M [CHR '' '', CHR 0x22] pb1) (\<lambda>pb2.
     and_then (json_escape_str M pb2 [] k) (\<lambda>(_, pb3).
     and_then (put_text M [CHR 0x22, CHR '':'', CHR '' ''] pb3) (\<lambda>pb4.
     and_then (to_json_string lc M v pb4) (\<lambda>(_, pb5). object_entries lc M True es pb5)))))"
| "array_entries lc M later [] pb = Ret pb"
| "array_entries lc M later (v # vs) pb =
     and_then (put_text M (if later then '', '' else '' '') pb) (\<lambda>pb1.
     and_then (to_json_string lc M v pb1) (\<lambda>(_, pb2). array_entries lc M True vs pb2))"

text \<open>\<open>json_object_to_json_string\<close>: \<open>_pb\<close> is created or reset; the result is the buffer, or \<open>NULL\<close> when
  the printer answers a negative number.\<close>

definition json_object_to_json_string ::
    "'d libc \<Rightarrow> char mem \<Rightarrow> 'd json \<Rightarrow> printbuf option \<Rightarrow> (string option \<times> printbuf option) outcome" where
  "json_object_to_json_string lc M v pb =
     (if v = JNull then Ret (Some ''null'', pb)
      else (case (case pb of None \<Rightarrow> printbuf_new M | Some p \<Rightarrow> Some (printbuf_reset p)) of
              None \<Rightarrow> Ret (None, None)
            | Some p \<Rightarrow>
                and_then (to_json_string lc M v p) (\<lambda>(rc, p').
                  Ret (if rc < 0 then None else Some (takeWhile (\<lambda>c. c \<noteq> CHR 0x00) (pb_buf p')), Some p'))))"

section \<open>Types and values\<close>

fun json_object_get_type :: "'d json \<Rightarrow> json_type outcome" where
  "json_object_get_type JNull = Undefined"
| "json_object_get_type (JBool _) = Ret type_boolean"
| "json_object_get_type (JDouble _) = Ret type_double"
| "json_object_get_type (JInt _) = Ret type_int"
| "json_object_get_type (JString _) = Ret type_string"
| "json_object_get_type (JArray _) = Ret type_array"
| "json_object_get_type (JObject _) = Ret type_object"

definition json_object_is_type :: "'d json \<Rightarrow> json_type \<Rightarrow> bool outcome" where
  "json_object_is_type v ty = and_then (json_object_get_type v) (\<lambda>t. Ret (t = ty))"

fun json_object_get_boolean :: "'d libc \<Rightarrow> 'd json \<Rightarrow> int" where
  "json_object_get_boolean lc (JBool b) = b"
| "json_object_get_boolean lc (JInt i) = (if i \<noteq> 0 then 1 else 0)"
| "json_object_get_boolean lc (JDouble d) = (if double_nonzero lc d then 1 else 0)"
| "json_object_get_boolean lc (JString s) = (if s \<noteq> [] then 1 else 0)"
| "json_object_get_boolean lc _ = 0"

fun json_object_get_int :: "'d libc \<Rightarrow> 'd json \<Rightarrow> int outcome" where
  "json_object_get_int lc (JInt i) = Ret i"
| "json_object_get_int lc (JDouble d) = int_of_double lc d"
| "json_object_get_int lc (JBool b) = Ret b"
| "json_object_get_int lc (JString s) =
     and_then (scan_int s) (\<lambda>r. Ret (case r of Some i \<Rightarrow> i | None \<Rightarrow> 0))"
| "json_object_get_int lc _ = Ret 0"

fun json_object_get_double :: "'d libc \<Rightarrow> 'd json \<Rightarrow> 'd" where
  "json_object_get_double lc (JDouble d) = d"
| "json_object_get_double lc (JInt i) = double_of_int lc i"
| "json_object_get_double lc (JBool b) = double_of_int lc b"
| "json_object_get_double lc (JString s) =
     (case scan_double lc s of Some d \<Rightarrow> d | None \<Rightarrow> double_of_int lc 0)"
| "json_object_get_double lc _ = double_of_int lc 0"

definition json_object_get_string ::
    "'d libc \<Rightarrow> char mem \<Rightarrow> 'd json \<Rightarrow> printbuf option \<Rightarrow> (string option \<times> printbuf option) outcome" where
  "json_object_get_string lc M v pb =
     (case v of JNull \<Rightarrow> Ret (None, pb)
      | JString s \<Rightarrow> Ret (Some s, pb)
      | _ \<Rightarrow> json_object_to_json_string lc M v pb)"

section \<open>Objects and arrays\<close>

text \<open>One object with its table, whose values are pointers; \<open>strdup\<close> of the key gives an equal key.  Memory is taken to
  suffice for the key and for a table that grows, and its size to fit an \<open>int\<close>: what happens otherwise is that of
  \<^const>\<open>lh_table_insert_in\<close>.\<close>

definition JSON_OBJECT_DEF_HASH_ENTRIES :: nat where
  "JSON_OBJECT_DEF_HASH_ENTRIES = 16"

definition json_object_new_object :: "(string, 'p) lh_table" where
  "json_object_new_object = lh_kchar_table_new JSON_OBJECT_DEF_HASH_ENTRIES"

definition json_object_object_add ::
    "(string, 'p) lh_table \<Rightarrow> string \<Rightarrow> 'p option \<Rightarrow> (string, 'p) lh_table outcome" where
  "json_object_object_add t key val =
     and_then (lh_table_delete t key) (\<lambda>(_, t1). lh_table_insert t1 key val)"

definition json_object_object_get ::
    "(string, 'p) lh_table \<Rightarrow> string \<Rightarrow> ('p option \<times> (string, 'p) lh_table) outcome" where
  "json_object_object_get t key = lh_table_lookup t key"

definition json_object_object_del ::
    "(string, 'p) lh_table \<Rightarrow> string \<Rightarrow> (string, 'p) lh_table outcome" where
  "json_object_object_del t key = and_then (lh_table_delete t key) (\<lambda>(_, t1). Ret t1)"

definition json_object_new_array :: "'p option mem \<Rightarrow> 'p array_list option" where
  "json_object_new_array M = array_list_new M"

definition json_object_array_length :: "'p array_list \<Rightarrow> int" where
  "json_object_array_length arr = array_list_length arr"

definition json_object_array_add :: "'p option mem \<Rightarrow> 'p array_list \<Rightarrow> 'p option \<Rightarrow> (int \<times> 'p array_list) outcome" where
  "json_object_array_add M arr val = array_list_add M arr val"

definition json_object_array_put_idx ::
    "'p option mem \<Rightarrow> 'p array_list \<Rightarrow> int \<Rightarrow> 'p option \<Rightarrow> (int \<times> 'p array_list) outcome" where
  "json_object_array_put_idx M arr idx val = array_list_put_idx M arr idx val"

definition json_object_array_get_idx :: "'p array_list \<Rightarrow> int \<Rightarrow> 'p option outcome" where
  "json_object_array_get_idx arr idx = array_list_get_idx arr idx"

section \<open>The text of a value\<close>

definition escape_char :: "char \<Rightarrow> string" where
  "escape_char c =
     (case short_escape c of Some e \<Rightarrow> e | None \<Rightarrow> if of_char c < (32 :: nat) then hex_escape c else [c])"

definition escaped :: "string \<Rightarrow> string" where
  "escaped s = concat (map escape_char s)"

fun json_text :: "'d libc \<Rightarrow> 'd json \<Rightarrow> string"
and entries_text :: "'d libc \<Rightarrow> bool \<Rightarrow> (string \<times> 'd json) list \<Rightarrow> string"
and items_text :: "'d libc \<Rightarrow> bool \<Rightarrow> 'd json list \<Rightarrow> string" where
  "json_text lc JNull = ''null''"
| "json_text lc (JBool b) = (if b \<noteq> 0 then ''true'' else ''false'')"
| "json_text lc (JInt i) = dec_int i"
| "json_text lc (JDouble d) = fmt_double lc d"
| "json_text lc (JString s) = CHR 0x22 # escaped s @ [CHR 0x22]"
| "json_text lc (JObject es) = ''{'' @ entries_text lc False es @ '' }''"
| "json_text lc (JArray vs) = ''['' @ items_text lc False vs @ '' ]''"
| "entries_text lc later [] = []"
| "entries_text lc later ((k, v) # es) =
     (if later then '','' else []) @ [CHR '' '', CHR 0x22] @ escaped k @ [CHR 0x22, CHR '':'', CHR '' ''] @
     json_text lc v @ entries_text lc True es"
| "items_text lc later [] = []"
| "items_text lc later (v # vs) = (if later then '', '' else '' '') @ json_text lc v @ items_text lc True vs"

section \<open>The printers write the text\<close>

text \<open>A buffer of less than half a gigabyte, which is what the doubling of a text of up to 256 MB gives.\<close>

definition pb_fits :: "printbuf \<Rightarrow> bool" where
  "pb_fits p \<longleftrightarrow> pb_inv p \<and> pb_size p \<le> 2 ^ 29 + 64"

definition all_ok :: "'a mem \<Rightarrow> bool" where
  "all_ok M \<longleftrightarrow> (\<forall>n. mem_ok M n)"

text \<open>\<open>prints f s\<close>: \<open>f\<close> appends exactly \<open>s\<close> and answers a number that is not negative.\<close>

definition wrote :: "printbuf \<Rightarrow> string \<Rightarrow> printbuf \<Rightarrow> bool" where
  "wrote p s p' \<longleftrightarrow> pb_fits p' \<and> written p' = written p @ s \<and> (s = [] \<and> p' = p \<or> pb_terminated p')"

definition room :: "printbuf \<Rightarrow> string \<Rightarrow> bool" where
  "room p s \<longleftrightarrow> pb_fits p \<and> length (written p) + length s \<le> 2 ^ 28"

lemma room_append: "room p (s @ t) \<Longrightarrow> wrote p s p' \<Longrightarrow> room p' t"
  by (auto simp: room_def wrote_def)

lemma room_left: "room p (s @ t) \<Longrightarrow> room p s"
  by (auto simp: room_def)

lemma wrote_trans: "wrote p s p1 \<Longrightarrow> wrote p1 t p2 \<Longrightarrow> wrote p (s @ t) p2"
  by (auto simp: wrote_def)

lemma bpos_written: "pb_inv p \<Longrightarrow> pb_bpos p = int (length (written p))"
  by (auto simp: pb_inv_def written_def)

lemma memappend_writes:
  assumes "all_ok M" "room p s"
  shows "\<exists>p'. printbuf_memappend M p s = Ret (int (length s), p') \<and> wrote p s p'"
proof -
  have inv: "pb_inv p" and sz: "pb_size p \<le> 2 ^ 29 + 64" "pb_bpos p + int (length s) \<le> 2 ^ 28"
    using assms(2) bpos_written by (auto simp: room_def pb_fits_def)
  then have "printbuf_memappend M p s \<noteq> Undefined" by (intro memappend_defined) simp_all
  moreover have "printbuf_memappend M p s \<noteq> Ret (-1, p)"
    using assms(1) by (auto simp: printbuf_memappend_def all_ok_def Let_def)
  ultimately obtain p' where p': "printbuf_memappend M p s = Ret (int (length s), p')" "pb_inv p'"
    "written p' = written p @ s" "pb_terminated p'" using memappend_cases [OF inv, of M s] by blast
  have "pb_size p' \<le> 2 ^ 29 + 64"
    using p'(1) sz inv by (auto simp: printbuf_memappend_def Let_def json_max_def pb_store_def pb_inv_def split: if_splits)
  with p' show ?thesis by (auto simp: wrote_def pb_fits_def)
qed

lemma sprintbuf_writes:
  assumes "all_ok M" "room p s"
  shows "\<exists>p'. sprintbuf M p (Some s) = Ret (int (length s), p') \<and> wrote p s p'"
  using memappend_writes [OF assms] assms(1) by (auto simp: sprintbuf_def all_ok_def)

lemma put_text_writes:
  assumes "all_ok M" "room p s"
  shows "\<exists>p'. put_text M s p = Ret p' \<and> wrote p s p'"
  using sprintbuf_writes [OF assms] by (auto simp: put_text_def)

lemma wrote_refl: "pb_fits p \<Longrightarrow> wrote p [] p"
  by (simp add: wrote_def)

lemma flush_writes:
  assumes "all_ok M" "room p s"
  shows "\<exists>p'. flush M p s = Ret p' \<and> wrote p s p'"
  using memappend_writes [OF assms] assms(2) by (auto simp: flush_def wrote_refl room_def)

lemma escape_writes:
  assumes "all_ok M" "room p (run @ escaped s)"
  shows "\<exists>p'. json_escape_str M p run s = Ret (0, p') \<and> wrote p (run @ escaped s) p'"
  using assms(2)
proof (induction s arbitrary: p run)
  case Nil
  then show ?case using flush_writes [OF assms(1), of p run] by (auto simp: escaped_def)
next
  case (Cons c s)
  have cons: "escaped (c # s) = escape_char c @ escaped s" by (simp add: escaped_def)
  show ?case
  proof (cases "short_escape c = None \<and> \<not> of_char c < (32 :: nat)")
    case True
    then have "escape_char c = [c]" by (simp add: escape_char_def)
    then show ?thesis using Cons.IH [of p "run @ [c]"] Cons.prems True by (simp add: cons)
  next
    case False
    let ?e = "escape_char c"
    have "room p (run @ ?e @ escaped s)" using Cons.prems by (simp add: cons)
    note r = this
    from flush_writes [OF assms(1) room_left [OF r]] obtain p1 where
      p1: "flush M p run = Ret p1" "wrote p run p1" by blast
    from room_append [OF r p1(2)] have r1: "room p1 (?e @ escaped s)" .
    from memappend_writes [OF assms(1) room_left [OF r1]] sprintbuf_writes [OF assms(1) room_left [OF r1]]
    obtain n p2 where p2: "wrote p1 ?e p2"
      "if short_escape c = None then sprintbuf M p1 (Some ?e) = Ret (n, p2)
       else printbuf_memappend M p1 ?e = Ret (n, p2)" by (cases "short_escape c = None") auto
    from room_append [OF r1 p2(1)] have "room p2 ([] @ escaped s)" by simp
    from Cons.IH [OF this] obtain p3 where
      p3: "json_escape_str M p2 [] s = Ret (0, p3)" "wrote p2 (escaped s) p3" by auto
    have "json_escape_str M p run (c # s) = Ret (0, p3)"
      using False p1(1) p2(2) p3(1) by (auto simp: escape_char_def split: option.splits)
    then show ?thesis using wrote_trans [OF p1(2) wrote_trans [OF p2(1) p3(2)]] by (simp add: cons)
  qed
qed

definition prints :: "(printbuf \<Rightarrow> printbuf outcome) \<Rightarrow> string \<Rightarrow> bool" where
  "prints f s \<longleftrightarrow> (\<forall>p. room p s \<longrightarrow> (\<exists>p'. f p = Ret p' \<and> wrote p s p'))"

definition answers :: "(printbuf \<Rightarrow> (int \<times> printbuf) outcome) \<Rightarrow> string \<Rightarrow> bool" where
  "answers f s \<longleftrightarrow> (\<forall>p. room p s \<longrightarrow> (\<exists>n p'. f p = Ret (n, p') \<and> 0 \<le> n \<and> wrote p s p'))"

lemma printsD: "prints f s \<Longrightarrow> room p s \<Longrightarrow> \<exists>p'. f p = Ret p' \<and> wrote p s p'"
  by (simp add: prints_def)

lemma answersD: "answers f s \<Longrightarrow> room p s \<Longrightarrow> \<exists>n p'. f p = Ret (n, p') \<and> 0 \<le> n \<and> wrote p s p'"
  by (simp add: answers_def)

lemma prints_prints:
  assumes "prints f s" "prints g t"
  shows "prints (\<lambda>p. and_then (f p) g) (s @ t)"
  unfolding prints_def
proof (intro allI impI)
  fix p assume r: "room p (s @ t)"
  from printsD [OF assms(1) room_left [OF r]] obtain p1 where p1: "f p = Ret p1" "wrote p s p1" by blast
  from printsD [OF assms(2) room_append [OF r p1(2)]] p1 wrote_trans [OF p1(2)]
  show "\<exists>p'. and_then (f p) g = Ret p' \<and> wrote p (s @ t) p'" by auto
qed

lemma prints_answers:
  assumes "prints f s" "answers g t"
  shows "answers (\<lambda>p. and_then (f p) g) (s @ t)"
  unfolding answers_def
proof (intro allI impI)
  fix p assume r: "room p (s @ t)"
  from printsD [OF assms(1) room_left [OF r]] obtain p1 where p1: "f p = Ret p1" "wrote p s p1" by blast
  from answersD [OF assms(2) room_append [OF r p1(2)]] p1 wrote_trans [OF p1(2)]
  show "\<exists>n p'. and_then (f p) g = Ret (n, p') \<and> 0 \<le> n \<and> wrote p (s @ t) p'" by auto
qed

lemma answers_prints:
  assumes "answers f s" "prints g t"
  shows "prints (\<lambda>p. and_then (f p) (\<lambda>(_, p1). g p1)) (s @ t)"
  unfolding prints_def
proof (intro allI impI)
  fix p assume r: "room p (s @ t)"
  from answersD [OF assms(1) room_left [OF r]] obtain n p1 where p1: "f p = Ret (n, p1)" "wrote p s p1" by blast
  from printsD [OF assms(2) room_append [OF r p1(2)]] p1 wrote_trans [OF p1(2)]
  show "\<exists>p'. and_then (f p) (\<lambda>(_, p1). g p1) = Ret p' \<and> wrote p (s @ t) p'" by auto
qed

lemma answers_answers:
  assumes "answers f s" "answers g t"
  shows "answers (\<lambda>p. and_then (f p) (\<lambda>(_, p1). g p1)) (s @ t)"
  unfolding answers_def
proof (intro allI impI)
  fix p assume r: "room p (s @ t)"
  from answersD [OF assms(1) room_left [OF r]] obtain n p1 where p1: "f p = Ret (n, p1)" "wrote p s p1" by blast
  from answersD [OF assms(2) room_append [OF r p1(2)]] p1 wrote_trans [OF p1(2)]
  show "\<exists>n p'. and_then (f p) (\<lambda>(_, p1). g p1) = Ret (n, p') \<and> 0 \<le> n \<and> wrote p (s @ t) p'" by auto
qed

lemma prints_answer:
  assumes "prints f s"
  shows "answers (\<lambda>p. and_then (f p) (\<lambda>p1. Ret (0, p1))) s"
  using assms by (fastforce simp: prints_def answers_def)

lemma prints_nothing: "prints (\<lambda>p. Ret p) []"
  by (simp add: prints_def room_def wrote_refl)

lemma put_text_prints: "all_ok M \<Longrightarrow> prints (put_text M s) s"
  using put_text_writes by (auto simp: prints_def)

lemma sprintbuf_answers: "all_ok M \<Longrightarrow> answers (\<lambda>p. sprintbuf M p (Some s)) s"
  using sprintbuf_writes by (fastforce simp: answers_def)

lemma escape_answers: "all_ok M \<Longrightarrow> answers (\<lambda>p. json_escape_str M p [] s) (escaped s)"
  using escape_writes [of M _ "[]" s] by (fastforce simp: answers_def)

lemma string_answers:
  assumes "all_ok M"
  shows "answers (json_object_string_to_json_string M s) ([CHR 0x22] @ escaped s @ [CHR 0x22])"
  unfolding json_object_string_to_json_string_def [abs_def]
  by (intro prints_answers answers_answers prints_answer put_text_prints escape_answers assms)

lemma later_prints:
  "all_ok M \<Longrightarrow> prints (\<lambda>pb. if b then put_text M s pb else Ret pb) (if b then s else [])"
  using put_text_prints prints_nothing by (cases b) auto

lemma to_json_string_answers:
  assumes M: "all_ok M"
  shows "answers (to_json_string lc M v) (json_text lc v)"
    and "prints (object_entries lc M later es) (entries_text lc later es)"
    and "prints (array_entries lc M later vs) (items_text lc later vs)"
proof (induction lc v and lc later es and lc later vs rule: json_text_entries_text_items_text.induct)
  case (1 lc)
  then show ?case using sprintbuf_answers [OF M] by simp
next
  case (2 lc b)
  then show ?case using sprintbuf_answers [OF M]
    by (cases "b = 0") (simp_all add: json_object_boolean_to_json_string_def [abs_def])
next
  case (3 lc i)
  then show ?case using sprintbuf_answers [OF M] by (simp add: json_object_int_to_json_string_def [abs_def])
next
  case (4 lc d)
  then show ?case using sprintbuf_answers [OF M] by (simp add: json_object_double_to_json_string_def [abs_def])
next
  case (5 lc s)
  then show ?case using string_answers [OF M, of s] by simp
next
  case (6 lc es)
  then show ?case
    by (simp only: to_json_string.simps [abs_def] json_text.simps)
       (intro prints_answers put_text_prints sprintbuf_answers M)
next
  case (7 lc vs)
  then show ?case
    by (simp only: to_json_string.simps [abs_def] json_text.simps)
       (intro prints_answers put_text_prints sprintbuf_answers M)
next
  case (8 lc later)
  then show ?case by (simp add: prints_nothing object_entries.simps [abs_def])
next
  case (9 lc later k v es)
  then show ?case
    by (simp only: object_entries.simps [abs_def] entries_text.simps)
       (intro prints_prints answers_prints later_prints put_text_prints escape_answers M)
next
  case (10 lc later)
  then show ?case by (simp add: prints_nothing array_entries.simps [abs_def])
next
  case (11 lc later v vs)
  then show ?case
    by (simp only: array_entries.simps [abs_def] items_text.simps)
       (intro prints_prints answers_prints put_text_prints M)
qed

section \<open>Numbers are read back\<close>

lemma of_char_digit: "d < 10 \<Longrightarrow> (of_char (digit_char d) :: int) = 48 + int d"
  using of_nat_of_char [of "digit_char d", where ?'a = int] by (simp add: digit_char_def)

lemma dec_nat_digits: "dec_nat n \<noteq> [] \<and> (\<forall>c\<in>set (dec_nat n). is_digit c)"
proof (induction n rule: dec_nat.induct)
  case (1 n)
  then show ?case
    by (subst (1 2) dec_nat.simps) (auto simp: is_digit_def digit_char_def)
qed

lemma digits_value_snoc: "digits_value (s @ [c]) = 10 * digits_value s + (of_char c - 48)"
  by (simp add: digits_value_def)

lemma digits_value_dec_nat: "digits_value (dec_nat n) = int n"
proof (induction n rule: dec_nat.induct)
  case (1 n)
  have d: "of_char (digit_char (m mod 10)) = (48 + int (m mod 10))" for m
    by (rule of_char_digit) simp
  show ?case
  proof (cases "n < 10")
    case True
    then show ?thesis using d [of n] by (subst dec_nat.simps) (simp add: digits_value_def)
  next
    case False
    with 1 have "digits_value (dec_nat (n div 10)) = int (n div 10)" by simp
    moreover have "10 * int (n div 10) + int (n mod 10) = int n"
      by (metis mult_div_mod_eq of_nat_add of_nat_mult of_nat_numeral)
    ultimately show ?thesis using False d [of n] by (subst dec_nat.simps) (simp add: digits_value_snoc)
  qed
qed

lemma is_digit_facts: "is_digit c \<Longrightarrow> \<not> is_space c \<and> c \<noteq> CHR ''-'' \<and> c \<noteq> CHR ''+'' \<and> c \<noteq> CHR 0x00"
  by (auto simp: is_digit_def is_space_def)

lemma scan_dec_int:
  assumes "INT_MIN \<le> i" "i \<le> INT_MAX" "t = [] \<or> \<not> is_digit (hd t)"
  shows "scan_int (dec_int i @ t) = Ret (Some i)"
proof -
  let ?ds = "dec_nat (nat \<bar>i\<bar>)"
  obtain d ds where ds: "?ds = d # ds" "is_digit d" using dec_nat_digits [of "nat \<bar>i\<bar>"] by (cases ?ds) auto
  have "\<forall>c\<in>set (d # ds). is_digit c" using dec_nat_digits [of "nat \<bar>i\<bar>"] ds(1) by simp
  moreover have "takeWhile is_digit t = []" using assms(3) by (cases t) auto
  ultimately have tw: "takeWhile is_digit (ds @ t) = ds" by (simp add: takeWhile_append)
  have val: "digits_value (d # ds) = \<bar>i\<bar>" using digits_value_dec_nat [of "nat \<bar>i\<bar>"] ds(1) by simp
  have minus: "\<not> is_space CHR ''-''" by (simp add: is_space_def)
  show ?thesis
  proof (cases "i < 0")
    case True
    then have "dec_int i = CHR ''-'' # d # ds" using ds(1) by (simp add: dec_int_def)
    then show ?thesis using assms True minus ds(2) val by (simp add: scan_int_def Let_def tw)
  next
    case False
    then have "dec_int i = d # ds" using ds(1) by (simp add: dec_int_def)
    then show ?thesis using assms False ds(2) val is_digit_facts [OF ds(2)] by (simp add: scan_int_def Let_def tw)
  qed
qed

text \<open>Every \<open>int\<close> is printed with \<open>%d\<close> so that scanning the text with \<open>%d\<close> gives it back, the extreme
  values included.\<close>
theorem scan_printed_int:
  assumes "INT_MIN \<le> i" "i \<le> INT_MAX"
  shows "scan_int (dec_int i) = Ret (Some i)"
  using scan_dec_int [OF assms, of "[]"] by simp

lemma scan_printed_int_witness: "scan_int (dec_int (- 2147483648)) = Ret (Some (- 2147483648))"
  by (rule scan_printed_int) simp_all

section \<open>Properties of printing\<close>

definition nul_free :: "string \<Rightarrow> bool" where
  "nul_free s \<longleftrightarrow> CHR 0x00 \<notin> set s"

lemma nul_free_simps [simp]:
  "nul_free []" "nul_free (s @ t) \<longleftrightarrow> nul_free s \<and> nul_free t" "nul_free (c # s) \<longleftrightarrow> c \<noteq> CHR 0x00 \<and> nul_free s"
  by (auto simp: nul_free_def)

text \<open>Values without \<open>NUL\<close> characters: the C strings of the library.\<close>

fun c_strings :: "'d libc \<Rightarrow> 'd json \<Rightarrow> bool" where
  "c_strings lc (JDouble d) = nul_free (fmt_double lc d)"
| "c_strings lc (JString s) = nul_free s"
| "c_strings lc (JArray vs) = (\<forall>v\<in>set vs. c_strings lc v)"
| "c_strings lc (JObject es) = (\<forall>e\<in>set es. nul_free (fst e) \<and> c_strings lc (snd e))"
| "c_strings lc _ = True"

lemma hex_char_bounds: "n < 16 \<Longrightarrow> json_hex_chars ! n \<in> set json_hex_chars"
  by (rule nth_mem) (simp add: json_hex_chars_def)

lemma nul_free_escape_char: "c \<noteq> CHR 0x00 \<Longrightarrow> nul_free (escape_char c)"
proof -
  assume c: "c \<noteq> CHR 0x00"
  have hex: "CHR 0x00 \<notin> set json_hex_chars" by (simp add: json_hex_chars_def)
  show ?thesis
  proof (cases "short_escape c = None \<and> of_char c < (32 :: nat)")
    case True
    have "json_hex_chars ! (of_char c div 16) \<in> set json_hex_chars" "json_hex_chars ! (of_char c mod 16) \<in> set json_hex_chars"
      using True by (auto intro!: hex_char_bounds)
    with hex True show ?thesis by (auto simp: escape_char_def hex_escape_def)
  next
    case False
    with c show ?thesis by (auto simp: escape_char_def short_escape_def split: if_splits)
  qed
qed

lemma nul_free_escaped: "nul_free s \<Longrightarrow> nul_free (escaped s)"
  using nul_free_escape_char by (induction s) (auto simp: escaped_def)

lemma nul_free_dec_int: "nul_free (dec_int i)"
  using dec_nat_digits is_digit_facts by (fastforce simp: dec_int_def nul_free_def)

lemma nul_free_text:
  shows "c_strings lc v \<Longrightarrow> nul_free (json_text lc v)"
    and "(\<forall>e\<in>set es. nul_free (fst e) \<and> c_strings lc (snd e)) \<Longrightarrow> nul_free (entries_text lc later es)"
    and "(\<forall>v\<in>set vs. c_strings lc v) \<Longrightarrow> nul_free (items_text lc later vs)"
  by (induction lc v and lc later es and lc later vs rule: json_text_entries_text_items_text.induct)
     (auto simp: nul_free_escaped nul_free_dec_int)

lemma terminated_text:
  assumes "pb_inv p" "pb_terminated p" "nul_free (written p)"
  shows "takeWhile (\<lambda>c. c \<noteq> CHR 0x00) (pb_buf p) = written p"
proof -
  let ?n = "nat (pb_bpos p)"
  have "?n < length (pb_buf p)" using assms(1) by (auto simp: pb_inv_def)
  then have "pb_buf p = written p @ CHR 0x00 # drop (Suc ?n) (pb_buf p)"
    using assms(2) id_take_nth_drop [of ?n "pb_buf p"] by (simp add: written_def pb_terminated_def)
  moreover have "takeWhile (\<lambda>c. c \<noteq> CHR 0x00) (written p @ CHR 0x00 # t) = written p" for t
    using assms(3) by (subst takeWhile_append2) (auto simp: nul_free_def)
  ultimately show ?thesis by metis
qed

lemma new_fits: "printbuf_new M = Some p \<Longrightarrow> pb_fits p \<and> written p = []"
  by (auto simp: printbuf_new_def pb_fits_def pb_inv_def written_def split: if_splits)

lemma reset_fits: "pb_fits p \<Longrightarrow> pb_fits (printbuf_reset p) \<and> written (printbuf_reset p) = []"
  by (auto simp: printbuf_reset_def pb_fits_def pb_inv_def written_def)

lemma json_text_nonempty: "v = JNull \<or> (\<forall>d. v \<noteq> JDouble d) \<Longrightarrow> json_text lc v \<noteq> []"
  using dec_nat_digits by (cases v) (auto simp: dec_int_def)

lemma value_printed:
  assumes "all_ok M" "v \<noteq> JNull" "c_strings lc v" "json_text lc v \<noteq> []"
    and "length (json_text lc v) \<le> 2 ^ 28" "\<And>p. pb = Some p \<Longrightarrow> pb_fits p"
  shows "\<exists>p'. json_object_to_json_string lc M v pb = Ret (Some (json_text lc v), Some p') \<and> pb_fits p'"
proof -
  obtain p where p: "(case pb of None \<Rightarrow> printbuf_new M | Some p \<Rightarrow> Some (printbuf_reset p)) = Some p"
    "pb_fits p" "written p = []"
  proof (cases pb)
    case None
    obtain p where p: "printbuf_new M = Some p" using assms(1) by (simp add: printbuf_new_def all_ok_def)
    from new_fits [OF p] show ?thesis by (intro that [of p]) (auto simp: None p)
  next
    case (Some q)
    from reset_fits [OF assms(6) [OF Some]] show ?thesis by (intro that [of "printbuf_reset q"]) (auto simp: Some)
  qed
  then have "room p (json_text lc v)" using assms(5) by (simp add: room_def)
  from answersD [OF to_json_string_answers(1) [OF assms(1)] this] obtain n p' where
    p': "to_json_string lc M v p = Ret (n, p')" "0 \<le> n" "wrote p (json_text lc v) p'" by blast
  then have "written p' = json_text lc v" "pb_terminated p'" "pb_inv p'"
    using p(3) assms(4) by (auto simp: wrote_def pb_fits_def)
  with terminated_text [of p'] nul_free_text(1) [OF assms(3)] have
    "takeWhile (\<lambda>c. c \<noteq> CHR 0x00) (pb_buf p') = json_text lc v" by simp
  with p' p(1) assms(2) show ?thesis by (auto simp: json_object_to_json_string_def wrote_def)
qed

text \<open>C18. While memory lasts, a value is printed as its text: through a new buffer or a used one, across
  every growth of the buffer, the string handed out is the JSON text of the value.\<close>
theorem json_printed_as_text:
  assumes "all_ok M" "v \<noteq> JNull" "c_strings lc v" "json_text lc v \<noteq> []"
    and "length (json_text lc v) \<le> 2 ^ 28" "\<And>p. pb = Some p \<Longrightarrow> pb_fits p"
  shows "\<exists>p'. json_object_to_json_string lc M v pb = Ret (Some (json_text lc v), Some p') \<and> pb_fits p'"
  by (rule value_printed [OF assms])

definition unit_libc :: "unit libc" where
  "unit_libc = \<lparr>fmt_double = (\<lambda>_. ''0.000000''), scan_double = (\<lambda>_. Some ()), double_of_int = (\<lambda>_. ()),
     int_of_double = (\<lambda>_. Ret 0), double_nonzero = (\<lambda>_. False)\<rparr>"

definition sample_json :: "unit json" where
  "sample_json = JObject [(''a'', JArray [JInt 1, JNull]), (''b'', JString ''x/y'')]"

lemma json_printed_as_text_witness:
  "\<exists>p'. json_object_to_json_string unit_libc (all_memory CHR ''x'') sample_json None =
     Ret (Some (concat [''{ '', [CHR 0x22], ''a'', [CHR 0x22], '': [ 1, null ], '', [CHR 0x22], ''b'', [CHR 0x22],
       '': '', [CHR 0x22], ''x'', [CHR 0x5C], ''/y'', [CHR 0x22], '' }'']), Some p')"
proof -
  have "dec_int 1 = ''1''" by (simp add: dec_int_def dec_nat.simps digit_char_def char_of_eq_iff)
  then have t: "json_text unit_libc sample_json = concat [''{ '', [CHR 0x22], ''a'', [CHR 0x22], '': [ 1, null ], '',
      [CHR 0x22], ''b'', [CHR 0x22], '': '', [CHR 0x22], ''x'', [CHR 0x5C], ''/y'', [CHR 0x22], '' }'']"
    by (simp add: sample_json_def escaped_def escape_char_def short_escape_def)
  have "all_ok (all_memory CHR ''x'')" by (simp add: all_ok_def all_memory_def)
  from json_printed_as_text [OF this, of sample_json unit_libc None, unfolded t]
  show ?thesis by (auto simp: sample_json_def)
qed

text \<open>C20. Adding a key to an object, while memory suffices, one that is present or any one while the table has
  a slot that was never used: the old value, if any, is replaced and the pair is the last one; the value is found
  again under the key, and every other key keeps its value and its place.  Adding an absent key to
  a table without such a slot never returns, because the deletion in front searches for ever.\<close>
theorem json_object_add_get:
  assumes "lh_map_ok t"
  shows "if key \<in> fst ` set (lh_entries t) \<or> lh_has_empty t
    then \<exists>t' t''. json_object_object_add t key val = Ret t' \<and> lh_map_ok t' \<and>
      lh_entries t' = filter (\<lambda>e. fst e \<noteq> key) (lh_entries t) @ [(key, val)] \<and>
      json_object_object_get t' key = Ret (val, t'')
    else json_object_object_add t key val = Blocks"
proof (cases "key \<in> fst ` set (lh_entries t) \<or> lh_has_empty t")
  case True
  from lh.replace [OF assms this, of val] obtain t' where
    t': "json_object_object_add t key val = Ret t'" "lh_map_ok t'"
      "lh_entries t' = filter (\<lambda>e. fst e \<noteq> key) (lh_entries t) @ [(key, val)]"
    by (auto simp: json_object_object_add_def)
  from t'(3) have "(key, val) \<in> set (lh_entries t')" by simp
  from lh.find_present [OF t'(2) this] obtain t'' where
    "lh_table_lookup t' key = Ret (val, t'')" by blast
  then have "json_object_object_get t' key = Ret (val, t'')" by (simp add: json_object_object_get_def)
  with t' True show ?thesis by auto
next
  case False
  then show ?thesis using lh.replace_stuck [OF assms, of key val] by (simp add: json_object_object_add_def)
qed

lemma json_object_add_get_witness:
  "\<exists>t' t''. json_object_object_add json_object_new_object ''k'' (Some (7 :: nat)) = Ret t' \<and>
     lh_entries t' = [(''k'', Some 7)] \<and> json_object_object_get t' ''k'' = Ret (Some 7, t'')"
proof -
  let ?t = "json_object_new_object :: (string, nat) lh_table"
  have "lh_map_ok ?t \<and> lh_entries ?t = []"
    unfolding json_object_new_object_def lh_kchar_table_new_def JSON_OBJECT_DEF_HASH_ENTRIES_def
    by (rule new_map_ok) simp
  moreover have "lh_has_empty ?t"
    by (simp add: json_object_new_object_def lh_kchar_table_new_def JSON_OBJECT_DEF_HASH_ENTRIES_def
        lh_has_empty_def lh_table_new_def empty_entry_def)
  ultimately show ?thesis using json_object_add_get [of ?t "''k''" "Some 7"] by auto
qed

end
