(* ===== verification/Json_Tokener.thy ===== *)
theory Json_Tokener
  imports Json_Object
begin

text \<open>
  The incremental JSON parser \<open>json-c-0.9/json_tokener.c\<close>: one step function per state of its machine,
  the stack of levels, the two macros that read and advance, and the loop with its \<open>redo_char\<close>.  The
  text collected in \<open>tok->pb\<close> is the string written to that buffer; \<open>str\<close> is always \<open>char_offset\<close>
  characters into the input, and reading outside the input is undefined.

  Three limits of the C code are not in the model.  \<open>char_offset\<close> is an \<open>int\<close> there and has no bound here, so the model is
  the code for texts that are shorter than 2 to the 31st.  Appending to \<open>tok->pb\<close> always succeeds here; in the code
  it fails when memory does, which the tokener does not look at.  And a character
  above 127, which is negative where \<open>char\<close> is signed, is handed to \<open>isspace\<close>, whose answer the standard then leaves
  open: it is taken to be no, as in the C library the stack is built with.
\<close>

datatype tok_state =
    S_eatws | S_start | S_finish | S_null | S_comment_start | S_comment | S_comment_eol | S_comment_end
  | S_string | S_string_escape | S_escape_unicode | S_boolean | S_number
  | S_array | S_array_add | S_array_sep
  | S_object_field_start | S_object_field | S_object_field_end | S_object_value | S_object_value_add
  | S_object_sep

datatype tok_error =
    E_success | E_continue | E_depth | E_parse_eof | E_parse_unexpected | E_parse_null | E_parse_boolean
  | E_parse_number | E_parse_array | E_parse_object_key_name | E_parse_object_key_sep
  | E_parse_object_value_sep | E_parse_string | E_parse_comment

record 'd srec =
  sr_state :: tok_state
  sr_saved :: tok_state
  sr_current :: "'d json"
  sr_field :: "string option"

definition JSON_TOKENER_MAX_DEPTH :: nat where
  "JSON_TOKENER_MAX_DEPTH = 32"

record 'd tokener =
  tk_pb :: string
  tk_depth :: nat
  tk_is_double :: bool
  tk_st_pos :: nat
  tk_char_offset :: nat
  tk_err :: tok_error
  tk_ucs :: "32 word"
  tk_quote :: char
  tk_stack :: "'d srec list"

text \<open>The local variables \<open>c\<close> and \<open>obj\<close> beside the tokener.\<close>

record 'd mach =
  mc_c :: char
  mc_obj :: "'d json"
  mc_tok :: "'d tokener"

section \<open>Levels\<close>

definition fresh_level :: "'d srec" where
  "fresh_level = \<lparr>sr_state = S_eatws, sr_saved = S_start, sr_current = JNull, sr_field = None\<rparr>"

definition json_tokener_reset_level :: "nat \<Rightarrow> 'd tokener \<Rightarrow> 'd tokener" where
  "json_tokener_reset_level depth tok = tok\<lparr>tk_stack := (tk_stack tok)[depth := fresh_level]\<rparr>"

fun reset_levels :: "nat \<Rightarrow> 'd tokener \<Rightarrow> 'd tokener" where
  "reset_levels 0 tok = json_tokener_reset_level 0 tok"
| "reset_levels (Suc i) tok = reset_levels i (json_tokener_reset_level (Suc i) tok)"

definition json_tokener_reset :: "'d tokener \<Rightarrow> 'd tokener" where
  "json_tokener_reset tok = (reset_levels (tk_depth tok) tok)\<lparr>tk_depth := 0, tk_err := E_success\<rparr>"

definition json_tokener_new :: "'d tokener" where
  "json_tokener_new = json_tokener_reset
     \<lparr>tk_pb = [], tk_depth = 0, tk_is_double = False, tk_st_pos = 0, tk_char_offset = 0, tk_err = E_success,
      tk_ucs = 0, tk_quote = CHR 0x00,
      tk_stack = replicate JSON_TOKENER_MAX_DEPTH
        \<lparr>sr_state = S_eatws, sr_saved = S_eatws, sr_current = JNull, sr_field = None\<rparr>\<rparr>"

text \<open>The macros \<open>state\<close>, \<open>saved_state\<close>, \<open>current\<close> and \<open>obj_field_name\<close> name the fields of the top level.\<close>

definition level :: "'d mach \<Rightarrow> 'd srec" where
  "level m = tk_stack (mc_tok m) ! tk_depth (mc_tok m)"

definition set_level :: "('d srec \<Rightarrow> 'd srec) \<Rightarrow> 'd mach \<Rightarrow> 'd mach" where
  "set_level f m =
     m\<lparr>mc_tok := (mc_tok m)\<lparr>tk_stack := (tk_stack (mc_tok m))[tk_depth (mc_tok m) := f (level m)]\<rparr>\<rparr>"

definition set_state :: "tok_state \<Rightarrow> 'd mach \<Rightarrow> 'd mach" where
  "set_state s = set_level (\<lambda>r. r\<lparr>sr_state := s\<rparr>)"

definition after_ws :: "tok_state \<Rightarrow> 'd mach \<Rightarrow> 'd mach" where
  "after_ws s = set_level (\<lambda>r. r\<lparr>sr_state := S_eatws, sr_saved := s\<rparr>)"

definition set_current :: "'d json \<Rightarrow> 'd mach \<Rightarrow> 'd mach" where
  "set_current v = set_level (\<lambda>r. r\<lparr>sr_current := v\<rparr>)"

definition pb_set :: "string \<Rightarrow> 'd mach \<Rightarrow> 'd mach" where
  "pb_set s m = m\<lparr>mc_tok := (mc_tok m)\<lparr>tk_pb := s\<rparr>\<rparr>"

definition pb_add :: "string \<Rightarrow> 'd mach \<Rightarrow> 'd mach" where
  "pb_add s m = pb_set (tk_pb (mc_tok m) @ s) m"

definition set_err :: "tok_error \<Rightarrow> 'd mach \<Rightarrow> 'd mach" where
  "set_err e m = m\<lparr>mc_tok := (mc_tok m)\<lparr>tk_err := e\<rparr>\<rparr>"

definition set_st_pos :: "nat \<Rightarrow> 'd mach \<Rightarrow> 'd mach" where
  "set_st_pos n m = m\<lparr>mc_tok := (mc_tok m)\<lparr>tk_st_pos := n\<rparr>\<rparr>"

section \<open>Reading\<close>

definition POP_CHAR :: "string \<Rightarrow> int \<Rightarrow> 'd mach \<Rightarrow> (bool \<times> 'd mach) outcome" where
  "POP_CHAR buf len m =
     (if int (tk_char_offset (mc_tok m)) = len then
        Ret (False, set_err (if tk_depth (mc_tok m) = 0 \<and> sr_state (level m) = S_eatws \<and>
                                sr_saved (level m) = S_finish then E_success else E_continue) m)
      else if tk_char_offset (mc_tok m) < length buf then
        Ret (True, m\<lparr>mc_c := buf ! tk_char_offset (mc_tok m)\<rparr>)
      else Undefined)"

definition ADVANCE_CHAR :: "'d mach \<Rightarrow> bool \<times> 'd mach" where
  "ADVANCE_CHAR m =
     (mc_c m \<noteq> CHR 0x00, m\<lparr>mc_tok := (mc_tok m)\<lparr>tk_char_offset := tk_char_offset (mc_tok m) + 1\<rparr>\<rparr>)"

text \<open>The condition \<open>ADVANCE_CHAR(str, tok) && POP_CHAR(c, tok)\<close> of every loop.\<close>

definition next_char :: "string \<Rightarrow> int \<Rightarrow> 'd mach \<Rightarrow> (bool \<times> 'd mach) outcome" where
  "next_char buf len m =
     (case ADVANCE_CHAR m of (go, m1) \<Rightarrow> if go then POP_CHAR buf len m1 else Ret (False, m1))"

lemma next_char_measure:
  "next_char buf len m = Ret (True, m1) \<Longrightarrow>
     length buf - tk_char_offset (mc_tok m1) < length buf - tk_char_offset (mc_tok m)"
  by (auto simp: next_char_def ADVANCE_CHAR_def POP_CHAR_def split: if_splits)

text \<open>The tight loops that pass over characters: the flag is false when the input ended in one; the string
  is what lies between \<open>case_start\<close> and \<open>str\<close>.\<close>

function scan_run ::
    "string \<Rightarrow> int \<Rightarrow> (char \<Rightarrow> bool) \<Rightarrow> 'd mach \<Rightarrow> string \<Rightarrow> (bool \<times> string \<times> 'd mach) outcome" where
  "scan_run buf len P m acc =
     (if P (mc_c m) then
        (case next_char buf len m of
           Ret (True, m1) \<Rightarrow> scan_run buf len P m1 (acc @ [mc_c m])
         | Ret (False, m1) \<Rightarrow> Ret (False, acc @ [mc_c m], m1)
         | Blocks \<Rightarrow> Blocks
         | Aborts \<Rightarrow> Aborts
         | Undefined \<Rightarrow> Undefined)
      else Ret (True, acc, m))"
  by pat_completeness auto

termination
  by (relation "measure (\<lambda>(buf, len, P, m, acc). length buf - tk_char_offset (mc_tok m))")
     (auto dest: next_char_measure)

declare scan_run.simps [simp del]

section \<open>The states\<close>

datatype 'd step = Redo "'d mach" | Break "'d mach" | Goto_out "'d mach" | Bad

definition after_scan ::
    "(bool \<times> string \<times> 'd mach) outcome \<Rightarrow> (string \<Rightarrow> 'd mach \<Rightarrow> 'd step) \<Rightarrow> (string \<Rightarrow> 'd mach \<Rightarrow> 'd mach) \<Rightarrow>
     'd step" where
  "after_scan r stopped ended =
     (case r of
        Ret (True, s, m) \<Rightarrow> stopped s m
      | Ret (False, s, m) \<Rightarrow> Goto_out (ended s m)
      | _ \<Rightarrow> Bad)"

definition step_eatws :: "string \<Rightarrow> int \<Rightarrow> 'd mach \<Rightarrow> 'd step" where
  "step_eatws buf len m =
     after_scan (scan_run buf len is_space m [])
       (\<lambda>_ m1. if mc_c m1 = CHR ''/'' then Break (set_state S_comment_start (pb_set [mc_c m1] m1))
               else Redo (set_state (sr_saved (level m1)) m1))
       (\<lambda>_ m1. m1)"

definition step_start :: "'d mach \<Rightarrow> 'd step" where
  "step_start m =
     (let c = mc_c m in
      if c = CHR ''{'' then Break (set_current (JObject []) (after_ws S_object_field_start m))
      else if c = CHR ''['' then Break (set_current (JArray []) (after_ws S_array m))
      else if c = CHR ''N'' \<or> c = CHR ''n'' then Redo (set_st_pos 0 (pb_set [] (set_state S_null m)))
      else if c = CHR 0x22 \<or> c = CHR 0x27 then
        Break (let m1 = pb_set [] (set_state S_string m) in m1\<lparr>mc_tok := (mc_tok m1)\<lparr>tk_quote := c\<rparr>\<rparr>)
      else if c = CHR ''T'' \<or> c = CHR ''t'' \<or> c = CHR ''F'' \<or> c = CHR ''f'' then
        Redo (set_st_pos 0 (pb_set [] (set_state S_boolean m)))
      else if is_digit c \<or> c = CHR ''-'' then
        Redo (let m1 = pb_set [] (set_state S_number m) in m1\<lparr>mc_tok := (mc_tok m1)\<lparr>tk_is_double := False\<rparr>\<rparr>)
      else Goto_out (set_err E_parse_unexpected m))"

definition step_finish :: "'d mach \<Rightarrow> 'd step" where
  "step_finish m =
     (let t = mc_tok m in
      if tk_depth t = 0 then Goto_out m
      else Redo (m\<lparr>mc_obj := sr_current (level m),
                   mc_tok := (json_tokener_reset_level (tk_depth t) t)\<lparr>tk_depth := tk_depth t - 1\<rparr>\<rparr>))"

definition to_lower :: "char \<Rightarrow> char" where
  "to_lower c = (if 65 \<le> (of_char c :: nat) \<and> (of_char c :: nat) \<le> 90 then char_of (of_char c + 32 :: nat) else c)"

definition strncasecmp_eq :: "string \<Rightarrow> string \<Rightarrow> nat \<Rightarrow> bool" where
  "strncasecmp_eq s t n \<longleftrightarrow> map to_lower (take n s) = map to_lower (take n t)"

definition step_null :: "'d mach \<Rightarrow> 'd step" where
  "step_null m =
     (let m1 = pb_add [mc_c m] m; t = mc_tok m1 in
      if strncasecmp_eq ''null'' (tk_pb t) (min (tk_st_pos t + 1) 4) then
        (if tk_st_pos t = 4 then Redo (after_ws S_finish (set_current JNull m1))
         else Break (set_st_pos (tk_st_pos t + 1) m1))
      else Goto_out (set_err E_parse_null m1))"

definition step_comment_start :: "'d mach \<Rightarrow> 'd step" where
  "step_comment_start m =
     (if mc_c m = CHR ''*'' then Break (pb_add [mc_c m] (set_state S_comment m))
      else if mc_c m = CHR ''/'' then Break (pb_add [mc_c m] (set_state S_comment_eol m))
      else Goto_out (set_err E_parse_comment m))"

definition step_comment :: "string \<Rightarrow> int \<Rightarrow> 'd mach \<Rightarrow> 'd step" where
  "step_comment buf len m =
     after_scan (scan_run buf len (\<lambda>c. c \<noteq> CHR ''*'') m [])
       (\<lambda>s m1. Break (set_state S_comment_end (pb_add (s @ [mc_c m1]) m1)))
       pb_add"

definition step_comment_eol :: "string \<Rightarrow> int \<Rightarrow> 'd mach \<Rightarrow> 'd step" where
  "step_comment_eol buf len m =
     after_scan (scan_run buf len (\<lambda>c. c \<noteq> CHR 0x0A) m [])
       (\<lambda>s m1. Break (set_state S_eatws (pb_add s m1)))
       pb_add"

definition step_comment_end :: "'d mach \<Rightarrow> 'd step" where
  "step_comment_end m =
     (let m1 = pb_add [mc_c m] m in
      if mc_c m = CHR ''/'' then Break (set_state S_eatws m1) else Break (set_state S_comment m1))"

text \<open>What \<open>strdup\<close> makes of a buffer: the characters before the first \<open>NUL\<close>.\<close>

definition c_string :: "string \<Rightarrow> string" where
  "c_string = takeWhile (\<lambda>c. c \<noteq> CHR 0x00)"

definition in_string :: "'d mach \<Rightarrow> char \<Rightarrow> bool" where
  "in_string m c \<longleftrightarrow> c \<noteq> tk_quote (mc_tok m) \<and> c \<noteq> CHR 0x5C"

definition step_string :: "string \<Rightarrow> int \<Rightarrow> 'd mach \<Rightarrow> 'd step" where
  "step_string buf len m =
     after_scan (scan_run buf len (in_string m) m [])
       (\<lambda>s m1. let m2 = pb_add s m1 in
          if mc_c m1 = tk_quote (mc_tok m1) then
            Break (after_ws S_finish (set_current (JString (c_string (tk_pb (mc_tok m2)))) m2))
          else Break (set_level (\<lambda>r. r\<lparr>sr_saved := S_string, sr_state := S_string_escape\<rparr>) m2))
       pb_add"

definition step_string_escape :: "'d mach \<Rightarrow> 'd step" where
  "step_string_escape m =
     (let c = mc_c m; plain = (\<lambda>s. Break (set_state (sr_saved (level m)) (pb_add s m))) in
      if c = CHR 0x22 \<or> c = CHR 0x5C \<or> c = CHR ''/'' then plain [c]
      else if c = CHR ''b'' then plain [CHR 0x08]
      else if c = CHR ''n'' then plain [CHR 0x0A]
      else if c = CHR ''r'' then plain [CHR 0x0D]
      else if c = CHR ''t'' then plain [CHR 0x09]
      else if c = CHR ''u'' then
        Break (let m1 = set_st_pos 0 (set_state S_escape_unicode m) in m1\<lparr>mc_tok := (mc_tok m1)\<lparr>tk_ucs := 0\<rparr>\<rparr>)
      else Goto_out (set_err E_parse_string m))"

definition hexdigit :: "char \<Rightarrow> 32 word" where
  "hexdigit c =
     (if of_char c \<le> (57 :: int) then word_of_int (of_char c - 48) else (of_char c AND 7) + 9)"

text \<open>\<open>strchr\<close> also finds the terminator of \<open>json_hex_chars\<close>.\<close>

definition in_hex_chars :: "char \<Rightarrow> bool" where
  "in_hex_chars c \<longleftrightarrow> c = CHR 0x00 \<or> c \<in> set json_hex_chars"

definition uchar :: "32 word \<Rightarrow> char" where
  "uchar w = char_of (unat w)"

definition utf8 :: "32 word \<Rightarrow> string" where
  "utf8 u =
     (if u < 0x80 then [uchar u]
      else if u < 0x800 then [uchar (0xc0 OR drop_bit 6 u), uchar (0x80 OR (u AND 0x3f))]
      else [uchar (0xe0 OR drop_bit 12 u), uchar (0x80 OR (drop_bit 6 u AND 0x3f)), uchar (0x80 OR (u AND 0x3f))])"

definition set_ucs :: "32 word \<Rightarrow> 'd mach \<Rightarrow> 'd mach" where
  "set_ucs u m = m\<lparr>mc_tok := (mc_tok m)\<lparr>tk_ucs := u\<rparr>\<rparr>"

text \<open>One digit: the sum, the position and, after the fourth, the bytes of the character.\<close>

definition add_digit :: "'d mach \<Rightarrow> 'd mach" where
  "add_digit m =
     set_st_pos (tk_st_pos (mc_tok m) + 1)
       (set_ucs (tk_ucs (mc_tok m) + push_bit ((3 - tk_st_pos (mc_tok m)) * 4) (hexdigit (mc_c m))) m)"

lemma next_char_st_pos:
  "next_char buf len m = Ret (b, m1) \<Longrightarrow> tk_st_pos (mc_tok m1) = tk_st_pos (mc_tok m)"
  by (auto simp: next_char_def ADVANCE_CHAR_def POP_CHAR_def set_err_def split: if_splits)

function step_escape_unicode :: "string \<Rightarrow> int \<Rightarrow> 'd mach \<Rightarrow> 'd step" where
  "step_escape_unicode buf len m =
     (if tk_st_pos (mc_tok m) > 3 then Bad
      else if \<not> in_hex_chars (mc_c m) then Goto_out (set_err E_parse_string m)
      else
        (let m1 = add_digit m in
         if tk_st_pos (mc_tok m1) = 4 then
           Break (set_state (sr_saved (level m1)) (pb_add (utf8 (tk_ucs (mc_tok m1))) m1))
         else (case next_char buf len m1 of
             Ret (True, m2) \<Rightarrow> step_escape_unicode buf len m2
           | Ret (False, m2) \<Rightarrow> Goto_out m2
           | _ \<Rightarrow> Bad)))"
  by pat_completeness auto

termination
  by (relation "measure (\<lambda>(buf, len, m). 4 - tk_st_pos (mc_tok m))")
     (auto dest: next_char_st_pos simp: add_digit_def set_st_pos_def)

declare step_escape_unicode.simps [simp del]

definition step_boolean :: "'d mach \<Rightarrow> 'd step" where
  "step_boolean m =
     (let m1 = pb_add [mc_c m] m; t = mc_tok m1 in
      if strncasecmp_eq ''true'' (tk_pb t) (min (tk_st_pos t + 1) 4) then
        (if tk_st_pos t = 4 then Redo (after_ws S_finish (set_current (JBool 1) m1))
         else Break (set_st_pos (tk_st_pos t + 1) m1))
      else if strncasecmp_eq ''false'' (tk_pb t) (min (tk_st_pos t + 1) 5) then
        (if tk_st_pos t = 5 then Redo (after_ws S_finish (set_current (JBool 0) m1))
         else Break (set_st_pos (tk_st_pos t + 1) m1))
      else Goto_out (set_err E_parse_boolean m1))"

definition in_number_chars :: "char \<Rightarrow> bool" where
  "in_number_chars c \<longleftrightarrow> c \<noteq> CHR 0x00 \<and> c \<in> set json_number_chars"

text \<open>The characters passed over, noting a \<open>.\<close> or an \<open>e\<close> among them.\<close>

definition number_add :: "string \<Rightarrow> 'd mach \<Rightarrow> 'd mach" where
  "number_add s m =
     (let m1 = pb_add s m in
      m1\<lparr>mc_tok := (mc_tok m1)\<lparr>tk_is_double :=
         (tk_is_double (mc_tok m1) \<or> CHR ''.'' \<in> set s \<or> CHR ''e'' \<in> set s)\<rparr>\<rparr>)"

definition step_number :: "'d libc \<Rightarrow> string \<Rightarrow> int \<Rightarrow> 'd mach \<Rightarrow> 'd step" where
  "step_number lc buf len m =
     after_scan (scan_run buf len in_number_chars m [])
       (\<lambda>s m1. let m2 = number_add s m1; tx = c_string (tk_pb (mc_tok m2));
                   done = (\<lambda>v. Redo (after_ws S_finish (set_current v m2)));
                   failed = Goto_out (set_err E_parse_number m2) in
          if \<not> tk_is_double (mc_tok m2) then
            (case scan_int tx of
               Ret (Some i) \<Rightarrow> done (JInt i)
             | Ret None \<Rightarrow> failed
             | _ \<Rightarrow> Bad)
          else (case scan_double lc tx of Some d \<Rightarrow> done (JDouble d) | None \<Rightarrow> failed))
       number_add"

text \<open>Entering the next level, for an item of an array or the value of a pair.\<close>

definition push_level :: "tok_state \<Rightarrow> 'd mach \<Rightarrow> 'd step" where
  "push_level s m =
     (if tk_depth (mc_tok m) \<ge> JSON_TOKENER_MAX_DEPTH - 1 then Goto_out (set_err E_depth m)
      else (let m1 = set_state s m; d = tk_depth (mc_tok m1) + 1 in
            Redo (m1\<lparr>mc_tok := json_tokener_reset_level d ((mc_tok m1)\<lparr>tk_depth := d\<rparr>)\<rparr>)))"

definition step_array :: "'d mach \<Rightarrow> 'd step" where
  "step_array m =
     (if mc_c m = CHR '']'' then Break (after_ws S_finish m) else push_level S_array_add m)"

definition step_array_add :: "'d mach \<Rightarrow> 'd step" where
  "step_array_add m =
     (case sr_current (level m) of
        JArray vs \<Rightarrow> Redo (after_ws S_array_sep (set_current (JArray (vs @ [mc_obj m])) m))
      | _ \<Rightarrow> Bad)"

definition step_array_sep :: "'d mach \<Rightarrow> 'd step" where
  "step_array_sep m =
     (if mc_c m = CHR '']'' then Break (after_ws S_finish m)
      else if mc_c m = CHR '','' then Break (after_ws S_array m)
      else Goto_out (set_err E_parse_array m))"

definition step_object_field_start :: "'d mach \<Rightarrow> 'd step" where
  "step_object_field_start m =
     (if mc_c m = CHR ''}'' then Break (after_ws S_finish m)
      else if mc_c m = CHR 0x22 \<or> mc_c m = CHR 0x27 then
        Break (let m1 = pb_set [] (set_state S_object_field m) in
               m1\<lparr>mc_tok := (mc_tok m1)\<lparr>tk_quote := mc_c m\<rparr>\<rparr>)
      else Goto_out (set_err E_parse_object_key_name m))"

definition step_object_field :: "string \<Rightarrow> int \<Rightarrow> 'd mach \<Rightarrow> 'd step" where
  "step_object_field buf len m =
     after_scan (scan_run buf len (in_string m) m [])
       (\<lambda>s m1. let m2 = pb_add s m1 in
          if mc_c m1 = tk_quote (mc_tok m1) then
            Break (after_ws S_object_field_end
              (set_level (\<lambda>r. r\<lparr>sr_field := Some (c_string (tk_pb (mc_tok m2)))\<rparr>) m2))
          else Break (set_level (\<lambda>r. r\<lparr>sr_saved := S_object_field, sr_state := S_string_escape\<rparr>) m2))
       pb_add"

definition step_object_field_end :: "'d mach \<Rightarrow> 'd step" where
  "step_object_field_end m =
     (if mc_c m = CHR '':'' then Break (after_ws S_object_value m)
      else Goto_out (set_err E_parse_object_key_sep m))"

definition step_object_value :: "'d mach \<Rightarrow> 'd step" where
  "step_object_value m = push_level S_object_value_add m"

text \<open>\<open>json_object_object_add\<close> on the pairs, as \<open>json_object_add_get\<close> has it on the table.\<close>

definition object_put :: "string \<Rightarrow> 'd json \<Rightarrow> (string \<times> 'd json) list \<Rightarrow> (string \<times> 'd json) list" where
  "object_put k v es = filter (\<lambda>e. fst e \<noteq> k) es @ [(k, v)]"

definition step_object_value_add :: "'d mach \<Rightarrow> 'd step" where
  "step_object_value_add m =
     (case (sr_current (level m), sr_field (level m)) of
        (JObject es, Some k) \<Rightarrow>
          Redo (after_ws S_object_sep (set_level (\<lambda>r. r\<lparr>sr_field := None\<rparr>)
            (set_current (JObject (object_put k (mc_obj m) es)) m)))
      | _ \<Rightarrow> Bad)"

definition step_object_sep :: "'d mach \<Rightarrow> 'd step" where
  "step_object_sep m =
     (if mc_c m = CHR ''}'' then Break (after_ws S_finish m)
      else if mc_c m = CHR '','' then Break (after_ws S_object_field_start m)
      else Goto_out (set_err E_parse_object_value_sep m))"

definition tok_step :: "'d libc \<Rightarrow> string \<Rightarrow> int \<Rightarrow> 'd mach \<Rightarrow> 'd step" where
  "tok_step lc buf len m =
     (case sr_state (level m) of
        S_eatws \<Rightarrow> step_eatws buf len m
      | S_start \<Rightarrow> step_start m
      | S_finish \<Rightarrow> step_finish m
      | S_null \<Rightarrow> step_null m
      | S_comment_start \<Rightarrow> step_comment_start m
      | S_comment \<Rightarrow> step_comment buf len m
      | S_comment_eol \<Rightarrow> step_comment_eol buf len m
      | S_comment_end \<Rightarrow> step_comment_end m
      | S_string \<Rightarrow> step_string buf len m
      | S_string_escape \<Rightarrow> step_string_escape m
      | S_escape_unicode \<Rightarrow> step_escape_unicode buf len m
      | S_boolean \<Rightarrow> step_boolean m
      | S_number \<Rightarrow> step_number lc buf len m
      | S_array \<Rightarrow> step_array m
      | S_array_add \<Rightarrow> step_array_add m
      | S_array_sep \<Rightarrow> step_array_sep m
      | S_object_field_start \<Rightarrow> step_object_field_start m
      | S_object_field \<Rightarrow> step_object_field buf len m
      | S_object_field_end \<Rightarrow> step_object_field_end m
      | S_object_value \<Rightarrow> step_object_value m
      | S_object_value_add \<Rightarrow> step_object_value_add m
      | S_object_sep \<Rightarrow> step_object_sep m)"

section \<open>The loop and its callers\<close>

partial_function (option) parse_loop :: "'d libc \<Rightarrow> string \<Rightarrow> int \<Rightarrow> 'd mach \<Rightarrow> 'd mach outcome option" where
  "parse_loop lc buf len m =
     (case tok_step lc buf len m of
        Bad \<Rightarrow> Some Undefined
      | Goto_out m1 \<Rightarrow> Some (Ret m1)
      | Redo m1 \<Rightarrow> parse_loop lc buf len m1
      | Break m1 \<Rightarrow>
          (case next_char buf len m1 of
             Ret (go, m2) \<Rightarrow> if go then parse_loop lc buf len m2 else Some (Ret m2)
           | _ \<Rightarrow> Some Undefined))"

declare parse_loop.simps [code]

definition at_out :: "'d mach \<Rightarrow> 'd json \<times> 'd tokener" where
  "at_out m =
     (let m1 = (if mc_c m = CHR 0x00 \<and> sr_state (level m) \<noteq> S_finish \<and> sr_saved (level m) \<noteq> S_finish
                then set_err E_parse_eof m else m) in
      (if tk_err (mc_tok m1) = E_success then sr_current (level m1) else JNull, mc_tok m1))"

definition json_tokener_parse_ex ::
    "'d libc \<Rightarrow> 'd tokener \<Rightarrow> string \<Rightarrow> int \<Rightarrow> ('d json \<times> 'd tokener) outcome" where
  "json_tokener_parse_ex lc tok buf len =
     and_then (POP_CHAR buf len
         \<lparr>mc_c = CHR 0x01, mc_obj = JNull, mc_tok = tok\<lparr>tk_char_offset := 0, tk_err := E_success\<rparr>\<rparr>) (\<lambda>(go, m).
       and_then (if go then and_then (of_run (parse_loop lc buf len m)) (\<lambda>r. r) else Ret m) (\<lambda>m1.
         Ret (at_out m1)))"

text \<open>\<open>json_tokener_parse\<close> answers the value or an error pointer; its argument is a C string.\<close>

definition json_tokener_parse :: "'d libc \<Rightarrow> string \<Rightarrow> (tok_error + 'd json) outcome" where
  "json_tokener_parse lc s =
     and_then (json_tokener_parse_ex lc json_tokener_new (s @ [CHR 0x00]) (- 1)) (\<lambda>(v, tok).
       Ret (if tk_err tok = E_success then Inr v else Inl (tk_err tok)))"

end
