(* ===== verification/Tokener_Runs.thy ===== *)
theory Tokener_Runs
  imports Json_Tokener
begin

text \<open>
  Runs of the parser over a C string: what each update of the tokener leaves alone, how the tight loops
  pass over text, and what the machine does on the pieces of JSON that are not nested - white space,
  the literals, escapes and the bodies of strings.
\<close>

named_theorems mach_simps "what the updates of the tokener leave alone"

section \<open>Positions in a C string\<close>

definition good :: "'d mach \<Rightarrow> bool" where
  "good m \<longleftrightarrow> length (tk_stack (mc_tok m)) = 32 \<and> tk_depth (mc_tok m) < 32"

text \<open>The machine stands before the text \<open>s\<close>, its first character read.\<close>

definition reads :: "string \<Rightarrow> 'd mach \<Rightarrow> string \<Rightarrow> bool" where
  "reads buf m s \<longleftrightarrow> drop (tk_char_offset (mc_tok m)) buf = s \<and> s \<noteq> [] \<and> mc_c m = hd s"

definition moved :: "char \<Rightarrow> 'd mach \<Rightarrow> 'd mach" where
  "moved y m = m\<lparr>mc_c := y, mc_tok := (mc_tok m)\<lparr>tk_char_offset := tk_char_offset (mc_tok m) + 1\<rparr>\<rparr>"

lemmas mach_defs = set_state_def after_ws_def set_current_def set_level_def pb_add_def pb_set_def
  set_st_pos_def set_ucs_def moved_def

lemma level_set_level [mach_simps]: "good m \<Longrightarrow> level (set_level f m) = f (level m)"
  by (simp add: good_def level_def set_level_def)

lemma level_keep [mach_simps]:
  "level (pb_set x m) = level m" "level (pb_add x m) = level m" "level (set_st_pos n m) = level m"
  "level (moved y m) = level m" "level (m\<lparr>mc_c := y\<rparr>) = level m" "level (m\<lparr>mc_obj := v\<rparr>) = level m"
  "level (set_ucs u m) = level m"
  "level (m\<lparr>mc_tok := (mc_tok m)\<lparr>tk_quote := q\<rparr>\<rparr>) = level m"
  "level (m\<lparr>mc_tok := (mc_tok m)\<lparr>tk_is_double := b\<rparr>\<rparr>) = level m"
  by (simp_all add: level_def mach_defs)

lemma good_keep [mach_simps]:
  "good (set_level f m) = good m" "good (pb_set x m) = good m" "good (pb_add x m) = good m"
  "good (set_st_pos n m) = good m" "good (moved y m) = good m" "good (set_ucs u m) = good m"
  "good (m\<lparr>mc_tok := (mc_tok m)\<lparr>tk_quote := q\<rparr>\<rparr>) = good m"
  "good (m\<lparr>mc_tok := (mc_tok m)\<lparr>tk_is_double := b\<rparr>\<rparr>) = good m"
  by (simp_all add: good_def mach_defs)

lemma reads_keep [mach_simps]:
  "reads buf (set_level f m) s = reads buf m s" "reads buf (pb_set x m) s = reads buf m s"
  "reads buf (pb_add x m) s = reads buf m s" "reads buf (set_st_pos n m) s = reads buf m s"
  "reads buf (set_ucs u m) s = reads buf m s" "reads buf (m\<lparr>mc_obj := v\<rparr>) s = reads buf m s"
  "reads buf (m\<lparr>mc_tok := (mc_tok m)\<lparr>tk_quote := q\<rparr>\<rparr>) s = reads buf m s"
  "reads buf (m\<lparr>mc_tok := (mc_tok m)\<lparr>tk_is_double := b\<rparr>\<rparr>) s = reads buf m s"
  by (simp_all add: reads_def mach_defs)

lemma c_keep [mach_simps]:
  "mc_c (set_level f m) = mc_c m" "mc_c (pb_set x m) = mc_c m" "mc_c (pb_add x m) = mc_c m"
  "mc_c (set_st_pos n m) = mc_c m" "mc_c (set_ucs u m) = mc_c m" "mc_c (moved y m) = y"
  by (simp_all add: mach_defs)

lemma pb_keep [mach_simps]:
  "tk_pb (mc_tok (set_level f m)) = tk_pb (mc_tok m)" "tk_pb (mc_tok (pb_set x m)) = x"
  "tk_pb (mc_tok (pb_add x m)) = tk_pb (mc_tok m) @ x" "tk_pb (mc_tok (set_st_pos n m)) = tk_pb (mc_tok m)"
  "tk_pb (mc_tok (set_ucs u m)) = tk_pb (mc_tok m)" "tk_pb (mc_tok (moved y m)) = tk_pb (mc_tok m)"
  by (simp_all add: mach_defs)

lemma st_pos_keep [mach_simps]:
  "tk_st_pos (mc_tok (set_level f m)) = tk_st_pos (mc_tok m)" "tk_st_pos (mc_tok (pb_set x m)) = tk_st_pos (mc_tok m)"
  "tk_st_pos (mc_tok (pb_add x m)) = tk_st_pos (mc_tok m)" "tk_st_pos (mc_tok (set_st_pos n m)) = n"
  "tk_st_pos (mc_tok (set_ucs u m)) = tk_st_pos (mc_tok m)" "tk_st_pos (mc_tok (moved y m)) = tk_st_pos (mc_tok m)"
  by (simp_all add: mach_defs)

lemma quote_keep [mach_simps]:
  "tk_quote (mc_tok (set_level f m)) = tk_quote (mc_tok m)" "tk_quote (mc_tok (pb_set x m)) = tk_quote (mc_tok m)"
  "tk_quote (mc_tok (pb_add x m)) = tk_quote (mc_tok m)" "tk_quote (mc_tok (set_st_pos n m)) = tk_quote (mc_tok m)"
  "tk_quote (mc_tok (set_ucs u m)) = tk_quote (mc_tok m)" "tk_quote (mc_tok (moved y m)) = tk_quote (mc_tok m)"
  by (simp_all add: mach_defs)

lemma depth_keep [mach_simps]:
  "tk_depth (mc_tok (set_level f m)) = tk_depth (mc_tok m)" "tk_depth (mc_tok (pb_set x m)) = tk_depth (mc_tok m)"
  "tk_depth (mc_tok (pb_add x m)) = tk_depth (mc_tok m)" "tk_depth (mc_tok (set_st_pos n m)) = tk_depth (mc_tok m)"
  "tk_depth (mc_tok (set_ucs u m)) = tk_depth (mc_tok m)" "tk_depth (mc_tok (moved y m)) = tk_depth (mc_tok m)"
  by (simp_all add: mach_defs)

lemma next_char_reads:
  assumes "reads buf m (c # y # s)" "c \<noteq> CHR 0x00"
  shows "next_char buf (- 1) m = Ret (True, moved y m) \<and> reads buf (moved y m) (y # s)"
proof -
  let ?i = "tk_char_offset (mc_tok m)"
  have d: "drop ?i buf = c # y # s" and c: "mc_c m = c" using assms(1) by (auto simp: reads_def)
  have "drop (Suc ?i) buf = tl (drop ?i buf)" by (simp add: drop_Suc tl_drop)
  then have d': "drop (Suc ?i) buf = y # s" using d by simp
  then have "Suc ?i < length buf" "buf ! Suc ?i = y"
    by (metis drop_all leI list.distinct(1)) (metis d' nth_via_drop)
  then show ?thesis using d' c assms(2)
    by (simp add: next_char_def ADVANCE_CHAR_def POP_CHAR_def moved_def reads_def)
qed

section \<open>The tight loops\<close>

definition moved_n :: "nat \<Rightarrow> char \<Rightarrow> 'd mach \<Rightarrow> 'd mach" where
  "moved_n n y m = m\<lparr>mc_c := y, mc_tok := (mc_tok m)\<lparr>tk_char_offset := tk_char_offset (mc_tok m) + n\<rparr>\<rparr>"

lemma moved_n_keep [mach_simps]:
  "level (moved_n n y m) = level m" "good (moved_n n y m) = good m" "mc_c (moved_n n y m) = y"
  "tk_pb (mc_tok (moved_n n y m)) = tk_pb (mc_tok m)" "tk_quote (mc_tok (moved_n n y m)) = tk_quote (mc_tok m)"
  "tk_depth (mc_tok (moved_n n y m)) = tk_depth (mc_tok m)"
  "tk_is_double (mc_tok (moved_n n y m)) = tk_is_double (mc_tok m)"
  by (simp_all add: level_def good_def moved_n_def)

lemma moved_n_moved: "moved_n n y (moved x m) = moved_n (Suc n) y m"
  by (simp add: moved_n_def moved_def)

lemma moved_n_0: "mc_c m = y \<Longrightarrow> moved_n 0 y m = m"
  by (simp add: moved_n_def)

lemma scan_over:
  assumes "reads buf m (xs @ y # s)" "\<forall>x\<in>set xs. P x \<and> x \<noteq> CHR 0x00" "\<not> P y"
  shows "scan_run buf (- 1) P m acc = Ret (True, acc @ xs, moved_n (length xs) y m) \<and>
    reads buf (moved_n (length xs) y m) (y # s)"
  using assms
proof (induction xs arbitrary: m acc)
  case Nil
  then have "mc_c m = y" by (simp add: reads_def)
  with Nil show ?case by (simp add: scan_run.simps moved_n_0)
next
  case (Cons x xs)
  obtain z t where zt: "xs @ y # s = z # t" by (cases "xs @ y # s") auto
  have x: "P x" "x \<noteq> CHR 0x00" "mc_c m = x" using Cons.prems by (auto simp: reads_def)
  have "reads buf m (x # z # t)" using Cons.prems(1) zt by simp
  from next_char_reads [OF this x(2)] have n: "next_char buf (- 1) m = Ret (True, moved z m)"
    "reads buf (moved z m) (xs @ y # s)" by (simp_all add: zt)
  from Cons.IH [OF n(2)] Cons.prems(2,3) x(1,3) n(1) show ?case
    by (subst scan_run.simps) (simp add: moved_n_moved)
qed

section \<open>Runs of the loop\<close>

definition leads :: "'d libc \<Rightarrow> string \<Rightarrow> 'd mach \<Rightarrow> 'd mach \<Rightarrow> bool" where
  "leads lc buf m m' \<longleftrightarrow> parse_loop lc buf (- 1) m = parse_loop lc buf (- 1) m'"

lemma leads_refl: "leads lc buf m m"
  by (simp add: leads_def)

lemma leads_trans [trans]: "leads lc buf m m1 \<Longrightarrow> leads lc buf m1 m2 \<Longrightarrow> leads lc buf m m2"
  by (simp add: leads_def)

lemma leads_redo: "tok_step lc buf (- 1) m = Redo m1 \<Longrightarrow> leads lc buf m m1"
  by (simp add: leads_def parse_loop.simps [of lc buf "- 1" m])

lemma leads_break:
  assumes "tok_step lc buf (- 1) m = Break m1" "reads buf m1 (c # y # s)" "c \<noteq> CHR 0x00"
  shows "leads lc buf m (moved y m1) \<and> reads buf (moved y m1) (y # s)"
  using next_char_reads [OF assms(2,3)] assms(1)
  by (simp add: leads_def parse_loop.simps [of lc buf "- 1" m])

text \<open>What a run leaves alone: the levels below, the depth and the error.\<close>

definition keeps :: "'d mach \<Rightarrow> 'd mach \<Rightarrow> bool" where
  "keeps m m' \<longleftrightarrow> good m' \<and> tk_depth (mc_tok m') = tk_depth (mc_tok m) \<and> tk_err (mc_tok m') = tk_err (mc_tok m) \<and>
     (\<forall>i < tk_depth (mc_tok m). tk_stack (mc_tok m') ! i = tk_stack (mc_tok m) ! i)"

lemma keeps_refl: "good m \<Longrightarrow> keeps m m"
  by (simp add: keeps_def)

lemma keeps_trans [trans]: "keeps m m1 \<Longrightarrow> keeps m1 m2 \<Longrightarrow> keeps m m2"
  by (simp add: keeps_def)

lemma keeps_updates [mach_simps]:
  "keeps m (set_level f m') = keeps m m'" "keeps m (pb_set x m') = keeps m m'" "keeps m (pb_add x m') = keeps m m'"
  "keeps m (set_st_pos n m') = keeps m m'" "keeps m (set_ucs u m') = keeps m m'" "keeps m (moved y m') = keeps m m'"
  "keeps m (moved_n n y m') = keeps m m'"
  "keeps m (m'\<lparr>mc_tok := (mc_tok m')\<lparr>tk_quote := q\<rparr>\<rparr>) = keeps m m'"
  "keeps m (m'\<lparr>mc_tok := (mc_tok m')\<lparr>tk_is_double := b\<rparr>\<rparr>) = keeps m m'"
  by (auto simp: keeps_def good_def mach_defs moved_n_def)

definition arrives :: "'d libc \<Rightarrow> string \<Rightarrow> 'd mach \<Rightarrow> 'd srec \<Rightarrow> string \<Rightarrow> bool" where
  "arrives lc buf m r s \<longleftrightarrow> (\<exists>m'. leads lc buf m m' \<and> keeps m m' \<and> level m' = r \<and> reads buf m' s)"

lemma arrivesI:
  "leads lc buf m m' \<Longrightarrow> keeps m m' \<Longrightarrow> level m' = r \<Longrightarrow> reads buf m' s \<Longrightarrow> arrives lc buf m r s"
  by (auto simp: arrives_def)

lemma arrives_leads: "leads lc buf m m1 \<Longrightarrow> keeps m m1 \<Longrightarrow> arrives lc buf m1 r s \<Longrightarrow> arrives lc buf m r s"
  using leads_trans keeps_trans by (fastforce simp: arrives_def)

lemma arrives_trans:
  assumes "arrives lc buf m r s"
    and "\<And>m'. keeps m m' \<Longrightarrow> good m' \<Longrightarrow> level m' = r \<Longrightarrow> reads buf m' s \<Longrightarrow> arrives lc buf m' r' s'"
  shows "arrives lc buf m r' s'"
proof -
  from assms(1) obtain m' where m': "leads lc buf m m'" "keeps m m'" "level m' = r" "reads buf m' s"
    unfolding arrives_def by blast
  have "good m'" using m'(2) by (simp add: keeps_def)
  from arrives_leads [OF m'(1,2) assms(2) [OF m'(2) this m'(3,4)]] show ?thesis .
qed

section \<open>Strings\<close>

lemma set_level_twice: "set_level f (set_level g m) = set_level (\<lambda>r. f (g r)) m"
proof (cases "tk_depth (mc_tok m) < length (tk_stack (mc_tok m))")
  case True
  then show ?thesis by (simp add: set_level_def level_def)
next
  case False
  then show ?thesis by (simp add: set_level_def list_update_beyond)
qed

definition closing :: "tok_state \<Rightarrow> string \<Rightarrow> 'd srec \<Rightarrow> 'd srec" where
  "closing X p r =
     (if X = S_string then r\<lparr>sr_current := JString (c_string p), sr_state := S_eatws, sr_saved := S_finish\<rparr>
      else r\<lparr>sr_field := Some (c_string p), sr_state := S_eatws, sr_saved := S_object_field_end\<rparr>)"

lemma tok_step_text:
  assumes "sr_state (level m) = X" "X = S_string \<or> X = S_object_field"
  shows "tok_step lc buf len m = after_scan (scan_run buf len (in_string m) m [])
     (\<lambda>s m1. if mc_c m1 = tk_quote (mc_tok m1) then
          Break (set_level (closing X (tk_pb (mc_tok m1) @ s)) (pb_add s m1))
        else Break (set_level (\<lambda>r. r\<lparr>sr_saved := X, sr_state := S_string_escape\<rparr>) (pb_add s m1)))
     pb_add"
  using assms
  by (auto simp: tok_step_def step_string_def step_object_field_def Let_def mach_simps closing_def [abs_def] after_ws_def
      set_current_def set_level_twice cong: if_cong)


lemma hex_digit_value: "n < 16 \<Longrightarrow> hexdigit (json_hex_chars ! n) = word_of_nat n \<and> in_hex_chars (json_hex_chars ! n) \<and>
    json_hex_chars ! n \<noteq> CHR 0x00"
proof -
  have "list_all (\<lambda>n. hexdigit (json_hex_chars ! n) = word_of_nat n \<and> in_hex_chars (json_hex_chars ! n) \<and>
      json_hex_chars ! n \<noteq> CHR 0x00) [15, 14, 13, 12, 11, 10, 9, 8, 7, 6, 5, 4, 3, 2, 1, 0]"
    by (simp add: hexdigit_def in_hex_chars_def json_hex_chars_def)
  moreover have "n \<in> set [15, 14, 13, 12, 11, 10, 9, 8, 7, 6, 5, 4, 3, 2, 1, 0]" if "n < 16" using that by (simp del: One_nat_def) presburger
  ultimately show "n < 16 \<Longrightarrow> ?thesis" unfolding list_all_iff by blast
qed

lemma utf8_ascii:
  assumes "(of_char c :: nat) < 128"
  shows "utf8 (word_of_nat (of_char c)) = [c]"
proof -
  have "unat (word_of_nat (of_char c) :: 32 word) = of_char c" using assms by (simp add: unat_of_nat)
  moreover from this have "(word_of_nat (of_char c) :: 32 word) < 128" using assms by (simp add: word_less_nat_alt)
  ultimately show ?thesis by (simp add: utf8_def uchar_def)
qed

lemma ucs_sum:
  fixes n :: nat
  assumes "n < 32"
  shows "push_bit 4 (word_of_nat (n div 16)) + word_of_nat (n mod 16) = (word_of_nat n :: 32 word)"
proof -
  have "(word_of_nat n :: 32 word) = word_of_nat (16 * (n div 16) + n mod 16)" by simp
  also have "\<dots> = push_bit 4 (word_of_nat (n div 16)) + word_of_nat (n mod 16)"
    unfolding of_nat_add of_nat_mult by (simp add: push_bit_eq_mult)
  finally show ?thesis by simp
qed

text \<open>One hexadecimal digit that is not the last.\<close>

lemma escape_digit:
  assumes "tk_st_pos (mc_tok m) < 3" "in_hex_chars c" "c \<noteq> CHR 0x00" "reads buf m (c # y # s)"
  shows "step_escape_unicode buf (- 1) m = step_escape_unicode buf (- 1) (moved y (add_digit m)) \<and>
    reads buf (moved y (add_digit m)) (y # s)"
proof -
  have c: "mc_c m = c" using assms(4) by (simp add: reads_def)
  have "reads buf (add_digit m) (c # y # s)" using assms(4) by (simp add: add_digit_def mach_simps)
  from next_char_reads [OF this assms(3)] show ?thesis
    using assms(1,2) c
    by (subst step_escape_unicode.simps) (simp add: add_digit_def mach_simps Let_def)
qed

lemma ucs_keep [mach_simps]:
  "tk_ucs (mc_tok (set_level f m)) = tk_ucs (mc_tok m)" "tk_ucs (mc_tok (set_st_pos n m)) = tk_ucs (mc_tok m)"
  "tk_ucs (mc_tok (moved y m)) = tk_ucs (mc_tok m)" "tk_ucs (mc_tok (set_ucs u m)) = u"
  "tk_ucs (mc_tok (pb_add x m)) = tk_ucs (mc_tok m)"
  by (simp_all add: mach_defs)

lemma add_digit_keep [mach_simps]:
  "level (add_digit m) = level m" "good (add_digit m) = good m" "reads buf (add_digit m) s = reads buf m s"
  "tk_pb (mc_tok (add_digit m)) = tk_pb (mc_tok m)" "tk_st_pos (mc_tok (add_digit m)) = Suc (tk_st_pos (mc_tok m))"
  "tk_ucs (mc_tok (add_digit m)) = tk_ucs (mc_tok m) + push_bit ((3 - tk_st_pos (mc_tok m)) * 4) (hexdigit (mc_c m))"
  "tk_quote (mc_tok (add_digit m)) = tk_quote (mc_tok m)" "keeps m' (add_digit m) = keeps m' m"
  "mc_c (add_digit m) = mc_c m"
  by (simp_all add: add_digit_def mach_simps)

lemma escape_control:
  assumes "tk_st_pos (mc_tok m) = 0" "tk_ucs (mc_tok m) = 0" "(of_char c :: nat) < 32"
    and "reads buf m (drop 2 (hex_escape c) @ s)" "good m"
  shows "\<exists>m'. step_escape_unicode buf (- 1) m = Break (set_state (sr_saved (level m)) (pb_add [c] m')) \<and>
    reads buf m' (json_hex_chars ! (of_char c mod 16) # s) \<and> level m' = level m \<and> good m' \<and>
    tk_pb (mc_tok m') = tk_pb (mc_tok m) \<and> tk_quote (mc_tok m') = tk_quote (mc_tok m) \<and> keeps m m'"
proof -
  let ?n = "of_char c :: nat"
  let ?a = "json_hex_chars ! (?n div 16)" and ?b = "json_hex_chars ! (?n mod 16)"
  have n: "?n div 16 < 16" "?n mod 16 < 16" using assms(3) by simp_all
  have zero: "in_hex_chars CHR ''0''" "hexdigit CHR ''0'' = 0"
    by (simp_all add: in_hex_chars_def json_hex_chars_def hexdigit_def)
  have r0: "reads buf m (CHR ''0'' # CHR ''0'' # ?a # ?b # s)" using assms(4) by (simp add: hex_escape_def numeral_2_eq_2)
  from escape_digit [OF _ zero(1) _ r0] assms(1) obtain m1 where
    m1: "m1 = moved CHR ''0'' (add_digit m)" "step_escape_unicode buf (- 1) m = step_escape_unicode buf (- 1) m1"
      "reads buf m1 (CHR ''0'' # ?a # ?b # s)" by simp
  from escape_digit [OF _ zero(1) _ m1(3)] assms(1) obtain m2 where
    m2: "m2 = moved ?a (add_digit m1)" "step_escape_unicode buf (- 1) m1 = step_escape_unicode buf (- 1) m2"
      "reads buf m2 (?a # ?b # s)" by (simp add: m1(1) mach_simps)
  from escape_digit [OF _ _ _ m2(3)] assms(1) hex_digit_value [OF n(1)] obtain m3 where
    m3: "m3 = moved ?b (add_digit m2)" "step_escape_unicode buf (- 1) m2 = step_escape_unicode buf (- 1) m3"
      "reads buf m3 (?b # s)" by (simp add: m1(1) m2(1) mach_simps)
  have c: "mc_c m = CHR ''0''" "mc_c m3 = ?b" using r0 m3(3) by (simp_all add: reads_def)
  have st: "tk_st_pos (mc_tok m3) = 3" by (simp add: m1(1) m2(1) m3(1) mach_simps assms(1))
  have ucs: "tk_ucs (mc_tok (add_digit m3)) = word_of_nat ?n"
    using hex_digit_value [OF n(1)] hex_digit_value [OF n(2)] ucs_sum [OF assms(3)]
    by (simp add: m1(1) m2(1) m3(1) mach_simps assms(1,2) c zero)
  have "step_escape_unicode buf (- 1) m3 =
      Break (set_state (sr_saved (level (add_digit m3))) (pb_add (utf8 (tk_ucs (mc_tok (add_digit m3)))) (add_digit m3)))"
    using st hex_digit_value [OF n(2)] by (subst step_escape_unicode.simps) (simp add: mach_simps Let_def c)
  also have "utf8 (tk_ucs (mc_tok (add_digit m3))) = [c]" using ucs utf8_ascii [of c] assms(3) by simp
  finally have "step_escape_unicode buf (- 1) m = Break (set_state (sr_saved (level m)) (pb_add [c] (add_digit m3)))"
    using m1(2) m2(2) m3(2) by (simp add: m1(1) m2(1) m3(1) mach_simps)
  then show ?thesis
    using m3(3) assms(5) keeps_refl [OF assms(5)]
    by (intro exI [of _ "add_digit m3"]) (simp add: m1(1) m2(1) m3(1) mach_simps)
qed

definition plain :: "char \<Rightarrow> bool" where
  "plain c \<longleftrightarrow> escape_char c = [c] \<and> c \<noteq> CHR 0x22 \<and> c \<noteq> CHR 0x5C"

lemma escaped_plain: "\<forall>x\<in>set xs. plain x \<Longrightarrow> escaped (xs @ t) = xs @ escaped t"
  by (induction xs) (auto simp: escaped_def plain_def)

lemma short_escape_form: "short_escape c = Some e \<Longrightarrow> \<exists>x. e = [CHR 0x5C, x]"
  by (auto simp: short_escape_def split: if_splits)

lemma not_plain:
  assumes "\<not> plain c"
  shows "(\<exists>e. escape_char c = [CHR 0x5C, e] \<and> short_escape c = Some [CHR 0x5C, e]) \<or>
    escape_char c = hex_escape c \<and> (of_char c :: nat) < 32"
proof (cases "short_escape c")
  case None
  have "short_escape CHR 0x22 \<noteq> None" "short_escape CHR 0x5C \<noteq> None" by (simp_all add: short_escape_def)
  with None have "c \<noteq> CHR 0x22" "c \<noteq> CHR 0x5C" by auto
  with assms None show ?thesis by (auto simp: plain_def escape_char_def split: if_splits)
next
  case (Some e)
  from short_escape_form [OF Some] obtain x where "e = [CHR 0x5C, x]" by blast
  with Some show ?thesis by (simp add: escape_char_def)
qed

text \<open>An escape: from the backslash to the character after it, with the text of the character added.\<close>

lemma run_escape:
  assumes c: "\<not> plain c" "c \<noteq> CHR 0x00" and good: "good m"
    and st: "sr_state (level m) = S_string_escape" "sr_saved (level m) = X"
    and r: "reads buf m (tl (escape_char c) @ y # s)"
  shows "\<exists>m'. leads lc buf m m' \<and> keeps m m' \<and> level m' = (level m)\<lparr>sr_state := X\<rparr> \<and> reads buf m' (y # s) \<and>
    tk_pb (mc_tok m') = tk_pb (mc_tok m) @ [c] \<and> tk_quote (mc_tok m') = tk_quote (mc_tok m)"
  using not_plain [OF c(1)]
proof (elim disjE exE conjE)
  fix e assume e: "escape_char c = [CHR 0x5C, e]" "short_escape c = Some [CHR 0x5C, e]"
  have r': "reads buf m (e # y # s)" using r by (simp add: e)
  then have "mc_c m = e" by (simp add: reads_def)
  moreover have "e \<noteq> CHR 0x00" using e(2) by (auto simp: short_escape_def split: if_splits)
  ultimately have step: "tok_step lc buf (- 1) m = Break (set_state X (pb_add [c] m))"
    using e(2) st by (auto simp: tok_step_def step_string_escape_def short_escape_def Let_def split: if_splits)
  have "reads buf (set_state X (pb_add [c] m)) (e # y # s)" using r' by (simp add: set_state_def mach_simps)
  from leads_break [OF step this \<open>e \<noteq> CHR 0x00\<close>] show ?thesis
    using good keeps_refl [OF good]
    by (intro exI [of _ "moved y (set_state X (pb_add [c] m))"]) (simp add: set_state_def mach_simps)
next
  assume e: "escape_char c = hex_escape c" "(of_char c :: nat) < 32"
  let ?d = "drop 2 (hex_escape c)"
  have r': "reads buf m (CHR ''u'' # CHR ''0'' # tl ?d @ y # s)" using r
    by (simp add: e hex_escape_def numeral_2_eq_2)
  then have u: "mc_c m = CHR ''u''" by (simp add: reads_def)
  let ?m1 = "set_ucs 0 (set_st_pos 0 (set_state S_escape_unicode m))"
  have "tok_step lc buf (- 1) m = Break ?m1"
    using st u by (simp add: tok_step_def step_string_escape_def Let_def set_ucs_def)
  moreover have "reads buf ?m1 (CHR ''u'' # CHR ''0'' # tl ?d @ y # s)" using r' by (simp add: set_state_def mach_simps)
  ultimately have m2: "leads lc buf m (moved CHR ''0'' ?m1)" "reads buf (moved CHR ''0'' ?m1) (?d @ y # s)"
    using leads_break [of lc buf m ?m1] by (auto simp: hex_escape_def numeral_2_eq_2)
  let ?m2 = "moved CHR ''0'' ?m1"
  have lev: "level ?m2 = (level m)\<lparr>sr_state := S_escape_unicode\<rparr>" "good ?m2" "keeps m ?m2"
    using good keeps_refl [OF good] by (simp_all add: set_state_def mach_simps)
  from escape_control [of ?m2 c buf "y # s"] e(2) m2(2) lev(2) obtain m3 where
    m3: "step_escape_unicode buf (- 1) ?m2 = Break (set_state (sr_saved (level ?m2)) (pb_add [c] m3))"
      "reads buf m3 (json_hex_chars ! (of_char c mod 16) # y # s)" "level m3 = level ?m2" "good m3"
      "tk_pb (mc_tok m3) = tk_pb (mc_tok m)" "tk_quote (mc_tok m3) = tk_quote (mc_tok m)" "keeps ?m2 m3"
    by (auto simp: mach_simps set_state_def)
  let ?m4 = "set_state X (pb_add [c] m3)"
  have "tok_step lc buf (- 1) ?m2 = Break ?m4"
    using m3(1) lev(1) st by (simp add: tok_step_def)
  moreover have "reads buf ?m4 (json_hex_chars ! (of_char c mod 16) # y # s)" using m3(2) by (simp add: set_state_def mach_simps)
  moreover have "json_hex_chars ! (of_char c mod 16) \<noteq> CHR 0x00" using hex_digit_value [of "of_char c mod 16"] by simp
  ultimately have "leads lc buf ?m2 (moved y ?m4)" "reads buf (moved y ?m4) (y # s)" using leads_break by blast+
  with m2(1) lev m3 keeps_trans [OF lev(3) m3(7)] show ?thesis
    by (intro exI [of _ "moved y ?m4"]) (auto simp: set_state_def mach_simps intro: leads_trans)
qed

lemma string_body:
  assumes "good m" "sr_state (level m) = X" "X = S_string \<or> X = S_object_field"
    and "tk_quote (mc_tok m) = CHR 0x22" "nul_free s" "reads buf m (escaped s @ CHR 0x22 # y # t)"
  shows "\<exists>r. sr_current r = sr_current (level m) \<and> sr_field r = sr_field (level m) \<and>
    arrives lc buf m (closing X (tk_pb (mc_tok m) @ s) r) (y # t)"
  using assms
proof (induction "length s" arbitrary: s m rule: less_induct)
  case less
  define xs where "xs = takeWhile plain s"
  define s' where "s' = dropWhile plain s"
  have s: "s = xs @ s'" and xs: "\<forall>x\<in>set xs. plain x" by (auto simp: xs_def s'_def dest: set_takeWhileD)
  have nul: "\<forall>x\<in>set xs. x \<noteq> CHR 0x00" using less.prems(5) by (auto simp: s nul_free_def)
  have quote: "tk_quote (mc_tok m) = CHR 0x22" by fact
  have pin: "\<forall>x\<in>set xs. in_string m x \<and> x \<noteq> CHR 0x00" using xs nul by (simp add: in_string_def plain_def quote)
  note step = tok_step_text [OF less.prems(2,3), of lc buf "- 1"]
  show ?case
  proof (cases s')
    case Nil
    then have r: "reads buf m (xs @ CHR 0x22 # y # t)"
      using less.prems(6) escaped_plain [OF xs, of "[]"] by (simp add: s escaped_def)
    have "\<not> in_string m CHR 0x22" by (simp add: in_string_def quote)
    note sc = scan_over [OF r pin this, of "[]"]
    let ?m1 = "moved_n (length xs) CHR 0x22 m"
    let ?m2 = "set_level (closing X (tk_pb (mc_tok m) @ s)) (pb_add xs ?m1)"
    have "tok_step lc buf (- 1) m = Break ?m2"
      using step sc quote by (simp add: after_scan_def mach_simps s Nil)
    moreover have "reads buf ?m2 (CHR 0x22 # y # t)" using sc by (simp add: mach_simps)
    ultimately have "leads lc buf m (moved y ?m2)" "reads buf (moved y ?m2) (y # t)" using leads_break by fastforce+
    then have "arrives lc buf m (closing X (tk_pb (mc_tok m) @ s) (level m)) (y # t)"
      using less.prems(1) keeps_refl [OF less.prems(1)] by (intro arrivesI) (simp_all add: mach_simps)
    then show ?thesis by blast
  next
    case (Cons c s'')
    have c: "\<not> plain c" using Cons by (simp add: s'_def dropWhile_eq_Cons_conv)
    have c0: "c \<noteq> CHR 0x00" "nul_free s''" using less.prems(5) by (simp_all add: s Cons)
    obtain e where e: "escape_char c = CHR 0x5C # e" using not_plain [OF c] by (auto simp: hex_escape_def)
    obtain z w where zw: "e @ escaped s'' @ CHR 0x22 # y # t = z # w" by (cases "e @ escaped s'' @ CHR 0x22 # y # t") auto
    have esc: "escaped s = xs @ CHR 0x5C # e @ escaped s''"
      using escaped_plain [OF xs, of s'] e by (simp add: s Cons escaped_def)
    have r: "reads buf m (xs @ CHR 0x5C # z # w)" using less.prems(6) zw by (simp add: esc)
    have "\<not> in_string m CHR 0x5C" by (simp add: in_string_def)
    note sc = scan_over [OF r pin this, of "[]"]
    let ?m1 = "moved_n (length xs) CHR 0x5C m"
    let ?m2 = "set_level (\<lambda>r. r\<lparr>sr_saved := X, sr_state := S_string_escape\<rparr>) (pb_add xs ?m1)"
    have "tok_step lc buf (- 1) m = Break ?m2"
      using step sc quote by (simp add: after_scan_def mach_simps)
    moreover have "reads buf ?m2 (CHR 0x5C # z # w)" using sc by (simp add: mach_simps)
    ultimately have l2: "leads lc buf m (moved z ?m2)" "reads buf (moved z ?m2) (z # w)" using leads_break by fastforce+
    let ?m3 = "moved z ?m2"
    have lev: "level ?m3 = (level m)\<lparr>sr_saved := X, sr_state := S_string_escape\<rparr>" "good ?m3" "keeps m ?m3"
      "tk_pb (mc_tok ?m3) = tk_pb (mc_tok m) @ xs" "tk_quote (mc_tok ?m3) = CHR 0x22"
      using less.prems(1) quote keeps_refl [OF less.prems(1)] by (simp_all add: mach_simps)
    obtain y' t' where yt: "escaped s'' @ CHR 0x22 # y # t = y' # t'" by (cases "escaped s'' @ CHR 0x22 # y # t") auto
    have "reads buf ?m3 (tl (escape_char c) @ y' # t')" using l2(2) zw yt by (simp add: e)
    from run_escape [OF c c0(1) lev(2) _ _ this, of X lc] lev obtain m4 where
      m4: "leads lc buf ?m3 m4" "keeps ?m3 m4" "level m4 = (level ?m3)\<lparr>sr_state := X\<rparr>"
        "reads buf m4 (escaped s'' @ CHR 0x22 # y # t)"
        "tk_pb (mc_tok m4) = tk_pb (mc_tok m) @ xs @ [c]" "tk_quote (mc_tok m4) = CHR 0x22" by (auto simp: yt)
    have g4: "good m4" using m4(2) by (simp add: keeps_def)
    have "length s'' < length s" by (simp add: s Cons)
    from less.hyps [OF this g4 _ less.prems(3) m4(6) c0(2) m4(4)] m4(3) obtain r where
      r: "sr_current r = sr_current (level m4)" "sr_field r = sr_field (level m4)"
        "arrives lc buf m4 (closing X (tk_pb (mc_tok m4) @ s'') r) (y # t)" by auto
    have "arrives lc buf m (closing X (tk_pb (mc_tok m) @ s) r) (y # t)"
      using arrives_leads [OF leads_trans [OF l2(1) m4(1)] keeps_trans [OF lev(3) m4(2)] r(3)]
      by (simp add: m4(5) s Cons)
    moreover have "sr_current r = sr_current (level m)" "sr_field r = sr_field (level m)"
      using r(1,2) m4(3) lev(1) by simp_all
    ultimately show ?thesis by blast
  qed
qed

section \<open>White space and scalars\<close>

lemma arrivesE:
  assumes "arrives lc buf m r s"
  obtains m' where "leads lc buf m m'" "keeps m m'" "good m'" "level m' = r" "reads buf m' s"
  using assms by (auto simp: arrives_def keeps_def)

lemma redo_arrives:
  assumes "tok_step lc buf (- 1) m = Redo m1" "keeps m m1" "level m1 = r" "reads buf m1 s"
  shows "arrives lc buf m r s"
  using arrivesI [OF leads_redo [OF assms(1)] assms(2-4)] .

lemma break_arrives:
  assumes "tok_step lc buf (- 1) m = Break m1" "keeps m m1" "level m1 = r" "reads buf m1 (c # y # s)" "c \<noteq> CHR 0x00"
  shows "arrives lc buf m r (y # s)"
  using leads_break [OF assms(1,4,5)] assms(2,3) by (intro arrivesI [of lc buf m "moved y m1"]) (simp_all add: mach_simps)

lemma eatws:
  assumes "good m" "sr_state (level m) = S_eatws" "reads buf m (sp @ c # s)" "sp = [] \<or> sp = [CHR '' '']"
    and "\<not> is_space c" "c \<noteq> CHR ''/''"
  shows "arrives lc buf m ((level m)\<lparr>sr_state := sr_saved (level m)\<rparr>) (c # s)"
proof -
  have sp: "\<forall>x\<in>set sp. is_space x \<and> x \<noteq> CHR 0x00" using assms(4) by (auto simp: is_space_def)
  note sc = scan_over [OF assms(3) sp assms(5), of "[]"]
  let ?m1 = "moved_n (length sp) c m"
  have "tok_step lc buf (- 1) m = Redo (set_state (sr_saved (level m)) ?m1)"
    using sc assms(2,6) by (simp add: tok_step_def step_eatws_def after_scan_def mach_simps)
  then show ?thesis
    by (rule redo_arrives) (use sc assms(1) keeps_refl [OF assms(1)] in \<open>simp_all add: set_state_def mach_simps\<close>)
qed

definition finished :: "'d json \<Rightarrow> 'd srec" where
  "finished v = \<lparr>sr_state = S_eatws, sr_saved = S_finish, sr_current = v, sr_field = None\<rparr>"

definition at_start :: "'d srec" where
  "at_start = \<lparr>sr_state = S_start, sr_saved = S_start, sr_current = JNull, sr_field = None\<rparr>"

lemma start_value:
  assumes "good m" "level m = fresh_level" "reads buf m (c # s)" "\<not> is_space c" "c \<noteq> CHR ''/''"
  shows "arrives lc buf m at_start (c # s)"
  using eatws [of m buf "[]" c s lc] assms by (simp add: fresh_level_def at_start_def)

lemma value_done:
  assumes "tok_step lc buf (- 1) m = Redo (after_ws S_finish (set_current v m1))" "keeps m m1"
    "sr_field (level m1) = None" "reads buf m1 s"
  shows "arrives lc buf m (finished v) s"
proof (rule redo_arrives [OF assms(1)])
  have "good m1" using assms(2) by (simp add: keeps_def)
  then show "level (after_ws S_finish (set_current v m1)) = finished v"
    using assms(3) by (simp add: after_ws_def set_current_def mach_simps finished_def)
qed (use assms in \<open>simp_all add: after_ws_def set_current_def mach_simps\<close>)

text \<open>The literals.\<close>

lemma literal_run:
  assumes step: "\<And>m' p c q t. level m' = r \<Longrightarrow> W = p @ c # q \<Longrightarrow> reads buf m' (c # t) \<Longrightarrow> tk_pb (mc_tok m') = p \<Longrightarrow>
      tk_st_pos (mc_tok m') = length p \<Longrightarrow> tok_step lc buf (- 1) m' = Break (set_st_pos (length p + 1) (pb_add [c] m'))"
    and nul: "nul_free W"
    and m: "good m" "level m = r" "tk_pb (mc_tok m) = p" "tk_st_pos (mc_tok m) = length p" "W = p @ q"
      "reads buf m (q @ y # s)"
  shows "\<exists>m'. leads lc buf m m' \<and> keeps m m' \<and> level m' = r \<and> reads buf m' (y # s) \<and>
    tk_pb (mc_tok m') = W \<and> tk_st_pos (mc_tok m') = length W"
  using m
proof (induction q arbitrary: m p)
  case Nil
  then show ?case by (intro exI [of _ m]) (simp add: keeps_refl leads_refl)
next
  case (Cons c q)
  obtain z t where zt: "q @ y # s = z # t" by (cases "q @ y # s") auto
  let ?m1 = "set_st_pos (length p + 1) (pb_add [c] m)"
  have "tok_step lc buf (- 1) m = Break ?m1"
    using Cons.prems by (intro step) auto
  moreover have "reads buf ?m1 (c # z # t)" using Cons.prems(6) zt by (simp add: mach_simps)
  moreover have "c \<noteq> CHR 0x00" using nul Cons.prems(5) by simp
  ultimately have l: "leads lc buf m (moved z ?m1)" "reads buf (moved z ?m1) (q @ y # s)"
    using leads_break zt by fastforce+
  have "good (moved z ?m1)" "level (moved z ?m1) = r" "tk_pb (mc_tok (moved z ?m1)) = p @ [c]"
    "tk_st_pos (mc_tok (moved z ?m1)) = length (p @ [c])" "W = (p @ [c]) @ q" "keeps m (moved z ?m1)"
    using Cons.prems keeps_refl [of m] by (simp_all add: mach_simps)
  with Cons.IH [of "moved z ?m1" "p @ [c]"] l show ?case by (meson leads_trans keeps_trans)
qed

lemma strncasecmp_prefix: "W = p @ c # q \<Longrightarrow> n \<le> Suc (length p) \<Longrightarrow> strncasecmp_eq W (p @ [c]) n"
  by (simp add: strncasecmp_eq_def Suc_diff_le take_Cons')

lemma null_step:
  assumes "sr_state (level m) = S_null" "mc_c m = c"
    "strncasecmp_eq ''null'' (tk_pb (mc_tok m) @ [c]) (min (tk_st_pos (mc_tok m) + 1) 4)"
  shows "tok_step lc buf (- 1) m =
    (if tk_st_pos (mc_tok m) = 4 then Redo (after_ws S_finish (set_current JNull (pb_add [c] m)))
     else Break (set_st_pos (tk_st_pos (mc_tok m) + 1) (pb_add [c] m)))"
  using assms by (simp add: tok_step_def step_null_def Let_def mach_simps)

lemma true_step:
  assumes "sr_state (level m) = S_boolean" "mc_c m = c"
    "strncasecmp_eq ''true'' (tk_pb (mc_tok m) @ [c]) (min (tk_st_pos (mc_tok m) + 1) 4)"
  shows "tok_step lc buf (- 1) m =
    (if tk_st_pos (mc_tok m) = 4 then Redo (after_ws S_finish (set_current (JBool 1) (pb_add [c] m)))
     else Break (set_st_pos (tk_st_pos (mc_tok m) + 1) (pb_add [c] m)))"
  using assms by (simp add: tok_step_def step_boolean_def Let_def mach_simps)

lemma false_step:
  assumes "sr_state (level m) = S_boolean" "mc_c m = c"
    "\<not> strncasecmp_eq ''true'' (tk_pb (mc_tok m) @ [c]) (min (tk_st_pos (mc_tok m) + 1) 4)"
    "strncasecmp_eq ''false'' (tk_pb (mc_tok m) @ [c]) (min (tk_st_pos (mc_tok m) + 1) 5)"
  shows "tok_step lc buf (- 1) m =
    (if tk_st_pos (mc_tok m) = 5 then Redo (after_ws S_finish (set_current (JBool 0) (pb_add [c] m)))
     else Break (set_st_pos (tk_st_pos (mc_tok m) + 1) (pb_add [c] m)))"
  using assms by (simp add: tok_step_def step_boolean_def Let_def mach_simps)

text \<open>A literal from its first letter on, given how the state of its machine treats it.\<close>

lemma parse_literal:
  assumes m: "good m" "level m = fresh_level" "reads buf m (W @ y # s)"
    and W: "W = c # q" "c = CHR ''n'' \<and> X = S_null \<or> (c = CHR ''t'' \<or> c = CHR ''f'') \<and> X = S_boolean" "nul_free W"
    and step: "\<And>m' p c q t. sr_state (level m') = X \<Longrightarrow> W = p @ c # q \<Longrightarrow> mc_c m' = c \<Longrightarrow> tk_pb (mc_tok m') = p \<Longrightarrow>
      tk_st_pos (mc_tok m') = length p \<Longrightarrow> tok_step lc buf (- 1) m' = Break (set_st_pos (length p + 1) (pb_add [c] m'))"
    and final: "\<And>m' c. sr_state (level m') = X \<Longrightarrow> mc_c m' = c \<Longrightarrow> tk_pb (mc_tok m') = W \<Longrightarrow>
      tk_st_pos (mc_tok m') = length W \<Longrightarrow> tok_step lc buf (- 1) m' = Redo (after_ws S_finish (set_current v (pb_add [c] m')))"
  shows "arrives lc buf m (finished v) (y # s)"
proof -
  have "reads buf m (c # q @ y # s)" "\<not> is_space c" "c \<noteq> CHR ''/''" using m(3) W by (auto simp: is_space_def)
  from start_value [OF m(1,2) this] obtain m1 where
    m1: "leads lc buf m m1" "keeps m m1" "good m1" "level m1 = at_start" "reads buf m1 (W @ y # s)"
    by (rule arrivesE) (simp add: W(1))
  let ?m2 = "set_st_pos 0 (pb_set [] (set_state X m1))"
  let ?r = "at_start\<lparr>sr_state := X\<rparr>"
  have "mc_c m1 = c" using m1(5) W(1) by (simp add: reads_def)
  then have "tok_step lc buf (- 1) m1 = Redo ?m2"
    using W(2) m1(4) by (auto simp: tok_step_def step_start_def at_start_def Let_def)
  note l2 = leads_redo [OF this]
  have m2: "good ?m2" "level ?m2 = ?r" "tk_pb (mc_tok ?m2) = []" "tk_st_pos (mc_tok ?m2) = length ([] :: string)"
    "W = [] @ W" "reads buf ?m2 (W @ y # s)" "keeps m1 ?m2"
    using m1 keeps_refl [of m1] by (simp_all add: mach_simps set_state_def)
  have "\<exists>m'. leads lc buf ?m2 m' \<and> keeps ?m2 m' \<and> level m' = ?r \<and> reads buf m' (y # s) \<and>
      tk_pb (mc_tok m') = W \<and> tk_st_pos (mc_tok m') = length W"
    by (rule literal_run [OF _ W(3) m2(1-6)]) (rule step; simp add: reads_def)
  then obtain m3 where m3: "leads lc buf ?m2 m3" "keeps ?m2 m3" "level m3 = ?r" "reads buf m3 (y # s)"
    "tk_pb (mc_tok m3) = W" "tk_st_pos (mc_tok m3) = length W" by blast
  have "arrives lc buf m3 (finished v) (y # s)"
  proof (rule value_done)
    show "tok_step lc buf (- 1) m3 = Redo (after_ws S_finish (set_current v (pb_add [mc_c m3] m3)))"
      using m3 by (intro final) simp_all
    have "good m3" using m3(2) by (simp add: keeps_def)
    then show "keeps m3 (pb_add [mc_c m3] m3)" using keeps_refl by (simp add: mach_simps)
  qed (use m3 in \<open>simp_all add: mach_simps at_start_def\<close>)
  from arrives_leads [OF leads_trans [OF leads_trans [OF m1(1) l2] m3(1)] keeps_trans [OF keeps_trans [OF m1(2) m2(7)] m3(2)] this]
  show ?thesis .
qed

lemma parse_null:
  assumes "good m" "level m = fresh_level" "reads buf m (''null'' @ y # s)"
  shows "arrives lc buf m (finished JNull) (y # s)"
proof (rule parse_literal [OF assms, where X = S_null])
  fix m' :: "'a mach" and p c q
  assume *: "sr_state (level m') = S_null" "''null'' = p @ c # q" "mc_c m' = c" "tk_pb (mc_tok m') = p"
    "tk_st_pos (mc_tok m') = length p"
  have "length p \<noteq> 4" using arg_cong [OF *(2), of length] by simp
  then show "tok_step lc buf (- 1) m' = Break (set_st_pos (length p + 1) (pb_add [c] m'))"
    using * strncasecmp_prefix [OF *(2), of "min (length p + 1) 4"] by (subst null_step [of m' c]) simp_all
next
  fix m' :: "'a mach" and c
  assume "sr_state (level m') = S_null" "mc_c m' = c" "tk_pb (mc_tok m') = ''null''" "tk_st_pos (mc_tok m') = length ''null''"
  then show "tok_step lc buf (- 1) m' = Redo (after_ws S_finish (set_current JNull (pb_add [c] m')))"
    by (subst null_step [of m' c]) (simp_all add: strncasecmp_eq_def)
qed simp_all

lemma parse_true:
  assumes "good m" "level m = fresh_level" "reads buf m (''true'' @ y # s)"
  shows "arrives lc buf m (finished (JBool 1)) (y # s)"
proof (rule parse_literal [OF assms, where X = S_boolean and c = "CHR ''t''" and q = "''rue''"])
  fix m' :: "'a mach" and p c q
  assume *: "sr_state (level m') = S_boolean" "''true'' = p @ c # q" "mc_c m' = c" "tk_pb (mc_tok m') = p"
    "tk_st_pos (mc_tok m') = length p"
  have "length p \<noteq> 4" using arg_cong [OF *(2), of length] by simp
  then show "tok_step lc buf (- 1) m' = Break (set_st_pos (length p + 1) (pb_add [c] m'))"
    using * strncasecmp_prefix [OF *(2), of "min (length p + 1) 4"] by (subst true_step [of m' c]) simp_all
next
  fix m' :: "'a mach" and c
  assume "sr_state (level m') = S_boolean" "mc_c m' = c" "tk_pb (mc_tok m') = ''true''" "tk_st_pos (mc_tok m') = length ''true''"
  then show "tok_step lc buf (- 1) m' = Redo (after_ws S_finish (set_current (JBool 1) (pb_add [c] m')))"
    by (subst true_step [of m' c]) (simp_all add: strncasecmp_eq_def)
qed simp_all

lemma f_is_not_true: "n \<noteq> 0 \<Longrightarrow> \<not> strncasecmp_eq ''true'' (CHR ''f'' # p) n"
  by (cases n) (simp_all add: strncasecmp_eq_def to_lower_def)

lemma parse_false:
  assumes "good m" "level m = fresh_level" "reads buf m (''false'' @ y # s)"
  shows "arrives lc buf m (finished (JBool 0)) (y # s)"
proof (rule parse_literal [OF assms, where X = S_boolean and c = "CHR ''f''" and q = "''alse''"])
  fix m' :: "'a mach" and p c q
  assume *: "sr_state (level m') = S_boolean" "''false'' = p @ c # q" "mc_c m' = c" "tk_pb (mc_tok m') = p"
    "tk_st_pos (mc_tok m') = length p"
  have "length p \<noteq> 5" using arg_cong [OF *(2), of length] by simp
  moreover obtain w where w: "p @ [c] = CHR ''f'' # w" using *(2) by (cases p) auto
  ultimately show "tok_step lc buf (- 1) m' = Break (set_st_pos (length p + 1) (pb_add [c] m'))"
    using * strncasecmp_prefix [OF *(2), of "min (length p + 1) 5"] f_is_not_true [of _ w]
    by (subst false_step [of m' c]) simp_all
next
  fix m' :: "'a mach" and c
  assume "sr_state (level m') = S_boolean" "mc_c m' = c" "tk_pb (mc_tok m') = ''false''" "tk_st_pos (mc_tok m') = length ''false''"
  then show "tok_step lc buf (- 1) m' = Redo (after_ws S_finish (set_current (JBool 0) (pb_add [c] m')))"
    by (subst false_step [of m' c]) (simp_all add: strncasecmp_eq_def to_lower_def)
qed simp_all

end
