(* ===== verification/Json_Roundtrip.thy ===== *)
theory Json_Roundtrip
  imports Tokener_Runs
begin

text \<open>
  The printer of \<open>json_object.c\<close> and the parser of \<open>json_tokener.c\<close> against each other: strings,
  numbers, arrays and objects as printed are read back, and so is every value.
\<close>

section \<open>Strings and numbers\<close>

lemma parse_string:
  assumes "good m" "level m = fresh_level" "reads buf m (CHR 0x22 # escaped s @ CHR 0x22 # y # t)" "nul_free s"
  shows "arrives lc buf m (finished (JString s)) (y # t)"
proof -
  from start_value [OF assms(1-3)] obtain m1 where
    m1: "leads lc buf m m1" "keeps m m1" "good m1" "level m1 = at_start"
      "reads buf m1 (CHR 0x22 # escaped s @ CHR 0x22 # y # t)"
    by (rule arrivesE [rotated 2]) (simp_all add: is_space_def)
  obtain z w where zw: "escaped s @ CHR 0x22 # y # t = z # w" by (cases "escaped s @ CHR 0x22 # y # t") auto
  let ?m2 = "pb_set [] (set_state S_string m1)"
  let ?m3 = "?m2\<lparr>mc_tok := (mc_tok ?m2)\<lparr>tk_quote := CHR 0x22\<rparr>\<rparr>"
  have "mc_c m1 = CHR 0x22" using m1(5) by (simp add: reads_def)
  then have "tok_step lc buf (- 1) m1 = Break ?m3"
    using m1(4) by (simp add: tok_step_def step_start_def at_start_def Let_def)
  moreover have "reads buf ?m3 (CHR 0x22 # z # w)" using m1(5) zw by (simp add: mach_simps set_state_def)
  ultimately have l: "leads lc buf m1 (moved z ?m3)" "reads buf (moved z ?m3) (escaped s @ CHR 0x22 # y # t)"
    using leads_break zw by fastforce+
  have "good (moved z ?m3)" "sr_state (level (moved z ?m3)) = S_string" "tk_quote (mc_tok (moved z ?m3)) = CHR 0x22"
    "tk_pb (mc_tok (moved z ?m3)) = []" "sr_field (level (moved z ?m3)) = None" "keeps m1 (moved z ?m3)"
    using m1 keeps_refl [of m1] by (simp_all add: mach_simps set_state_def at_start_def)
  note m3 = this
  have cs: "c_string s = s" using assms(4) by (auto simp: c_string_def nul_free_def takeWhile_eq_all_conv)
  from string_body [OF m3(1,2) disjI1 [OF refl] m3(3) assms(4) l(2), of lc] obtain r where
    r: "sr_field r = None" "arrives lc buf (moved z ?m3) (closing S_string s r) (y # t)" using m3(4,5) by auto
  have "closing S_string s r = finished (JString s)" using r(1) cs by (simp add: closing_def finished_def)
  then have "arrives lc buf (moved z ?m3) (finished (JString s)) (y # t)" using r(2) by simp
  from arrives_leads [OF leads_trans [OF m1(1) l(1)] keeps_trans [OF m1(2) m3(6)] this] show ?thesis .
qed

lemma parse_number:
  assumes "good m" "level m = fresh_level" "reads buf m (w @ y # s)" "\<forall>c\<in>set w. in_number_chars c" "\<not> in_number_chars y"
    and w: "w = c # w'" "is_digit c \<or> c = CHR ''-''"
    and val: "if CHR ''.'' \<in> set w \<or> CHR ''e'' \<in> set w then \<exists>d. scan_double lc w = Some d \<and> v = JDouble d
      else \<exists>i. scan_int w = Ret (Some i) \<and> v = JInt i"
  shows "arrives lc buf m (finished v) (y # s)"
proof -
  have c: "\<not> is_space c" "c \<noteq> CHR ''/''" using w(2) is_digit_facts [of c] by (auto simp: is_space_def is_digit_def)
  have "reads buf m (c # w' @ y # s)" using assms(3) w by simp
  from start_value [OF assms(1,2) this c] obtain m1 where
    m1: "leads lc buf m m1" "keeps m m1" "good m1" "level m1 = at_start" "reads buf m1 (w @ y # s)"
    by (rule arrivesE) (simp add: w(1))
  let ?m2 = "pb_set [] (set_state S_number m1)"
  let ?m3 = "?m2\<lparr>mc_tok := (mc_tok ?m2)\<lparr>tk_is_double := False\<rparr>\<rparr>"
  have "mc_c m1 = c" using m1(5) w(1) by (simp add: reads_def)
  then have "tok_step lc buf (- 1) m1 = Redo ?m3"
    using m1(4) w(2) by (auto simp: tok_step_def step_start_def at_start_def Let_def is_digit_def)
  note l3 = leads_redo [OF this]
  have m3: "good ?m3" "reads buf ?m3 (w @ y # s)" "level ?m3 = at_start\<lparr>sr_state := S_number\<rparr>"
      "tk_pb (mc_tok ?m3) = []" "tk_is_double (mc_tok ?m3) = False" "keeps m1 ?m3"
    using m1 keeps_refl [of m1] by (simp_all add: mach_simps set_state_def)
  have "\<forall>x\<in>set w. in_number_chars x \<and> x \<noteq> CHR 0x00" using assms(4) by (simp add: in_number_chars_def)
  note sc = scan_over [OF m3(2) this assms(5), of "[]"]
  let ?m4 = "number_add w (moved_n (length w) y ?m3)"
  have "nul_free w" using assms(4) by (auto simp: nul_free_def in_number_chars_def)
  then have pb: "c_string (tk_pb (mc_tok ?m4)) = w" "tk_is_double (mc_tok ?m4) = (CHR ''.'' \<in> set w \<or> CHR ''e'' \<in> set w)"
    using m3(4,5) by (auto simp: number_add_def mach_simps Let_def c_string_def takeWhile_eq_all_conv nul_free_def pb_add_def pb_set_def)
  have "arrives lc buf ?m3 (finished v) (y # s)"
  proof (rule value_done)
    show "tok_step lc buf (- 1) ?m3 = Redo (after_ws S_finish (set_current v ?m4))"
      using sc pb val m3(3) by (auto simp: tok_step_def step_number_def after_scan_def Let_def split: if_splits)
    show "keeps ?m3 ?m4" "sr_field (level ?m4) = None" "reads buf ?m4 (y # s)"
      using sc m3 keeps_refl [OF m3(1)] by (simp_all add: number_add_def mach_simps Let_def at_start_def)
  qed
  then show ?thesis using arrives_leads [OF leads_trans [OF m1(1) l3] keeps_trans [OF m1(2) m3(6)]] by simp
qed

section \<open>Arrays and objects\<close>

text \<open>A value inside another: down one level, through the value, and back to the step that takes it in.\<close>

lemma parse_child:
  assumes m: "good m" "tk_depth (mc_tok m) < 31" "tok_step lc buf (- 1) m = push_level X m"
      "reads buf m (w @ sp @ c # s)"
    and sp: "sp = [] \<or> sp = [CHR '' '']" "\<not> is_space c" "c \<noteq> CHR ''/''"
    and child: "\<And>m'. good m' \<Longrightarrow> level m' = fresh_level \<Longrightarrow> tk_depth (mc_tok m') = Suc (tk_depth (mc_tok m)) \<Longrightarrow>
      reads buf m' (w @ sp @ c # s) \<Longrightarrow> arrives lc buf m' (finished v) (sp @ c # s)"
    and add: "\<And>m'. good m' \<Longrightarrow> level m' = (level m)\<lparr>sr_state := X\<rparr> \<Longrightarrow> mc_obj m' = v \<Longrightarrow>
      \<exists>f. tok_step lc buf (- 1) m' = Redo (set_level f m') \<and> f ((level m)\<lparr>sr_state := X\<rparr>) = r"
  shows "arrives lc buf m r (c # s)"
proof -
  let ?d = "tk_depth (mc_tok m)"
  let ?m0 = "set_state X m"
  let ?m1 = "?m0\<lparr>mc_tok := json_tokener_reset_level (Suc ?d) ((mc_tok ?m0)\<lparr>tk_depth := Suc ?d\<rparr>)\<rparr>"
  have "tok_step lc buf (- 1) m = Redo ?m1"
    using m(2,3) by (simp add: push_level_def JSON_TOKENER_MAX_DEPTH_def Let_def set_state_def mach_simps)
  note l1 = leads_redo [OF this]
  have m1: "good ?m1" "level ?m1 = fresh_level" "tk_depth (mc_tok ?m1) = Suc ?d" "reads buf ?m1 (w @ sp @ c # s)"
    "tk_stack (mc_tok ?m1) ! ?d = (level m)\<lparr>sr_state := X\<rparr>" "tk_err (mc_tok ?m1) = tk_err (mc_tok m)"
    "\<forall>i<?d. tk_stack (mc_tok ?m1) ! i = tk_stack (mc_tok m) ! i"
    using m by (auto simp: good_def level_def json_tokener_reset_level_def set_state_def set_level_def reads_def nth_list_update)
  from child [OF m1(1-4)] obtain m2 where
    m2: "leads lc buf ?m1 m2" "keeps ?m1 m2" "good m2" "level m2 = finished v" "reads buf m2 (sp @ c # s)" by (rule arrivesE)
  have "arrives lc buf m2 ((level m2)\<lparr>sr_state := sr_saved (level m2)\<rparr>) (c # s)"
    by (rule eatws) (use m2 sp in \<open>simp_all add: finished_def\<close>)
  then obtain m3 where
    m3: "leads lc buf m2 m3" "keeps m2 m3" "good m3" "level m3 = (finished v)\<lparr>sr_state := S_finish\<rparr>" "reads buf m3 (c # s)"
    by (rule arrivesE) (simp add: m2(4) finished_def)
  have d3: "tk_depth (mc_tok m3) = Suc ?d" and e3: "tk_err (mc_tok m3) = tk_err (mc_tok m)"
    and s3: "tk_stack (mc_tok m3) ! ?d = (level m)\<lparr>sr_state := X\<rparr>" "\<forall>i<?d. tk_stack (mc_tok m3) ! i = tk_stack (mc_tok m) ! i"
    using m1(3,5-7) m2(2) m3(2) by (auto simp: keeps_def)
  let ?m4 = "m3\<lparr>mc_obj := sr_current (level m3), mc_tok := (json_tokener_reset_level (Suc ?d) (mc_tok m3))\<lparr>tk_depth := ?d\<rparr>\<rparr>"
  have "tok_step lc buf (- 1) m3 = Redo ?m4"
    using d3 m3(4) by (simp add: tok_step_def step_finish_def finished_def Let_def)
  note l4 = leads_redo [OF this]
  have m4: "good ?m4" "level ?m4 = (level m)\<lparr>sr_state := X\<rparr>" "mc_obj ?m4 = v" "reads buf ?m4 (c # s)" "keeps m ?m4"
    using m3 s3 d3 e3 m(1) by (auto simp: good_def level_def json_tokener_reset_level_def reads_def keeps_def finished_def)
  from add [OF m4(1-3)] obtain f where
    f: "tok_step lc buf (- 1) ?m4 = Redo (set_level f ?m4)" "f ((level m)\<lparr>sr_state := X\<rparr>) = r" by blast
  have "arrives lc buf ?m4 r (c # s)"
    by (rule redo_arrives [OF f(1)]) (use m4 f(2) keeps_refl [OF m4(1)] in \<open>simp_all add: mach_simps\<close>)
  then show ?thesis
    using arrives_leads [OF leads_trans [OF leads_trans [OF leads_trans [OF l1 m2(1)] m3(1)] l4] m4(5)] by simp
qed

text \<open>A separator or closing bracket: one character that changes the states and nothing else.\<close>

lemma punctuation:
  assumes "good m" "sr_state (level m) = S_eatws" "sr_saved (level m) = X" "reads buf m (sp @ c # y # s)"
    and "sp = [] \<or> sp = [CHR '' '']" "\<not> is_space c" "c \<noteq> CHR ''/''" "c \<noteq> CHR 0x00"
    and step: "\<And>m'. sr_state (level m') = X \<Longrightarrow> mc_c m' = c \<Longrightarrow> tok_step lc buf (- 1) m' = Break (after_ws Y m')"
  shows "arrives lc buf m ((level m)\<lparr>sr_saved := Y\<rparr>) (y # s)"
proof -
  from eatws [OF assms(1,2,4-7)] obtain m1 where
    m1: "leads lc buf m m1" "keeps m m1" "good m1" "level m1 = (level m)\<lparr>sr_state := X\<rparr>" "reads buf m1 (c # y # s)"
    using assms(3) by (metis arrivesE)
  have "mc_c m1 = c" using m1(5) by (simp add: reads_def)
  have "arrives lc buf m1 ((level m)\<lparr>sr_saved := Y\<rparr>) (y # s)"
  proof (rule break_arrives [OF step])
    show "level (after_ws Y m1) = (level m)\<lparr>sr_saved := Y\<rparr>" using m1(3,4) assms(2) by (simp add: after_ws_def mach_simps)
  qed (use m1 \<open>mc_c m1 = c\<close> assms(8) keeps_refl [OF m1(3)] in \<open>simp_all add: after_ws_def mach_simps\<close>)
  then show ?thesis using arrives_leads [OF m1(1,2)] by simp
qed

section \<open>Printed values are read back\<close>

text \<open>What the printer and the parser agree on: \<open>NUL\<close>-free strings, \<open>int\<close>s in range, booleans 0 and 1,
  distinct keys, and doubles whose text is a number with a point that scans to the same double.\<close>

definition double_text :: "'d libc \<Rightarrow> 'd \<Rightarrow> bool" where
  "double_text lc d \<longleftrightarrow>
     (let w = fmt_double lc d in
      w \<noteq> [] \<and> (is_digit (hd w) \<or> hd w = CHR ''-'') \<and> list_all in_number_chars w \<and> CHR ''.'' \<in> set w \<and>
      scan_double lc w = Some d)"

fun parseable :: "'d libc \<Rightarrow> 'd json \<Rightarrow> bool" where
  "parseable lc JNull = True"
| "parseable lc (JBool b) = (b = 0 \<or> b = 1)"
| "parseable lc (JInt i) = (INT_MIN \<le> i \<and> i \<le> INT_MAX)"
| "parseable lc (JDouble d) = double_text lc d"
| "parseable lc (JString s) = nul_free s"
| "parseable lc (JArray vs) = (\<forall>v\<in>set vs. parseable lc v)"
| "parseable lc (JObject es) = (distinct (map fst es) \<and> (\<forall>e\<in>set es. nul_free (fst e) \<and> parseable lc (snd e)))"

text \<open>The value nests at most \<open>n\<close> non-empty arrays and objects.\<close>

fun nested :: "nat \<Rightarrow> 'd json \<Rightarrow> bool" where
  "nested n (JArray vs) = (\<forall>v\<in>set vs. 0 < n \<and> nested (n - 1) v)"
| "nested n (JObject es) = (\<forall>e\<in>set es. 0 < n \<and> nested (n - 1) (snd e))"
| "nested n _ = True"

definition stop_char :: "char \<Rightarrow> bool" where
  "stop_char y \<longleftrightarrow> y = CHR '','' \<or> y = CHR '' '' \<or> y = CHR 0x00"

lemma stop_char_number: "stop_char y \<Longrightarrow> \<not> in_number_chars y"
  by (auto simp: stop_char_def in_number_chars_def json_number_chars_def)

definition parses :: "'d libc \<Rightarrow> string \<Rightarrow> 'd json \<Rightarrow> bool" where
  "parses lc buf v \<longleftrightarrow>
     (\<forall>m y s. good m \<longrightarrow> level m = fresh_level \<longrightarrow> nested (31 - tk_depth (mc_tok m)) v \<longrightarrow>
        reads buf m (json_text lc v @ y # s) \<longrightarrow> stop_char y \<longrightarrow> arrives lc buf m (finished v) (y # s))"

lemma digit_number_char: "is_digit c \<Longrightarrow> in_number_chars c \<and> c \<noteq> CHR ''.'' \<and> c \<noteq> CHR ''e''"
proof -
  assume c: "is_digit c"
  define n where "n = (of_char c :: nat)"
  have n: "48 \<le> n" "n \<le> 57" and cn: "c = char_of n" using c by (simp_all add: is_digit_def n_def)
  then have "n = 48 \<or> n = 49 \<or> n = 50 \<or> n = 51 \<or> n = 52 \<or> n = 53 \<or> n = 54 \<or> n = 55 \<or> n = 56 \<or> n = 57" by presburger
  then show ?thesis unfolding cn
    by (elim disjE) (simp_all add: in_number_chars_def json_number_chars_def char_of_eq_iff)
qed

lemma dec_int_text:
  "(\<forall>c\<in>set (dec_int i). in_number_chars c) \<and> CHR ''.'' \<notin> set (dec_int i) \<and> CHR ''e'' \<notin> set (dec_int i) \<and>
   (\<exists>c w. dec_int i = c # w \<and> (is_digit c \<or> c = CHR ''-''))"
proof -
  have d: "\<forall>c\<in>set (dec_nat n). is_digit c" "dec_nat n \<noteq> []" for n using dec_nat_digits by auto
  have "in_number_chars CHR ''-''" by (simp add: in_number_chars_def json_number_chars_def)
  moreover have "\<forall>c\<in>set (dec_nat n). in_number_chars c \<and> c \<noteq> CHR ''.'' \<and> c \<noteq> CHR ''e''" for n
    using d(1) digit_number_char by blast
  moreover have "\<exists>c w. dec_nat n = c # w \<and> is_digit c" for n using d [of n] by (cases "dec_nat n") auto
  ultimately show ?thesis unfolding dec_int_def by (cases "i < 0") fastforce+
qed

lemma text_start:
  assumes "parseable lc v"
  shows "\<exists>c w. json_text lc v = c # w \<and> \<not> is_space c \<and> c \<noteq> CHR ''/'' \<and> c \<noteq> CHR '']''"
proof (cases v)
  case (JInt i)
  obtain c w where "dec_int i = c # w" "is_digit c \<or> c = CHR ''-''" using dec_int_text by blast
  then show ?thesis using is_digit_facts [of c] by (auto simp: JInt is_space_def is_digit_def)
next
  case (JDouble d)
  then obtain c w where "fmt_double lc d = c # w" "is_digit c \<or> c = CHR ''-''"
    using assms by (cases "fmt_double lc d") (auto simp: double_text_def Let_def)
  then show ?thesis using is_digit_facts [of c] by (auto simp: JDouble is_space_def is_digit_def)
qed (auto simp: is_space_def)

lemma items_later: "items_text lc True (v # vs) = CHR '','' # items_text lc False (v # vs)"
  by simp

lemma entries_later: "entries_text lc True (e # es) = CHR '','' # entries_text lc False (e # es)"
  by (cases e) simp

lemma brackets: "\<not> is_space CHR '']''" "\<not> is_space CHR ''}''" "\<not> is_space CHR '',''" "\<not> is_space CHR '':''"
    "\<not> is_space CHR 0x22"
  by (simp_all add: is_space_def)

lemma parse_items:
  assumes "\<forall>v\<in>set vs. parses lc buf v \<and> parseable lc v \<and> nested (30 - tk_depth (mc_tok m)) v"
    and "vs \<noteq> [] \<Longrightarrow> tk_depth (mc_tok m) < 31"
    and "good m" "level m = \<lparr>sr_state = S_eatws, sr_saved = S_array, sr_current = JArray acc, sr_field = None\<rparr>"
    and "reads buf m (items_text lc False vs @ '' ]'' @ y # s)"
  shows "arrives lc buf m (finished (JArray (acc @ vs))) (y # s)"
  using assms
proof (induction vs arbitrary: m acc)
  case Nil
  have "arrives lc buf m ((level m)\<lparr>sr_saved := S_finish\<rparr>) (y # s)"
    by (rule punctuation [where X = S_array and sp = "'' ''" and c = "CHR '']''"])
       (use Nil in \<open>simp_all add: brackets tok_step_def step_array_def\<close>)
  then show ?case using Nil.prems(4) by (simp add: finished_def)
next
  case (Cons v vs)
  let ?r = "\<lparr>sr_state = S_eatws, sr_saved = S_array_sep, sr_current = JArray (acc @ [v]), sr_field = None\<rparr>"
  define sp where "sp = (if vs = [] then '' '' else [])"
  define c where "c = (if vs = [] then CHR '']'' else CHR '','')"
  define t where "t = (if vs = [] then y # s else items_text lc False vs @ '' ]'' @ y # s)"
  have tail: "items_text lc True vs @ '' ]'' @ y # s = sp @ c # t"
    by (cases vs) (simp_all add: sp_def c_def t_def)
  have c: "sp = [] \<or> sp = '' ''" "\<not> is_space c" "c \<noteq> CHR ''/''" "c \<noteq> CHR 0x00"
    by (simp_all add: sp_def c_def brackets)
  obtain z w where zw: "json_text lc v = z # w" "\<not> is_space z" "z \<noteq> CHR ''/''" "z \<noteq> CHR '']''"
    using text_start Cons.prems(1) by force
  have r0: "reads buf m ('' '' @ json_text lc v @ sp @ c # t)" using Cons.prems(5) tail by simp
  then have "reads buf m ('' '' @ z # w @ sp @ c # t)" by (simp add: zw(1))
  from eatws [OF Cons.prems(3) _ this _ zw(2,3)] Cons.prems(4) obtain m1 where
    m1: "leads lc buf m m1" "keeps m m1" "good m1" "level m1 = (level m)\<lparr>sr_state := S_array\<rparr>"
      "reads buf m1 (json_text lc v @ sp @ c # t)" by (auto elim!: arrivesE simp: zw(1))
  have depth: "tk_depth (mc_tok m1) = tk_depth (mc_tok m)" using m1(2) by (simp add: keeps_def)
  have "arrives lc buf m1 ?r (c # t)"
  proof (rule parse_child [OF m1(3) _ _ m1(5) c(1-3), where X = S_array_add and v = v])
    show "tk_depth (mc_tok m1) < 31" using Cons.prems(2) depth by simp
    have "mc_c m1 = z" using m1(5) zw(1) by (simp add: reads_def)
    then show "tok_step lc buf (- 1) m1 = push_level S_array_add m1"
      using m1(4) zw(4) by (simp add: tok_step_def step_array_def)
  next
    fix m' :: "'a mach"
    assume m': "good m'" "level m' = fresh_level" "tk_depth (mc_tok m') = Suc (tk_depth (mc_tok m1))"
      "reads buf m' (json_text lc v @ sp @ c # t)"
    obtain y' t' where yt: "sp @ c # t = y' # t'" "stop_char y'"
      by (cases "vs = []") (auto simp: sp_def c_def stop_char_def)
    have "nested (31 - tk_depth (mc_tok m')) v" using Cons.prems(1) m'(3) depth by simp
    then show "arrives lc buf m' (finished v) (sp @ c # t)"
      using Cons.prems(1) m' yt by (simp add: parses_def)
  next
    fix m' :: "'a mach"
    assume m': "good m'" "level m' = (level m1)\<lparr>sr_state := S_array_add\<rparr>" "mc_obj m' = v"
    let ?f = "\<lambda>r. r\<lparr>sr_current := JArray (acc @ [v]), sr_state := S_eatws, sr_saved := S_array_sep\<rparr>"
    have "tok_step lc buf (- 1) m' = Redo (set_level ?f m')"
      using m' m1(4) Cons.prems(4)
      by (simp add: tok_step_def step_array_add_def after_ws_def set_current_def set_level_twice)
    then show "\<exists>f. tok_step lc buf (- 1) m' = Redo (set_level f m') \<and> f ((level m1)\<lparr>sr_state := S_array_add\<rparr>) = ?r"
      using m1(4) Cons.prems(4) by (intro exI [of _ ?f]) simp
  qed
  then obtain m2 where m2: "leads lc buf m1 m2" "keeps m1 m2" "good m2" "level m2 = ?r" "reads buf m2 (c # t)"
    by (rule arrivesE)
  have depth2: "tk_depth (mc_tok m2) = tk_depth (mc_tok m)" using m2(2) depth by (simp add: keeps_def)
  have "arrives lc buf m2 (finished (JArray (acc @ v # vs))) (y # s)"
  proof (cases vs)
    case Nil
    have "arrives lc buf m2 ((level m2)\<lparr>sr_saved := S_finish\<rparr>) (y # s)"
      by (rule punctuation [where X = S_array_sep and sp = "[]" and c = "CHR '']''"])
         (use Nil m2 in \<open>simp_all add: brackets tok_step_def step_array_sep_def c_def t_def\<close>)
    then show ?thesis using m2(4) Nil by (simp add: finished_def)
  next
    case (Cons v2 vs2)
    obtain y' t' where t: "t = y' # t'" by (simp add: t_def Cons)
    have "arrives lc buf m2 ((level m2)\<lparr>sr_saved := S_array\<rparr>) (y' # t')"
      by (rule punctuation [where X = S_array_sep and sp = "[]" and c = "CHR '',''"])
         (use Cons m2 t in \<open>simp_all add: brackets tok_step_def step_array_sep_def c_def\<close>)
    then obtain m3 where m3: "leads lc buf m2 m3" "keeps m2 m3" "good m3" "level m3 = (level m2)\<lparr>sr_saved := S_array\<rparr>"
      "reads buf m3 (items_text lc False vs @ '' ]'' @ y # s)" by (rule arrivesE) (simp add: t [symmetric] t_def Cons)
    have d3: "tk_depth (mc_tok m3) = tk_depth (mc_tok m)" using m3(2) depth2 by (simp add: keeps_def)
    have "arrives lc buf m3 (finished (JArray ((acc @ [v]) @ vs))) (y # s)"
      by (rule Cons.IH [OF _ _ m3(3) _ m3(5)]) (use Cons.prems(1,2) d3 m3(4) m2(4) in simp_all)
    then show ?thesis using arrives_leads [OF m3(1,2)] by simp
  qed
  then show ?case using arrives_leads [OF leads_trans [OF m1(1) m2(1)] keeps_trans [OF m1(2) m2(2)]] by simp
qed

lemma object_put_new: "k \<notin> fst ` set es \<Longrightarrow> object_put k v es = es @ [(k, v)]"
  by (auto simp: object_put_def filter_id_conv)

text \<open>The key of a pair, from the space before its quote to the value's first character.\<close>

lemma parse_key:
  assumes m: "good m" "level m = \<lparr>sr_state = S_eatws, sr_saved = S_object_field_start, sr_current = cur, sr_field = None\<rparr>"
      "reads buf m (CHR '' '' # CHR 0x22 # escaped k @ [CHR 0x22, CHR '':'', CHR '' ''] @ z # w)"
    and k: "nul_free k" and z: "\<not> is_space z" "z \<noteq> CHR ''/''"
  shows "arrives lc buf m \<lparr>sr_state = S_object_value, sr_saved = S_object_value, sr_current = cur, sr_field = Some k\<rparr> (z # w)"
proof -
  have "arrives lc buf m ((level m)\<lparr>sr_state := sr_saved (level m)\<rparr>) (CHR 0x22 # escaped k @ [CHR 0x22, CHR '':'', CHR '' ''] @ z # w)"
    by (rule eatws [where sp = "'' ''"]) (use m in \<open>simp_all add: brackets\<close>)
  then obtain m1 where m1: "leads lc buf m m1" "keeps m m1" "good m1"
    "level m1 = \<lparr>sr_state = S_object_field_start, sr_saved = S_object_field_start, sr_current = cur, sr_field = None\<rparr>"
    "reads buf m1 (CHR 0x22 # escaped k @ [CHR 0x22, CHR '':'', CHR '' ''] @ z # w)"
    by (rule arrivesE) (simp add: m(2))
  obtain y t where yt: "escaped k @ [CHR 0x22, CHR '':'', CHR '' ''] @ z # w = y # t"
    by (cases "escaped k @ [CHR 0x22, CHR '':'', CHR '' ''] @ z # w") auto
  let ?m2 = "pb_set [] (set_state S_object_field m1)"
  let ?m3 = "?m2\<lparr>mc_tok := (mc_tok ?m2)\<lparr>tk_quote := CHR 0x22\<rparr>\<rparr>"
  have "mc_c m1 = CHR 0x22" using m1(5) by (simp add: reads_def)
  then have "tok_step lc buf (- 1) m1 = Break ?m3"
    using m1(4) by (simp add: tok_step_def step_object_field_start_def Let_def)
  moreover have "reads buf ?m3 (CHR 0x22 # y # t)" using m1(5) yt by (simp add: mach_simps set_state_def)
  ultimately have l: "leads lc buf m1 (moved y ?m3)"
      "reads buf (moved y ?m3) (escaped k @ CHR 0x22 # CHR '':'' # CHR '' '' # z # w)"
    using leads_break yt by fastforce+
  have m3: "good (moved y ?m3)" "sr_state (level (moved y ?m3)) = S_object_field" "tk_quote (mc_tok (moved y ?m3)) = CHR 0x22"
    "tk_pb (mc_tok (moved y ?m3)) = []" "sr_current (level (moved y ?m3)) = cur" "keeps m1 (moved y ?m3)"
    using m1 keeps_refl [of m1] by (simp_all add: mach_simps set_state_def)
  have cs: "c_string k = k" using k by (auto simp: c_string_def nul_free_def takeWhile_eq_all_conv)
  from string_body [OF m3(1,2) disjI2 [OF refl] m3(3) k l(2), of lc] obtain r where
    r: "sr_current r = cur" "arrives lc buf (moved y ?m3) (closing S_object_field k r) (CHR '':'' # CHR '' '' # z # w)"
    using m3(4,5) by auto
  let ?v = "\<lambda>s1 s2. \<lparr>sr_state = s1, sr_saved = s2, sr_current = cur, sr_field = Some k\<rparr>"
  have e: "closing S_object_field k r = ?v S_eatws S_object_field_end" using r(1) cs by (simp add: closing_def)
  from r(2) have "arrives lc buf (moved y ?m3) (?v S_object_value S_object_value) (z # w)" unfolding e
  proof (rule arrives_trans)
    fix m4 :: "'a mach"
    assume m4: "good m4" "level m4 = ?v S_eatws S_object_field_end" "reads buf m4 (CHR '':'' # CHR '' '' # z # w)"
    have "arrives lc buf m4 ((level m4)\<lparr>sr_saved := S_object_value\<rparr>) (CHR '' '' # z # w)"
      by (rule punctuation [where X = S_object_field_end and sp = "[]" and c = "CHR '':''"])
         (use m4 in \<open>simp_all add: brackets tok_step_def step_object_field_end_def\<close>)
    then show "arrives lc buf m4 (?v S_object_value S_object_value) (z # w)"
    proof (rule arrives_trans)
      fix m5 :: "'a mach"
      assume m5: "good m5" "level m5 = (level m4)\<lparr>sr_saved := S_object_value\<rparr>" "reads buf m5 (CHR '' '' # z # w)"
      have "arrives lc buf m5 ((level m5)\<lparr>sr_state := sr_saved (level m5)\<rparr>) (z # w)"
        by (rule eatws [where sp = "'' ''"]) (use m4 m5 z in simp_all)
      then show "arrives lc buf m5 (?v S_object_value S_object_value) (z # w)" using m4(2) m5(2) by simp
    qed
  qed
  then show ?thesis by (rule arrives_leads [OF leads_trans [OF m1(1) l(1)] keeps_trans [OF m1(2) m3(6)]])
qed

text \<open>A whole pair, up to the comma or the brace after it.\<close>

lemma parse_pair:
  assumes m: "good m" "level m = \<lparr>sr_state = S_eatws, sr_saved = S_object_field_start, sr_current = JObject acc, sr_field = None\<rparr>"
      "reads buf m ([CHR '' '', CHR 0x22] @ escaped k @ [CHR 0x22, CHR '':'', CHR '' ''] @ json_text lc v @ sp @ c # t)"
      "tk_depth (mc_tok m) < 31"
    and v: "parses lc buf v" "parseable lc v" "nested (30 - tk_depth (mc_tok m)) v"
    and k: "nul_free k" "k \<notin> fst ` set acc"
    and c: "sp = [] \<and> stop_char c \<or> sp = [CHR '' '']" "\<not> is_space c" "c \<noteq> CHR ''/''"
  shows "arrives lc buf m
    \<lparr>sr_state = S_eatws, sr_saved = S_object_sep, sr_current = JObject (acc @ [(k, v)]), sr_field = None\<rparr> (c # t)"
proof -
  obtain z w where zw: "json_text lc v = z # w" "\<not> is_space z" "z \<noteq> CHR ''/''" using text_start [OF v(2)] by blast
  let ?v = "\<lparr>sr_state = S_object_value, sr_saved = S_object_value, sr_current = JObject acc, sr_field = Some k\<rparr>"
  have "reads buf m (CHR '' '' # CHR 0x22 # escaped k @ [CHR 0x22, CHR '':'', CHR '' ''] @ z # w @ sp @ c # t)"
    using m(3) zw(1) by simp
  from parse_key [OF m(1,2) this k(1) zw(2,3)] show ?thesis
  proof (rule arrives_trans)
    fix m1 :: "'a mach"
    assume m1: "keeps m m1" "good m1" "level m1 = ?v" "reads buf m1 (z # w @ sp @ c # t)"
    have depth: "tk_depth (mc_tok m1) = tk_depth (mc_tok m)" using m1(1) by (simp add: keeps_def)
    have r1: "reads buf m1 (json_text lc v @ sp @ c # t)" using m1(4) zw(1) by simp
    show "arrives lc buf m1
      \<lparr>sr_state = S_eatws, sr_saved = S_object_sep, sr_current = JObject (acc @ [(k, v)]), sr_field = None\<rparr> (c # t)"
    proof (rule parse_child [OF m1(2) _ _ r1 _ c(2,3), where X = S_object_value_add and v = v])
      show "tk_depth (mc_tok m1) < 31" using m(4) depth by simp
      show "tok_step lc buf (- 1) m1 = push_level S_object_value_add m1"
        using m1(3) by (simp add: tok_step_def step_object_value_def)
      show "sp = [] \<or> sp = '' ''" using c(1) by blast
    next
      fix m' :: "'a mach"
      assume m': "good m'" "level m' = fresh_level" "tk_depth (mc_tok m') = Suc (tk_depth (mc_tok m1))"
        "reads buf m' (json_text lc v @ sp @ c # t)"
      obtain y' t' where yt: "sp @ c # t = y' # t'" "stop_char y'" using c(1) by (auto simp: stop_char_def)
      have "nested (31 - tk_depth (mc_tok m')) v" using v(3) m'(3) depth by simp
      then show "arrives lc buf m' (finished v) (sp @ c # t)" using v(1) m' yt by (simp add: parses_def)
    next
      fix m' :: "'a mach"
      assume m': "good m'" "level m' = (level m1)\<lparr>sr_state := S_object_value_add\<rparr>" "mc_obj m' = v"
      let ?f = "\<lambda>r. r\<lparr>sr_current := JObject (acc @ [(k, v)]), sr_field := None, sr_state := S_eatws, sr_saved := S_object_sep\<rparr>"
      have "tok_step lc buf (- 1) m' = Redo (set_level ?f m')"
        using m' m1(3) object_put_new [OF k(2)]
        by (simp add: tok_step_def step_object_value_add_def after_ws_def set_current_def set_level_twice)
      then show "\<exists>f. tok_step lc buf (- 1) m' = Redo (set_level f m') \<and> f ((level m1)\<lparr>sr_state := S_object_value_add\<rparr>) =
          \<lparr>sr_state = S_eatws, sr_saved = S_object_sep, sr_current = JObject (acc @ [(k, v)]), sr_field = None\<rparr>"
        using m1(3) by (intro exI [of _ ?f]) simp
    qed
  qed
qed

lemma parse_entries:
  assumes "\<forall>e\<in>set es. parses lc buf (snd e) \<and> parseable lc (snd e) \<and> nul_free (fst e) \<and>
      nested (30 - tk_depth (mc_tok m)) (snd e)"
    and "distinct (map fst acc @ map fst es)" and "es \<noteq> [] \<Longrightarrow> tk_depth (mc_tok m) < 31"
    and "good m" "level m = \<lparr>sr_state = S_eatws, sr_saved = S_object_field_start, sr_current = JObject acc, sr_field = None\<rparr>"
    and "reads buf m (entries_text lc False es @ '' }'' @ y # s)"
  shows "arrives lc buf m (finished (JObject (acc @ es))) (y # s)"
  using assms
proof (induction es arbitrary: m acc)
  case Nil
  have "arrives lc buf m ((level m)\<lparr>sr_saved := S_finish\<rparr>) (y # s)"
    by (rule punctuation [where X = S_object_field_start and sp = "'' ''" and c = "CHR ''}''"])
       (use Nil in \<open>simp_all add: brackets tok_step_def step_object_field_start_def\<close>)
  then show ?case using Nil.prems(5) by (simp add: finished_def)
next
  case (Cons e es)
  obtain k v where e: "e = (k, v)" by (cases e)
  let ?r = "\<lparr>sr_state = S_eatws, sr_saved = S_object_sep, sr_current = JObject (acc @ [(k, v)]), sr_field = None\<rparr>"
  have kv: "parses lc buf v" "parseable lc v" "nested (30 - tk_depth (mc_tok m)) v" "nul_free k"
    using Cons.prems(1) by (simp_all add: e)
  have kv: "parses lc buf v" "parseable lc v" "nested (30 - tk_depth (mc_tok m)) v" "nul_free k" "k \<notin> fst ` set acc"
    by (rule kv)+ (use Cons.prems(2) in \<open>simp add: e\<close>)
  have d: "tk_depth (mc_tok m) < 31" using Cons.prems(3) by simp
  show ?case
  proof (cases es)
    case Nil
    have r: "reads buf m ([CHR '' '', CHR 0x22] @ escaped k @ [CHR 0x22, CHR '':'', CHR '' ''] @ json_text lc v @
        '' '' @ CHR ''}'' # y # s)" using Cons.prems(6) by (simp add: e Nil)
    have "arrives lc buf m ?r (CHR ''}'' # y # s)"
      by (rule parse_pair [OF Cons.prems(4,5) r d kv]) (simp_all add: brackets)
    then show ?thesis
    proof (rule arrives_trans)
      fix m2 :: "'a mach"
      assume m2: "good m2" "level m2 = ?r" "reads buf m2 (CHR ''}'' # y # s)"
      have "arrives lc buf m2 ((level m2)\<lparr>sr_saved := S_finish\<rparr>) (y # s)"
        by (rule punctuation [where X = S_object_sep and sp = "[]" and c = "CHR ''}''"])
           (use m2 in \<open>simp_all add: brackets tok_step_def step_object_sep_def\<close>)
      then show "arrives lc buf m2 (finished (JObject (acc @ e # es))) (y # s)" using m2(2) by (simp add: finished_def Nil e)
    qed
  next
    case (Cons e2 es2)
    have later: "entries_text lc True es = CHR '','' # entries_text lc False es" unfolding Cons by (rule entries_later)
    let ?t = "entries_text lc False es @ '' }'' @ y # s"
    obtain y' t' where t: "?t = y' # t'" by (cases ?t) auto
    have r: "reads buf m ([CHR '' '', CHR 0x22] @ escaped k @ [CHR 0x22, CHR '':'', CHR '' ''] @ json_text lc v @
        [] @ CHR '','' # ?t)"
      using Cons.prems(6) by (simp add: e later)
    have "arrives lc buf m ?r (CHR '','' # y' # t')"
      unfolding t [symmetric] by (rule parse_pair [OF Cons.prems(4,5) r d kv]) (simp_all add: brackets stop_char_def)
    then show ?thesis
    proof (rule arrives_trans)
      fix m2 :: "'a mach"
      assume m2: "keeps m m2" "good m2" "level m2 = ?r" "reads buf m2 (CHR '','' # y' # t')"
      have "arrives lc buf m2 ((level m2)\<lparr>sr_saved := S_object_field_start\<rparr>) (y' # t')"
        by (rule punctuation [where X = S_object_sep and sp = "[]" and c = "CHR '',''"])
           (use m2 in \<open>simp_all add: brackets tok_step_def step_object_sep_def\<close>)
      then show "arrives lc buf m2 (finished (JObject (acc @ e # es))) (y # s)"
      proof (rule arrives_trans)
        fix m3 :: "'a mach"
        assume m3: "keeps m2 m3" "good m3" "level m3 = (level m2)\<lparr>sr_saved := S_object_field_start\<rparr>" "reads buf m3 (y' # t')"
        have d3: "tk_depth (mc_tok m3) = tk_depth (mc_tok m)" using m2(1) m3(1) by (simp add: keeps_def)
        have "arrives lc buf m3 (finished (JObject ((acc @ [(k, v)]) @ es))) (y # s)"
          by (rule Cons.IH) (use Cons.prems(1,2) d d3 m3 m2(3) t e in auto)
        then show "arrives lc buf m3 (finished (JObject (acc @ e # es))) (y # s)" by (simp add: e)
      qed
    qed
  qed
qed

lemma parses_scalar:
  assumes "parseable lc v" "v = JNull \<or> v = JBool b \<or> v = JInt i \<or> v = JDouble d \<or> v = JString w"
  shows "parses lc buf v"
  unfolding parses_def
proof (intro allI impI)
  fix m :: "'a mach" and y s
  assume m: "good m" "level m = fresh_level" "reads buf m (json_text lc v @ y # s)" "stop_char y"
  note y = stop_char_number [OF m(4)]
  from assms(2) show "arrives lc buf m (finished v) (y # s)"
  proof (elim disjE)
    assume "v = JNull"
    then show ?thesis using parse_null [OF m(1,2)] m(3) by simp
  next
    assume "v = JBool b"
    then show ?thesis using parse_true [OF m(1,2)] parse_false [OF m(1,2)] m(3) assms(1) by (auto split: if_splits)
  next
    assume v: "v = JInt i"
    obtain c w where w: "dec_int i = c # w" "is_digit c \<or> c = CHR ''-''" using dec_int_text by blast
    show ?thesis
      by (rule parse_number [OF m(1,2) _ _ y w])
         (use m(3) v dec_int_text [of i] scan_dec_int [of i "[]"] assms(1) in \<open>simp_all add: w(1) [symmetric]\<close>)
  next
    assume v: "v = JDouble d"
    then obtain c w where w: "fmt_double lc d = c # w" "is_digit c \<or> c = CHR ''-''"
      using assms(1) by (cases "fmt_double lc d") (auto simp: double_text_def Let_def)
    show ?thesis
      by (rule parse_number [OF m(1,2) _ _ y w])
         (use m(3) v assms(1) in \<open>simp_all add: double_text_def Let_def list_all_iff\<close>)
  next
    assume "v = JString w"
    then show ?thesis using parse_string [OF m(1,2)] m(3) assms(1) by simp
  qed
qed

text \<open>The opening bracket.\<close>

lemma parse_open:
  assumes m: "good m" "level m = fresh_level" "reads buf m (c # y # s)"
    and c: "c = CHR ''{'' \<and> X = S_object_field_start \<and> v = JObject [] \<or> c = CHR ''['' \<and> X = S_array \<and> v = JArray []"
  shows "arrives lc buf m \<lparr>sr_state = S_eatws, sr_saved = X, sr_current = v, sr_field = None\<rparr> (y # s)"
proof -
  have "\<not> is_space c" "c \<noteq> CHR ''/''" "c \<noteq> CHR 0x00" using c by (auto simp: is_space_def)
  from start_value [OF m this(1,2)] show ?thesis
  proof (rule arrives_trans)
    fix m1 :: "'a mach"
    assume m1: "good m1" "level m1 = at_start" "reads buf m1 (c # y # s)"
    have "mc_c m1 = c" using m1(3) by (simp add: reads_def)
    then have st: "tok_step lc buf (- 1) m1 = Break (set_current v (after_ws X m1))"
      using c m1(2) by (auto simp: tok_step_def step_start_def at_start_def Let_def)
    show "arrives lc buf m1 \<lparr>sr_state = S_eatws, sr_saved = X, sr_current = v, sr_field = None\<rparr> (y # s)"
      by (rule break_arrives [OF st])
         (use m1 \<open>c \<noteq> CHR 0x00\<close> keeps_refl [OF m1(1)] in
           \<open>simp_all add: set_current_def after_ws_def mach_simps at_start_def\<close>)
  qed
qed

lemma json_parses: "parseable lc v \<Longrightarrow> parses lc buf v"
proof (induction v)
  case (JArray vs)
  show ?case unfolding parses_def
  proof (intro allI impI)
    fix m :: "'a mach" and y s
    assume m: "good m" "level m = fresh_level" "nested (31 - tk_depth (mc_tok m)) (JArray vs)"
      "reads buf m (json_text lc (JArray vs) @ y # s)"
    obtain z w where zw: "items_text lc False vs @ '' ]'' @ y # s = z # w"
      by (cases "items_text lc False vs @ '' ]'' @ y # s") auto
    have "reads buf m (CHR ''['' # z # w)" using m(4) by (simp flip: zw)
    from parse_open [OF m(1,2) this disjI2] have
      "arrives lc buf m \<lparr>sr_state = S_eatws, sr_saved = S_array, sr_current = JArray [], sr_field = None\<rparr> (z # w)" by simp
    then show "arrives lc buf m (finished (JArray vs)) (y # s)"
    proof (rule arrives_trans)
      fix m1 :: "'a mach"
      assume m1: "keeps m m1" "good m1" "reads buf m1 (z # w)"
        "level m1 = \<lparr>sr_state = S_eatws, sr_saved = S_array, sr_current = JArray [], sr_field = None\<rparr>"
      have "tk_depth (mc_tok m1) = tk_depth (mc_tok m)" using m1(1) by (simp add: keeps_def)
      then have "arrives lc buf m1 (finished (JArray ([] @ vs))) (y # s)"
        by (intro parse_items) (use JArray m(3) m1 zw in \<open>auto simp: neq_Nil_conv\<close>)
      then show "arrives lc buf m1 (finished (JArray vs)) (y # s)" by simp
    qed
  qed
next
  case (JObject es)
  have ih: "\<forall>e\<in>set es. parses lc buf (snd e) \<and> parseable lc (snd e) \<and> nul_free (fst e)"
    using JObject by (auto simp: snds.simps)
  show ?case unfolding parses_def
  proof (intro allI impI)
    fix m :: "'a mach" and y s
    assume m: "good m" "level m = fresh_level" "nested (31 - tk_depth (mc_tok m)) (JObject es)"
      "reads buf m (json_text lc (JObject es) @ y # s)"
    obtain z w where zw: "entries_text lc False es @ '' }'' @ y # s = z # w"
      by (cases "entries_text lc False es @ '' }'' @ y # s") auto
    have "reads buf m (CHR ''{'' # z # w)" using m(4) by (simp flip: zw)
    from parse_open [OF m(1,2) this disjI1] have
      "arrives lc buf m \<lparr>sr_state = S_eatws, sr_saved = S_object_field_start, sr_current = JObject [], sr_field = None\<rparr> (z # w)"
      by simp
    then show "arrives lc buf m (finished (JObject es)) (y # s)"
    proof (rule arrives_trans)
      fix m1 :: "'a mach"
      assume m1: "keeps m m1" "good m1" "reads buf m1 (z # w)"
        "level m1 = \<lparr>sr_state = S_eatws, sr_saved = S_object_field_start, sr_current = JObject [], sr_field = None\<rparr>"
      have "tk_depth (mc_tok m1) = tk_depth (mc_tok m)" using m1(1) by (simp add: keeps_def)
      then have "arrives lc buf m1 (finished (JObject ([] @ es))) (y # s)"
        by (intro parse_entries) (use ih JObject.prems m(3) m1 zw in \<open>auto simp: neq_Nil_conv\<close>)
      then show "arrives lc buf m1 (finished (JObject es)) (y # s)" by simp
    qed
  qed
qed (simp_all add: parses_scalar)

lemma replicate_32: "replicate 32 x = x # replicate 31 x"
  by (simp add: numeral_eq_Suc)

lemma fresh_tokener:
  "json_tokener_new = \<lparr>tk_pb = [], tk_depth = 0, tk_is_double = False, tk_st_pos = 0, tk_char_offset = 0, tk_err = E_success,
      tk_ucs = 0, tk_quote = CHR 0x00, tk_stack = fresh_level # replicate 31
        \<lparr>sr_state = S_eatws, sr_saved = S_eatws, sr_current = JNull, sr_field = None\<rparr>\<rparr>"
  by (simp add: json_tokener_new_def json_tokener_reset_def json_tokener_reset_level_def JSON_TOKENER_MAX_DEPTH_def replicate_32)

text \<open>A text that the machine runs through from a fresh level is the whole input: its value is the answer.\<close>

lemma parsed_whole:
  assumes "s = c # w"
    and run: "\<And>m. good m \<Longrightarrow> level m = fresh_level \<Longrightarrow> tk_depth (mc_tok m) = 0 \<Longrightarrow> reads (s @ [CHR 0x00]) m (s @ [CHR 0x00]) \<Longrightarrow>
      arrives lc (s @ [CHR 0x00]) m (finished v) [CHR 0x00]"
  shows "json_tokener_parse lc s = Ret (Inr v)"
proof -
  let ?buf = "s @ [CHR 0x00]"
  let ?m = "\<lparr>mc_c = c, mc_obj = JNull, mc_tok = json_tokener_new :: 'a tokener\<rparr>"
  have pop: "POP_CHAR ?buf (- 1)
      \<lparr>mc_c = CHR 0x01, mc_obj = JNull, mc_tok = json_tokener_new\<lparr>tk_char_offset := 0, tk_err := E_success\<rparr>\<rparr> = Ret (True, ?m)"
    by (simp add: POP_CHAR_def fresh_tokener assms(1))
  have m: "good ?m" "level ?m = fresh_level" "tk_depth (mc_tok ?m) = 0" "reads ?buf ?m ?buf"
    by (simp_all add: good_def level_def reads_def fresh_tokener assms(1))
  from run [OF m] obtain m1 where
    m1: "leads lc ?buf ?m m1" "keeps ?m m1" "good m1" "level m1 = finished v" "reads ?buf m1 [CHR 0x00]" by (rule arrivesE)
  have "arrives lc ?buf m1 ((level m1)\<lparr>sr_state := sr_saved (level m1)\<rparr>) (CHR 0x00 # [])"
    by (rule eatws [where sp = "[]"]) (use m1 in \<open>simp_all add: finished_def is_space_def\<close>)
  then obtain m2 where m2: "leads lc ?buf m1 m2" "keeps m1 m2" "level m2 = (finished v)\<lparr>sr_state := S_finish\<rparr>"
    by (rule arrivesE) (simp add: m1(4) finished_def)
  have d: "tk_depth (mc_tok m2) = 0" "tk_err (mc_tok m2) = E_success"
    using m1(2) m2(2) by (simp_all add: keeps_def fresh_tokener)
  have "parse_loop lc ?buf (- 1) ?m = parse_loop lc ?buf (- 1) m2" using m1(1) m2(1) by (simp add: leads_def)
  also have "\<dots> = Some (Ret m2)"
    using d m2(3) by (subst parse_loop.simps) (simp add: tok_step_def step_finish_def finished_def Let_def)
  finally show ?thesis
    using pop d m2(3) by (simp add: json_tokener_parse_def json_tokener_parse_ex_def at_out_def of_run_def finished_def Let_def)
qed

lemma printed_parses:
  assumes "parseable lc v" "nested 31 v"
  shows "json_tokener_parse lc (json_text lc v) = Ret (Inr v)"
proof -
  obtain c w where "json_text lc v = c # w" using text_start [OF assms(1)] by blast
  then show ?thesis
    using json_parses [OF assms(1)] assms(2) by (rule_tac parsed_whole) (simp_all add: parses_def stop_char_def)
qed

text \<open>C21. What the printer writes the parser reads back: for every value within what JSON text can carry - strings
  without \<open>NUL\<close>, \<open>int\<close>s in range, distinct keys, at most 31 levels of nesting, doubles whose printed text scans
  back - the parser ends without an error, and with that value.\<close>
theorem parse_printed:
  assumes "parseable lc v" "nested 31 v"
  shows "json_tokener_parse lc (json_text lc v) = Ret (Inr v)"
  by (rule printed_parses [OF assms])

lemma parse_printed_witness:
  "json_tokener_parse unit_libc (json_text unit_libc (JArray [JDouble (), sample_json])) =
     Ret (Inr (JArray [JDouble (), sample_json]))"
  by (rule parse_printed)
     (simp_all add: sample_json_def unit_libc_def double_text_def Let_def is_digit_def in_number_chars_def json_number_chars_def)

end
