(* ===== verification/Tokener_Total.thy ===== *)
theory Tokener_Total
  imports Json_Roundtrip
begin

text \<open>
  The parser returns: an invariant of its stack of levels, a rank that every step without a new character
  lowers, and the theorem that the loop ends on every C string without leaving it.
\<close>

section \<open>The invariant of the loop\<close>

definition waits :: "tok_state \<Rightarrow> bool" where
  "waits s \<longleftrightarrow> s \<in> {S_start, S_finish, S_array, S_array_sep, S_object_field_start, S_object_field_end,
     S_object_value, S_object_sep}"

definition quiet :: "tok_state \<Rightarrow> bool" where
  "quiet s \<longleftrightarrow> s \<in> {S_eatws, S_comment_start, S_comment, S_comment_eol, S_comment_end}"

definition escaping :: "tok_state \<Rightarrow> bool" where
  "escaping s \<longleftrightarrow> s = S_string_escape \<or> s = S_escape_unicode"

text \<open>What a state takes for granted of its level.\<close>

definition shaped :: "tok_state \<Rightarrow> 'd srec \<Rightarrow> bool" where
  "shaped s r \<longleftrightarrow>
     (s \<in> {S_array, S_array_add, S_array_sep} \<longrightarrow> (\<exists>vs. sr_current r = JArray vs)) \<and>
     (s \<in> {S_object_field_start, S_object_field, S_object_field_end, S_object_value, S_object_value_add, S_object_sep} \<longrightarrow>
        (\<exists>es. sr_current r = JObject es)) \<and>
     (s \<in> {S_object_field_end, S_object_value, S_object_value_add} \<longrightarrow> sr_field r \<noteq> None)"

definition level_ok :: "'d srec \<Rightarrow> bool" where
  "level_ok r \<longleftrightarrow>
     (if quiet (sr_state r) then waits (sr_saved r) \<and> shaped (sr_saved r) r
      else if escaping (sr_state r) then (sr_saved r = S_string \<or> sr_saved r = S_object_field) \<and> shaped (sr_saved r) r
      else shaped (sr_state r) r)"

definition below_ok :: "'d srec \<Rightarrow> bool" where
  "below_ok r \<longleftrightarrow> (sr_state r = S_array_add \<or> sr_state r = S_object_value_add) \<and> shaped (sr_state r) r"

definition tok_ok :: "'d mach \<Rightarrow> bool" where
  "tok_ok m \<longleftrightarrow> good m \<and> level_ok (level m) \<and> (\<forall>i < tk_depth (mc_tok m). below_ok (tk_stack (mc_tok m) ! i)) \<and>
     (sr_state (level m) = S_escape_unicode \<longrightarrow> tk_st_pos (mc_tok m) = 0) \<and>
     (sr_state (level m) = S_number \<longrightarrow> tk_pb (mc_tok m) = [])"

definition at_char :: "string \<Rightarrow> 'd mach \<Rightarrow> bool" where
  "at_char buf m \<longleftrightarrow> tk_char_offset (mc_tok m) < length buf \<and> mc_c m = buf ! tk_char_offset (mc_tok m)"

text \<open>Every step that does not read on goes down in this rank.\<close>

fun state_rank :: "tok_state \<Rightarrow> nat" where
  "state_rank S_array_sep = 0"
| "state_rank S_object_sep = 0"
| "state_rank S_array_add = 1"
| "state_rank S_object_value_add = 1"
| "state_rank S_finish = 2"
| "state_rank S_null = 3"
| "state_rank S_boolean = 3"
| "state_rank S_number = 3"
| "state_rank S_start = 4"
| "state_rank S_array = 5"
| "state_rank S_object_value = 5"
| "state_rank _ = 0"

definition rank :: "'d srec \<Rightarrow> nat" where
  "rank r = (if quiet (sr_state r) then 2 * state_rank (sr_saved r) + 1 else 2 * state_rank (sr_state r))"

definition left :: "string \<Rightarrow> 'd mach \<Rightarrow> nat" where
  "left buf m = length buf - tk_char_offset (mc_tok m)"

lemma advance:
  assumes "at_char (s @ [CHR 0x00]) m" "mc_c m \<noteq> CHR 0x00"
  shows "\<exists>y. next_char (s @ [CHR 0x00]) (- 1) m = Ret (True, moved y m) \<and> at_char (s @ [CHR 0x00]) (moved y m)"
proof -
  let ?i = "tk_char_offset (mc_tok m)"
  have "?i \<noteq> length s" using assms by (auto simp: at_char_def)
  then have "Suc ?i < length (s @ [CHR 0x00])" using assms(1) by (simp add: at_char_def)
  then show ?thesis
    using assms(2) by (simp add: next_char_def ADVANCE_CHAR_def POP_CHAR_def moved_def at_char_def)
qed

lemma ends: "mc_c m = CHR 0x00 \<Longrightarrow> \<exists>m'. next_char buf len m = Ret (False, m')"
  by (simp add: next_char_def ADVANCE_CHAR_def)

text \<open>A tight loop runs over a segment of the input and stops inside it, or ends at the terminator.\<close>

lemma scan_segment:
  assumes "at_char (s @ [CHR 0x00]) m"
  shows "(\<exists>xs y. scan_run (s @ [CHR 0x00]) (- 1) P m acc = Ret (True, acc @ xs, moved_n (length xs) y m) \<and>
       xs = take (length xs) (drop (tk_char_offset (mc_tok m)) (s @ [CHR 0x00])) \<and> list_all (\<lambda>c. P c \<and> c \<noteq> CHR 0x00) xs \<and>
       \<not> P y \<and> at_char (s @ [CHR 0x00]) (moved_n (length xs) y m)) \<or>
     (\<exists>xs m'. scan_run (s @ [CHR 0x00]) (- 1) P m acc = Ret (False, xs, m'))"
  using assms
proof (induction "left (s @ [CHR 0x00]) m" arbitrary: m acc rule: less_induct)
  case less
  let ?buf = "s @ [CHR 0x00]"
  show ?case
  proof (cases "P (mc_c m)")
    case False
    then show ?thesis
      using less.prems by (intro disjI1 exI [of _ "[]"] exI [of _ "mc_c m"]) (simp add: scan_run.simps moved_n_0)
  next
    case P: True
    show ?thesis
    proof (cases "mc_c m = CHR 0x00")
      case True
      then show ?thesis using P ends [of m ?buf "- 1"] by (subst scan_run.simps) auto
    next
      case False
      obtain y where y: "next_char ?buf (- 1) m = Ret (True, moved y m)" "at_char ?buf (moved y m)"
        using advance [OF less.prems False] by blast
      have "left ?buf (moved y m) < left ?buf m" using less.prems by (auto simp: left_def at_char_def moved_def)
      note ih = less.hyps [OF this y(2), of "acc @ [mc_c m]"]
      have off: "tk_char_offset (mc_tok (moved y m)) = Suc (tk_char_offset (mc_tok m))" by (simp add: moved_def)
      have dr: "drop (tk_char_offset (mc_tok m)) ?buf = mc_c m # drop (Suc (tk_char_offset (mc_tok m))) ?buf"
        using Cons_nth_drop_Suc [of "tk_char_offset (mc_tok m)" ?buf] less.prems by (simp add: at_char_def del: drop_append)
      have run: "scan_run ?buf (- 1) P m acc = scan_run ?buf (- 1) P (moved y m) (acc @ [mc_c m])"
        using P y(1) by (subst scan_run.simps) simp
      from ih show ?thesis
      proof
        assume "\<exists>xs z. scan_run ?buf (- 1) P (moved y m) (acc @ [mc_c m]) =
            Ret (True, (acc @ [mc_c m]) @ xs, moved_n (length xs) z (moved y m)) \<and>
          xs = take (length xs) (drop (tk_char_offset (mc_tok (moved y m))) ?buf) \<and> list_all (\<lambda>c. P c \<and> c \<noteq> CHR 0x00) xs \<and>
          \<not> P z \<and> at_char ?buf (moved_n (length xs) z (moved y m))"
        then obtain xs z where *: "scan_run ?buf (- 1) P (moved y m) (acc @ [mc_c m]) =
            Ret (True, (acc @ [mc_c m]) @ xs, moved_n (length xs) z (moved y m))"
          "xs = take (length xs) (drop (Suc (tk_char_offset (mc_tok m))) ?buf)" "list_all (\<lambda>c. P c \<and> c \<noteq> CHR 0x00) xs"
          "\<not> P z" "at_char ?buf (moved_n (length xs) z (moved y m))" unfolding off by blast
        show ?thesis
          by (intro disjI1 exI [of _ "mc_c m # xs"] exI [of _ z])
             (use * P False in \<open>simp add: run dr moved_n_moved del: drop_append\<close>)
      next
        assume "\<exists>xs m'. scan_run ?buf (- 1) P (moved y m) (acc @ [mc_c m]) = Ret (False, xs, m')"
        then show ?thesis unfolding run by blast
      qed
    qed
  qed
qed


section \<open>One step\<close>

definition closer :: "string \<Rightarrow> 'd mach \<Rightarrow> 'd mach \<Rightarrow> bool" where
  "closer buf m1 m \<longleftrightarrow> left buf m1 < left buf m \<or> left buf m1 = left buf m \<and> rank (level m1) < rank (level m)"

definition segment :: "string \<Rightarrow> string \<Rightarrow> bool" where
  "segment w s \<longleftrightarrow> (\<exists>a b. s = a @ w @ b)"

definition goes_on :: "string \<Rightarrow> 'd mach \<Rightarrow> 'd step \<Rightarrow> bool" where
  "goes_on s m st \<longleftrightarrow>
     (case st of
        Redo m1 \<Rightarrow> tok_ok m1 \<and> at_char (s @ [CHR 0x00]) m1 \<and> closer (s @ [CHR 0x00]) m1 m
      | Break m1 \<Rightarrow> tok_ok m1 \<and> at_char (s @ [CHR 0x00]) m1 \<and> left (s @ [CHR 0x00]) m1 \<le> left (s @ [CHR 0x00]) m
      | Goto_out m1 \<Rightarrow> True
      | Bad \<Rightarrow> \<exists>w. segment w s \<and> scan_int w = Undefined)"

lemma goes_on_simps [simp]:
  "goes_on s m (Redo m1) \<longleftrightarrow> tok_ok m1 \<and> at_char (s @ [CHR 0x00]) m1 \<and> closer (s @ [CHR 0x00]) m1 m"
  "goes_on s m (Break m1) \<longleftrightarrow> tok_ok m1 \<and> at_char (s @ [CHR 0x00]) m1 \<and> left (s @ [CHR 0x00]) m1 \<le> left (s @ [CHR 0x00]) m"
  "goes_on s m (Goto_out m1)"
  by (simp_all add: goes_on_def)

lemma at_char_keep [mach_simps]:
  "at_char buf (set_level f m) = at_char buf m" "at_char buf (pb_set x m) = at_char buf m"
  "at_char buf (pb_add x m) = at_char buf m" "at_char buf (set_st_pos n m) = at_char buf m"
  "at_char buf (set_ucs u m) = at_char buf m"
  "at_char buf (m\<lparr>mc_tok := (mc_tok m)\<lparr>tk_quote := q\<rparr>\<rparr>) = at_char buf m"
  "at_char buf (m\<lparr>mc_tok := (mc_tok m)\<lparr>tk_is_double := b\<rparr>\<rparr>) = at_char buf m"
  by (simp_all add: at_char_def mach_defs)

lemma left_keep [mach_simps]:
  "left buf (set_level f m) = left buf m" "left buf (pb_set x m) = left buf m"
  "left buf (pb_add x m) = left buf m" "left buf (set_st_pos n m) = left buf m"
  "left buf (set_ucs u m) = left buf m"
  "left buf (moved_n n y m) = left buf m - n" "left buf (moved y m) = left buf m - 1"
  "left buf (m\<lparr>mc_tok := (mc_tok m)\<lparr>tk_quote := q\<rparr>\<rparr>) = left buf m"
  "left buf (m\<lparr>mc_tok := (mc_tok m)\<lparr>tk_is_double := b\<rparr>\<rparr>) = left buf m"
  by (simp_all add: left_def mach_defs moved_n_def)

lemma quote_pb_keep [mach_simps]:
  "tk_pb (mc_tok (m\<lparr>mc_tok := (mc_tok m)\<lparr>tk_quote := q\<rparr>\<rparr>)) = tk_pb (mc_tok m)"
  "tk_pb (mc_tok (m\<lparr>mc_tok := (mc_tok m)\<lparr>tk_is_double := b\<rparr>\<rparr>)) = tk_pb (mc_tok m)"
  "tk_st_pos (mc_tok (moved_n n y m)) = tk_st_pos (mc_tok m)"
  by (simp_all add: moved_n_def)

lemmas step_simps = mach_simps set_state_def after_ws_def set_current_def closer_def rank_def
  quiet_def escaping_def level_ok_def shaped_def waits_def

text \<open>What is left of the invariant to show after a step that stays at its level.\<close>

lemma tok_okI:
  assumes "tok_ok m" "keeps m m1" "level_ok (level m1)"
    and "sr_state (level m1) = S_escape_unicode \<Longrightarrow> tk_st_pos (mc_tok m1) = 0"
    and "sr_state (level m1) = S_number \<Longrightarrow> tk_pb (mc_tok m1) = []"
  shows "tok_ok m1"
  using assms by (auto simp: tok_ok_def keeps_def)

lemma tok_ok_keeps: "tok_ok m \<Longrightarrow> keeps m m"
  by (simp add: tok_ok_def keeps_refl)

lemma tok_ok_good: "tok_ok m \<Longrightarrow> good m"
  by (simp add: tok_ok_def)

lemma step_start_goes:
  assumes "tok_ok m" "at_char (s @ [CHR 0x00]) m" "sr_state (level m) = S_start"
  shows "goes_on s m (step_start m)"
  using assms tok_ok_good [OF assms(1)] tok_ok_keeps [OF assms(1)]
  by (auto simp: step_start_def Let_def step_simps intro!: tok_okI [OF assms(1)])


lemma tok_ok_level: "tok_ok m \<Longrightarrow> level_ok (level m)"
  by (simp add: tok_ok_def)

lemma step_literals_go:
  assumes "tok_ok m" "at_char (s @ [CHR 0x00]) m"
  shows "sr_state (level m) = S_null \<Longrightarrow> goes_on s m (step_null m)"
    and "sr_state (level m) = S_boolean \<Longrightarrow> goes_on s m (step_boolean m)"
  using assms tok_ok_good [OF assms(1)] tok_ok_keeps [OF assms(1)]
  by (auto simp: step_null_def step_boolean_def Let_def step_simps intro!: tok_okI [OF assms(1)])


lemma shaped_now:
  "tok_ok m \<Longrightarrow> sr_state (level m) = X \<Longrightarrow> \<not> quiet X \<Longrightarrow> \<not> escaping X \<Longrightarrow> shaped X (level m)"
  using tok_ok_level by (fastforce simp: level_ok_def)

lemma shaped_next:
  "tok_ok m \<Longrightarrow> sr_state (level m) = X \<Longrightarrow> quiet X \<Longrightarrow> waits (sr_saved (level m)) \<and> shaped (sr_saved (level m)) (level m)"
  using tok_ok_level by (fastforce simp: level_ok_def)

lemma tok_ok_same:
  assumes "tok_ok m" "keeps m m1"
  shows "tok_ok m1 \<longleftrightarrow> level_ok (level m1) \<and>
    (sr_state (level m1) = S_escape_unicode \<longrightarrow> tk_st_pos (mc_tok m1) = 0) \<and>
    (sr_state (level m1) = S_number \<longrightarrow> tk_pb (mc_tok m1) = [])"
  using assms by (auto simp: tok_ok_def keeps_def)

lemma step_separators_go:
  assumes "tok_ok m" "at_char (s @ [CHR 0x00]) m"
  shows "sr_state (level m) = S_array_sep \<Longrightarrow> goes_on s m (step_array_sep m)"
    and "sr_state (level m) = S_object_field_start \<Longrightarrow> goes_on s m (step_object_field_start m)"
    and "sr_state (level m) = S_object_field_end \<Longrightarrow> goes_on s m (step_object_field_end m)"
    and "sr_state (level m) = S_object_sep \<Longrightarrow> goes_on s m (step_object_sep m)"
    and "sr_state (level m) = S_array_add \<Longrightarrow> goes_on s m (step_array_add m)"
    and "sr_state (level m) = S_object_value_add \<Longrightarrow> goes_on s m (step_object_value_add m)"
proof -
  note facts = assms(2) shaped_now [OF assms(1)] tok_ok_good [OF assms(1)] tok_ok_keeps [OF assms(1)]
  note simps = step_simps tok_ok_same [OF assms(1)]
  show "sr_state (level m) = S_array_sep \<Longrightarrow> goes_on s m (step_array_sep m)"
    using facts by (simp add: step_array_sep_def simps)
  show "sr_state (level m) = S_object_field_start \<Longrightarrow> goes_on s m (step_object_field_start m)"
    using facts by (simp add: step_object_field_start_def Let_def simps)
  show "sr_state (level m) = S_object_field_end \<Longrightarrow> goes_on s m (step_object_field_end m)"
    using facts by (simp add: step_object_field_end_def simps)
  show "sr_state (level m) = S_object_sep \<Longrightarrow> goes_on s m (step_object_sep m)"
    using facts by (simp add: step_object_sep_def simps)
  show "sr_state (level m) = S_array_add \<Longrightarrow> goes_on s m (step_array_add m)"
    using facts by (auto simp: step_array_add_def simps)
  show "sr_state (level m) = S_object_value_add \<Longrightarrow> goes_on s m (step_object_value_add m)"
    using facts by (auto simp: step_object_value_add_def simps)
qed

lemma shaped_text:
  assumes "tok_ok m" "escaping (sr_state (level m))"
  shows "sr_saved (level m) = S_string \<or> sr_saved (level m) = S_object_field \<and> (\<exists>es. sr_current (level m) = JObject es)"
  using tok_ok_level [OF assms(1)] assms(2) by (auto simp: level_ok_def escaping_def quiet_def shaped_def)

lemma step_comments_go:
  assumes "tok_ok m" "at_char (s @ [CHR 0x00]) m"
  shows "sr_state (level m) = S_comment_start \<Longrightarrow> goes_on s m (step_comment_start m)"
    and "sr_state (level m) = S_comment_end \<Longrightarrow> goes_on s m (step_comment_end m)"
    and "sr_state (level m) = S_string_escape \<Longrightarrow> goes_on s m (step_string_escape m)"
proof -
  note facts = assms(2) shaped_next [OF assms(1)] tok_ok_good [OF assms(1)] tok_ok_keeps [OF assms(1)]
  note simps = mach_simps set_state_def level_ok_def quiet_def tok_ok_same [OF assms(1)]
  show "sr_state (level m) = S_comment_start \<Longrightarrow> goes_on s m (step_comment_start m)"
    using facts by (simp add: step_comment_start_def shaped_def simps)
  show "sr_state (level m) = S_comment_end \<Longrightarrow> goes_on s m (step_comment_end m)"
    using facts by (simp add: step_comment_end_def shaped_def Let_def simps)
  assume st: "sr_state (level m) = S_string_escape"
  have sv: "sr_saved (level m) = S_string \<or> sr_saved (level m) = S_object_field \<and> (\<exists>es. sr_current (level m) = JObject es)"
    using shaped_text [OF assms(1)] st by (simp add: escaping_def)
  have plain: "goes_on s m (Break (set_state (sr_saved (level m)) (pb_add w m)))" for w
    using sv facts(1,3,4) st by (elim disjE) (auto simp: shaped_def escaping_def simps)
  have "goes_on s m (Break (let m1 = set_st_pos 0 (set_state S_escape_unicode m) in m1\<lparr>mc_tok := (mc_tok m1)\<lparr>tk_ucs := 0\<rparr>\<rparr>))"
    using sv facts(1,3,4) st
    by (elim disjE) (simp_all add: shaped_def escaping_def Let_def set_ucs_def [symmetric] simps)
  then show "goes_on s m (step_string_escape m)" by (simp add: step_string_escape_def Let_def plain del: goes_on_simps(1,2))
qed

lemma after_scan_goes:
  assumes "at_char (s @ [CHR 0x00]) m"
    and "\<And>xs y. xs = take (length xs) (drop (tk_char_offset (mc_tok m)) (s @ [CHR 0x00])) \<Longrightarrow>
      list_all (\<lambda>c. P c \<and> c \<noteq> CHR 0x00) xs \<Longrightarrow> \<not> P y \<Longrightarrow> at_char (s @ [CHR 0x00]) (moved_n (length xs) y m) \<Longrightarrow>
      goes_on s m (stopped xs (moved_n (length xs) y m))"
  shows "goes_on s m (after_scan (scan_run (s @ [CHR 0x00]) (- 1) P m []) stopped ended)"
  using scan_segment [OF assms(1), of P "[]"] assms(2) by (auto simp: after_scan_def)

lemma step_texts_go:
  assumes "tok_ok m" "at_char (s @ [CHR 0x00]) m"
  shows "sr_state (level m) = S_comment \<Longrightarrow> goes_on s m (step_comment (s @ [CHR 0x00]) (- 1) m)"
    and "sr_state (level m) = S_comment_eol \<Longrightarrow> goes_on s m (step_comment_eol (s @ [CHR 0x00]) (- 1) m)"
    and "sr_state (level m) = S_eatws \<Longrightarrow> goes_on s m (step_eatws (s @ [CHR 0x00]) (- 1) m)"
    and "sr_state (level m) = S_string \<Longrightarrow> goes_on s m (step_string (s @ [CHR 0x00]) (- 1) m)"
    and "sr_state (level m) = S_object_field \<Longrightarrow> goes_on s m (step_object_field (s @ [CHR 0x00]) (- 1) m)"
proof -
  note facts = tok_ok_good [OF assms(1)] tok_ok_keeps [OF assms(1)]
  note simps = mach_simps set_state_def after_ws_def set_current_def level_ok_def quiet_def tok_ok_same [OF assms(1)]
  show "sr_state (level m) = S_comment \<Longrightarrow> goes_on s m (step_comment (s @ [CHR 0x00]) (- 1) m)"
    unfolding step_comment_def using facts shaped_next [OF assms(1)]
    by (intro after_scan_goes assms(2)) (simp add: shaped_def simps)
  show "sr_state (level m) = S_comment_eol \<Longrightarrow> goes_on s m (step_comment_eol (s @ [CHR 0x00]) (- 1) m)"
    unfolding step_comment_eol_def using facts shaped_next [OF assms(1)]
    by (intro after_scan_goes assms(2)) (simp add: shaped_def simps)
  show "sr_state (level m) = S_string \<Longrightarrow> goes_on s m (step_string (s @ [CHR 0x00]) (- 1) m)"
    unfolding step_string_def using facts
    by (intro after_scan_goes assms(2)) (auto simp: shaped_def waits_def escaping_def Let_def simps)
  show "sr_state (level m) = S_object_field \<Longrightarrow> goes_on s m (step_object_field (s @ [CHR 0x00]) (- 1) m)"
    unfolding step_object_field_def using facts shaped_now [OF assms(1)]
    by (intro after_scan_goes assms(2)) (auto simp: shaped_def waits_def escaping_def Let_def simps)
  assume st: "sr_state (level m) = S_eatws"
  then have sh: "waits (sr_saved (level m))" "shaped (sr_saved (level m)) (level m)"
    using shaped_next [OF assms(1)] by (simp_all add: quiet_def)
  show "goes_on s m (step_eatws (s @ [CHR 0x00]) (- 1) m)"
    unfolding step_eatws_def
  proof (rule after_scan_goes [OF assms(2)])
    fix xs y
    let ?m1 = "moved_n (length xs) y m"
    assume a: "at_char (s @ [CHR 0x00]) ?m1"
    have w: "\<not> quiet (sr_saved (level m))" "\<not> escaping (sr_saved (level m))" "sr_saved (level m) \<noteq> S_number"
      "sr_saved (level m) \<noteq> S_escape_unicode"
      using sh(1) by (auto simp: waits_def quiet_def escaping_def)
    have "goes_on s m (Break (set_state S_comment_start (pb_set w ?m1)))" for w
      using a facts sh by (simp add: shaped_def simps)
    moreover have "level_ok ((level m)\<lparr>sr_state := sr_saved (level m)\<rparr>)"
      using w sh(2) by (simp add: level_ok_def shaped_def)
    then have "goes_on s m (Redo (set_state (sr_saved (level m)) ?m1))"
      using a facts st w by (simp add: mach_simps set_state_def tok_ok_same [OF assms(1)] closer_def rank_def) (simp add: quiet_def, arith)
    ultimately show "goes_on s m (if mc_c ?m1 = CHR ''/'' then Break (set_state S_comment_start (pb_set [mc_c ?m1] ?m1))
        else Redo (set_state (sr_saved (level ?m1)) ?m1))"
      unfolding moved_n_keep by (simp only: split: if_split) blast
  qed
qed

lemma segment_of_text:
  assumes "xs = take (length xs) (drop n (s @ [CHR 0x00]))" "list_all (\<lambda>c. P c \<and> c \<noteq> CHR 0x00) xs"
  shows "segment xs s"
proof (cases "n + length xs \<le> length s")
  case True
  then have "xs = take (length xs) (drop n s)" using assms(1) by simp
  then have "s = take n s @ xs @ drop (n + length xs) s" by (metis append_take_drop_id add.commute drop_drop)
  then show ?thesis unfolding segment_def by blast
next
  case False
  show ?thesis
  proof (cases "xs = []")
    case True
    then show ?thesis by (auto simp: segment_def)
  next
    case ne: False
    have "length xs \<le> length (drop n (s @ [CHR 0x00]))" by (metis assms(1) length_take min.cobounded1 min.commute)
    then have len: "n + length xs = Suc (length s)" using False ne by (cases "n \<le> Suc (length s)") auto
    then have "last xs = CHR 0x00" using ne assms(1) by (cases "n \<le> length s") auto
    then show ?thesis using assms(2) ne by (auto simp: list_all_iff)
  qed
qed

lemma step_number_goes:
  assumes "tok_ok m" "at_char (s @ [CHR 0x00]) m" "sr_state (level m) = S_number"
  shows "goes_on s m (step_number lc (s @ [CHR 0x00]) (- 1) m)"
  unfolding step_number_def
proof (rule after_scan_goes [OF assms(2)])
  fix xs :: string and y
  let ?m1 = "moved_n (length xs) y m"
  let ?m2 = "number_add xs ?m1"
  assume xs: "xs = take (length xs) (drop (tk_char_offset (mc_tok m)) (s @ [CHR 0x00]))"
    "list_all (\<lambda>c. in_number_chars c \<and> c \<noteq> CHR 0x00) xs" and a: "at_char (s @ [CHR 0x00]) ?m1"
  note facts = tok_ok_good [OF assms(1)] tok_ok_keeps [OF assms(1)]
  have pb: "tk_pb (mc_tok m) = []" using assms(1,3) by (simp add: tok_ok_def)
  have "c_string xs = xs" using xs(2) by (auto simp: c_string_def takeWhile_eq_all_conv list_all_iff)
  then have tx: "c_string (tk_pb (mc_tok ?m2)) = xs" by (simp add: number_add_def Let_def mach_simps pb)
  have ended: "goes_on s m (Redo (after_ws S_finish (set_current v ?m2)))" for v
    using a facts assms(3)
    by (simp add: step_simps tok_ok_same [OF assms(1)] number_add_def Let_def) auto
  have "goes_on s m Bad" if "scan_int xs = Undefined"
    using that segment_of_text [OF xs] by (auto simp: goes_on_def)
  moreover have "scan_int xs \<noteq> Blocks" "scan_int xs \<noteq> Aborts" by (simp_all add: scan_int_def Let_def)
  ultimately show "goes_on s m
     (let m2 = ?m2; tx = c_string (tk_pb (mc_tok m2)); done = \<lambda>v. Redo (after_ws S_finish (set_current v m2));
          failed = Goto_out (set_err E_parse_number m2)
      in if \<not> tk_is_double (mc_tok m2)
         then case scan_int tx of Ret None \<Rightarrow> failed | Ret (Some i) \<Rightarrow> done (JInt i) | _ \<Rightarrow> Bad
         else case scan_double lc tx of None \<Rightarrow> failed | Some d \<Rightarrow> done (JDouble d))"
    unfolding Let_def tx by (auto simp: ended simp del: goes_on_simps(1,2) split: outcome.splits option.splits)
qed

lemma push_goes:
  assumes "tok_ok m" "at_char (s @ [CHR 0x00]) m" "rank (level m) = 10" "below_ok ((level m)\<lparr>sr_state := X\<rparr>)"
  shows "goes_on s m (push_level X m)"
proof (cases "tk_depth (mc_tok m) < 31")
  case True
  let ?d = "tk_depth (mc_tok m)"
  have len: "length (tk_stack (mc_tok m)) = 32" "?d < 32" using assms(1) by (simp_all add: tok_ok_def good_def)
  define m1 where "m1 = (set_state X m)\<lparr>mc_tok := json_tokener_reset_level (?d + 1) ((mc_tok (set_state X m))\<lparr>tk_depth := ?d + 1\<rparr>)\<rparr>"
  have p: "push_level X m = Redo m1"
    using True by (simp add: push_level_def JSON_TOKENER_MAX_DEPTH_def m1_def Let_def set_state_def mach_simps)
  have s1: "tk_stack (mc_tok m1) = (tk_stack (mc_tok m))[?d := (level m)\<lparr>sr_state := X\<rparr>, Suc ?d := fresh_level]"
    "tk_depth (mc_tok m1) = Suc ?d" "tk_char_offset (mc_tok m1) = tk_char_offset (mc_tok m)" "mc_c m1 = mc_c m"
    by (simp_all add: m1_def set_state_def set_level_def json_tokener_reset_level_def)
  have l1: "level m1 = fresh_level" using len True by (simp add: level_def s1)
  have "below_ok (tk_stack (mc_tok m1) ! i)" if "i < Suc ?d" for i
    using that assms(1,4) len by (cases "i = ?d") (simp_all add: s1 tok_ok_def)
  then have "tok_ok m1"
    using len True l1 by (simp add: tok_ok_def good_def s1 fresh_level_def level_ok_def quiet_def waits_def shaped_def)
  moreover have "closer (s @ [CHR 0x00]) m1 m"
    using assms(3) by (simp add: closer_def left_def s1 l1) (simp add: rank_def fresh_level_def quiet_def)
  ultimately show ?thesis using assms(2) by (simp add: p at_char_def s1)
next
  case False
  then show ?thesis by (simp add: push_level_def JSON_TOKENER_MAX_DEPTH_def)
qed

lemma step_push_go:
  assumes "tok_ok m" "at_char (s @ [CHR 0x00]) m"
  shows "sr_state (level m) = S_array \<Longrightarrow> goes_on s m (step_array m)"
    and "sr_state (level m) = S_object_value \<Longrightarrow> goes_on s m (step_object_value m)"
proof -
  note sh = shaped_now [OF assms(1)]
  assume st: "sr_state (level m) = S_array"
  then have "shaped S_array (level m)" using sh by (simp add: quiet_def escaping_def)
  then have "goes_on s m (push_level S_array_add m)"
    using st by (intro push_goes assms) (simp_all add: rank_def quiet_def below_ok_def shaped_def)
  then show "goes_on s m (step_array m)"
    using assms tok_ok_good [OF assms(1)] tok_ok_keeps [OF assms(1)]
    by (simp add: step_array_def step_simps tok_ok_same [OF assms(1)])
next
  assume st: "sr_state (level m) = S_object_value"
  then have "shaped S_object_value (level m)" using shaped_now [OF assms(1)] by (simp add: quiet_def escaping_def)
  then show "goes_on s m (step_object_value m)"
    unfolding step_object_value_def
    using st by (intro push_goes assms) (simp_all add: rank_def quiet_def below_ok_def shaped_def)
qed

lemma step_finish_goes:
  assumes "tok_ok m" "at_char (s @ [CHR 0x00]) m" "sr_state (level m) = S_finish"
  shows "goes_on s m (step_finish m)"
proof (cases "tk_depth (mc_tok m)")
  case 0
  then show ?thesis by (simp add: step_finish_def)
next
  case (Suc d)
  define m1 where "m1 = m\<lparr>mc_obj := sr_current (level m), mc_tok := (json_tokener_reset_level (Suc d) (mc_tok m))\<lparr>tk_depth := d\<rparr>\<rparr>"
  have p: "step_finish m = Redo m1" using Suc by (simp add: step_finish_def m1_def Let_def)
  have s1: "tk_stack (mc_tok m1) = (tk_stack (mc_tok m))[Suc d := fresh_level]" "tk_depth (mc_tok m1) = d"
    "tk_char_offset (mc_tok m1) = tk_char_offset (mc_tok m)" "mc_c m1 = mc_c m"
    by (simp_all add: m1_def json_tokener_reset_level_def)
  have b: "below_ok (tk_stack (mc_tok m) ! i)" if "i < Suc d" for i using that assms(1) Suc by (simp add: tok_ok_def)
  have l1: "below_ok (level m1)" using b [of d] by (simp add: level_def s1)
  then have l: "level_ok (level m1)" "rank (level m1) = 2" "sr_state (level m1) \<noteq> S_escape_unicode" "sr_state (level m1) \<noteq> S_number"
    by (auto simp: below_ok_def level_ok_def quiet_def escaping_def rank_def)
  have "tok_ok m1" using assms(1) l b Suc by (simp add: tok_ok_def good_def s1)
  moreover have "closer (s @ [CHR 0x00]) m1 m" using l(2) assms(3) by (simp add: closer_def left_def s1) (simp add: rank_def quiet_def)
  ultimately show ?thesis using assms(2) by (simp add: p at_char_def s1)
qed

lemma step_unicode_goes:
  assumes "good m" "at_char (s @ [CHR 0x00]) m" "tk_st_pos (mc_tok m) \<le> 3" "keeps m0 m" "tok_ok m0" "level m = level m0"
    "left (s @ [CHR 0x00]) m \<le> left (s @ [CHR 0x00]) m0" "sr_state (level m0) = S_escape_unicode"
  shows "goes_on s m0 (step_escape_unicode (s @ [CHR 0x00]) (- 1) m)"
  using assms
proof (induction "s @ [CHR 0x00]" "- 1 :: int" m rule: step_escape_unicode.induct)
  case (1 m)
  let ?buf = "s @ [CHR 0x00]" and ?m1 = "add_digit m"
  have sv: "sr_saved (level m) = S_string \<or> sr_saved (level m) = S_object_field \<and> (\<exists>es. sr_current (level m) = JObject es)"
    using shaped_text [OF 1(6)] 1(7,9) by (simp add: escaping_def)
  have full: "goes_on s m0 (Break (set_state (sr_saved (level ?m1)) (pb_add w ?m1)))" for w
    using sv 1(2-9)
    by (elim disjE)
       (auto simp: shaped_def escaping_def quiet_def set_state_def mach_simps level_ok_def tok_ok_same [OF 1(6)]
          add_digit_def)
  show ?case
  proof (cases "in_hex_chars (mc_c m) \<and> tk_st_pos (mc_tok ?m1) \<noteq> 4 \<and> mc_c m \<noteq> CHR 0x00")
    case True
    have a: "at_char ?buf ?m1" using 1(3) by (simp add: add_digit_def mach_simps)
    then obtain y where y: "next_char ?buf (- 1) ?m1 = Ret (True, moved y ?m1)" "at_char ?buf (moved y ?m1)"
      using advance [OF a] True by (auto simp: mach_simps)
    have "goes_on s m0 (step_escape_unicode ?buf (- 1) (moved y ?m1))"
      by (rule 1(1)) (use 1(2-9) True y in \<open>simp_all add: mach_simps add_digit_def\<close>)
    then show ?thesis using True y(1) 1(4) by (subst step_escape_unicode.simps) (simp add: Let_def)
  next
    case False
    then show ?thesis using 1(4) full ends [of ?m1 ?buf "- 1"]
      by (subst step_escape_unicode.simps) (auto simp: Let_def mach_simps simp del: goes_on_simps(1,2))
  qed
qed

lemma tok_step_goes:
  assumes "tok_ok m" "at_char (s @ [CHR 0x00]) m"
  shows "goes_on s m (tok_step lc (s @ [CHR 0x00]) (- 1) m)"
proof -
  have "goes_on s m (step_escape_unicode (s @ [CHR 0x00]) (- 1) m)" if "sr_state (level m) = S_escape_unicode"
    using assms that tok_ok_good [OF assms(1)] tok_ok_keeps [OF assms(1)]
    by (intro step_unicode_goes) (simp_all add: tok_ok_def)
  then show ?thesis
    using step_start_goes [OF assms] step_literals_go [OF assms] step_separators_go [OF assms] step_comments_go [OF assms]
      step_texts_go [OF assms] step_number_goes [OF assms] step_push_go [OF assms] step_finish_goes [OF assms]
    by (cases "sr_state (level m)") (simp_all add: tok_step_def del: goes_on_simps)
qed

section \<open>The parser returns\<close>

lemma parse_loop_returns:
  assumes "tok_ok m" "at_char (s @ [CHR 0x00]) m"
  shows "\<exists>r. parse_loop lc (s @ [CHR 0x00]) (- 1) m = Some r \<and>
    (r = Undefined \<longrightarrow> (\<exists>w. segment w s \<and> scan_int w = Undefined)) \<and> r \<noteq> Blocks \<and> r \<noteq> Aborts"
  using assms
proof (induction "(left (s @ [CHR 0x00]) m, rank (level m))" arbitrary: m rule: wf_induct [OF wf_lex_prod [OF wf_less wf_less]])
  case less: 1
  let ?buf = "s @ [CHR 0x00]"
  have ih: "\<exists>r. parse_loop lc ?buf (- 1) m' = Some r \<and> (r = Undefined \<longrightarrow> (\<exists>w. segment w s \<and> scan_int w = Undefined)) \<and> r \<noteq> Blocks \<and> r \<noteq> Aborts"
    if "closer ?buf m' m" "tok_ok m'" "at_char ?buf m'" for m'
    using less.hyps that by (auto simp: closer_def)
  note go = tok_step_goes [OF less.prems, of lc]
  show ?case
  proof (cases "tok_step lc ?buf (- 1) m")
    case (Redo m1)
    then show ?thesis using go ih [of m1] by (simp add: parse_loop.simps [of lc ?buf "- 1" m])
  next
    case (Break m1)
    then have m1: "tok_ok m1" "at_char ?buf m1" "left ?buf m1 \<le> left ?buf m" using go by simp_all
    show ?thesis
    proof (cases "mc_c m1 = CHR 0x00")
      case True
      then show ?thesis using Break ends [of m1 ?buf "- 1"] by (auto simp: parse_loop.simps [of lc ?buf "- 1" m])
    next
      case False
      obtain y where y: "next_char ?buf (- 1) m1 = Ret (True, moved y m1)" "at_char ?buf (moved y m1)"
        using advance [OF m1(2) False] by blast
      have "0 < left ?buf m1" using m1(2) by (simp add: at_char_def left_def)
      then have "closer ?buf (moved y m1) m" using m1(3) by (auto simp: closer_def mach_simps)
      moreover have "tok_ok (moved y m1)" using m1(1) by (simp add: tok_ok_def mach_simps) (simp add: moved_def)
      ultimately show ?thesis using ih [of "moved y m1"] y Break by (simp add: parse_loop.simps [of lc ?buf "- 1" m])
    qed
  next
    case (Goto_out m1)
    then show ?thesis by (simp add: parse_loop.simps [of lc ?buf "- 1" m])
  next
    case Bad
    then show ?thesis using go by (simp add: parse_loop.simps [of lc ?buf "- 1" m] goes_on_def)
  qed
qed

text \<open>C22. The parser returns on every C string, with a value or an error, and stays inside the string: the one
  thing it leaves undefined is a run of digits whose value is not an \<open>int\<close>.\<close>
theorem parser_returns:
  assumes "\<And>w. segment w s \<Longrightarrow> scan_int w \<noteq> Undefined"
  shows "\<exists>r. json_tokener_parse lc s = Ret r"
proof -
  let ?buf = "s @ [CHR 0x00]"
  obtain c w where cw: "?buf = c # w" by (cases ?buf) auto
  let ?m = "\<lparr>mc_c = c, mc_obj = JNull, mc_tok = json_tokener_new :: 'a tokener\<rparr>"
  have pop: "POP_CHAR ?buf (- 1)
      \<lparr>mc_c = CHR 0x01, mc_obj = JNull, mc_tok = json_tokener_new\<lparr>tk_char_offset := 0, tk_err := E_success\<rparr>\<rparr> = Ret (True, ?m)"
    by (simp add: POP_CHAR_def fresh_tokener cw)
  have "tok_ok ?m" "at_char ?buf ?m"
    by (simp_all add: tok_ok_def good_def level_def fresh_tokener fresh_level_def level_ok_def quiet_def waits_def shaped_def
        at_char_def cw)
  from parse_loop_returns [OF this, of lc] assms obtain m1 where "parse_loop lc ?buf (- 1) ?m = Some (Ret m1)"
    by (metis outcome.exhaust)
  then show ?thesis
    using pop by (simp add: json_tokener_parse_def json_tokener_parse_ex_def of_run_def split: prod.splits)
qed

lemma segment_listed:
  "segment w s \<Longrightarrow> w \<in> set (concat (map (\<lambda>i. map (\<lambda>j. take j (drop i s)) [0..<Suc (length s)]) [0..<Suc (length s)]))"
proof -
  assume "segment w s"
  then obtain a b where "s = a @ w @ b" by (auto simp: segment_def)
  then show ?thesis by (auto intro!: bexI [of _ "length a"] image_eqI [of _ _ "length w"] simp del: upt_Suc)
qed

lemma parser_returns_witness: "\<exists>r. json_tokener_parse unit_libc ''[7,'' = Ret r"
proof (rule parser_returns)
  have "list_all (\<lambda>w. scan_int w \<noteq> Undefined)
      (concat (map (\<lambda>i. map (\<lambda>j. take j (drop i ''[7,'')) [0..<Suc (length ''[7,'')]) [0..<Suc (length ''[7,'')]))"
    by code_simp
  then show "scan_int w \<noteq> Undefined" if "segment w ''[7,''" for w
    using segment_listed [OF that] unfolding list_all_iff by blast
qed

end
