(* ===== verification/Tokener_Limits.thy ===== *)
theory Tokener_Limits
  imports Tokener_Total
begin

text \<open>
  Where the parser stops short of JSON: the exponent written with a capital letter, the depth limit and the comment
  that ends in two stars.
\<close>

section \<open>Numbers\<close>

text \<open>An integer with a capital exponent loses the exponent: \<open>1E5\<close> is read as 1, because only \<open>.\<close> and
  \<open>e\<close> make a number a double although \<open>E\<close> is among the characters of numbers.\<close>
lemma capital_exponent_dropped:
  assumes "INT_MIN \<le> i" "i \<le> INT_MAX" "list_all is_digit ds"
  shows "json_tokener_parse lc (dec_int i @ ''E'' @ ds) = Ret (Inr (JInt i))"
proof -
  obtain c w where w: "dec_int i = c # w" "is_digit c \<or> c = CHR ''-''" using dec_int_text by blast
  let ?s = "dec_int i @ ''E'' @ ds"
  have s: "?s = c # w @ ''E'' @ ds" by (simp add: w(1))
  have E: "in_number_chars CHR ''E''" "\<not> is_digit CHR ''E''"
    by (simp_all add: in_number_chars_def json_number_chars_def is_digit_def)
  have ds: "\<forall>x\<in>set ds. in_number_chars x \<and> x \<noteq> CHR ''.'' \<and> x \<noteq> CHR ''e''"
    using assms(3) digit_number_char by (simp add: list_all_iff)
  have nul: "\<not> in_number_chars CHR 0x00" by (simp add: in_number_chars_def)
  have all: "\<forall>x\<in>set ?s. in_number_chars x" using dec_int_text [of i] ds E(1) by auto
  have "scan_int ?s = Ret (Some i)" using assms(1,2) E(2) by (intro scan_dec_int) simp_all
  moreover have "CHR ''.'' \<notin> set ?s \<and> CHR ''e'' \<notin> set ?s" using dec_int_text [of i] ds by auto
  ultimately have val: "if CHR ''.'' \<in> set ?s \<or> CHR ''e'' \<in> set ?s then \<exists>d. scan_double lc ?s = Some d \<and> JInt i = JDouble d
      else \<exists>j. scan_int ?s = Ret (Some j) \<and> JInt i = JInt j" by simp
  show ?thesis
    by (rule parsed_whole [OF s]) (rule parse_number [OF _ _ _ all nul s w(2) val])
qed

lemma capital_exponent_dropped_witness: "json_tokener_parse unit_libc (dec_int 1 @ ''E'' @ ''5'') = Ret (Inr (JInt 1))"
  by (rule capital_exponent_dropped) (simp_all add: is_digit_def)

section \<open>Depth\<close>

text \<open>A run that ends with an error.\<close>

definition fails :: "'d libc \<Rightarrow> string \<Rightarrow> tok_error \<Rightarrow> 'd mach \<Rightarrow> bool" where
  "fails lc buf e m \<longleftrightarrow> (\<exists>m'. parse_loop lc buf (- 1) m = Some (Ret m') \<and> tk_err (snd (at_out m')) = e)"

lemma fails_leads: "leads lc buf m m1 \<Longrightarrow> fails lc buf e m1 \<Longrightarrow> fails lc buf e m"
  by (simp add: fails_def leads_def)

lemma fails_arrives:
  assumes "arrives lc buf m r s"
    and "\<And>m1. keeps m m1 \<Longrightarrow> good m1 \<Longrightarrow> level m1 = r \<Longrightarrow> reads buf m1 s \<Longrightarrow> fails lc buf e m1"
  shows "fails lc buf e m"
  using assms(1) fails_leads [OF _ assms(2)] by (auto elim!: arrivesE)

lemma fails_whole:
  assumes "s = c # w" "e \<noteq> E_success"
    and run: "\<And>m. good m \<Longrightarrow> level m = fresh_level \<Longrightarrow> tk_depth (mc_tok m) = 0 \<Longrightarrow> reads (s @ [CHR 0x00]) m (s @ [CHR 0x00]) \<Longrightarrow>
      fails lc (s @ [CHR 0x00]) e m"
  shows "json_tokener_parse lc s = Ret (Inl e)"
proof -
  let ?buf = "s @ [CHR 0x00]"
  let ?m = "\<lparr>mc_c = c, mc_obj = JNull, mc_tok = json_tokener_new :: 'a tokener\<rparr>"
  have pop: "POP_CHAR ?buf (- 1)
      \<lparr>mc_c = CHR 0x01, mc_obj = JNull, mc_tok = json_tokener_new\<lparr>tk_char_offset := 0, tk_err := E_success\<rparr>\<rparr> = Ret (True, ?m)"
    by (simp add: POP_CHAR_def fresh_tokener assms(1))
  have "good ?m" "level ?m = fresh_level" "tk_depth (mc_tok ?m) = 0" "reads ?buf ?m ?buf"
    by (simp_all add: good_def level_def reads_def fresh_tokener assms(1))
  from run [OF this] obtain m' where
    "parse_loop lc ?buf (- 1) ?m = Some (Ret m')" "tk_err (snd (at_out m')) = e" by (auto simp: fails_def)
  then show ?thesis
    using pop assms(2) by (cases "at_out m'") (simp add: json_tokener_parse_def json_tokener_parse_ex_def)
qed

lemma fails_out:
  assumes "tok_step lc buf (- 1) m = Goto_out m1" "tk_err (snd (at_out m1)) = e"
  shows "fails lc buf e m"
  using assms by (auto simp: fails_def parse_loop.simps [of lc buf "- 1" m])

text \<open>One more level, at a character that opens a value.\<close>

lemma pushed:
  assumes "good m" "tk_depth (mc_tok m) < 31" "tok_step lc buf (- 1) m = push_level X m" "reads buf m s"
  shows "\<exists>m1. leads lc buf m m1 \<and> good m1 \<and> level m1 = fresh_level \<and> tk_depth (mc_tok m1) = Suc (tk_depth (mc_tok m)) \<and>
    reads buf m1 s"
proof -
  let ?d = "tk_depth (mc_tok m)"
  let ?m0 = "set_state X m"
  let ?m1 = "?m0\<lparr>mc_tok := json_tokener_reset_level (Suc ?d) ((mc_tok ?m0)\<lparr>tk_depth := Suc ?d\<rparr>)\<rparr>"
  have "tok_step lc buf (- 1) m = Redo ?m1"
    using assms(2,3) by (simp add: push_level_def JSON_TOKENER_MAX_DEPTH_def Let_def set_state_def mach_simps)
  moreover have "good ?m1" "level ?m1 = fresh_level" "tk_depth (mc_tok ?m1) = Suc ?d" "reads buf ?m1 s"
    using assms by (auto simp: good_def level_def json_tokener_reset_level_def set_state_def set_level_def reads_def)
  ultimately show ?thesis using leads_redo by blast
qed

text \<open>From an opening bracket to the character after it, in the state that takes the first item.\<close>

lemma bracket_opens:
  assumes "good m" "level m = fresh_level" "reads buf m (CHR ''['' # CHR ''['' # s)"
  shows "arrives lc buf m \<lparr>sr_state = S_array, sr_saved = S_array, sr_current = JArray [], sr_field = None\<rparr> (CHR ''['' # s)"
proof -
  let ?l = "\<lambda>st. \<lparr>sr_state = st, sr_saved = S_array, sr_current = JArray [], sr_field = None\<rparr> :: 'a srec"
  have "arrives lc buf m (?l S_eatws) (CHR ''['' # s)" using parse_open [OF assms] by blast
  then show ?thesis
  proof (rule arrives_trans)
    fix m1 :: "'a mach"
    assume m1: "good m1" "level m1 = ?l S_eatws" "reads buf m1 (CHR ''['' # s)"
    have "arrives lc buf m1 ((level m1)\<lparr>sr_state := sr_saved (level m1)\<rparr>) (CHR ''['' # s)"
      by (rule eatws [where sp = "[]"]) (use m1 in \<open>simp_all add: is_space_def\<close>)
    then show "arrives lc buf m1 (?l S_array) (CHR ''['' # s)" using m1(2) by simp
  qed
qed

lemma deep_brackets:
  assumes "good m" "level m = fresh_level" "tk_depth (mc_tok m) + n = 31"
    and "reads buf m (replicate (Suc n) CHR ''['' @ CHR ''['' # s)"
  shows "fails lc buf E_depth m"
  using assms
proof (induction n arbitrary: m)
  case 0
  have r: "reads buf m (CHR ''['' # CHR ''['' # s)" using 0 by simp
  from bracket_opens [OF 0(1,2) r, of lc] show ?case
  proof (rule fails_arrives)
    fix m2 :: "'a mach"
    assume m2: "keeps m m2" "level m2 = \<lparr>sr_state = S_array, sr_saved = S_array, sr_current = JArray [], sr_field = None\<rparr>"
      "reads buf m2 (CHR ''['' # s)"
    have d: "tk_depth (mc_tok m2) = 31" "mc_c m2 = CHR ''[''" using m2(1,3) 0(3) by (simp_all add: keeps_def reads_def)
    then have "tok_step lc buf (- 1) m2 = Goto_out (set_err E_depth m2)"
      using m2(2) by (simp add: tok_step_def step_array_def push_level_def JSON_TOKENER_MAX_DEPTH_def)
    then show "fails lc buf E_depth m2"
      by (rule fails_out) (use d(2) in \<open>simp add: at_out_def set_err_def Let_def\<close>)
  qed
next
  case (Suc n)
  let ?s = "replicate (Suc n) CHR ''['' @ CHR ''['' # s"
  have r: "reads buf m (CHR ''['' # CHR ''['' # replicate n CHR ''['' @ CHR ''['' # s)" using Suc.prems(4) by simp
  from bracket_opens [OF Suc.prems(1,2) r, of lc] show ?case
  proof (rule fails_arrives)
    fix m2 :: "'a mach"
    assume m2: "keeps m m2" "good m2"
      "level m2 = \<lparr>sr_state = S_array, sr_saved = S_array, sr_current = JArray [], sr_field = None\<rparr>"
      "reads buf m2 (CHR ''['' # replicate n CHR ''['' @ CHR ''['' # s)"
    have d: "Suc (tk_depth (mc_tok m2)) + n = 31" "mc_c m2 = CHR ''[''" "tk_depth (mc_tok m2) < 31"
      using m2(1,4) Suc.prems(3) by (simp_all add: keeps_def reads_def)
    have r2: "reads buf m2 ?s" using m2(4) by simp
    have "tok_step lc buf (- 1) m2 = push_level S_array_add m2"
      using m2(3) d(2) by (simp add: tok_step_def step_array_def)
    from pushed [OF m2(2) d(3) this r2] obtain m3 where
      m3: "leads lc buf m2 m3" "good m3" "level m3 = fresh_level" "tk_depth (mc_tok m3) = Suc (tk_depth (mc_tok m2))" "reads buf m3 ?s"
      by blast
    have "tk_depth (mc_tok m3) + n = 31" using d(1) m3(4) by simp
    from fails_leads [OF m3(1) Suc.IH [OF m3(2,3) this m3(5)]] show "fails lc buf E_depth m2" .
  qed
qed

text \<open>The thirty-third open bracket is refused with \<open>json_tokener_error_depth\<close>, whatever follows it: the levels
  of the tokener are never overrun.\<close>
lemma too_deep:
  "json_tokener_parse lc (replicate 33 CHR ''['' @ s) = Ret (Inl E_depth)"
proof -
  have r: "replicate 33 CHR ''['' = replicate (Suc 31) CHR ''['' @ [CHR ''['']"
    by (simp add: replicate_append_same numeral_eq_Suc)
  have s: "replicate 33 CHR ''['' @ s = CHR ''['' # replicate 32 CHR ''['' @ s" by (simp add: numeral_eq_Suc)
  show ?thesis
    by (rule fails_whole [OF s]) (simp, rule deep_brackets [where n = 31 and s = "s @ [CHR 0x00]"], simp_all add: r)
qed

section \<open>Comments\<close>

lemma scan_to_end:
  assumes "reads buf m (xs @ [CHR 0x00])" "\<forall>x\<in>set xs. P x \<and> x \<noteq> CHR 0x00" "P CHR 0x00"
  shows "\<exists>w m'. scan_run buf (- 1) P m acc = Ret (False, w, m') \<and> mc_c m' = CHR 0x00 \<and> level m' = level m"
  using assms
proof (induction xs arbitrary: m acc)
  case Nil
  then have "mc_c m = CHR 0x00" by (simp add: reads_def)
  then show ?case
    using Nil by (subst scan_run.simps) (simp add: next_char_def ADVANCE_CHAR_def level_def)
next
  case (Cons x xs)
  obtain z t where zt: "xs @ [CHR 0x00] = z # t" by (cases "xs @ [CHR 0x00]") auto
  have x: "P x" "x \<noteq> CHR 0x00" "mc_c m = x" using Cons.prems by (auto simp: reads_def)
  have "reads buf m (x # z # t)" using Cons.prems(1) zt by simp
  from next_char_reads [OF this x(2)] have n: "next_char buf (- 1) m = Ret (True, moved z m)"
    "reads buf (moved z m) (xs @ [CHR 0x00])" by (simp_all add: zt)
  from Cons.IH [OF n(2)] Cons.prems(2,3) x(1,3) n(1) show ?case
    by (subst scan_run.simps) (simp add: mach_simps)
qed

lemma pb_add_set_state: "pb_add x (set_state st m) = set_state st (pb_set (tk_pb (mc_tok m) @ x) m)"
  by (simp add: pb_add_def pb_set_def set_state_def set_level_def level_def)

text \<open>A step of a comment: one character taken into the buffer, and the next state.\<close>

lemma comment_char:
  assumes "good m" "level m = r\<lparr>sr_state := st\<rparr>" "reads buf m (c # y # t)" "c \<noteq> CHR 0x00"
    and "\<And>m1. level m1 = r\<lparr>sr_state := st\<rparr> \<Longrightarrow> mc_c m1 = c \<Longrightarrow>
      \<exists>w. tok_step lc buf (- 1) m1 = Break (set_state st' (pb_set w m1))"
  shows "arrives lc buf m (r\<lparr>sr_state := st'\<rparr>) (y # t)"
proof -
  have "mc_c m = c" using assms(3) by (simp add: reads_def)
  then obtain w where w: "tok_step lc buf (- 1) m = Break (set_state st' (pb_set w m))" using assms(2,5) by blast
  show ?thesis
    by (rule break_arrives [OF w])
       (use assms keeps_refl [OF assms(1)] in \<open>simp_all add: set_state_def mach_simps\<close>)
qed

text \<open>A comment that ends in two stars before its slash is not closed there: the machine goes back to looking for
  a star after it has passed the second one, so \<open>/***/\<close> swallows the text up to the next star.\<close>
lemma starred_comment_not_closed:
  assumes "nul_free s" "CHR ''*'' \<notin> set s"
  shows "json_tokener_parse lc (''/***/'' @ s) = Ret (Inl E_parse_eof)"
proof (rule fails_whole)
  let ?buf = "(''/***/'' @ s) @ [CHR 0x00]"
  let ?at = "\<lambda>st. fresh_level\<lparr>sr_state := st\<rparr>"
  show "''/***/'' @ s = CHR ''/'' # ''***/'' @ s" by simp
  fix m :: "'a mach"
  assume m: "good m" "level m = fresh_level" "reads ?buf m ?buf"
  have swallow: "fails lc ?buf E_parse_eof m1"
    if "level m1 = ?at S_comment" "reads ?buf m1 (CHR ''/'' # s @ [CHR 0x00])" for m1
  proof -
    have "\<forall>x\<in>set (CHR ''/'' # s). x \<noteq> CHR ''*'' \<and> x \<noteq> CHR 0x00" using assms by (auto simp: nul_free_def)
    from scan_to_end [of ?buf m1 "CHR ''/'' # s" "\<lambda>c. c \<noteq> CHR ''*''" "[]", OF _ this] that(2) obtain w m2 where
      m2: "scan_run ?buf (- 1) (\<lambda>c. c \<noteq> CHR ''*'') m1 [] = Ret (False, w, m2)" "mc_c m2 = CHR 0x00" "level m2 = level m1" by auto
    have "tok_step lc ?buf (- 1) m1 = Goto_out (pb_add w m2)"
      using that(1) m2(1) by (simp add: tok_step_def step_comment_def after_scan_def)
    then show ?thesis
      by (rule fails_out)
         (use m2(2,3) that(1) in \<open>simp add: at_out_def Let_def fresh_level_def level_keep pb_add_def c_keep set_err_def\<close>)
  qed
  have "arrives lc ?buf m (?at S_comment_start) (CHR ''*'' # ''**/'' @ s @ [CHR 0x00])"
    by (rule comment_char [where st = S_eatws and c = "CHR ''/''", OF m(1)])
       (use m in \<open>auto simp: fresh_level_def tok_step_def step_eatws_def after_scan_def scan_run.simps is_space_def\<close>)
  then have "arrives lc ?buf m (?at S_comment) (CHR ''*'' # ''*/'' @ s @ [CHR 0x00])"
    by (rule arrives_trans) (rule comment_char [where st = S_comment_start and c = "CHR ''*''"],
      auto simp: tok_step_def step_comment_start_def pb_add_set_state fresh_level_def)
  then have "arrives lc ?buf m (?at S_comment_end) (CHR ''*'' # ''/'' @ s @ [CHR 0x00])"
    by (rule arrives_trans) (rule comment_char [where st = S_comment and c = "CHR ''*''"],
      auto simp: tok_step_def step_comment_def after_scan_def scan_run.simps pb_add_def fresh_level_def)
  then have "arrives lc ?buf m (?at S_comment) (CHR ''/'' # s @ [CHR 0x00])"
    by (rule arrives_trans) (rule comment_char [where st = S_comment_end and c = "CHR ''*''"],
      auto simp: tok_step_def step_comment_end_def pb_add_def fresh_level_def Let_def)
  then show "fails lc ?buf E_parse_eof m" by (rule fails_arrives) (rule swallow)
qed simp

lemma starred_comment_not_closed_witness: "json_tokener_parse unit_libc (''/***/'' @ '' 1'') = Ret (Inl E_parse_eof)"
  by (rule starred_comment_not_closed) (simp_all add: nul_free_def)

end
