(* ===== verification/Nfc_Mirror.thy ===== *)
theory Nfc_Mirror
  imports Nutrino_Prelude
begin

text \<open>
  \<open>libnfc/mirror-subr.c\<close>: the table that turns a byte round, and its use on words of four and eight bytes, on a
  little-endian host.  The table is checked against the reversal of a word's bits.
\<close>

definition ByteMirror :: bytes where
  "ByteMirror =
   [0x00, 0x80, 0x40, 0xc0, 0x20, 0xa0, 0x60, 0xe0, 0x10, 0x90, 0x50, 0xd0, 0x30, 0xb0, 0x70, 0xf0,
    0x08, 0x88, 0x48, 0xc8, 0x28, 0xa8, 0x68, 0xe8, 0x18, 0x98, 0x58, 0xd8, 0x38, 0xb8, 0x78, 0xf8,
    0x04, 0x84, 0x44, 0xc4, 0x24, 0xa4, 0x64, 0xe4, 0x14, 0x94, 0x54, 0xd4, 0x34, 0xb4, 0x74, 0xf4,
    0x0c, 0x8c, 0x4c, 0xcc, 0x2c, 0xac, 0x6c, 0xec, 0x1c, 0x9c, 0x5c, 0xdc, 0x3c, 0xbc, 0x7c, 0xfc,
    0x02, 0x82, 0x42, 0xc2, 0x22, 0xa2, 0x62, 0xe2, 0x12, 0x92, 0x52, 0xd2, 0x32, 0xb2, 0x72, 0xf2,
    0x0a, 0x8a, 0x4a, 0xca, 0x2a, 0xaa, 0x6a, 0xea, 0x1a, 0x9a, 0x5a, 0xda, 0x3a, 0xba, 0x7a, 0xfa,
    0x06, 0x86, 0x46, 0xc6, 0x26, 0xa6, 0x66, 0xe6, 0x16, 0x96, 0x56, 0xd6, 0x36, 0xb6, 0x76, 0xf6,
    0x0e, 0x8e, 0x4e, 0xce, 0x2e, 0xae, 0x6e, 0xee, 0x1e, 0x9e, 0x5e, 0xde, 0x3e, 0xbe, 0x7e, 0xfe,
    0x01, 0x81, 0x41, 0xc1, 0x21, 0xa1, 0x61, 0xe1, 0x11, 0x91, 0x51, 0xd1, 0x31, 0xb1, 0x71, 0xf1,
    0x09, 0x89, 0x49, 0xc9, 0x29, 0xa9, 0x69, 0xe9, 0x19, 0x99, 0x59, 0xd9, 0x39, 0xb9, 0x79, 0xf9,
    0x05, 0x85, 0x45, 0xc5, 0x25, 0xa5, 0x65, 0xe5, 0x15, 0x95, 0x55, 0xd5, 0x35, 0xb5, 0x75, 0xf5,
    0x0d, 0x8d, 0x4d, 0xcd, 0x2d, 0xad, 0x6d, 0xed, 0x1d, 0x9d, 0x5d, 0xdd, 0x3d, 0xbd, 0x7d, 0xfd,
    0x03, 0x83, 0x43, 0xc3, 0x23, 0xa3, 0x63, 0xe3, 0x13, 0x93, 0x53, 0xd3, 0x33, 0xb3, 0x73, 0xf3,
    0x0b, 0x8b, 0x4b, 0xcb, 0x2b, 0xab, 0x6b, 0xeb, 0x1b, 0x9b, 0x5b, 0xdb, 0x3b, 0xbb, 0x7b, 0xfb,
    0x07, 0x87, 0x47, 0xc7, 0x27, 0xa7, 0x67, 0xe7, 0x17, 0x97, 0x57, 0xd7, 0x37, 0xb7, 0x77, 0xf7,
    0x0f, 0x8f, 0x4f, 0xcf, 0x2f, 0xaf, 0x6f, 0xef, 0x1f, 0x9f, 0x5f, 0xdf, 0x3f, 0xbf, 0x7f, 0xff]"

definition mirror :: "byte \<Rightarrow> byte" where
  "mirror bt = ByteMirror ! unat bt"

definition mirror_bytes :: "bytes \<Rightarrow> bytes" where
  "mirror_bytes = map mirror"

definition mirror32 :: "32 word \<Rightarrow> 32 word" where
  "mirror32 w = word_of_int (le_uint (mirror_bytes (le_bytes 4 (uint w))))"

definition mirror64 :: "64 word \<Rightarrow> 64 word" where
  "mirror64 w = word_of_int (le_uint (mirror_bytes (le_bytes 8 (uint w))))"

text \<open>The table by its own first half: the next two entries for every entry, shifted, without and with the top bit.\<close>

lemma table_doubles: "ByteMirror = concat (map (\<lambda>x. [drop_bit 1 x, drop_bit 1 x OR 0x80]) (take 128 ByteMirror))"
  by (simp add: ByteMirror_def)

lemma nth_pairs:
  "k < length xs \<Longrightarrow> concat (map (\<lambda>x. [f x, g x]) xs) ! (2 * k) = f (xs ! k) \<and>
     concat (map (\<lambda>x. [f x, g x]) xs) ! (2 * k + 1) = g (xs ! k)"
proof (induction xs arbitrary: k)
  case (Cons x xs)
  then show ?case by (cases k) simp_all
qed simp

lemma byte_less: "unat (b :: byte) < 256"
proof -
  have "unat b < 2 ^ LENGTH(8)" by (rule unsigned_less)
  then show ?thesis by simp
qed

lemma reverse_double:
  assumes "k < 128"
  shows "word_reverse (word_of_nat (2 * k) :: byte) = drop_bit 1 (word_reverse (word_of_nat k))"
    and "word_reverse (word_of_nat (2 * k + 1) :: byte) = drop_bit 1 (word_reverse (word_of_nat k)) OR 0x80"
proof -
  have w: "bit (word_of_nat m :: byte) i \<longleftrightarrow> i < 8 \<and> bit m i" for m i
    using bit_word_of_int_iff [of "int m" i, where ?'a = 8] by (simp add: bit_of_nat_iff_bit)
  have "bit (2 * k) i \<longleftrightarrow> 0 < i \<and> bit k (i - 1)" "bit (2 * k + 1) i \<longleftrightarrow> i = 0 \<or> bit k (i - 1)" for i
    by (cases i; simp add: bit_Suc bit_0)+
  then have b: "bit (word_of_nat (2 * k) :: byte) i \<longleftrightarrow> 0 < i \<and> i < 8 \<and> bit (word_of_nat k :: byte) (i - 1)"
    "bit (word_of_nat (2 * k + 1) :: byte) i \<longleftrightarrow> i < 8 \<and> (i = 0 \<or> bit (word_of_nat k :: byte) (i - 1))" for i
    unfolding w by auto
  have top: "(0x80 :: byte) = push_bit 7 1" by simp
  show "word_reverse (word_of_nat (2 * k) :: byte) = drop_bit 1 (word_reverse (word_of_nat k))"
    by (rule bit_word_eqI) (auto simp: bit_word_reverse_iff b bit_drop_bit_eq simp del: of_nat_mult)
  show "word_reverse (word_of_nat (2 * k + 1) :: byte) = drop_bit 1 (word_reverse (word_of_nat k)) OR 0x80"
    unfolding top
    by (rule bit_word_eqI)
       (auto simp: bit_word_reverse_iff b [unfolded Suc_eq_plus1 [symmetric]] bit_drop_bit_eq bit_or_iff bit_push_bit_iff bit_1_iff
         simp del: of_nat_mult of_nat_Suc push_bit_of_1)
qed

lemma table_reverses: "n < 256 \<Longrightarrow> ByteMirror ! n = word_reverse (word_of_nat n)"
proof (induction n rule: less_induct)
  case (less n)
  have len: "length ByteMirror = 256" by (simp add: ByteMirror_def)
  show ?case
  proof (cases "n = 0")
    case True
    have "ByteMirror ! 0 = 0" by (simp add: ByteMirror_def)
    moreover have "word_reverse (0 :: byte) = 0" by (rule bit_word_eqI) (simp add: bit_word_reverse_iff)
    ultimately show ?thesis using True by simp
  next
    case False
    define k where "k = n div 2"
    have k: "k < n" "k < 128" "n = 2 * k \<or> n = 2 * k + 1" using False less.prems by (auto simp: k_def)
    have "ByteMirror ! (2 * k) = drop_bit 1 (ByteMirror ! k) \<and> ByteMirror ! (2 * k + 1) = drop_bit 1 (ByteMirror ! k) OR 0x80"
      using nth_pairs [of k "take 128 ByteMirror" "drop_bit 1" "\<lambda>x. drop_bit 1 x OR 0x80"] k(2) len
      by (simp only: table_doubles [symmetric]) simp
    moreover have "ByteMirror ! k = word_reverse (word_of_nat k)" using less.IH k less.prems by simp
    ultimately show ?thesis using k(3) reverse_double [OF k(2)] by auto
  qed
qed

lemma mirror_reverses: "mirror b = word_reverse b"
  using table_reverses [OF byte_less [of b]] by (simp add: mirror_def)

lemma bit_mirror: "bit (mirror b) i \<longleftrightarrow> i < 8 \<and> bit b (7 - i)"
  by (simp add: mirror_reverses bit_word_reverse_iff)

lemma mirror_mirror [simp]: "mirror (mirror b) = b"
  by (simp add: mirror_reverses)

end
