(* ===== verification/Nfc_Types.thy ===== *)
theory Nfc_Types
  imports Nfc_Mirror
begin

text \<open>
  The data of \<open>include/nfc/nfc-types.h\<close> and the error numbers of \<open>include/nfc/nfc.h\<close>.  Fixed arrays are lists of their
  length.  The members of the union \<open>nfc_target_info\<close> stand side by side: the code reads a member only where the
  modulation of the target names it, which is the member that was written.
\<close>

section \<open>Error numbers\<close>

definition NFC_SUCCESS :: int where "NFC_SUCCESS = 0"
definition NFC_EIO :: int where "NFC_EIO = - 1"
definition NFC_EINVARG :: int where "NFC_EINVARG = - 2"
definition NFC_EDEVNOTSUPP :: int where "NFC_EDEVNOTSUPP = - 3"
definition NFC_EOVFLOW :: int where "NFC_EOVFLOW = - 5"
definition NFC_ETIMEOUT :: int where "NFC_ETIMEOUT = - 6"
definition NFC_EOPABORTED :: int where "NFC_EOPABORTED = - 7"
definition NFC_ENOTIMPL :: int where "NFC_ENOTIMPL = - 8"
definition NFC_ETGRELEASED :: int where "NFC_ETGRELEASED = - 10"
definition NFC_ERFTRANS :: int where "NFC_ERFTRANS = - 20"
definition NFC_ESOFT :: int where "NFC_ESOFT = - 80"
definition NFC_ECHIP :: int where "NFC_ECHIP = - 90"

lemmas nfc_errors = NFC_SUCCESS_def NFC_EIO_def NFC_EINVARG_def NFC_EDEVNOTSUPP_def NFC_EOVFLOW_def NFC_ETIMEOUT_def
  NFC_EOPABORTED_def NFC_ENOTIMPL_def NFC_ETGRELEASED_def NFC_ERFTRANS_def NFC_ESOFT_def NFC_ECHIP_def

section \<open>Properties, modes and modulations\<close>

datatype nfc_property =
    NP_TIMEOUT_COMMAND | NP_TIMEOUT_ATR | NP_TIMEOUT_COM | NP_HANDLE_CRC | NP_HANDLE_PARITY | NP_ACTIVATE_FIELD
  | NP_ACTIVATE_CRYPTO1 | NP_INFINITE_SELECT | NP_ACCEPT_INVALID_FRAMES | NP_ACCEPT_MULTIPLE_FRAMES
  | NP_AUTO_ISO14443_4 | NP_EASY_FRAMING | NP_FORCE_ISO14443_A | NP_FORCE_ISO14443_B | NP_FORCE_SPEED_106

datatype nfc_dep_mode = NDM_UNDEFINED | NDM_PASSIVE | NDM_ACTIVE

datatype nfc_baud_rate = NBR_UNDEFINED | NBR_106 | NBR_212 | NBR_424 | NBR_847

datatype nfc_modulation_type =
    NMT_ISO14443A | NMT_JEWEL | NMT_ISO14443B | NMT_ISO14443BI | NMT_ISO14443B2SR | NMT_ISO14443B2CT | NMT_FELICA | NMT_DEP

datatype nfc_mode = N_TARGET | N_INITIATOR

record nfc_modulation =
  nmt :: nfc_modulation_type
  nbr :: nfc_baud_rate

section \<open>Targets\<close>

record nfc_dep_info =
  dep_abtNFCID3 :: bytes
  dep_btDID :: byte
  dep_btBS :: byte
  dep_btBR :: byte
  dep_btTO :: byte
  dep_btPP :: byte
  dep_abtGB :: bytes
  dep_szGB :: nat
  dep_ndm :: nfc_dep_mode

record nfc_iso14443a_info =
  nai_abtAtqa :: bytes
  nai_btSak :: byte
  nai_szUidLen :: nat
  nai_abtUid :: bytes
  nai_szAtsLen :: nat
  nai_abtAts :: bytes

record nfc_felica_info =
  nfi_szLen :: nat
  nfi_btResCode :: byte
  nfi_abtId :: bytes
  nfi_abtPad :: bytes
  nfi_abtSysCode :: bytes

record nfc_iso14443b_info =
  nbi_abtPupi :: bytes
  nbi_abtApplicationData :: bytes
  nbi_abtProtocolInfo :: bytes
  nbi_ui8CardIdentifier :: byte

record nfc_iso14443bi_info =
  nii_abtDIV :: bytes
  nii_btVerLog :: byte
  nii_btConfig :: byte
  nii_szAtrLen :: nat
  nii_abtAtr :: bytes

record nfc_iso14443b2sr_info =
  nsi_abtUID :: bytes

record nfc_iso14443b2ct_info =
  nci_abtUID :: bytes
  nci_btProdCode :: byte
  nci_btFabCode :: byte

record nfc_jewel_info =
  nji_btSensRes :: bytes
  nji_btId :: bytes

record nfc_target_info =
  nai :: nfc_iso14443a_info
  nfi :: nfc_felica_info
  nbi :: nfc_iso14443b_info
  nii :: nfc_iso14443bi_info
  nsi :: nfc_iso14443b2sr_info
  nci :: nfc_iso14443b2ct_info
  nji :: nfc_jewel_info
  ndi :: nfc_dep_info

record nfc_target =
  nti :: nfc_target_info
  nm :: nfc_modulation

text \<open>The arrays have the lengths the header gives them.\<close>

definition target_info_ok :: "nfc_target_info \<Rightarrow> bool" where
  "target_info_ok t \<longleftrightarrow>
     length (nai_abtAtqa (nai t)) = 2 \<and> length (nai_abtUid (nai t)) = 10 \<and> length (nai_abtAts (nai t)) = 254 \<and>
     length (nfi_abtId (nfi t)) = 8 \<and> length (nfi_abtPad (nfi t)) = 8 \<and> length (nfi_abtSysCode (nfi t)) = 2 \<and>
     length (nbi_abtPupi (nbi t)) = 4 \<and> length (nbi_abtApplicationData (nbi t)) = 4 \<and> length (nbi_abtProtocolInfo (nbi t)) = 3 \<and>
     length (nii_abtDIV (nii t)) = 4 \<and> length (nii_abtAtr (nii t)) = 33 \<and>
     length (nsi_abtUID (nsi t)) = 8 \<and> length (nci_abtUID (nci t)) = 4 \<and>
     length (nji_btSensRes (nji t)) = 2 \<and> length (nji_btId (nji t)) = 4 \<and>
     length (dep_abtNFCID3 (ndi t)) = 10 \<and> length (dep_abtGB (ndi t)) = 48"

section \<open>Copies into and out of arrays\<close>

text \<open>\<open>memcpy (a + i, src, n)\<close>: undefined when it leaves one of the two arrays.\<close>

definition copy_into :: "bytes \<Rightarrow> nat \<Rightarrow> bytes \<Rightarrow> nat \<Rightarrow> bytes outcome" where
  "copy_into a i src n = (if i + n \<le> length a \<and> n \<le> length src then Ret (splice a i (take n src)) else Undefined)"

text \<open>\<open>n\<close> bytes from a place of an array; reading outside of it is undefined.\<close>

definition read_at :: "bytes \<Rightarrow> nat \<Rightarrow> nat \<Rightarrow> bytes outcome" where
  "read_at a from n = (if from + n \<le> length a then Ret (take n (drop from a)) else Undefined)"

text \<open>\<open>*(p++)\<close>: the byte at the pointer and the bytes behind it.\<close>

fun next_byte :: "bytes \<Rightarrow> (byte \<times> bytes) outcome" where
  "next_byte [] = Undefined"
| "next_byte (b # bs) = Ret (b, bs)"

definition byte_at :: "bytes \<Rightarrow> nat \<Rightarrow> byte outcome" where
  "byte_at bs i = (if i < length bs then Ret (bs ! i) else Undefined)"

lemma copy_into_Ret: "i + n \<le> length a \<Longrightarrow> n \<le> length src \<Longrightarrow> copy_into a i src n = Ret (splice a i (take n src))"
  by (simp add: copy_into_def)

lemma copy_into_length: "copy_into a i src n = Ret a' \<Longrightarrow> length a' = length a"
  by (auto simp: copy_into_def length_splice split: if_splits)

end
