(* ===== verification/Pn53x_Types.thy ===== *)
theory Pn53x_Types
  imports Nfc_Types
begin

text \<open>
  The constants of \<open>chips/pn53x-internal.h\<close> and \<open>chips/pn53x.h\<close>, the data a PN53x driver keeps for its chip, the
  device, and the way operations on a device are put together.
\<close>

section \<open>Commands, registers, errors, symbols\<close>

abbreviation (input) Diagnose :: byte where "Diagnose \<equiv> 0x00"
abbreviation (input) GetFirmwareVersion :: byte where "GetFirmwareVersion \<equiv> 0x02"
abbreviation (input) GetGeneralStatus :: byte where "GetGeneralStatus \<equiv> 0x04"
abbreviation (input) ReadRegister :: byte where "ReadRegister \<equiv> 0x06"
abbreviation (input) WriteRegister :: byte where "WriteRegister \<equiv> 0x08"
abbreviation (input) SetParameters :: byte where "SetParameters \<equiv> 0x12"
abbreviation (input) SAMConfiguration :: byte where "SAMConfiguration \<equiv> 0x14"
abbreviation (input) PowerDown :: byte where "PowerDown \<equiv> 0x16"
abbreviation (input) RFConfiguration :: byte where "RFConfiguration \<equiv> 0x32"
abbreviation (input) InJumpForDEP :: byte where "InJumpForDEP \<equiv> 0x56"
abbreviation (input) InJumpForPSL :: byte where "InJumpForPSL \<equiv> 0x46"
abbreviation (input) InListPassiveTarget :: byte where "InListPassiveTarget \<equiv> 0x4A"
abbreviation (input) InATR :: byte where "InATR \<equiv> 0x50"
abbreviation (input) InPSL :: byte where "InPSL \<equiv> 0x4E"
abbreviation (input) InDataExchange :: byte where "InDataExchange \<equiv> 0x40"
abbreviation (input) InCommunicateThru :: byte where "InCommunicateThru \<equiv> 0x42"
abbreviation (input) InQuartetByteExchange :: byte where "InQuartetByteExchange \<equiv> 0x38"
abbreviation (input) InDeselect :: byte where "InDeselect \<equiv> 0x44"
abbreviation (input) InRelease :: byte where "InRelease \<equiv> 0x52"
abbreviation (input) InSelect :: byte where "InSelect \<equiv> 0x54"
abbreviation (input) InActivateDeactivatePaypass :: byte where "InActivateDeactivatePaypass \<equiv> 0x48"
abbreviation (input) InAutoPoll :: byte where "InAutoPoll \<equiv> 0x60"
abbreviation (input) TgInitAsTarget :: byte where "TgInitAsTarget \<equiv> 0x8C"
abbreviation (input) TgSetGeneralBytes :: byte where "TgSetGeneralBytes \<equiv> 0x92"
abbreviation (input) TgGetData :: byte where "TgGetData \<equiv> 0x86"
abbreviation (input) TgSetData :: byte where "TgSetData \<equiv> 0x8E"
abbreviation (input) TgSetDataSecure :: byte where "TgSetDataSecure \<equiv> 0x96"
abbreviation (input) TgSetMetaData :: byte where "TgSetMetaData \<equiv> 0x94"
abbreviation (input) TgSetMetaDataSecure :: byte where "TgSetMetaDataSecure \<equiv> 0x98"
abbreviation (input) TgGetInitiatorCommand :: byte where "TgGetInitiatorCommand \<equiv> 0x88"
abbreviation (input) TgResponseToInitiator :: byte where "TgResponseToInitiator \<equiv> 0x90"
abbreviation (input) TgGetTargetStatus :: byte where "TgGetTargetStatus \<equiv> 0x8A"

abbreviation (input) PN53X_REG_CIU_Mode :: nat where "PN53X_REG_CIU_Mode \<equiv> 0x6301"
abbreviation (input) PN53X_REG_CIU_TxMode :: nat where "PN53X_REG_CIU_TxMode \<equiv> 0x6302"
abbreviation (input) PN53X_REG_CIU_RxMode :: nat where "PN53X_REG_CIU_RxMode \<equiv> 0x6303"
abbreviation (input) PN53X_REG_CIU_TxAuto :: nat where "PN53X_REG_CIU_TxAuto \<equiv> 0x6305"
abbreviation (input) PN53X_REG_CIU_ManualRCV :: nat where "PN53X_REG_CIU_ManualRCV \<equiv> 0x630D"
abbreviation (input) PN53X_REG_CIU_TMode :: nat where "PN53X_REG_CIU_TMode \<equiv> 0x631A"
abbreviation (input) PN53X_REG_CIU_TPrescaler :: nat where "PN53X_REG_CIU_TPrescaler \<equiv> 0x631B"
abbreviation (input) PN53X_REG_CIU_TReloadVal_hi :: nat where "PN53X_REG_CIU_TReloadVal_hi \<equiv> 0x631C"
abbreviation (input) PN53X_REG_CIU_TReloadVal_lo :: nat where "PN53X_REG_CIU_TReloadVal_lo \<equiv> 0x631D"
abbreviation (input) PN53X_REG_CIU_TCounterVal_hi :: nat where "PN53X_REG_CIU_TCounterVal_hi \<equiv> 0x631E"
abbreviation (input) PN53X_REG_CIU_TCounterVal_lo :: nat where "PN53X_REG_CIU_TCounterVal_lo \<equiv> 0x631F"
abbreviation (input) PN53X_REG_CIU_Command :: nat where "PN53X_REG_CIU_Command \<equiv> 0x6331"
abbreviation (input) PN53X_REG_CIU_Status2 :: nat where "PN53X_REG_CIU_Status2 \<equiv> 0x6338"
abbreviation (input) PN53X_REG_CIU_FIFOData :: nat where "PN53X_REG_CIU_FIFOData \<equiv> 0x6339"
abbreviation (input) PN53X_REG_CIU_FIFOLevel :: nat where "PN53X_REG_CIU_FIFOLevel \<equiv> 0x633A"
abbreviation (input) PN53X_REG_CIU_Control :: nat where "PN53X_REG_CIU_Control \<equiv> 0x633C"
abbreviation (input) PN53X_REG_CIU_BitFraming :: nat where "PN53X_REG_CIU_BitFraming \<equiv> 0x633D"
abbreviation (input) PN53X_REG_CIU_Coll :: nat where "PN53X_REG_CIU_Coll \<equiv> 0x633E"

abbreviation (input) ETIMEOUT :: byte where "ETIMEOUT \<equiv> 0x01"
abbreviation (input) ECRC :: byte where "ECRC \<equiv> 0x02"
abbreviation (input) EPARITY :: byte where "EPARITY \<equiv> 0x03"
abbreviation (input) EBITCOUNT :: byte where "EBITCOUNT \<equiv> 0x04"
abbreviation (input) EFRAMING :: byte where "EFRAMING \<equiv> 0x05"
abbreviation (input) EBITCOLL :: byte where "EBITCOLL \<equiv> 0x06"
abbreviation (input) ESMALLBUF :: byte where "ESMALLBUF \<equiv> 0x07"
abbreviation (input) EBUFOVF :: byte where "EBUFOVF \<equiv> 0x09"
abbreviation (input) ERFTIMEOUT :: byte where "ERFTIMEOUT \<equiv> 0x0a"
abbreviation (input) ERFPROTO :: byte where "ERFPROTO \<equiv> 0x0b"
abbreviation (input) EOVHEAT :: byte where "EOVHEAT \<equiv> 0x0d"
abbreviation (input) EINBUFOVF :: byte where "EINBUFOVF \<equiv> 0x0e"
abbreviation (input) EINVPARAM :: byte where "EINVPARAM \<equiv> 0x10"
abbreviation (input) EDEPUNKCMD :: byte where "EDEPUNKCMD \<equiv> 0x12"
abbreviation (input) EINVRXFRAM :: byte where "EINVRXFRAM \<equiv> 0x13"
abbreviation (input) EMFAUTH :: byte where "EMFAUTH \<equiv> 0x14"
abbreviation (input) ENSECNOTSUPP :: byte where "ENSECNOTSUPP \<equiv> 0x18"
abbreviation (input) EBCC :: byte where "EBCC \<equiv> 0x23"
abbreviation (input) EDEPINVSTATE :: byte where "EDEPINVSTATE \<equiv> 0x25"
abbreviation (input) EOPNOTALL :: byte where "EOPNOTALL \<equiv> 0x26"
abbreviation (input) ECMD :: byte where "ECMD \<equiv> 0x27"
abbreviation (input) ETGREL :: byte where "ETGREL \<equiv> 0x29"
abbreviation (input) ECID :: byte where "ECID \<equiv> 0x2a"
abbreviation (input) ECDISCARDED :: byte where "ECDISCARDED \<equiv> 0x2b"
abbreviation (input) ENFCID3 :: byte where "ENFCID3 \<equiv> 0x2c"
abbreviation (input) EOVCURRENT :: byte where "EOVCURRENT \<equiv> 0x2d"
abbreviation (input) ENAD :: byte where "ENAD \<equiv> 0x2e"

abbreviation (input) SYMBOL_TX_CRC_ENABLE :: byte where "SYMBOL_TX_CRC_ENABLE \<equiv> 0x80"
abbreviation (input) SYMBOL_TX_SPEED :: byte where "SYMBOL_TX_SPEED \<equiv> 0x70"
abbreviation (input) SYMBOL_TX_FRAMING :: byte where "SYMBOL_TX_FRAMING \<equiv> 0x03"
abbreviation (input) SYMBOL_RX_CRC_ENABLE :: byte where "SYMBOL_RX_CRC_ENABLE \<equiv> 0x80"
abbreviation (input) SYMBOL_RX_SPEED :: byte where "SYMBOL_RX_SPEED \<equiv> 0x70"
abbreviation (input) SYMBOL_RX_NO_ERROR :: byte where "SYMBOL_RX_NO_ERROR \<equiv> 0x08"
abbreviation (input) SYMBOL_RX_MULTIPLE :: byte where "SYMBOL_RX_MULTIPLE \<equiv> 0x04"
abbreviation (input) SYMBOL_RX_FRAMING :: byte where "SYMBOL_RX_FRAMING \<equiv> 0x03"
abbreviation (input) SYMBOL_FORCE_100_ASK :: byte where "SYMBOL_FORCE_100_ASK \<equiv> 0x40"
abbreviation (input) SYMBOL_INITIAL_RF_ON :: byte where "SYMBOL_INITIAL_RF_ON \<equiv> 0x04"
abbreviation (input) SYMBOL_PARITY_DISABLE :: byte where "SYMBOL_PARITY_DISABLE \<equiv> 0x10"
abbreviation (input) SYMBOL_TAUTO :: byte where "SYMBOL_TAUTO \<equiv> 0x80"
abbreviation (input) SYMBOL_TPRESCALERHI :: byte where "SYMBOL_TPRESCALERHI \<equiv> 0x0F"
abbreviation (input) SYMBOL_TPRESCALERLO :: byte where "SYMBOL_TPRESCALERLO \<equiv> 0xFF"
abbreviation (input) SYMBOL_COMMAND :: byte where "SYMBOL_COMMAND \<equiv> 0x0F"
abbreviation (input) SYMBOL_COMMAND_TRANSCEIVE :: byte where "SYMBOL_COMMAND_TRANSCEIVE \<equiv> 0xC"
abbreviation (input) SYMBOL_MF_CRYPTO1_ON :: byte where "SYMBOL_MF_CRYPTO1_ON \<equiv> 0x08"
abbreviation (input) SYMBOL_FLUSH_BUFFER :: byte where "SYMBOL_FLUSH_BUFFER \<equiv> 0x80"
abbreviation (input) SYMBOL_FIFO_LEVEL :: byte where "SYMBOL_FIFO_LEVEL \<equiv> 0x7F"
abbreviation (input) SYMBOL_INITIATOR :: byte where "SYMBOL_INITIATOR \<equiv> 0x10"
abbreviation (input) SYMBOL_RX_LAST_BITS :: byte where "SYMBOL_RX_LAST_BITS \<equiv> 0x07"
abbreviation (input) SYMBOL_START_SEND :: byte where "SYMBOL_START_SEND \<equiv> 0x80"
abbreviation (input) SYMBOL_TX_LAST_BITS :: byte where "SYMBOL_TX_LAST_BITS \<equiv> 0x07"
abbreviation (input) SUPPORT_ISO14443A :: byte where "SUPPORT_ISO14443A \<equiv> 0x01"
abbreviation (input) SUPPORT_ISO14443B :: byte where "SUPPORT_ISO14443B \<equiv> 0x02"
abbreviation (input) SUPPORT_ISO18092 :: byte where "SUPPORT_ISO18092 \<equiv> 0x04"
abbreviation (input) PARAM_AUTO_ATR_RES :: byte where "PARAM_AUTO_ATR_RES \<equiv> 0x04"
abbreviation (input) PARAM_AUTO_RATS :: byte where "PARAM_AUTO_RATS \<equiv> 0x10"
abbreviation (input) PARAM_14443_4_PICC :: byte where "PARAM_14443_4_PICC \<equiv> 0x20"
abbreviation (input) RFCI_FIELD :: byte where "RFCI_FIELD \<equiv> 0x01"
abbreviation (input) RFCI_TIMING :: byte where "RFCI_TIMING \<equiv> 0x02"
abbreviation (input) RFCI_RETRY_DATA :: byte where "RFCI_RETRY_DATA \<equiv> 0x04"
abbreviation (input) RFCI_RETRY_SELECT :: byte where "RFCI_RETRY_SELECT \<equiv> 0x05"

abbreviation (input) PN53x_NORMAL_FRAME__DATA_MAX_LEN :: nat where "PN53x_NORMAL_FRAME__DATA_MAX_LEN \<equiv> 254"
abbreviation (input) PN53x_NORMAL_FRAME__OVERHEAD :: nat where "PN53x_NORMAL_FRAME__OVERHEAD \<equiv> 8"
abbreviation (input) PN53x_EXTENDED_FRAME__DATA_MAX_LEN :: nat where "PN53x_EXTENDED_FRAME__DATA_MAX_LEN \<equiv> 264"
abbreviation (input) PN53x_EXTENDED_FRAME__OVERHEAD :: nat where "PN53x_EXTENDED_FRAME__OVERHEAD \<equiv> 11"

definition PN53X_CACHE_REGISTER_SIZE :: nat where
  "PN53X_CACHE_REGISTER_SIZE = PN53X_REG_CIU_Coll - PN53X_REG_CIU_Mode + 1"

section \<open>Modes and types\<close>

datatype pn53x_type = PN53X | PN531 | PN532 | PN533 | RCS360

datatype pn53x_power_mode = NORMAL | POWERDOWN | LOWVBAT

datatype pn53x_operating_mode = IDLE | INITIATOR | TARGET

datatype pn532_sam_mode = PSM_NORMAL | PSM_VIRTUAL_CARD | PSM_WIRED_CARD | PSM_DUAL_CARD

fun sam_mode_value :: "pn532_sam_mode \<Rightarrow> byte" where
  "sam_mode_value PSM_NORMAL = 0x01"
| "sam_mode_value PSM_VIRTUAL_CARD = 0x02"
| "sam_mode_value PSM_WIRED_CARD = 0x03"
| "sam_mode_value PSM_DUAL_CARD = 0x04"

datatype pn53x_modulation =
    PM_UNDEFINED | PM_ISO14443A_106 | PM_FELICA_212 | PM_FELICA_424 | PM_ISO14443B_106 | PM_JEWEL_106
  | PM_ISO14443B_212 | PM_ISO14443B_424 | PM_ISO14443B_847

fun pm_value :: "pn53x_modulation \<Rightarrow> byte" where
  "pm_value PM_UNDEFINED = 0xff"
| "pm_value PM_ISO14443A_106 = 0x00"
| "pm_value PM_FELICA_212 = 0x01"
| "pm_value PM_FELICA_424 = 0x02"
| "pm_value PM_ISO14443B_106 = 0x03"
| "pm_value PM_JEWEL_106 = 0x04"
| "pm_value PM_ISO14443B_212 = 0x06"
| "pm_value PM_ISO14443B_424 = 0x07"
| "pm_value PM_ISO14443B_847 = 0x08"

datatype pn53x_target_type =
    PTT_UNDEFINED | PTT_GENERIC_PASSIVE_106 | PTT_GENERIC_PASSIVE_212 | PTT_GENERIC_PASSIVE_424 | PTT_ISO14443_4B_106
  | PTT_JEWEL_106 | PTT_MIFARE | PTT_FELICA_212 | PTT_FELICA_424 | PTT_ISO14443_4A_106 | PTT_ISO14443_4B_TCL_106
  | PTT_DEP_PASSIVE_106 | PTT_DEP_PASSIVE_212 | PTT_DEP_PASSIVE_424
  | PTT_DEP_ACTIVE_106 | PTT_DEP_ACTIVE_212 | PTT_DEP_ACTIVE_424

definition ptt_values :: "(byte \<times> pn53x_target_type) list" where
  "ptt_values =
     [(0x00, PTT_GENERIC_PASSIVE_106), (0x01, PTT_GENERIC_PASSIVE_212), (0x02, PTT_GENERIC_PASSIVE_424),
      (0x03, PTT_ISO14443_4B_106), (0x04, PTT_JEWEL_106), (0x10, PTT_MIFARE), (0x11, PTT_FELICA_212),
      (0x12, PTT_FELICA_424), (0x20, PTT_ISO14443_4A_106), (0x23, PTT_ISO14443_4B_TCL_106),
      (0x40, PTT_DEP_PASSIVE_106), (0x41, PTT_DEP_PASSIVE_212), (0x42, PTT_DEP_PASSIVE_424),
      (0x80, PTT_DEP_ACTIVE_106), (0x81, PTT_DEP_ACTIVE_212), (0x82, PTT_DEP_ACTIVE_424), (0xff, PTT_UNDEFINED)]"

text \<open>The byte of a target type in a command, and the type of a byte: a byte from the chip need not be the value of any.\<close>

definition ptt_value :: "pn53x_target_type \<Rightarrow> byte" where
  "ptt_value ptt = (case map_of (map (\<lambda>(b, p). (p, b)) ptt_values) ptt of Some b \<Rightarrow> b | None \<Rightarrow> 0xff)"

definition ptt_of_byte :: "byte \<Rightarrow> pn53x_target_type option" where
  "ptt_of_byte b = (if b = 0xff then None else map_of ptt_values b)"

abbreviation (input) PTM_NORMAL :: byte where "PTM_NORMAL \<equiv> 0x00"
abbreviation (input) PTM_PASSIVE_ONLY :: byte where "PTM_PASSIVE_ONLY \<equiv> 0x01"
abbreviation (input) PTM_DEP_ONLY :: byte where "PTM_DEP_ONLY \<equiv> 0x02"
abbreviation (input) PTM_ISO14443_4_PICC_ONLY :: byte where "PTM_ISO14443_4_PICC_ONLY \<equiv> 0x04"

section \<open>The chip and the device\<close>

text \<open>\<open>struct pn53x_data\<close>.  The function table \<open>io\<close> is an argument of the operations; the two lists of
  modulations are without the 0 that ends them, and not there while the pointer is \<open>NULL\<close>.\<close>

record pn53x_data =
  ch_type :: pn53x_type
  firmware_text :: string
  power_mode :: pn53x_power_mode
  operating_mode :: pn53x_operating_mode
  current_target :: "nfc_target option"
  sam_mode :: pn532_sam_mode
  last_status_byte :: byte
  ui8TxBits :: byte
  ui8Parameters :: byte
  last_command :: byte
  timer_correction :: "16 word"
  timer_prescaler :: "16 word"
  wb_data :: bytes
  wb_mask :: bytes
  wb_trigged :: bool
  timeout_command :: int
  timeout_atr :: int
  timeout_communication :: int
  supported_modulation_as_initiator :: "nfc_modulation_type list option"
  supported_modulation_as_target :: "nfc_modulation_type list option"

text \<open>\<open>struct nfc_device\<close>, over what its driver keeps; name and connection string are left out.\<close>

record 's nfc_device =
  driver_data :: 's
  chip_data :: pn53x_data
  bCrc :: bool
  bPar :: bool
  bEasyFraming :: bool
  bAutoIso14443_4 :: bool
  btSupportByte :: byte
  last_error :: int

text \<open>An operation takes the device and returns with its result and the device, unless it does not return.\<close>

type_synonym ('s, 'a) op = "'s nfc_device \<Rightarrow> ('a \<times> 's nfc_device) outcome"

text \<open>\<open>send\<close> takes the bytes and a timeout, \<open>receive\<close> the room and a timeout; what it returns with a count is what
  it stored.\<close>

record 's pn53x_io =
  io_send :: "bytes \<Rightarrow> int \<Rightarrow> ('s, int) op"
  io_receive :: "nat \<Rightarrow> int \<Rightarrow> ('s, int \<times> bytes) op"

definition set_chip :: "(pn53x_data \<Rightarrow> pn53x_data) \<Rightarrow> 's nfc_device \<Rightarrow> 's nfc_device" where
  "set_chip f dv = dv\<lparr>chip_data := f (chip_data dv)\<rparr>"

abbreviation chip_type :: "'s nfc_device \<Rightarrow> pn53x_type" where
  "chip_type dv \<equiv> ch_type (chip_data dv)"

text \<open>\<open>pnd->last_error = e; return pnd->last_error;\<close>\<close>

definition fail_with :: "int \<Rightarrow> ('s, int) op" where
  "fail_with e dv = Ret (e, dv\<lparr>last_error := e\<rparr>)"

text \<open>\<open>if ((res = m) < 0) return res;\<close> and on: for a plain result, and for one that comes with stored bytes.\<close>

definition on_ok ::
    "(int \<Rightarrow> 'b) \<Rightarrow> (int \<times> 's nfc_device) outcome \<Rightarrow> (int \<Rightarrow> ('s, 'b) op) \<Rightarrow> ('b \<times> 's nfc_device) outcome" where
  "on_ok err m k = and_then m (\<lambda>(res, dv). if res < 0 then Ret (err res, dv) else k res dv)"

definition on_rx ::
    "(int \<Rightarrow> 'b) \<Rightarrow> ((int \<times> bytes) \<times> 's nfc_device) outcome \<Rightarrow> (int \<Rightarrow> bytes \<Rightarrow> ('s, 'b) op) \<Rightarrow>
     ('b \<times> 's nfc_device) outcome" where
  "on_rx err m k = and_then m (\<lambda>((res, rx), dv). if res < 0 then Ret (err res, dv) else k res rx dv)"

abbreviation (input) res_only :: "int \<Rightarrow> int" where "res_only \<equiv> \<lambda>res. res"
abbreviation (input) res_none :: "int \<Rightarrow> int \<times> 'b list" where "res_none \<equiv> \<lambda>res. (res, [])"

definition rx_dropped :: "((int \<times> bytes) \<times> 's nfc_device) outcome \<Rightarrow> (int \<times> 's nfc_device) outcome" where
  "rx_dropped m = and_then m (\<lambda>((res, rx), dv). Ret (res, dv))"

lemma set_chip_simps [simp]:
  "chip_data (set_chip f dv) = f (chip_data dv)" "driver_data (set_chip f dv) = driver_data dv"
  "bCrc (set_chip f dv) = bCrc dv" "bPar (set_chip f dv) = bPar dv" "bEasyFraming (set_chip f dv) = bEasyFraming dv"
  "bAutoIso14443_4 (set_chip f dv) = bAutoIso14443_4 dv" "btSupportByte (set_chip f dv) = btSupportByte dv"
  "last_error (set_chip f dv) = last_error dv" "set_chip f (set_chip g dv) = set_chip (\<lambda>c. f (g c)) dv"
  by (simp_all add: set_chip_def)

lemma cache_size: "PN53X_CACHE_REGISTER_SIZE = 62"
  by (simp add: PN53X_CACHE_REGISTER_SIZE_def)

end
