(* ===== verification/Iso14443.thy ===== *)
theory Iso14443
  imports Nfc_Mirror
begin

text \<open>
  \<open>libnfc/iso14443-subr.c\<close>: the CRC of ISO 14443 type A, the historical bytes of an answer to select and the cascade
  form of a UID.  The table-free CRC of the code is compared with the shift register of the standard.
\<close>

section \<open>The CRC\<close>

definition crc_round :: "byte \<Rightarrow> 32 word \<Rightarrow> 32 word" where
  "crc_round b wCrc =
     (let bt = b XOR ucast (wCrc AND 0x00FF);
          bt = bt XOR push_bit 4 bt
      in drop_bit 8 wCrc XOR push_bit 8 (ucast bt) XOR push_bit 3 (ucast bt) XOR drop_bit 4 (ucast bt))"

text \<open>The two bytes the function stores; with no data the loop counts down from zero and leaves the array.\<close>

definition iso14443a_crc :: "bytes \<Rightarrow> bytes outcome" where
  "iso14443a_crc pbtData =
     (if pbtData = [] then Undefined
      else (let wCrc = fold crc_round pbtData 0x6363 in
            Ret [ucast (wCrc AND 0xFF), ucast (drop_bit 8 wCrc AND 0xFF)]))"

definition iso14443a_crc_append :: "bytes \<Rightarrow> bytes outcome" where
  "iso14443a_crc_append pbtData = and_then (iso14443a_crc pbtData) (\<lambda>crc. Ret (pbtData @ crc))"

text \<open>The register of the standard: sixteen bits, shifted right, with the polynomial \<open>0x8408\<close>.\<close>

definition lfsr :: "16 word \<Rightarrow> 16 word" where
  "lfsr w = (if bit w 0 then drop_bit 1 w XOR 0x8408 else drop_bit 1 w)"

definition lfsr_byte :: "byte \<Rightarrow> 16 word \<Rightarrow> 16 word" where
  "lfsr_byte b w = (lfsr ^^ 8) (w XOR ucast b)"

definition crc_a :: "bytes \<Rightarrow> 16 word" where
  "crc_a bs = fold lfsr_byte bs 0x6363"

section \<open>Historical bytes and cascaded UIDs\<close>

definition iso14443a_locate_historical_bytes :: "bytes \<Rightarrow> bytes option" where
  "iso14443a_locate_historical_bytes pbtAts =
     (if pbtAts \<noteq> [] then
        (let t0 = pbtAts ! 0;
             off = 1 + (if t0 AND 0x10 \<noteq> 0 then 1 else 0) + (if t0 AND 0x20 \<noteq> 0 then 1 else 0) +
                   (if t0 AND 0x40 \<noteq> 0 then 1 else 0)
         in if length pbtAts > off then Some (drop off pbtAts) else None)
      else None)"

definition iso14443_cascade_uid :: "bytes \<Rightarrow> bytes" where
  "iso14443_cascade_uid abtUID =
     (if length abtUID = 7 then 0x88 # abtUID
      else if length abtUID = 10 then 0x88 # take 3 abtUID @ 0x88 # drop 3 abtUID
      else abtUID)"

section \<open>The CRC is the one of the standard\<close>

lemma lfsr_xor: "lfsr (v XOR w) = lfsr v XOR lfsr w"
  by (rule bit_word_eqI) (auto simp: lfsr_def bit_simps)

lemma lfsr_pow_xor: "(lfsr ^^ n) (v XOR w) = (lfsr ^^ n) v XOR (lfsr ^^ n) w"
  by (induction n arbitrary: v w) (simp_all add: lfsr_xor)

lemma lfsr_high: "n \<le> 8 \<Longrightarrow> (lfsr ^^ n) (push_bit 8 w) = drop_bit n (push_bit 8 w)"
proof (induction n)
  case (Suc n)
  then have "\<not> bit (drop_bit n (push_bit 8 w)) 0" by (simp add: bit_simps)
  with Suc show ?case by (simp add: lfsr_def)
qed simp

definition crc_spread :: "byte \<Rightarrow> 16 word" where
  "crc_spread x = (let bt = x XOR push_bit 4 x in push_bit 8 (ucast bt) XOR push_bit 3 (ucast bt) XOR drop_bit 4 (ucast bt))"

text \<open>Two linear functions of a byte are equal if they agree on its eight bits.\<close>

lemma linear_byte_eq:
  fixes f g :: "byte \<Rightarrow> 'a::len word"
  assumes "\<And>x y. f (x XOR y) = f x XOR f y" "\<And>x y. g (x XOR y) = g x XOR g y"
    and "list_all (\<lambda>i. f (push_bit i 1) = g (push_bit i 1)) [0, 1, 2, 3, 4, 5, 6, 7]"
  shows "f x = g x"
proof -
  have "f (0 XOR 0) = f 0 XOR f 0" "g (0 XOR 0) = g 0 XOR g 0" using assms(1,2) by blast+
  then have zero: "f 0 = 0" "g 0 = 0" by simp_all
  have "n \<le> 8 \<Longrightarrow> f (take_bit n x) = g (take_bit n x)" for n
  proof (induction n)
    case (Suc n)
    have "take_bit (Suc n) x = take_bit n x XOR (if bit x n then push_bit n 1 else 0)"
      by (rule bit_word_eqI) (auto simp: bit_simps less_Suc_eq)
    moreover have "f (push_bit n 1) = g (push_bit n 1)" 
    proof -
      have "n \<in> set [0, 1, 2, 3, 4, 5, 6, 7]" using Suc.prems by auto
      then show ?thesis using assms(3) by (auto simp: list_all_iff)
    qed
    ultimately show ?case using Suc assms(1,2) zero by simp
  qed (simp add: zero)
  from this [of 8] show ?thesis by (simp add: take_bit_length_eq [where ?'a = 8, simplified])
qed

lemma spread_xor: "crc_spread (x XOR y) = crc_spread x XOR crc_spread y"
  by (simp add: crc_spread_def Let_def push_bit_xor drop_bit_xor unsigned_xor_eq xor.assoc xor.commute xor.left_commute)

lemma funpow_8: "(f ^^ 8) x = f (f (f (f (f (f (f (f x)))))))"
  by (simp add: eval_nat_numeral)

lemma spread_lfsr: "crc_spread x = (lfsr ^^ 8) (ucast x)"
proof (rule linear_byte_eq)
  show "list_all (\<lambda>i. crc_spread (push_bit i 1) = (lfsr ^^ 8) (ucast (push_bit i 1 :: byte))) [0, 1, 2, 3, 4, 5, 6, 7]"
    by (simp add: crc_spread_def lfsr_def Let_def funpow_8)
  show "(lfsr ^^ 8) (ucast (x XOR y)) = (lfsr ^^ 8) (ucast x) XOR (lfsr ^^ 8) (ucast y)" for x y :: byte
    by (simp add: lfsr_pow_xor unsigned_xor_eq)
qed (rule spread_xor)

lemma lfsr_byte_split: "lfsr_byte b w = drop_bit 8 w XOR crc_spread (b XOR ucast w)"
proof -
  have "w XOR ucast b = push_bit 8 (drop_bit 8 w) XOR ucast (b XOR ucast w :: byte)"
    by (rule bit_word_eqI) (auto simp: bit_simps dest: bit_imp_le_length)
  then have "lfsr_byte b w = (lfsr ^^ 8) (push_bit 8 (drop_bit 8 w)) XOR (lfsr ^^ 8) (ucast (b XOR ucast w :: byte))"
    by (simp only: lfsr_byte_def lfsr_pow_xor)
  also have "(lfsr ^^ 8) (push_bit 8 (drop_bit 8 w)) = drop_bit 8 w"
    by (simp add: lfsr_high) (rule bit_word_eqI, auto simp: bit_simps dest: bit_imp_le_length)
  finally show ?thesis by (simp add: spread_lfsr)
qed

lemma low_byte: "ucast (v AND (0xFF :: 32 word)) = (ucast v :: byte)"
proof -
  have m: "(0xFF :: 32 word) = mask 8" by (simp add: mask_eq_exp_minus_1)
  show ?thesis unfolding m take_bit_eq_mask [symmetric] by (rule bit_word_eqI) (auto simp: bit_simps)
qed

lemma ucast_shift: "ucast (drop_bit 8 w) = (drop_bit 8 (ucast (w :: 16 word)) :: 32 word)"
  by (rule bit_word_eqI) (auto simp: bit_simps dest: bit_imp_le_length)

lemma ucast_narrow: "ucast (ucast (w :: 16 word) :: 32 word) = (ucast w :: byte)"
  by (rule bit_word_eqI) (auto simp: bit_simps)

lemma crc_round_lfsr: "crc_round b (ucast (w :: 16 word)) = ucast (lfsr_byte b w)"
proof -
  have wide: "ucast (push_bit 8 (ucast x :: 16 word)) = (push_bit 8 (ucast x) :: 32 word)"
    "ucast (push_bit 3 (ucast x :: 16 word)) = (push_bit 3 (ucast x) :: 32 word)"
    "ucast (drop_bit 4 (ucast x :: 16 word)) = (drop_bit 4 (ucast x) :: 32 word)" for x :: byte
    by (rule bit_word_eqI, auto simp: bit_simps dest: bit_imp_le_length)+
  show ?thesis
    by (simp add: lfsr_byte_split crc_round_def crc_spread_def Let_def low_byte unsigned_xor_eq wide
        ucast_shift ucast_narrow xor.assoc)
qed

lemma crc_fold: "fold crc_round bs (ucast (w :: 16 word)) = ucast (fold lfsr_byte bs w)"
  by (induction bs arbitrary: w) (simp_all add: crc_round_lfsr)

lemma crc_bytes: "bs \<noteq> [] \<Longrightarrow> iso14443a_crc bs = Ret [ucast (crc_a bs), ucast (drop_bit 8 (crc_a bs))]"
proof -
  assume "bs \<noteq> []"
  moreover have "(0x6363 :: 32 word) = ucast (0x6363 :: 16 word)" by simp
  ultimately show ?thesis
    by (simp only: iso14443a_crc_def Let_def crc_fold crc_a_def if_False low_byte ucast_shift [symmetric] ucast_narrow)
qed

text \<open>A frame with its own CRC behind it leaves the register at zero.\<close>

lemma crc_residue: "fold lfsr_byte [ucast w, ucast (drop_bit 8 w)] w = 0"
proof -
  have z: "crc_spread 0 = 0" by (simp add: crc_spread_def)
  have "ucast (drop_bit 8 w) XOR ucast (drop_bit 8 w) = (0 :: byte)" by simp
  moreover have "drop_bit 8 (drop_bit 8 w) = 0" by (rule bit_word_eqI) (auto simp: bit_simps dest: bit_imp_le_length)
  ultimately show ?thesis by (simp add: lfsr_byte_split z)
qed

text \<open>C24. The CRC the code computes without a table is the one of ISO 14443-3 type A, bit by bit: the register of
  sixteen bits with the reversed polynomial \<open>0x8408\<close>, started at \<open>0x6363\<close>; and a frame with its CRC appended has
  the CRC zero, which is what a receiver tests.\<close>
theorem crc_is_lfsr:
  assumes "bs \<noteq> []"
  shows "iso14443a_crc bs = Ret [ucast (crc_a bs), ucast (drop_bit 8 (crc_a bs))] \<and>
    (\<exists>frame. iso14443a_crc_append bs = Ret frame \<and> iso14443a_crc frame = Ret [0, 0])"
proof -
  let ?f = "bs @ [ucast (crc_a bs), ucast (drop_bit 8 (crc_a bs))]"
  have "crc_a ?f = 0" using crc_residue [of "crc_a bs"] by (simp add: crc_a_def)
  then have "iso14443a_crc ?f = Ret [0, 0]" by (simp add: crc_bytes)
  then show ?thesis using crc_bytes [OF assms] by (simp add: iso14443a_crc_append_def)
qed

lemma crc_is_lfsr_witness: "\<exists>frame. iso14443a_crc_append [0x50, 0x00] = Ret frame \<and> iso14443a_crc frame = Ret [0, 0]"
  using crc_is_lfsr [of "[0x50, 0x00]"] by blast

end
