(* ===== verification/Pn53x_Target_Data.thy ===== *)
theory Pn53x_Target_Data
  imports Pn53x_Types Iso14443
begin

text \<open>
  The tables of \<open>chips/pn53x.c\<close> and what it does without talking to the chip: the decoding of the data of a target,
  the translations between modulations and the chip's own numbers, the texts of the errors.
\<close>

section \<open>Decoding the data of a target\<close>

definition read_byte :: "bytes \<Rightarrow> (byte \<Rightarrow> bytes \<Rightarrow> 'a outcome) \<Rightarrow> 'a outcome" where
  "read_byte p k = and_then (next_byte p) (\<lambda>(b, q). k b q)"

definition read_array :: "bytes \<Rightarrow> nat \<Rightarrow> bytes \<Rightarrow> nat \<Rightarrow> (bytes \<Rightarrow> bytes \<Rightarrow> 'a outcome) \<Rightarrow> 'a outcome" where
  "read_array a i p n k = and_then (copy_into a i p n) (\<lambda>a'. k a' (drop n p))"

definition strip_cascade_tags :: "nat \<Rightarrow> bytes \<Rightarrow> nat \<times> bytes" where
  "strip_cascade_tags n uid =
     (if n = 8 \<and> uid ! 0 = 0x88 then (7, splice uid 0 (take 7 (drop 1 uid)))
      else if n = 12 \<and> uid ! 0 = 0x88 \<and> uid ! 4 = 0x88 then
        (10, (let u = splice uid 0 (take 3 (drop 1 uid)) in splice u 3 (take 7 (drop 5 u))))
      else (n, uid))"

definition decode_iso14443a ::
    "bytes \<Rightarrow> nat \<Rightarrow> pn53x_type \<Rightarrow> nfc_iso14443a_info \<Rightarrow> nfc_iso14443a_info outcome" where
  "decode_iso14443a pbtRawData szRawData type i =
     read_byte (drop 1 pbtRawData) (\<lambda>a p. read_byte p (\<lambda>b p. read_byte p (\<lambda>sak p. read_byte p (\<lambda>len p.
     read_array (nai_abtUid i) 0 p (unat len) (\<lambda>uid p.
       let n = unat len;
           ats = (if szRawData > n + 5 then
                    read_byte p (\<lambda>l p. if l = 0 then Undefined
                      else read_array (nai_abtAts i) 0 p (unat l - 1) (\<lambda>ats p. Ret (unat l - 1, ats)))
                  else Ret (0, nai_abtAts i));
           (n', uid') = strip_cascade_tags n uid
       in and_then ats (\<lambda>(szAts, ats).
            Ret \<lparr>nai_abtAtqa = (if type = PN531 then [b, a] else [a, b]), nai_btSak = sak, nai_szUidLen = n',
                 nai_abtUid = uid', nai_szAtsLen = szAts, nai_abtAts = ats\<rparr>))))))"

definition decode_iso14443b :: "bytes \<Rightarrow> nfc_iso14443b_info \<Rightarrow> nfc_iso14443b_info outcome" where
  "decode_iso14443b pbtRawData i =
     read_array (nbi_abtPupi i) 0 (drop 2 pbtRawData) 4 (\<lambda>pupi p.
     read_array (nbi_abtApplicationData i) 0 p 4 (\<lambda>app p.
     read_array (nbi_abtProtocolInfo i) 0 p 3 (\<lambda>proto p.
     read_byte p (\<lambda>szAttribRes p.
       let i' = i\<lparr>nbi_abtPupi := pupi, nbi_abtApplicationData := app, nbi_abtProtocolInfo := proto\<rparr>
       in if szAttribRes \<noteq> 0 then read_byte p (\<lambda>cid p. Ret (i'\<lparr>nbi_ui8CardIdentifier := cid\<rparr>)) else Ret i'))))"

text \<open>An answer that is no \<open>REPGEN\<close> (0x07) is an error; a long one brings a configuration byte and perhaps an ATR, of
  \<open>szRawData - 8\<close> bytes, computed without a sign.\<close>

definition decode_iso14443bi ::
    "bytes \<Rightarrow> nat \<Rightarrow> nfc_iso14443bi_info \<Rightarrow> (int \<times> nfc_iso14443bi_info) outcome" where
  "decode_iso14443bi pbtRawData szRawData i =
     read_byte (drop 1 pbtRawData) (\<lambda>kind p. if kind \<noteq> 0x07 then Ret (NFC_ECHIP, i) else
     read_array (nii_abtDIV i) 0 p 4 (\<lambda>dv p. read_byte p (\<lambda>ver p.
       let i1 = i\<lparr>nii_abtDIV := dv, nii_btVerLog := ver\<rparr> in
       if ver AND 0x80 \<noteq> 0 then
         read_byte p (\<lambda>conf p.
           let i2 = i1\<lparr>nii_btConfig := conf\<rparr> in
           if conf AND 0x40 \<noteq> 0 then
             (if szRawData < 8 then Undefined
              else read_array (nii_abtAtr i) 0 p (szRawData - 8) (\<lambda>atr p.
                     Ret (NFC_SUCCESS, i2\<lparr>nii_abtAtr := atr, nii_szAtrLen := szRawData - 8\<rparr>)))
           else Ret (NFC_SUCCESS, i2))
       else Ret (NFC_SUCCESS, i1))))"

definition decode_iso14443b2ct :: "bytes \<Rightarrow> nfc_iso14443b2ct_info \<Rightarrow> nfc_iso14443b2ct_info outcome" where
  "decode_iso14443b2ct pbtRawData i =
     read_array (nci_abtUID i) 0 pbtRawData 2 (\<lambda>uid p. read_byte p (\<lambda>prod p. read_byte p (\<lambda>fab p.
     read_array uid 2 p 2 (\<lambda>uid p. Ret \<lparr>nci_abtUID = uid, nci_btProdCode = prod, nci_btFabCode = fab\<rparr>))))"

definition decode_felica :: "bytes \<Rightarrow> nfc_felica_info \<Rightarrow> nfc_felica_info outcome" where
  "decode_felica pbtRawData i =
     read_byte (drop 1 pbtRawData) (\<lambda>len p. read_byte p (\<lambda>code p.
     read_array (nfi_abtId i) 0 p 8 (\<lambda>nfcid p. read_array (nfi_abtPad i) 0 p 8 (\<lambda>pad p.
       let i' = i\<lparr>nfi_szLen := unat len, nfi_btResCode := code, nfi_abtId := nfcid, nfi_abtPad := pad\<rparr>
       in if unat len > 18 then read_array (nfi_abtSysCode i) 0 p 2 (\<lambda>sys p. Ret (i'\<lparr>nfi_abtSysCode := sys\<rparr>))
          else Ret i'))))"

definition decode_jewel :: "bytes \<Rightarrow> nfc_jewel_info \<Rightarrow> nfc_jewel_info outcome" where
  "decode_jewel pbtRawData i =
     read_array (nji_btSensRes i) 0 (drop 1 pbtRawData) 2 (\<lambda>sens p.
     read_array (nji_btId i) 0 p 4 (\<lambda>jid p. Ret \<lparr>nji_btSensRes = sens, nji_btId = jid\<rparr>))"

text \<open>\<open>pbtRawData\<close> is all that is known behind the pointer; \<open>szRawData\<close> is passed on its own.\<close>

fun pn53x_decode_target_data ::
    "bytes \<Rightarrow> nat \<Rightarrow> pn53x_type \<Rightarrow> nfc_modulation_type \<Rightarrow> nfc_target_info \<Rightarrow> (int \<times> nfc_target_info) outcome" where
  "pn53x_decode_target_data raw szRaw type NMT_ISO14443A t =
     and_then (decode_iso14443a raw szRaw type (nai t)) (\<lambda>i. Ret (NFC_SUCCESS, t\<lparr>nai := i\<rparr>))"
| "pn53x_decode_target_data raw szRaw type NMT_ISO14443B t =
     and_then (decode_iso14443b raw (nbi t)) (\<lambda>i. Ret (NFC_SUCCESS, t\<lparr>nbi := i\<rparr>))"
| "pn53x_decode_target_data raw szRaw type NMT_ISO14443BI t =
     and_then (decode_iso14443bi raw szRaw (nii t)) (\<lambda>(res, i). Ret (res, t\<lparr>nii := i\<rparr>))"
| "pn53x_decode_target_data raw szRaw type NMT_ISO14443B2SR t =
     read_array (nsi_abtUID (nsi t)) 0 raw 8 (\<lambda>uid p. Ret (NFC_SUCCESS, t\<lparr>nsi := \<lparr>nsi_abtUID = uid\<rparr>\<rparr>))"
| "pn53x_decode_target_data raw szRaw type NMT_ISO14443B2CT t =
     and_then (decode_iso14443b2ct raw (nci t)) (\<lambda>i. Ret (NFC_SUCCESS, t\<lparr>nci := i\<rparr>))"
| "pn53x_decode_target_data raw szRaw type NMT_FELICA t =
     and_then (decode_felica raw (nfi t)) (\<lambda>i. Ret (NFC_SUCCESS, t\<lparr>nfi := i\<rparr>))"
| "pn53x_decode_target_data raw szRaw type NMT_JEWEL t =
     and_then (decode_jewel raw (nji t)) (\<lambda>i. Ret (NFC_SUCCESS, t\<lparr>nji := i\<rparr>))"
| "pn53x_decode_target_data raw szRaw type NMT_DEP t = Ret (NFC_ECHIP, t)"

section \<open>Modulations and the numbers of the chip\<close>

fun pn53x_nm_to_pm :: "nfc_modulation_type \<Rightarrow> nfc_baud_rate \<Rightarrow> pn53x_modulation" where
  "pn53x_nm_to_pm NMT_ISO14443A _ = PM_ISO14443A_106"
| "pn53x_nm_to_pm NMT_ISO14443B NBR_106 = PM_ISO14443B_106"
| "pn53x_nm_to_pm NMT_ISO14443B NBR_212 = PM_ISO14443B_212"
| "pn53x_nm_to_pm NMT_ISO14443B NBR_424 = PM_ISO14443B_424"
| "pn53x_nm_to_pm NMT_ISO14443B NBR_847 = PM_ISO14443B_847"
| "pn53x_nm_to_pm NMT_JEWEL _ = PM_JEWEL_106"
| "pn53x_nm_to_pm NMT_FELICA NBR_212 = PM_FELICA_212"
| "pn53x_nm_to_pm NMT_FELICA NBR_424 = PM_FELICA_424"
| "pn53x_nm_to_pm _ _ = PM_UNDEFINED"

definition modulation :: "nfc_modulation_type \<Rightarrow> nfc_baud_rate \<Rightarrow> nfc_modulation" where
  "modulation t r = \<lparr>nmt = t, nbr = r\<rparr>"

fun pn53x_ptt_to_nm :: "pn53x_target_type option \<Rightarrow> nfc_modulation" where
  "pn53x_ptt_to_nm (Some PTT_MIFARE) = modulation NMT_ISO14443A NBR_106"
| "pn53x_ptt_to_nm (Some PTT_ISO14443_4A_106) = modulation NMT_ISO14443A NBR_106"
| "pn53x_ptt_to_nm (Some PTT_ISO14443_4B_106) = modulation NMT_ISO14443B NBR_106"
| "pn53x_ptt_to_nm (Some PTT_ISO14443_4B_TCL_106) = modulation NMT_ISO14443B NBR_106"
| "pn53x_ptt_to_nm (Some PTT_JEWEL_106) = modulation NMT_JEWEL NBR_106"
| "pn53x_ptt_to_nm (Some PTT_FELICA_212) = modulation NMT_FELICA NBR_212"
| "pn53x_ptt_to_nm (Some PTT_FELICA_424) = modulation NMT_FELICA NBR_424"
| "pn53x_ptt_to_nm (Some PTT_DEP_PASSIVE_106) = modulation NMT_DEP NBR_106"
| "pn53x_ptt_to_nm (Some PTT_DEP_ACTIVE_106) = modulation NMT_DEP NBR_106"
| "pn53x_ptt_to_nm (Some PTT_DEP_PASSIVE_212) = modulation NMT_DEP NBR_212"
| "pn53x_ptt_to_nm (Some PTT_DEP_ACTIVE_212) = modulation NMT_DEP NBR_212"
| "pn53x_ptt_to_nm (Some PTT_DEP_PASSIVE_424) = modulation NMT_DEP NBR_424"
| "pn53x_ptt_to_nm (Some PTT_DEP_ACTIVE_424) = modulation NMT_DEP NBR_424"
| "pn53x_ptt_to_nm _ = modulation NMT_ISO14443A NBR_106"

fun pn53x_nm_to_ptt :: "nfc_modulation_type \<Rightarrow> nfc_baud_rate \<Rightarrow> pn53x_target_type" where
  "pn53x_nm_to_ptt NMT_ISO14443A _ = PTT_MIFARE"
| "pn53x_nm_to_ptt NMT_ISO14443B NBR_106 = PTT_ISO14443_4B_106"
| "pn53x_nm_to_ptt NMT_JEWEL _ = PTT_JEWEL_106"
| "pn53x_nm_to_ptt NMT_FELICA NBR_212 = PTT_FELICA_212"
| "pn53x_nm_to_ptt NMT_FELICA NBR_424 = PTT_FELICA_424"
| "pn53x_nm_to_ptt _ _ = PTT_UNDEFINED"

section \<open>Supported baud rates\<close>

definition pn53x_iso14443a_supported_baud_rates :: "nfc_baud_rate list" where
  "pn53x_iso14443a_supported_baud_rates = [NBR_106]"

definition pn53x_felica_supported_baud_rates :: "nfc_baud_rate list" where
  "pn53x_felica_supported_baud_rates = [NBR_424, NBR_212]"

definition pn53x_dep_supported_baud_rates :: "nfc_baud_rate list" where
  "pn53x_dep_supported_baud_rates = [NBR_424, NBR_212, NBR_106]"

definition pn53x_jewel_supported_baud_rates :: "nfc_baud_rate list" where
  "pn53x_jewel_supported_baud_rates = [NBR_106]"

definition pn532_iso14443b_supported_baud_rates :: "nfc_baud_rate list" where
  "pn532_iso14443b_supported_baud_rates = [NBR_106]"

definition pn533_iso14443b_supported_baud_rates :: "nfc_baud_rate list" where
  "pn533_iso14443b_supported_baud_rates = [NBR_847, NBR_424, NBR_212, NBR_106]"

definition pn53x_supported_modulation_as_target :: "nfc_modulation_type list" where
  "pn53x_supported_modulation_as_target = [NMT_ISO14443A, NMT_FELICA, NMT_DEP]"

fun pn53x_get_supported_baud_rate :: "pn53x_type \<Rightarrow> nfc_modulation_type \<Rightarrow> nfc_baud_rate list" where
  "pn53x_get_supported_baud_rate type NMT_FELICA = pn53x_felica_supported_baud_rates"
| "pn53x_get_supported_baud_rate type NMT_ISO14443A = pn53x_iso14443a_supported_baud_rates"
| "pn53x_get_supported_baud_rate type NMT_JEWEL = pn53x_jewel_supported_baud_rates"
| "pn53x_get_supported_baud_rate type NMT_DEP = pn53x_dep_supported_baud_rates"
| "pn53x_get_supported_baud_rate type _ =
     (if type \<noteq> PN533 then pn532_iso14443b_supported_baud_rates else pn533_iso14443b_supported_baud_rates)"

fun pn53x_get_supported_modulation :: "'s nfc_device \<Rightarrow> nfc_mode \<Rightarrow> nfc_modulation_type list option" where
  "pn53x_get_supported_modulation dv N_TARGET = supported_modulation_as_target (chip_data dv)"
| "pn53x_get_supported_modulation dv N_INITIATOR = supported_modulation_as_initiator (chip_data dv)"

section \<open>Error texts\<close>

definition sErrorMessages :: "(byte \<times> string) list" where
  "sErrorMessages =
     [(0x00, ''Success''), (ETIMEOUT, ''Timeout''), (ECRC, ''CRC Error''), (EPARITY, ''Parity Error''),
      (EBITCOUNT, ''Erroneous Bit Count''), (EFRAMING, ''Framing Error''), (EBITCOLL, ''Bit-collision''),
      (ESMALLBUF, ''Communication Buffer Too Small''), (EBUFOVF, ''Buffer Overflow''), (ERFPROTO, ''RF Protocol Error''),
      (EOVHEAT, ''Chip Overheating''), (EINBUFOVF, ''Internal Buffer overflow.''), (EINVPARAM, ''Invalid Parameter''),
      (EOPNOTALL, ''Operation Not Allowed''), (ECMD, ''Command Not Acceptable''), (EOVCURRENT, ''Over Current''),
      (ERFTIMEOUT, ''RF Timeout''), (EDEPUNKCMD, ''Unknown DEP Command''), (EDEPINVSTATE, ''Invalid DEP State''),
      (ENAD, ''NAD Missing in DEP Frame''), (EMFAUTH, ''Mifare Authentication Error''),
      (EINVRXFRAM, ''Invalid Received Frame''), (ENSECNOTSUPP, ''NFC Secure not supported''),
      (EBCC, ''Wrong UID Check Byte (BCC)''), (ETGREL, ''Target Released''), (ECID, ''Card ID Mismatch''),
      (ECDISCARDED, ''Card Discarded''), (ENFCID3, ''NFCID3 Mismatch'')]"

definition pn53x_strerror :: "'s nfc_device \<Rightarrow> string" where
  "pn53x_strerror dv =
     (case map_of sErrorMessages (last_status_byte (chip_data dv)) of None \<Rightarrow> ''Unknown error'' | Some s \<Rightarrow> s)"

section \<open>The UID of a target\<close>

text \<open>What the chip reports of a type A target, after the target number: ATQA, SAK, the UID with its cascade tags and,
  where there is one, the ATS with its length.\<close>

definition target_data_a :: "byte \<Rightarrow> byte \<Rightarrow> byte \<Rightarrow> bytes \<Rightarrow> bytes \<Rightarrow> bytes" where
  "target_data_a a b sak uid ats =
     (let c = iso14443_cascade_uid uid in
      [a, b, sak, word_of_nat (length c)] @ c @ (if ats = [] then [] else word_of_nat (length ats + 1) # ats))"

lemma unat_byte: "n < 256 \<Longrightarrow> unat (word_of_nat n :: byte) = n"
  by (simp add: unat_of_nat take_bit_eq_mod)

lemma length_cascade: "length (iso14443_cascade_uid uid) =
    (if length uid = 7 then 8 else if length uid = 10 then 12 else length uid)"
  by (simp add: iso14443_cascade_uid_def)

lemma take_splice_0: "length ys \<le> length xs \<Longrightarrow> take (length ys) (splice xs 0 ys) = ys"
  by (simp add: splice_def)

lemma strip_cascaded:
  assumes "length uid = 4 \<or> length uid = 7" "length a = 10"
  defines "c \<equiv> iso14443_cascade_uid uid"
  shows "\<exists>u. strip_cascade_tags (length c) (splice a 0 c) = (length uid, u) \<and> take (length uid) u = uid"
proof (cases "length uid = 7")
  case True
  have "splice a 0 c = 0x88 # uid @ drop 8 a" using True by (simp add: splice_def c_def iso14443_cascade_uid_def)
  then show ?thesis
    using True by (simp add: strip_cascade_tags_def c_def length_cascade splice_def)
next
  case False
  then have "length uid = 4" "c = uid" using assms(1) by (auto simp: c_def iso14443_cascade_uid_def)
  then show ?thesis using take_splice_0 [of uid a] assms(2) by (simp add: strip_cascade_tags_def)
qed

text \<open>C26. A target's UID of four or seven bytes, with or without ATS, comes out of the data the chip sends for it as it
  is, the cascade tag of the chip's form removed; but the twelve bytes of a ten-byte UID with its two cascade tags are
  copied into an array of ten, and the code that would strip them comes too late.\<close>
theorem uid_decoded:
  assumes "length uid \<in> {4, 7, 10}" "length ats \<le> 254" "target_info_ok t" "type \<noteq> PN531"
  shows "let raw = tg # target_data_a a b sak uid ats;
      r = pn53x_decode_target_data raw (length raw) type NMT_ISO14443A t in
    if length uid = 10 then r = Undefined
    else \<exists>i. r = Ret (NFC_SUCCESS, t\<lparr>nai := i\<rparr>) \<and> nai_szUidLen i = length uid \<and>
      take (length uid) (nai_abtUid i) = uid \<and> nai_abtAtqa i = [a, b] \<and> nai_btSak i = sak \<and>
      nai_szAtsLen i = length ats \<and> take (length ats) (nai_abtAts i) = ats"
proof -
  define c where "c = iso14443_cascade_uid uid"
  let ?w = "if ats = [] then [] else word_of_nat (length ats + 1) # ats"
  have ok: "length (nai_abtUid (nai t)) = 10" "length (nai_abtAts (nai t)) = 254" using assms(3) by (simp_all add: target_info_ok_def)
  have n: "length c < 256" "unat (word_of_nat (length c) :: byte) = length c" "length c \<le> 10 \<longleftrightarrow> length uid \<noteq> 10"
    using assms(1) by (auto simp: c_def length_cascade unat_byte)
  have raw: "target_data_a a b sak uid ats = [a, b, sak, word_of_nat (length c)] @ c @ ?w"
    by (simp add: target_data_a_def c_def Let_def)
  show ?thesis
  proof (cases "length uid = 10")
    case True
    then have "copy_into (nai_abtUid (nai t)) 0 (c @ ?w) (length c) = Undefined" using n(3) ok(1) by (simp add: copy_into_def)
    then show ?thesis using True n(2) unfolding raw by (simp add: decode_iso14443a_def read_byte_def read_array_def)
  next
    case False
    with assms(1) have "length uid = 4 \<or> length uid = 7" by simp
    from strip_cascaded [OF this ok(1)] obtain u where
      u: "strip_cascade_tags (length c) (splice (nai_abtUid (nai t)) 0 c) = (length uid, u)" "take (length uid) u = uid"
      by (auto simp: c_def)
    have uid: "copy_into (nai_abtUid (nai t)) 0 (c @ ?w) (length c) = Ret (splice (nai_abtUid (nai t)) 0 c)"
      using n(3) False ok(1) by (simp add: copy_into_def)
    have len: "unat (word_of_nat (length ats + 1) :: byte) = length ats + 1" if "ats \<noteq> []" using assms(2) by (intro unat_byte) simp
    have ats: "copy_into (nai_abtAts (nai t)) 0 ats (length ats) = Ret (splice (nai_abtAts (nai t)) 0 ats)"
      using assms(2) ok(2) by (simp add: copy_into_def)
    have "word_of_nat (length ats + 1) \<noteq> (0 :: byte)" if "ats \<noteq> []" using len [OF that] by (metis add_is_0 one_neq_zero unat_0)
    then show ?thesis
      using False n(2) uid u len ats assms(2,4) ok(2) take_splice_0 [of ats "nai_abtAts (nai t)"] unfolding raw
      by (auto simp: decode_iso14443a_def read_byte_def read_array_def simp del: of_nat_add of_nat_Suc)
  qed
qed

definition blank_info :: nfc_target_info where
  "blank_info =
     \<lparr>nai = \<lparr>nai_abtAtqa = replicate 2 0, nai_btSak = 0, nai_szUidLen = 0, nai_abtUid = replicate 10 0, nai_szAtsLen = 0,
             nai_abtAts = replicate 254 0\<rparr>,
      nfi = \<lparr>nfi_szLen = 0, nfi_btResCode = 0, nfi_abtId = replicate 8 0, nfi_abtPad = replicate 8 0, nfi_abtSysCode = replicate 2 0\<rparr>,
      nbi = \<lparr>nbi_abtPupi = replicate 4 0, nbi_abtApplicationData = replicate 4 0, nbi_abtProtocolInfo = replicate 3 0,
             nbi_ui8CardIdentifier = 0\<rparr>,
      nii = \<lparr>nii_abtDIV = replicate 4 0, nii_btVerLog = 0, nii_btConfig = 0, nii_szAtrLen = 0, nii_abtAtr = replicate 33 0\<rparr>,
      nsi = \<lparr>nsi_abtUID = replicate 8 0\<rparr>,
      nci = \<lparr>nci_abtUID = replicate 4 0, nci_btProdCode = 0, nci_btFabCode = 0\<rparr>,
      nji = \<lparr>nji_btSensRes = replicate 2 0, nji_btId = replicate 4 0\<rparr>,
      ndi = \<lparr>dep_abtNFCID3 = replicate 10 0, dep_btDID = 0, dep_btBS = 0, dep_btBR = 0, dep_btTO = 0, dep_btPP = 0,
             dep_abtGB = replicate 48 0, dep_szGB = 0, dep_ndm = NDM_UNDEFINED\<rparr>\<rparr>"

lemma blank_info_ok: "target_info_ok blank_info"
  by (simp add: target_info_ok_def blank_info_def)

lemma uid_decoded_witness:
  "\<exists>i. pn53x_decode_target_data ([1] @ target_data_a 0x44 0x00 0x20 [1, 2, 3, 4, 5, 6, 7] [0x75, 0x77]) 16 PN532
       NMT_ISO14443A blank_info = Ret (NFC_SUCCESS, blank_info\<lparr>nai := i\<rparr>) \<and>
     take 7 (nai_abtUid i) = [1, 2, 3, 4, 5, 6, 7] \<and> nai_szUidLen i = 7 \<and> nai_szAtsLen i = 2"
proof -
  have "length (1 # target_data_a 0x44 0x00 0x20 [1, 2, 3, 4, 5, 6, 7] [0x75, 0x77]) = 16"
    by (simp add: target_data_a_def length_cascade)
  with uid_decoded [of "[1, 2, 3, 4, 5, 6, 7]" "[0x75, 0x77]" blank_info PN532 1 "0x44" "0x00" "0x20"]
  show ?thesis using blank_info_ok by (auto simp: Let_def eval_nat_numeral simp del: pn53x_decode_target_data.simps)
qed

end
