(* ===== verification/Pn53x_Device.thy ===== *)
theory Pn53x_Device
  imports Pn53x_Target_Data
begin

text \<open>
  \<open>chips/pn53x.c\<close>: the exchange of a command and its answer with the chip, the registers with their write-back
  cache, and what is built on them - parameters, settings, properties, the release of targets.  A command's answer is
  the list of the bytes that were received; what lies behind them in the C buffer is not initialised, and looking at it
  is undefined.
\<close>

section \<open>Exchanging a command and its answer\<close>

definition status_commands :: "byte list" where
  "status_commands =
     [PowerDown, InDataExchange, InCommunicateThru, InJumpForPSL, InPSL, InATR, InSelect, InJumpForDEP, TgGetData,
      TgGetInitiatorCommand, TgSetData, TgResponseToInitiator, TgSetGeneralBytes, TgSetMetaData]"

text \<open>The first switch: which byte of the answer, if any, is the status of the command.\<close>

definition status_of_answer :: "pn53x_type \<Rightarrow> bytes \<Rightarrow> bytes \<Rightarrow> byte outcome" where
  "status_of_answer type tx rx =
     (let cmd = tx ! 0; masked = and_then (byte_at rx 0) (\<lambda>b. Ret (b AND 0x3f)) in
      if cmd \<in> set status_commands then
        and_then (byte_at rx 0) (\<lambda>b.
          if b AND 0x80 \<noteq> 0 then Aborts
          else if b AND 0x40 \<noteq> 0 then Aborts
          else Ret (b AND 0x3f))
      else if cmd = Diagnose then
        and_then (byte_at tx 1) (\<lambda>test. if test = 0x06 then masked else Ret 0)
      else if cmd = InDeselect \<or> cmd = InRelease then (if type = RCS360 then Ret 0 else masked)
      else if cmd = ReadRegister \<or> cmd = WriteRegister then (if type = PN533 then masked else Ret 0)
      else Ret 0)"

text \<open>The second switch.\<close>

definition result_of_status :: "byte \<Rightarrow> int \<Rightarrow> int" where
  "result_of_status st szRx =
     (if st = 0 then szRx
      else if st \<in> {ETIMEOUT, ECRC, EPARITY, EBITCOUNT, EFRAMING, EBITCOLL, ERFPROTO, ERFTIMEOUT, EDEPUNKCMD,
                    EDEPINVSTATE, ENAD, ENFCID3, EINVRXFRAM, EBCC, ECID} then NFC_ERFTRANS
      else if st \<in> {ESMALLBUF, EOVCURRENT, EBUFOVF, EOVHEAT, EINBUFOVF} then NFC_ECHIP
      else if st \<in> {EINVPARAM, EOPNOTALL, ECMD, ENSECNOTSUPP} then NFC_EINVARG
      else if st \<in> {ETGREL, ECDISCARDED} then NFC_ETGRELEASED
      else if st = EMFAUTH then NFC_ETGRELEASED
      else NFC_ECHIP)"

definition pn53x_current_target_free :: "'s nfc_device \<Rightarrow> 's nfc_device" where
  "pn53x_current_target_free = set_chip (\<lambda>c. c\<lparr>current_target := None\<rparr>)"

definition pn53x_current_target_new :: "nfc_target \<Rightarrow> 's nfc_device \<Rightarrow> 's nfc_device" where
  "pn53x_current_target_new t = set_chip (\<lambda>c. c\<lparr>current_target := Some t\<rparr>)"

definition pn53x_current_target_is :: "nfc_target \<Rightarrow> 's nfc_device \<Rightarrow> bool" where
  "pn53x_current_target_is t dv \<longleftrightarrow> current_target (chip_data dv) = Some t"

definition sets_power_mode :: "bytes \<Rightarrow> pn53x_power_mode \<Rightarrow> 's nfc_device \<Rightarrow> 's nfc_device" where
  "sets_power_mode tx md dv =
     (if chip_type dv = PN532 \<and> tx ! 0 = TgInitAsTarget then set_chip (\<lambda>c. c\<lparr>power_mode := md\<rparr>) dv else dv)"

text \<open>The function without its first lines, which write the cached registers back.\<close>

definition transceive_now :: "'s pn53x_io \<Rightarrow> bytes \<Rightarrow> nat \<Rightarrow> int \<Rightarrow> ('s, int \<times> bytes) op" where
  "transceive_now io pbtTx szRxLen timeout dv =
     (if pbtTx = [] then Undefined
      else (let timeout = (if timeout = -1 then timeout_command (chip_data dv) else timeout);
                szRx = (if szRxLen = 0 then PN53x_EXTENDED_FRAME__DATA_MAX_LEN else szRxLen) in
        on_ok res_none (io_send io pbtTx timeout dv) (\<lambda>_ dv.
        on_rx res_none
          (io_receive io szRx timeout
             (sets_power_mode pbtTx POWERDOWN (set_chip (\<lambda>c. c\<lparr>last_command := pbtTx ! 0\<rparr>) dv))) (\<lambda>szRx rx dv.
        and_then (status_of_answer (chip_type dv) pbtTx rx) (\<lambda>st.
          let dv1 = set_chip (\<lambda>c. c\<lparr>last_status_byte := st\<rparr>) (sets_power_mode pbtTx NORMAL dv);
              dv2 = (if st = ETGREL \<or> st = ECDISCARDED then pn53x_current_target_free dv1 else dv1);
              res = result_of_status st szRx
          in Ret ((res, rx), dv2\<lparr>last_error := (if res < 0 then res else 0)\<rparr>))))))"

section \<open>The write-back cache\<close>

definition partly_masked :: "byte \<Rightarrow> bool" where
  "partly_masked m \<longleftrightarrow> m \<noteq> 0 \<and> m \<noteq> 0xff"

definition address_bytes :: "nat \<Rightarrow> bytes" where
  "address_bytes a = [word_of_nat (a div 256), word_of_nat (a mod 256)]"

definition cached_address :: "nat \<Rightarrow> nat" where
  "cached_address n = PN53X_REG_CIU_Mode + n"

fun reads_needed :: "bytes \<Rightarrow> nat list \<Rightarrow> bytes" where
  "reads_needed wm [] = []"
| "reads_needed wm (n # ns) =
     (if partly_masked (wm ! n) then address_bytes (cached_address n) else []) @ reads_needed wm ns"

text \<open>The answer merged into the cache: \<open>i\<close> is the place in the answer.\<close>

fun merge_answer :: "bytes \<Rightarrow> nat list \<Rightarrow> nat \<Rightarrow> bytes \<times> bytes \<Rightarrow> (bytes \<times> bytes) outcome" where
  "merge_answer rx [] i (wd, wm) = Ret (wd, wm)"
| "merge_answer rx (n # ns) i (wd, wm) =
     (if partly_masked (wm ! n) then
        and_then (byte_at rx i) (\<lambda>b.
          let v = (wd ! n AND wm ! n) OR (b AND NOT (wm ! n))
          in merge_answer rx ns (i + 1) (wd[n := v], wm[n := (if v \<noteq> b then 0xff else 0x00)]))
      else merge_answer rx ns i (wd, wm))"

fun collect_writes :: "bytes \<Rightarrow> nat list \<Rightarrow> bytes \<Rightarrow> bytes \<times> bytes" where
  "collect_writes wd [] wm = ([], wm)"
| "collect_writes wd (n # ns) wm =
     (if wm ! n = 0xff then
        (let (cmd, wm') = collect_writes wd ns (wm[n := 0x00])
         in (address_bytes (cached_address n) @ [wd ! n] @ cmd, wm'))
      else collect_writes wd ns wm)"

abbreviation cache_places :: "nat list" where
  "cache_places \<equiv> [0..<PN53X_CACHE_REGISTER_SIZE]"

definition writeback_reads :: "(bytes \<Rightarrow> nat \<Rightarrow> int \<Rightarrow> ('s, int \<times> bytes) op) \<Rightarrow> ('s, int) op" where
  "writeback_reads transceive dv =
     (let abtReadRegisterCmd = ReadRegister # reads_needed (wb_mask (chip_data dv)) cache_places in
      if length abtReadRegisterCmd > 1 then
        on_rx res_only (transceive abtReadRegisterCmd PN53x_EXTENDED_FRAME__DATA_MAX_LEN (- 1) dv) (\<lambda>res rx dv.
          and_then (merge_answer rx cache_places (if chip_type dv = PN533 then 1 else 0)
                      (wb_data (chip_data dv), wb_mask (chip_data dv)))
            (\<lambda>(wd, wm). Ret (NFC_SUCCESS, set_chip (\<lambda>c. c\<lparr>wb_data := wd, wb_mask := wm\<rparr>) dv)))
      else Ret (NFC_SUCCESS, dv))"

definition writeback_writes :: "(bytes \<Rightarrow> nat \<Rightarrow> int \<Rightarrow> ('s, int \<times> bytes) op) \<Rightarrow> ('s, int) op" where
  "writeback_writes transceive dv =
     (let (writes, wm) = collect_writes (wb_data (chip_data dv)) cache_places (wb_mask (chip_data dv));
          dv' = set_chip (\<lambda>c. c\<lparr>wb_mask := wm\<rparr>) dv in
      if length (WriteRegister # writes) > 1 then
        on_rx res_only (transceive (WriteRegister # writes) 0 (- 1) dv') (\<lambda>_ _ dv. Ret (NFC_SUCCESS, dv))
      else Ret (NFC_SUCCESS, dv'))"

definition writeback_with :: "(bytes \<Rightarrow> nat \<Rightarrow> int \<Rightarrow> ('s, int \<times> bytes) op) \<Rightarrow> ('s, int) op" where
  "writeback_with transceive dv =
     on_ok res_only (writeback_reads transceive (set_chip (\<lambda>c. c\<lparr>wb_trigged := False\<rparr>) dv))
       (\<lambda>_ dv. writeback_writes transceive dv)"

text \<open>An exchange first writes the cache back, with exchanges of its own; those find the flag cleared.  The number
  bounds how deep exchanges nest: at 0 the call has not returned.\<close>

fun pn53x_transceive_n :: "nat \<Rightarrow> 's pn53x_io \<Rightarrow> bytes \<Rightarrow> nat \<Rightarrow> int \<Rightarrow> ('s, int \<times> bytes) op" where
  "pn53x_transceive_n 0 io pbtTx szRxLen timeout dv = Blocks"
| "pn53x_transceive_n (Suc n) io pbtTx szRxLen timeout dv =
     (if wb_trigged (chip_data dv) then
        on_ok res_none (writeback_with (pn53x_transceive_n n io) dv)
          (\<lambda>_ dv. transceive_now io pbtTx szRxLen timeout dv)
      else transceive_now io pbtTx szRxLen timeout dv)"

definition pn53x_transceive :: "'s pn53x_io \<Rightarrow> bytes \<Rightarrow> nat \<Rightarrow> int \<Rightarrow> ('s, int \<times> bytes) op" where
  "pn53x_transceive = pn53x_transceive_n 2"

definition pn53x_writeback_register :: "'s pn53x_io \<Rightarrow> ('s, int) op" where
  "pn53x_writeback_register io = writeback_with (pn53x_transceive io)"

text \<open>A command whose answer is not looked at.\<close>

definition command :: "'s pn53x_io \<Rightarrow> bytes \<Rightarrow> int \<Rightarrow> ('s, int) op" where
  "command io pbtTx timeout dv = rx_dropped (pn53x_transceive io pbtTx 0 timeout dv)"

section \<open>Registers\<close>

text \<open>The result and the value, which is there with a success only.\<close>

definition pn53x_ReadRegister :: "'s pn53x_io \<Rightarrow> nat \<Rightarrow> ('s, int \<times> byte list) op" where
  "pn53x_ReadRegister io ui16RegisterAddress dv =
     on_rx res_none (pn53x_transceive io (ReadRegister # address_bytes ui16RegisterAddress) 2 (- 1) dv) (\<lambda>res abtRegValue dv.
       and_then (byte_at abtRegValue (if chip_type dv = PN533 then 1 else 0)) (\<lambda>v. Ret ((NFC_SUCCESS, [v]), dv)))"

definition pn53x_read_register :: "'s pn53x_io \<Rightarrow> nat \<Rightarrow> ('s, int \<times> byte list) op" where
  "pn53x_read_register = pn53x_ReadRegister"

definition pn53x_WriteRegister :: "'s pn53x_io \<Rightarrow> nat \<Rightarrow> byte \<Rightarrow> ('s, int) op" where
  "pn53x_WriteRegister io ui16RegisterAddress ui8Value =
     command io (WriteRegister # address_bytes ui16RegisterAddress @ [ui8Value]) (- 1)"

definition cache_write :: "nat \<Rightarrow> byte \<Rightarrow> byte \<Rightarrow> pn53x_data \<Rightarrow> pn53x_data" where
  "cache_write n ui8SymbolMask ui8Value c =
     c\<lparr>wb_data := (wb_data c)[n := (wb_data c ! n AND wb_mask c ! n AND NOT ui8SymbolMask) OR (ui8Value AND ui8SymbolMask)],
       wb_mask := (wb_mask c)[n := wb_mask c ! n OR ui8SymbolMask],
       wb_trigged := True\<rparr>"

definition pn53x_write_register :: "'s pn53x_io \<Rightarrow> nat \<Rightarrow> byte \<Rightarrow> byte \<Rightarrow> ('s, int) op" where
  "pn53x_write_register io ui16RegisterAddress ui8SymbolMask ui8Value dv =
     (if ui16RegisterAddress < PN53X_REG_CIU_Mode \<or> ui16RegisterAddress > PN53X_REG_CIU_Coll then
        (if ui8SymbolMask \<noteq> 0xff then
           on_rx res_only (pn53x_read_register io ui16RegisterAddress dv) (\<lambda>_ ui8CurrentValue dv.
             and_then (byte_at ui8CurrentValue 0) (\<lambda>cur.
               let ui8NewValue = (ui8Value AND ui8SymbolMask) OR (cur AND NOT ui8SymbolMask) in
               if ui8NewValue \<noteq> cur then pn53x_WriteRegister io ui16RegisterAddress ui8NewValue dv
               else Ret (NFC_SUCCESS, dv)))
         else pn53x_WriteRegister io ui16RegisterAddress ui8Value dv)
      else Ret (NFC_SUCCESS, set_chip (cache_write (ui16RegisterAddress - PN53X_REG_CIU_Mode) ui8SymbolMask ui8Value) dv))"

section \<open>Settings of the chip\<close>

definition pn53x_RFConfiguration__RF_field :: "'s pn53x_io \<Rightarrow> bool \<Rightarrow> ('s, int) op" where
  "pn53x_RFConfiguration__RF_field io bEnable =
     command io [RFConfiguration, RFCI_FIELD, if bEnable then 0x01 else 0x00] (- 1)"

definition pn53x_RFConfiguration__Various_timings :: "'s pn53x_io \<Rightarrow> byte \<Rightarrow> byte \<Rightarrow> ('s, int) op" where
  "pn53x_RFConfiguration__Various_timings io fATR_RES_Timeout fRetryTimeout =
     command io [RFConfiguration, RFCI_TIMING, 0x00, fATR_RES_Timeout, fRetryTimeout] (- 1)"

definition pn53x_RFConfiguration__MaxRtyCOM :: "'s pn53x_io \<Rightarrow> byte \<Rightarrow> ('s, int) op" where
  "pn53x_RFConfiguration__MaxRtyCOM io MaxRtyCOM = command io [RFConfiguration, RFCI_RETRY_DATA, MaxRtyCOM] (- 1)"

definition pn53x_RFConfiguration__MaxRetries :: "'s pn53x_io \<Rightarrow> byte \<Rightarrow> byte \<Rightarrow> byte \<Rightarrow> ('s, int) op" where
  "pn53x_RFConfiguration__MaxRetries io MxRtyATR MxRtyPSL MxRtyPassiveActivation =
     command io [RFConfiguration, RFCI_RETRY_SELECT, MxRtyATR, MxRtyPSL, MxRtyPassiveActivation] (- 1)"

definition pn53x_SetParameters :: "'s pn53x_io \<Rightarrow> byte \<Rightarrow> ('s, int) op" where
  "pn53x_SetParameters io ui8Value dv =
     on_ok res_only (command io [SetParameters, ui8Value] (- 1) dv) (\<lambda>_ dv.
       Ret (NFC_SUCCESS, set_chip (\<lambda>c. c\<lparr>ui8Parameters := ui8Value\<rparr>) dv))"

definition pn53x_set_parameters :: "'s pn53x_io \<Rightarrow> byte \<Rightarrow> bool \<Rightarrow> ('s, int) op" where
  "pn53x_set_parameters io ui8Parameter bEnable dv =
     (let old = ui8Parameters (chip_data dv);
          ui8Value = (if bEnable then old OR ui8Parameter else old AND NOT ui8Parameter) in
      if ui8Value \<noteq> old then pn53x_SetParameters io ui8Value dv else Ret (NFC_SUCCESS, dv))"

definition pn53x_set_tx_bits :: "'s pn53x_io \<Rightarrow> byte \<Rightarrow> ('s, int) op" where
  "pn53x_set_tx_bits io ui8Bits dv =
     (if ui8TxBits (chip_data dv) \<noteq> ui8Bits then
        on_ok res_only (pn53x_write_register io PN53X_REG_CIU_BitFraming SYMBOL_TX_LAST_BITS ui8Bits dv) (\<lambda>_ dv.
          Ret (NFC_SUCCESS, set_chip (\<lambda>c. c\<lparr>ui8TxBits := ui8Bits\<rparr>) dv))
      else Ret (NFC_SUCCESS, dv))"

definition pn532_SAMConfiguration :: "'s pn53x_io \<Rightarrow> pn532_sam_mode \<Rightarrow> int \<Rightarrow> ('s, int) op" where
  "pn532_SAMConfiguration io mode timeout dv =
     (let abtCmd = [SAMConfiguration, sam_mode_value mode, 0x00, 0x00] in
      if chip_type dv \<noteq> PN532 then fail_with NFC_EDEVNOTSUPP dv
      else (let szCmd = (case mode of PSM_NORMAL \<Rightarrow> 2 | PSM_WIRED_CARD \<Rightarrow> 2 | PSM_VIRTUAL_CARD \<Rightarrow> 3 | PSM_DUAL_CARD \<Rightarrow> 3)
            in command io (take szCmd abtCmd) timeout (set_chip (\<lambda>c. c\<lparr>sam_mode := mode\<rparr>) dv)))"

definition pn53x_PowerDown :: "'s pn53x_io \<Rightarrow> ('s, int) op" where
  "pn53x_PowerDown io dv =
     on_ok res_only (command io [PowerDown, 0xf0] (- 1) dv) (\<lambda>res dv.
       Ret (res, set_chip (\<lambda>c. c\<lparr>power_mode := LOWVBAT\<rparr>) dv))"

text \<open>\<open>InDeselect\<close> and \<open>InRelease\<close> have one text; the RC-S360 is asked first whether there is a target.\<close>

definition drop_target :: "'s pn53x_io \<Rightarrow> byte \<Rightarrow> byte \<Rightarrow> ('s, int) op" where
  "drop_target io cmd ui8Target dv =
     (if chip_type dv = RCS360 then
        on_rx res_only (pn53x_transceive io [GetGeneralStatus] PN53x_EXTENDED_FRAME__DATA_MAX_LEN (- 1) dv) (\<lambda>szStatus abtStatus dv.
          if szStatus < 3 then Ret (NFC_SUCCESS, dv)
          else and_then (byte_at abtStatus 2) (\<lambda>b.
            if b = 0 then Ret (NFC_SUCCESS, dv) else command io [cmd, 0x01, 0x01] (- 1) dv))
      else command io [cmd, ui8Target] (- 1) dv)"

definition pn53x_InDeselect :: "'s pn53x_io \<Rightarrow> byte \<Rightarrow> ('s, int) op" where
  "pn53x_InDeselect io = drop_target io InDeselect"

definition pn53x_InRelease :: "'s pn53x_io \<Rightarrow> byte \<Rightarrow> ('s, int) op" where
  "pn53x_InRelease io = drop_target io InRelease"

end
