(* ===== verification/Pn53x_Settings.thy ===== *)
theory Pn53x_Settings
  imports Pn53x_Device
begin

text \<open>
  \<open>chips/pn53x.c\<close>: the version of the chip, the properties of a device, starting up and going idle.
\<close>

section \<open>Version\<close>

definition byte_text :: "byte \<Rightarrow> string" where
  "byte_text b =
     (let n = unat b; digit = (\<lambda>d. char_of (48 + d)) in
      if n < 10 then [digit n]
      else if n < 100 then [digit (n div 10), digit (n mod 10)]
      else [digit (n div 100), digit (n div 10 mod 10), digit (n mod 10)])"

definition version_text :: "string \<Rightarrow> byte \<Rightarrow> byte \<Rightarrow> string" where
  "version_text chip major minor = take 21 (chip @ '' v'' @ byte_text major @ ''.'' @ byte_text minor)"

text \<open>The type of the chip from the length and the first bytes of the answer: \<^const>\<open>None\<close> for one that is not known.\<close>

definition type_of_version :: "int \<Rightarrow> bytes \<Rightarrow> pn53x_type option outcome" where
  "type_of_version szFwLen abtFw =
     (if szFwLen = 2 then Ret (Some PN531)
      else if szFwLen = 4 then
        and_then (byte_at abtFw 0) (\<lambda>ic.
          if ic = 0x32 then Ret (Some PN532)
          else if ic = 0x33 then and_then (byte_at abtFw 1) (\<lambda>rom. Ret (Some (if rom = 0x01 then RCS360 else PN533)))
          else Ret None)
      else Ret None)"

definition pn53x_decode_firmware_version :: "'s pn53x_io \<Rightarrow> ('s, int) op" where
  "pn53x_decode_firmware_version io dv =
     on_rx res_only (pn53x_transceive io [GetFirmwareVersion] 4 (- 1) dv) (\<lambda>szFwLen abtFw dv.
       and_then (type_of_version szFwLen abtFw) (\<lambda>known. case known of
         None \<Rightarrow> Ret (NFC_ENOTIMPL, dv)
       | Some PN531 \<Rightarrow>
           and_then (byte_at abtFw 0) (\<lambda>v. and_then (byte_at abtFw 1) (\<lambda>r.
             Ret (NFC_SUCCESS,
               set_chip (\<lambda>c. c\<lparr>ch_type := PN531, firmware_text := version_text ''PN531'' v r\<rparr>)
                 (dv\<lparr>btSupportByte := SUPPORT_ISO14443A OR SUPPORT_ISO18092\<rparr>))))
       | Some type \<Rightarrow>
           and_then (byte_at abtFw 1) (\<lambda>v. and_then (byte_at abtFw 2) (\<lambda>r. and_then (byte_at abtFw 3) (\<lambda>s.
             Ret (NFC_SUCCESS,
               set_chip (\<lambda>c. c\<lparr>ch_type := type,
                   firmware_text := version_text (if type = PN532 then ''PN532'' else ''PN533'') v r\<rparr>)
                 (dv\<lparr>btSupportByte := s\<rparr>)))))))"

section \<open>Properties\<close>

function timeout_loop :: "nat \<Rightarrow> int \<Rightarrow> byte \<Rightarrow> byte" where
  "timeout_loop i ms res = (if i > 1 then (if ms > int i then res else timeout_loop (i div 2) ms (res - 1)) else res)"
  by pat_completeness auto

termination by (relation "measure (\<lambda>(i, ms, res). i)") auto

declare timeout_loop.simps [simp del]

definition pn53x_int_to_timeout :: "int \<Rightarrow> byte" where
  "pn53x_int_to_timeout ms = (if ms \<noteq> 0 then timeout_loop 3280 ms 0x10 else 0)"

definition set_timings :: "'s pn53x_io \<Rightarrow> ('s, int) op" where
  "set_timings io dv =
     pn53x_RFConfiguration__Various_timings io (pn53x_int_to_timeout (timeout_atr (chip_data dv)))
       (pn53x_int_to_timeout (timeout_communication (chip_data dv))) dv"

definition pn53x_set_property_int :: "'s pn53x_io \<Rightarrow> nfc_property \<Rightarrow> int \<Rightarrow> ('s, int) op" where
  "pn53x_set_property_int io property value dv =
     (case property of
        NP_TIMEOUT_COMMAND \<Rightarrow> Ret (NFC_SUCCESS, set_chip (\<lambda>c. c\<lparr>timeout_command := value\<rparr>) dv)
      | NP_TIMEOUT_ATR \<Rightarrow> set_timings io (set_chip (\<lambda>c. c\<lparr>timeout_atr := value\<rparr>) dv)
      | NP_TIMEOUT_COM \<Rightarrow> set_timings io (set_chip (\<lambda>c. c\<lparr>timeout_communication := value\<rparr>) dv)
      | _ \<Rightarrow> Ret (NFC_EINVARG, dv))"

definition pn53x_set_property_bool :: "'s pn53x_io \<Rightarrow> nfc_property \<Rightarrow> bool \<Rightarrow> ('s, int) op" where
  "pn53x_set_property_bool io property bEnable dv =
     (case property of
        NP_HANDLE_CRC \<Rightarrow>
          (if bEnable = bCrc dv then Ret (NFC_SUCCESS, dv)
           else (let btValue = (if bEnable then 0x80 else 0x00) in
             on_ok res_only (pn53x_write_register io PN53X_REG_CIU_TxMode SYMBOL_TX_CRC_ENABLE btValue dv) (\<lambda>_ dv.
             on_ok res_only (pn53x_write_register io PN53X_REG_CIU_RxMode SYMBOL_RX_CRC_ENABLE btValue dv) (\<lambda>_ dv.
               Ret (NFC_SUCCESS, dv\<lparr>bCrc := bEnable\<rparr>)))))
      | NP_HANDLE_PARITY \<Rightarrow>
          (if bEnable = bPar dv then Ret (NFC_SUCCESS, dv)
           else (let btValue = (if bEnable then 0x00 else SYMBOL_PARITY_DISABLE) in
             on_ok res_only (pn53x_write_register io PN53X_REG_CIU_ManualRCV SYMBOL_PARITY_DISABLE btValue dv) (\<lambda>_ dv.
               Ret (NFC_SUCCESS, dv\<lparr>bPar := bEnable\<rparr>))))
      | NP_EASY_FRAMING \<Rightarrow> Ret (NFC_SUCCESS, dv\<lparr>bEasyFraming := bEnable\<rparr>)
      | NP_ACTIVATE_FIELD \<Rightarrow> pn53x_RFConfiguration__RF_field io bEnable dv
      | NP_ACTIVATE_CRYPTO1 \<Rightarrow>
          pn53x_write_register io PN53X_REG_CIU_Status2 SYMBOL_MF_CRYPTO1_ON (if bEnable then SYMBOL_MF_CRYPTO1_ON else 0x00) dv
      | NP_INFINITE_SELECT \<Rightarrow>
          pn53x_RFConfiguration__MaxRetries io (if bEnable then 0xff else 0x00) (if bEnable then 0xff else 0x01)
            (if bEnable then 0xff else 0x02) dv
      | NP_ACCEPT_INVALID_FRAMES \<Rightarrow>
          pn53x_write_register io PN53X_REG_CIU_RxMode SYMBOL_RX_NO_ERROR (if bEnable then SYMBOL_RX_NO_ERROR else 0x00) dv
      | NP_ACCEPT_MULTIPLE_FRAMES \<Rightarrow>
          pn53x_write_register io PN53X_REG_CIU_RxMode SYMBOL_RX_MULTIPLE (if bEnable then SYMBOL_RX_MULTIPLE else 0x00) dv
      | NP_AUTO_ISO14443_4 \<Rightarrow>
          (if bEnable = bAutoIso14443_4 dv then Ret (NFC_SUCCESS, dv)
           else and_then (pn53x_set_parameters io PARAM_AUTO_RATS bEnable (dv\<lparr>bAutoIso14443_4 := bEnable\<rparr>)) (\<lambda>(res, dv).
             Ret (if res = 0 then NFC_SUCCESS else NFC_EINVARG, dv)))
      | NP_FORCE_ISO14443_A \<Rightarrow>
          (if \<not> bEnable then Ret (NFC_SUCCESS, dv)
           else
             on_ok res_only (pn53x_write_register io PN53X_REG_CIU_TxMode SYMBOL_TX_FRAMING 0x00 dv) (\<lambda>_ dv.
             on_ok res_only (pn53x_write_register io PN53X_REG_CIU_RxMode SYMBOL_RX_FRAMING 0x00 dv) (\<lambda>_ dv.
             pn53x_write_register io PN53X_REG_CIU_TxAuto SYMBOL_FORCE_100_ASK 0x40 dv)))
      | NP_FORCE_ISO14443_B \<Rightarrow>
          (if \<not> bEnable then Ret (NFC_SUCCESS, dv)
           else
             on_ok res_only (pn53x_write_register io PN53X_REG_CIU_TxMode SYMBOL_TX_FRAMING 0x03 dv) (\<lambda>_ dv.
             pn53x_write_register io PN53X_REG_CIU_RxMode SYMBOL_RX_FRAMING 0x03 dv))
      | NP_FORCE_SPEED_106 \<Rightarrow>
          (if \<not> bEnable then Ret (NFC_SUCCESS, dv)
           else
             on_ok res_only (pn53x_write_register io PN53X_REG_CIU_TxMode SYMBOL_TX_SPEED 0x00 dv) (\<lambda>_ dv.
             pn53x_write_register io PN53X_REG_CIU_RxMode SYMBOL_RX_SPEED 0x00 dv))
      | _ \<Rightarrow> Ret (NFC_EINVARG, dv))"

text \<open>\<open>nfc_device_set_property_bool\<close>: every PN53x driver has the function above in its table, but for the one on USB, whose
  function does more for \<^const>\<open>NP_ACTIVATE_FIELD\<close> and only for that.\<close>

definition nfc_device_set_property_bool :: "'s pn53x_io \<Rightarrow> nfc_property \<Rightarrow> bool \<Rightarrow> ('s, int) op" where
  "nfc_device_set_property_bool io property bEnable dv = pn53x_set_property_bool io property bEnable (dv\<lparr>last_error := 0\<rparr>)"

definition nfc_device_set_property_int :: "'s pn53x_io \<Rightarrow> nfc_property \<Rightarrow> int \<Rightarrow> ('s, int) op" where
  "nfc_device_set_property_int io property value dv = pn53x_set_property_int io property value (dv\<lparr>last_error := 0\<rparr>)"

section \<open>Starting up and going idle\<close>

definition pn53x_reset_settings :: "'s pn53x_io \<Rightarrow> ('s, int) op" where
  "pn53x_reset_settings io dv =
     on_ok res_only (pn53x_write_register io PN53X_REG_CIU_BitFraming SYMBOL_TX_LAST_BITS 0x00
                       (set_chip (\<lambda>c. c\<lparr>ui8TxBits := 0\<rparr>) dv)) (\<lambda>_ dv.
     on_ok res_only (pn53x_set_property_bool io NP_HANDLE_CRC True dv) (\<lambda>_ dv.
     on_ok res_only (pn53x_set_property_bool io NP_HANDLE_PARITY True dv) (\<lambda>_ dv.
     on_ok res_only (pn53x_set_property_bool io NP_EASY_FRAMING True dv) (\<lambda>_ dv.
     on_ok res_only (pn53x_set_property_bool io NP_ACTIVATE_CRYPTO1 False dv) (\<lambda>_ dv.
       Ret (NFC_SUCCESS, dv))))))"

definition initiator_modulations :: "pn53x_type \<Rightarrow> byte \<Rightarrow> nfc_modulation_type list" where
  "initiator_modulations type support =
     (if support AND SUPPORT_ISO14443A \<noteq> 0 then [NMT_ISO14443A, NMT_FELICA] else []) @
     (if support AND SUPPORT_ISO14443B \<noteq> 0 then [NMT_ISO14443B] else []) @
     (if type \<noteq> PN531 then [NMT_JEWEL] else []) @ [NMT_DEP]"

definition learn_modulations :: "'s nfc_device \<Rightarrow> 's nfc_device" where
  "learn_modulations dv =
     set_chip (\<lambda>c. c\<lparr>
         supported_modulation_as_initiator :=
           (case supported_modulation_as_initiator c of None \<Rightarrow> Some (initiator_modulations (ch_type c) (btSupportByte dv)) | l \<Rightarrow> l),
         supported_modulation_as_target :=
           (case supported_modulation_as_target c of None \<Rightarrow> Some pn53x_supported_modulation_as_target | l \<Rightarrow> l)\<rparr>) dv"

definition pn53x_init :: "'s pn53x_io \<Rightarrow> ('s, int) op" where
  "pn53x_init io dv =
     on_ok res_only (pn53x_decode_firmware_version io dv) (\<lambda>_ dv.
     on_ok res_only (pn53x_SetParameters io (PARAM_AUTO_ATR_RES OR PARAM_AUTO_RATS) (learn_modulations dv)) (\<lambda>_ dv.
     on_ok res_only (pn53x_reset_settings io dv) (\<lambda>_ dv.
       Ret (NFC_SUCCESS, dv))))"

text \<open>\<open>drop_field\<close> is the call that switches the field off, through the table of the driver.\<close>

definition pn53x_idle_over :: "('s, int) op \<Rightarrow> 's pn53x_io \<Rightarrow> ('s, int) op" where
  "pn53x_idle_over drop_field io dv =
     on_ok res_only
       (case operating_mode (chip_data dv) of
          TARGET \<Rightarrow>
            on_ok res_only (pn53x_InRelease io 0 dv) (\<lambda>_ dv.
              if chip_type dv = PN532 then pn53x_PowerDown io dv else Ret (NFC_SUCCESS, dv))
        | INITIATOR \<Rightarrow>
            on_ok res_only (pn53x_InDeselect io 0 dv) (\<lambda>_ dv.
            on_ok res_only (drop_field dv) (\<lambda>_ dv.
              if chip_type dv = PN532 then pn53x_PowerDown io dv else pn53x_InRelease io 0 dv))
        | IDLE \<Rightarrow> Ret (NFC_SUCCESS, dv))
       (\<lambda>_ dv. Ret (NFC_SUCCESS, set_chip (\<lambda>c. c\<lparr>operating_mode := IDLE\<rparr>) (pn53x_current_target_free dv)))"

definition pn53x_idle :: "'s pn53x_io \<Rightarrow> ('s, int) op" where
  "pn53x_idle io = pn53x_idle_over (nfc_device_set_property_bool io NP_ACTIVATE_FIELD False) io"

definition pn53x_check_communication :: "'s pn53x_io \<Rightarrow> ('s, int) op" where
  "pn53x_check_communication io dv =
     (let text = bytes_of_string ''libnfc''; abtExpectedRx = 0x00 # text in
      on_rx res_only (pn53x_transceive io (Diagnose # 0x00 # text) (length abtExpectedRx) 500 dv) (\<lambda>szRx abtRx dv.
        if szRx = int (length abtExpectedRx) then
          (if length abtRx < length abtExpectedRx then Undefined
           else if take (length abtExpectedRx) abtRx = abtExpectedRx then Ret (NFC_SUCCESS, dv)
           else Ret (NFC_EIO, dv))
        else Ret (NFC_EIO, dv)))"

definition pn53x_initiator_init :: "'s pn53x_io \<Rightarrow> ('s, int) op" where
  "pn53x_initiator_init io dv =
     and_then (pn53x_reset_settings io dv) (\<lambda>(_, dv).
     on_ok res_only
       (if sam_mode (chip_data dv) \<noteq> PSM_NORMAL then pn532_SAMConfiguration io PSM_NORMAL (- 1) dv else Ret (NFC_SUCCESS, dv)) (\<lambda>_ dv.
     on_ok res_only (pn53x_write_register io PN53X_REG_CIU_Control SYMBOL_INITIATOR 0x10 dv) (\<lambda>_ dv.
       Ret (NFC_SUCCESS, set_chip (\<lambda>c. c\<lparr>operating_mode := INITIATOR\<rparr>) dv))))"

definition pn532_initiator_init_secure_element :: "'s pn53x_io \<Rightarrow> ('s, int) op" where
  "pn532_initiator_init_secure_element io = pn532_SAMConfiguration io PSM_WIRED_CARD (- 1)"

text \<open>\<open>nfc_device_new\<close> and \<open>pn53x_data_new\<close>: what they leave unset is what the fresh memory holds.\<close>

definition nfc_device_new :: "'s nfc_device \<Rightarrow> 's nfc_device" where
  "nfc_device_new fresh =
     fresh\<lparr>bCrc := False, bPar := False, bEasyFraming := False, bAutoIso14443_4 := False, last_error := 0\<rparr>"

definition pn53x_data_new :: "pn53x_data \<Rightarrow> 's nfc_device \<Rightarrow> 's nfc_device" where
  "pn53x_data_new fresh =
     set_chip (\<lambda>_. fresh\<lparr>ch_type := PN53X, power_mode := NORMAL, operating_mode := INITIATOR, last_status_byte := 0x00,
         current_target := None, sam_mode := PSM_NORMAL, wb_trigged := False,
         wb_mask := replicate PN53X_CACHE_REGISTER_SIZE 0x00, timeout_command := 350, timeout_atr := 103,
         timeout_communication := 52, supported_modulation_as_initiator := None, supported_modulation_as_target := None\<rparr>)"

section \<open>A device to start from\<close>

text \<open>A device as it is after its memory has been made, with zeros where nothing is set.\<close>

definition blank_chip :: pn53x_data where
  "blank_chip =
     \<lparr>ch_type = PN53X, firmware_text = [], power_mode = NORMAL, operating_mode = IDLE, current_target = None,
      sam_mode = PSM_NORMAL, last_status_byte = 0, ui8TxBits = 0, ui8Parameters = 0, last_command = 0, timer_correction = 0,
      timer_prescaler = 0, wb_data = replicate 62 0, wb_mask = replicate 62 0, wb_trigged = False, timeout_command = 0,
      timeout_atr = 0, timeout_communication = 0, supported_modulation_as_initiator = None,
      supported_modulation_as_target = None\<rparr>"

definition blank_device :: "'s \<Rightarrow> 's nfc_device" where
  "blank_device s =
     pn53x_data_new blank_chip (nfc_device_new \<lparr>driver_data = s, chip_data = blank_chip, bCrc = False, bPar = False,
       bEasyFraming = False, bAutoIso14443_4 = False, btSupportByte = 0, last_error = 0\<rparr>)"

end
