(* ===== verification/Pn53x_Frame.thy ===== *)
theory Pn53x_Frame
  imports Pn53x_Types
begin

text \<open>
  The frames of \<open>libnfc/chips/pn53x.c\<close>: data bytes with their parity bits packed into a bit stream and taken out of it
  again, and the packets that carry a command to the chip.  A buffer is the list of the bytes that are in it; reading
  past them is undefined.
\<close>

section \<open>Parity bits in the stream\<close>

text \<open>The two nested loops: \<open>uiDataPos\<close>, \<open>uiBitPos\<close>, \<open>btFrame\<close>, \<open>szBitsLeft\<close> and the bytes before \<open>pbtFrame\<close>.\<close>

function wrap_loop :: "bytes \<Rightarrow> bytes \<Rightarrow> nat \<Rightarrow> nat \<Rightarrow> byte \<Rightarrow> nat \<Rightarrow> bytes \<Rightarrow> bytes outcome" where
  "wrap_loop tx par pos bp btFrame left out =
     (if pos < length tx \<and> pos < length par then
        (let btData = mirror (tx ! pos);
             out1 = out @ [mirror (btFrame OR drop_bit bp btData)];
             btFrame1 = push_bit (8 - bp) btData OR push_bit (7 - bp) (par ! pos AND 1)
         in if left < 9 then Ret (out1 @ [mirror btFrame1])
            else if bp = 7 then wrap_loop tx par (pos + 1) 0 0 (left - 8) (out1 @ [mirror btFrame1])
            else wrap_loop tx par (pos + 1) (bp + 1) btFrame1 (left - 8) out1)
      else Undefined)"
  by pat_completeness auto

termination by (relation "measure (\<lambda>(tx, par, pos, bp, btFrame, left, out). left)") auto

declare wrap_loop.simps [simp del]

definition pn53x_wrap_frame :: "bytes \<Rightarrow> nat \<Rightarrow> bytes \<Rightarrow> (int \<times> bytes) outcome" where
  "pn53x_wrap_frame pbtTx szTxBits pbtTxPar =
     (if szTxBits = 0 then Ret (NFC_ECHIP, [])
      else if szTxBits < 9 then (if pbtTx = [] then Undefined else Ret (int szTxBits, [hd pbtTx]))
      else and_then (wrap_loop pbtTx pbtTxPar 0 0 0 szTxBits []) (\<lambda>frame.
             Ret (int (szTxBits + szTxBits div 8), frame)))"

text \<open>Here \<open>base\<close> is how far \<open>pbtFramePos\<close> has moved, and the data and parity bytes stored so far are collected.\<close>

function unwrap_loop :: "bytes \<Rightarrow> nat \<Rightarrow> nat \<Rightarrow> nat \<Rightarrow> nat \<Rightarrow> bytes \<Rightarrow> bytes \<Rightarrow> (bytes \<times> bytes) outcome" where
  "unwrap_loop frame base pos bp left rx rxpar =
     (if base + pos + 1 < length frame then
        (let f0 = mirror (frame ! (base + pos)); f1 = mirror (frame ! (base + pos + 1));
             rx1 = rx @ [mirror (push_bit bp f0 OR drop_bit (8 - bp) f1)];
             rxpar1 = rxpar @ [drop_bit (7 - bp) f1 AND 1]
         in if left < 9 then Ret (rx1, rxpar1)
            else if bp = 7 then unwrap_loop frame (base + 1) (pos + 1) 0 (left - 9) rx1 rxpar1
            else unwrap_loop frame base (pos + 1) (bp + 1) (left - 9) rx1 rxpar1)
      else Undefined)"
  by pat_completeness auto

termination by (relation "measure (\<lambda>(frame, base, pos, bp, left, rx, rxpar). left)") auto

declare unwrap_loop.simps [simp del]

definition pn53x_unwrap_frame :: "bytes \<Rightarrow> nat \<Rightarrow> (int \<times> bytes \<times> bytes) outcome" where
  "pn53x_unwrap_frame pbtFrame szFrameBits =
     (if szFrameBits = 0 then Ret (NFC_ECHIP, [], [])
      else if szFrameBits < 9 then (if pbtFrame = [] then Undefined else Ret (int szFrameBits, [hd pbtFrame], []))
      else and_then (unwrap_loop pbtFrame 0 0 0 szFrameBits [] []) (\<lambda>(rx, rxpar).
             Ret (int (szFrameBits - szFrameBits div 9), rx, rxpar)))"

section \<open>Packets\<close>

definition pn53x_ack_frame :: bytes where
  "pn53x_ack_frame = [0x00, 0x00, 0xff, 0x00, 0xff, 0x00]"

definition pn53x_nack_frame :: bytes where
  "pn53x_nack_frame = [0x00, 0x00, 0xff, 0xff, 0x00, 0x00]"

definition pn53x_error_frame :: bytes where
  "pn53x_error_frame = [0x00, 0x00, 0xff, 0x01, 0xff, 0x7f, 0x81, 0x00]"

definition pn53x_check_ack_frame :: "bytes \<Rightarrow> ('s, int) op" where
  "pn53x_check_ack_frame pbtRxFrame dv =
     (if length pbtRxFrame \<ge> length pn53x_ack_frame \<and> take (length pn53x_ack_frame) pbtRxFrame = pn53x_ack_frame
      then Ret (NFC_SUCCESS, dv) else fail_with NFC_EIO dv)"

definition pn53x_check_error_frame :: "bytes \<Rightarrow> ('s, int) op" where
  "pn53x_check_error_frame pbtRxFrame dv =
     (if length pbtRxFrame \<ge> length pn53x_error_frame \<and> take (length pn53x_error_frame) pbtRxFrame = pn53x_error_frame
      then fail_with NFC_EIO dv else Ret (NFC_SUCCESS, dv))"

text \<open>The data checksum: what brings the sum of the TFI, the data and itself to zero.\<close>

definition data_checksum :: "byte \<Rightarrow> bytes \<Rightarrow> byte" where
  "data_checksum tfi pbtData = foldl (\<lambda>btDCS b. btDCS - b) (- tfi) pbtData"

text \<open>The bytes from the fourth on; the first three are the caller's.\<close>

definition pn53x_build_frame :: "bytes \<Rightarrow> int \<times> bytes" where
  "pn53x_build_frame pbtData =
     (let szData = length pbtData; tail = [data_checksum 0xD4 pbtData, 0x00] in
      if szData \<le> PN53x_NORMAL_FRAME__DATA_MAX_LEN then
        (NFC_SUCCESS, [word_of_nat (szData + 1), word_of_nat (256 - (szData + 1)), 0xD4] @ pbtData @ tail)
      else if szData \<le> PN53x_EXTENDED_FRAME__DATA_MAX_LEN then
        (let m = word_of_nat ((szData + 1) div 256) :: byte; l = word_of_nat ((szData + 1) mod 256) :: byte in
         (NFC_SUCCESS, [0xff, 0xff, m, l, word_of_nat (256 - (unat m + unat l) mod 256), 0xD4] @ pbtData @ tail))
      else (NFC_ECHIP, []))"

section \<open>What is wrapped is unwrapped\<close>

text \<open>One byte of data between the end of the byte before it and the start of the one after it.\<close>

lemma frame_bits:
  fixes F x L p :: byte
  assumes "bp \<le> 7" "\<And>i. bit F i \<Longrightarrow> 8 - bp \<le> i" "\<And>i. bit L i \<Longrightarrow> i < 7 - bp"
  shows "push_bit bp (F OR drop_bit bp x) OR
      drop_bit (8 - bp) (push_bit (8 - bp) x OR push_bit (7 - bp) (p AND 1) OR L) = x"
    and "drop_bit (7 - bp) (push_bit (8 - bp) x OR push_bit (7 - bp) (p AND 1) OR L) AND 1 = p AND 1"
proof -
  have F: "\<not> bit F i" if "i < 8 - bp" for i using assms(2) [of i] that by auto
  have L: "\<not> bit L i" if "7 - bp \<le> i" for i using assms(3) [of i] that by auto
  show "push_bit bp (F OR drop_bit bp x) OR
      drop_bit (8 - bp) (push_bit (8 - bp) x OR push_bit (7 - bp) (p AND 1) OR L) = x"
  proof (rule bit_word_eqI)
    fix n assume "n < LENGTH(8)"
    then have "n < 8" by simp
    then show "bit (push_bit bp (F OR drop_bit bp x) OR
        drop_bit (8 - bp) (push_bit (8 - bp) x OR push_bit (7 - bp) (p AND 1) OR L)) n = bit x n"
      using assms(1) F [of "n - bp"] L [of "8 - bp + n"]
      by (auto simp: bit_simps)
  qed
  show "drop_bit (7 - bp) (push_bit (8 - bp) x OR push_bit (7 - bp) (p AND 1) OR L) AND 1 = p AND 1"
    using assms(1) L [of "7 - bp"] by (intro bit_word_eqI) (auto simp: bit_simps)
qed

lemma wrap_first:
  "wrap_loop tx par pos bp F left out = Ret frame \<Longrightarrow>
     \<exists>s. frame = out @ mirror (F OR drop_bit bp (mirror (tx ! pos))) # s \<and> s \<noteq> []"
proof (induction tx par pos bp F left out rule: wrap_loop.induct)
  case (1 tx par pos bp F left out)
  let ?d = "mirror (tx ! pos)"
  let ?F = "push_bit (8 - bp) ?d OR push_bit (7 - bp) (par ! pos AND 1)"
  have ok: "pos < length tx \<and> pos < length par" using 1(3) by (subst (asm) wrap_loop.simps) (auto split: if_splits)
  consider "left < 9" | "\<not> left < 9" "bp = 7" | "\<not> left < 9" "bp \<noteq> 7" by blast
  then show ?case
  proof cases
    case a: 1
    then show ?thesis using 1(3) ok by (subst (asm) wrap_loop.simps) (auto simp: Let_def)
  next
    case b: 2
    then have "wrap_loop tx par (pos + 1) 0 0 (left - 8) (out @ [mirror (F OR drop_bit bp ?d), mirror ?F]) = Ret frame"
      using 1(3) ok by (subst (asm) wrap_loop.simps) (simp add: Let_def)
    from 1(1) [OF ok refl refl refl b] this show ?thesis using b by auto
  next
    case c: 3
    then have "wrap_loop tx par (pos + 1) (bp + 1) ?F (left - 8) (out @ [mirror (F OR drop_bit bp ?d)]) = Ret frame"
      using 1(3) ok by (subst (asm) wrap_loop.simps) (simp add: Let_def)
    from 1(2) [OF ok refl refl refl c] this show ?thesis using c by auto
  qed
qed

text \<open>One turn of the receiving loop, at the place its position says.\<close>

lemma unwrap_turn:
  assumes "base + pos + 1 < length frame" "frame ! (base + pos) = mirror a" "frame ! (base + pos + 1) = mirror b"
    and "push_bit bp a OR drop_bit (8 - bp) b = mirror x" "drop_bit (7 - bp) b AND 1 = p"
  shows "unwrap_loop frame base pos bp left rx rp =
    (if left < 9 then Ret (rx @ [x], rp @ [p])
     else if bp = 7 then unwrap_loop frame (base + 1) (pos + 1) 0 (left - 9) (rx @ [x]) (rp @ [p])
     else unwrap_loop frame base (pos + 1) (bp + 1) (left - 9) (rx @ [x]) (rp @ [p]))"
proof -
  have "mirror (push_bit bp a OR drop_bit (8 - bp) b) = x" using assms(4) by simp
  then show ?thesis
    by (subst unwrap_loop.simps) (simp only: Let_def assms mirror_mirror if_True)
qed

lemma count_down:
  fixes n :: nat
  assumes "\<not> n < 9"
  shows "n - 8 < n" "0 < n - 8" "n + n div 8 - 9 = n - 8 + (n - 8) div 8" "\<not> n + n div 8 < 9"
    "(n + 7) div 8 = Suc ((n - 8 + 7) div 8)" "(n - 8) mod 8 = n mod 8"
proof -
  define l where "l = n - 8"
  have "n = l + 8" "0 < l" using assms by (simp_all add: l_def)
  then show "n - 8 < n" "0 < n - 8" "n + n div 8 - 9 = n - 8 + (n - 8) div 8" "\<not> n + n div 8 < 9"
    "(n + 7) div 8 = Suc ((n - 8 + 7) div 8)" "(n - 8) mod 8 = n mod 8" by simp_all
qed

lemma next_place:
  fixes pos :: nat
  shows "pos mod 8 = 7 \<Longrightarrow> (pos + 1) div 8 = pos div 8 + 1 \<and> (pos + 1) mod 8 = 0"
    and "pos mod 8 \<noteq> 7 \<Longrightarrow> (pos + 1) div 8 = pos div 8 \<and> (pos + 1) mod 8 = pos mod 8 + 1"
  by (simp_all add: div_Suc mod_Suc)

lemma unwrap_step:
  assumes "pos div 8 + pos + 1 < length frame" "frame ! (pos div 8 + pos) = mirror a" "frame ! (pos div 8 + pos + 1) = mirror b"
    and "push_bit (pos mod 8) a OR drop_bit (8 - pos mod 8) b = mirror x" "drop_bit (7 - pos mod 8) b AND 1 = p"
  shows "unwrap_loop frame (pos div 8) pos (pos mod 8) left rx rp =
    (if left < 9 then Ret (rx @ [x], rp @ [p])
     else unwrap_loop frame ((pos + 1) div 8) (pos + 1) ((pos + 1) mod 8) (left - 9) (rx @ [x]) (rp @ [p]))"
proof (cases "pos mod 8 = 7")
  case True
  then have e: "(pos + 1) div 8 = pos div 8 + 1" "(pos + 1) mod 8 = 0" using next_place by blast+
  show ?thesis unfolding unwrap_turn [OF assms] e using True by (simp only: if_P)
next
  case False
  then have e: "(pos + 1) div 8 = pos div 8" "(pos + 1) mod 8 = pos mod 8 + 1" using next_place by blast+
  show ?thesis unfolding unwrap_turn [OF assms] e using False by (simp only: if_not_P if_False)
qed

text \<open>The byte that carries the rest of the data and the parity bit: it may already hold the start of the next byte.\<close>

lemma wrap_second:
  assumes "wrap_loop tx par pos bp F left out = Ret frame" "bp \<le> 7"
  defines "x \<equiv> mirror (tx ! pos)" and "F1 \<equiv> push_bit (8 - bp) (mirror (tx ! pos)) OR push_bit (7 - bp) (par ! pos AND 1)"
  shows "\<exists>L s. frame = out @ mirror (F OR drop_bit bp x) # mirror (F1 OR L) # s \<and> (\<forall>i. bit L i \<longrightarrow> i < 7 - bp) \<and>
    (if left < 9 then s = []
     else if bp = 7 then wrap_loop tx par (pos + 1) 0 0 (left - 8) (out @ [mirror (F OR drop_bit bp x), mirror F1]) = Ret frame
     else wrap_loop tx par (pos + 1) (bp + 1) F1 (left - 8) (out @ [mirror (F OR drop_bit bp x)]) = Ret frame)"
proof -
  have ok: "pos < length tx \<and> pos < length par" using assms(1) by (subst (asm) wrap_loop.simps) (auto split: if_splits)
  consider "left < 9" | "\<not> left < 9" "bp = 7" | "\<not> left < 9" "bp \<noteq> 7" by blast
  then show ?thesis
  proof cases
    case 1
    then show ?thesis using assms(1) ok unfolding x_def F1_def
      by (subst (asm) wrap_loop.simps) (auto simp: Let_def intro!: exI [of _ 0])
  next
    case 2
    then have w: "wrap_loop tx par (pos + 1) 0 0 (left - 8) (out @ [mirror (F OR drop_bit bp x), mirror F1]) = Ret frame"
      using assms(1) ok unfolding x_def F1_def by (subst (asm) wrap_loop.simps) (simp add: Let_def)
    from wrap_first [OF w] 2 w show ?thesis by (auto intro!: exI [of _ 0])
  next
    case 3
    then have w: "wrap_loop tx par (pos + 1) (bp + 1) F1 (left - 8) (out @ [mirror (F OR drop_bit bp x)]) = Ret frame"
      using assms(1) ok unfolding x_def F1_def by (subst (asm) wrap_loop.simps) (simp add: Let_def)
    have "\<forall>i. bit (drop_bit (bp + 1) (mirror (tx ! (pos + 1)))) i \<longrightarrow> i < 7 - bp"
      by (auto simp: bit_simps dest: bit_imp_le_length)
    with wrap_first [OF w] 3 w show ?thesis by (auto intro!: exI [of _ "drop_bit (bp + 1) (mirror (tx ! (pos + 1)))"])
  qed
qed

lemma rest_bits: "bit (push_bit (8 - bp) x OR push_bit (7 - bp) p) i \<Longrightarrow> 7 - bp \<le> i"
  by (auto simp: bit_simps)

text \<open>How many bytes of data are left, and what the receiving side counts: with a whole number of bytes it runs once more.\<close>

lemma wrap_unwrap_loop:
  assumes "wrap_loop tx par pos (pos mod 8) F left out = Ret frame" "length out = pos div 8 + pos"
    and "\<forall>i. bit F i \<longrightarrow> 8 - pos mod 8 \<le> i" "length pad = 2" "0 < left"
  shows "\<exists>rx' rp'. unwrap_loop (frame @ pad) (pos div 8) pos (pos mod 8) (left + left div 8) rx rp = Ret (rx @ rx', rp @ rp') \<and>
    length rx' = (left + 7) div 8 + of_bool (left mod 8 = 0) \<and> length rp' = length rx' \<and>
    (\<forall>i < (left + 7) div 8. rx' ! i = tx ! (pos + i) \<and> rp' ! i = par ! (pos + i) AND 1)"
  using assms
proof (induction left arbitrary: pos F out rx rp rule: less_induct)
  case (less left)
  let ?bp = "pos mod 8" and ?x = "mirror (tx ! pos)" and ?p = "par ! pos AND 1"
  let ?F = "push_bit (8 - ?bp) ?x OR push_bit (7 - ?bp) ?p"
  have bp: "?bp \<le> 7" using mod_less_divisor [of 8 pos] by linarith
  from wrap_second [OF less.prems(1) bp] obtain L s where
    frame: "frame = out @ mirror (F OR drop_bit ?bp ?x) # mirror (?F OR L) # s" and L: "\<forall>i. bit L i \<longrightarrow> i < 7 - ?bp"
    and rest: "if left < 9 then s = []
     else if ?bp = 7 then wrap_loop tx par (pos + 1) 0 0 (left - 8) (out @ [mirror (F OR drop_bit ?bp ?x), mirror ?F]) = Ret frame
     else wrap_loop tx par (pos + 1) (?bp + 1) ?F (left - 8) (out @ [mirror (F OR drop_bit ?bp ?x)]) = Ret frame" by blast
  have at: "(frame @ pad) ! (pos div 8 + pos) = mirror (F OR drop_bit ?bp ?x)"
    "(frame @ pad) ! (pos div 8 + pos + 1) = mirror (?F OR L)" "pos div 8 + pos + 1 < length (frame @ pad)"
    using less.prems(2) by (simp_all add: frame nth_append)
  note bits = frame_bits [of ?bp F L ?x "par ! pos", OF bp less.prems(3) [rule_format] L [rule_format]]
  have step: "unwrap_loop (frame @ pad) (pos div 8) pos ?bp (left + left div 8) rx rp =
      (if left + left div 8 < 9 then Ret (rx @ [tx ! pos], rp @ [?p])
       else unwrap_loop (frame @ pad) ((pos + 1) div 8) (pos + 1) ((pos + 1) mod 8) (left + left div 8 - 9) (rx @ [tx ! pos]) (rp @ [?p]))"
    by (rule unwrap_step [OF at(3,1,2)]) (use bits in \<open>simp_all add: or.assoc\<close>)
  show ?case
  proof (cases "left < 9")
    case True
    then have s: "s = []" using rest by simp
    show ?thesis
    proof (cases "left = 8")
      case False
      with True less.prems(5) have "left < 8" "0 < left" by simp_all
      then have "(left + 7) div 8 = 1" "left mod 8 \<noteq> 0" "left + left div 8 < 9" by (auto intro!: div_nat_eqI)
      then show ?thesis unfolding step by (intro exI [of _ "[tx ! pos]"] exI [of _ "[?p]"]) simp
    next
      case 8: True
      have "(pos + 1) div 8 \<le> pos div 8 + 1" using next_place [of pos] by (cases "?bp = 7") simp_all
      then have "(pos + 1) div 8 + (pos + 1) + 1 < length (frame @ pad)" using less.prems(2,4) by (simp add: frame s)
      then have "\<exists>y q. unwrap_loop (frame @ pad) ((pos + 1) div 8) (pos + 1) ((pos + 1) mod 8) 0 (rx @ [tx ! pos]) (rp @ [?p]) =
          Ret (rx @ [tx ! pos, y], rp @ [?p, q])"
        by (subst unwrap_loop.simps) (simp add: Let_def)
      then obtain y q where "unwrap_loop (frame @ pad) ((pos + 1) div 8) (pos + 1) ((pos + 1) mod 8) 0 (rx @ [tx ! pos]) (rp @ [?p]) =
          Ret (rx @ [tx ! pos, y], rp @ [?p, q])" by blast
      then show ?thesis unfolding step using 8 by (intro exI [of _ "[tx ! pos, y]"] exI [of _ "[?p, q]"]) simp
    qed
  next
    case False
    note left = count_down [OF this]
    let ?out = "if ?bp = 7 then out @ [mirror (F OR drop_bit ?bp ?x), mirror ?F] else out @ [mirror (F OR drop_bit ?bp ?x)]"
    let ?G = "if ?bp = 7 then 0 else ?F"
    note place = next_place [of pos]
    have W: "wrap_loop tx par (pos + 1) ((pos + 1) mod 8) ?G (left - 8) ?out = Ret frame" using rest False place by (cases "?bp = 7") simp_all
    have len: "length ?out = (pos + 1) div 8 + (pos + 1)" using less.prems(2) place by (cases "?bp = 7") simp_all
    have G: "\<forall>i. bit ?G i \<longrightarrow> 8 - (pos + 1) mod 8 \<le> i"
    proof (intro allI impI, cases "?bp = 7")
      fix i
      assume i: "bit ?G i" and "?bp \<noteq> 7"
      then have "7 - ?bp \<le> i" using rest_bits [of ?bp ?x ?p i] by (simp only: if_False)
      then show "8 - (pos + 1) mod 8 \<le> i" using place(2) \<open>?bp \<noteq> 7\<close> by simp
    qed simp
    from less.IH [OF left(1) W len G less.prems(4) left(2), of "rx @ [tx ! pos]" "rp @ [?p]"] obtain rx' rp' where
      ih: "unwrap_loop (frame @ pad) ((pos + 1) div 8) (pos + 1) ((pos + 1) mod 8) (left - 8 + (left - 8) div 8)
          (rx @ [tx ! pos]) (rp @ [?p]) = Ret ((rx @ [tx ! pos]) @ rx', (rp @ [?p]) @ rp')"
        "length rx' = (left - 8 + 7) div 8 + of_bool ((left - 8) mod 8 = 0)" "length rp' = length rx'"
        "\<forall>i < (left - 8 + 7) div 8. rx' ! i = tx ! (pos + 1 + i) \<and> rp' ! i = par ! (pos + 1 + i) AND 1"
      by (elim exE conjE)
    have "unwrap_loop (frame @ pad) (pos div 8) pos ?bp (left + left div 8) rx rp = Ret (rx @ tx ! pos # rx', rp @ ?p # rp')"
      unfolding step left(3) if_not_P [OF left(4)] ih(1) by (simp only: append.assoc append_Cons append_Nil)
    moreover have "length (tx ! pos # rx') = (left + 7) div 8 + of_bool (left mod 8 = 0)"
      unfolding left(5) left(6) [symmetric] by (simp only: length_Cons ih(2) add_Suc)
    moreover have "length (?p # rp') = length (tx ! pos # rx')" using ih(3) by (simp only: length_Cons)
    moreover have "(tx ! pos # rx') ! i = tx ! (pos + i) \<and> (?p # rp') ! i = par ! (pos + i) AND 1" if "i < (left + 7) div 8" for i
    proof (cases i)
      case (Suc j)
      then have "j < (left - 8 + 7) div 8" using that left(5) by (simp only: Suc_less_eq)
      then show ?thesis using ih(4) Suc by (simp only: nth_Cons_Suc add_Suc_right add_Suc Suc_eq_plus1 add.assoc [symmetric]) (simp add: ac_simps)
    qed simp
    ultimately show ?thesis by blast
  qed
qed

lemma wrap_loop_returns:
  assumes "0 < left" "8 * pos + left \<le> 8 * length tx" "8 * pos + left \<le> 8 * length par"
  shows "\<exists>frame. wrap_loop tx par pos bp F left out = Ret frame"
  using assms
proof (induction left arbitrary: pos bp F out rule: less_induct)
  case (less left)
  have "pos < length tx \<and> pos < length par" using less.prems by simp
  then show ?case
    using less.prems less.IH [of "left - 8" "pos + 1"] by (subst wrap_loop.simps) (simp add: Let_def)
qed

text \<open>C25. Data wrapped with its parity bits is what unwrapping finds, with the number of bits it started from and the
  lowest bit of every parity byte - but with a whole number of bytes the unwrapping stores one byte more than it
  counts, read from behind the frame.\<close>
theorem wrap_unwrap:
  assumes "9 \<le> szTxBits" "szTxBits \<le> 8 * length tx" "szTxBits \<le> 8 * length par" "length pad = 2"
  defines "n \<equiv> (szTxBits + 7) div 8"
  shows "\<exists>res frame rx rxpar. pn53x_wrap_frame tx szTxBits par = Ret (res, frame) \<and>
    pn53x_unwrap_frame (frame @ pad) (nat res) = Ret (int szTxBits, rx, rxpar) \<and>
    take n rx = take n tx \<and> take n rxpar = map (\<lambda>p. p AND 1) (take n par) \<and>
    length rx = (if szTxBits mod 8 = 0 then n + 1 else n)"
proof -
  from wrap_loop_returns [of szTxBits 0 tx par 0 0 "[]"] assms(1-3) obtain frame where
    w: "wrap_loop tx par 0 0 0 szTxBits [] = Ret frame" by auto
  let ?F = "szTxBits + szTxBits div 8"
  have "wrap_loop tx par 0 (0 mod 8) 0 szTxBits [] = Ret frame" using w by simp
  from wrap_unwrap_loop [OF this _ _ assms(4), of "[]" "[]"] assms(1) obtain rx rp where
    u: "unwrap_loop (frame @ pad) 0 0 0 ?F [] [] = Ret (rx, rp)" "length rx = n + of_bool (szTxBits mod 8 = 0)" "length rp = length rx"
      "\<forall>i < n. rx ! i = tx ! i \<and> rp ! i = par ! i AND 1" by (auto simp: n_def)
  have n: "n \<le> length tx" "n \<le> length par" using assms(2,3) by (auto simp: n_def)
  define q r where "q = szTxBits div 8" and "r = szTxBits mod 8"
  have "szTxBits = 8 * q + r" "r < 8" by (simp_all add: q_def r_def)
  then have "?F div 9 = szTxBits div 8" unfolding q_def [symmetric] by (intro div_nat_eqI) simp_all
  then have "?F - ?F div 9 = szTxBits" by (simp only: diff_add_inverse2)
  moreover have "take n rx = take n tx" "take n rp = map (\<lambda>p. p AND 1) (take n par)"
    using u(2-4) n by (auto intro!: nth_equalityI)
  ultimately show ?thesis
    using w u assms(1) by (auto simp: pn53x_wrap_frame_def pn53x_unwrap_frame_def nat_int_add)
qed

lemma wrap_unwrap_witness:
  "\<exists>res frame rx rxpar. pn53x_wrap_frame [0x93, 0x70] 16 [1, 0] = Ret (res, frame) \<and>
    pn53x_unwrap_frame (frame @ [0, 0]) (nat res) = Ret (16, rx, rxpar) \<and> length rx = 3"
  using wrap_unwrap [of 16 "[0x93, 0x70]" "[1, 0]" "[0, 0]"] by auto

end
