(* ===== verification/Pn53x_Exchange.thy ===== *)
theory Pn53x_Exchange
  imports Pn53x_Settings Pn53x_Frame
begin

text \<open>
  \<open>chips/pn53x.c\<close>: the exchange of bits and bytes with a selected target, with and without the timer of the chip.
\<close>

section \<open>Bits\<close>

text \<open>The bytes of a command whose data are bits: wrapped with their parity bits, or as they are.\<close>

definition bits_command :: "bool \<Rightarrow> byte \<Rightarrow> bytes \<Rightarrow> nat \<Rightarrow> bytes \<Rightarrow> (int \<times> bytes \<times> nat) outcome" where
  "bits_command par cmd pbtTx szTxBits pbtTxPar =
     and_then (if \<not> par then pn53x_wrap_frame pbtTx szTxBits pbtTxPar else Ret (int szTxBits, [])) (\<lambda>(res, frame).
       if res < 0 then Ret (res, [], 0)
       else if length frame > PN53x_EXTENDED_FRAME__DATA_MAX_LEN - 1 then Undefined
       else (let szFrameBits = nat res; ui8Bits = szFrameBits mod 8;
                 szFrameBytes = szFrameBits div 8 + (if ui8Bits = 0 then 0 else 1) in
             if par then
               (if szFrameBytes \<le> PN53x_EXTENDED_FRAME__DATA_MAX_LEN - 1 \<and> szFrameBytes \<le> length pbtTx
                then Ret (res, cmd # take szFrameBytes pbtTx, ui8Bits) else Undefined)
             else Ret (res, cmd # take szFrameBytes frame, ui8Bits)))"

text \<open>The number of bits received, from the count of bytes with the status byte and the count of bits in the last;
  computed without a sign in C, so that a negative number is a huge one there.\<close>

definition received_bits :: "int \<Rightarrow> byte \<Rightarrow> int" where
  "received_bits szRx ui8rcc =
     (let ui8Bits = uint (ui8rcc AND SYMBOL_RX_LAST_BITS) in (szRx - 1 - (if ui8Bits = 0 then 0 else 1)) * 8 + ui8Bits)"

definition received_data :: "bool \<Rightarrow> int \<Rightarrow> int \<Rightarrow> bytes \<Rightarrow> (int \<times> bytes \<times> bytes) outcome" where
  "received_data par szRx szFrameBits abtRx =
     (if \<not> par then (if szFrameBits < 0 then Undefined else pn53x_unwrap_frame (drop 1 abtRx) (nat szFrameBits))
      else if szRx < 1 \<or> int (length abtRx) < szRx then Undefined
      else Ret (szFrameBits, take (nat szRx - 1) (drop 1 abtRx), []))"

text \<open>The result, the received bytes and their parity bits; \<open>wanted\<close> says that \<open>pbtRx\<close> is not \<open>NULL\<close>.\<close>

definition pn53x_initiator_transceive_bits ::
    "'s pn53x_io \<Rightarrow> bytes \<Rightarrow> nat \<Rightarrow> bytes \<Rightarrow> bool \<Rightarrow> ('s, int \<times> bytes \<times> bytes) op" where
  "pn53x_initiator_transceive_bits io pbtTx szTxBits pbtTxPar wanted dv =
     (let err = (\<lambda>res. (res, [], [])) in
      and_then (bits_command (bPar dv) InCommunicateThru pbtTx szTxBits pbtTxPar) (\<lambda>(res, abtCmd, ui8Bits).
        if res < 0 then Ret (err res, dv) else
        on_ok err (pn53x_set_tx_bits io (word_of_nat ui8Bits) dv) (\<lambda>_ dv.
        on_rx err (pn53x_transceive io abtCmd PN53x_EXTENDED_FRAME__DATA_MAX_LEN (- 1) dv) (\<lambda>szRx abtRx dv.
        on_rx err (pn53x_read_register io PN53X_REG_CIU_Control dv) (\<lambda>_ ui8rcc dv.
        and_then (byte_at ui8rcc 0) (\<lambda>rcc.
          if wanted then and_then (received_data (bPar dv) szRx (received_bits szRx rcc) abtRx) (\<lambda>r. Ret (r, dv))
          else Ret ((0, [], []), dv)))))))"

section \<open>Bytes\<close>

text \<open>\<open>room\<close> is the size of the caller's buffer, or \<^const>\<open>None\<close> for no buffer; the length without the status byte is
  computed without a sign.\<close>

definition pn53x_initiator_transceive_bytes ::
    "'s pn53x_io \<Rightarrow> bytes \<Rightarrow> nat option \<Rightarrow> int \<Rightarrow> ('s, int \<times> bytes) op" where
  "pn53x_initiator_transceive_bytes io pbtTx room timeout dv =
     (let fail = (\<lambda>res dv. Ret ((res, []), dv\<lparr>last_error := res\<rparr>));
          abtCmd = (if bEasyFraming dv then [InDataExchange, 1] else [InCommunicateThru]) @ pbtTx in
      if \<not> bPar dv then fail NFC_EINVARG dv
      else if length abtCmd > PN53x_EXTENDED_FRAME__DATA_MAX_LEN then Undefined
      else and_then (pn53x_set_tx_bits io 0 dv) (\<lambda>(res, dv). if res < 0 then fail res dv else
        and_then (pn53x_transceive io abtCmd PN53x_EXTENDED_FRAME__DATA_MAX_LEN timeout dv) (\<lambda>((res, abtRx), dv).
          if res < 0 then fail res dv
          else (case room of
                  None \<Rightarrow> Ret ((res - 1, []), dv)
                | Some szRx \<Rightarrow>
                    if res = 0 \<or> res - 1 > int szRx then Ret ((NFC_EOVFLOW, []), dv)
                    else if int (length abtRx) < res then Undefined
                    else Ret ((res - 1, take (nat res - 1) (drop 1 abtRx)), dv)))))"

section \<open>The timer\<close>

definition ignoring :: "(int \<times> 's nfc_device) outcome \<Rightarrow> ('s nfc_device \<Rightarrow> 'a outcome) \<Rightarrow> 'a outcome" where
  "ignoring m k = and_then m (\<lambda>(_, dv). k dv)"

definition prescaler_of :: "32 word \<Rightarrow> 16 word" where
  "prescaler_of max_cycles = (if max_cycles > 0xFFFF then ucast ((max_cycles div 0xFFFF - 1) div 2) else 0)"

definition init_timer :: "'s pn53x_io \<Rightarrow> 32 word \<Rightarrow> 's nfc_device \<Rightarrow> 's nfc_device outcome" where
  "init_timer io max_cycles dv =
     (let p = prescaler_of max_cycles; dv = set_chip (\<lambda>c. c\<lparr>timer_prescaler := p\<rparr>) dv in
      ignoring (pn53x_write_register io PN53X_REG_CIU_TMode 0xFF
                  (SYMBOL_TAUTO OR (ucast (drop_bit 8 p) AND SYMBOL_TPRESCALERHI)) dv) (\<lambda>dv.
      ignoring (pn53x_write_register io PN53X_REG_CIU_TPrescaler 0xFF (ucast p AND SYMBOL_TPRESCALERLO) dv) (\<lambda>dv.
      ignoring (pn53x_write_register io PN53X_REG_CIU_TReloadVal_hi 0xFF 0xFF dv) (\<lambda>dv.
      ignoring (pn53x_write_register io PN53X_REG_CIU_TReloadVal_lo 0xFF 0xFF dv) Ret))))"

definition odd_parity :: "byte \<Rightarrow> bool" where
  "odd_parity b = fold (\<lambda>i p. p \<noteq> bit b i) [0..<8] False"

definition timer_cycles :: "pn53x_data \<Rightarrow> byte \<Rightarrow> byte \<Rightarrow> byte \<Rightarrow> 32 word" where
  "timer_cycles c counter_hi counter_lo last_cmd_byte =
     (let counter = push_bit 8 (ucast counter_hi) + ucast counter_lo :: 16 word in
      if counter = 0 then 0xFFFFFFFF
      else ucast (0xFFFF - counter) * (ucast (timer_prescaler c) * 2 + 1) + 1
             - (if ch_type c = PN531 then 2 * 128 else 5 * 128)
             + (if odd_parity last_cmd_byte then 0 else 64)
             + scast (timer_correction c))"

definition get_timer :: "'s pn53x_io \<Rightarrow> byte \<Rightarrow> ('s, 32 word) op" where
  "get_timer io last_cmd_byte dv =
     (let off = (if chip_type dv = PN533 then 1 else 0) in
      on_rx (\<lambda>_. 0) (pn53x_transceive io (ReadRegister # address_bytes PN53X_REG_CIU_TCounterVal_hi @
          address_bytes PN53X_REG_CIU_TCounterVal_lo) PN53x_EXTENDED_FRAME__DATA_MAX_LEN (- 1) dv) (\<lambda>_ abtRes dv.
      and_then (byte_at abtRes off) (\<lambda>hi. and_then (byte_at abtRes (off + 1)) (\<lambda>lo.
        Ret (timer_cycles (chip_data dv) hi lo last_cmd_byte, dv)))))"

section \<open>Exchanges that are timed\<close>

text \<open>The command that empties the FIFO, puts the data into it and starts sending.\<close>

definition fifo_command :: "bytes \<Rightarrow> byte \<Rightarrow> bytes" where
  "fifo_command data framing =
     WriteRegister # address_bytes PN53X_REG_CIU_Command @ [SYMBOL_COMMAND AND SYMBOL_COMMAND_TRANSCEIVE] @
       address_bytes PN53X_REG_CIU_FIFOLevel @ [SYMBOL_FLUSH_BUFFER] @
       concat (map (\<lambda>b. address_bytes PN53X_REG_CIU_FIFOData @ [b]) data) @
       address_bytes PN53X_REG_CIU_BitFraming @ [framing]"

text \<open>The first wait: \<open>i\<close> has sixteen bits and is compared with a number that may need more; \<open>sz\<close> keeps its value
  when the register cannot be read, and has none before the first read.\<close>

partial_function (option) wait_fifo ::
    "'s pn53x_io \<Rightarrow> 16 word \<Rightarrow> byte option \<Rightarrow> 's nfc_device \<Rightarrow> (byte option \<times> 's nfc_device) outcome option" where
  "wait_fifo io i sz dv =
     (if uint i < 3 * (uint (timer_prescaler (chip_data dv)) * 2 + 1) then
        (case pn53x_read_register io PN53X_REG_CIU_FIFOLevel dv of
           Ret ((res, v), dv') \<Rightarrow>
             (let sz' = (if res < 0 \<or> v = [] then sz else Some (hd v)) in
              case sz' of None \<Rightarrow> Some Undefined
              | Some n \<Rightarrow> if n > 0 then Some (Ret (sz', dv')) else wait_fifo io (i + 1) sz' dv')
         | Blocks \<Rightarrow> Some Blocks
         | Aborts \<Rightarrow> Some Aborts
         | Undefined \<Rightarrow> Some Undefined)
      else Some (Ret (sz, dv)))"

definition fifo_read_command :: "byte \<Rightarrow> bytes" where
  "fifo_read_command sz =
     ReadRegister # concat (replicate (unat sz) (address_bytes PN53X_REG_CIU_FIFOData)) @ address_bytes PN53X_REG_CIU_FIFOLevel"

text \<open>The reading of the FIFO until it is empty; \<open>out\<close> is the caller's buffer as far as it has been written.\<close>

partial_function (option) read_fifo ::
    "'s pn53x_io \<Rightarrow> nat \<Rightarrow> byte \<Rightarrow> nat \<Rightarrow> bytes \<Rightarrow> 's nfc_device \<Rightarrow> ((int \<times> nat \<times> bytes) \<times> 's nfc_device) outcome option" where
  "read_fifo io off sz szRx out dv =
     (if length (fifo_read_command sz) > PN53x_EXTENDED_FRAME__DATA_MAX_LEN then Some Undefined
      else (case pn53x_transceive io (fifo_read_command sz) PN53x_EXTENDED_FRAME__DATA_MAX_LEN (- 1) dv of
          Ret ((res, abtRes), dv') \<Rightarrow>
            (if res < 0 then Some (Ret ((res, szRx, out), dv'))
             else if length abtRes \<le> unat sz + off then Some Undefined
             else (let out' = take szRx out @ take (unat sz) (drop off abtRes) @ drop (szRx + unat sz) out;
                       szRx' = szRx + unat (sz AND SYMBOL_FIFO_LEVEL); sz' = abtRes ! (unat sz + off) in
                   if sz' = 0 then Some (Ret ((NFC_SUCCESS, szRx', out'), dv')) else read_fifo io off sz' szRx' out' dv'))
        | Blocks \<Rightarrow> Some Blocks
        | Aborts \<Rightarrow> Some Aborts
        | Undefined \<Rightarrow> Some Undefined))"

text \<open>Sending the command and reading the answer: the common part of the two functions.\<close>

definition timed_exchange :: "'s pn53x_io \<Rightarrow> bytes \<Rightarrow> ('s, int \<times> nat \<times> bytes) op" where
  "timed_exchange io abtWriteRegisterCmd dv =
     (if length abtWriteRegisterCmd > PN53x_EXTENDED_FRAME__DATA_MAX_LEN then Undefined
      else on_ok (\<lambda>res. (res, 0, [])) (command io abtWriteRegisterCmd (- 1) dv) (\<lambda>_ dv.
        and_then (and_then (of_run (wait_fifo io 0 None dv)) (\<lambda>r. r)) (\<lambda>(sz, dv).
          case sz of
            None \<Rightarrow> Undefined
          | Some sz \<Rightarrow> and_then (of_run (read_fifo io (if chip_type dv = PN533 then 1 else 0) sz 0 [] dv)) (\<lambda>r. r))))"

definition timed_result ::
    "'s pn53x_io \<Rightarrow> byte \<Rightarrow> nat \<Rightarrow> 32 word \<Rightarrow> ((int \<times> nat \<times> bytes) \<times> 's nfc_device) outcome \<Rightarrow>
     ((int \<times> bytes \<times> 32 word) \<times> 's nfc_device) outcome" where
  "timed_result io last_byte unit_bits cycles m =
     and_then m (\<lambda>((res, szRx, out), dv).
       if res < 0 then Ret ((res, out, cycles), dv)
       else and_then (get_timer io last_byte dv) (\<lambda>(cyc, dv). Ret ((int (szRx * unit_bits), out, cyc), dv)))"

definition pn53x_initiator_transceive_bits_timed ::
    "'s pn53x_io \<Rightarrow> bytes \<Rightarrow> nat \<Rightarrow> 32 word \<Rightarrow> ('s, int \<times> bytes \<times> 32 word) op" where
  "pn53x_initiator_transceive_bits_timed io pbtTx szTxBits cycles dv =
     (let notimpl = Ret ((NFC_ENOTIMPL, [], cycles), dv\<lparr>last_error := NFC_ENOTIMPL\<rparr>) in
      if \<not> bPar dv then notimpl
      else if bEasyFraming dv then notimpl
      else if bCrc dv then notimpl
      else and_then (init_timer io cycles dv) (\<lambda>dv.
        if szTxBits div 8 < length pbtTx then
          timed_result io (pbtTx ! (szTxBits div 8)) 8 cycles
            (timed_exchange io (fifo_command (take (szTxBits div 8 + 1) pbtTx)
               (SYMBOL_START_SEND OR (word_of_nat (szTxBits mod 8) AND SYMBOL_TX_LAST_BITS))) dv)
        else Undefined))"

definition pn53x_initiator_transceive_bytes_timed ::
    "'s pn53x_io \<Rightarrow> bytes \<Rightarrow> 32 word \<Rightarrow> ('s, int \<times> bytes \<times> 32 word) op" where
  "pn53x_initiator_transceive_bytes_timed io pbtTx cycles dv =
     (let fail = (\<lambda>res. Ret ((res, [], cycles), dv\<lparr>last_error := res\<rparr>)) in
      if \<not> bPar dv then fail NFC_EINVARG
      else if bEasyFraming dv then fail NFC_ENOTIMPL
      else and_then (init_timer io cycles dv) (\<lambda>dv.
        and_then (timed_exchange io (fifo_command pbtTx SYMBOL_START_SEND) dv) (\<lambda>(r, dv).
          if fst r < 0 then timed_result io 0 1 cycles (Ret (r, dv))
          else if bCrc dv then
            and_then (iso14443a_crc_append pbtTx) (\<lambda>raw. timed_result io (raw ! (length pbtTx + 1)) 1 cycles (Ret (r, dv)))
          else if pbtTx = [] then Undefined
          else timed_result io (last pbtTx) 1 cycles (Ret (r, dv)))))"

end
