(* ===== verification/Pn53x_Initiator.thy ===== *)
theory Pn53x_Initiator
  imports Pn53x_Exchange
begin

text \<open>
  \<open>chips/pn53x.c\<close> as initiator: the commands that list, poll and join targets, and the operations built on them; and
  what \<open>nfc-internal.c\<close> sends to wake up targets.  Memory for a target is taken to be there.
\<close>

section \<open>Commands\<close>

definition initiator_modulation_error :: "'s nfc_device \<Rightarrow> pn53x_modulation \<Rightarrow> int option" where
  "initiator_modulation_error dv pm =
     (let supports_b = btSupportByte dv AND SUPPORT_ISO14443B \<noteq> 0 in
      case pm of
        PM_ISO14443A_106 \<Rightarrow> None
      | PM_FELICA_212 \<Rightarrow> None
      | PM_FELICA_424 \<Rightarrow> None
      | PM_ISO14443B_106 \<Rightarrow> (if \<not> supports_b then Some NFC_EDEVNOTSUPP else None)
      | PM_JEWEL_106 \<Rightarrow> (if chip_type dv = PN531 then Some NFC_EDEVNOTSUPP else None)
      | PM_UNDEFINED \<Rightarrow> Some NFC_EINVARG
      | _ \<Rightarrow> (if chip_type dv \<noteq> PN533 \<or> \<not> supports_b then Some NFC_EDEVNOTSUPP else None))"

text \<open>The number of targets, and the length and the bytes of their data.\<close>

definition pn53x_InListPassiveTarget ::
    "'s pn53x_io \<Rightarrow> pn53x_modulation \<Rightarrow> byte \<Rightarrow> bytes \<Rightarrow> nat \<Rightarrow> int \<Rightarrow> ('s, int \<times> int \<times> bytes) op" where
  "pn53x_InListPassiveTarget io pm szMaxTargets initData room timeout dv =
     (let err = (\<lambda>res. (res, int room, [])) in
      case initiator_modulation_error dv pm of
        Some e \<Rightarrow> Ret (err e, dv\<lparr>last_error := e\<rparr>)
      | None \<Rightarrow>
          if 3 + length initData > 15 then Undefined
          else on_rx err (pn53x_transceive io ([InListPassiveTarget, szMaxTargets, pm_value pm] @ initData) room timeout dv)
                 (\<lambda>res rx dv. and_then (byte_at rx 0) (\<lambda>n. Ret ((uint n, res, rx), dv))))"

text \<open>The first or second target of an automatic poll: type, length, data.\<close>

definition polled_target :: "pn53x_type \<Rightarrow> bytes \<Rightarrow> nfc_target \<Rightarrow> (int \<times> nfc_target \<times> bytes) outcome" where
  "polled_target type pbt t =
     read_byte pbt (\<lambda>ptt p. read_byte p (\<lambda>ln p.
       let m = pn53x_ptt_to_nm (ptt_of_byte ptt) in
       and_then (pn53x_decode_target_data p (unat ln) type (nmt m) (nti t)) (\<lambda>(res, i).
         Ret (res, \<lparr>nti = i, nm = m\<rparr>, drop (unat ln) p))))"

definition pn53x_InAutoPoll ::
    "'s pn53x_io \<Rightarrow> pn53x_target_type list \<Rightarrow> byte \<Rightarrow> byte \<Rightarrow> nfc_target \<times> nfc_target \<Rightarrow> int \<Rightarrow>
     ('s, int \<times> nfc_target \<times> nfc_target) op" where
  "pn53x_InAutoPoll io types btPollNr btPeriod ts timeout dv =
     (let (t0, t1) = ts in
      if chip_type dv \<noteq> PN532 then Ret ((NFC_EDEVNOTSUPP, t0, t1), dv\<lparr>last_error := NFC_EDEVNOTSUPP\<rparr>)
      else if length types > 15 then Undefined
      else on_rx (\<lambda>res. (res, t0, t1))
             (pn53x_transceive io ([InAutoPoll, btPollNr, btPeriod] @ map ptt_value types)
                PN53x_EXTENDED_FRAME__DATA_MAX_LEN timeout dv) (\<lambda>szRx rx dv.
        if szRx = 0 then Ret ((0, t0, t1), dv)
        else read_byte rx (\<lambda>found p.
          if found = 0 then Ret ((0, t0, t1), dv)
          else and_then (polled_target (chip_type dv) p t0) (\<lambda>(res, t0, p).
            if res < 0 then Ret ((res, t0, t1), dv)
            else if found > 1 then
              and_then (polled_target (chip_type dv) p t1) (\<lambda>(_, t1, p). Ret ((uint found, t0, t1), dv))
            else Ret ((uint found, t0, t1), dv)))))"

definition baud_rate_byte :: "nfc_baud_rate \<Rightarrow> byte option" where
  "baud_rate_byte r = (case r of NBR_106 \<Rightarrow> Some 0x00 | NBR_212 \<Rightarrow> Some 0x01 | NBR_424 \<Rightarrow> Some 0x02 | _ \<Rightarrow> None)"

text \<open>The command of \<open>InJumpForDEP\<close>: the parts that follow the flags, each with its flag.\<close>

definition jump_command ::
    "nfc_dep_mode \<Rightarrow> nfc_baud_rate \<Rightarrow> byte \<Rightarrow> bytes option \<Rightarrow> bytes option \<Rightarrow> bytes \<Rightarrow> nat \<Rightarrow> bytes outcome" where
  "jump_command ndm r rate passive nfcid3 gb szGB =
     (let n = (if r = NBR_106 then 4 else 5);
          with_passive = (passive \<noteq> None \<and> ndm = NDM_PASSIVE);
          len = (if with_passive then n else 0) + (if nfcid3 \<noteq> None then 10 else 0) + szGB in
      if (with_passive \<and> length (the passive) < n) \<or> (nfcid3 \<noteq> None \<and> length (the nfcid3) < 10) \<or>
         length gb < szGB \<or> 4 + len > 67 then Undefined
      else Ret ([InJumpForDEP, if ndm = NDM_ACTIVE then 0x01 else 0x00, rate,
                 (if with_passive then 0x01 else 0) OR (if nfcid3 \<noteq> None then 0x02 else 0) OR (if szGB > 0 then 0x04 else 0)] @
                (if with_passive then take n (the passive) else []) @
                (if nfcid3 \<noteq> None then take 10 (the nfcid3) else []) @ take szGB gb))"

text \<open>What the answer says of the target, from its third byte on.\<close>

definition dep_info_of :: "int \<Rightarrow> bytes \<Rightarrow> nfc_dep_mode \<Rightarrow> nfc_dep_info \<Rightarrow> nfc_dep_info outcome" where
  "dep_info_of szRx abtRx ndm i =
     read_array (dep_abtNFCID3 i) 0 (drop 2 abtRx) 10 (\<lambda>nfcid p.
     read_byte p (\<lambda>did p. read_byte p (\<lambda>bs p. read_byte p (\<lambda>br p. read_byte p (\<lambda>tmo p. read_byte p (\<lambda>pp p.
       let i' = i\<lparr>dep_ndm := ndm, dep_abtNFCID3 := nfcid, dep_btDID := did, dep_btBS := bs, dep_btBR := br,
                  dep_btTO := tmo, dep_btPP := pp\<rparr> in
       if szRx > 17 then
         read_array (dep_abtGB i) 0 p (nat szRx - 17) (\<lambda>gb p. Ret (i'\<lparr>dep_szGB := nat szRx - 17, dep_abtGB := gb\<rparr>))
       else Ret (i'\<lparr>dep_szGB := 0\<rparr>)))))))"

definition pn53x_InJumpForDEP ::
    "'s pn53x_io \<Rightarrow> nfc_dep_mode \<Rightarrow> nfc_baud_rate \<Rightarrow> bytes option \<Rightarrow> bytes option \<Rightarrow> bytes \<Rightarrow> nat \<Rightarrow> nfc_target option \<Rightarrow> int \<Rightarrow>
     ('s, int \<times> nfc_target option) op" where
  "pn53x_InJumpForDEP io ndm rate passive nfcid3 gb szGB pnt timeout dv =
     (case baud_rate_byte rate of
        None \<Rightarrow> Ret ((NFC_EINVARG, pnt), dv\<lparr>last_error := NFC_EINVARG\<rparr>)
      | Some b \<Rightarrow>
          and_then (jump_command ndm rate b passive nfcid3 gb szGB) (\<lambda>abtCmd.
          on_rx (\<lambda>res. (res, pnt)) (pn53x_transceive io abtCmd PN53x_EXTENDED_FRAME__DATA_MAX_LEN timeout dv) (\<lambda>szRx abtRx dv.
          and_then (byte_at abtRx 1) (\<lambda>found.
            if found \<ge> 1 then
              (case pnt of
                 None \<Rightarrow> Ret ((uint found, None), dv)
               | Some t \<Rightarrow> and_then (dep_info_of szRx abtRx ndm (ndi (nti t))) (\<lambda>i.
                   Ret ((uint found, Some \<lparr>nti = (nti t)\<lparr>ndi := i\<rparr>, nm = modulation NMT_DEP rate\<rparr>), dv)))
            else Ret ((uint found, pnt), dv)))))"

section \<open>Selecting a target\<close>

text \<open>A buffer of which some bytes have not been written yet, and its known front.\<close>

definition buffer_store :: "nat \<Rightarrow> bytes \<Rightarrow> byte option list \<Rightarrow> byte option list" where
  "buffer_store i bs buf = splice buf i (map Some bs)"

definition buffer_known :: "byte option list \<Rightarrow> bytes" where
  "buffer_known buf = map the (takeWhile (\<lambda>x. x \<noteq> None) buf)"

abbreviation (input) blank_buffer :: "byte option list" where
  "blank_buffer \<equiv> replicate PN53x_EXTENDED_FRAME__DATA_MAX_LEN None"

text \<open>What is exchanged before the UID is asked for; \<open>szTargetsData\<close> and the buffer are threaded through.\<close>

definition select_prologue ::
    "'s pn53x_io \<Rightarrow> nfc_modulation_type \<Rightarrow> int \<Rightarrow> ('s, int \<times> int \<times> byte option list) op" where
  "select_prologue io t timeout dv =
     (let room = int PN53x_EXTENDED_FRAME__DATA_MAX_LEN; err = (\<lambda>res. (res, room, blank_buffer)) in
      if t = NMT_ISO14443B2SR then
        on_rx err (pn53x_initiator_transceive_bytes io [0x06, 0x00] (Some 1) timeout dv) (\<lambda>_ rx dv.
        and_then (byte_at rx 0) (\<lambda>chip_id.
        on_rx err (pn53x_initiator_transceive_bytes io [0x0e, chip_id] (Some 1) timeout dv) (\<lambda>res _ dv.
          Ret ((NFC_SUCCESS, res, blank_buffer), dv))))
      else if t = NMT_ISO14443B2CT then
        on_rx err (pn53x_initiator_transceive_bytes io [0x10] (Some (PN53x_EXTENDED_FRAME__DATA_MAX_LEN - 2)) timeout dv)
          (\<lambda>res rx dv. Ret ((NFC_SUCCESS, res, buffer_store 2 rx blank_buffer), dv))
      else Ret ((NFC_SUCCESS, room, blank_buffer), dv))"

text \<open>The second half of a UID of type B2CT.  The comparison with 0 is part of the assignment: a failed exchange makes
  the function return 1.\<close>

definition select_second_half ::
    "'s pn53x_io \<Rightarrow> nfc_modulation_type \<Rightarrow> int \<Rightarrow> int \<Rightarrow> byte option list \<Rightarrow> ('s, int option \<times> int \<times> byte option list) op" where
  "select_second_half io t timeout szTargetsData buf dv =
     (if t = NMT_ISO14443B2CT then
        (if szTargetsData \<noteq> 2 then Ret ((Some NFC_ECHIP, szTargetsData, buf), dv)
         else and_then (pn53x_initiator_transceive_bytes io [0xC4] (Some (PN53x_EXTENDED_FRAME__DATA_MAX_LEN - 4)) timeout dv)
           (\<lambda>((res, rx), dv).
             if res < 0 then Ret ((Some 1, szTargetsData, buf), dv)
             else Ret ((None, 6, buffer_store 4 rx buf), dv)))
      else Ret ((None, szTargetsData, buf), dv))"

definition select_attrib :: "'s pn53x_io \<Rightarrow> nfc_modulation_type \<Rightarrow> int \<Rightarrow> bytes \<Rightarrow> ('s, int) op" where
  "select_attrib io t timeout known dv =
     (if t = NMT_ISO14443BI then
        (if length known < 6 then Undefined
         else rx_dropped (pn53x_initiator_transceive_bytes io ((take 6 known)[1 := 0x0f]) None timeout dv))
      else Ret (NFC_SUCCESS, dv))"

text \<open>The discovery by hand of the three types the chip does not list.\<close>

definition select_by_hand ::
    "'s pn53x_io \<Rightarrow> nfc_modulation \<Rightarrow> bytes \<Rightarrow> nfc_target option \<Rightarrow> int \<Rightarrow> ('s, int \<times> nfc_target option) op" where
  "select_by_hand io m initData pnt timeout dv =
     (let err = (\<lambda>res. (res, pnt)) in
      if chip_type dv = RCS360 then Ret ((NFC_ENOTIMPL, pnt), dv\<lparr>last_error := NFC_ENOTIMPL\<rparr>) else
      on_ok err (nfc_device_set_property_bool io NP_FORCE_ISO14443_B True dv) (\<lambda>_ dv.
      on_ok err (nfc_device_set_property_bool io NP_FORCE_SPEED_106 True dv) (\<lambda>_ dv.
      on_ok err (nfc_device_set_property_bool io NP_HANDLE_CRC True dv) (\<lambda>_ dv.
      and_then (select_prologue io (nmt m) timeout (dv\<lparr>bEasyFraming := False\<rparr>)) (\<lambda>((res, sz, buf), dv).
      if res < 0 then Ret (err res, dv) else
      on_rx err (pn53x_initiator_transceive_bytes io initData (Some PN53x_EXTENDED_FRAME__DATA_MAX_LEN) timeout dv) (\<lambda>_ rx dv.
      and_then (select_second_half io (nmt m) timeout sz (buffer_store 0 rx buf) dv) (\<lambda>((early, sz, buf), dv).
      case early of Some res \<Rightarrow> Ret (err res, dv) | None \<Rightarrow>
      and_then
        (case pnt of None \<Rightarrow> Ret (NFC_SUCCESS, None)
         | Some t \<Rightarrow> and_then (pn53x_decode_target_data (buffer_known buf) (nat sz) (chip_type dv) (nmt m) (nti t))
             (\<lambda>(res, i). Ret (res, Some \<lparr>nti = i, nm = m\<rparr>))) (\<lambda>(res, pnt').
      if res < 0 then Ret ((res, pnt'), dv) else
      on_ok (\<lambda>res. (res, pnt')) (select_attrib io (nmt m) timeout (buffer_known buf) dv) (\<lambda>_ dv.
      and_then (byte_at (buffer_known buf) 0) (\<lambda>b. Ret ((uint b, pnt'), dv)))))))))))"

text \<open>Here too the comparison is part of the assignment: data that cannot be decoded make the function return 1.\<close>

definition select_listed ::
    "'s pn53x_io \<Rightarrow> nfc_modulation \<Rightarrow> bytes \<Rightarrow> nfc_target option \<Rightarrow> int \<Rightarrow> ('s, int \<times> nfc_target option) op" where
  "select_listed io m initData pnt timeout dv =
     (let pm = pn53x_nm_to_pm (nmt m) (nbr m) in
      if pm = PM_UNDEFINED then Ret ((NFC_EINVARG, pnt), dv\<lparr>last_error := NFC_EINVARG\<rparr>) else
      and_then (pn53x_InListPassiveTarget io pm 1 initData PN53x_EXTENDED_FRAME__DATA_MAX_LEN timeout dv) (\<lambda>((res, sz, rx), dv).
      if res \<le> 0 then Ret ((res, pnt), dv)
      else (case pnt of
              None \<Rightarrow> Ret ((res, None), dv)
            | Some t \<Rightarrow>
                and_then (pn53x_decode_target_data (drop 1 rx) (nat sz - 1) (chip_type dv) (nmt m) (nti t)) (\<lambda>(r, i).
                  let t' = \<lparr>nti = i, nm = m\<rparr> in
                  if r < 0 then Ret ((1, Some t'), dv)
                  else Ret ((res, Some t'), pn53x_current_target_new t' dv)))))"

definition select_passive_target_ext ::
    "'s pn53x_io \<Rightarrow> nfc_modulation \<Rightarrow> bytes \<Rightarrow> nfc_target option \<Rightarrow> int \<Rightarrow> ('s, int \<times> nfc_target option) op" where
  "select_passive_target_ext io m initData pnt timeout dv =
     (if nmt m \<in> {NMT_ISO14443BI, NMT_ISO14443B2SR, NMT_ISO14443B2CT} then select_by_hand io m initData pnt timeout dv
      else select_listed io m initData pnt timeout dv)"

definition pn53x_initiator_select_passive_target ::
    "'s pn53x_io \<Rightarrow> nfc_modulation \<Rightarrow> bytes \<Rightarrow> nfc_target option \<Rightarrow> ('s, int \<times> nfc_target option) op" where
  "pn53x_initiator_select_passive_target io m initData pnt = select_passive_target_ext io m initData pnt 0"

fun prepare_initiator_data :: "nfc_modulation_type \<Rightarrow> bytes" where
  "prepare_initiator_data NMT_ISO14443B = [0x00]"
| "prepare_initiator_data NMT_ISO14443BI = [0x01, 0x0b, 0x3f, 0x80]"
| "prepare_initiator_data NMT_ISO14443B2SR = [0x0b]"
| "prepare_initiator_data NMT_ISO14443B2CT = [0x9F, 0xFF, 0xFF]"
| "prepare_initiator_data NMT_FELICA = [0x00, 0xff, 0xff, 0x01, 0x00]"
| "prepare_initiator_data _ = []"

section \<open>Polling\<close>

text \<open>The types to poll for, gathered in an array of 32; \<^const>\<open>None\<close> for a modulation the chip cannot poll for.\<close>

fun poll_types :: "bool \<Rightarrow> nfc_modulation list \<Rightarrow> pn53x_target_type list \<Rightarrow> pn53x_target_type list option outcome" where
  "poll_types auto [] types = Ret (Some types)"
| "poll_types auto (m # ms) types =
     (let ptt = pn53x_nm_to_ptt (nmt m) (nbr m);
          new = (if auto \<and> ptt = PTT_MIFARE then [PTT_ISO14443_4A_106, PTT_MIFARE] else [ptt]) in
      if ptt = PTT_UNDEFINED then Ret None
      else if length types + length new > 32 then Undefined
      else poll_types auto ms (types @ new))"

definition poll_pn532 ::
    "'s pn53x_io \<Rightarrow> nfc_modulation list \<Rightarrow> byte \<Rightarrow> byte \<Rightarrow> nfc_target \<times> nfc_target \<Rightarrow> nfc_target \<Rightarrow> ('s, int \<times> nfc_target) op" where
  "poll_pn532 io ms uiPollNr uiPeriod fresh pnt dv =
     and_then (poll_types (bAutoIso14443_4 dv) ms []) (\<lambda>types. case types of
       None \<Rightarrow> Ret ((NFC_EINVARG, pnt), dv\<lparr>last_error := NFC_EINVARG\<rparr>)
     | Some types \<Rightarrow>
         and_then (pn53x_InAutoPoll io types uiPollNr uiPeriod fresh 0 dv) (\<lambda>((res, t0, t1), dv).
           if res < 0 then Ret ((res, pnt), dv)
           else if res = 1 then Ret ((res, t0), dv)
           else if res = 2 then Ret ((res, t1), dv)
           else Ret ((NFC_ECHIP, pnt), dv)))"

text \<open>One round over the modulations: \<^const>\<open>None\<close> when all timed out.\<close>

fun poll_round ::
    "'s pn53x_io \<Rightarrow> nfc_modulation list \<Rightarrow> byte \<Rightarrow> nfc_target option \<Rightarrow> ('s, int option \<times> nfc_target option) op" where
  "poll_round io [] uiPeriod pnt dv = Ret ((None, pnt), dv)"
| "poll_round io (m # ms) uiPeriod pnt dv =
     and_then (select_passive_target_ext io m (prepare_initiator_data (nmt m)) pnt (uint uiPeriod * 150) dv) (\<lambda>((res, pnt), dv).
       if res < 0 then
         (if last_error dv \<noteq> NFC_ETIMEOUT then Ret ((Some (last_error dv), pnt), dv) else poll_round io ms uiPeriod pnt dv)
       else Ret ((Some res, pnt), dv))"

partial_function (option) poll_forever ::
    "'s pn53x_io \<Rightarrow> nfc_modulation list \<Rightarrow> byte \<Rightarrow> nfc_target option \<Rightarrow> 's nfc_device \<Rightarrow>
     ((int \<times> nfc_target option) \<times> 's nfc_device) outcome option" where
  "poll_forever io rounds uiPeriod pnt dv =
     (case poll_round io rounds uiPeriod pnt dv of
        Ret ((Some res, pnt'), dv') \<Rightarrow> Some (Ret ((res, pnt'), dv'))
      | Ret ((None, pnt'), dv') \<Rightarrow> poll_forever io rounds uiPeriod pnt' dv'
      | Blocks \<Rightarrow> Some Blocks
      | Aborts \<Rightarrow> Some Aborts
      | Undefined \<Rightarrow> Some Undefined)"

definition poll_others ::
    "'s pn53x_io \<Rightarrow> nfc_modulation list \<Rightarrow> byte \<Rightarrow> byte \<Rightarrow> nfc_target option \<Rightarrow> ('s, int \<times> nfc_target option) op" where
  "poll_others io ms uiPollNr uiPeriod pnt dv =
     (let rounds = concat (replicate (unat uiPollNr) ms) in
      ignoring (pn53x_set_property_bool io NP_INFINITE_SELECT True dv) (\<lambda>dv.
        if uiPollNr = 0xff then and_then (of_run (poll_forever io rounds uiPeriod pnt dv)) (\<lambda>r. r)
        else and_then (poll_round io rounds uiPeriod pnt dv) (\<lambda>((res, pnt), dv).
               Ret ((case res of Some r \<Rightarrow> r | None \<Rightarrow> 0, pnt), dv))))"

text \<open>\<open>fresh\<close> is what the two local targets hold before they are filled in.\<close>

definition pn53x_initiator_poll_target ::
    "'s pn53x_io \<Rightarrow> nfc_modulation list \<Rightarrow> byte \<Rightarrow> byte \<Rightarrow> nfc_target \<times> nfc_target \<Rightarrow> nfc_target \<Rightarrow> ('s, int \<times> nfc_target) op" where
  "pn53x_initiator_poll_target io ms uiPollNr uiPeriod fresh pnt dv =
     (if chip_type dv = PN532 then poll_pn532 io ms uiPollNr uiPeriod fresh pnt dv
      else and_then (poll_others io ms uiPollNr uiPeriod (Some pnt) dv) (\<lambda>((res, t), dv).
             Ret ((res, case t of Some t \<Rightarrow> t | None \<Rightarrow> pnt), dv)))"

section \<open>DEP targets, release, presence\<close>

definition pn53x_initiator_select_dep_target ::
    "'s pn53x_io \<Rightarrow> nfc_dep_mode \<Rightarrow> nfc_baud_rate \<Rightarrow> nfc_dep_info option \<Rightarrow> nfc_target option \<Rightarrow> int \<Rightarrow>
     ('s, int \<times> nfc_target option) op" where
  "pn53x_initiator_select_dep_target io ndm rate initiator pnt timeout dv =
     (if rate = NBR_847 \<or> rate = NBR_UNDEFINED then Ret ((NFC_EINVARG, pnt), dv)
      else (let passive = (if rate = NBR_212 \<or> rate = NBR_424 then Some [0x00, 0xff, 0xff, 0x00, 0x0f] else None);
                dv = pn53x_current_target_free dv in
        and_then
          (case initiator of
             Some i \<Rightarrow> pn53x_InJumpForDEP io ndm rate passive (Some (dep_abtNFCID3 i)) (dep_abtGB i) (dep_szGB i) pnt timeout dv
           | None \<Rightarrow> pn53x_InJumpForDEP io ndm rate passive None [] 0 pnt timeout dv) (\<lambda>((res, pnt), dv).
          if res \<ge> 0 then
            (case pnt of None \<Rightarrow> Undefined | Some t \<Rightarrow> Ret ((res, pnt), pn53x_current_target_new t dv))
          else Ret ((res, pnt), dv))))"

definition pn53x_initiator_deselect_target :: "'s pn53x_io \<Rightarrow> ('s, int) op" where
  "pn53x_initiator_deselect_target io dv = pn53x_InDeselect io 0 (pn53x_current_target_free dv)"

definition pn53x_initiator_target_is_present :: "'s pn53x_io \<Rightarrow> nfc_target \<Rightarrow> ('s, int) op" where
  "pn53x_initiator_target_is_present io nt dv =
     (if \<not> pn53x_current_target_is nt dv then Ret (NFC_ETGRELEASED, dv)
      else on_rx res_only (pn53x_transceive io [Diagnose, 0x06] 1 700 dv) (\<lambda>res _ dv.
        if res = 1 then Ret (NFC_SUCCESS, dv)
        else Ret (NFC_ETGRELEASED, pn53x_current_target_free dv)))"

end
