(* ===== verification/Pn53x_Target.thy ===== *)
theory Pn53x_Target
  imports Pn53x_Initiator
begin

text \<open>
  \<open>chips/pn53x.c\<close> as target: waiting for an initiator, and the exchange with it.
\<close>

section \<open>Waiting for an initiator\<close>

definition has_target_lengths :: "pn53x_type \<Rightarrow> bool" where
  "has_target_lengths type \<longleftrightarrow> type \<noteq> PN531 \<and> type \<noteq> RCS360"

text \<open>The parts of the command; a part that is not given is zeros.  The array has 134 bytes.\<close>

definition init_as_target_command ::
    "pn53x_type \<Rightarrow> byte \<Rightarrow> bytes option \<Rightarrow> bytes option \<Rightarrow> bytes option \<Rightarrow> bytes \<Rightarrow> bytes option \<Rightarrow> bytes outcome" where
  "init_as_target_command type ptm tkt felica nfcid3 gb mifare =
     (let part = (\<lambda>n p. case p of None \<Rightarrow> replicate n 0 | Some bs \<Rightarrow> bs);
          tk = (case tkt of None \<Rightarrow> [] | Some bs \<Rightarrow> bs);
          cmd = [TgInitAsTarget, ptm] @ part 6 mifare @ part 18 felica @ part 10 nfcid3 @
                (if has_target_lengths type
                 then word_of_nat (length gb) # gb @ word_of_nat (length tk) # tk
                 else gb) in
      if length cmd > 39 + 47 + 48 then Undefined else Ret cmd)"

text \<open>The result, the mode byte and what the initiator sent.  The count of the bytes behind the mode byte has been taken
  down by one already when it is compared with the room, taken down by one again.\<close>

definition pn53x_TgInitAsTarget ::
    "'s pn53x_io \<Rightarrow> byte \<Rightarrow> bytes option \<Rightarrow> bytes option \<Rightarrow> bytes option \<Rightarrow> bytes option \<Rightarrow> bytes \<Rightarrow> nat \<Rightarrow> int \<Rightarrow>
     ('s, int \<times> byte \<times> bytes) op" where
  "pn53x_TgInitAsTarget io ptm mifare tkt felica nfcid3 gb szRxLen timeout dv =
     and_then (init_as_target_command (chip_type dv) ptm tkt felica nfcid3 gb mifare) (\<lambda>abtCmd.
     on_rx (\<lambda>res. (res, 0, [])) (pn53x_transceive io abtCmd PN53x_EXTENDED_FRAME__DATA_MAX_LEN timeout dv) (\<lambda>res abtRx dv.
     and_then (byte_at abtRx 0) (\<lambda>md.
       let szRx = nat res - 1 in
       if szRx = 0 \<or> szRx - 1 > szRxLen then Ret ((NFC_EOVFLOW, md, []), dv)
       else if szRx > szRxLen \<or> szRx + 1 > length abtRx then Undefined
       else Ret ((int szRx, md, take szRx (drop 1 abtRx)), dv))))"

text \<open>The modulation and the DEP mode of an activation.\<close>

definition activated_rate :: "byte \<Rightarrow> nfc_baud_rate" where
  "activated_rate md =
     (let r = md AND 0x70 in if r = 0x00 then NBR_106 else if r = 0x10 then NBR_212 else if r = 0x20 then NBR_424 else NBR_UNDEFINED)"

definition activated_type :: "byte \<Rightarrow> nfc_modulation_type" where
  "activated_type md =
     (if md AND 0x04 \<noteq> 0 then NMT_DEP
      else if md AND 0x03 = 0x00 then NMT_ISO14443A
      else if md AND 0x03 = 0x02 then NMT_FELICA
      else NMT_DEP)"

definition activated_dep_mode :: "byte \<Rightarrow> nfc_dep_mode" where
  "activated_dep_mode md =
     (if md AND 0x04 \<noteq> 0 then (if md AND 0x03 = 0x01 then NDM_ACTIVE else NDM_PASSIVE) else NDM_UNDEFINED)"

definition activation_fits :: "nfc_target \<Rightarrow> byte \<Rightarrow> bool" where
  "activation_fits t md \<longleftrightarrow>
     nmt (nm t) = activated_type md \<and>
     (nbr (nm t) = NBR_UNDEFINED \<or> nbr (nm t) = activated_rate md) \<and>
     (nmt (nm t) \<noteq> NMT_DEP \<or> dep_ndm (ndi (nti t)) = NDM_UNDEFINED \<or> dep_ndm (ndi (nti t)) = activated_dep_mode md)"

definition activated :: "nfc_target \<Rightarrow> byte \<Rightarrow> nfc_target" where
  "activated t md =
     (let t = t\<lparr>nm := (nm t)\<lparr>nbr := activated_rate md\<rparr>\<rparr> in
      if nmt (nm t) = NMT_DEP then t\<lparr>nti := (nti t)\<lparr>ndi := (ndi (nti t))\<lparr>dep_ndm := activated_dep_mode md\<rparr>\<rparr>\<rparr> else t)"

text \<open>The first switch: the mode to wait in and the parameters of the chip, or an error.\<close>

definition prepare_target :: "'s pn53x_io \<Rightarrow> nfc_target \<Rightarrow> ('s, int \<times> byte) op" where
  "prepare_target io t dv =
     (let fail = (\<lambda>e dv. Ret ((e, PTM_NORMAL), dv\<lparr>last_error := e\<rparr>)) in
      case nmt (nm t) of
        NMT_ISO14443A \<Rightarrow>
          (if nai_abtUid (nai (nti t)) ! 0 \<noteq> 0x08 \<or> nai_szUidLen (nai (nti t)) \<noteq> 4 then fail NFC_EINVARG dv
           else ignoring (pn53x_set_parameters io PARAM_AUTO_ATR_RES False dv) (\<lambda>dv.
             if chip_type dv = PN532 then
               (let picc = (nai_btSak (nai (nti t)) AND 0x20 \<noteq> 0 \<and> bAutoIso14443_4 dv) in
                ignoring (pn53x_set_parameters io PARAM_14443_4_PICC picc dv) (\<lambda>dv.
                  Ret ((NFC_SUCCESS, PTM_PASSIVE_ONLY OR (if picc then PTM_ISO14443_4_PICC_ONLY else 0)), dv)))
             else Ret ((NFC_SUCCESS, PTM_PASSIVE_ONLY), dv)))
      | NMT_FELICA \<Rightarrow> Ret ((NFC_SUCCESS, PTM_PASSIVE_ONLY), dv)
      | NMT_DEP \<Rightarrow>
          ignoring (pn53x_set_parameters io PARAM_AUTO_ATR_RES True dv) (\<lambda>dv.
            Ret ((NFC_SUCCESS, PTM_DEP_ONLY OR (if dep_ndm (ndi (nti t)) = NDM_PASSIVE then PTM_PASSIVE_ONLY else 0)), dv))
      | _ \<Rightarrow> fail NFC_EDEVNOTSUPP dv)"

text \<open>The second switch: the parts of the command, MIFARE, historical bytes, FeliCa, NFCID3 and general bytes.\<close>

definition target_parts ::
    "nfc_target \<Rightarrow> (bytes option \<times> bytes option \<times> bytes option \<times> bytes option \<times> bytes) outcome" where
  "target_parts t =
     (let a = nai (nti t); f = nfi (nti t); d = ndi (nti t) in
      case nmt (nm t) of
        NMT_ISO14443A \<Rightarrow>
          (if nai_szAtsLen a > length (nai_abtAts a) then Undefined
           else Ret (Some [nai_abtAtqa a ! 1, nai_abtAtqa a ! 0, nai_abtUid a ! 1, nai_abtUid a ! 2, nai_abtUid a ! 3, nai_btSak a],
                     iso14443a_locate_historical_bytes (take (nai_szAtsLen a) (nai_abtAts a)), None, None, []))
      | NMT_FELICA \<Rightarrow> Ret (None, None, Some (nfi_abtId f @ nfi_abtPad f @ nfi_abtSysCode f), None, [])
      | _ \<Rightarrow>
          (if dep_szGB d > length (dep_abtGB d) then Undefined
           else Ret (Some [0x08, 0x00, 0x12, 0x34, 0x56, 0x40], None,
                     Some [0x01, 0xfe, 0x12, 0x34, 0x56, 0x78, 0x90, 0x12, 0xc0, 0xc1, 0xc2, 0xc3, 0xc4, 0xc5, 0xc6, 0xc7, 0x0f, 0xab],
                     Some (dep_abtNFCID3 d), take (dep_szGB d) (dep_abtGB d))))"

text \<open>The loop that waits for an activation that fits; one that does not is passed over.\<close>

partial_function (option) wait_activation ::
    "('s nfc_device \<Rightarrow> ((int \<times> byte \<times> bytes) \<times> 's nfc_device) outcome) \<Rightarrow> ('s nfc_device \<Rightarrow> (int \<times> 's nfc_device) outcome) \<Rightarrow>
     byte \<Rightarrow> nfc_target \<Rightarrow> 's nfc_device \<Rightarrow> ((int \<times> nfc_target \<times> bytes) \<times> 's nfc_device) outcome option" where
  "wait_activation tg_init idle ptm t dv =
     (case tg_init dv of
        Ret ((res, md, rx), dv') \<Rightarrow>
          (if res < 0 then
             (if res = NFC_ETIMEOUT then Some (and_then (idle dv') (\<lambda>(r, dv). Ret ((r, t, []), dv))) else Some (Ret ((res, t, []), dv')))
           else if activation_fits t md then
             Some (Ret ((if ptm AND PTM_ISO14443_4_PICC_ONLY \<noteq> 0 then 0 else res, activated t md, rx),
                        pn53x_current_target_new (activated t md) dv'))
           else wait_activation tg_init idle ptm t dv')
      | Blocks \<Rightarrow> Some Blocks
      | Aborts \<Rightarrow> Some Aborts
      | Undefined \<Rightarrow> Some Undefined)"

text \<open>\<open>idle\<close> is what makes the device idle when the time is over.\<close>

definition pn53x_target_init_over ::
    "('s, int) op \<Rightarrow> 's pn53x_io \<Rightarrow> nfc_target \<Rightarrow> nat \<Rightarrow> int \<Rightarrow> ('s, int \<times> nfc_target \<times> bytes) op" where
  "pn53x_target_init_over idle io t szRxLen timeout dv =
     (let err = (\<lambda>res. (res, t, [])) in
      ignoring (pn53x_reset_settings io dv) (\<lambda>dv.
      and_then (prepare_target io t (set_chip (\<lambda>c. c\<lparr>operating_mode := TARGET\<rparr>) dv)) (\<lambda>((res, ptm), dv).
      if res < 0 then Ret (err res, dv) else
      on_ok err (pn53x_write_register io PN53X_REG_CIU_TxAuto SYMBOL_INITIAL_RF_ON 0x04 dv) (\<lambda>_ dv.
      and_then (target_parts t) (\<lambda>(mifare, tkt, felica, nfcid3, gb).
      and_then (of_run (wait_activation (pn53x_TgInitAsTarget io ptm mifare tkt felica nfcid3 gb szRxLen timeout) idle
                  ptm t dv)) (\<lambda>r. r))))))"

definition pn53x_target_init ::
    "'s pn53x_io \<Rightarrow> nfc_target \<Rightarrow> nat \<Rightarrow> int \<Rightarrow> ('s, int \<times> nfc_target \<times> bytes) op" where
  "pn53x_target_init io = pn53x_target_init_over (pn53x_idle io) io"

section \<open>The exchange with the initiator\<close>

definition pn53x_target_receive_bits :: "'s pn53x_io \<Rightarrow> nat \<Rightarrow> ('s, int \<times> bytes \<times> bytes) op" where
  "pn53x_target_receive_bits io szRxLen dv =
     (let err = (\<lambda>res. (res, [], [])) in
      on_rx err (pn53x_transceive io [TgGetInitiatorCommand] PN53x_EXTENDED_FRAME__DATA_MAX_LEN (- 1) dv) (\<lambda>szRx abtRx dv.
      on_rx err (pn53x_read_register io PN53X_REG_CIU_Control dv) (\<lambda>_ ui8rcc dv.
      and_then (byte_at ui8rcc 0) (\<lambda>rcc.
        if bPar dv \<and> (szRx = 0 \<or> szRx - 1 > int szRxLen) then Ret (err NFC_EOVFLOW, dv)
        else and_then (received_data (bPar dv) szRx (received_bits szRx rcc) abtRx) (\<lambda>r. Ret (r, dv))))))"

text \<open>The command for the exchange: with easy framing it depends on the target that is emulated.\<close>

definition target_command :: "byte \<Rightarrow> byte \<Rightarrow> 's nfc_device \<Rightarrow> (int \<times> byte) outcome" where
  "target_command dep_cmd raw_cmd dv =
     (if bEasyFraming dv then
        (case current_target (chip_data dv) of
           None \<Rightarrow> Undefined
         | Some t \<Rightarrow>
             (case nmt (nm t) of
                NMT_DEP \<Rightarrow> Ret (NFC_SUCCESS, dep_cmd)
              | NMT_ISO14443A \<Rightarrow>
                  (if nai_btSak (nai (nti t)) AND 0x20 \<noteq> 0 then
                     (if chip_type dv = PN532 \<and> bAutoIso14443_4 dv then Ret (NFC_SUCCESS, dep_cmd) else Ret (NFC_ENOTIMPL, 0))
                   else Ret (NFC_SUCCESS, raw_cmd))
              | _ \<Rightarrow> Ret (NFC_SUCCESS, raw_cmd)))
      else Ret (NFC_SUCCESS, raw_cmd))"

definition pn53x_target_receive_bytes :: "'s pn53x_io \<Rightarrow> nat \<Rightarrow> int \<Rightarrow> ('s, int \<times> bytes) op" where
  "pn53x_target_receive_bytes io szRxLen timeout dv =
     and_then (target_command TgGetData TgGetInitiatorCommand dv) (\<lambda>(res, cmd).
       if res < 0 then Ret ((res, []), dv\<lparr>last_error := res\<rparr>) else
       and_then (pn53x_transceive io [cmd] PN53x_EXTENDED_FRAME__DATA_MAX_LEN timeout dv) (\<lambda>((res, abtRx), dv).
         if res < 0 then Ret ((last_error dv, []), dv)
         else if res = 0 \<or> res - 1 > int szRxLen then Ret ((NFC_EOVFLOW, []), dv)
         else if int (length abtRx) < res then Undefined
         else Ret ((res - 1, take (nat res - 1) (drop 1 abtRx)), dv)))"

definition pn53x_target_send_bits :: "'s pn53x_io \<Rightarrow> bytes \<Rightarrow> nat \<Rightarrow> bytes \<Rightarrow> ('s, int) op" where
  "pn53x_target_send_bits io pbtTx szTxBits pbtTxPar dv =
     and_then (bits_command (bPar dv) TgResponseToInitiator pbtTx szTxBits pbtTxPar) (\<lambda>(res, abtCmd, ui8Bits).
       if res < 0 then Ret (res, dv) else
       on_ok res_only (pn53x_set_tx_bits io (word_of_nat ui8Bits) dv) (\<lambda>_ dv.
       on_ok res_only (command io abtCmd (- 1) dv) (\<lambda>_ dv. Ret (int szTxBits, dv))))"

definition pn53x_target_send_bytes :: "'s pn53x_io \<Rightarrow> bytes \<Rightarrow> int \<Rightarrow> ('s, int) op" where
  "pn53x_target_send_bytes io pbtTx timeout dv =
     (if \<not> bPar dv then Ret (NFC_ECHIP, dv)
      else and_then (target_command TgSetData TgResponseToInitiator dv) (\<lambda>(res, cmd).
        if res < 0 then Ret (res, dv\<lparr>last_error := res\<rparr>)
        else if length pbtTx + 1 > PN53x_EXTENDED_FRAME__DATA_MAX_LEN then Undefined
        else on_ok res_only (command io (cmd # pbtTx) timeout dv) (\<lambda>_ dv. Ret (int (length pbtTx), dv))))"

end
