(* ===== verification/Pn532_Uart.thy ===== *)
theory Pn532_Uart
  imports Pn53x_Target
begin

text \<open>
  \<open>buses/uart_posix.c\<close> and \<open>drivers/pn532_uart.c\<close>: the serial line and the driver that speaks to a PN532 over it.
  What happens on the line is a script of events, in the order in which \<open>select\<close> comes to see them; what has arrived
  and has not been read waits in the port.
\<close>

section \<open>The serial line\<close>

text \<open>Bytes arrive; a signal interrupts \<open>select\<close>; \<open>select\<close> fails; its time runs out; the user asks for an abort; the line
  is ready, but the bytes cannot be counted or read.\<close>

datatype line_event = Arrived bytes | Interrupted | Select_failed | Timed_out | Abort_asked | Read_failed

record uart_port =
  avail :: bytes
  script :: "line_event list"
  writes_fail :: "bool list"
  sent :: "bytes list"

text \<open>From \<open>select\<close> to the count of the bytes: a result to return, or \<^const>\<open>None\<close> with bytes to read.  With the timeout 0
  nothing ends the wait but an event; a negative timeout leaves the time unset.\<close>

fun uart_wait :: "bool \<Rightarrow> int \<Rightarrow> line_event list \<Rightarrow> (int option \<times> bytes \<times> line_event list) outcome" where
  "uart_wait abortable timeout [] = (if timeout = 0 then Blocks else Ret (Some NFC_ETIMEOUT, [], []))"
| "uart_wait abortable timeout (Arrived bs # ev) = (if bs = [] then uart_wait abortable timeout ev else Ret (None, bs, ev))"
| "uart_wait abortable timeout (Interrupted # ev) = uart_wait abortable timeout ev"
| "uart_wait abortable timeout (Select_failed # ev) = Ret (Some NFC_EIO, [], ev)"
| "uart_wait abortable timeout (Timed_out # ev) =
     (if timeout = 0 then uart_wait abortable timeout ev else Ret (Some NFC_ETIMEOUT, [], ev))"
| "uart_wait abortable timeout (Abort_asked # ev) =
     (if abortable then Ret (Some NFC_EOPABORTED, [], ev) else uart_wait abortable timeout ev)"
| "uart_wait abortable timeout (Read_failed # ev) = Ret (Some NFC_EIO, [], ev)"

definition uart_select :: "bool \<Rightarrow> int \<Rightarrow> uart_port \<Rightarrow> (int option \<times> uart_port) outcome" where
  "uart_select abortable timeout p =
     (if timeout < 0 then Undefined
      else if avail p \<noteq> [] then Ret (None, p)
      else and_then (uart_wait abortable timeout (script p)) (\<lambda>(r, av, ev). Ret (r, p\<lparr>avail := av, script := ev\<rparr>)))"

text \<open>The loop of \<open>uart_receive\<close> with \<open>n\<close> bytes still to come.\<close>

function receive_loop :: "bool \<Rightarrow> int \<Rightarrow> nat \<Rightarrow> bytes \<Rightarrow> uart_port \<Rightarrow> ((int \<times> bytes) \<times> uart_port) outcome" where
  "receive_loop abortable timeout n got p =
     and_then (uart_select abortable timeout p) (\<lambda>(r, p).
       case r of
         Some e \<Rightarrow> Ret ((e, got), p)
       | None \<Rightarrow>
           (let k = min (length (avail p)) n; got' = got @ take k (avail p); p' = p\<lparr>avail := drop k (avail p)\<rparr> in
            if k = 0 then Ret ((NFC_EIO, got), p)
            else if n > k then receive_loop abortable timeout (n - k) got' p'
            else Ret ((NFC_SUCCESS, got'), p')))"
  by pat_completeness auto

termination by (relation "measure (\<lambda>(abortable, timeout, n, got, p). n)") auto

declare receive_loop.simps [simp del]

definition uart_receive :: "nat \<Rightarrow> bool \<Rightarrow> int \<Rightarrow> uart_port \<Rightarrow> ((int \<times> bytes) \<times> uart_port) outcome" where
  "uart_receive szRx abort_p timeout p = receive_loop abort_p timeout szRx [] p"

definition uart_send :: "bytes \<Rightarrow> uart_port \<Rightarrow> int \<times> uart_port" where
  "uart_send pbtTx p =
     (if writes_fail p \<noteq> [] \<and> hd (writes_fail p) then (NFC_EIO, p\<lparr>writes_fail := drop 1 (writes_fail p)\<rparr>)
      else (NFC_SUCCESS, p\<lparr>writes_fail := drop 1 (writes_fail p), sent := sent p @ [pbtTx]\<rparr>))"

definition uart_flush_input :: "uart_port \<Rightarrow> uart_port" where
  "uart_flush_input p = p\<lparr>avail := []\<rparr>"

section \<open>The driver\<close>

type_synonym 'a uart_op = "(uart_port, 'a) op"

definition on_port :: "(uart_port \<Rightarrow> uart_port) \<Rightarrow> uart_port nfc_device \<Rightarrow> uart_port nfc_device" where
  "on_port f dv = dv\<lparr>driver_data := f (driver_data dv)\<rparr>"

definition port_send :: "bytes \<Rightarrow> int uart_op" where
  "port_send bs dv = (let (res, p) = uart_send bs (driver_data dv) in Ret (res, dv\<lparr>driver_data := p\<rparr>))"

definition port_receive :: "nat \<Rightarrow> bool \<Rightarrow> int \<Rightarrow> (int \<times> bytes) uart_op" where
  "port_receive n abortable timeout dv =
     and_then (uart_receive n abortable timeout (driver_data dv)) (\<lambda>(r, p). Ret (r, dv\<lparr>driver_data := p\<rparr>))"

definition pn532_uart_wakeup :: "int uart_op" where
  "pn532_uart_wakeup dv =
     and_then (port_send [0x55, 0x55, 0x00, 0x00, 0x00] dv) (\<lambda>(res, dv).
       Ret (res, set_chip (\<lambda>c. c\<lparr>power_mode := NORMAL\<rparr>) dv))"

text \<open>\<open>io\<close> serves the one command that sending may send itself, after a wakeup.\<close>

definition wake_for_sending :: "uart_port pn53x_io \<Rightarrow> int uart_op" where
  "wake_for_sending io dv =
     (case power_mode (chip_data dv) of
        LOWVBAT \<Rightarrow>
          on_ok res_only (pn532_uart_wakeup dv) (\<lambda>_ dv.
          on_ok res_only (pn532_SAMConfiguration io PSM_NORMAL 1000 dv) (\<lambda>_ dv. Ret (NFC_SUCCESS, dv)))
      | POWERDOWN \<Rightarrow> on_ok res_only (pn532_uart_wakeup dv) (\<lambda>_ dv. Ret (NFC_SUCCESS, dv))
      | NORMAL \<Rightarrow> Ret (NFC_SUCCESS, dv))"

definition pn532_uart_send_with :: "uart_port pn53x_io \<Rightarrow> bytes \<Rightarrow> int \<Rightarrow> int uart_op" where
  "pn532_uart_send_with io pbtData timeout dv =
     on_ok res_only (wake_for_sending io (on_port uart_flush_input dv)) (\<lambda>_ dv.
       let (res, frame) = pn53x_build_frame pbtData in
       if res < 0 then fail_with res dv else
       and_then (port_send ([0x00, 0x00, 0xff] @ frame) dv) (\<lambda>(res, dv).
       if res \<noteq> 0 then fail_with res dv else
       and_then (port_receive 6 False timeout dv) (\<lambda>((res, abtRxBuf), dv).
       if res \<noteq> 0 then fail_with res dv
       else and_then (pn53x_check_ack_frame abtRxBuf dv) (\<lambda>(res, dv).
         Ret (if res = 0 then NFC_SUCCESS else last_error dv, dv)))))"

definition pn532_uart_ack :: "int uart_op" where
  "pn532_uart_ack dv =
     on_ok res_only (if power_mode (chip_data dv) = POWERDOWN then pn532_uart_wakeup dv else Ret (NFC_SUCCESS, dv)) (\<lambda>_ dv.
       port_send pn53x_ack_frame dv)"

text \<open>The label \<open>error\<close>.\<close>

definition receive_error :: "int \<Rightarrow> (int \<times> bytes) uart_op" where
  "receive_error e dv = Ret ((e, []), on_port uart_flush_input (dv\<lparr>last_error := e\<rparr>))"

text \<open>\<open>pnd->last_error = uart_receive (...); if (pnd->last_error != 0) goto error;\<close>\<close>

definition receive_or_fail :: "nat \<Rightarrow> int \<Rightarrow> (bytes \<Rightarrow> (int \<times> bytes) uart_op) \<Rightarrow> (int \<times> bytes) uart_op" where
  "receive_or_fail n timeout k dv =
     and_then (port_receive n False timeout dv) (\<lambda>((res, bs), dv).
       if res \<noteq> 0 then receive_error res dv else k bs (dv\<lparr>last_error := res\<rparr>))"

text \<open>From the length on: the code of the command, the data, the checksum.  A length below zero is a huge one.\<close>

definition receive_body :: "int \<Rightarrow> nat \<Rightarrow> int \<Rightarrow> (int \<times> bytes) uart_op" where
  "receive_body len szDataLen timeout dv =
     (if len < 0 \<or> len > int szDataLen then receive_error NFC_EIO dv else
      receive_or_fail 2 timeout (\<lambda>hdr dv.
        let code = uint (last_command (chip_data dv)) + 1 in
        if hdr ! 0 \<noteq> 0xD5 then receive_error NFC_EIO dv
        else if uint (hdr ! 1) \<noteq> code then receive_error NFC_EIO dv
        else (if len \<noteq> 0 then receive_or_fail (nat len) timeout else (\<lambda>k. k [])) (\<lambda>pbtData.
          receive_or_fail 2 timeout (\<lambda>trailer dv.
            if data_checksum 0xD5 (word_of_int code # pbtData) \<noteq> trailer ! 0 then receive_error NFC_EIO dv
            else if trailer ! 1 \<noteq> 0x00 then receive_error NFC_EIO dv
            else Ret ((len, pbtData), dv))) dv) dv)"

definition pn532_uart_receive :: "nat \<Rightarrow> int \<Rightarrow> (int \<times> bytes) uart_op" where
  "pn532_uart_receive szDataLen timeout dv =
     and_then (port_receive 5 True timeout dv) (\<lambda>((res, b), dv).
       let dv = dv\<lparr>last_error := res\<rparr> in
       if res = NFC_EOPABORTED then and_then (pn532_uart_ack dv) (\<lambda>(res, dv). Ret ((res, []), dv))
       else if res < 0 then receive_error res dv
       else if take 3 b \<noteq> [0x00, 0x00, 0xff] then receive_error NFC_EIO dv
       else if b ! 3 = 0x01 \<and> b ! 4 = 0xff then
         and_then (port_receive 3 False timeout dv) (\<lambda>(_, dv). receive_error NFC_EIO dv)
       else if b ! 3 = 0xff \<and> b ! 4 = 0xff then
         receive_or_fail 3 timeout (\<lambda>e dv.
           if (uint (e ! 0) + uint (e ! 1) + uint (e ! 2)) mod 256 \<noteq> 0 then receive_error NFC_EIO dv
           else receive_body (256 * uint (e ! 0) + uint (e ! 1) - 2) szDataLen timeout dv) dv
       else if uint (b ! 3) + uint (b ! 4) \<noteq> 256 then receive_error NFC_EIO dv
       else receive_body (uint (b ! 3) - 2) szDataLen timeout dv)"

text \<open>Sending may send one command itself, from \<open>LOWVBAT\<close> only; the power mode is \<open>NORMAL\<close> when it does.  The number
  bounds how deep this nests: at 0 the call has not returned.\<close>

fun pn532_uart_io_n :: "nat \<Rightarrow> uart_port pn53x_io" where
  "pn532_uart_io_n 0 = \<lparr>io_send = (\<lambda>_ _ _. Blocks), io_receive = pn532_uart_receive\<rparr>"
| "pn532_uart_io_n (Suc n) = \<lparr>io_send = pn532_uart_send_with (pn532_uart_io_n n), io_receive = pn532_uart_receive\<rparr>"

definition pn532_uart_io :: "uart_port pn53x_io" where
  "pn532_uart_io = pn532_uart_io_n 2"

definition pn532_uart_send :: "bytes \<Rightarrow> int \<Rightarrow> int uart_op" where
  "pn532_uart_send = io_send pn532_uart_io"

text \<open>The end of \<open>pn532_uart_open\<close>, from the new device on: the port has been opened, and is closed where nothing is returned.\<close>

definition pn532_uart_open :: "pn53x_data \<Rightarrow> uart_port nfc_device \<Rightarrow> uart_port \<Rightarrow> uart_port nfc_device option outcome" where
  "pn532_uart_open fresh_chip fresh_device port =
     (let dv = (nfc_device_new fresh_device)\<lparr>driver_data := uart_flush_input port\<rparr>;
          dv = set_chip (\<lambda>c. c\<lparr>ch_type := PN532, power_mode := LOWVBAT, timer_correction := 48\<rparr>) (pn53x_data_new fresh_chip dv) in
      and_then (pn53x_check_communication pn532_uart_io dv) (\<lambda>(res, dv).
        if res < 0 then Ret None
        else and_then (pn53x_init pn532_uart_io dv) (\<lambda>(_, dv). Ret (Some dv))))"

section \<open>Reading an answer\<close>

definition arrivals :: "line_event list \<Rightarrow> bool" where
  "arrivals ev \<longleftrightarrow> list_all (\<lambda>e. \<exists>bs. e = Arrived bs) ev"

fun arriving :: "line_event list \<Rightarrow> bytes" where
  "arriving [] = []"
| "arriving (Arrived bs # ev) = bs @ arriving ev"
| "arriving (_ # ev) = arriving ev"

text \<open>The line brings the bytes \<open>s\<close>, in whatever pieces, and nothing happens on it but that.\<close>

definition brings :: "uart_port \<Rightarrow> bytes \<Rightarrow> bool" where
  "brings p s \<longleftrightarrow> arrivals (script p) \<and> s = avail p @ arriving (script p)"

lemma wait_arrivals:
  assumes "arrivals ev" "arriving ev \<noteq> []"
  shows "\<exists>bs ev'. uart_wait ab t ev = Ret (None, bs, ev') \<and> bs \<noteq> [] \<and> arrivals ev' \<and> arriving ev = bs @ arriving ev'"
  using assms by (induction ab t ev rule: uart_wait.induct) (auto simp: arrivals_def)

lemma select_arrivals:
  assumes "brings p s" "s \<noteq> []" "0 \<le> t"
  shows "\<exists>p'. uart_select ab t p = Ret (None, p') \<and> brings p' s \<and> avail p' \<noteq> []"
proof (cases "avail p = []")
  case True
  then have "arrivals (script p)" "arriving (script p) \<noteq> []" using assms by (simp_all add: brings_def)
  from wait_arrivals [OF this, of ab t] obtain bs ev' where
    "uart_wait ab t (script p) = Ret (None, bs, ev')" "bs \<noteq> []" "arrivals ev'" "arriving (script p) = bs @ arriving ev'" by blast
  then show ?thesis using assms(1,3) True by (simp add: uart_select_def brings_def)
qed (use assms in \<open>simp add: uart_select_def\<close>)

lemma receive_loop_brings:
  assumes "brings p (a @ s)" "a \<noteq> []" "0 \<le> t"
  shows "\<exists>p'. receive_loop ab t (length a) got p = Ret ((NFC_SUCCESS, got @ a), p') \<and> brings p' s"
  using assms
proof (induction "length a" arbitrary: a got p rule: less_induct)
  case less
  from select_arrivals [OF less.prems(1) _ less.prems(3), of ab] less.prems(2) obtain p1 where
    p1: "uart_select ab t p = Ret (None, p1)" "brings p1 (a @ s)" "avail p1 \<noteq> []" by auto
  have split: "a @ s = avail p1 @ arriving (script p1)" using p1(2) by (simp add: brings_def)
  define k where "k = min (length (avail p1)) (length a)"
  have take: "take k (avail p1) = take k a" and le: "k \<le> length a"
    using arg_cong [OF split, of "take k"] by (simp_all add: k_def)
  have k: "k \<noteq> 0" using p1(3) less.prems(2) by (simp add: k_def)
  have rest: "brings (p1\<lparr>avail := drop k (avail p1)\<rparr>) (drop k a @ s)"
  proof -
    have "drop k a @ s = drop k (avail p1) @ arriving (script p1)" using arg_cong [OF split, of "drop k"] by (simp add: k_def)
    then show ?thesis using p1(2) by (simp add: brings_def)
  qed
  have step: "receive_loop ab t (length a) got p =
      (if length a > k then receive_loop ab t (length a - k) (got @ take k a) (p1\<lparr>avail := drop k (avail p1)\<rparr>)
       else Ret ((NFC_SUCCESS, got @ take k a), p1\<lparr>avail := drop k (avail p1)\<rparr>))"
    by (subst receive_loop.simps)
       (simp only: p1(1) and_then.simps prod.case option.case Let_def k_def [symmetric] take k if_False)
  show ?case
  proof (cases "length a > k")
    case True
    have "length (drop k a) < length a" "drop k a \<noteq> []" using k True by auto
    from less.hyps [OF this(1) rest this(2) less.prems(3), of "got @ take k a"] show ?thesis
      unfolding step if_P [OF True] by (simp only: length_drop append.assoc append_take_drop_id)
  next
    case False
    then have "k = length a" using le by simp
    then show ?thesis unfolding step if_not_P [OF False] using rest by auto
  qed
qed

lemma port_receive_brings:
  assumes "brings (driver_data dv) (a @ s)" "a \<noteq> []" "0 \<le> t" "n = length a"
  shows "\<exists>p. port_receive n ab t dv = Ret ((NFC_SUCCESS, a), dv\<lparr>driver_data := p\<rparr>) \<and> brings p s"
  using receive_loop_brings [OF assms(1-3), of ab "[]"] assms(4) by (auto simp: port_receive_def uart_receive_def)

lemma receive_or_fail_brings:
  assumes "brings (driver_data dv) (a @ s)" "a \<noteq> []" "0 \<le> t" "n = length a"
  shows "\<exists>p. (\<forall>k. receive_or_fail n t k dv = k a (dv\<lparr>driver_data := p, last_error := 0\<rparr>)) \<and> brings p s"
  using port_receive_brings [OF assms, of False] by (auto simp: receive_or_fail_def NFC_SUCCESS_def)

lemma data_checksum_sum: "data_checksum tfi bs = - (tfi + sum_list bs)"
proof -
  have "foldl (\<lambda>x b. x - b) c bs = c - sum_list bs" for c :: byte by (induction bs arbitrary: c) (simp_all add: algebra_simps)
  then show ?thesis by (simp add: data_checksum_def)
qed

text \<open>The frame the chip answers with, as its manual has it: the sums of the length and of the body come to zero.\<close>

definition answer_frame :: "byte \<Rightarrow> bytes \<Rightarrow> bytes" where
  "answer_frame cmd pbtData =
     (let n = length pbtData + 2; m = word_of_nat (n div 256); l = word_of_nat (n mod 256); code = cmd + 1 in
      [0x00, 0x00, 0xff] @
      (if n < 256 then [l, - l] else [0xff, 0xff, m, l, - (m + l)]) @
      [0xD5, code] @ pbtData @ [- (0xD5 + code + sum_list pbtData), 0x00])"

lemma receive_body_brings:
  assumes "brings (driver_data dv) ([0xD5, cmd + 1] @ pbtData @ [- (0xD5 + (cmd + 1) + sum_list pbtData), 0x00] @ s)"
    and "last_command (chip_data dv) = cmd" "cmd \<noteq> 0xff" "length pbtData \<le> szDataLen" "0 \<le> t"
  shows "\<exists>p. receive_body (int (length pbtData)) szDataLen t dv = Ret ((int (length pbtData), pbtData), dv\<lparr>driver_data := p, last_error := 0\<rparr>) \<and>
    brings p s"
proof -
  let ?tr = "[- (0xD5 + (cmd + 1) + sum_list pbtData), 0x00]"
  have code: "uint (cmd + 1) = uint cmd + 1"
  proof -
    have "uint cmd \<noteq> uint (0xff :: byte)" using assms(3) by (simp only: word_uint_eq_iff not_False_eq_True)
    moreover have "uint cmd < 256" using uint_lt2p [of cmd] by simp
    ultimately show ?thesis by (simp add: uint_word_ariths)
  qed
  from receive_or_fail_brings [OF assms(1) _ assms(5), of 2] obtain p1 where
    p1: "\<And>k. receive_or_fail 2 t k dv = k [0xD5, cmd + 1] (dv\<lparr>driver_data := p1, last_error := 0\<rparr>)" "brings p1 (pbtData @ ?tr @ s)" by auto
  define dv1 where "dv1 = dv\<lparr>driver_data := p1, last_error := 0\<rparr>"
  have ends: "\<exists>p. receive_or_fail 2 t (\<lambda>trailer dv.
            if data_checksum 0xD5 (word_of_int (uint cmd + 1) # pbtData) \<noteq> trailer ! 0 then receive_error NFC_EIO dv
            else if trailer ! 1 \<noteq> 0x00 then receive_error NFC_EIO dv
            else Ret ((int (length pbtData), pbtData), dv)) (dv\<lparr>driver_data := p2, last_error := 0\<rparr>) =
        Ret ((int (length pbtData), pbtData), dv\<lparr>driver_data := p, last_error := 0\<rparr>) \<and> brings p s"
    if "brings p2 (?tr @ s)" for p2
    using receive_or_fail_brings [of "dv\<lparr>driver_data := p2, last_error := 0\<rparr>" ?tr s t 2] that assms(5)
    by (auto simp: data_checksum_sum algebra_simps)
  show ?thesis
  proof (cases "pbtData = []")
    case True
    then show ?thesis
      using p1 ends [of p1] assms(2,4) code by (simp add: receive_body_def Let_def cong: if_cong)
  next
    case False
    from receive_or_fail_brings [of dv1 pbtData "?tr @ s" t] p1(2) False assms(5) obtain p2 where
      "\<And>k. receive_or_fail (length pbtData) t k dv1 = k pbtData (dv\<lparr>driver_data := p2, last_error := 0\<rparr>)" "brings p2 (?tr @ s)"
      by (auto simp: dv1_def)
    then show ?thesis
      using p1 ends [of p2] assms(2,4) code False by (simp add: receive_body_def Let_def dv1_def)
  qed
qed

lemma byte_sum: "a \<noteq> 0 \<Longrightarrow> uint (a :: byte) + uint (- a) = 256"
proof -
  have "uint a < 256" "0 \<le> uint a" using uint_lt2p [of a] by simp_all
  moreover assume "a \<noteq> 0"
  then have "uint a \<noteq> 0" by (simp add: uint_0_iff)
  ultimately show ?thesis by (simp add: uint_word_ariths zmod_zminus1_eq_if)
qed

lemma bytes_sum: "(uint (m :: byte) + uint l + uint (- (m + l))) mod 256 = 0"
proof -
  have "uint (- (m + l)) = (- (uint m + uint l)) mod 256" by (simp add: uint_word_ariths mod_minus_eq mod_diff_left_eq)
  then have "(uint m + uint l + uint (- (m + l))) mod 256 = (uint m + uint l + - (uint m + uint l)) mod 256"
    by (simp only: mod_add_right_eq)
  then show ?thesis by simp
qed

lemma answer_frame_cases:
  fixes pbtData :: bytes
  defines "n \<equiv> length pbtData + 2"
  defines "l \<equiv> word_of_nat (n mod 256) :: byte" and "m \<equiv> word_of_nat (n div 256) :: byte"
  shows "answer_frame cmd pbtData = (if n < 256 then [0x00, 0x00, 0xff, l, - l] else [0x00, 0x00, 0xff, 0xff, 0xff, m, l, - (m + l)]) @
    [0xD5, cmd + 1] @ pbtData @ [- (0xD5 + (cmd + 1) + sum_list pbtData), 0x00]"
  unfolding answer_frame_def n_def l_def m_def Let_def by simp

lemma short_header:
  assumes "port_receive 5 True timeout dv = Ret ((NFC_SUCCESS, [0x00, 0x00, 0xff, l, k]), dv')"
    and "uint l + uint k = 256" "uint l \<noteq> 1"
  shows "pn532_uart_receive szDataLen timeout dv = receive_body (uint l - 2) szDataLen timeout (dv'\<lparr>last_error := 0\<rparr>)"
proof -
  have "l \<noteq> 0x01" using assms(3) by (metis uint_1)
  moreover have "\<not> (l = 0xff \<and> k = 0xff)" using assms(2) by auto
  ultimately show ?thesis using assms(1,2) by (simp add: pn532_uart_receive_def nfc_errors Let_def) blast
qed

lemma extended_header:
  assumes "port_receive 5 True timeout dv = Ret ((NFC_SUCCESS, [0x00, 0x00, 0xff, 0xff, 0xff]), dv')"
  shows "pn532_uart_receive szDataLen timeout dv =
    receive_or_fail 3 timeout (\<lambda>e dv.
           if (uint (e ! 0) + uint (e ! 1) + uint (e ! 2)) mod 256 \<noteq> 0 then receive_error NFC_EIO dv
           else receive_body (256 * uint (e ! 0) + uint (e ! 1) - 2) szDataLen timeout dv) (dv'\<lparr>last_error := 0\<rparr>)"
  using assms by (simp add: pn532_uart_receive_def nfc_errors Let_def)

text \<open>C27. An answer of the chip, up to as many bytes as there is room for, in whatever pieces it comes over the line and
  whatever comes behind it, is read as its data, and what came behind is left on the line: both kinds of frame, the
  short and the extended one, with the checks of preamble, length, direction, command and checksum.\<close>
theorem answer_received:
  assumes "brings (driver_data dv) (answer_frame cmd pbtData @ s)" "last_command (chip_data dv) = cmd" "cmd \<noteq> 0xff"
    and "length pbtData \<le> szDataLen" "length pbtData < 65534" "0 \<le> timeout"
  shows "\<exists>p. pn532_uart_receive szDataLen timeout dv =
      Ret ((int (length pbtData), pbtData), dv\<lparr>driver_data := p, last_error := 0\<rparr>) \<and> brings p s"
proof -
  define n where "n = length pbtData + 2"
  let ?l = "word_of_nat (n mod 256) :: byte" and ?m = "word_of_nat (n div 256) :: byte"
  let ?body = "[0xD5, cmd + 1] @ pbtData @ [- (0xD5 + (cmd + 1) + sum_list pbtData), 0x00]"
  have lm: "unat ?l = n mod 256" "unat ?m = n div 256" using assms(5) by (simp_all add: unat_byte n_def)
  note frame = assms(1) [unfolded answer_frame_cases, folded n_def]
  show ?thesis
  proof (cases "n < 256")
    case True
    have l: "?l \<noteq> 0" "uint ?l = int n" using lm True by (auto simp: n_def uint_nat)
    have "brings (driver_data dv) ([0x00, 0x00, 0xff, ?l, - ?l] @ ?body @ s)" using frame unfolding if_P [OF True] by simp
    from port_receive_brings [OF this _ assms(6), of 5 True] obtain p1 where
      p1: "port_receive 5 True timeout dv = Ret ((NFC_SUCCESS, [0x00, 0x00, 0xff, ?l, - ?l]), dv\<lparr>driver_data := p1\<rparr>)"
        "brings p1 (?body @ s)" by auto
    have sum: "uint ?l + uint (- ?l) = 256" by (rule byte_sum [OF l(1)])
    have "uint ?l \<noteq> 1" using l(2) by (simp add: n_def)
    have "pn532_uart_receive szDataLen timeout dv =
        receive_body (int (length pbtData)) szDataLen timeout (dv\<lparr>driver_data := p1, last_error := 0\<rparr>)"
      using short_header [OF p1(1) sum \<open>uint ?l \<noteq> 1\<close>] l(2) by (simp add: n_def)
    then show ?thesis
      using receive_body_brings [of "dv\<lparr>driver_data := p1, last_error := 0\<rparr>" cmd pbtData s szDataLen timeout] p1(2) assms(2-4,6)
      by simp
  next
    case False
    let ?e = "[?m, ?l, - (?m + ?l)]"
    have "brings (driver_data dv) ([0x00, 0x00, 0xff, 0xff, 0xff] @ ?e @ ?body @ s)" using frame unfolding if_not_P [OF False] by simp
    from port_receive_brings [OF this _ assms(6), of 5 True] obtain p1 where
      p1: "port_receive 5 True timeout dv = Ret ((NFC_SUCCESS, [0x00, 0x00, 0xff, 0xff, 0xff]), dv\<lparr>driver_data := p1\<rparr>)"
        "brings p1 (?e @ ?body @ s)" by auto
    from receive_or_fail_brings [of "dv\<lparr>driver_data := p1, last_error := 0\<rparr>" ?e "?body @ s" timeout 3] p1(2) assms(6) obtain p2 where
      p2: "\<forall>k. receive_or_fail 3 timeout k (dv\<lparr>driver_data := p1, last_error := 0\<rparr>) = k ?e (dv\<lparr>driver_data := p2, last_error := 0\<rparr>)"
        "brings p2 (?body @ s)" by auto
    have "256 * uint ?m + uint ?l = int (256 * (n div 256) + n mod 256)" unfolding uint_nat lm by (simp only: of_nat_add of_nat_mult of_nat_numeral)
    then have "256 * uint ?m + uint ?l = int n" by (simp only: mult_div_mod_eq)
    then have len: "256 * uint ?m + uint ?l - 2 = int (length pbtData)" by (simp add: n_def)
    have "pn532_uart_receive szDataLen timeout dv =
        receive_body (int (length pbtData)) szDataLen timeout (dv\<lparr>driver_data := p2, last_error := 0\<rparr>)"
      unfolding extended_header [OF p1(1)] using p2(1) bytes_sum [of ?m ?l] len by simp
    then show ?thesis
      using receive_body_brings [of "dv\<lparr>driver_data := p2, last_error := 0\<rparr>" cmd pbtData s szDataLen timeout] p2(2) assms(2-4,6)
      by simp
  qed
qed

definition port_with :: "line_event list \<Rightarrow> uart_port" where
  "port_with ev = \<lparr>avail = [], script = ev, writes_fail = [], sent = []\<rparr>"

lemma answer_received_witness:
  "\<exists>p. pn532_uart_receive 4 100 (set_chip (\<lambda>c. c\<lparr>last_command := GetFirmwareVersion\<rparr>)
         (blank_device (port_with [Arrived [0x00, 0x00, 0xff, 0x06], Arrived [0xfa, 0xd5, 0x03, 0x32, 0x01, 0x06, 0x07, 0xe8], Arrived [0x00, 0x55]]))) =
       Ret ((4, [0x32, 0x01, 0x06, 0x07]), set_chip (\<lambda>c. c\<lparr>last_command := GetFirmwareVersion\<rparr>) (blank_device p)) \<and> brings p [0x55]"
proof -
  let ?p = "port_with [Arrived [0x00, 0x00, 0xff, 0x06], Arrived [0xfa, 0xd5, 0x03, 0x32, 0x01, 0x06, 0x07, 0xe8], Arrived [0x00, 0x55]]"
  let ?dv = "set_chip (\<lambda>c. c\<lparr>last_command := GetFirmwareVersion\<rparr>) (blank_device ?p)"
  have "brings (driver_data ?dv) (answer_frame GetFirmwareVersion [0x32, 0x01, 0x06, 0x07] @ [0x55])"
    by (simp add: brings_def arrivals_def answer_frame_def blank_device_def pn53x_data_new_def nfc_device_new_def port_with_def Let_def)
  from answer_received [OF this, of 4 100] show ?thesis
    by (auto simp: blank_device_def pn53x_data_new_def nfc_device_new_def set_chip_def)
qed

end
