(* ===== verification/Uart_Returns.thy ===== *)
theory Uart_Returns
  imports Pn532_Uart
begin

text \<open>
  An exchange over the serial line comes to an end: whatever happens on the line, with timeouts set a command and the
  commands it draws after it - the registers written back, the chip woken up - come to an end, and they return unless
  the library looks at a byte of the answer that is missing, or ends the process because of one.  The locale says what an
  exchange needs of a driver and of the state of the device; it holds of the serial driver on both levels of its nesting.
\<close>

section \<open>Ends of a run\<close>

text \<open>A run that does not wait for ever, fails only if \<open>F\<close>, and when it returns leaves what \<open>q\<close> says of the chip.\<close>

definition ends :: "bool \<Rightarrow> (pn53x_data \<Rightarrow> bool) \<Rightarrow> ('a \<times> 's nfc_device) outcome \<Rightarrow> bool" where
  "ends F q m \<longleftrightarrow> m \<noteq> Blocks \<and> (m = Aborts \<or> m = Undefined \<longrightarrow> F) \<and> (\<forall>r dv. m = Ret (r, dv) \<longrightarrow> q (chip_data dv))"

named_theorems ends_intros "how runs that end are put together"

lemma ends_Ret [ends_intros]: "q (chip_data dv) \<Longrightarrow> ends F q (Ret (r, dv))"
  by (simp add: ends_def)

lemma ends_Undefined [ends_intros]: "F \<Longrightarrow> ends F q Undefined"
  by (simp add: ends_def)

lemma ends_and_then: "ends F q m \<Longrightarrow> (\<And>r dv. q (chip_data dv) \<Longrightarrow> ends F q' (k (r, dv))) \<Longrightarrow> ends F q' (and_then m k)"
  by (cases m) (auto simp: ends_def)

lemma ends_weaken: "ends False q m \<Longrightarrow> ends F q m"
  by (simp add: ends_def)

lemma ends_returns: "ends False q m \<Longrightarrow> \<exists>r dv. m = Ret (r, dv) \<and> q (chip_data dv)"
  by (cases m) (auto simp: ends_def)

lemma ends_pure: "m \<noteq> Blocks \<Longrightarrow> (m = Aborts \<or> m = Undefined \<Longrightarrow> F) \<Longrightarrow> (\<And>x. ends F q (k x)) \<Longrightarrow> ends F q (and_then m k)"
  by (cases m) (auto simp: ends_def)

lemma ends_on_ok:
  "ends F q m \<Longrightarrow> (\<And>c. q c \<Longrightarrow> q' c) \<Longrightarrow> (\<And>res dv. q (chip_data dv) \<Longrightarrow> ends F q' (k res dv)) \<Longrightarrow>
     ends F q' (on_ok err m k)"
  unfolding on_ok_def by (cases m) (auto simp: ends_def split: if_splits)

lemma ends_on_rx:
  "ends F q m \<Longrightarrow> (\<And>c. q c \<Longrightarrow> q' c) \<Longrightarrow> (\<And>res rx dv. q (chip_data dv) \<Longrightarrow> ends F q' (k res rx dv)) \<Longrightarrow>
     ends F q' (on_rx err m k)"
  unfolding on_rx_def by (cases m) (auto simp: ends_def split: if_splits)

lemma ends_rx_dropped: "ends F q m \<Longrightarrow> ends F q (rx_dropped m)"
  unfolding rx_dropped_def by (cases m) (auto simp: ends_def)

lemma byte_at_ends [simp]: "byte_at bs i \<noteq> Blocks"
  by (simp add: byte_at_def)

text \<open>The answers the library looks at, and those it can take: not empty, and with neither of the two bits of the
  status byte at which the process ends.\<close>

definition answer_looked_at :: "pn53x_type \<Rightarrow> bytes \<Rightarrow> bool" where
  "answer_looked_at type tx \<longleftrightarrow>
     tx ! 0 \<in> set status_commands \<or> tx ! 0 = Diagnose \<and> (length tx < 2 \<or> tx ! 1 = 0x06) \<or>
     (tx ! 0 = InDeselect \<or> tx ! 0 = InRelease) \<and> type \<noteq> RCS360 \<or>
     (tx ! 0 = ReadRegister \<or> tx ! 0 = WriteRegister) \<and> type = PN533"

definition answer_taken :: "pn53x_type \<Rightarrow> bytes \<Rightarrow> bytes \<Rightarrow> bool" where
  "answer_taken type tx rx \<longleftrightarrow>
     (answer_looked_at type tx \<longrightarrow> rx \<noteq> [] \<and> (tx ! 0 = Diagnose \<longrightarrow> 2 \<le> length tx)) \<and>
     (tx ! 0 \<in> set status_commands \<longrightarrow> rx ! 0 AND 0x80 = 0 \<and> rx ! 0 AND 0x40 = 0)"

lemma status_of_answer_ends: "status_of_answer type tx rx \<noteq> Blocks"
  by (auto simp: status_of_answer_def Let_def byte_at_def)

lemma status_of_answer_taken: "(\<exists>b. status_of_answer type tx rx = Ret b) \<longleftrightarrow> answer_taken type tx rx"
proof -
  have d: "Diagnose \<notin> set status_commands" "InDeselect \<notin> set status_commands" "InRelease \<notin> set status_commands"
    "ReadRegister \<notin> set status_commands" "WriteRegister \<notin> set status_commands"
    by (simp_all add: status_commands_def)
  show ?thesis
  proof (cases "tx ! 0 \<in> set status_commands")
    case True
    then show ?thesis using d
      by (cases rx) (auto simp: status_of_answer_def answer_taken_def answer_looked_at_def byte_at_def Let_def)
  next
    case False
    then show ?thesis
      by (cases rx) (auto simp: status_of_answer_def answer_taken_def answer_looked_at_def byte_at_def Let_def)
  qed
qed

lemma status_unlooked: "\<not> answer_looked_at type tx \<Longrightarrow> status_of_answer type tx rx = Ret 0"
  by (auto simp: status_of_answer_def answer_looked_at_def byte_at_def Let_def)

lemma merge_answer_ends: "merge_answer rx ns i w \<noteq> Blocks"
  by (induction rx ns i w rule: merge_answer.induct) (auto simp: byte_at_def Let_def)

section \<open>Drivers that come back\<close>

text \<open>What matters of the chip's data: the commands are timed, and no registers wait to be written back.\<close>

definition timed_and_quiet :: "pn53x_data \<Rightarrow> bool" where
  "timed_and_quiet c \<longleftrightarrow> 0 < timeout_command c \<and> \<not> wb_trigged c"

text \<open>Registers of which some bits only are to be written are read first and their values are looked at; the PN533 puts a
  status byte in front of every answer about registers.\<close>

definition reads_back :: "pn53x_data \<Rightarrow> bool" where
  "reads_back c \<longleftrightarrow> reads_needed (wb_mask c) cache_places \<noteq> [] \<or> ch_type c = PN533"

locale returning_driver =
  fixes io :: "'s pn53x_io" and q :: "pn53x_data \<Rightarrow> bool" and type :: pn53x_type
  assumes send: "q (chip_data dv) \<Longrightarrow> 0 < t \<Longrightarrow> ends False q (io_send io tx t dv)"
    and receive: "q (chip_data dv) \<Longrightarrow> 0 < t \<Longrightarrow> ends False q (io_receive io n t dv)"
    and timed: "q c \<Longrightarrow> timed_and_quiet c"
    and typed: "q c \<Longrightarrow> ch_type c = type"
    and frame: "q c \<Longrightarrow> timeout_command c' = timeout_command c \<Longrightarrow> wb_trigged c' = wb_trigged c \<Longrightarrow>
      power_mode c' = power_mode c \<Longrightarrow> ch_type c' = ch_type c \<Longrightarrow> q c'"
begin

text \<open>The power mode may be changed at will, or the command is not the one that changes it.\<close>

definition power_kept :: "bytes \<Rightarrow> bool" where
  "power_kept tx \<longleftrightarrow> tx ! 0 \<noteq> TgInitAsTarget \<or> (\<forall>c md. q c \<longrightarrow> q (c\<lparr>power_mode := md\<rparr>))"

lemma sets_power_mode_keeps: "power_kept tx \<Longrightarrow> q (chip_data dv) \<Longrightarrow> q (chip_data (sets_power_mode tx md dv))"
  by (auto simp: power_kept_def sets_power_mode_def)

lemma others:
  "q c \<Longrightarrow> q (c\<lparr>last_command := b\<rparr>)" "q c \<Longrightarrow> q (c\<lparr>last_status_byte := b\<rparr>)" "q c \<Longrightarrow> q (c\<lparr>current_target := tg\<rparr>)"
  "q c \<Longrightarrow> q (c\<lparr>wb_data := l\<rparr>)" "q c \<Longrightarrow> q (c\<lparr>wb_mask := m\<rparr>)" "q c \<Longrightarrow> q (c\<lparr>sam_mode := sm\<rparr>)"
  "q (chip_data dv) \<Longrightarrow> q (chip_data (pn53x_current_target_free dv))"
  by (erule frame, simp_all add: pn53x_current_target_free_def)+

lemma exchange_ends:
  assumes "q (chip_data dv)" "t = - 1 \<or> 0 < t" "power_kept tx" "tx = [] \<or> answer_looked_at type tx \<Longrightarrow> F"
  shows "ends F q (transceive_now io tx n t dv)"
proof -
  have t: "0 < (if t = - 1 then timeout_command (chip_data dv) else t)" using assms(2) timed [OF assms(1)] by (auto simp: timed_and_quiet_def)
  show ?thesis
    unfolding transceive_now_def Let_def
    apply (cases "tx = []")
     apply (simp add: ends_Undefined assms(4))
    apply (simp only: if_False)
    apply (rule ends_on_ok [OF ends_weaken [OF send [OF assms(1) t]]], assumption)
    apply (rule ends_on_rx [OF ends_weaken [OF receive [OF sets_power_mode_keeps [OF assms(3)] t]]])
      apply (simp add: others)
     apply assumption
    apply (rule ends_pure [OF status_of_answer_ends])
     apply (use status_unlooked typed assms(4) in fastforce)
    apply (rule ends_Ret)
    apply (auto intro!: others sets_power_mode_keeps [OF assms(3)])
    done
qed

lemma quiet_exchange_ends:
  "q (chip_data dv) \<Longrightarrow> t = - 1 \<or> 0 < t \<Longrightarrow> power_kept tx \<Longrightarrow> (tx = [] \<or> answer_looked_at type tx \<Longrightarrow> F) \<Longrightarrow>
     ends F q (pn53x_transceive_n (Suc k) io tx n t dv)"
  using exchange_ends [of dv t tx F n] timed [of "chip_data dv"] by (simp add: timed_and_quiet_def)

lemma writeback_ends:
  assumes "q ((chip_data dv)\<lparr>wb_trigged := False\<rparr>)" "reads_back (chip_data dv) \<Longrightarrow> F"
  shows "ends F q (writeback_with (pn53x_transceive_n (Suc k) io) dv)"
proof -
  have kept: "power_kept (ReadRegister # tx)" "power_kept (WriteRegister # tx)" for tx by (simp_all add: power_kept_def)
  have looked: "answer_looked_at type (ReadRegister # tx) \<Longrightarrow> type = PN533" "answer_looked_at type (WriteRegister # tx) \<Longrightarrow> type = PN533"
    for tx by (auto simp: answer_looked_at_def status_commands_def)
  have pn533: "type = PN533 \<Longrightarrow> F" using assms(2) typed [OF assms(1)] by (simp add: reads_back_def)
  have "ends F q (writeback_reads (pn53x_transceive_n (Suc k) io) dv1)" if "q (chip_data dv1)" "wb_mask (chip_data dv1) = wb_mask (chip_data dv)" for dv1
  proof (cases "reads_needed (wb_mask (chip_data dv1)) cache_places = []")
    case True
    then show ?thesis using that by (simp add: writeback_reads_def ends_Ret)
  next
    case False
    then have F using assms(2) that(2) by (simp add: reads_back_def)
    then show ?thesis
      unfolding writeback_reads_def Let_def
      by (auto intro!: ends_Ret ends_on_rx [OF quiet_exchange_ends [OF that(1) _ kept(1)]] ends_pure [OF merge_answer_ends] others that(1)
          simp del: pn53x_transceive_n.simps)
  qed
  moreover have "ends F q (writeback_writes (pn53x_transceive_n (Suc k) io) dv1)" if "q (chip_data dv1)" for dv1
    unfolding writeback_writes_def Let_def
    by (auto intro!: ends_Ret ends_on_rx [OF quiet_exchange_ends [OF _ _ kept(2)]] others that
        dest!: looked(2) pn533 simp del: pn53x_transceive_n.simps split: prod.splits)
  ultimately show ?thesis using assms unfolding writeback_with_def by (intro ends_on_ok [where q = q]) simp_all
qed

lemma transceive_ends:
  assumes "q ((chip_data dv)\<lparr>wb_trigged := False\<rparr>)" "t = - 1 \<or> 0 < t" "power_kept tx"
    and "tx = [] \<or> answer_looked_at type tx \<or> wb_trigged (chip_data dv) \<and> reads_back (chip_data dv) \<Longrightarrow> F"
  shows "ends F q (pn53x_transceive io tx n t dv)"
proof (cases "wb_trigged (chip_data dv)")
  case True
  have "ends F q (on_ok res_none (writeback_with (pn53x_transceive_n (Suc 0) io) dv) (\<lambda>_ dv. transceive_now io tx n t dv))"
    by (rule ends_on_ok [OF writeback_ends [OF assms(1)]]) (auto intro: exchange_ends [OF _ assms(2,3)] simp: True assms(4))
  then show ?thesis using True by (simp add: pn53x_transceive_def numeral_2_eq_2 del: pn53x_transceive_n.simps(1))
next
  case False
  then have "q (chip_data dv)" by (intro frame [OF assms(1)]) simp_all
  from exchange_ends [OF this assms(2,3), of F] assms(4) show ?thesis
    using False by (simp add: pn53x_transceive_def numeral_2_eq_2)
qed

lemma wakeup_command_ends:
  assumes "q (chip_data dv)"
  shows "ends False q (pn532_SAMConfiguration io PSM_NORMAL 1000 dv)"
proof -
  have "q ((chip_data dv)\<lparr>sam_mode := PSM_NORMAL, wb_trigged := False\<rparr>)" "\<not> wb_trigged (chip_data dv)"
    using timed [OF assms] by (auto intro: frame [OF assms] simp: timed_and_quiet_def)
  moreover have "\<not> answer_looked_at type [SAMConfiguration, b]" for b
    by (auto simp: answer_looked_at_def status_commands_def)
  ultimately show ?thesis
    using assms by (auto simp: pn532_SAMConfiguration_def command_def power_kept_def fail_with_def
        intro!: ends_rx_dropped transceive_ends ends_Ret)
qed

end

section \<open>The serial driver\<close>

lemma uart_wait_ends: "t \<noteq> 0 \<Longrightarrow> \<exists>r. uart_wait ab t ev = Ret r"
  by (induction ab t ev rule: uart_wait.induct) auto

lemma receive_loop_ends: "0 < t \<Longrightarrow> \<exists>r. receive_loop ab t n got p = Ret r"
proof (induction n arbitrary: got p rule: less_induct)
  case (less n)
  have "\<exists>r. uart_select ab t p = Ret r" using uart_wait_ends [of t ab "script p"] less.prems by (auto simp: uart_select_def)
  then obtain r p1 where r: "uart_select ab t p = Ret (r, p1)" by auto
  show ?case
  proof (cases "r = None \<and> min (length (avail p1)) n \<noteq> 0 \<and> min (length (avail p1)) n < n")
    case True
    then have "n - min (length (avail p1)) n < n" by linarith
    from less.IH [OF this less.prems] show ?thesis using True r by (subst receive_loop.simps) (auto simp: Let_def)
  next
    case False
    then show ?thesis using r by (subst receive_loop.simps) (auto simp: Let_def split: option.splits)
  qed
qed

lemma port_receive_ends: "q (chip_data dv) \<Longrightarrow> 0 < t \<Longrightarrow> ends False q (port_receive n ab t dv)"
  using receive_loop_ends [of t ab n "[]" "driver_data dv"] by (auto simp: port_receive_def uart_receive_def ends_def)

lemma port_send_ends: "q (chip_data dv) \<Longrightarrow> ends False q (port_send bs dv)"
  by (auto simp: port_send_def ends_def split: prod.splits)

lemma wakeup_ends: "q ((chip_data dv)\<lparr>power_mode := NORMAL\<rparr>) \<Longrightarrow> ends False q (pn532_uart_wakeup dv)"
  unfolding pn532_uart_wakeup_def by (rule ends_and_then [OF port_send_ends [of "\<lambda>c. q (c\<lparr>power_mode := NORMAL\<rparr>)"]]) (auto intro: ends_Ret)

lemma receive_error_ends: "q (chip_data dv) \<Longrightarrow> ends False q (receive_error e dv)"
  by (simp add: receive_error_def on_port_def ends_def)

lemma receive_or_fail_ends:
  assumes "q (chip_data dv)" "0 < t" "\<And>bs dv. q (chip_data dv) \<Longrightarrow> ends False q (k bs dv)"
  shows "ends False q (receive_or_fail n t k dv)"
  unfolding receive_or_fail_def
  by (rule ends_and_then [OF port_receive_ends [where q = q, OF assms(1,2)]]) (simp add: receive_error_ends assms(3) split_beta)

lemma receive_body_ends:
  assumes "q (chip_data dv)" "0 < t"
  shows "ends False q (receive_body len sz t dv)"
proof -
  have end_if: "ends False q (if b then receive_error NFC_EIO dv else m)" if "q (chip_data dv)" "ends False q m"
    for b m and dv :: "uart_port nfc_device"
    using that by (simp add: receive_error_ends)
  have trailer: "ends False q (receive_or_fail 2 t (\<lambda>tr dv. if a tr then receive_error NFC_EIO dv
      else if b tr then receive_error NFC_EIO dv else Ret ((len, bs), dv)) dv)" if "q (chip_data dv)"
    for a b bs and dv :: "uart_port nfc_device"
    using that by (intro receive_or_fail_ends assms(2) end_if ends_Ret)
  have data: "ends False q ((if len \<noteq> 0 then receive_or_fail (nat len) t else (\<lambda>k. k [])) k dv)"
    if "q (chip_data dv)" "\<And>bs dv. q (chip_data dv) \<Longrightarrow> ends False q (k bs dv)" for k dv
    using receive_or_fail_ends [OF that(1) assms(2) that(2)] that by simp
  show ?thesis
    unfolding receive_body_def Let_def
    apply (intro end_if assms(1) receive_or_fail_ends assms(2))
       apply assumption+
    apply (erule data)
    apply (erule trailer)
    done
qed

lemma ack_ends:
  assumes "q (chip_data dv)" "\<And>c. q c \<Longrightarrow> q (c\<lparr>power_mode := NORMAL\<rparr>)"
  shows "ends False q (pn532_uart_ack dv)"
  unfolding pn532_uart_ack_def
  by (rule ends_on_ok [where q = q]) (simp_all add: wakeup_ends port_send_ends ends_Ret assms)

lemma uart_receive_ends:
  assumes "q (chip_data dv)" "0 < t" "\<And>c. q c \<Longrightarrow> q (c\<lparr>power_mode := NORMAL\<rparr>)"
  shows "ends False q (pn532_uart_receive n t dv)"
proof -
  have nack: "ends False q (and_then (port_receive 3 False t dv) (\<lambda>(_, dv). receive_error NFC_EIO dv))"
    and aborted: "ends False q (and_then (pn532_uart_ack dv) (\<lambda>(res, dv). Ret ((res, []), dv)))" if "q (chip_data dv)"
    for dv :: "uart_port nfc_device"
    by (rule ends_and_then [OF port_receive_ends [where q = q, OF that assms(2)]], simp add: receive_error_ends,
        rule ends_and_then [OF ack_ends [where q = q, OF that assms(3)]], assumption, simp add: ends_Ret)
  have end_if: "ends False q (if b then m else m')" if "ends False q m" "ends False q m'" for b and m m' :: "((int \<times> bytes) \<times> uart_port nfc_device) outcome"
    using that by simp
  have more: "ends False q (receive_or_fail 3 t (\<lambda>e dv. if a e then receive_error NFC_EIO dv else receive_body (l e) n t dv) dv)"
    if "q (chip_data dv)" for a l and dv :: "uart_port nfc_device"
    by (rule receive_or_fail_ends [where q = q, OF that assms(2)]) (intro end_if receive_error_ends receive_body_ends assms(2))
  show ?thesis
    unfolding pn532_uart_receive_def Let_def
    apply (rule ends_and_then [OF port_receive_ends [where q = q, OF assms(1,2)]])
    apply (simp only: split_paired_all prod.case)
    apply (intro end_if aborted receive_error_ends nack more receive_body_ends assms(2))
    apply simp_all
    done
qed

lemma uart_send_ends:
  assumes "q (chip_data dv)" "0 < t" "\<And>dv. q (chip_data dv) \<Longrightarrow> ends False q (wake_for_sending io dv)"
  shows "ends False q (pn532_uart_send_with io tx t dv)"
proof -
  have fail: "ends False q (fail_with e dv)" if "q (chip_data dv)" for e and dv :: "uart_port nfc_device"
    using that by (simp add: fail_with_def ends_Ret)
  have ack: "ends False q (and_then (pn53x_check_ack_frame bs dv) (\<lambda>(res, dv). Ret (if res = 0 then NFC_SUCCESS else last_error dv, dv)))"
    if "q (chip_data dv)" for bs and dv :: "uart_port nfc_device"
    using that by (simp add: pn53x_check_ack_frame_def ends_def fail_with_def)
  have end_if: "ends False q (if b then fail_with e dv else m)" if "q (chip_data dv)" "ends False q m"
    for b e m and dv :: "uart_port nfc_device"
    using that by (simp add: fail)
  have flushed: "q (chip_data (on_port uart_flush_input dv))" using assms(1) by (simp add: on_port_def)
  show ?thesis
    unfolding pn532_uart_send_with_def Let_def
    apply (rule ends_on_ok [where q = q, OF assms(3) [OF flushed]], assumption)
    apply (simp only: split_beta prod.sel)
    apply (intro end_if, assumption)
    apply (rule ends_and_then [where q = q, OF port_send_ends], assumption)
    apply (simp only: prod.case)
    apply (intro end_if, assumption)
    apply (rule ends_and_then [where q = q, OF port_receive_ends [OF _ assms(2)]], assumption)
    apply (simp only: split_beta prod.sel)
    apply (intro end_if, assumption)
    apply (use ack in \<open>simp add: split_beta\<close>)
    done
qed

section \<open>Both levels of the driver\<close>

definition quiet :: "pn53x_type \<Rightarrow> pn53x_data \<Rightarrow> bool" where
  "quiet type c \<longleftrightarrow> timed_and_quiet c \<and> ch_type c = type"

definition awake :: "pn53x_type \<Rightarrow> pn53x_data \<Rightarrow> bool" where
  "awake type c \<longleftrightarrow> quiet type c \<and> power_mode c = NORMAL"

lemma io_parts [simp]:
  "io_receive (pn532_uart_io_n k) = pn532_uart_receive" "io_send (pn532_uart_io_n (Suc k)) = pn532_uart_send_with (pn532_uart_io_n k)"
  by (cases k, simp_all)

lemma quiet_power [simp]: "quiet type (c\<lparr>power_mode := md\<rparr>) = quiet type c"
  by (simp add: quiet_def timed_and_quiet_def)

declare pn532_uart_io_n.simps [simp del]

text \<open>Awake, the driver has nothing to send before the command.\<close>

interpretation inner: returning_driver "pn532_uart_io_n 1" "awake type" type for type
proof unfold_locales
  show "ends False (awake type) (io_send (pn532_uart_io_n 1) tx t dv)" if "awake type (chip_data dv)" "0 < t" for dv t tx
    using uart_send_ends [where q = "awake type", OF that] by (simp add: wake_for_sending_def ends_Ret awake_def)
  show "ends False (awake type) (io_receive (pn532_uart_io_n 1) n t dv)" if "awake type (chip_data dv)" "0 < t" for dv t n
    using uart_receive_ends [where q = "awake type", OF that] by (simp add: awake_def)
qed (simp_all add: awake_def quiet_def timed_and_quiet_def)

lemma wake_ends:
  assumes "quiet type (chip_data dv)"
  shows "ends False (quiet type) (wake_for_sending (pn532_uart_io_n 1) dv)"
proof (cases "power_mode (chip_data dv)")
  case LOWVBAT
  have sam: "ends False (quiet type) (pn532_SAMConfiguration (pn532_uart_io_n 1) PSM_NORMAL 1000 dv)" if "awake type (chip_data dv)" for dv
    using inner.wakeup_command_ends [OF that] by (auto simp: ends_def awake_def)
  have "ends False (awake type) (pn532_uart_wakeup dv)" by (rule wakeup_ends) (simp add: awake_def assms)
  then have "ends False (quiet type) (on_ok res_only (pn532_uart_wakeup dv) (\<lambda>_ dv.
      on_ok res_only (pn532_SAMConfiguration (pn532_uart_io_n 1) PSM_NORMAL 1000 dv) (\<lambda>_ dv. Ret (NFC_SUCCESS, dv))))"
    by (rule ends_on_ok, simp add: awake_def, intro ends_on_ok [OF sam], simp_all add: ends_Ret)
  then show ?thesis using LOWVBAT by (simp add: wake_for_sending_def)
next
  case POWERDOWN
  have "ends False (quiet type) (on_ok res_only (pn532_uart_wakeup dv) (\<lambda>_ dv. Ret (NFC_SUCCESS, dv)))"
    by (rule ends_on_ok [OF wakeup_ends [where q = "quiet type"]]) (simp_all add: assms ends_Ret)
  then show ?thesis using POWERDOWN by (simp add: wake_for_sending_def)
qed (simp add: wake_for_sending_def ends_Ret assms)

interpretation outer: returning_driver pn532_uart_io "quiet type" type for type
proof unfold_locales
  show "ends False (quiet type) (io_send pn532_uart_io tx t dv)" if "quiet type (chip_data dv)" "0 < t" for dv t tx
    using uart_send_ends [where q = "quiet type", OF that wake_ends] by (simp add: pn532_uart_io_def numeral_2_eq_2)
  show "ends False (quiet type) (io_receive pn532_uart_io n t dv)" if "quiet type (chip_data dv)" "0 < t" for dv t n
    using uart_receive_ends [where q = "quiet type", OF that] by (simp add: pn532_uart_io_def)
qed (simp_all add: quiet_def timed_and_quiet_def)

lemma uart_exchange_ends:
  assumes "0 < timeout_command (chip_data dv)" "timeout = - 1 \<or> 0 < timeout"
    and "tx = [] \<or> answer_looked_at (chip_type dv) tx \<or> wb_trigged (chip_data dv) \<and> reads_back (chip_data dv) \<Longrightarrow> F"
  shows "ends F (quiet (chip_type dv)) (pn53x_transceive pn532_uart_io tx n timeout dv)"
proof (rule outer.transceive_ends)
  show "outer.power_kept (chip_type dv) tx" by (simp add: outer.power_kept_def)
qed (use assms in \<open>simp_all add: quiet_def timed_and_quiet_def\<close>)

text \<open>The answer the driver delivers in an exchange, when the command could be sent and was answered.\<close>

definition answer_of :: "'s pn53x_io \<Rightarrow> bytes \<Rightarrow> nat \<Rightarrow> int \<Rightarrow> 's nfc_device \<Rightarrow> bytes option" where
  "answer_of io tx n t dv =
     (let t = (if t = - 1 then timeout_command (chip_data dv) else t);
          n = (if n = 0 then PN53x_EXTENDED_FRAME__DATA_MAX_LEN else n) in
      case io_send io tx t dv of
        Ret (res, dv) \<Rightarrow>
          if res < 0 then None
          else (case io_receive io n t (sets_power_mode tx POWERDOWN (set_chip (\<lambda>c. c\<lparr>last_command := tx ! 0\<rparr>) dv)) of
            Ret ((res, rx), dv) \<Rightarrow> if res < 0 then None else Some rx
          | _ \<Rightarrow> None)
      | _ \<Rightarrow> None)"

lemma uart_exchange_returns:
  assumes "0 < timeout_command (chip_data dv)" "timeout = - 1 \<or> 0 < timeout" "tx \<noteq> []" "\<not> wb_trigged (chip_data dv)"
  shows "(\<exists>r. pn53x_transceive pn532_uart_io tx n timeout dv = Ret r) \<longleftrightarrow>
    (case answer_of pn532_uart_io tx n timeout dv of None \<Rightarrow> True | Some rx \<Rightarrow> answer_taken (chip_type dv) tx rx)"
proof -
  let ?t = "if timeout = - 1 then timeout_command (chip_data dv) else timeout"
  let ?n = "if n = 0 then PN53x_EXTENDED_FRAME__DATA_MAX_LEN else n"
  have q: "quiet (chip_type dv) (chip_data dv)" and t: "0 < ?t" using assms by (auto simp: quiet_def timed_and_quiet_def)
  from ends_returns [OF outer.send [OF q t]] obtain res1 dv1 where
    s: "io_send pn532_uart_io tx ?t dv = Ret (res1, dv1)" "quiet (chip_type dv) (chip_data dv1)" by blast
  let ?dv = "sets_power_mode tx POWERDOWN (set_chip (\<lambda>c. c\<lparr>last_command := tx ! 0\<rparr>) dv1)"
  have "quiet (chip_type dv) (chip_data ?dv)"
    using s(2) by (auto simp: sets_power_mode_def quiet_def timed_and_quiet_def)
  from ends_returns [OF outer.receive [OF this t]] obtain r2 dv2 where
    r2: "io_receive pn532_uart_io ?n ?t ?dv = Ret (r2, dv2)" "quiet (chip_type dv) (chip_data dv2)" by blast
  obtain res2 rx where "r2 = (res2, rx)" by (cases r2)
  note r = r2 [unfolded this]
  have type: "chip_type dv2 = chip_type dv" using r(2) by (simp add: quiet_def)
  have now: "pn53x_transceive pn532_uart_io tx n timeout dv = transceive_now pn532_uart_io tx n timeout dv"
    using assms(4) by (simp add: pn53x_transceive_def numeral_2_eq_2)
  consider "res1 < 0" | "\<not> res1 < 0" "res2 < 0" | "\<not> res1 < 0" "\<not> res2 < 0" by blast
  then show ?thesis
  proof cases
    case 3
    then have "answer_of pn532_uart_io tx n timeout dv = Some rx" by (simp add: answer_of_def Let_def s(1) r(1))
    then show ?thesis
      unfolding now using 3 assms(3) status_of_answer_taken [of "chip_type dv" tx rx]
      by (cases "status_of_answer (chip_type dv) tx rx")
        (simp_all add: transceive_now_def on_ok_def on_rx_def Let_def s(1) r(1) type)
  qed (simp_all add: now transceive_now_def on_ok_def on_rx_def Let_def s(1) r(1) answer_of_def assms(3))
qed


text \<open>A chip in its lowest power mode, registers waiting to be written, and one broken answer on the line.\<close>

definition sleeping_device :: "uart_port nfc_device" where
  "sleeping_device = set_chip (\<lambda>c. c\<lparr>ch_type := PN532, power_mode := LOWVBAT, wb_trigged := True, timeout_command := 350\<rparr>)
     (blank_device \<lparr>avail = [], script = [Interrupted, Arrived [0x00], Timed_out], writes_fail = [], sent = []\<rparr>)"

lemma nothing_to_read: "(\<And>n. n \<in> set ns \<Longrightarrow> wm ! n = 0) \<Longrightarrow> reads_needed wm ns = []"
  by (induction ns) (auto simp: partly_masked_def)


end
