(* ===== verification/Pn53x_Registers.thy ===== *)
theory Pn53x_Registers
  imports Pn53x_Settings
begin

text \<open>
  What the write-back cache of the registers promises: as long as the chip answers, reading and writing registers
  through it is the same as reading and writing them at once.  The chip is an argument; what it must do for that -
  answer the reading of registers with their values, and set the registers that are written - is the predicate
  \<open>register_chip\<close>.
\<close>

section \<open>The chip\<close>

text \<open>What a driver leaves alone when it exchanges a command.\<close>

definition same_cache :: "pn53x_data \<Rightarrow> pn53x_data \<Rightarrow> bool" where
  "same_cache c c' \<longleftrightarrow>
     wb_data c' = wb_data c \<and> wb_mask c' = wb_mask c \<and> wb_trigged c' = wb_trigged c \<and> ch_type c' = ch_type c"

text \<open>The driver sends \<open>tx\<close> and receives \<open>rx\<close>; then the registers are \<open>r\<close>.\<close>

definition answers ::
    "'s pn53x_io \<Rightarrow> ('s \<Rightarrow> nat \<Rightarrow> byte) \<Rightarrow> bytes \<Rightarrow> bytes \<Rightarrow> (nat \<Rightarrow> byte) \<Rightarrow> nat \<Rightarrow> int \<Rightarrow> 's nfc_device \<Rightarrow> bool" where
  "answers io regs tx rx r n t dv \<longleftrightarrow>
     (\<exists>res dv1 dv2. io_send io tx t dv = Ret (res, dv1) \<and> 0 \<le> res \<and> same_cache (chip_data dv) (chip_data dv1) \<and>
        io_receive io n t (set_chip (\<lambda>c. c\<lparr>last_command := tx ! 0\<rparr>) dv1) = Ret ((int (length rx), rx), dv2) \<and>
        same_cache (chip_data dv) (chip_data dv2) \<and> regs (driver_data dv2) = r)"

text \<open>The PN533 puts a status byte before its answer.\<close>

definition status_bytes :: "'s nfc_device \<Rightarrow> bytes" where
  "status_bytes dv = (if chip_type dv = PN533 then [0x00] else [])"

definition reads_command :: "nat list \<Rightarrow> bytes" where
  "reads_command as = ReadRegister # concat (map address_bytes as)"

definition writes_command :: "(nat \<times> byte) list \<Rightarrow> bytes" where
  "writes_command ws = WriteRegister # concat (map (\<lambda>(a, v). address_bytes a @ [v]) ws)"

definition written :: "(nat \<Rightarrow> byte) \<Rightarrow> (nat \<times> byte) list \<Rightarrow> nat \<Rightarrow> byte" where
  "written r ws = fold (\<lambda>(a, v) r. r(a := v)) ws r"

definition register_chip :: "'s pn53x_io \<Rightarrow> ('s \<Rightarrow> nat \<Rightarrow> byte) \<Rightarrow> bool" where
  "register_chip io regs \<longleftrightarrow>
     (\<forall>as n t dv. as \<noteq> [] \<longrightarrow> length as \<le> 62 \<longrightarrow> (\<forall>a \<in> set as. a < 65536) \<longrightarrow> length as < n \<longrightarrow>
        answers io regs (reads_command as) (status_bytes dv @ map (regs (driver_data dv)) as) (regs (driver_data dv)) n t dv) \<and>
     (\<forall>ws n t dv. ws \<noteq> [] \<longrightarrow> length ws \<le> 62 \<longrightarrow> (\<forall>(a, v) \<in> set ws. a < 65536) \<longrightarrow> 0 < n \<longrightarrow>
        answers io regs (writes_command ws) (status_bytes dv) (written (regs (driver_data dv)) ws) n t dv)"

section \<open>The registers as the cache shows them\<close>

definition masked :: "byte \<Rightarrow> byte \<Rightarrow> byte \<Rightarrow> byte" where
  "masked m v old = (v AND m) OR (old AND NOT m)"

definition is_cached :: "nat \<Rightarrow> bool" where
  "is_cached a \<longleftrightarrow> PN53X_REG_CIU_Mode \<le> a \<and> a \<le> PN53X_REG_CIU_Coll"

text \<open>The registers with what waits in the cache.\<close>

definition shown :: "(nat \<Rightarrow> byte) \<Rightarrow> bytes \<Rightarrow> bytes \<Rightarrow> nat \<Rightarrow> byte" where
  "shown r wd wm a =
     (if is_cached a then masked (wm ! (a - PN53X_REG_CIU_Mode)) (wd ! (a - PN53X_REG_CIU_Mode)) (r a) else r a)"

definition register_view :: "('s \<Rightarrow> nat \<Rightarrow> byte) \<Rightarrow> 's nfc_device \<Rightarrow> nat \<Rightarrow> byte" where
  "register_view regs dv = shown (regs (driver_data dv)) (wb_data (chip_data dv)) (wb_mask (chip_data dv))"

text \<open>The cache has its size, and nothing waits in it unless the flag says so.\<close>

definition cache_ok :: "pn53x_data \<Rightarrow> bool" where
  "cache_ok c \<longleftrightarrow>
     length (wb_data c) = 62 \<and> length (wb_mask c) = 62 \<and> (\<not> wb_trigged c \<longrightarrow> (\<forall>n < 62. wb_mask c ! n = 0))"

lemma masked_bit: "bit (masked m v old) i \<longleftrightarrow> (if bit m i then bit v i else i < 8 \<and> bit old i)"
  by (auto simp: masked_def bit_simps dest: bit_imp_le_length)

lemma masked_none [simp]: "masked 0 v old = old"
  by (simp add: masked_def)

lemma masked_all [simp]: "masked 0xff v old = v"
proof -
  have "(0xff :: byte) = - 1" by simp
  then show ?thesis by (simp only: masked_def) simp
qed

lemma masked_twice: "masked m' v' (masked m v old) = masked (m OR m') ((v AND m AND NOT m') OR (v' AND m')) old"
  by (rule bit_word_eqI) (auto simp: masked_def bit_simps)

section \<open>One exchange\<close>

lemma answered:
  assumes "answers io regs tx rx r szRx timeout dv" "tx \<noteq> []" "tx ! 0 \<noteq> TgInitAsTarget" "\<not> wb_trigged (chip_data dv)"
    and "status_of_answer (chip_type dv) tx rx = Ret 0" "szRx = (if n = 0 then PN53x_EXTENDED_FRAME__DATA_MAX_LEN else n)"
    and "timeout = (if t = - 1 then timeout_command (chip_data dv) else t)"
  shows "\<exists>dv'. pn53x_transceive_n (Suc k) io tx n t dv = Ret ((int (length rx), rx), dv') \<and> same_cache (chip_data dv) (chip_data dv') \<and>
    regs (driver_data dv') = r"
proof -
  from assms(1) obtain res dv1 dv2 where
    io: "io_send io tx timeout dv = Ret (res, dv1)" "0 \<le> res" "same_cache (chip_data dv) (chip_data dv1)"
      "io_receive io szRx timeout (set_chip (\<lambda>c. c\<lparr>last_command := tx ! 0\<rparr>) dv1) = Ret ((int (length rx), rx), dv2)"
      "same_cache (chip_data dv) (chip_data dv2)" "regs (driver_data dv2) = r"
    unfolding answers_def by blast
  have type: "chip_type dv2 = chip_type dv" using io(5) by (simp add: same_cache_def)
  have "status_of_answer (chip_type dv2) tx rx = Ret 0" using assms(5) type by simp
  then have "transceive_now io tx n t dv =
      Ret ((int (length rx), rx), set_chip (\<lambda>c. c\<lparr>last_status_byte := 0\<rparr>) dv2\<lparr>last_error := 0\<rparr>)"
    using io assms(2,3,6,7)
    by (simp add: transceive_now_def on_ok_def on_rx_def Let_def sets_power_mode_def result_of_status_def)
  then show ?thesis using io(5,6) assms(4) by (simp add: same_cache_def)
qed

lemma reads_status: "status_of_answer (chip_type dv) (reads_command as) (status_bytes dv @ bs) = Ret 0"
  by (simp add: status_of_answer_def reads_command_def status_commands_def status_bytes_def Let_def byte_at_def)

lemma writes_status: "status_of_answer (chip_type dv) (writes_command ws) (status_bytes dv) = Ret 0"
  by (simp add: status_of_answer_def writes_command_def status_commands_def status_bytes_def Let_def byte_at_def)

lemma registers_read:
  assumes "register_chip io regs" "\<not> wb_trigged (chip_data dv)" "as \<noteq> []" "length as \<le> 62" "\<forall>a \<in> set as. a < 65536"
    and "n = 0 \<or> length as < n"
  shows "\<exists>dv'. pn53x_transceive_n (Suc k) io (reads_command as) n t dv =
      Ret ((int (length (status_bytes dv) + length as), status_bytes dv @ map (regs (driver_data dv)) as), dv') \<and>
    same_cache (chip_data dv) (chip_data dv') \<and> regs (driver_data dv') = regs (driver_data dv)"
proof -
  let ?n = "if n = 0 then PN53x_EXTENDED_FRAME__DATA_MAX_LEN else n"
  let ?t = "if t = - 1 then timeout_command (chip_data dv) else t"
  have "length as < ?n" using assms(4,6) by auto
  then have "answers io regs (reads_command as) (status_bytes dv @ map (regs (driver_data dv)) as) (regs (driver_data dv)) ?n ?t dv"
    using assms(1,3-5) unfolding register_chip_def by blast
  from answered [OF this _ _ assms(2) reads_status, of n t k] show ?thesis by (simp add: reads_command_def)
qed

lemma registers_written:
  assumes "register_chip io regs" "\<not> wb_trigged (chip_data dv)" "ws \<noteq> []" "length ws \<le> 62" "\<forall>(a, v) \<in> set ws. a < 65536"
  shows "\<exists>dv'. pn53x_transceive_n (Suc k) io (writes_command ws) n t dv = Ret ((int (length (status_bytes dv)), status_bytes dv), dv') \<and>
    same_cache (chip_data dv) (chip_data dv') \<and> regs (driver_data dv') = written (regs (driver_data dv)) ws"
proof -
  let ?n = "if n = 0 then PN53x_EXTENDED_FRAME__DATA_MAX_LEN else n"
  let ?t = "if t = - 1 then timeout_command (chip_data dv) else t"
  have "0 < ?n" by simp
  then have "answers io regs (writes_command ws) (status_bytes dv) (written (regs (driver_data dv)) ws) ?n ?t dv"
    using assms(1,3-5) unfolding register_chip_def by blast
  from answered [OF this _ _ assms(2) writes_status, of n t k] show ?thesis by (simp add: writes_command_def)
qed

section \<open>The cache\<close>

lemma reads_needed_filter:
  "reads_needed wm ns = concat (map address_bytes (map cached_address (filter (\<lambda>n. partly_masked (wm ! n)) ns)))"
  by (induction ns) auto

lemma filter_update: "n \<notin> set ns \<Longrightarrow> filter (\<lambda>k. P (xs[n := x] ! k)) ns = filter (\<lambda>k. P (xs ! k)) ns"
  by (intro filter_cong refl) (metis nth_list_update_neq)

lemma merge_answer_correct:
  assumes "distinct ns" "\<forall>n \<in> set ns. n < length wd \<and> n < length wm"
  shows "\<exists>wd' wm'. merge_answer (pre @ map r (filter (\<lambda>n. partly_masked (wm ! n)) ns)) ns (length pre) (wd, wm) = Ret (wd', wm') \<and>
    length wd' = length wd \<and> length wm' = length wm \<and>
    (\<forall>n. n \<notin> set ns \<longrightarrow> wd' ! n = wd ! n \<and> wm' ! n = wm ! n) \<and>
    (\<forall>n \<in> set ns. \<not> partly_masked (wm' ! n) \<and> masked (wm' ! n) (wd' ! n) (r n) = masked (wm ! n) (wd ! n) (r n))"
  using assms
proof (induction ns arbitrary: pre wd wm)
  case (Cons n ns)
  show ?case
  proof (cases "partly_masked (wm ! n)")
    case True
    define v where "v = masked (wm ! n) (wd ! n) (r n)"
    define m :: byte where "m = (if v \<noteq> r n then 0xff else 0x00)"
    have same: "filter (\<lambda>k. partly_masked (wm[n := m] ! k)) ns = filter (\<lambda>k. partly_masked (wm ! k)) ns"
      using Cons.prems(1) by (intro filter_update) simp
    have b: "byte_at (pre @ r n # bs) (length pre) = Ret (r n)" for bs by (simp add: byte_at_def)
    have step: "merge_answer (pre @ map r (filter (\<lambda>n. partly_masked (wm ! n)) (n # ns))) (n # ns) (length pre) (wd, wm) =
        merge_answer ((pre @ [r n]) @ map r (filter (\<lambda>k. partly_masked (wm[n := m] ! k)) ns)) ns (length (pre @ [r n]))
          (wd[n := v], wm[n := m])"
      unfolding same
      by (simp only: filter.simps if_P [OF True] list.map merge_answer.simps b and_then.simps Let_def masked_def [symmetric]
          v_def [symmetric] m_def [symmetric] append.assoc append_Cons append_Nil length_append list.size add_0 Suc_eq_plus1)
    have range: "distinct ns" "\<forall>k \<in> set ns. k < length (wd[n := v]) \<and> k < length (wm[n := m])" "n \<notin> set ns" "n < length wd" "n < length wm"
      using Cons.prems by auto
    have kept: "\<not> partly_masked m \<and> masked m v (r n) = v" by (auto simp: m_def partly_masked_def)
    from Cons.IH [OF range(1,2), of "pre @ [r n]"] obtain wd' wm' where
      f: "merge_answer ((pre @ [r n]) @ map r (filter (\<lambda>k. partly_masked (wm[n := m] ! k)) ns)) ns (length (pre @ [r n]))
          (wd[n := v], wm[n := m]) = Ret (wd', wm')" and
      g: "length wd' = length wd" "length wm' = length wm" "\<forall>k. k \<notin> set ns \<longrightarrow> wd' ! k = wd[n := v] ! k \<and> wm' ! k = wm[n := m] ! k"
        "\<forall>k \<in> set ns. \<not> partly_masked (wm' ! k) \<and> masked (wm' ! k) (wd' ! k) (r k) = masked (wm[n := m] ! k) (wd[n := v] ! k) (r k)"
      by auto
    show ?thesis
      unfolding step f using g range(3-5) kept by (auto simp: v_def [symmetric] nth_list_update)
  next
    case False
    with Cons.IH [of wd wm pre] Cons.prems show ?thesis by auto
  qed
qed simp

lemma collect_writes_correct:
  assumes "distinct ns" "\<forall>n \<in> set ns. n < length wm"
  shows "fst (collect_writes wd ns wm) =
      concat (map (\<lambda>(a, v). address_bytes a @ [v]) (map (\<lambda>n. (cached_address n, wd ! n)) (filter (\<lambda>n. wm ! n = 0xff) ns))) \<and>
    length (snd (collect_writes wd ns wm)) = length wm \<and>
    (\<forall>k. snd (collect_writes wd ns wm) ! k = (if k \<in> set ns \<and> wm ! k = 0xff then 0x00 else wm ! k))"
  using assms
proof (induction ns arbitrary: wm)
  case (Cons n ns)
  show ?case
  proof (cases "wm ! n = 0xff")
    case True
    have "filter (\<lambda>k. wm[n := 0x00] ! k = 0xff) ns = filter (\<lambda>k. wm ! k = 0xff) ns" using Cons.prems(1) by (intro filter_update) simp
    with Cons.IH [of "wm[n := 0x00]"] Cons.prems True show ?thesis by (auto simp: split_beta Let_def nth_list_update)
  next
    case False
    with Cons.IH [of wm] Cons.prems show ?thesis by auto
  qed
qed simp

lemma written_cached:
  "written r (map (\<lambda>n. (cached_address n, wd ! n)) ns) a =
     (if a \<in> cached_address ` set ns then wd ! (a - PN53X_REG_CIU_Mode) else r a)"
  by (induction ns arbitrary: r) (auto simp: written_def cached_address_def)

lemma is_cached_address: "is_cached a \<longleftrightarrow> a \<in> cached_address ` set cache_places"
  by (auto simp: is_cached_def cached_address_def cache_size image_iff intro!: bexI [of _ "a - PN53X_REG_CIU_Mode"])

lemma shown_eqI:
  "(\<forall>n < 62. masked (wm' ! n) (wd' ! n) (r' (cached_address n)) = masked (wm ! n) (wd ! n) (r (cached_address n))) \<Longrightarrow>
   (\<forall>a. \<not> is_cached a \<longrightarrow> r' a = r a) \<Longrightarrow> shown r' wd' wm' = shown r wd wm"
proof (rule ext)
  fix a
  assume *: "\<forall>n < 62. masked (wm' ! n) (wd' ! n) (r' (cached_address n)) = masked (wm ! n) (wd ! n) (r (cached_address n))"
    "\<forall>a. \<not> is_cached a \<longrightarrow> r' a = r a"
  show "shown r' wd' wm' a = shown r wd wm a"
  proof (cases "is_cached a")
    case True
    then have "a - PN53X_REG_CIU_Mode < 62" "cached_address (a - PN53X_REG_CIU_Mode) = a" by (auto simp: is_cached_def cached_address_def)
    with *(1) True show ?thesis unfolding shown_def by metis
  qed (use *(2) in \<open>simp add: shown_def\<close>)
qed

lemma writeback_reads_correct:
  assumes chip: "register_chip io regs" and quiet: "\<not> wb_trigged (chip_data dv)"
    and len: "length (wb_data (chip_data dv)) = 62" "length (wb_mask (chip_data dv)) = 62"
  shows "\<exists>dv'. writeback_reads (pn53x_transceive_n (Suc k) io) dv = Ret (NFC_SUCCESS, dv') \<and>
    \<not> wb_trigged (chip_data dv') \<and> length (wb_data (chip_data dv')) = 62 \<and> length (wb_mask (chip_data dv')) = 62 \<and>
    (\<forall>n < 62. \<not> partly_masked (wb_mask (chip_data dv') ! n)) \<and> regs (driver_data dv') = regs (driver_data dv) \<and>
    register_view regs dv' = register_view regs dv"
proof -
  let ?r = "regs (driver_data dv)"
  define wm wd where "wm = wb_mask (chip_data dv)" "wd = wb_data (chip_data dv)"
  define ns where "ns = filter (\<lambda>n. partly_masked (wm ! n)) cache_places"
  define as where "as = map cached_address ns"
  have cmd: "ReadRegister # reads_needed wm cache_places = reads_command as" by (simp add: reads_needed_filter reads_command_def as_def ns_def)
  have as: "length as \<le> 62" "\<forall>a \<in> set as. a < 65536"
    using length_filter_le [of "\<lambda>n. partly_masked (wm ! n)" cache_places] by (auto simp: as_def ns_def cached_address_def cache_size)
  show ?thesis
  proof (cases "as = []")
    case True
    then have "\<forall>n < 62. \<not> partly_masked (wm ! n)" by (auto simp: as_def ns_def filter_empty_conv cache_size)
    moreover have "writeback_reads (pn53x_transceive_n (Suc k) io) dv = Ret (NFC_SUCCESS, dv)"
      unfolding writeback_reads_def wm_wd_def(1) [symmetric] cmd by (simp add: True reads_command_def)
    ultimately show ?thesis using quiet len by (simp add: wm_wd_def)
  next
    case False
    have "as \<noteq> [] \<Longrightarrow> 1 < length (reads_command as)" by (cases as) (auto simp: reads_command_def address_bytes_def)
    with False have long: "1 < length (reads_command as)" by simp
    from registers_read [OF chip quiet False as, of PN53x_EXTENDED_FRAME__DATA_MAX_LEN k "- 1"] as(1) obtain dv1 where
      dv1: "pn53x_transceive_n (Suc k) io (reads_command as) PN53x_EXTENDED_FRAME__DATA_MAX_LEN (- 1) dv =
          Ret ((int (length (status_bytes dv) + length as), status_bytes dv @ map ?r as), dv1)"
        "same_cache (chip_data dv) (chip_data dv1)" "regs (driver_data dv1) = ?r"
      by auto
    have off: "length (status_bytes dv) = (if chip_type dv1 = PN533 then 1 else 0)" using dv1(2) by (simp add: status_bytes_def same_cache_def)
    from merge_answer_correct [of cache_places wd wm "status_bytes dv" "\<lambda>n. ?r (cached_address n)"] len obtain wd' wm' where
      m: "merge_answer (status_bytes dv @ map ?r as) cache_places (length (status_bytes dv)) (wd, wm) = Ret (wd', wm')"
        "length wd' = 62" "length wm' = 62" "\<forall>n < 62. \<not> partly_masked (wm' ! n)"
        "\<forall>n < 62. masked (wm' ! n) (wd' ! n) (?r (cached_address n)) = masked (wm ! n) (wd ! n) (?r (cached_address n))"
      by (auto simp: as_def ns_def wm_wd_def cache_size comp_def)
    have "writeback_reads (pn53x_transceive_n (Suc k) io) dv = Ret (NFC_SUCCESS, set_chip (\<lambda>c. c\<lparr>wb_data := wd', wb_mask := wm'\<rparr>) dv1)"
      using dv1 m(1) long unfolding writeback_reads_def wm_wd_def(1) [symmetric] cmd Let_def
      by (simp add: on_rx_def off wm_wd_def same_cache_def del: pn53x_transceive_n.simps)
    moreover have "shown ?r wd' wm' = shown ?r wd wm" using m(5) by (intro shown_eqI) simp_all
    ultimately show ?thesis using quiet dv1(2,3) m(2-4) by (simp add: register_view_def same_cache_def wm_wd_def)
  qed
qed

lemma writeback_writes_correct:
  assumes chip: "register_chip io regs" and quiet: "\<not> wb_trigged (chip_data dv)"
    and len: "length (wb_data (chip_data dv)) = 62" "length (wb_mask (chip_data dv)) = 62"
    and whole: "\<forall>n < 62. \<not> partly_masked (wb_mask (chip_data dv) ! n)"
  shows "\<exists>dv'. writeback_writes (pn53x_transceive_n (Suc k) io) dv = Ret (NFC_SUCCESS, dv') \<and>
    \<not> wb_trigged (chip_data dv') \<and> cache_ok (chip_data dv') \<and> regs (driver_data dv') = register_view regs dv \<and>
    register_view regs dv' = register_view regs dv"
proof -
  define wm wd where "wm = wb_mask (chip_data dv)" "wd = wb_data (chip_data dv)"
  define ns where "ns = filter (\<lambda>n. wm ! n = 0xff) cache_places"
  define ws where "ws = map (\<lambda>n. (cached_address n, wd ! n)) ns"
  obtain writes wm' where w: "collect_writes wd cache_places wm = (writes, wm')" by fastforce
  from collect_writes_correct [of cache_places wm wd] w len
  have cmd: "WriteRegister # writes = writes_command ws" and wm': "length wm' = 62" "\<forall>n < 62. wm' ! n = 0"
    using whole by (auto simp: writes_command_def ws_def ns_def wm_wd_def cache_size partly_masked_def)
  have ws: "length ws \<le> 62" "\<forall>(a, v) \<in> set ws. a < 65536"
    using length_filter_le [of "\<lambda>n. wm ! n = 0xff" cache_places] by (auto simp: ws_def ns_def cached_address_def cache_size)
  have view: "written (regs (driver_data dv)) ws a = register_view regs dv a" for a
  proof (cases "is_cached a")
    case True
    define n where "n = a - PN53X_REG_CIU_Mode"
    have n: "n < 62" "cached_address n = a" using True unfolding is_cached_def n_def cached_address_def by linarith+
    have "a \<in> cached_address ` set ns \<longleftrightarrow> wm ! n = 0xff" using n by (auto simp: ns_def cache_size cached_address_def)
    moreover have "wm ! n = 0xff \<or> wm ! n = 0" using whole n(1) by (auto simp: wm_wd_def partly_masked_def)
    ultimately show ?thesis
      using True by (auto simp: ws_def written_cached register_view_def shown_def simp flip: wm_wd_def n_def)
  next
    case False
    then have "a \<notin> cached_address ` set ns" by (auto simp: is_cached_address ns_def)
    then show ?thesis using False by (simp add: ws_def written_cached register_view_def shown_def)
  qed
  have clear: "shown r wd' wm' = r" for r wd' using wm'(2) by (auto simp: shown_def is_cached_def fun_eq_iff)
  define dv0 where "dv0 = set_chip (\<lambda>c. c\<lparr>wb_mask := wm'\<rparr>) dv"
  show ?thesis
  proof (cases "ws = []")
    case True
    then have "writeback_writes (pn53x_transceive_n (Suc k) io) dv = Ret (NFC_SUCCESS, dv0)"
      using cmd unfolding writeback_writes_def wm_wd_def [symmetric] w by (simp add: writes_command_def dv0_def)
    moreover have "regs (driver_data dv) = register_view regs dv" using view True by (simp add: written_def fun_eq_iff)
    moreover have "register_view regs dv0 = regs (driver_data dv)" by (simp add: register_view_def dv0_def clear)
    moreover have "\<not> wb_trigged (chip_data dv0) \<and> cache_ok (chip_data dv0) \<and> driver_data dv0 = driver_data dv"
      using quiet len wm' by (simp add: dv0_def cache_ok_def)
    ultimately show ?thesis by metis
  next
    case False
    have "ws \<noteq> [] \<Longrightarrow> 1 < length (writes_command ws)" by (cases ws) (auto simp: writes_command_def address_bytes_def)
    with False have long: "1 < length (writes_command ws)" by simp
    have "\<not> wb_trigged (chip_data dv0)" using quiet by (simp add: dv0_def)
    from registers_written [OF chip this False ws, of k 0 "- 1"] obtain dv1 where
      dv1: "pn53x_transceive_n (Suc k) io (writes_command ws) 0 (- 1) dv0 = Ret ((int (length (status_bytes dv0)), status_bytes dv0), dv1)"
        "same_cache (chip_data dv0) (chip_data dv1)" "regs (driver_data dv1) = register_view regs dv"
      using ext [of "written (regs (driver_data dv)) ws", OF view] by (auto simp: dv0_def)
    have "writeback_writes (pn53x_transceive_n (Suc k) io) dv = Ret (NFC_SUCCESS, dv1)"
      using dv1(1) long unfolding writeback_writes_def wm_wd_def [symmetric] w Let_def prod.case cmd dv0_def [symmetric]
      by (simp add: on_rx_def del: pn53x_transceive_n.simps)
    then show ?thesis
      using dv1(2,3) quiet len wm' by (simp add: same_cache_def dv0_def register_view_def clear cache_ok_def)
  qed
qed

lemma writeback_correct:
  assumes "register_chip io regs" "cache_ok (chip_data dv)"
  shows "\<exists>dv'. writeback_with (pn53x_transceive_n (Suc k) io) dv = Ret (NFC_SUCCESS, dv') \<and> \<not> wb_trigged (chip_data dv') \<and>
    cache_ok (chip_data dv') \<and> regs (driver_data dv') = register_view regs dv \<and> register_view regs dv' = register_view regs dv"
proof -
  define dv0 where "dv0 = set_chip (\<lambda>c. c\<lparr>wb_trigged := False\<rparr>) dv"
  have dv0: "\<not> wb_trigged (chip_data dv0)" "length (wb_data (chip_data dv0)) = 62" "length (wb_mask (chip_data dv0)) = 62"
    "register_view regs dv0 = register_view regs dv"
    using assms(2) by (simp_all add: dv0_def cache_ok_def register_view_def)
  from writeback_reads_correct [OF assms(1) dv0(1-3)] obtain dv1 where
    dv1: "writeback_reads (pn53x_transceive_n (Suc k) io) dv0 = Ret (NFC_SUCCESS, dv1)" "\<not> wb_trigged (chip_data dv1)"
      "length (wb_data (chip_data dv1)) = 62" "length (wb_mask (chip_data dv1)) = 62"
      "\<forall>n < 62. \<not> partly_masked (wb_mask (chip_data dv1) ! n)" "register_view regs dv1 = register_view regs dv0"
    by blast
  from writeback_writes_correct [OF assms(1) dv1(2-5), of k] dv1(1,6) dv0(4)
  show ?thesis by (auto simp: writeback_with_def on_ok_def NFC_SUCCESS_def dv0_def)
qed

lemma flushed_first:
  assumes "register_chip io regs" "cache_ok (chip_data dv)"
  shows "\<exists>dv0. (\<forall>tx n t. pn53x_transceive io tx n t dv = pn53x_transceive_n (Suc 0) io tx n t dv0) \<and> \<not> wb_trigged (chip_data dv0) \<and>
    cache_ok (chip_data dv0) \<and> regs (driver_data dv0) = register_view regs dv"
proof (cases "wb_trigged (chip_data dv)")
  case True
  from writeback_correct [OF assms, of 0] obtain dv0 where
    "writeback_with (pn53x_transceive_n (Suc 0) io) dv = Ret (NFC_SUCCESS, dv0)" "\<not> wb_trigged (chip_data dv0)"
    "cache_ok (chip_data dv0)" "regs (driver_data dv0) = register_view regs dv" by blast
  then show ?thesis using True
    by (intro exI [of _ dv0]) (simp add: pn53x_transceive_def numeral_2_eq_2 on_ok_def NFC_SUCCESS_def)
next
  case False
  then have "register_view regs dv = regs (driver_data dv)"
    using assms(2) by (auto simp: register_view_def shown_def cache_ok_def is_cached_def fun_eq_iff)
  then show ?thesis using False assms(2) by (intro exI [of _ dv]) (simp add: pn53x_transceive_def numeral_2_eq_2)
qed

text \<open>What holds after an exchange that found nothing waiting.\<close>

lemma exchanged:
  assumes "\<not> wb_trigged (chip_data dv0)" "cache_ok (chip_data dv0)" "same_cache (chip_data dv0) (chip_data dv')"
  shows "cache_ok (chip_data dv') \<and> register_view regs dv' = regs (driver_data dv')"
  using assms by (auto simp: same_cache_def cache_ok_def register_view_def shown_def is_cached_def fun_eq_iff)

lemma read_register_correct:
  assumes "register_chip io regs" "cache_ok (chip_data dv)" "a < 65536"
  shows "\<exists>dv'. pn53x_read_register io a dv = Ret ((NFC_SUCCESS, [register_view regs dv a]), dv') \<and> cache_ok (chip_data dv') \<and>
    register_view regs dv' = register_view regs dv"
proof -
  from flushed_first [OF assms(1,2)] obtain dv0 where
    dv0: "\<And>tx n t. pn53x_transceive io tx n t dv = pn53x_transceive_n (Suc 0) io tx n t dv0" "\<not> wb_trigged (chip_data dv0)"
      "cache_ok (chip_data dv0)" "regs (driver_data dv0) = register_view regs dv" by blast
  from registers_read [OF assms(1) dv0(2), of "[a]" 2 0 "- 1"] assms(3) obtain dv' where
    dv': "pn53x_transceive_n (Suc 0) io (reads_command [a]) 2 (- 1) dv0 =
        Ret ((int (length (status_bytes dv0) + 1), status_bytes dv0 @ [regs (driver_data dv0) a]), dv')"
      "same_cache (chip_data dv0) (chip_data dv')" "regs (driver_data dv') = regs (driver_data dv0)" by auto
  have cmd: "ReadRegister # address_bytes a = reads_command [a]" by (simp add: reads_command_def)
  have "pn53x_read_register io a dv = Ret ((NFC_SUCCESS, [register_view regs dv a]), dv')"
    unfolding pn53x_read_register_def pn53x_ReadRegister_def cmd dv0(1)
    using dv'(1,2) dv0(4) by (simp add: on_rx_def byte_at_def status_bytes_def same_cache_def del: pn53x_transceive_n.simps)
  then show ?thesis using exchanged [OF dv0(2,3) dv'(2), of regs] dv'(3) dv0(4) by simp
qed

lemma write_register_correct:
  assumes "register_chip io regs" "cache_ok (chip_data dv)" "a < 65536"
  shows "\<exists>res dv'. pn53x_WriteRegister io a v dv = Ret (res, dv') \<and> 0 \<le> res \<and> cache_ok (chip_data dv') \<and>
    register_view regs dv' = (register_view regs dv)(a := v)"
proof -
  from flushed_first [OF assms(1,2)] obtain dv0 where
    dv0: "\<And>tx n t. pn53x_transceive io tx n t dv = pn53x_transceive_n (Suc 0) io tx n t dv0" "\<not> wb_trigged (chip_data dv0)"
      "cache_ok (chip_data dv0)" "regs (driver_data dv0) = register_view regs dv" by blast
  from registers_written [OF assms(1) dv0(2), of "[(a, v)]" 0 0 "- 1"] assms(3) obtain dv' where
    dv': "pn53x_transceive_n (Suc 0) io (writes_command [(a, v)]) 0 (- 1) dv0 = Ret ((int (length (status_bytes dv0)), status_bytes dv0), dv')"
      "same_cache (chip_data dv0) (chip_data dv')" "regs (driver_data dv') = (regs (driver_data dv0))(a := v)" by (auto simp: written_def)
  have cmd: "WriteRegister # address_bytes a @ [v] = writes_command [(a, v)]" by (simp add: writes_command_def)
  have "pn53x_WriteRegister io a v dv = Ret (int (length (status_bytes dv0)), dv')"
    unfolding pn53x_WriteRegister_def command_def cmd dv0(1) using dv'(1) by (simp add: rx_dropped_def del: pn53x_transceive_n.simps)
  then show ?thesis using exchanged [OF dv0(2,3) dv'(2), of regs] dv'(3) dv0(4) by simp
qed

lemma cache_write_shown:
  fixes m v :: byte
  assumes "is_cached a" "length (wb_data c) = 62" "length (wb_mask c) = 62"
  defines "c' \<equiv> cache_write (a - PN53X_REG_CIU_Mode) m v c"
  shows "shown r (wb_data c') (wb_mask c') = (shown r (wb_data c) (wb_mask c))(a := masked m v (shown r (wb_data c) (wb_mask c) a))"
proof (rule ext)
  fix b
  have n: "a - PN53X_REG_CIU_Mode < 62" using assms(1) unfolding is_cached_def by linarith
  show "shown r (wb_data c') (wb_mask c') b =
      ((shown r (wb_data c) (wb_mask c))(a := masked m v (shown r (wb_data c) (wb_mask c) a))) b"
  proof (cases "b = a")
    case True
    then show ?thesis using assms(1-3) n by (simp add: shown_def c'_def cache_write_def masked_twice)
  next
    case False
    then have "is_cached b \<Longrightarrow> b - PN53X_REG_CIU_Mode \<noteq> a - PN53X_REG_CIU_Mode" using assms(1) unfolding is_cached_def by linarith
    then show ?thesis using False by (auto simp: shown_def c'_def cache_write_def)
  qed
qed

lemma written_under_mask:
  assumes "register_chip io regs" "cache_ok (chip_data dv)" "a < 65536"
  shows "\<exists>res dv'. pn53x_write_register io a m v dv = Ret (res, dv') \<and> 0 \<le> res \<and> cache_ok (chip_data dv') \<and>
    register_view regs dv' = (register_view regs dv)(a := masked m v (register_view regs dv a))"
proof (cases "is_cached a")
  case True
  then show ?thesis
    using assms(2) cache_write_shown [OF True, of "chip_data dv" "regs (driver_data dv)" m v]
    by (simp add: pn53x_write_register_def is_cached_def register_view_def cache_ok_def NFC_SUCCESS_def)
       (simp add: cache_write_def)
next
  case False
  then have range: "a < PN53X_REG_CIU_Mode \<or> a > PN53X_REG_CIU_Coll" by (auto simp: is_cached_def)
  show ?thesis
  proof (cases "m = 0xff")
    case True
    then show ?thesis using write_register_correct [OF assms, of v] range by (simp add: pn53x_write_register_def)
  next
    case m: False
    from read_register_correct [OF assms] obtain dv1 where
      dv1: "pn53x_read_register io a dv = Ret ((NFC_SUCCESS, [register_view regs dv a]), dv1)" "cache_ok (chip_data dv1)"
        "register_view regs dv1 = register_view regs dv" by blast
    let ?new = "masked m v (register_view regs dv a)"
    have "pn53x_write_register io a m v dv =
        (if ?new \<noteq> register_view regs dv a then pn53x_WriteRegister io a ?new dv1 else Ret (NFC_SUCCESS, dv1))"
      using range m dv1(1) by (simp add: pn53x_write_register_def on_rx_def NFC_SUCCESS_def byte_at_def Let_def masked_def)
    then show ?thesis
      using write_register_correct [OF assms(1) dv1(2) assms(3), of ?new] dv1(2,3) by (simp add: NFC_SUCCESS_def)
  qed
qed

text \<open>C30. Reading, writing under a mask and writing back registers through the cache refine a plain memory, the registers
  with what waits in the cache: whatever is written is read again, the rest stays, and after the writing back the chip
  itself has what the memory has.  Of the chip this takes that it answers the reading of registers with their values and
  sets those that are written.\<close>
theorem registers_refine_memory:
  assumes "register_chip io regs" "cache_ok (chip_data dv)" "a < 65536"
  shows "(\<exists>dv'. pn53x_read_register io a dv = Ret ((NFC_SUCCESS, [register_view regs dv a]), dv') \<and> cache_ok (chip_data dv') \<and>
        register_view regs dv' = register_view regs dv) \<and>
    (\<exists>res dv'. pn53x_write_register io a m v dv = Ret (res, dv') \<and> 0 \<le> res \<and> cache_ok (chip_data dv') \<and>
        register_view regs dv' = (register_view regs dv)(a := (v AND m) OR (register_view regs dv a AND NOT m))) \<and>
    (\<exists>dv'. pn53x_writeback_register io dv = Ret (NFC_SUCCESS, dv') \<and> cache_ok (chip_data dv') \<and>
        regs (driver_data dv') = register_view regs dv \<and> register_view regs dv' = register_view regs dv)"
proof (intro conjI)
  show "\<exists>dv'. pn53x_read_register io a dv = Ret ((NFC_SUCCESS, [register_view regs dv a]), dv') \<and> cache_ok (chip_data dv') \<and>
      register_view regs dv' = register_view regs dv"
    by (rule read_register_correct [OF assms])
  show "\<exists>dv'. pn53x_writeback_register io dv = Ret (NFC_SUCCESS, dv') \<and> cache_ok (chip_data dv') \<and>
      regs (driver_data dv') = register_view regs dv \<and> register_view regs dv' = register_view regs dv"
    using writeback_correct [OF assms(1,2), of 1] by (auto simp: pn53x_writeback_register_def pn53x_transceive_def numeral_2_eq_2)
  show "\<exists>res dv'. pn53x_write_register io a m v dv = Ret (res, dv') \<and> 0 \<le> res \<and> cache_ok (chip_data dv') \<and>
      register_view regs dv' = (register_view regs dv)(a := (v AND m) OR (register_view regs dv a AND NOT m))"
    using written_under_mask [OF assms] by (simp only: masked_def)
qed

text \<open>A chip that is nothing but its registers: it keeps the last command, and answers it when it is received from.\<close>

fun addresses :: "bytes \<Rightarrow> nat list" where
  "addresses (h # l # bs) = (256 * unat h + unat l) # addresses bs"
| "addresses _ = []"

fun address_values :: "bytes \<Rightarrow> (nat \<times> byte) list" where
  "address_values (h # l # v # bs) = (256 * unat h + unat l, v) # address_values bs"
| "address_values _ = []"

definition plain_chip :: "((nat \<Rightarrow> byte) \<times> bytes) pn53x_io" where
  "plain_chip =
     \<lparr>io_send = (\<lambda>tx t dv. Ret (0, dv\<lparr>driver_data := (fst (driver_data dv), tx)\<rparr>)),
      io_receive = (\<lambda>n t dv.
        let (r, tx) = driver_data dv;
            rx = status_bytes dv @ (if tx ! 0 = ReadRegister then map r (addresses (drop 1 tx)) else []);
            r' = (if tx ! 0 = WriteRegister then written r (address_values (drop 1 tx)) else r)
        in Ret ((int (length rx), rx), dv\<lparr>driver_data := (r', tx)\<rparr>))\<rparr>"

lemma address_bytes_value: "a < 65536 \<Longrightarrow> \<exists>h l. address_bytes a = [h, l] \<and> 256 * unat h + unat l = a"
  by (simp add: address_bytes_def unat_byte)

lemma addresses_bytes: "\<forall>a \<in> set as. a < 65536 \<Longrightarrow> addresses (concat (map address_bytes as)) = as"
  by (induction as) (use address_bytes_value in fastforce)+

lemma address_values_bytes:
  "\<forall>(a, v) \<in> set ws. a < 65536 \<Longrightarrow> address_values (concat (map (\<lambda>(a, v). address_bytes a @ [v]) ws)) = ws"
  by (induction ws) (use address_bytes_value in fastforce)+

lemma plain_chip_registers: "register_chip plain_chip fst"
  by (auto simp: register_chip_def answers_def plain_chip_def reads_command_def writes_command_def same_cache_def status_bytes_def
      addresses_bytes address_values_bytes)

definition plain_device :: "((nat \<Rightarrow> byte) \<times> bytes) nfc_device" where
  "plain_device = blank_device (\<lambda>_. 0x30, [])"

lemma registers_refine_memory_witness:
  "\<exists>res dv'. pn53x_write_register plain_chip PN53X_REG_CIU_TxMode 0x0f 0xa5 plain_device = Ret (res, dv') \<and>
     register_view fst dv' PN53X_REG_CIU_TxMode = 0x35"
proof -
  have chip: "wb_mask (chip_data plain_device) = replicate 62 0" "length (wb_data (chip_data plain_device)) = 62"
      "\<not> wb_trigged (chip_data plain_device)" "driver_data plain_device = (\<lambda>_. 0x30, [])"
    by (simp_all add: plain_device_def blank_device_def pn53x_data_new_def blank_chip_def cache_size nfc_device_new_def)
  have "cache_ok (chip_data plain_device)" using chip(1-3) by (simp add: cache_ok_def)
  from registers_refine_memory [OF plain_chip_registers this, where a = PN53X_REG_CIU_TxMode and m = "0x0f" and v = "0xa5"]
  obtain res dv' where "pn53x_write_register plain_chip PN53X_REG_CIU_TxMode 0x0f 0xa5 plain_device = Ret (res, dv')"
    "register_view fst dv' PN53X_REG_CIU_TxMode = (0xa5 AND 0x0f) OR (register_view fst plain_device PN53X_REG_CIU_TxMode AND NOT 0x0f)"
    by auto
  moreover have "register_view fst plain_device PN53X_REG_CIU_TxMode = 0x30"
    using chip(1,4) by (simp add: register_view_def shown_def)
  ultimately show ?thesis by auto
qed

end
