(* ===== verification/Nfc_Api.thy ===== *)
theory Nfc_Api
  imports Pn532_Uart
begin

text \<open>
  \<open>nfc.c\<close> and \<open>nfc-emulation.c\<close>: the interface of libnfc, over the table of functions a driver has, and the tables of the
  drivers.  What a driver has no function for is \<^const>\<open>None\<close> in its table.
\<close>

section \<open>Drivers\<close>

record 's nfc_driver =
  initiator_init :: "('s, int) op option"
  initiator_init_secure_element :: "('s, int) op option"
  initiator_select_passive_target ::
    "(nfc_modulation \<Rightarrow> bytes \<Rightarrow> nfc_target option \<Rightarrow> ('s, int \<times> nfc_target option) op) option"
  initiator_poll_target :: "(nfc_modulation list \<Rightarrow> byte \<Rightarrow> byte \<Rightarrow> nfc_target \<Rightarrow> ('s, int \<times> nfc_target) op) option"
  initiator_select_dep_target ::
    "(nfc_dep_mode \<Rightarrow> nfc_baud_rate \<Rightarrow> nfc_dep_info option \<Rightarrow> nfc_target option \<Rightarrow> int \<Rightarrow> ('s, int \<times> nfc_target option) op) option"
  initiator_deselect_target :: "('s, int) op option"
  initiator_transceive_bytes :: "(bytes \<Rightarrow> nat option \<Rightarrow> int \<Rightarrow> ('s, int \<times> bytes) op) option"
  initiator_transceive_bits :: "(bytes \<Rightarrow> nat \<Rightarrow> bytes \<Rightarrow> bool \<Rightarrow> ('s, int \<times> bytes \<times> bytes) op) option"
  initiator_transceive_bytes_timed :: "(bytes \<Rightarrow> 32 word \<Rightarrow> ('s, int \<times> bytes \<times> 32 word) op) option"
  initiator_transceive_bits_timed :: "(bytes \<Rightarrow> nat \<Rightarrow> 32 word \<Rightarrow> ('s, int \<times> bytes \<times> 32 word) op) option"
  initiator_target_is_present :: "(nfc_target \<Rightarrow> ('s, int) op) option"
  target_init :: "(nfc_target \<Rightarrow> nat \<Rightarrow> int \<Rightarrow> ('s, int \<times> nfc_target \<times> bytes) op) option"
  target_send_bytes :: "(bytes \<Rightarrow> int \<Rightarrow> ('s, int) op) option"
  target_receive_bytes :: "(nat \<Rightarrow> int \<Rightarrow> ('s, int \<times> bytes) op) option"
  target_send_bits :: "(bytes \<Rightarrow> nat \<Rightarrow> bytes \<Rightarrow> ('s, int) op) option"
  target_receive_bits :: "(nat \<Rightarrow> ('s, int \<times> bytes \<times> bytes) op) option"
  device_set_property_bool :: "(nfc_property \<Rightarrow> bool \<Rightarrow> ('s, int) op) option"
  device_set_property_int :: "(nfc_property \<Rightarrow> int \<Rightarrow> ('s, int) op) option"
  get_supported_modulation :: "('s nfc_device \<Rightarrow> nfc_mode \<Rightarrow> nfc_modulation_type list option) option"
  get_supported_baud_rate :: "('s nfc_device \<Rightarrow> nfc_modulation_type \<Rightarrow> nfc_baud_rate list) option"
  abort_command :: "('s, int) op option"
  device_idle :: "('s, int) op option"

text \<open>The table all PN53x drivers share, over their two functions for the chip; \<open>fresh\<close> is what two local targets of the
  polling hold before they are filled in.\<close>

definition pn53x_driver :: "'s pn53x_io \<Rightarrow> nfc_target \<times> nfc_target \<Rightarrow> ('s, int) op option \<Rightarrow> ('s, int) op option \<Rightarrow> 's nfc_driver" where
  "pn53x_driver io fresh secure abort =
     \<lparr>initiator_init = Some (pn53x_initiator_init io),
      initiator_init_secure_element = secure,
      initiator_select_passive_target = Some (pn53x_initiator_select_passive_target io),
      initiator_poll_target = Some (\<lambda>ms n p. pn53x_initiator_poll_target io ms n p fresh),
      initiator_select_dep_target = Some (pn53x_initiator_select_dep_target io),
      initiator_deselect_target = Some (pn53x_initiator_deselect_target io),
      initiator_transceive_bytes = Some (pn53x_initiator_transceive_bytes io),
      initiator_transceive_bits = Some (pn53x_initiator_transceive_bits io),
      initiator_transceive_bytes_timed = Some (pn53x_initiator_transceive_bytes_timed io),
      initiator_transceive_bits_timed = Some (pn53x_initiator_transceive_bits_timed io),
      initiator_target_is_present = Some (pn53x_initiator_target_is_present io),
      target_init = Some (pn53x_target_init io),
      target_send_bytes = Some (pn53x_target_send_bytes io),
      target_receive_bytes = Some (pn53x_target_receive_bytes io),
      target_send_bits = Some (pn53x_target_send_bits io),
      target_receive_bits = Some (pn53x_target_receive_bits io),
      device_set_property_bool = Some (pn53x_set_property_bool io),
      device_set_property_int = Some (pn53x_set_property_int io),
      get_supported_modulation = Some pn53x_get_supported_modulation,
      get_supported_baud_rate = Some (\<lambda>dv. pn53x_get_supported_baud_rate (chip_type dv)),
      abort_command = abort,
      device_idle = Some (pn53x_idle io)\<rparr>"

text \<open>The pipe is closed and made anew; a receive that waits on it meanwhile finds the event \<^const>\<open>Abort_asked\<close>.\<close>

definition pn532_uart_abort_command :: "int uart_op" where
  "pn532_uart_abort_command dv = Ret (NFC_SUCCESS, dv)"

definition pn532_uart_driver :: "nfc_target \<times> nfc_target \<Rightarrow> uart_port nfc_driver" where
  "pn532_uart_driver fresh =
     pn53x_driver pn532_uart_io fresh (Some (pn532_initiator_init_secure_element pn532_uart_io)) (Some pn532_uart_abort_command)"

section \<open>Calls\<close>

text \<open>The macro \<open>HAL\<close>: a call for which there is no function returns \<open>false\<close>, which is 0.\<close>

definition hal :: "('s, 'a) op option \<Rightarrow> 'a \<Rightarrow> ('s, 'a) op" where
  "hal f none dv =
     (case f of Some op \<Rightarrow> op (dv\<lparr>last_error := 0\<rparr>)
      | None \<Rightarrow> Ret (none, dv\<lparr>last_error := NFC_EDEVNOTSUPP\<rparr>))"

definition nfc_set_property_int :: "'s nfc_driver \<Rightarrow> nfc_property \<Rightarrow> int \<Rightarrow> ('s, int) op" where
  "nfc_set_property_int drv property value = hal (map_option (\<lambda>f. f property value) (device_set_property_int drv)) 0"

definition nfc_set_property_bool :: "'s nfc_driver \<Rightarrow> nfc_property \<Rightarrow> bool \<Rightarrow> ('s, int) op" where
  "nfc_set_property_bool drv property bEnable = hal (map_option (\<lambda>f. f property bEnable) (device_set_property_bool drv)) 0"

text \<open>Properties set one after the other, up to the first that fails.\<close>

fun set_properties :: "'s nfc_driver \<Rightarrow> (nfc_property \<times> bool) list \<Rightarrow> ('s, int) op" where
  "set_properties drv [] dv = Ret (NFC_SUCCESS, dv)"
| "set_properties drv ((p, b) # ps) dv = on_ok res_only (nfc_set_property_bool drv p b dv) (\<lambda>_ dv. set_properties drv ps dv)"

definition nfc_initiator_init :: "'s nfc_driver \<Rightarrow> ('s, int) op" where
  "nfc_initiator_init drv dv =
     on_ok res_only
       (set_properties drv
          [(NP_ACTIVATE_FIELD, False), (NP_ACTIVATE_FIELD, True), (NP_INFINITE_SELECT, True), (NP_AUTO_ISO14443_4, True),
           (NP_FORCE_ISO14443_A, True), (NP_FORCE_SPEED_106, True), (NP_ACCEPT_INVALID_FRAMES, False),
           (NP_ACCEPT_MULTIPLE_FRAMES, False)] dv)
       (\<lambda>_ dv. hal (initiator_init drv) 0 dv)"

definition nfc_initiator_init_secure_element :: "'s nfc_driver \<Rightarrow> ('s, int) op" where
  "nfc_initiator_init_secure_element drv = hal (initiator_init_secure_element drv) 0"

definition nfc_initiator_select_passive_target ::
    "'s nfc_driver \<Rightarrow> nfc_modulation \<Rightarrow> bytes \<Rightarrow> nfc_target option \<Rightarrow> ('s, int \<times> nfc_target option) op" where
  "nfc_initiator_select_passive_target drv m pbtInitData pnt =
     (let abtInit = (if nmt m = NMT_ISO14443A then iso14443_cascade_uid pbtInitData else pbtInitData) in
      hal (map_option (\<lambda>f. f m abtInit pnt) (initiator_select_passive_target drv)) (0, pnt))"

definition nfc_initiator_deselect_target :: "'s nfc_driver \<Rightarrow> ('s, int) op" where
  "nfc_initiator_deselect_target drv = hal (initiator_deselect_target drv) 0"

text \<open>The loop over the targets in the field: \<open>nt\<close> is the local target, \<open>found\<close> the array as far as it is filled; storing
  behind its \<open>szTargets\<close> elements is undefined.\<close>

function list_targets ::
    "'s nfc_driver \<Rightarrow> nfc_modulation \<Rightarrow> bytes \<Rightarrow> nat \<Rightarrow> nfc_target \<Rightarrow> nfc_target list \<Rightarrow> ('s, nfc_target list) op" where
  "list_targets drv m initData szTargets nt found dv =
     and_then (nfc_initiator_select_passive_target drv m initData (Some nt) dv) (\<lambda>((res, pnt), dv).
       let nt = (case pnt of Some t \<Rightarrow> t | None \<Rightarrow> nt) in
       if res \<le> 0 then Ret (found, dv)
       else if nt \<in> set found then Ret (found, dv)
       else if szTargets \<le> length found then Undefined
       else if szTargets = length found + 1 then Ret (found @ [nt], dv)
       else and_then (nfc_initiator_deselect_target drv dv) (\<lambda>(_, dv).
         if nmt m \<in> {NMT_FELICA, NMT_JEWEL, NMT_ISO14443BI, NMT_ISO14443B2SR, NMT_ISO14443B2CT} then Ret (found @ [nt], dv)
         else list_targets drv m initData szTargets nt (found @ [nt]) dv))"
  by pat_completeness auto

termination by (relation "measure (\<lambda>(drv, m, initData, szTargets, nt, found, dv). szTargets - length found)") auto

declare list_targets.simps [simp del]

definition nfc_initiator_list_passive_targets ::
    "'s nfc_driver \<Rightarrow> nfc_modulation \<Rightarrow> nat \<Rightarrow> nfc_target \<Rightarrow> ('s, int \<times> nfc_target list) op" where
  "nfc_initiator_list_passive_targets drv m szTargets fresh dv =
     on_ok (\<lambda>res. (res, [])) (nfc_set_property_bool drv NP_INFINITE_SELECT False (dv\<lparr>last_error := 0\<rparr>)) (\<lambda>_ dv.
       and_then (list_targets drv m (prepare_initiator_data (nmt m)) szTargets fresh [] dv) (\<lambda>(found, dv).
         Ret ((int (length found), found), dv)))"

definition nfc_initiator_poll_target ::
    "'s nfc_driver \<Rightarrow> nfc_modulation list \<Rightarrow> byte \<Rightarrow> byte \<Rightarrow> nfc_target \<Rightarrow> ('s, int \<times> nfc_target) op" where
  "nfc_initiator_poll_target drv ms uiPollNr uiPeriod pnt =
     hal (map_option (\<lambda>f. f ms uiPollNr uiPeriod pnt) (initiator_poll_target drv)) (0, pnt)"

definition nfc_initiator_select_dep_target ::
    "'s nfc_driver \<Rightarrow> nfc_dep_mode \<Rightarrow> nfc_baud_rate \<Rightarrow> nfc_dep_info option \<Rightarrow> nfc_target option \<Rightarrow> int \<Rightarrow>
     ('s, int \<times> nfc_target option) op" where
  "nfc_initiator_select_dep_target drv ndm rate pndiInitiator pnt timeout =
     hal (map_option (\<lambda>f. f ndm rate pndiInitiator pnt timeout) (initiator_select_dep_target drv)) (0, pnt)"

function poll_dep ::
    "'s nfc_driver \<Rightarrow> nfc_dep_mode \<Rightarrow> nfc_baud_rate \<Rightarrow> nfc_dep_info option \<Rightarrow> nfc_target option \<Rightarrow> int \<Rightarrow>
     ('s, int \<times> nfc_target option) op" where
  "poll_dep drv ndm rate pndiInitiator pnt remaining_time dv =
     (if remaining_time > 0 then
        and_then (nfc_initiator_select_dep_target drv ndm rate pndiInitiator pnt 300 dv) (\<lambda>((res, pnt), dv).
          if res < 0 \<and> res \<noteq> NFC_ETIMEOUT then Ret ((res, pnt), dv)
          else if res = 1 then Ret ((res, pnt), dv)
          else poll_dep drv ndm rate pndiInitiator pnt (remaining_time - 300) dv)
      else Ret ((0, pnt), dv))"
  by pat_completeness auto

termination by (relation "measure (\<lambda>(drv, ndm, rate, ndi, pnt, remaining_time, dv). nat remaining_time)") auto

declare poll_dep.simps [simp del]

definition nfc_initiator_poll_dep_target ::
    "'s nfc_driver \<Rightarrow> nfc_dep_mode \<Rightarrow> nfc_baud_rate \<Rightarrow> nfc_dep_info option \<Rightarrow> nfc_target option \<Rightarrow> int \<Rightarrow>
     ('s, int \<times> nfc_target option) op" where
  "nfc_initiator_poll_dep_target drv ndm rate pndiInitiator pnt timeout dv =
     on_ok (\<lambda>res. (res, pnt)) (nfc_set_property_bool drv NP_INFINITE_SELECT True dv) (\<lambda>_ dv.
       poll_dep drv ndm rate pndiInitiator pnt timeout dv)"

definition nfc_initiator_transceive_bytes :: "'s nfc_driver \<Rightarrow> bytes \<Rightarrow> nat option \<Rightarrow> int \<Rightarrow> ('s, int \<times> bytes) op" where
  "nfc_initiator_transceive_bytes drv pbtTx room timeout =
     hal (map_option (\<lambda>f. f pbtTx room timeout) (initiator_transceive_bytes drv)) (0, [])"

definition nfc_initiator_transceive_bits :: "'s nfc_driver \<Rightarrow> bytes \<Rightarrow> nat \<Rightarrow> bytes \<Rightarrow> bool \<Rightarrow> ('s, int \<times> bytes \<times> bytes) op" where
  "nfc_initiator_transceive_bits drv pbtTx szTxBits pbtTxPar wanted =
     hal (map_option (\<lambda>f. f pbtTx szTxBits pbtTxPar wanted) (initiator_transceive_bits drv)) (0, [], [])"

definition nfc_initiator_transceive_bytes_timed :: "'s nfc_driver \<Rightarrow> bytes \<Rightarrow> 32 word \<Rightarrow> ('s, int \<times> bytes \<times> 32 word) op" where
  "nfc_initiator_transceive_bytes_timed drv pbtTx cycles =
     hal (map_option (\<lambda>f. f pbtTx cycles) (initiator_transceive_bytes_timed drv)) (0, [], cycles)"

definition nfc_initiator_transceive_bits_timed :: "'s nfc_driver \<Rightarrow> bytes \<Rightarrow> nat \<Rightarrow> 32 word \<Rightarrow> ('s, int \<times> bytes \<times> 32 word) op" where
  "nfc_initiator_transceive_bits_timed drv pbtTx szTxBits cycles =
     hal (map_option (\<lambda>f. f pbtTx szTxBits cycles) (initiator_transceive_bits_timed drv)) (0, [], cycles)"

definition nfc_initiator_target_is_present :: "'s nfc_driver \<Rightarrow> nfc_target \<Rightarrow> ('s, int) op" where
  "nfc_initiator_target_is_present drv nt = hal (map_option (\<lambda>f. f nt) (initiator_target_is_present drv)) 0"

definition nfc_target_init :: "'s nfc_driver \<Rightarrow> nfc_target \<Rightarrow> nat \<Rightarrow> int \<Rightarrow> ('s, int \<times> nfc_target \<times> bytes) op" where
  "nfc_target_init drv t szRx timeout dv =
     on_ok (\<lambda>res. (res, t, []))
       (set_properties drv
          [(NP_ACCEPT_INVALID_FRAMES, False), (NP_ACCEPT_MULTIPLE_FRAMES, False), (NP_HANDLE_CRC, True), (NP_HANDLE_PARITY, True),
           (NP_AUTO_ISO14443_4, True), (NP_EASY_FRAMING, True), (NP_ACTIVATE_CRYPTO1, False), (NP_ACTIVATE_FIELD, False)] dv)
       (\<lambda>_ dv. hal (map_option (\<lambda>f. f t szRx timeout) (target_init drv)) (0, t, []) dv)"

definition nfc_idle :: "'s nfc_driver \<Rightarrow> ('s, int) op" where
  "nfc_idle drv = hal (device_idle drv) 0"

definition nfc_abort_command :: "'s nfc_driver \<Rightarrow> ('s, int) op" where
  "nfc_abort_command drv = hal (abort_command drv) 0"

definition nfc_target_send_bytes :: "'s nfc_driver \<Rightarrow> bytes \<Rightarrow> int \<Rightarrow> ('s, int) op" where
  "nfc_target_send_bytes drv pbtTx timeout = hal (map_option (\<lambda>f. f pbtTx timeout) (target_send_bytes drv)) 0"

definition nfc_target_receive_bytes :: "'s nfc_driver \<Rightarrow> nat \<Rightarrow> int \<Rightarrow> ('s, int \<times> bytes) op" where
  "nfc_target_receive_bytes drv szRx timeout = hal (map_option (\<lambda>f. f szRx timeout) (target_receive_bytes drv)) (0, [])"

definition nfc_target_send_bits :: "'s nfc_driver \<Rightarrow> bytes \<Rightarrow> nat \<Rightarrow> bytes \<Rightarrow> ('s, int) op" where
  "nfc_target_send_bits drv pbtTx szTxBits pbtTxPar = hal (map_option (\<lambda>f. f pbtTx szTxBits pbtTxPar) (target_send_bits drv)) 0"

definition nfc_target_receive_bits :: "'s nfc_driver \<Rightarrow> nat \<Rightarrow> ('s, int \<times> bytes \<times> bytes) op" where
  "nfc_target_receive_bits drv szRx = hal (map_option (\<lambda>f. f szRx) (target_receive_bits drv)) (0, [], [])"

definition nfc_device_get_supported_modulation ::
    "'s nfc_driver \<Rightarrow> nfc_mode \<Rightarrow> ('s, int \<times> nfc_modulation_type list option) op" where
  "nfc_device_get_supported_modulation drv mode =
     hal (map_option (\<lambda>f dv. Ret ((NFC_SUCCESS, f dv mode), dv)) (get_supported_modulation drv)) (0, None)"

definition nfc_device_get_supported_baud_rate ::
    "'s nfc_driver \<Rightarrow> nfc_modulation_type \<Rightarrow> ('s, int \<times> nfc_baud_rate list option) op" where
  "nfc_device_get_supported_baud_rate drv t =
     hal (map_option (\<lambda>f dv. Ret ((NFC_SUCCESS, Some (f dv t)), dv)) (get_supported_baud_rate drv)) (0, None)"

section \<open>Emulation\<close>

text \<open>What a state machine answers: its result, the bytes it stored, and its own data and target afterwards.\<close>

type_synonym 'e emulator_io = "'e \<Rightarrow> nfc_target \<Rightarrow> bytes \<Rightarrow> nat \<Rightarrow> (int \<times> bytes \<times> 'e \<times> nfc_target) outcome"

abbreviation (input) ISO7816_SHORT_C_APDU_MAX_LEN :: nat where "ISO7816_SHORT_C_APDU_MAX_LEN \<equiv> 262"
abbreviation (input) ISO7816_SHORT_R_APDU_MAX_LEN :: nat where "ISO7816_SHORT_R_APDU_MAX_LEN \<equiv> 258"

text \<open>One turn of the loop: the result to return, or what was received for the next turn.\<close>

definition emulation_turn ::
    "'s nfc_driver \<Rightarrow> 'e emulator_io \<Rightarrow> 'e \<Rightarrow> nfc_target \<Rightarrow> bytes \<Rightarrow> ('s, (int + bytes) \<times> 'e \<times> nfc_target) op" where
  "emulation_turn drv emu e t rx dv =
     and_then (emu e t rx ISO7816_SHORT_C_APDU_MAX_LEN) (\<lambda>(io_res, abtTx, e, t).
      if io_res < 0 then Ret ((Inl io_res, e, t), dv)
      else if int (length abtTx) < io_res then Undefined
      else on_ok (\<lambda>res. (Inl res, e, t))
             (if io_res > 0 then nfc_target_send_bytes drv (take (nat io_res) abtTx) 0 dv else Ret (NFC_SUCCESS, dv)) (\<lambda>_ dv.
           on_rx (\<lambda>res. (Inl res, e, t)) (nfc_target_receive_bytes drv ISO7816_SHORT_R_APDU_MAX_LEN 0 dv) (\<lambda>res rx dv.
             Ret ((Inr (take (nat res) rx), e, t), dv))))"

partial_function (option) emulation_loop ::
    "'s nfc_driver \<Rightarrow> 'e emulator_io \<Rightarrow> 'e \<Rightarrow> nfc_target \<Rightarrow> bytes \<Rightarrow> 's nfc_device \<Rightarrow>
     ((int \<times> 'e \<times> nfc_target) \<times> 's nfc_device) outcome option" where
  "emulation_loop drv emu e t rx dv =
     (case emulation_turn drv emu e t rx dv of
        Ret ((Inl res, e', t'), dv') \<Rightarrow> Some (Ret ((res, e', t'), dv'))
      | Ret ((Inr rx', e', t'), dv') \<Rightarrow> emulation_loop drv emu e' t' rx' dv'
      | Blocks \<Rightarrow> Some Blocks
      | Aborts \<Rightarrow> Some Aborts
      | Undefined \<Rightarrow> Some Undefined)"

definition nfc_emulate_target :: "'s nfc_driver \<Rightarrow> 'e emulator_io \<Rightarrow> 'e \<Rightarrow> nfc_target \<Rightarrow> ('s, int \<times> 'e \<times> nfc_target) op" where
  "nfc_emulate_target drv emu e t dv =
     and_then (nfc_target_init drv t ISO7816_SHORT_R_APDU_MAX_LEN 0 dv) (\<lambda>((res, t, rx), dv).
       if res < 0 then Ret ((res, e, t), dv)
       else and_then (of_run (emulation_loop drv emu e t (take (nat res) rx) dv)) (\<lambda>r. r))"

section \<open>Finding and opening devices\<close>

text \<open>A driver as it is found: its name, \<open>probe\<close>, which stores up to so many connection strings and says whether there are
  any, and \<open>open\<close>; both may change the world, which nothing else here looks at.\<close>

record ('w, 'd) finder =
  finder_name :: string
  finder_probe :: "nat \<Rightarrow> 'w \<Rightarrow> ((bool \<times> string list) \<times> 'w) outcome"
  finder_open :: "string \<Rightarrow> 'w \<Rightarrow> ('d option \<times> 'w) outcome"

text \<open>The names of \<open>nfc_drivers\<close>, in their order, with all drivers enabled.\<close>

definition nfc_drivers :: "string list" where
  "nfc_drivers = [''pn53x_usb'', ''acr122_pcsc'', ''acr122_usb'', ''ACR122S'', ''pn532_uart'', ''arygon'']"

fun nfc_list_devices :: "('w, 'd) finder list \<Rightarrow> nat \<Rightarrow> string list \<Rightarrow> 'w \<Rightarrow> (string list \<times> 'w) outcome" where
  "nfc_list_devices [] szDevices found w = Ret (found, w)"
| "nfc_list_devices (d # ds) szDevices found w =
     and_then (finder_probe d (szDevices - length found) w) (\<lambda>((any, cs), w).
       if any then
         (if length found + length cs = szDevices then Ret (found @ cs, w) else nfc_list_devices ds szDevices (found @ cs) w)
       else nfc_list_devices ds szDevices found w)"

abbreviation (input) connstring_size :: nat where "connstring_size \<equiv> 1024"

text \<open>A string that fills its array to the last place is not ended.\<close>

definition copy_connstring :: "string \<Rightarrow> string outcome" where
  "copy_connstring s = (if length s < connstring_size then Ret s else Undefined)"

definition nfc_get_default_device ::
    "string option \<Rightarrow> ('w, 'd) finder list \<Rightarrow> 'w \<Rightarrow> (string option \<times> 'w) outcome" where
  "nfc_get_default_device env drivers w =
     (case env of
        None \<Rightarrow> and_then (nfc_list_devices drivers 1 [] w) (\<lambda>(cs, w).
          case cs of [] \<Rightarrow> Ret (None, w) | c # _ \<Rightarrow> and_then (copy_connstring c) (\<lambda>c. Ret (Some c, w)))
      | Some c \<Rightarrow> and_then (copy_connstring c) (\<lambda>c. Ret (Some c, w)))"

definition is_prefix :: "string \<Rightarrow> string \<Rightarrow> bool" where
  "is_prefix p s \<longleftrightarrow> take (length p) s = p"

fun open_first :: "('w, 'd) finder list \<Rightarrow> string \<Rightarrow> 'w \<Rightarrow> ('d option \<times> 'w) outcome" where
  "open_first [] ncs w = Ret (None, w)"
| "open_first (d # ds) ncs w =
     (let usb = is_prefix ''usb'' ncs; name = finder_name d in
      if \<not> is_prefix name ncs \<and> (\<not> usb \<or> drop (length name - 4) name \<noteq> ''_usb'') then open_first ds ncs w
      else and_then (finder_open d ncs w) (\<lambda>(pnd, w).
        case pnd of
          Some _ \<Rightarrow> Ret (pnd, w)
        | None \<Rightarrow> if usb then open_first ds ncs w else Ret (None, w)))"

definition nfc_open :: "string option \<Rightarrow> ('w, 'd) finder list \<Rightarrow> string option \<Rightarrow> 'w \<Rightarrow> ('d option \<times> 'w) outcome" where
  "nfc_open env drivers connstring w =
     (case connstring of
        None \<Rightarrow> and_then (nfc_get_default_device env drivers w) (\<lambda>(cs, w).
          case cs of None \<Rightarrow> Ret (None, w) | Some ncs \<Rightarrow> open_first drivers ncs w)
      | Some c \<Rightarrow> and_then (copy_connstring c) (\<lambda>ncs. open_first drivers ncs w))"

section \<open>Texts\<close>

definition NFC_ENOTSUCHDEV :: int where "NFC_ENOTSUCHDEV = - 4"

definition nfc_error_texts :: "(int \<times> string) list" where
  "nfc_error_texts =
     [(NFC_SUCCESS, ''Success''), (NFC_EIO, ''Input / Output Error''), (NFC_EINVARG, ''Invalid argument(s)''),
      (NFC_EDEVNOTSUPP, ''Not Supported by Device''), (NFC_ENOTSUCHDEV, ''No Such Device''), (NFC_EOVFLOW, ''Buffer Overflow''),
      (NFC_ETIMEOUT, ''Timeout''), (NFC_EOPABORTED, ''Operation Aborted''), (NFC_ENOTIMPL, ''Not (yet) Implemented''),
      (NFC_ETGRELEASED, ''Target Released''), (NFC_ERFTRANS, ''RF Transmission Error''),
      (NFC_ECHIP, ''Device's Internal Chip Error'')]"

definition nfc_strerror :: "'s nfc_device \<Rightarrow> string" where
  "nfc_strerror dv = (case map_of nfc_error_texts (last_error dv) of Some s \<Rightarrow> s | None \<Rightarrow> ''Unknown error'')"

text \<open>What the buffer holds: cut to its size, with the NUL, or nothing.\<close>

definition nfc_strerror_r :: "'s nfc_device \<Rightarrow> nat \<Rightarrow> int \<times> string" where
  "nfc_strerror_r dv szBufLen = (0, if szBufLen = 0 then [] else take (szBufLen - 1) (nfc_strerror dv) @ [CHR 0x00])"

definition nfc_device_get_last_error :: "'s nfc_device \<Rightarrow> int" where
  "nfc_device_get_last_error dv = last_error dv"

fun str_nfc_baud_rate :: "nfc_baud_rate \<Rightarrow> string" where
  "str_nfc_baud_rate NBR_UNDEFINED = ''undefined baud rate''"
| "str_nfc_baud_rate NBR_106 = ''106 kbps''"
| "str_nfc_baud_rate NBR_212 = ''212 kbps''"
| "str_nfc_baud_rate NBR_424 = ''424 kbps''"
| "str_nfc_baud_rate NBR_847 = ''847 kbps''"

fun str_nfc_modulation_type :: "nfc_modulation_type \<Rightarrow> string" where
  "str_nfc_modulation_type NMT_ISO14443A = ''ISO/IEC 14443A''"
| "str_nfc_modulation_type NMT_ISO14443B = ''ISO/IEC 14443-4B''"
| "str_nfc_modulation_type NMT_ISO14443BI = ''ISO/IEC 14443-4B'' @ [CHR 0x27]"
| "str_nfc_modulation_type NMT_ISO14443B2CT = ''ISO/IEC 14443-2B ASK CTx''"
| "str_nfc_modulation_type NMT_ISO14443B2SR = ''ISO/IEC 14443-2B ST SRx''"
| "str_nfc_modulation_type NMT_FELICA = ''FeliCa''"
| "str_nfc_modulation_type NMT_JEWEL = ''Innovision Jewel''"
| "str_nfc_modulation_type NMT_DEP = ''D.E.P.''"

end
