(* ===== verification/Nfc_Listing.thy ===== *)
theory Nfc_Listing
  imports Nfc_Api
begin

text \<open>
  What listing the targets in the field gives, over any driver: which selections of the run the listed targets come
  from, why the listing stopped, and that it fails to return only where one of the calls it makes fails to return.
\<close>

section \<open>The calls of a listing\<close>

abbreviation selection :: "'s nfc_driver \<Rightarrow> nfc_modulation \<Rightarrow> nfc_target \<times> 's nfc_device \<Rightarrow>
    ((int \<times> nfc_target option) \<times> 's nfc_device) outcome" where
  "selection drv m s \<equiv> nfc_initiator_select_passive_target drv m (prepare_initiator_data (nmt m)) (Some (fst s)) (snd s)"

definition written :: "nfc_target \<Rightarrow> nfc_target option \<Rightarrow> nfc_target" where
  "written nt pnt = (case pnt of Some t \<Rightarrow> t | None \<Rightarrow> nt)"

definition one_at_a_time :: "nfc_modulation \<Rightarrow> bool" where
  "one_at_a_time m \<longleftrightarrow> nmt m \<in> {NMT_FELICA, NMT_JEWEL, NMT_ISO14443BI, NMT_ISO14443B2SR, NMT_ISO14443B2CT}"

text \<open>Selecting and deselecting again and again, from the local target and the device on: the targets \<open>ts\<close> were written
  one after the other, and this is the local target and the device afterwards.\<close>

inductive offering :: "'s nfc_driver \<Rightarrow> nfc_modulation \<Rightarrow> nfc_target \<times> 's nfc_device \<Rightarrow> nfc_target list \<Rightarrow>
    nfc_target \<times> 's nfc_device \<Rightarrow> bool" for drv m where
  nothing: "offering drv m s [] s"
| again: "offering drv m s ts (nt, dv) \<Longrightarrow> selection drv m (nt, dv) = Ret ((res, pnt), dv1) \<Longrightarrow> 0 < res \<Longrightarrow>
    nfc_initiator_deselect_target drv dv1 = Ret (r, dv2) \<Longrightarrow>
    offering drv m s (ts @ [written nt pnt]) (written nt pnt, dv2)"

text \<open>Why a listing with room for \<open>n\<close> targets ends with \<open>ts\<close>: the next selection finds nothing or a target that is
  listed already; the last place is filled; or targets of the kind are looked for one at a time.\<close>

definition nothing_new :: "'s nfc_driver \<Rightarrow> nfc_modulation \<Rightarrow> nfc_target \<times> 's nfc_device \<Rightarrow> nfc_target list \<Rightarrow> bool" where
  "nothing_new drv m s ts \<longleftrightarrow> (\<exists>nt dv res pnt dv'. offering drv m s ts (nt, dv) \<and>
     selection drv m (nt, dv) = Ret ((res, pnt), dv') \<and> (res \<le> 0 \<or> written nt pnt \<in> set ts))"

definition filled :: "'s nfc_driver \<Rightarrow> nfc_modulation \<Rightarrow> nat \<Rightarrow> nfc_target \<times> 's nfc_device \<Rightarrow> nfc_target list \<Rightarrow> bool" where
  "filled drv m n s ts \<longleftrightarrow> length ts = n \<and> (\<exists>ts' nt dv res pnt dv'. ts = ts' @ [written nt pnt] \<and>
     offering drv m s ts' (nt, dv) \<and> selection drv m (nt, dv) = Ret ((res, pnt), dv') \<and> 0 < res)"

definition listing_ends :: "'s nfc_driver \<Rightarrow> nfc_modulation \<Rightarrow> nat \<Rightarrow> nfc_target \<times> 's nfc_device \<Rightarrow> nfc_target list \<Rightarrow> bool" where
  "listing_ends drv m n s ts \<longleftrightarrow> nothing_new drv m s ts \<or> filled drv m n s ts \<or>
     one_at_a_time m \<and> length ts = 1 \<and> (\<exists>s'. offering drv m s ts s')"

text \<open>How a run fails to return, and that a selection or a deselection of this listing fails so.\<close>

abbreviation fate :: "'a outcome \<Rightarrow> unit outcome" where
  "fate r \<equiv> map_outcome (\<lambda>_. ()) r"

definition call_fails :: "'s nfc_driver \<Rightarrow> nfc_modulation \<Rightarrow> nat \<Rightarrow> nfc_target \<times> 's nfc_device \<Rightarrow> unit outcome \<Rightarrow> bool" where
  "call_fails drv m n s e \<longleftrightarrow> (\<exists>ts nt dv. offering drv m s ts (nt, dv) \<and> distinct ts \<and> length ts < n \<and>
     (fate (selection drv m (nt, dv)) = e \<or>
      (\<exists>res pnt dv'. selection drv m (nt, dv) = Ret ((res, pnt), dv') \<and> 0 < res \<and>
         fate (nfc_initiator_deselect_target drv dv') = e)))"

lemma nothing_newI:
  "offering drv m s ts (nt, dv) \<Longrightarrow> selection drv m (nt, dv) = Ret ((res, pnt), dv') \<Longrightarrow>
     res \<le> 0 \<or> written nt pnt \<in> set ts \<Longrightarrow> nothing_new drv m s ts"
  unfolding nothing_new_def by blast

lemma filledI:
  "offering drv m s ts (nt, dv) \<Longrightarrow> selection drv m (nt, dv) = Ret ((res, pnt), dv') \<Longrightarrow> 0 < res \<Longrightarrow>
     n = length ts + 1 \<Longrightarrow> filled drv m n s (ts @ [written nt pnt])"
  unfolding filled_def by (intro conjI exI [of _ ts] exI [of _ nt] exI [of _ dv]) (simp, blast)

lemma call_failsI:
  "offering drv m s ts (nt, dv) \<Longrightarrow> distinct ts \<Longrightarrow> length ts < n \<Longrightarrow> fate (selection drv m (nt, dv)) = e \<Longrightarrow>
     call_fails drv m n s e"
  "offering drv m s ts (nt, dv) \<Longrightarrow> distinct ts \<Longrightarrow> length ts < n \<Longrightarrow>
     selection drv m (nt, dv) = Ret ((res, pnt), dv') \<Longrightarrow> 0 < res \<Longrightarrow>
     fate (nfc_initiator_deselect_target drv dv') = e \<Longrightarrow> call_fails drv m n s e"
  unfolding call_fails_def by blast+

lemma fate_Ret: "fate r = Ret () \<longleftrightarrow> (\<exists>x. r = Ret x)"
  by (cases r) auto

lemma fate_and_then: "fate m \<noteq> Ret () \<Longrightarrow> fate (and_then m k) = fate m"
  by (cases m) auto

section \<open>Listing targets\<close>

lemma list_targets_lists:
  assumes "offering drv m s found (nt, dv)" "distinct found" "length found < n" "one_at_a_time m \<Longrightarrow> found = []"
  shows "case list_targets drv m (prepare_initiator_data (nmt m)) n nt found dv of
      Ret (ts, dv') \<Rightarrow> distinct ts \<and> length ts \<le> n \<and> listing_ends drv m n s ts
    | r \<Rightarrow> call_fails drv m n s (fate r)"
  using assms
proof (induction "n - length found" arbitrary: nt found dv rule: less_induct)
  case less
  note step = list_targets.simps [of drv m "prepare_initiator_data (nmt m)" n nt found dv]
  show ?case
  proof (cases "\<exists>x. selection drv m (nt, dv) = Ret x")
    case False
    then have "call_fails drv m n s (fate (selection drv m (nt, dv)))"
      by (intro call_failsI(1) [OF less.prems(1-3)]) simp
    with False show ?thesis unfolding step
      by (cases "nfc_initiator_select_passive_target drv m (prepare_initiator_data (nmt m)) (Some nt) dv") auto
  next
    case True
    then obtain res pnt dv1 where sel: "selection drv m (nt, dv) = Ret ((res, pnt), dv1)" by (metis surj_pair)
    define t where "t = written nt pnt"
    show ?thesis
    proof (cases "res \<le> 0 \<or> t \<in> set found")
      case True
      have "nothing_new drv m s found"
        using True by (intro nothing_newI [OF less.prems(1) sel]) (simp add: t_def)
      then show ?thesis
        unfolding step using sel True less.prems by (auto simp: listing_ends_def t_def written_def Let_def)
    next
      case new: False
      show ?thesis
      proof (cases "n = length found + 1")
        case True
        have "filled drv m n s (found @ [t])"
          unfolding t_def using new True by (intro filledI [OF less.prems(1) sel]) simp_all
        then show ?thesis
          unfolding step using sel new True less.prems by (auto simp: listing_ends_def t_def written_def Let_def)
      next
        case room: False
        have call: "list_targets drv m (prepare_initiator_data (nmt m)) n nt found dv =
            and_then (nfc_initiator_deselect_target drv dv1) (\<lambda>(_, dv).
              if one_at_a_time m then Ret (found @ [t], dv)
              else list_targets drv m (prepare_initiator_data (nmt m)) n t (found @ [t]) dv)"
          unfolding step t_def using sel new [unfolded t_def] room less.prems(3)
          by (simp add: written_def one_at_a_time_def Let_def cong: if_cong)
        show ?thesis
        proof (cases "\<exists>x. nfc_initiator_deselect_target drv dv1 = Ret x")
          case False
          then have "call_fails drv m n s (fate (nfc_initiator_deselect_target drv dv1))"
            using new by (intro call_failsI(2) [OF less.prems(1-3) sel]) simp_all
          with False show ?thesis unfolding call by (cases "nfc_initiator_deselect_target drv dv1") auto
        next
          case True
          then obtain r dv2 where des: "nfc_initiator_deselect_target drv dv1 = Ret (r, dv2)" by auto
          have off: "offering drv m s (found @ [t]) (t, dv2)"
            unfolding t_def using less.prems(1) sel _ des by (rule offering.again) (use new in simp)
          have d: "distinct (found @ [t])" "length (found @ [t]) < n" using less.prems new room by auto
          show ?thesis
          proof (cases "one_at_a_time m")
            case True
            then show ?thesis
              unfolding call des using off d less.prems(4) by (auto simp: listing_ends_def)
          next
            case False
            have "n - length (found @ [t]) < n - length found" using less.prems(3) by simp
            from less.hyps [OF this off d] False show ?thesis unfolding call des by simp
          qed
        qed
      qed
    qed
  qed
qed

text \<open>C32. Listing the targets in the field, over any driver and with room for one target at least.  The listing always comes to an
  end if the calls it makes do: where it does not return, the setting of the property, or one of the selections and deselections
  of this very run, fails to return in the same way.  When it returns, either the property could not be set, and nothing is listed, or it
  returns the count of the targets it lists: no more than there is room for, no two of them the same, exactly those that the
  successive selections of the run have written, up to the first that finds nothing or one that is listed already, or up to the last
  place, or only the first one for the kinds of targets that are looked for one at a time.\<close>
theorem listed_targets:
  assumes "0 < szTargets"
  shows "let set = nfc_set_property_bool drv NP_INFINITE_SELECT False (dv\<lparr>last_error := 0\<rparr>) in
    case nfc_initiator_list_passive_targets drv m szTargets fresh dv of
      Ret ((res, ts), dv') \<Rightarrow>
        (\<exists>r dv1. set = Ret (r, dv1) \<and>
          (if r < 0 then res = r \<and> ts = []
           else res = int (length ts) \<and> length ts \<le> szTargets \<and> distinct ts \<and>
             listing_ends drv m szTargets (fresh, dv1) ts))
    | e \<Rightarrow> fate set = fate e \<or>
        (\<exists>r dv1. set = Ret (r, dv1) \<and> 0 \<le> r \<and> call_fails drv m szTargets (fresh, dv1) (fate e))"
proof (cases "nfc_set_property_bool drv NP_INFINITE_SELECT False (dv\<lparr>last_error := 0\<rparr>)")
  case (Ret x)
  obtain r dv1 where x: "x = (r, dv1)" by (cases x)
  show ?thesis
  proof (cases "r < 0")
    case True
    then show ?thesis by (simp add: nfc_initiator_list_passive_targets_def on_ok_def Ret x Let_def)
  next
    case False
    have call: "nfc_initiator_list_passive_targets drv m szTargets fresh dv =
        and_then (list_targets drv m (prepare_initiator_data (nmt m)) szTargets fresh [] dv1)
          (\<lambda>(found, dv). Ret ((int (length found), found), dv))"
      using False by (simp add: nfc_initiator_list_passive_targets_def on_ok_def Ret x)
    have "offering drv m (fresh, dv1) [] (fresh, dv1)" by (rule offering.nothing)
    from list_targets_lists [OF this, of szTargets] assms False show ?thesis
      unfolding call Ret x Let_def
      by (cases "list_targets drv m (prepare_initiator_data (nmt m)) szTargets fresh [] dv1") auto
  qed
qed (simp_all add: nfc_initiator_list_passive_targets_def on_ok_def Let_def)

text \<open>A driver that has targets on a tray and takes them off one by one.\<close>

definition tray_select :: "nfc_modulation \<Rightarrow> bytes \<Rightarrow> nfc_target option \<Rightarrow> (nfc_target list, int \<times> nfc_target option) op" where
  "tray_select m d pnt dv =
     (case driver_data dv of
        [] \<Rightarrow> Ret ((0, pnt), dv)
      | t # ts \<Rightarrow> Ret ((1, map_option (\<lambda>_. t) pnt), dv\<lparr>driver_data := ts\<rparr>))"

definition tray_driver :: "nfc_target list nfc_driver" where
  "tray_driver =
     (pn53x_driver \<lparr>io_send = (\<lambda>_ _ _. Blocks), io_receive = (\<lambda>_ _ _. Blocks)\<rparr> undefined None None)
       \<lparr>initiator_select_passive_target := Some tray_select,
        initiator_deselect_target := Some (\<lambda>dv. Ret (NFC_SUCCESS, dv)),
        device_set_property_bool := None\<rparr>"

lemma tray_calls:
  "\<exists>x. selection tray_driver m s = Ret x" "\<exists>x. nfc_initiator_deselect_target tray_driver dv = Ret x"
  by (simp_all add: nfc_initiator_select_passive_target_def nfc_initiator_deselect_target_def hal_def tray_driver_def
      tray_select_def split: list.split)

lemma listed_targets_witness:
  "\<forall>m fresh dv. \<exists>res ts dv'. nfc_initiator_list_passive_targets tray_driver m 2 fresh dv = Ret ((res, ts), dv') \<and>
    length ts \<le> 2 \<and> distinct ts"
proof (intro allI)
  fix m fresh dv
  let ?l = "nfc_initiator_list_passive_targets tray_driver m 2 fresh dv"
  have never: "\<not> call_fails tray_driver m 2 s e" if "e \<noteq> Ret ()" for s and e :: "unit outcome"
    using that tray_calls fate_Ret unfolding call_fails_def by (metis (no_types))
  have "\<exists>x. nfc_set_property_bool tray_driver NP_INFINITE_SELECT False (dv\<lparr>last_error := 0\<rparr>) = Ret x"
    by (simp add: nfc_set_property_bool_def hal_def tray_driver_def)
  then show "\<exists>res ts dv'. ?l = Ret ((res, ts), dv') \<and> length ts \<le> 2 \<and> distinct ts"
    using listed_targets [of 2 tray_driver dv m fresh] never
    by (cases ?l) (auto simp: Let_def split: if_splits)
qed

end
