(* ===== verification/Usb_Bulk.thy ===== *)
theory Usb_Bulk
  imports Nfc_Api
begin

text \<open>
  What the two USB drivers, \<open>drivers/pn53x_usb.c\<close> and \<open>drivers/acr122_usb.c\<close>, have in common: the data they keep, the
  choice of the endpoints, the loop that reads in passes of 200 ms, and the connection string.  The USB library is not part
  of the sources; its two transfers are an argument.
\<close>

section \<open>The library\<close>

text \<open>A read takes the endpoint, the room and a timeout, and gives a result and what it stored - as many bytes as the result
  says, when it is not negative; the flag says that an abort was asked for while it waited.  A write takes the endpoint, the
  bytes and a timeout.\<close>

record 'u usb_lib =
  usb_bulk_read :: "32 word \<Rightarrow> nat \<Rightarrow> int \<Rightarrow> 'u \<Rightarrow> (int \<times> bytes \<times> bool) \<times> 'u"
  usb_bulk_write :: "32 word \<Rightarrow> bytes \<Rightarrow> int \<Rightarrow> 'u \<Rightarrow> int \<times> 'u"

abbreviation (input) USB_TIMEDOUT :: int where "USB_TIMEDOUT \<equiv> 110"
abbreviation (input) USB_TIMEOUT_PER_PASS :: int where "USB_TIMEOUT_PER_PASS \<equiv> 200"
abbreviation (input) USB_BUFFER_LEN :: nat where "USB_BUFFER_LEN \<equiv> 275"

record ('u, 'm) usb_data =
  pudh :: 'u
  usb_model :: 'm
  uiEndPointIn :: "32 word"
  uiEndPointOut :: "32 word"
  uiMaxPacketSize :: "32 word"
  abort_flag :: bool

type_synonym ('u, 'm, 'a) usb_op = "(('u, 'm) usb_data, 'a) op"

definition on_usb :: "(('u, 'm) usb_data \<Rightarrow> ('u, 'm) usb_data) \<Rightarrow> ('u, 'm) usb_data nfc_device \<Rightarrow> ('u, 'm) usb_data nfc_device" where
  "on_usb f dv = dv\<lparr>driver_data := f (driver_data dv)\<rparr>"

section \<open>Endpoints\<close>

record usb_endpoint =
  bmAttributes :: byte
  bEndpointAddress :: byte
  wMaxPacketSize :: "16 word"

text \<open>The last bulk endpoint of either direction wins; the packet size is that of the last one of both.\<close>

fun get_end_points :: "usb_endpoint list \<Rightarrow> ('u, 'm) usb_data \<Rightarrow> ('u, 'm) usb_data" where
  "get_end_points [] d = d"
| "get_end_points (e # es) d =
     get_end_points es
       (if bmAttributes e \<noteq> 2 then d
        else if bEndpointAddress e AND 0x80 = 0x80
        then d\<lparr>uiEndPointIn := ucast (bEndpointAddress e), uiMaxPacketSize := ucast (wMaxPacketSize e)\<rparr>
        else d\<lparr>uiEndPointOut := ucast (bEndpointAddress e), uiMaxPacketSize := ucast (wMaxPacketSize e)\<rparr>)"

section \<open>Transfers\<close>

text \<open>A transfer that ends at the border of a packet is followed by an empty one; the packet size 0 traps.\<close>

definition bulk_write :: "'u usb_lib \<Rightarrow> bytes \<Rightarrow> int \<Rightarrow> ('u, 'm, int) usb_op" where
  "bulk_write lib abtTx timeout dv =
     (let d = driver_data dv; (res, u) = usb_bulk_write lib (uiEndPointOut d) abtTx timeout (pudh d) in
      if res > 0 then
        (if uiMaxPacketSize d = 0 then Undefined
         else if word_of_int res mod uiMaxPacketSize d = 0 then
           Ret (res, on_usb (\<lambda>d. d\<lparr>pudh := snd (usb_bulk_write lib (uiEndPointOut d) [] timeout u)\<rparr>) dv)
         else Ret (res, on_usb (\<lambda>d. d\<lparr>pudh := u\<rparr>) dv))
      else Ret (res, on_usb (\<lambda>d. d\<lparr>pudh := u\<rparr>) dv))"

definition bulk_read :: "'u usb_lib \<Rightarrow> nat \<Rightarrow> int \<Rightarrow> ('u, 'm, int \<times> bytes) usb_op" where
  "bulk_read lib szRx timeout dv =
     (let d = driver_data dv; ((res, rx, asked), u) = usb_bulk_read lib (uiEndPointIn d) szRx timeout (pudh d) in
      Ret ((res, rx), on_usb (\<lambda>d. d\<lparr>pudh := u, abort_flag := abort_flag d \<or> asked\<rparr>) dv))"

section \<open>Reading in passes\<close>

text \<open>From the label \<open>read\<close> on, behind the choice of the time of a pass: what is read, an error, or another pass.\<close>

datatype pass_end = Again | Failed int | Got bytes

definition read_pass ::
    "('u, 'm, int \<times> bytes) usb_op \<Rightarrow> ('u, 'm, int) usb_op \<Rightarrow> int \<Rightarrow> ('u, 'm, pass_end) usb_op" where
  "read_pass rd ack timed_out dv =
     and_then (rd dv) (\<lambda>((res, rx), dv).
       if res = timed_out then
         (if abort_flag (driver_data dv) then
            and_then (ack (on_usb (\<lambda>d. d\<lparr>abort_flag := False\<rparr>) dv)) (\<lambda>(_, dv). Ret (Failed NFC_EOPABORTED, dv))
          else Ret (Again, dv))
       else if res < 0 then and_then (ack dv) (\<lambda>(_, dv). Ret (Failed res, dv))
       else Ret (Got rx, dv))"

text \<open>The time of the next pass, or none when the time is up.\<close>

definition pass_time :: "int \<Rightarrow> int \<Rightarrow> int option" where
  "pass_time timeout remaining_time =
     (if timeout = 0 then Some USB_TIMEOUT_PER_PASS
      else if remaining_time - USB_TIMEOUT_PER_PASS \<le> 0 then None
      else Some (min (remaining_time - USB_TIMEOUT_PER_PASS) USB_TIMEOUT_PER_PASS))"

partial_function (option) read_passes ::
    "(int \<Rightarrow> ('u, 'm, pass_end) usb_op) \<Rightarrow> int \<Rightarrow> int \<Rightarrow> ('u, 'm) usb_data nfc_device \<Rightarrow>
     (pass_end \<times> ('u, 'm) usb_data nfc_device) outcome option" where
  "read_passes pass timeout remaining_time dv =
     (case pass_time timeout remaining_time of
        None \<Rightarrow> Some (Ret (Failed NFC_ETIMEOUT, dv))
      | Some usb_timeout \<Rightarrow>
          (case pass usb_timeout dv of
             Ret (Again, dv') \<Rightarrow> read_passes pass timeout (remaining_time - USB_TIMEOUT_PER_PASS) dv'
           | Ret (Failed e, dv') \<Rightarrow> Some (Ret (Failed e, dv'))
           | Ret (Got rx, dv') \<Rightarrow> Some (Ret (Got rx, dv'))
           | Blocks \<Rightarrow> Some Blocks
           | Aborts \<Rightarrow> Some Aborts
           | Undefined \<Rightarrow> Some Undefined))"

text \<open>A receive: what the passes give is taken apart by \<open>decode\<close>, which stores its error, if there is one.\<close>

definition usb_receive ::
    "(int \<Rightarrow> ('u, 'm, pass_end) usb_op) \<Rightarrow> (bytes \<Rightarrow> ('u, 'm, int \<times> bytes) usb_op) \<Rightarrow> int \<Rightarrow> ('u, 'm, int \<times> bytes) usb_op" where
  "usb_receive pass decode timeout dv =
     and_then (of_run (read_passes pass timeout timeout dv)) (\<lambda>m. and_then m (\<lambda>(r, dv).
       case r of
         Got rx \<Rightarrow> decode rx dv
       | Failed e \<Rightarrow> Ret ((e, []), dv\<lparr>last_error := e\<rparr>)
       | Again \<Rightarrow> Undefined))"

section \<open>The connection string\<close>

text \<open>\<open>%[^:]\<close> takes what stands before the next colon, which must be something.\<close>

definition scan_field :: "string \<Rightarrow> (string \<times> string) option" where
  "scan_field s = (let f = takeWhile (\<lambda>c. c \<noteq> CHR '':'') s in if f = [] then None else Some (f, drop (length f) s))"

text \<open>The fields \<open>sscanf\<close> with \<open>%[^:]:%[^:]:%[^:]\<close> stores; at the end of the string, before the first, it returns \<open>EOF\<close>.\<close>

fun scan_fields :: "nat \<Rightarrow> string \<Rightarrow> string list" where
  "scan_fields 0 s = []"
| "scan_fields (Suc n) s =
     (case scan_field s of
        None \<Rightarrow> []
      | Some (f, rest) \<Rightarrow> f # (case rest of [] \<Rightarrow> [] | c # rest \<Rightarrow> scan_fields n rest))"

text \<open>A field that was not stored is copied all the same: its memory was never written.\<close>

definition usb_connstring_decode :: "string \<Rightarrow> string \<Rightarrow> (int \<times> string \<times> string) outcome" where
  "usb_connstring_decode name connstring =
     (case scan_fields 3 connstring of
        [] \<Rightarrow> Ret (0, [], [])
      | driver_name # fs \<Rightarrow>
          (if driver_name \<noteq> name \<and> driver_name \<noteq> ''usb'' then Ret (0, [], [])
           else (case fs of [dirname, filename] \<Rightarrow> Ret (3, dirname, filename) | _ \<Rightarrow> Undefined)))"

text \<open>A device on a bus: its names and numbers, its endpoints, the handle on it, whether it takes the configuration 1, and whether its
  interface can be claimed.\<close>

record 'u usb_device =
  usb_dirname :: string
  usb_filename :: string
  idVendor :: "16 word"
  idProduct :: "16 word"
  usb_endpoints :: "usb_endpoint list"
  usb_handle :: 'u
  usb_configures :: bool
  usb_claims :: bool

text \<open>The first device that fits what the connection string names.\<close>

definition usb_find :: "int \<Rightarrow> string \<Rightarrow> string \<Rightarrow> 'u usb_device list \<Rightarrow> 'u usb_device option" where
  "usb_find level dirname filename =
     find (\<lambda>d. (level > 1 \<longrightarrow> usb_dirname d = dirname) \<and> (level > 2 \<longrightarrow> usb_filename d = filename))"

text \<open>The model that a table gives for a device, by its two numbers.\<close>

definition usb_device_model :: "((16 word \<times> 16 word) \<times> 'm) list \<Rightarrow> 'm \<Rightarrow> 'u usb_device \<Rightarrow> 'm" where
  "usb_device_model supported unknown d =
     (case map_of supported (idVendor d, idProduct d) of Some m \<Rightarrow> m | None \<Rightarrow> unknown)"

text \<open>The probe: every device the table has, with two endpoints at least, that \<open>opens\<close> does not turn down.  It stops at the
  device that fills the array; into an array of none the first one is stored all the same.\<close>

definition usb_probe ::
    "string \<Rightarrow> ((16 word \<times> 16 word) \<times> 'm) list \<Rightarrow> ('u usb_device \<Rightarrow> bool) \<Rightarrow> 'u usb_device list \<Rightarrow> nat \<Rightarrow>
     (bool \<times> string list) outcome" where
  "usb_probe name supported opens devices connstrings_len =
     (let found = filter (\<lambda>d. map_of supported (idVendor d, idProduct d) \<noteq> None \<and> 2 \<le> length (usb_endpoints d) \<and> opens d) devices in
      if connstrings_len = 0 \<and> found \<noteq> [] then Undefined
      else Ret (True, take connstrings_len (map (\<lambda>d. name @ '':'' @ usb_dirname d @ '':'' @ usb_filename d) found)))"

section \<open>What the passes do\<close>

lemma on_usb_simps [simp]:
  "driver_data (on_usb f dv) = f (driver_data dv)" "chip_data (on_usb f dv) = chip_data dv"
  "last_error (on_usb f dv) = last_error dv" "on_usb f (on_usb g dv) = on_usb (\<lambda>d. f (g d)) dv"
  by (simp_all add: on_usb_def)

text \<open>The library keeps to its room, and stores what its result counts.\<close>

definition usb_lib_ok :: "'u usb_lib \<Rightarrow> bool" where
  "usb_lib_ok lib \<longleftrightarrow>
     (\<forall>e n t u res rx asked u'. usb_bulk_read lib e n t u = ((res, rx, asked), u') \<longrightarrow> 0 \<le> res \<longrightarrow> int (length rx) = res \<and> length rx \<le> n)"

text \<open>With a timeout set, the passes come to an end: there are as many as 200 goes into it.\<close>

lemma read_passes_returns:
  assumes "timeout \<noteq> 0"
  shows "\<exists>m. read_passes pass timeout remaining_time dv = Some m"
proof (induction "nat remaining_time" arbitrary: remaining_time dv rule: less_induct)
  case less
  show ?case
  proof (cases "pass_time timeout remaining_time")
    case None
    then show ?thesis by (subst read_passes.simps) simp
  next
    case (Some t)
    then have "nat (remaining_time - USB_TIMEOUT_PER_PASS) < nat remaining_time"
      using assms by (auto simp: pass_time_def split: if_splits)
    from less.hyps [OF this] Some show ?thesis
      by (subst read_passes.simps) (auto split: outcome.splits pass_end.splits)
  qed
qed

text \<open>A time of at most one pass is over before anything is read.\<close>

lemma short_time_reads_nothing:
  assumes "timeout \<noteq> 0" "timeout \<le> 200"
  shows "usb_receive pass decode timeout dv = Ret ((NFC_ETIMEOUT, []), dv\<lparr>last_error := NFC_ETIMEOUT\<rparr>)"
  unfolding usb_receive_def using assms by (subst read_passes.simps) (simp add: pass_time_def)

lemma first_pass_got:
  assumes "pass (if timeout = 0 then 200 else min (timeout - 200) 200) dv = Ret (Got rx, dv')" "timeout = 0 \<or> 200 < timeout"
  shows "usb_receive pass decode timeout dv = decode rx dv'"
  unfolding usb_receive_def using assms by (subst read_passes.simps) (auto simp: pass_time_def)

end
