(* ===== verification/Pn53x_Usb.thy ===== *)
theory Pn53x_Usb
  imports Usb_Bulk
begin

text \<open>
  \<open>drivers/pn53x_usb.c\<close>: PN53x chips that are on USB themselves.  A frame is one transfer, and so is its answer.
\<close>

section \<open>Models\<close>

datatype pn53x_usb_model = UNKNOWN | NXP_PN531 | SONY_PN531 | NXP_PN533 | ASK_LOGO | SCM_SCL3711 | SONY_RCS360

type_synonym 'u pn53x_usb_data = "('u, pn53x_usb_model) usb_data"
type_synonym ('u, 'a) pn53x_usb_op = "('u pn53x_usb_data, 'a) op"

definition pn53x_usb_supported_devices :: "((16 word \<times> 16 word) \<times> pn53x_usb_model) list" where
  "pn53x_usb_supported_devices =
     [((0x04CC, 0x0531), NXP_PN531), ((0x04CC, 0x2533), NXP_PN533), ((0x04E6, 0x5591), SCM_SCL3711),
      ((0x054c, 0x0193), SONY_PN531), ((0x1FD3, 0x0608), ASK_LOGO), ((0x054C, 0x02E1), SONY_RCS360)]"

fun usb_timer_correction :: "pn53x_usb_model \<Rightarrow> 16 word" where
  "usb_timer_correction ASK_LOGO = 50"
| "usb_timer_correction SCM_SCL3711 = 46"
| "usb_timer_correction NXP_PN533 = 46"
| "usb_timer_correction NXP_PN531 = 50"
| "usb_timer_correction SONY_PN531 = 54"
| "usb_timer_correction SONY_RCS360 = 0"
| "usb_timer_correction UNKNOWN = 0"

section \<open>Sending\<close>

definition pn53x_usb_ack :: "'u usb_lib \<Rightarrow> ('u, int) pn53x_usb_op" where
  "pn53x_usb_ack lib = bulk_write lib pn53x_ack_frame (- 1)"

text \<open>A command too long to be framed is sent as an empty transfer.  Where no acknowledgement comes, a NACK asks for the answer once more.\<close>

definition pn53x_usb_send :: "'u usb_lib \<Rightarrow> bytes \<Rightarrow> int \<Rightarrow> ('u, int) pn53x_usb_op" where
  "pn53x_usb_send lib pbtData timeout dv =
     (let (built, frame) = pn53x_build_frame pbtData; abtFrame = (if built < 0 then [] else [0x00, 0x00, 0xff] @ frame) in
      and_then (bulk_write lib abtFrame timeout dv) (\<lambda>(res, dv).
      if res < 0 then fail_with res dv else
      and_then (bulk_read lib USB_BUFFER_LEN timeout dv) (\<lambda>((res, abtRxBuf), dv).
      if res < 0 then and_then (pn53x_usb_ack lib dv) (\<lambda>(_, dv). fail_with res dv) else
      and_then (pn53x_check_ack_frame abtRxBuf dv) (\<lambda>(ack, dv).
      if ack = 0 then Ret (NFC_SUCCESS, dv) else
      and_then (bulk_write lib pn53x_nack_frame timeout dv) (\<lambda>(res, dv).
      if res < 0 then and_then (pn53x_usb_ack lib (dv\<lparr>last_error := res\<rparr>)) (\<lambda>(r, dv). Ret (last_error dv, dv))
      else Ret (NFC_SUCCESS, dv))))))"

section \<open>Receiving\<close>

text \<open>From the code of the command on.  The buffer is a local array that is not initialized: what the transfer has not
  brought is not there.\<close>

definition usb_body :: "int \<Rightarrow> nat \<Rightarrow> byte \<Rightarrow> bytes \<Rightarrow> (int \<times> bytes) outcome" where
  "usb_body len szDataLen last_cmd rx =
     (let code = uint last_cmd + 1 in
      if len < 0 \<or> len > int szDataLen then Ret (NFC_EIO, [])
      else and_then (byte_at rx 0) (\<lambda>tfi.
        if tfi \<noteq> 0xD5 then Ret (NFC_EIO, [])
        else and_then (byte_at rx 1) (\<lambda>cc.
        if uint cc \<noteq> code then Ret (NFC_EIO, [])
        else if length rx < 2 + nat len then Undefined
        else (let pbtData = take (nat len) (drop 2 rx) in
          and_then (byte_at rx (2 + nat len)) (\<lambda>dcs.
          if data_checksum 0xD5 (word_of_int code # pbtData) \<noteq> dcs then Ret (NFC_EIO, [])
          else and_then (byte_at rx (3 + nat len)) (\<lambda>postamble.
          if postamble \<noteq> 0x00 then Ret (NFC_EIO, []) else Ret (len, pbtData)))))))"

definition usb_frame :: "nat \<Rightarrow> byte \<Rightarrow> bytes \<Rightarrow> (int \<times> bytes) outcome" where
  "usb_frame szDataLen last_cmd rx =
     (if length rx < 3 then Undefined
      else if take 3 rx \<noteq> [0x00, 0x00, 0xff] then Ret (NFC_EIO, [])
      else and_then (byte_at rx 3) (\<lambda>l. and_then (byte_at rx 4) (\<lambda>lcs.
        if l = 0x01 \<and> lcs = 0xff then Ret (NFC_EIO, [])
        else if l = 0xff \<and> lcs = 0xff then
          and_then (byte_at rx 5) (\<lambda>m. and_then (byte_at rx 6) (\<lambda>l. and_then (byte_at rx 7) (\<lambda>lcs.
            if (uint m + uint l + uint lcs) mod 256 \<noteq> 0 then Ret (NFC_EIO, [])
            else usb_body (256 * uint m + uint l - 2) szDataLen last_cmd (drop 8 rx))))
        else if uint l + uint lcs \<noteq> 256 then Ret (NFC_EIO, [])
        else usb_body (uint l - 2) szDataLen last_cmd (drop 5 rx))))"

definition decode_frame :: "nat \<Rightarrow> bytes \<Rightarrow> ('u, int \<times> bytes) pn53x_usb_op" where
  "decode_frame szDataLen rx dv =
     and_then (usb_frame szDataLen (last_command (chip_data dv)) rx) (\<lambda>(res, pbtData).
       Ret ((res, pbtData), dv\<lparr>last_error := (if res < 0 then res else 0)\<rparr>))"

definition pn53x_usb_receive :: "'u usb_lib \<Rightarrow> nat \<Rightarrow> int \<Rightarrow> ('u, int \<times> bytes) pn53x_usb_op" where
  "pn53x_usb_receive lib szDataLen timeout =
     usb_receive (\<lambda>t. read_pass (bulk_read lib USB_BUFFER_LEN t) (pn53x_usb_ack lib) (- USB_TIMEDOUT))
       (decode_frame szDataLen) timeout"

definition pn53x_usb_io :: "'u usb_lib \<Rightarrow> 'u pn53x_usb_data pn53x_io" where
  "pn53x_usb_io lib = \<lparr>io_send = pn53x_usb_send lib, io_receive = pn53x_usb_receive lib\<rparr>"

section \<open>Starting and closing\<close>

abbreviation (input) PN53X_SFR_P3 :: nat where "PN53X_SFR_P3 \<equiv> 0xFFB0"
abbreviation (input) PN53X_SFR_P3CFGB :: nat where "PN53X_SFR_P3CFGB \<equiv> 0xFFFD"
abbreviation (input) PN53X_REG_Control_switch_rng :: nat where "PN53X_REG_Control_switch_rng \<equiv> 0x6106"
abbreviation (input) PN53X_REG_CIU_TxSel :: nat where "PN53X_REG_CIU_TxSel \<equiv> 0x6306"

text \<open>The bits \<open>_BV(P30)\<close> to \<open>_BV(P35)\<close>.\<close>

definition port_bits :: "nat list \<Rightarrow> byte" where
  "port_bits ps = foldr (\<lambda>p b. push_bit p 1 OR b) ps 0"

definition pn53x_usb_init :: "'u usb_lib \<Rightarrow> ('u, int) pn53x_usb_op" where
  "pn53x_usb_init lib dv =
     (let io = pn53x_usb_io lib in
      ignoring (command io [GetFirmwareVersion] (- 1) dv) (\<lambda>dv.
      ignoring
        (if usb_model (driver_data dv) = SONY_RCS360 then
           ignoring (command io [0x18, 0x01] (- 1) (dv\<lparr>last_error := 0\<rparr>)) (pn53x_usb_ack lib)
         else Ret (0, dv\<lparr>last_error := 0\<rparr>)) (\<lambda>dv.
      on_ok res_only (pn53x_init io dv) (\<lambda>_ dv.
      if usb_model (driver_data dv) = ASK_LOGO then
        ignoring (pn53x_write_register io PN53X_REG_Control_switch_rng 0xFF (0x08 OR 0x10 OR 0x02) dv) (\<lambda>dv.
        ignoring (pn53x_write_register io PN53X_REG_CIU_TxSel 0xFF 0x14 dv) (\<lambda>dv.
        ignoring (pn53x_write_register io PN53X_SFR_P3CFGB 0xFF 0x37 dv) (\<lambda>dv.
        ignoring (pn53x_write_register io PN53X_SFR_P3 0xFF (port_bits [0, 1, 3, 5]) dv) (\<lambda>dv.
        Ret (NFC_SUCCESS, dv)))))
      else Ret (NFC_SUCCESS, dv)))))"

definition pn53x_usb_set_property_bool :: "'u usb_lib \<Rightarrow> nfc_property \<Rightarrow> bool \<Rightarrow> ('u, int) pn53x_usb_op" where
  "pn53x_usb_set_property_bool lib property bEnable dv =
     (let io = pn53x_usb_io lib in
      on_ok res_only (pn53x_set_property_bool io property bEnable dv) (\<lambda>_ dv.
        case usb_model (driver_data dv) of
          ASK_LOGO \<Rightarrow>
            (if property = NP_ACTIVATE_FIELD then
               on_ok (\<lambda>_. NFC_ECHIP)
                 (pn53x_write_register io PN53X_SFR_P3 (port_bits [1, 4]) (if bEnable then port_bits [4] else port_bits [1]) dv)
                 (\<lambda>_ dv. Ret (NFC_SUCCESS, dv))
             else Ret (NFC_SUCCESS, dv))
        | SCM_SCL3711 \<Rightarrow>
            (if property = NP_ACTIVATE_FIELD then
               on_ok res_only (pn53x_write_register io PN53X_SFR_P3 (port_bits [2]) (if bEnable then 0 else port_bits [2]) dv)
                 (\<lambda>_ dv. Ret (NFC_SUCCESS, dv))
             else Ret (NFC_SUCCESS, dv))
        | _ \<Rightarrow> Ret (NFC_SUCCESS, dv)))"

text \<open>Going idle switches the field off through the table of the driver.\<close>

definition pn53x_usb_idle :: "'u usb_lib \<Rightarrow> ('u, int) pn53x_usb_op" where
  "pn53x_usb_idle lib =
     pn53x_idle_over (\<lambda>dv. pn53x_usb_set_property_bool lib NP_ACTIVATE_FIELD False (dv\<lparr>last_error := 0\<rparr>)) (pn53x_usb_io lib)"

definition pn53x_usb_abort_command :: "('u, int) pn53x_usb_op" where
  "pn53x_usb_abort_command dv = Ret (NFC_SUCCESS, on_usb (\<lambda>d. d\<lparr>abort_flag := True\<rparr>) dv)"

definition pn53x_usb_driver :: "'u usb_lib \<Rightarrow> nfc_target \<times> nfc_target \<Rightarrow> 'u pn53x_usb_data nfc_driver" where
  "pn53x_usb_driver lib fresh =
     (pn53x_driver (pn53x_usb_io lib) fresh None (Some pn53x_usb_abort_command))
       \<lparr>device_set_property_bool := Some (pn53x_usb_set_property_bool lib),
        target_init := Some (pn53x_target_init_over (pn53x_usb_idle lib) (pn53x_usb_io lib)),
        device_idle := Some (pn53x_usb_idle lib)\<rparr>"

definition pn53x_usb_probe :: "'u usb_device list \<Rightarrow> nat \<Rightarrow> (bool \<times> string list) outcome" where
  "pn53x_usb_probe = usb_probe ''pn53x_usb'' pn53x_usb_supported_devices usb_configures"

text \<open>\<open>pn53x_usb_open\<close> from the device that was found; \<open>pn53x_usb_close\<close> up to the release of the interface.\<close>

definition pn53x_usb_start ::
    "'u usb_lib \<Rightarrow> pn53x_data \<Rightarrow> 'u pn53x_usb_data nfc_device \<Rightarrow> 'u usb_device \<Rightarrow> 'u pn53x_usb_data nfc_device option outcome" where
  "pn53x_usb_start lib fresh_chip fresh_device found =
     (let m = usb_device_model pn53x_usb_supported_devices UNKNOWN found;
          d = get_end_points (usb_endpoints found)
                \<lparr>pudh = usb_handle found, usb_model = m, uiEndPointIn = 0, uiEndPointOut = 0, uiMaxPacketSize = 0, abort_flag = False\<rparr>;
          dv = set_chip (\<lambda>c. c\<lparr>timer_correction := usb_timer_correction m\<rparr>)
                 (pn53x_data_new fresh_chip ((nfc_device_new fresh_device)\<lparr>driver_data := d\<rparr>)) in
      if \<not> usb_configures found \<or> \<not> usb_claims found then Ret None else
      ignoring (pn53x_usb_ack lib dv) (\<lambda>dv.
      and_then (pn53x_usb_init lib dv) (\<lambda>(res, dv).
        if res < 0 then Ret None else Ret (Some (on_usb (\<lambda>d. d\<lparr>abort_flag := False\<rparr>) dv)))))"

definition pn53x_usb_open ::
    "'u usb_lib \<Rightarrow> pn53x_data \<Rightarrow> 'u pn53x_usb_data nfc_device \<Rightarrow> 'u usb_device list \<Rightarrow> string \<Rightarrow>
     'u pn53x_usb_data nfc_device option outcome" where
  "pn53x_usb_open lib fresh_chip fresh_device devices connstring =
     and_then (usb_connstring_decode ''pn53x_usb'' connstring) (\<lambda>(level, dirname, filename).
       if level < 1 then Ret None
       else (case usb_find level dirname filename devices of
               None \<Rightarrow> Ret None
             | Some found \<Rightarrow> pn53x_usb_start lib fresh_chip fresh_device found))"

definition pn53x_usb_close :: "'u usb_lib \<Rightarrow> 'u pn53x_usb_data nfc_device \<Rightarrow> 'u pn53x_usb_data nfc_device outcome" where
  "pn53x_usb_close lib dv =
     ignoring (pn53x_usb_ack lib dv) (\<lambda>dv.
     ignoring (pn53x_usb_idle lib dv) (\<lambda>dv.
       if usb_model (driver_data dv) = ASK_LOGO then
         ignoring (pn53x_write_register (pn53x_usb_io lib) PN53X_SFR_P3 0xFF (port_bits [0, 1, 2, 3, 5]) dv) Ret
       else Ret dv))"

section \<open>The frame of an answer\<close>

text \<open>What the serial driver reads off the line, this driver reads out of a transfer.\<close>

lemma usb_body_answer:
  assumes "cmd \<noteq> 0xff" "length pbtData \<le> szDataLen"
  shows "usb_body (int (length pbtData)) szDataLen cmd
    ([0xD5, cmd + 1] @ pbtData @ [- (0xD5 + (cmd + 1) + sum_list pbtData), 0x00] @ s) = Ret (int (length pbtData), pbtData)"
proof -
  have "uint cmd \<noteq> uint (0xff :: byte)" using assms(1) by (simp only: word_uint_eq_iff not_False_eq_True)
  moreover have "uint cmd < 256" using uint_lt2p [of cmd] by simp
  ultimately have "uint (cmd + 1) = uint cmd + 1" by (simp add: uint_word_ariths)
  then show ?thesis
    using assms(2) by (simp add: usb_body_def byte_at_def Let_def nth_append data_checksum_sum algebra_simps)
qed

end
