(* ===== verification/Acr122_Usb.thy ===== *)
theory Acr122_Usb
  imports Usb_Bulk
begin

text \<open>
  \<open>drivers/acr122_usb.c\<close>: the ACR122 and its kin on USB, whose own firmware wraps the commands of the chip.
\<close>

section \<open>Models\<close>

datatype acr122_usb_model = ACR122_UNKNOWN | ACR122 | TOUCHATAG

type_synonym 'u acr122_usb_data = "('u, acr122_usb_model) usb_data"
type_synonym ('u, 'a) acr122_usb_op = "('u acr122_usb_data, 'a) op"

definition acr122_usb_supported_devices :: "((16 word \<times> 16 word) \<times> acr122_usb_model) list" where
  "acr122_usb_supported_devices = [((0x072F, 0x2200), ACR122), ((0x072F, 0x90CC), TOUCHATAG)]"

section \<open>Transfers\<close>

text \<open>The errors of the library become the two the interface has.\<close>

definition usb_error :: "int \<Rightarrow> int" where
  "usb_error res = (if res \<ge> 0 then res else if res = - USB_TIMEDOUT then NFC_ETIMEOUT else NFC_EIO)"

definition acr122_usb_bulk_read :: "'u usb_lib \<Rightarrow> nat \<Rightarrow> int \<Rightarrow> ('u, int \<times> bytes) acr122_usb_op" where
  "acr122_usb_bulk_read lib szRx timeout dv =
     and_then (bulk_read lib szRx timeout dv) (\<lambda>((res, rx), dv). Ret ((usb_error res, rx), dv))"

definition acr122_usb_bulk_write :: "'u usb_lib \<Rightarrow> bytes \<Rightarrow> int \<Rightarrow> ('u, int) acr122_usb_op" where
  "acr122_usb_bulk_write lib abtTx timeout dv = and_then (bulk_write lib abtTx timeout dv) (\<lambda>(res, dv). Ret (usb_error res, dv))"

section \<open>Frames\<close>

definition acr122_build_frame_from_apdu :: "bytes \<Rightarrow> int \<times> bytes" where
  "acr122_build_frame_from_apdu apdu =
     (if length apdu + 10 > USB_BUFFER_LEN then (NFC_EINVARG, [])
      else (int (length apdu) + 10, [0x6b, word_of_nat (length apdu)] @ replicate 8 0x00 @ apdu))"

definition acr122_build_frame_from_tama :: "bytes \<Rightarrow> int \<times> bytes" where
  "acr122_build_frame_from_tama tama =
     (if length tama + 16 > USB_BUFFER_LEN then (NFC_EINVARG, [])
      else (int (length tama) + 16,
            [0x6b, word_of_nat (length tama + 6)] @ replicate 8 0x00 @
            [0xff, 0x00, 0x00, 0x00, word_of_nat (length tama + 1), 0xd4] @ tama))"

text \<open>A command is cancelled by another one.\<close>

definition acr122_usb_ack :: "'u usb_lib \<Rightarrow> ('u, int) acr122_usb_op" where
  "acr122_usb_ack lib dv =
     (let (res, frame) = acr122_build_frame_from_tama [GetFirmwareVersion] in
      if res < 0 then Ret (res, dv) else
      ignoring (acr122_usb_bulk_write lib frame 1000 dv) (\<lambda>dv.
      and_then (acr122_usb_bulk_read lib USB_BUFFER_LEN 1000 dv) (\<lambda>((res, _), dv). Ret (res, dv))))"

definition acr122_usb_send :: "'u usb_lib \<Rightarrow> bytes \<Rightarrow> int \<Rightarrow> ('u, int) acr122_usb_op" where
  "acr122_usb_send lib pbtData timeout dv =
     (let (res, frame) = acr122_build_frame_from_tama pbtData in
      if res < 0 then fail_with NFC_EINVARG dv else
      and_then (acr122_usb_bulk_write lib frame timeout dv) (\<lambda>(res, dv).
        if res < 0 then fail_with res dv else Ret (NFC_SUCCESS, dv)))"

text \<open>The answer in its wrapping; the two status bytes behind it are counted, and not looked at.\<close>

definition acr122_frame :: "nat \<Rightarrow> byte \<Rightarrow> bytes \<Rightarrow> (int \<times> bytes) outcome" where
  "acr122_frame szDataLen last_cmd rx =
     and_then (byte_at rx 0) (\<lambda>head.
     if head \<noteq> 0x83 then Ret (NFC_EIO, []) else
     and_then (byte_at rx 1) (\<lambda>l.
     if unat l < 4 then Ret (NFC_EIO, [])
     else let len = unat l - 4 in
     if len > szDataLen then Ret (NFC_EIO, [])
     else if length rx < 10 then Undefined
     else if take 8 (drop 2 rx) \<noteq> [0x00, 0x00, 0x00, 0x00, 0x00, 0x02, 0x81, 0x00] then Ret (NFC_EIO, []) else
     and_then (byte_at rx 10) (\<lambda>tfi.
     if tfi \<noteq> 0xD5 then Ret (NFC_EIO, []) else
     and_then (byte_at rx 11) (\<lambda>cc.
     if uint cc \<noteq> uint last_cmd + 1 then Ret (NFC_EIO, [])
     else if length rx < 12 + len then Undefined
     else Ret (int len, take len (drop 12 rx))))))"

definition decode_acr122 :: "nat \<Rightarrow> bytes \<Rightarrow> ('u, int \<times> bytes) acr122_usb_op" where
  "decode_acr122 szDataLen rx dv =
     and_then (acr122_frame szDataLen (last_command (chip_data dv)) rx) (\<lambda>(res, pbtData).
       Ret ((res, pbtData), if res < 0 then dv\<lparr>last_error := res\<rparr> else dv))"

definition acr122_usb_receive :: "'u usb_lib \<Rightarrow> nat \<Rightarrow> int \<Rightarrow> ('u, int \<times> bytes) acr122_usb_op" where
  "acr122_usb_receive lib szDataLen timeout =
     usb_receive (\<lambda>t. read_pass (acr122_usb_bulk_read lib USB_BUFFER_LEN t) (acr122_usb_ack lib) NFC_ETIMEOUT)
       (decode_acr122 szDataLen) timeout"

definition acr122_usb_io :: "'u usb_lib \<Rightarrow> 'u acr122_usb_data pn53x_io" where
  "acr122_usb_io lib = \<lparr>io_send = acr122_usb_send lib, io_receive = acr122_usb_receive lib\<rparr>"

section \<open>Starting and closing\<close>

definition acr122_usb_init :: "'u usb_lib \<Rightarrow> ('u, int) acr122_usb_op" where
  "acr122_usb_init lib dv =
     on_ok res_only (pn53x_set_property_int (acr122_usb_io lib) NP_TIMEOUT_COMMAND 1000 dv) (\<lambda>_ dv.
       let (res, frame) = acr122_build_frame_from_apdu [0xff, 0x00, 0x51, 0x00, 0x00] in
       if res < 0 then Ret (res, dv) else
       on_ok res_only (acr122_usb_bulk_write lib frame 1000 dv) (\<lambda>_ dv.
       on_rx res_only (acr122_usb_bulk_read lib USB_BUFFER_LEN 1000 dv) (\<lambda>_ _ dv.
       on_ok res_only (pn53x_init (acr122_usb_io lib) dv) (\<lambda>_ dv. Ret (NFC_SUCCESS, dv)))))"

definition acr122_usb_abort_command :: "('u, int) acr122_usb_op" where
  "acr122_usb_abort_command dv = Ret (NFC_SUCCESS, on_usb (\<lambda>d. d\<lparr>abort_flag := True\<rparr>) dv)"

definition acr122_usb_driver :: "'u usb_lib \<Rightarrow> nfc_target \<times> nfc_target \<Rightarrow> 'u acr122_usb_data nfc_driver" where
  "acr122_usb_driver lib fresh = pn53x_driver (acr122_usb_io lib) fresh None (Some acr122_usb_abort_command)"

definition acr122_usb_probe :: "'u usb_device list \<Rightarrow> nat \<Rightarrow> (bool \<times> string list) outcome" where
  "acr122_usb_probe = usb_probe ''acr122_usb'' acr122_usb_supported_devices (\<lambda>_. True)"

definition acr122_usb_start ::
    "'u usb_lib \<Rightarrow> pn53x_data \<Rightarrow> 'u acr122_usb_data nfc_device \<Rightarrow> 'u usb_device \<Rightarrow> 'u acr122_usb_data nfc_device option outcome" where
  "acr122_usb_start lib fresh_chip fresh_device found =
     (let m = usb_device_model acr122_usb_supported_devices ACR122_UNKNOWN found;
          d = get_end_points (usb_endpoints found)
                \<lparr>pudh = usb_handle found, usb_model = m, uiEndPointIn = 0, uiEndPointOut = 0, uiMaxPacketSize = 0, abort_flag = False\<rparr>;
          dv = set_chip (\<lambda>c. case m of ACR122 \<Rightarrow> c\<lparr>timer_correction := 46\<rparr> | TOUCHATAG \<Rightarrow> c\<lparr>timer_correction := 50\<rparr> | ACR122_UNKNOWN \<Rightarrow> c)
                 (pn53x_data_new fresh_chip ((nfc_device_new fresh_device)\<lparr>driver_data := d\<rparr>)) in
      if \<not> usb_claims found then Ret None else
      and_then (acr122_usb_init lib dv) (\<lambda>(res, dv).
        if res < 0 then Ret None else Ret (Some (on_usb (\<lambda>d. d\<lparr>abort_flag := False\<rparr>) dv))))"

definition acr122_usb_open ::
    "'u usb_lib \<Rightarrow> pn53x_data \<Rightarrow> 'u acr122_usb_data nfc_device \<Rightarrow> 'u usb_device list \<Rightarrow> string \<Rightarrow>
     'u acr122_usb_data nfc_device option outcome" where
  "acr122_usb_open lib fresh_chip fresh_device devices connstring =
     and_then (usb_connstring_decode ''acr122_usb'' connstring) (\<lambda>(level, dirname, filename).
       if level < 1 then Ret None
       else (case usb_find level dirname filename devices of
               None \<Rightarrow> Ret None
             | Some found \<Rightarrow> acr122_usb_start lib fresh_chip fresh_device found))"

definition acr122_usb_close :: "'u usb_lib \<Rightarrow> 'u acr122_usb_data nfc_device \<Rightarrow> 'u acr122_usb_data nfc_device outcome" where
  "acr122_usb_close lib dv =
     ignoring (acr122_usb_ack lib dv) (\<lambda>dv. ignoring (pn53x_idle (acr122_usb_io lib) dv) Ret)"

section \<open>The wrapping\<close>

text \<open>What the reader answers with: its header, the answer of the chip, and the two bytes of success.\<close>

definition acr122_answer :: "byte \<Rightarrow> bytes \<Rightarrow> bytes" where
  "acr122_answer cmd pbtData =
     [0x83, word_of_nat (length pbtData + 4), 0x00, 0x00, 0x00, 0x00, 0x00, 0x02, 0x81, 0x00] @ [0xD5, cmd + 1] @ pbtData @ [0x90, 0x00]"

lemma acr122_frame_answer:
  assumes "cmd \<noteq> 0xff" "length pbtData \<le> szDataLen" "length pbtData \<le> 251"
  shows "acr122_frame szDataLen cmd (acr122_answer cmd pbtData @ s) = Ret (int (length pbtData), pbtData)"
proof -
  have "uint cmd \<noteq> uint (0xff :: byte)" using assms(1) by (simp only: word_uint_eq_iff not_False_eq_True)
  moreover have "uint cmd < 256" using uint_lt2p [of cmd] by simp
  ultimately have cc: "uint (cmd + 1) = uint cmd + 1" by (simp add: uint_word_ariths)
  have l: "unat (word_of_nat (length pbtData + 4) :: byte) = length pbtData + 4"
    using assms(3) by (simp add: unat_of_nat del: of_nat_add)
  show ?thesis
    unfolding acr122_frame_def acr122_answer_def using assms(2) cc l
    by (simp add: byte_at_def Let_def del: of_nat_add)
qed

text \<open>A command of 250 bytes or more has a length that its byte cannot hold: what is announced is not what is sent.\<close>

lemma long_command_announced_short:
  assumes "250 \<le> length tama" "length tama \<le> 259"
  shows "\<exists>frame. acr122_build_frame_from_tama tama = (int (length tama) + 16, frame) \<and> length frame = length tama + 16 \<and>
    unat (frame ! 1) = length tama - 250 \<and> unat (frame ! 1) \<noteq> length frame - 10"
proof -
  have "unat (word_of_nat (length tama + 6) :: byte) = (length tama + 6) mod 256" by (simp add: unat_of_nat del: of_nat_add)
  also have "\<dots> = length tama - 250" using assms by (simp add: mod_if)
  finally show ?thesis using assms by (simp add: acr122_build_frame_from_tama_def del: of_nat_add)
qed

end
