(* ===== verification/Serial_Opening.thy ===== *)
theory Serial_Opening
  imports Nfc_Api
begin

text \<open>
  What the three drivers on a serial line, \<open>pn532_uart.c\<close>, \<open>arygon.c\<close> and \<open>acr122s.c\<close>, do alike before they talk to a
  device: they take the connection string apart, open a port, and look through the ports for devices.
\<close>

section \<open>The connection string\<close>

text \<open>\<open>strtok\<close> with a colon: colons in front are skipped, and the one behind the token is gone.\<close>

definition next_token :: "string \<Rightarrow> (string \<times> string) option" where
  "next_token s =
     (let s = dropWhile (\<lambda>c. c = CHR '':'') s; t = takeWhile (\<lambda>c. c \<noteq> CHR '':'') s in
      if s = [] then None else Some (t, drop (length t + 1) s))"

definition is_blank :: "char \<Rightarrow> bool" where
  "is_blank c \<longleftrightarrow> c \<in> {CHR '' '', CHR 0x09, CHR 0x0A, CHR 0x0B, CHR 0x0C, CHR 0x0D}"

definition digit_value :: "char \<Rightarrow> nat option" where
  "digit_value c = (let v = of_char c :: nat in if 48 \<le> v \<and> v \<le> 57 then Some (v - 48) else None)"

fun decimal_value :: "nat \<Rightarrow> string \<Rightarrow> nat" where
  "decimal_value v [] = v"
| "decimal_value v (c # cs) = (case digit_value c of None \<Rightarrow> v | Some d \<Rightarrow> decimal_value (10 * v + d) cs)"

text \<open>\<open>sscanf (s, "%lu", &v)\<close>: white space, a sign, digits; a number with a minus is negated without a sign, and one that no
  \<open>unsigned long\<close> holds is undefined.\<close>

definition scan_ulong :: "string \<Rightarrow> 64 word option outcome" where
  "scan_ulong s =
     (let s = dropWhile is_blank s;
          neg = (s \<noteq> [] \<and> hd s = CHR ''-'');
          s = (if s \<noteq> [] \<and> (hd s = CHR ''-'' \<or> hd s = CHR ''+'') then drop 1 s else s);
          v = decimal_value 0 s in
      if s = [] \<or> digit_value (hd s) = None then Ret None
      else if v \<ge> 2 ^ 64 then Undefined
      else Ret (Some (if neg then - word_of_nat v else word_of_nat v)))"

text \<open>How far the string could be taken apart, the port and the speed.\<close>

definition serial_connstring_decode :: "string \<Rightarrow> string \<Rightarrow> (int \<times> string \<times> 32 word) outcome" where
  "serial_connstring_decode name connstring =
     (case next_token connstring of
        None \<Rightarrow> Ret (- 1, [], 0)
      | Some (driver_name, s) \<Rightarrow>
          if driver_name \<noteq> name then Ret (0, [], 0)
          else (case next_token s of
                  None \<Rightarrow> Ret (1, [], 0)
                | Some (p, s) \<Rightarrow>
                    let port = take 127 p in
                    (case next_token s of
                       None \<Rightarrow> Ret (2, port, 0)
                     | Some (speed_s, _) \<Rightarrow>
                         and_then (scan_ulong speed_s) (\<lambda>speed.
                           case speed of None \<Rightarrow> Ret (2, port, 0) | Some v \<Rightarrow> Ret (3, port, ucast v)))))"

section \<open>Opening and probing\<close>

text \<open>\<open>opens\<close> is the operating system: the port of a name at a speed, unless it cannot be opened or is claimed.  What is
  left on the line from before is thrown away.\<close>

type_synonym port_opener = "string \<Rightarrow> 32 word \<Rightarrow> uart_port option"

definition open_serial ::
    "string \<Rightarrow> 32 word \<Rightarrow> port_opener \<Rightarrow> (uart_port \<Rightarrow> 'd option outcome) \<Rightarrow> string \<Rightarrow> 'd option outcome" where
  "open_serial name default_speed opens start connstring =
     and_then (serial_connstring_decode name connstring) (\<lambda>(level, port, speed).
       if level < 2 then Ret None
       else (case opens port (if level < 3 then default_speed else speed) of
               None \<Rightarrow> Ret None
             | Some p \<Rightarrow> start (uart_flush_input p)))"

text \<open>The ports of the machine, one after the other; \<open>answers\<close> says whether the device is there.  The strings stop at the
  size of the array, which is looked at after the first one has been stored.\<close>

fun serial_probe ::
    "(string \<Rightarrow> string) \<Rightarrow> 32 word \<Rightarrow> port_opener \<Rightarrow> (uart_port \<Rightarrow> bool outcome) \<Rightarrow> nat \<Rightarrow> string list \<Rightarrow> string list \<Rightarrow> string list outcome" where
  "serial_probe connstring speed opens answers n found [] = Ret found"
| "serial_probe connstring speed opens answers n found (p # ps) =
     (case opens p speed of
        None \<Rightarrow> serial_probe connstring speed opens answers n found ps
      | Some port \<Rightarrow>
          and_then (answers (uart_flush_input port)) (\<lambda>there.
            if \<not> there then serial_probe connstring speed opens answers n found ps
            else if n \<le> length found then Undefined
            else if length found + 1 \<ge> n then Ret (found @ [connstring p])
            else serial_probe connstring speed opens answers n (found @ [connstring p]) ps))"

section \<open>The PN532\<close>

definition pn532_start :: "pn53x_data \<Rightarrow> uart_port nfc_device \<Rightarrow> uart_port \<Rightarrow> uart_port nfc_device" where
  "pn532_start fresh_chip fresh_device port =
     set_chip (\<lambda>c. c\<lparr>ch_type := PN532, power_mode := LOWVBAT\<rparr>)
       (pn53x_data_new fresh_chip ((nfc_device_new fresh_device)\<lparr>driver_data := port\<rparr>))"

definition pn532_uart_probe ::
    "pn53x_data \<Rightarrow> uart_port nfc_device \<Rightarrow> port_opener \<Rightarrow> string list \<Rightarrow> nat \<Rightarrow> (bool \<times> string list) outcome" where
  "pn532_uart_probe fresh_chip fresh_device opens ports n =
     and_then
       (serial_probe (\<lambda>p. ''pn532_uart:'' @ p @ '':115200'') 115200 opens
          (\<lambda>port. and_then (pn53x_check_communication pn532_uart_io (pn532_start fresh_chip fresh_device port)) (\<lambda>(res, dv). Ret (res \<ge> 0)))
          n [] ports)
       (\<lambda>found. Ret (True, found))"

definition pn532_uart_open_named ::
    "pn53x_data \<Rightarrow> uart_port nfc_device \<Rightarrow> port_opener \<Rightarrow> string \<Rightarrow> uart_port nfc_device option outcome" where
  "pn532_uart_open_named fresh_chip fresh_device opens =
     open_serial ''pn532_uart'' 115200 opens (pn532_uart_open fresh_chip fresh_device)"

text \<open>A colon more or less does not matter, but one inside a name of a port cuts it.\<close>

lemma next_token_join:
  assumes "CHR '':'' \<notin> set t" "t \<noteq> []"
  shows "next_token (t @ CHR '':'' # s) = Some (t, s)" "next_token t = Some (t, [])"
proof -
  have d: "dropWhile (\<lambda>c. c = CHR '':'') (t @ u) = t @ u" for u using assms by (cases t) auto
  have "takeWhile (\<lambda>c. c \<noteq> CHR '':'') (t @ CHR '':'' # s) = t" using assms(1) by (induction t) auto
  then show "next_token (t @ CHR '':'' # s) = Some (t, s)" unfolding next_token_def Let_def d using assms(2) by simp
  have "takeWhile (\<lambda>c. c \<noteq> CHR '':'') t = t" using assms(1) by (induction t) auto
  then show "next_token t = Some (t, [])" unfolding next_token_def Let_def using d [of "[]"] assms(2) by (simp del: takeWhile_eq_all_conv)
qed

text \<open>A name as the probe gives it is taken apart into the port it came from.\<close>

lemma probed_name_decodes:
  assumes "CHR '':'' \<notin> set p" "p \<noteq> []"
  shows "serial_connstring_decode ''pn532_uart'' (''pn532_uart:'' @ p @ '':115200'') = Ret (3, take 127 p, 115200)"
proof -
  have name: "next_token (''pn532_uart:'' @ p @ '':115200'') = Some (''pn532_uart'', p @ '':115200'')"
    using next_token_join(1) [of "''pn532_uart''" "p @ '':115200''"] by (simp only: append.simps) simp
  have port: "next_token (p @ '':115200'') = Some (p, ''115200'')" using next_token_join(1) [OF assms, of "''115200''"] by simp
  have speed: "next_token ''115200'' = Some (''115200'', [])" by (rule next_token_join(2)) simp_all
  have scan: "scan_ulong ''115200'' = Ret (Some 115200)" by (simp add: scan_ulong_def is_blank_def digit_value_def Let_def of_char_def)
  show ?thesis
    by (simp only: serial_connstring_decode_def name port speed scan option.case prod.case Let_def and_then.simps not_True_eq_False if_False)
      simp
qed

end
