(* ===== verification/Acr122_Pcsc.thy ===== *)
theory Acr122_Pcsc
  imports Serial_Opening
begin

text \<open>
  \<open>drivers/acr122_pcsc.c\<close>: the ACR122 behind the smart card service of the system.  The service is not part of the sources;
  its calls are an argument.
\<close>

section \<open>The service\<close>

datatype pcsc_protocol = SCARD_PROTOCOL_UNDEFINED | SCARD_PROTOCOL_T0 | SCARD_PROTOCOL_T1

text \<open>Control and transmit take the bytes and the room for the answer, and give the answer, unless they fail; connecting takes
  the name of a reader and whether directly.  The names of the readers are there, unless there is no service.\<close>

record 'u pcsc_lib =
  SCardControl :: "bytes \<Rightarrow> nat \<Rightarrow> 'u \<Rightarrow> bytes option \<times> 'u"
  SCardTransmit :: "bytes \<Rightarrow> nat \<Rightarrow> 'u \<Rightarrow> bytes option \<times> 'u"
  SCardConnect :: "string \<Rightarrow> bool \<Rightarrow> (pcsc_protocol \<times> 'u) option"
  SCardListReaders :: "string list option"

abbreviation (input) SCARD_OPERATION_ERROR :: byte where "SCARD_OPERATION_ERROR \<equiv> 0x63"
abbreviation (input) ACR122_PCSC_WRAP_LEN :: nat where "ACR122_PCSC_WRAP_LEN \<equiv> 5"
abbreviation (input) ACR122_PCSC_COMMAND_LEN :: nat where "ACR122_PCSC_COMMAND_LEN \<equiv> 266"
abbreviation (input) ACR122_PCSC_RESPONSE_LEN :: nat where "ACR122_PCSC_RESPONSE_LEN \<equiv> 268"

record 'u pcsc_data =
  hCard :: 'u
  dwProtocol :: pcsc_protocol
  pcsc_abtRx :: bytes
  pcsc_szRx :: nat

type_synonym ('u, 'a) pcsc_op = "('u pcsc_data, 'a) op"

definition on_pcsc :: "('u pcsc_data \<Rightarrow> 'u pcsc_data) \<Rightarrow> 'u pcsc_data nfc_device \<Rightarrow> 'u pcsc_data nfc_device" where
  "on_pcsc f dv = dv\<lparr>driver_data := f (driver_data dv)\<rparr>"

text \<open>A call that stores its answer in the data of the driver: the count of its bytes, or none when it failed.\<close>

definition pcsc_call :: "(bytes \<Rightarrow> nat \<Rightarrow> 'u \<Rightarrow> bytes option \<times> 'u) \<Rightarrow> bytes \<Rightarrow> ('u, nat option) pcsc_op" where
  "pcsc_call f tx dv =
     (let (answer, u) = f tx ACR122_PCSC_RESPONSE_LEN (hCard (driver_data dv)) in
      case answer of
        None \<Rightarrow> Ret (None, on_pcsc (\<lambda>d. d\<lparr>hCard := u\<rparr>) dv)
      | Some rx \<Rightarrow>
          and_then (copy_into (pcsc_abtRx (driver_data dv)) 0 rx (length rx)) (\<lambda>a.
            Ret (Some (length rx), on_pcsc (\<lambda>d. d\<lparr>hCard := u, pcsc_abtRx := a\<rparr>) dv)))"

section \<open>Sending and receiving\<close>

text \<open>The check lets a command through that is one byte too long for the buffer.\<close>

definition acr122_pcsc_send :: "'u pcsc_lib \<Rightarrow> bytes \<Rightarrow> int \<Rightarrow> ('u, int) pcsc_op" where
  "acr122_pcsc_send lib pbtData timeout dv =
     (let szData = length pbtData; protocol = dwProtocol (driver_data dv) in
      if szData > ACR122_PCSC_COMMAND_LEN then fail_with NFC_EINVARG dv
      else if 6 + szData > ACR122_PCSC_WRAP_LEN + ACR122_PCSC_COMMAND_LEN then Undefined
      else and_then
        (pcsc_call (if protocol = SCARD_PROTOCOL_UNDEFINED then SCardControl lib else SCardTransmit lib)
           ([0xFF, 0x00, 0x00, 0x00, word_of_nat (szData + 1), 0xD4] @ pbtData) (on_pcsc (\<lambda>d. d\<lparr>pcsc_szRx := 0\<rparr>) dv)) (\<lambda>(answer, dv).
        case answer of
          None \<Rightarrow> fail_with NFC_EIO dv
        | Some dwRxLen \<Rightarrow>
            (if protocol = SCARD_PROTOCOL_T0 then
               (if dwRxLen \<noteq> 2 then fail_with NFC_EIO dv
                else if pcsc_abtRx (driver_data dv) ! 0 = SCARD_OPERATION_ERROR then fail_with NFC_EIO dv
                else Ret (NFC_SUCCESS, dv))
             else Ret (NFC_SUCCESS, on_pcsc (\<lambda>d. d\<lparr>pcsc_szRx := dwRxLen\<rparr>) dv))))"

definition acr122_pcsc_answer :: "nat \<Rightarrow> ('u, int \<times> bytes) pcsc_op" where
  "acr122_pcsc_answer szData dv =
     (let szRx = pcsc_szRx (driver_data dv); len = szRx - 4; abtRx = pcsc_abtRx (driver_data dv) in
      if szRx < 4 \<or> len > szData then Ret ((NFC_EIO, []), dv\<lparr>last_error := NFC_EIO\<rparr>)
      else if length abtRx < 2 + len then Undefined
      else Ret ((int len, take len (drop 2 abtRx)), dv))"

definition acr122_pcsc_receive :: "'u pcsc_lib \<Rightarrow> nat \<Rightarrow> int \<Rightarrow> ('u, int \<times> bytes) pcsc_op" where
  "acr122_pcsc_receive lib szData timeout dv =
     (if dwProtocol (driver_data dv) = SCARD_PROTOCOL_T0 then
        and_then (byte_at (pcsc_abtRx (driver_data dv)) 1) (\<lambda>n.
        and_then (pcsc_call (SCardTransmit lib) [0xFF, 0xC0, 0x00, 0x00, n] dv) (\<lambda>(answer, dv).
          case answer of
            None \<Rightarrow> Ret ((NFC_EIO, []), dv\<lparr>last_error := NFC_EIO\<rparr>)
          | Some dwRxLen \<Rightarrow> acr122_pcsc_answer szData (on_pcsc (\<lambda>d. d\<lparr>pcsc_szRx := dwRxLen\<rparr>) dv)))
      else acr122_pcsc_answer szData dv)"

definition acr122_pcsc_io :: "'u pcsc_lib \<Rightarrow> 'u pcsc_data pn53x_io" where
  "acr122_pcsc_io lib = \<lparr>io_send = acr122_pcsc_send lib, io_receive = acr122_pcsc_receive lib\<rparr>"

definition acr122_pcsc_driver :: "'u pcsc_lib \<Rightarrow> nfc_target \<times> nfc_target \<Rightarrow> 'u pcsc_data nfc_driver" where
  "acr122_pcsc_driver lib fresh = (pn53x_driver (acr122_pcsc_io lib) fresh None None)\<lparr>device_idle := None\<rparr>"

section \<open>Finding and opening a reader\<close>

definition supported_devices :: "string list" where
  "supported_devices = [''ACS ACR122'', ''ACS ACR 38U-CCID'', ''ACS ACR38U-CCID'', ''ACS AET65'', ''    CCID USB'']"

definition acr122_pcsc_probe :: "'u pcsc_lib \<Rightarrow> nat \<Rightarrow> bool \<times> string list" where
  "acr122_pcsc_probe lib connstrings_len =
     (case SCardListReaders lib of
        None \<Rightarrow> (False, [])
      | Some names \<Rightarrow>
          (True, take connstrings_len
                   (map (\<lambda>n. ''acr122_pcsc:'' @ n) (filter (\<lambda>n. \<exists>s\<in>set supported_devices. is_prefix s n) (takeWhile (\<lambda>n. n \<noteq> []) names)))))"

definition acr122_pcsc_connstring_decode :: "string \<Rightarrow> int \<times> string" where
  "acr122_pcsc_connstring_decode connstring =
     (case next_token connstring of
        None \<Rightarrow> (- 1, [])
      | Some (driver_name, s) \<Rightarrow>
          if driver_name \<noteq> ''acr122_pcsc'' then (0, [])
          else (case next_token s of None \<Rightarrow> (1, []) | Some (device_name, _) \<Rightarrow> (2, take 511 device_name)))"

text \<open>A short name is the number of a reader.  Of a negative number the array for as many names cannot be allocated, and that is not
  looked at; with -1 it has no element at all, and one is read.\<close>

definition pcsc_reader_name :: "'u pcsc_lib \<Rightarrow> string \<Rightarrow> string option outcome" where
  "pcsc_reader_name lib connstring =
     (let (level, name) = acr122_pcsc_connstring_decode connstring;
          named = (\<lambda>cs. case acr122_pcsc_connstring_decode cs of (level, name) \<Rightarrow> if level < 2 then None else Some name);
          first = (if level < 1 then None
                   else if level = 1 then (case snd (acr122_pcsc_probe lib 1) of [] \<Rightarrow> None | cs # _ \<Rightarrow> named cs)
                   else Some name) in
      case first of
        None \<Rightarrow> Ret None
      | Some name \<Rightarrow>
          if 5 \<le> length name then Ret (Some name)
          else and_then (scan_ulong name) (\<lambda>index. case index of
            None \<Rightarrow> Ret None
          | Some i \<Rightarrow>
              (let found = snd (acr122_pcsc_probe lib (unat i + 1)) in
               if i = - 1 \<or> 2 ^ 63 \<le> unat i \<and> found \<noteq> [] then Undefined
               else if length found < unat i + 1 then Ret None else Ret (named (found ! unat i)))))"

text \<open>The version of the firmware in a static array of 11 bytes, as far as it was filled in; behind one that fills it there is no NUL.\<close>

definition acr122_pcsc_firmware :: "'u pcsc_lib \<Rightarrow> ('u, bytes) pcsc_op" where
  "acr122_pcsc_firmware lib dv =
     (let undefined_protocol = (dwProtocol (driver_data dv) = SCARD_PROTOCOL_UNDEFINED);
          (answer, u) = (if undefined_protocol then SCardControl lib [0xFF, 0x00, 0x48, 0x00, 0x00] 10 (hCard (driver_data dv))
                         else SCardTransmit lib [0xFF, 0x00, 0x48, 0x00, 0x00] 11 (hCard (driver_data dv)));
          dv = on_pcsc (\<lambda>d. d\<lparr>hCard := u\<rparr>) dv in
      case answer of
        None \<Rightarrow> Ret ([], dv)
      | Some rx \<Rightarrow> if 10 < length rx \<and> 0 \<notin> set rx then Undefined else Ret (takeWhile (\<lambda>b. b \<noteq> 0) rx, dv))"

text \<open>\<open>strstr (pcFirmware, "ACR122U")\<close>\<close>

fun has_text :: "bytes \<Rightarrow> bytes \<Rightarrow> bool" where
  "has_text s [] = (s = [])"
| "has_text s (b # bs) = (take (length s) (b # bs) = s \<or> has_text s bs)"

definition acr122_pcsc_open ::
    "'u pcsc_lib \<Rightarrow> pn53x_data \<Rightarrow> 'u pcsc_data nfc_device \<Rightarrow> bytes \<Rightarrow> string \<Rightarrow> 'u pcsc_data nfc_device option outcome" where
  "acr122_pcsc_open lib fresh_chip fresh_device fresh_rx connstring =
     and_then (pcsc_reader_name lib connstring) (\<lambda>name. case name of
       None \<Rightarrow> Ret None
     | Some name \<Rightarrow>
         if SCardListReaders lib = None then Ret None
         else (case (case SCardConnect lib name False of Some c \<Rightarrow> Some c | None \<Rightarrow> SCardConnect lib name True) of
           None \<Rightarrow> Ret None
         | Some (protocol, handle) \<Rightarrow>
             (let dv = pn53x_data_new fresh_chip ((nfc_device_new fresh_device)
                         \<lparr>driver_data := \<lparr>hCard = handle, dwProtocol = protocol, pcsc_abtRx = fresh_rx, pcsc_szRx = 0\<rparr>\<rparr>) in
              and_then (acr122_pcsc_firmware lib dv) (\<lambda>(version, dv).
                if has_text (bytes_of_string ''ACR122U'') version then
                  and_then (pn53x_init (acr122_pcsc_io lib) (set_chip (\<lambda>c. c\<lparr>timer_correction := 50\<rparr>) dv)) (\<lambda>(_, dv). Ret (Some dv))
                else Ret None))))"

section \<open>The answer and the one byte too many\<close>

lemma longest_command_overflows: "length pbtData = 266 \<Longrightarrow> acr122_pcsc_send lib pbtData timeout dv = Undefined"
  by (simp add: acr122_pcsc_send_def Let_def)

text \<open>The service's answer: that of the chip, and the two bytes of success.\<close>

definition pcsc_answer :: "byte \<Rightarrow> bytes \<Rightarrow> bytes" where
  "pcsc_answer cmd pbtData = [0xD5, cmd + 1] @ pbtData @ [0x90, 0x00]"

lemma pcsc_answer_received:
  assumes "pcsc_szRx (driver_data dv) = length pbtData + 4" "take (length pbtData + 4) (pcsc_abtRx (driver_data dv)) = pcsc_answer cmd pbtData"
    and "length pbtData \<le> szData"
  shows "acr122_pcsc_answer szData dv = Ret ((int (length pbtData), pbtData), dv)"
proof -
  have len: "length pbtData + 4 \<le> length (pcsc_abtRx (driver_data dv))"
    using arg_cong [OF assms(2), of length] by (simp add: pcsc_answer_def)
  have "take (length pbtData) (drop 2 (pcsc_abtRx (driver_data dv))) = take (length pbtData) (drop 2 (pcsc_answer cmd pbtData))"
    unfolding assms(2) [symmetric] by (simp add: drop_take)
  then show ?thesis using assms(1,3) len by (simp add: acr122_pcsc_answer_def pcsc_answer_def Let_def)
qed

end
