(* ===== verification/Acr122s.thy ===== *)
theory Acr122s
  imports Serial_Opening
begin

text \<open>
  \<open>drivers/acr122s.c\<close>: the ACR122S on a serial line.  Its messages are framed, numbered and acknowledged, and carry the
  commands of the chip inside.
\<close>

section \<open>Data\<close>

record acr122s_data =
  acr_port :: uart_port
  acr_seq :: byte

type_synonym 'a acr_op = "(acr122s_data, 'a) op"

abbreviation (input) STX :: byte where "STX \<equiv> 0x02"
abbreviation (input) ETX :: byte where "ETX \<equiv> 0x03"
abbreviation (input) MAX_FRAME_SIZE :: nat where "MAX_FRAME_SIZE \<equiv> 273"

definition on_acr :: "(acr122s_data \<Rightarrow> acr122s_data) \<Rightarrow> acr122s_data nfc_device \<Rightarrow> acr122s_data nfc_device" where
  "on_acr f dv = dv\<lparr>driver_data := f (driver_data dv)\<rparr>"

definition acr_send :: "bytes \<Rightarrow> int acr_op" where
  "acr_send bs dv = (let (res, p) = uart_send bs (acr_port (driver_data dv)) in Ret (res, on_acr (\<lambda>d. d\<lparr>acr_port := p\<rparr>) dv))"

definition acr_receive :: "nat \<Rightarrow> bool \<Rightarrow> int \<Rightarrow> (int \<times> bytes) acr_op" where
  "acr_receive n abortable timeout dv =
     and_then (uart_receive n abortable timeout (acr_port (driver_data dv))) (\<lambda>(r, p). Ret (r, on_acr (\<lambda>d. d\<lparr>acr_port := p\<rparr>) dv))"

section \<open>Frames\<close>

text \<open>\<open>APDU_SIZE\<close> and \<open>FRAME_SIZE\<close>: the sum wraps around in 32 bits.\<close>

definition APDU_SIZE :: "bytes \<Rightarrow> 32 word" where
  "APDU_SIZE p = word_of_int (le_uint (take 4 (drop 2 p)))"

definition FRAME_SIZE :: "bytes \<Rightarrow> 32 word" where
  "FRAME_SIZE p = APDU_SIZE p + 13"

definition xor_sum :: "bytes \<Rightarrow> byte" where
  "xor_sum bs = foldl (XOR) 0 bs"

definition acr122s_fix_frame :: "bytes \<Rightarrow> bytes outcome" where
  "acr122s_fix_frame frame =
     (let n = unat (FRAME_SIZE frame) in
      if n < 3 \<or> length frame < n then Undefined
      else let f = frame[0 := STX, n - 1 := ETX] in Ret (f[n - 2 := xor_sum (take (n - 3) (drop 1 f))]))"

text \<open>A frame that carries a command, in a buffer of so many bytes; the buffer stays as it was when the command is too
  long.\<close>

definition acr122s_build_frame :: "byte \<Rightarrow> nat \<Rightarrow> byte \<Rightarrow> byte \<Rightarrow> bytes \<Rightarrow> bool \<Rightarrow> bytes option outcome" where
  "acr122s_build_frame sequence frame_size p1 p2 cmd_data should_prefix =
     (let body = (if should_prefix then 0xD4 # cmd_data else cmd_data) in
      if frame_size < length body + 18 \<or> length body > 255 then Ret None
      else and_then
             (acr122s_fix_frame
                ([0x00, 0x6F] @ le_bytes 4 (5 + int (length body)) @ [0x00, sequence, 0x00, 0x00, 0x00] @
                 [0xff, 0x00, p1, p2, word_of_nat (length body)] @ body @ [0x00, 0x00]))
             (\<lambda>f. Ret (Some f)))"

section \<open>Messages\<close>

definition acr122s_send_frame :: "bytes \<Rightarrow> int \<Rightarrow> int acr_op" where
  "acr122s_send_frame frame timeout dv =
     on_ok res_only (acr_send (take (unat (FRAME_SIZE frame)) frame) dv) (\<lambda>_ dv.
     on_rx res_only (acr_receive 4 True timeout dv) (\<lambda>_ ack dv.
       if ack \<noteq> [STX, 0x00, 0x00, ETX] then fail_with NFC_EIO dv
       else Ret (0, on_acr (\<lambda>d. d\<lparr>acr_seq := frame ! 7 + 1\<rparr>) dv)))"

text \<open>The rest of a frame is as long as its header says; the bound is checked before 11 is taken off, and after 13 has been
  added, both in 32 bits.  More bytes than the buffer has room for are written behind it.\<close>

definition acr122s_recv_frame :: "nat \<Rightarrow> bool \<Rightarrow> int \<Rightarrow> (int \<times> bytes) acr_op" where
  "acr122s_recv_frame frame_size abortable timeout dv =
     (if frame_size < 13 then Ret ((NFC_EINVARG, []), dv\<lparr>last_error := NFC_EINVARG\<rparr>)
      else and_then (acr_receive 11 abortable timeout dv) (\<lambda>((res, head), dv).
      if res \<noteq> 0 then Ret ((res, []), dv)
      else if frame_size < unat (FRAME_SIZE head) then Ret ((NFC_EIO, []), dv\<lparr>last_error := NFC_EIO\<rparr>)
      else and_then (acr_receive (unat (FRAME_SIZE head - 11)) abortable timeout dv) (\<lambda>((res, rest), dv).
      if length rest > frame_size - 11 then Undefined
      else if res \<noteq> 0 then Ret ((res, []), dv)
      else if head ! 7 + 1 \<noteq> acr_seq (driver_data dv) then Ret ((NFC_EIO, []), dv\<lparr>last_error := NFC_EIO\<rparr>)
      else Ret ((0, head @ rest), dv))))"

section \<open>The driver\<close>

text \<open>A command that has been too long for a frame: what is sent is a buffer that was never written.\<close>

definition acr122s_send :: "bytes \<Rightarrow> int \<Rightarrow> int acr_op" where
  "acr122s_send buf timeout dv =
     (let dv = on_acr (\<lambda>d. d\<lparr>acr_port := uart_flush_input (acr_port d)\<rparr>) dv in
      and_then (acr122s_build_frame (acr_seq (driver_data dv)) MAX_FRAME_SIZE 0x00 0x00 buf True) (\<lambda>cmd.
        case cmd of
          None \<Rightarrow> Undefined
        | Some frame \<Rightarrow>
            and_then (acr122s_send_frame frame timeout dv) (\<lambda>(ret, dv).
              if ret \<noteq> 0 then fail_with ret dv else Ret (NFC_SUCCESS, dv))))"

definition acr122s_receive :: "nat \<Rightarrow> int \<Rightarrow> (int \<times> bytes) acr_op" where
  "acr122s_receive buf_len timeout dv =
     and_then (acr122s_recv_frame MAX_FRAME_SIZE True timeout dv) (\<lambda>((res, tmp), dv).
       let dv = dv\<lparr>last_error := res\<rparr> in
       if res = NFC_EOPABORTED then Ret ((res, []), dv)
       else if res < 0 then Ret ((- 1, []), dv)
       else let data_len = unat (FRAME_SIZE tmp - 17) in
       if data_len > buf_len then Ret ((NFC_EIO, []), dv\<lparr>last_error := NFC_EIO\<rparr>)
       else if length tmp < 13 + data_len then Undefined
       else Ret ((int data_len, take data_len (drop 13 tmp)), dv))"

definition acr122s_io :: "acr122s_data pn53x_io" where
  "acr122s_io = \<lparr>io_send = acr122s_send, io_receive = acr122s_receive\<rparr>"

definition acr122s_abort_command :: "int acr_op" where
  "acr122s_abort_command dv = Ret (NFC_SUCCESS, dv)"

definition acr122s_driver :: "nfc_target \<times> nfc_target \<Rightarrow> acr122s_data nfc_driver" where
  "acr122s_driver fresh = (pn53x_driver acr122s_io fresh None (Some acr122s_abort_command))\<lparr>device_idle := None\<rparr>"

section \<open>Starting and closing\<close>

text \<open>Switching the slot of the chip on (\<open>0x62\<close>) or off (\<open>0x63\<close>).\<close>

definition acr122s_power :: "byte \<Rightarrow> pn53x_power_mode \<Rightarrow> int acr_op" where
  "acr122s_power message md dv =
     and_then (acr122s_fix_frame ([0x00, message] @ replicate 11 0x00)) (\<lambda>cmd.
     and_then (acr122s_send_frame cmd 0 dv) (\<lambda>(ret, dv).
     if ret \<noteq> 0 then Ret (ret, dv)
     else and_then (acr122s_recv_frame MAX_FRAME_SIZE False 0 dv) (\<lambda>((ret, _), dv).
     if ret \<noteq> 0 then Ret (ret, dv) else Ret (0, set_chip (\<lambda>c. c\<lparr>power_mode := md\<rparr>) dv))))"

definition acr122s_activate_sam :: "int acr_op" where
  "acr122s_activate_sam = acr122s_power 0x62 NORMAL"

definition acr122s_deactivate_sam :: "int acr_op" where
  "acr122s_deactivate_sam = acr122s_power 0x63 LOWVBAT"

definition acr122s_get_firmware_version :: "nat \<Rightarrow> (int \<times> bytes) acr_op" where
  "acr122s_get_firmware_version n dv =
     and_then (acr122s_build_frame (acr_seq (driver_data dv)) MAX_FRAME_SIZE 0x48 0x00 [] False) (\<lambda>cmd.
       case cmd of
         None \<Rightarrow> Undefined
       | Some frame \<Rightarrow>
           and_then (acr122s_send_frame frame 1000 dv) (\<lambda>(ret, dv).
           if ret \<noteq> 0 then Ret ((ret, []), dv)
           else and_then (acr122s_recv_frame MAX_FRAME_SIZE False 0 dv) (\<lambda>((ret, tmp), dv).
           if ret \<noteq> 0 then Ret ((ret, []), dv)
           else let len = (if unat (APDU_SIZE tmp) + 1 > n then n - 1 else unat (APDU_SIZE tmp)) in
             if length tmp < 11 + len then Undefined else Ret ((0, take len (drop 11 tmp)), dv))))"

text \<open>\<open>strncmp (version, "ACR122S", 7)\<close>\<close>

definition is_acr122s :: "bytes \<Rightarrow> bool" where
  "is_acr122s version \<longleftrightarrow> take 7 version = bytes_of_string ''ACR122S''"

definition acr122s_new :: "pn53x_data \<Rightarrow> acr122s_data nfc_device \<Rightarrow> uart_port \<Rightarrow> acr122s_data nfc_device" where
  "acr122s_new fresh_chip fresh_device port =
     set_chip (\<lambda>c. c\<lparr>ch_type := PN532\<rparr>)
       (pn53x_data_new fresh_chip ((nfc_device_new fresh_device)\<lparr>driver_data := \<lparr>acr_port = port, acr_seq = 0\<rparr>\<rparr>))"

text \<open>Closing: the slot is switched off, whatever comes of it.\<close>

definition acr122s_close :: "acr122s_data nfc_device \<Rightarrow> acr122s_data nfc_device outcome" where
  "acr122s_close dv = ignoring (acr122s_deactivate_sam dv) Ret"

definition acr122s_start ::
    "pn53x_data \<Rightarrow> acr122s_data nfc_device \<Rightarrow> uart_port \<Rightarrow> acr122s_data nfc_device option outcome" where
  "acr122s_start fresh_chip fresh_device port =
     (let close = (\<lambda>dv. and_then (acr122s_close dv) (\<lambda>_. Ret None)) in
      and_then (acr122s_get_firmware_version 256 (acr122s_new fresh_chip fresh_device port)) (\<lambda>((ret, version), dv).
      if ret \<noteq> 0 \<or> \<not> is_acr122s version then close dv else
      and_then (acr122s_activate_sam dv) (\<lambda>(ret, dv).
      if ret \<noteq> 0 then close dv else
      and_then (pn53x_init acr122s_io dv) (\<lambda>(ret, dv).
      if ret < 0 then close dv else Ret (Some dv)))))"

definition acr122s_open ::
    "pn53x_data \<Rightarrow> acr122s_data nfc_device \<Rightarrow> port_opener \<Rightarrow> string \<Rightarrow> acr122s_data nfc_device option outcome" where
  "acr122s_open fresh_chip fresh_device opens = open_serial ''ACR122S'' 9600 opens (acr122s_start fresh_chip fresh_device)"

definition acr122s_probe ::
    "pn53x_data \<Rightarrow> acr122s_data nfc_device \<Rightarrow> port_opener \<Rightarrow> string list \<Rightarrow> nat \<Rightarrow> (bool \<times> string list) outcome" where
  "acr122s_probe fresh_chip fresh_device opens ports n =
     and_then
       (serial_probe (\<lambda>p. ''ACR122S:'' @ p @ '':9600'') 9600 opens
          (\<lambda>port. and_then
             (acr122s_get_firmware_version 32 (set_chip (\<lambda>c. c\<lparr>power_mode := NORMAL\<rparr>) (acr122s_new fresh_chip fresh_device port)))
             (\<lambda>((ret, version), dv).
             Ret (ret = 0 \<and> is_acr122s version))) n [] ports)
       (\<lambda>found. Ret (True, found))"

section \<open>What is sent\<close>

lemma le_size: "n < 2 ^ 32 \<Longrightarrow> le_uint (le_bytes 4 (int n)) = int n"
  by (simp add: le_uint_le_bytes)

lemma APDU_SIZE_header:
  assumes "n < 2 ^ 32"
  shows "APDU_SIZE ([x, m] @ le_bytes 4 (int n) @ rest) = word_of_nat n"
  using le_size [OF assms] by (simp add: APDU_SIZE_def)

text \<open>A frame that was built: its parts, its length, and a checksum that makes the sum of all behind the first byte zero.\<close>

lemma built_frame:
  fixes buf :: bytes and sequence :: byte
  defines "mid \<equiv> [0x6F] @ le_bytes 4 (6 + int (length buf)) @ [0x00, sequence, 0x00, 0x00, 0x00] @
    [0xff, 0x00, 0x00, 0x00, word_of_nat (length buf + 1)] @ [0xD4] @ buf"
  assumes "length buf \<le> 254"
  shows "acr122s_build_frame sequence MAX_FRAME_SIZE 0x00 0x00 buf True = Ret (Some (STX # mid @ [xor_sum mid, ETX]))"
proof -
  let ?raw = "0x00 # mid @ [0x00, 0x00]"
  have size: "unat (FRAME_SIZE ?raw) = length buf + 19"
  proof -
    have "APDU_SIZE ?raw = word_of_nat (length buf + 6)"
      unfolding mid_def using APDU_SIZE_header [of "length buf + 6" "0x00" "0x6F"] assms(2) by (simp add: add.commute)
    then have "FRAME_SIZE ?raw = word_of_nat (length buf + 19)" by (simp add: FRAME_SIZE_def)
    then show ?thesis using assms(2) by (simp add: unat_of_nat del: of_nat_add)
  qed
  have len: "length mid = length buf + 16" by (simp add: mid_def)
  have "acr122s_fix_frame ?raw = Ret (STX # mid @ [xor_sum mid, ETX])"
    unfolding acr122s_fix_frame_def Let_def size using len by (simp add: list_update_append nth_append)
  moreover have "acr122s_build_frame sequence MAX_FRAME_SIZE 0x00 0x00 buf True = and_then (acr122s_fix_frame ?raw) (\<lambda>f. Ret (Some f))"
    using assms(2) by (simp add: acr122s_build_frame_def mid_def add.commute)
  ultimately show ?thesis by simp
qed

text \<open>A command of 255 bytes or more does not fit a frame, and the driver does not look.\<close>

lemma long_command_undefined: "255 \<le> length buf \<Longrightarrow> acr122s_send buf timeout dv = Undefined"
  by (simp add: acr122s_send_def acr122s_build_frame_def Let_def)

end
