(* ===== verification/Arygon.thy ===== *)
theory Arygon
  imports Serial_Opening
begin

text \<open>
  \<open>drivers/arygon.c\<close>: readers with a microcontroller of their own between the line and the chip.  It knows short frames
  only, and cannot abort a command but by another one.
\<close>

section \<open>Sending\<close>

text \<open>\<open>DEV_ARYGON_PROTOCOL_TAMA\<close> and \<open>DEV_ARYGON_PROTOCOL_ARYGON_ASCII\<close>, the digits 2 and 0.\<close>

abbreviation (input) PROTOCOL_TAMA :: byte where "PROTOCOL_TAMA \<equiv> 0x32"
abbreviation (input) PROTOCOL_ASCII :: byte where "PROTOCOL_ASCII \<equiv> 0x30"

text \<open>\<open>FF000000\<close> and \<open>FF060000\<close>, each with the end of a line.\<close>

definition arygon_error_none :: bytes where
  "arygon_error_none = [0x46, 0x46, 0x30, 0x30, 0x30, 0x30, 0x30, 0x30, 0x0d, 0x0a]"

definition arygon_error_unknown_mode :: bytes where
  "arygon_error_unknown_mode = [0x46, 0x46, 0x30, 0x36, 0x30, 0x30, 0x30, 0x30, 0x0d, 0x0a]"

text \<open>Where the microcontroller has not understood, the rest of its message is read, and the result is that of the reading.\<close>

definition arygon_tama_send :: "bytes \<Rightarrow> int \<Rightarrow> int uart_op" where
  "arygon_tama_send pbtData timeout dv =
     (let dv = on_port uart_flush_input dv; (res, frame) = pn53x_build_frame pbtData in
      if length pbtData > PN53x_NORMAL_FRAME__DATA_MAX_LEN then fail_with NFC_EDEVNOTSUPP dv
      else if res < 0 then fail_with res dv
      else and_then (port_send ([PROTOCOL_TAMA, 0x00, 0x00, 0xff] @ frame) dv) (\<lambda>(res, dv).
      if res \<noteq> 0 then fail_with res dv
      else and_then (port_receive 6 False timeout dv) (\<lambda>((res, abtRxBuf), dv).
      if res \<noteq> 0 then fail_with res dv
      else and_then (pn53x_check_ack_frame abtRxBuf dv) (\<lambda>(ack, dv).
      if ack = 0 then Ret (NFC_SUCCESS, dv)
      else if take 6 arygon_error_unknown_mode = abtRxBuf then
        and_then (port_receive 4 False timeout dv) (\<lambda>((res, _), dv). fail_with res dv)
      else Ret (last_error dv, dv)))))"

section \<open>Receiving\<close>

definition tama_error :: "int \<Rightarrow> (int \<times> bytes) uart_op" where
  "tama_error e dv = Ret ((e, []), dv\<lparr>last_error := e\<rparr>)"

text \<open>\<open>pnd->last_error = uart_receive (...); if (pnd->last_error != 0) return pnd->last_error;\<close>\<close>

definition tama_read :: "nat \<Rightarrow> int \<Rightarrow> (bytes \<Rightarrow> (int \<times> bytes) uart_op) \<Rightarrow> (int \<times> bytes) uart_op" where
  "tama_read n timeout k dv =
     and_then (port_receive n False timeout dv) (\<lambda>((res, bs), dv).
       if res \<noteq> 0 then tama_error res dv else k bs (dv\<lparr>last_error := res\<rparr>))"

definition tama_body :: "int \<Rightarrow> nat \<Rightarrow> int \<Rightarrow> (int \<times> bytes) uart_op" where
  "tama_body len szDataLen timeout dv =
     (if len < 0 \<or> len > int szDataLen then tama_error NFC_EIO dv else
      tama_read 2 timeout (\<lambda>hdr dv.
        let code = uint (last_command (chip_data dv)) + 1 in
        if hdr ! 0 \<noteq> 0xD5 then tama_error NFC_EIO dv
        else if uint (hdr ! 1) \<noteq> code then tama_error NFC_EIO dv
        else (if len \<noteq> 0 then tama_read (nat len) timeout else (\<lambda>k. k [])) (\<lambda>pbtData.
          tama_read 2 timeout (\<lambda>trailer dv.
            if data_checksum 0xD5 (word_of_int code # pbtData) \<noteq> trailer ! 0 then tama_error NFC_EIO dv
            else if trailer ! 1 \<noteq> 0x00 then tama_error NFC_EIO dv
            else Ret ((len, pbtData), dv))) dv) dv)"

text \<open>An abort sends a test command and waits for its answer, which can be aborted in turn; \<open>io\<close> serves it.\<close>

definition arygon_abort :: "uart_port pn53x_io \<Rightarrow> int uart_op" where
  "arygon_abort io dv =
     and_then (port_send [0x32, 0x00, 0x00, 0xff, 0x09, 0xf7, 0xd4, 0x00, 0x00, 0x6c, 0x69, 0x62, 0x6e, 0x66, 0x63, 0xbe, 0x00] dv)
       (\<lambda>(_, dv). pn53x_check_communication io dv)"

text \<open>An extended frame ends the process.\<close>

definition arygon_tama_receive_with :: "uart_port pn53x_io \<Rightarrow> nat \<Rightarrow> int \<Rightarrow> (int \<times> bytes) uart_op" where
  "arygon_tama_receive_with io szDataLen timeout dv =
     and_then (port_receive 5 True timeout dv) (\<lambda>((res, b), dv).
       let dv = dv\<lparr>last_error := res\<rparr> in
       if res = NFC_EOPABORTED then and_then (arygon_abort io dv) (\<lambda>(_, dv). tama_error NFC_EOPABORTED dv)
       else if res \<noteq> 0 then tama_error res dv
       else if take 3 b \<noteq> [0x00, 0x00, 0xff] then tama_error NFC_EIO dv
       else if b ! 3 = 0x01 \<and> b ! 4 = 0xff then
         and_then (port_receive 3 False timeout dv) (\<lambda>(_, dv). tama_error NFC_EIO dv)
       else if b ! 3 = 0xff \<and> b ! 4 = 0xff then Aborts
       else if uint (b ! 3) + uint (b ! 4) \<noteq> 256 then tama_error NFC_EIO dv
       else tama_body (uint (b ! 3) - 2) szDataLen timeout dv)"

text \<open>How deep the aborts nest; at 0 the call has not returned.  Each takes its event off the script of the line, so that as
  many as there are events, and one more, are enough.\<close>

fun arygon_io_n :: "nat \<Rightarrow> uart_port pn53x_io" where
  "arygon_io_n 0 = \<lparr>io_send = arygon_tama_send, io_receive = (\<lambda>_ _ _. Blocks)\<rparr>"
| "arygon_io_n (Suc n) = \<lparr>io_send = arygon_tama_send, io_receive = arygon_tama_receive_with (arygon_io_n n)\<rparr>"

definition arygon_tama_receive :: "nat \<Rightarrow> int \<Rightarrow> (int \<times> bytes) uart_op" where
  "arygon_tama_receive szDataLen timeout dv =
     io_receive (arygon_io_n (length (script (driver_data dv)) + 1)) szDataLen timeout dv"

definition arygon_tama_io :: "uart_port pn53x_io" where
  "arygon_tama_io = \<lparr>io_send = arygon_tama_send, io_receive = arygon_tama_receive\<rparr>"

section \<open>Starting\<close>

definition arygon_reset_tama :: "int uart_op" where
  "arygon_reset_tama dv =
     and_then (port_send [PROTOCOL_ASCII, 0x61, 0x72] dv) (\<lambda>(_, dv).
     and_then (port_receive 10 False 1000 dv) (\<lambda>((res, abtRx), dv).
       if res \<noteq> 0 then fail_with res dv
       else if abtRx \<noteq> arygon_error_none then fail_with NFC_EIO dv
       else Ret (NFC_SUCCESS, dv)))"

text \<open>Whether a version came.  Its text, which is scanned out of the array it is stored into, only goes into the name of the device
  and is not followed further.\<close>

definition arygon_firmware :: "bool uart_op" where
  "arygon_firmware dv =
     and_then (port_send [PROTOCOL_ASCII, 0x61, 0x76] dv) (\<lambda>(res, dv).
       if res \<noteq> 0 then Ret (False, dv)
       else and_then (port_receive 16 False 0 dv) (\<lambda>((res, abtRx), dv).
         Ret (res = 0 \<and> take 6 abtRx = take 6 arygon_error_none, dv)))"

definition arygon_abort_command :: "int uart_op" where
  "arygon_abort_command dv = Ret (NFC_SUCCESS, dv)"

definition arygon_driver :: "nfc_target \<times> nfc_target \<Rightarrow> uart_port nfc_driver" where
  "arygon_driver fresh = (pn53x_driver arygon_tama_io fresh None (Some arygon_abort_command))\<lparr>device_idle := None\<rparr>"

definition arygon_new :: "pn53x_data \<Rightarrow> uart_port nfc_device \<Rightarrow> uart_port \<Rightarrow> uart_port nfc_device" where
  "arygon_new fresh_chip fresh_device port = pn53x_data_new fresh_chip ((nfc_device_new fresh_device)\<lparr>driver_data := port\<rparr>)"

text \<open>Without a version, the name is made of an array that was never written.\<close>

definition arygon_start :: "pn53x_data \<Rightarrow> uart_port nfc_device \<Rightarrow> uart_port \<Rightarrow> uart_port nfc_device option outcome" where
  "arygon_start fresh_chip fresh_device port =
     and_then (arygon_reset_tama
         (set_chip (\<lambda>c. c\<lparr>power_mode := NORMAL, timer_correction := 46\<rparr>) (arygon_new fresh_chip fresh_device port))) (\<lambda>(res, dv).
       if res < 0 then Ret None
       else and_then (arygon_firmware dv) (\<lambda>(version, dv).
         if \<not> version then Undefined
         else and_then (pn53x_init arygon_tama_io dv) (\<lambda>(_, dv). Ret (Some dv))))"

definition arygon_open :: "pn53x_data \<Rightarrow> uart_port nfc_device \<Rightarrow> port_opener \<Rightarrow> string \<Rightarrow> uart_port nfc_device option outcome" where
  "arygon_open fresh_chip fresh_device opens = open_serial ''arygon'' 9600 opens (arygon_start fresh_chip fresh_device)"

definition arygon_probe ::
    "pn53x_data \<Rightarrow> uart_port nfc_device \<Rightarrow> port_opener \<Rightarrow> string list \<Rightarrow> nat \<Rightarrow> (bool \<times> string list) outcome" where
  "arygon_probe fresh_chip fresh_device opens ports n =
     and_then
       (serial_probe (\<lambda>p. ''arygon:'' @ p @ '':9600'') 9600 opens
          (\<lambda>port. and_then (arygon_reset_tama (arygon_new fresh_chip fresh_device port)) (\<lambda>(res, dv). Ret (res \<ge> 0))) n [] ports)
       (\<lambda>found. Ret (True, found))"

section \<open>Reading an answer\<close>

lemma tama_read_brings:
  assumes "brings (driver_data dv) (a @ s)" "a \<noteq> []" "0 \<le> t" "n = length a"
  shows "\<exists>p. (\<forall>k. tama_read n t k dv = k a (dv\<lparr>driver_data := p, last_error := 0\<rparr>)) \<and> brings p s"
  using port_receive_brings [OF assms, of False] by (auto simp: tama_read_def NFC_SUCCESS_def)

text \<open>Where nothing goes wrong, the body is read as the PN532 driver reads it.\<close>

lemma tama_body_brings:
  assumes "brings (driver_data dv) ([0xD5, cmd + 1] @ pbtData @ [- (0xD5 + (cmd + 1) + sum_list pbtData), 0x00] @ s)"
    and "last_command (chip_data dv) = cmd" "cmd \<noteq> 0xff" "length pbtData \<le> szDataLen" "0 \<le> t"
  shows "\<exists>p. tama_body (int (length pbtData)) szDataLen t dv =
      Ret ((int (length pbtData), pbtData), dv\<lparr>driver_data := p, last_error := 0\<rparr>) \<and> brings p s"
proof -
  let ?tr = "[- (0xD5 + (cmd + 1) + sum_list pbtData), 0x00]"
  have "uint cmd \<noteq> uint (0xff :: byte)" using assms(3) by (simp only: word_uint_eq_iff not_False_eq_True)
  moreover have "uint cmd < 256" using uint_lt2p [of cmd] by simp
  ultimately have code: "uint (cmd + 1) = uint cmd + 1" by (simp add: uint_word_ariths)
  from tama_read_brings [OF assms(1) _ assms(5), of 2] obtain p1 where
    p1: "\<And>k. tama_read 2 t k dv = k [0xD5, cmd + 1] (dv\<lparr>driver_data := p1, last_error := 0\<rparr>)" "brings p1 (pbtData @ ?tr @ s)" by auto
  obtain p2 where p2: "(if int (length pbtData) \<noteq> 0 then tama_read (nat (int (length pbtData))) t else (\<lambda>k. k [])) k (dv\<lparr>driver_data := p1, last_error := 0\<rparr>) =
      k pbtData (dv\<lparr>driver_data := p2, last_error := 0\<rparr>)" "brings p2 (?tr @ s)" for k
    using tama_read_brings [of "dv\<lparr>driver_data := p1, last_error := 0\<rparr>" pbtData "?tr @ s" t] p1(2) assms(5)
    by (cases "pbtData = []") auto
  from tama_read_brings [of "dv\<lparr>driver_data := p2, last_error := 0\<rparr>" ?tr s t 2] p2(2) assms(5) obtain p3 where
    p3: "\<And>k. tama_read 2 t k (dv\<lparr>driver_data := p2, last_error := 0\<rparr>) = k ?tr (dv\<lparr>driver_data := p3, last_error := 0\<rparr>)" "brings p3 s"
    by auto
  have "tama_body (int (length pbtData)) szDataLen t dv = Ret ((int (length pbtData), pbtData), dv\<lparr>driver_data := p3, last_error := 0\<rparr>)"
    unfolding tama_body_def p1(1)
    using assms(2,4) code p2(1) p3(1) by (simp add: Let_def data_checksum_sum algebra_simps)
  then show ?thesis using p3(2) by blast
qed

end
