(* ===== verification/Driver_Answers.thy ===== *)
theory Driver_Answers
  imports Pn53x_Usb Acr122_Usb Acr122_Pcsc Acr122s Arygon
begin

text \<open>
  The contract of a driver that an answer of the chip comes through: wherever it waits - on the line, in a transfer, in the
  service's reply, wrapped as each of the readers wraps it - the driver delivers its data.  It holds of all six drivers.
\<close>

section \<open>The contract\<close>

text \<open>\<open>holds cmd pbtData d\<close> says that the answer to the command waits where the driver will look for it, \<open>timely t\<close> that the
  driver looks at all in the time \<open>t\<close> it is given.\<close>

locale delivering_driver =
  fixes io :: "'s pn53x_io" and holds :: "byte \<Rightarrow> bytes \<Rightarrow> 's \<Rightarrow> bool" and longest :: nat and timely :: "int \<Rightarrow> bool"
  assumes delivers: "holds cmd pbtData (driver_data dv) \<Longrightarrow> last_command (chip_data dv) = cmd \<Longrightarrow> cmd \<noteq> 0xff \<Longrightarrow>
    length pbtData \<le> szDataLen \<Longrightarrow> length pbtData \<le> longest \<Longrightarrow> timely timeout \<Longrightarrow>
    \<exists>dv'. io_receive io szDataLen timeout dv = Ret ((int (length pbtData), pbtData), dv') \<and> chip_data dv' = chip_data dv"
begin

text \<open>An exchange that carries no status: a command that was sent and answered returns the data of the answer.\<close>

lemma exchange_delivers:
  assumes "io_send io (c # cs) timeout dv = Ret (0, dv1)" "holds c pbtData (driver_data dv1)" "c \<noteq> 0xff"
    and "length pbtData \<le> n" "n \<noteq> 0" "length pbtData \<le> longest" "timely timeout" "timeout \<noteq> - 1"
    and "c \<notin> set status_commands" "c \<notin> {0x8c, 0x44, 0x52, 0x06, 0x08, 0x00}"
  shows "\<exists>dv'. transceive_now io (c # cs) n timeout dv = Ret ((int (length pbtData), pbtData), dv')"
proof -
  let ?dv = "set_chip (\<lambda>x. x\<lparr>last_command := c\<rparr>) dv1"
  obtain dv2 where "io_receive io n timeout ?dv = Ret ((int (length pbtData), pbtData), dv2)"
    using delivers [of c pbtData ?dv n timeout] assms by auto
  then show ?thesis
    using assms by (simp add: transceive_now_def on_ok_def on_rx_def sets_power_mode_def status_of_answer_def Let_def result_of_status_def)
qed

end

section \<open>The PN532 and the ARYGON readers\<close>

lemma line_delivers:
  assumes "brings (driver_data dv) (answer_frame cmd pbtData @ s)" "length pbtData \<le> 253" "0 \<le> timeout"
  obtains l p where "port_receive 5 True timeout dv = Ret ((NFC_SUCCESS, [0x00, 0x00, 0xff, l, - l]), dv\<lparr>driver_data := p\<rparr>)"
    "brings p ([0xD5, cmd + 1] @ pbtData @ [- (0xD5 + (cmd + 1) + sum_list pbtData), 0x00] @ s)"
    "uint l + uint (- l) = 256" "uint l = int (length pbtData) + 2" "\<not> (l = 0xff \<and> - l = 0xff)" "l \<noteq> 1"
proof -
  obtain l :: byte where l: "l = word_of_nat (length pbtData + 2)" by blast
  have "unat l = length pbtData + 2" using assms(2) unfolding l unat_of_nat by simp
  then have u: "uint l = int (length pbtData) + 2" by (simp only: uint_nat)
  have f: "answer_frame cmd pbtData = [0x00, 0x00, 0xff, l, - l] @ [0xD5, cmd + 1] @ pbtData @ [- (0xD5 + (cmd + 1) + sum_list pbtData), 0x00]"
    using assms(2) unfolding answer_frame_cases l by simp
  obtain p where p: "port_receive 5 True timeout dv = Ret ((NFC_SUCCESS, [0x00, 0x00, 0xff, l, - l]), dv\<lparr>driver_data := p\<rparr>)"
      "brings p ([0xD5, cmd + 1] @ pbtData @ [- (0xD5 + (cmd + 1) + sum_list pbtData), 0x00] @ s)"
    using port_receive_brings [of dv "[0x00, 0x00, 0xff, l, - l]"
      "[0xD5, cmd + 1] @ pbtData @ [- (0xD5 + (cmd + 1) + sum_list pbtData), 0x00] @ s" timeout 5 True] assms(1,3) unfolding f by auto
  have "uint l + uint (- l) = 256" by (rule byte_sum) (use u in auto)
  moreover have "\<not> (l = 0xff \<and> - l = 0xff)" by auto
  moreover have "l \<noteq> 1" using u by auto
  ultimately show thesis using that p u by blast
qed

definition on_line :: "byte \<Rightarrow> bytes \<Rightarrow> uart_port \<Rightarrow> bool" where
  "on_line cmd pbtData p \<longleftrightarrow> (\<exists>s. brings p (answer_frame cmd pbtData @ s))"

text \<open>A line is read in any time that is not negative; no time at all stands for no limit.\<close>

abbreviation (input) not_negative :: "int \<Rightarrow> bool" where
  "not_negative t \<equiv> 0 \<le> t"

interpretation pn532: delivering_driver pn532_uart_io on_line 253 not_negative
proof
  fix cmd pbtData szDataLen and timeout :: int and dv :: "uart_port nfc_device"
  assume "on_line cmd pbtData (driver_data dv)" and a: "last_command (chip_data dv) = cmd" "cmd \<noteq> 0xff"
    "length pbtData \<le> szDataLen" "length pbtData \<le> 253" "0 \<le> timeout"
  then obtain s where "brings (driver_data dv) (answer_frame cmd pbtData @ s)" by (auto simp: on_line_def)
  from line_delivers [OF this a(4), of timeout] a(5) obtain l p where
    p: "port_receive 5 True timeout dv = Ret ((NFC_SUCCESS, [0x00, 0x00, 0xff, l, - l]), dv\<lparr>driver_data := p\<rparr>)"
      "brings p ([0xD5, cmd + 1] @ pbtData @ [- (0xD5 + (cmd + 1) + sum_list pbtData), 0x00] @ s)"
    and l: "uint l + uint (- l) = 256" "uint l = int (length pbtData) + 2" "\<not> (l = 0xff \<and> - l = 0xff)" "l \<noteq> 1" by auto
  have "pn532_uart_receive szDataLen timeout dv =
      receive_body (int (length pbtData)) szDataLen timeout (dv\<lparr>driver_data := p, last_error := 0\<rparr>)"
    using short_header [OF p(1)] l by simp
  moreover obtain p' where "receive_body (int (length pbtData)) szDataLen timeout (dv\<lparr>driver_data := p, last_error := 0\<rparr>) =
      Ret ((int (length pbtData), pbtData), dv\<lparr>driver_data := p', last_error := 0\<rparr>)"
    using receive_body_brings [of "dv\<lparr>driver_data := p, last_error := 0\<rparr>" cmd pbtData s szDataLen timeout] p(2) a by auto
  ultimately show "\<exists>dv'. io_receive pn532_uart_io szDataLen timeout dv = Ret ((int (length pbtData), pbtData), dv') \<and> chip_data dv' = chip_data dv"
    by (simp add: pn532_uart_io_def numeral_2_eq_2)
qed

interpretation arygon: delivering_driver arygon_tama_io on_line 253 not_negative
proof
  fix cmd pbtData szDataLen and timeout :: int and dv :: "uart_port nfc_device"
  assume "on_line cmd pbtData (driver_data dv)" and a: "last_command (chip_data dv) = cmd" "cmd \<noteq> 0xff"
    "length pbtData \<le> szDataLen" "length pbtData \<le> 253" "0 \<le> timeout"
  then obtain s where "brings (driver_data dv) (answer_frame cmd pbtData @ s)" by (auto simp: on_line_def)
  from line_delivers [OF this a(4), of timeout] a(5) obtain l p where
    p: "port_receive 5 True timeout dv = Ret ((NFC_SUCCESS, [0x00, 0x00, 0xff, l, - l]), dv\<lparr>driver_data := p\<rparr>)"
      "brings p ([0xD5, cmd + 1] @ pbtData @ [- (0xD5 + (cmd + 1) + sum_list pbtData), 0x00] @ s)"
    and l: "uint l + uint (- l) = 256" "uint l = int (length pbtData) + 2" "\<not> (l = 0xff \<and> - l = 0xff)" "l \<noteq> 1" by auto
  have "arygon_tama_receive_with io szDataLen timeout dv =
      tama_body (int (length pbtData)) szDataLen timeout (dv\<lparr>driver_data := p, last_error := 0\<rparr>)" for io
    using p(1) l by (auto simp: arygon_tama_receive_with_def nfc_errors Let_def)
  moreover obtain p' where "tama_body (int (length pbtData)) szDataLen timeout (dv\<lparr>driver_data := p, last_error := 0\<rparr>) =
      Ret ((int (length pbtData), pbtData), dv\<lparr>driver_data := p', last_error := 0\<rparr>)"
    using tama_body_brings [of "dv\<lparr>driver_data := p, last_error := 0\<rparr>" cmd pbtData s szDataLen timeout] p(2) a by auto
  ultimately show "\<exists>dv'. io_receive arygon_tama_io szDataLen timeout dv = Ret ((int (length pbtData), pbtData), dv') \<and> chip_data dv' = chip_data dv"
    by (simp add: arygon_tama_io_def arygon_tama_receive_def)
qed

section \<open>The ACR122S\<close>

text \<open>The answer in the numbered frame of the reader, whose checksum is never looked at.\<close>

definition acr122s_answer :: "byte \<Rightarrow> byte \<Rightarrow> bytes \<Rightarrow> byte \<Rightarrow> bytes" where
  "acr122s_answer number cmd pbtData cs =
     [STX, 0x80] @ le_bytes 4 (int (length pbtData + 4)) @ [0x00, number, 0x00, 0x00, 0x00] @
     [0xD5, cmd + 1] @ pbtData @ [0x90, 0x00] @ [cs, ETX]"

definition acr_on_line :: "byte \<Rightarrow> bytes \<Rightarrow> acr122s_data \<Rightarrow> bool" where
  "acr_on_line cmd pbtData d \<longleftrightarrow> (\<exists>number cs s. number + 1 = acr_seq d \<and> brings (acr_port d) (acr122s_answer number cmd pbtData cs @ s))"

lemma acr_receive_brings:
  assumes "brings (acr_port (driver_data dv)) (a @ s)" "a \<noteq> []" "0 \<le> t" "n = length a"
  shows "\<exists>p. acr_receive n ab t dv = Ret ((NFC_SUCCESS, a), on_acr (\<lambda>d. d\<lparr>acr_port := p\<rparr>) dv) \<and> brings p s"
  using receive_loop_brings [OF assms(1-3), of ab "[]"] assms(4) by (auto simp: acr_receive_def uart_receive_def)

lemma recv_frame_brings:
  assumes "acr_on_line cmd pbtData (driver_data dv)" "length pbtData \<le> 253" "0 \<le> timeout"
  obtains p number cs where "acr122s_recv_frame MAX_FRAME_SIZE True timeout dv =
    Ret ((0, acr122s_answer number cmd pbtData cs), on_acr (\<lambda>d. d\<lparr>acr_port := p\<rparr>) dv)"
proof -
  from assms(1) obtain number cs s where number: "number + 1 = acr_seq (driver_data dv)"
    and b: "brings (acr_port (driver_data dv)) (acr122s_answer number cmd pbtData cs @ s)" by (auto simp: acr_on_line_def)
  define head where "head = [STX, 0x80] @ le_bytes 4 (int (length pbtData + 4)) @ [0x00, number, 0x00, 0x00, 0x00]"
  define rest where "rest = [0xD5, cmd + 1] @ pbtData @ [0x90, 0x00] @ [cs, ETX]"
  have answer: "acr122s_answer number cmd pbtData cs = head @ rest" by (simp add: acr122s_answer_def head_def rest_def)
  have len: "length head = 11" "length rest = length pbtData + 6" "head ! 7 = number" "head \<noteq> []" "rest \<noteq> []" by (simp_all add: head_def rest_def nth_append)
  obtain p1 where p1: "acr_receive 11 True timeout dv = Ret ((0, head), on_acr (\<lambda>d. d\<lparr>acr_port := p1\<rparr>) dv)" "brings p1 (rest @ s)"
    using acr_receive_brings [of dv head "rest @ s" timeout 11 True] b answer len(1,4) assms(3) by (auto simp: NFC_SUCCESS_def)
  have size: "FRAME_SIZE head = word_of_nat (length pbtData + 17)"
    using APDU_SIZE_header [of "length pbtData + 4" STX "0x80"] assms(2) by (simp add: FRAME_SIZE_def head_def)
  have frame: "unat (FRAME_SIZE head) = length pbtData + 17" unfolding size unat_of_nat using assms(2) by simp
  have "unat (FRAME_SIZE head - 11) = unat (FRAME_SIZE head) - unat (11 :: 32 word)"
    using frame by (intro unat_sub) (simp add: word_le_nat_alt)
  then have left: "unat (FRAME_SIZE head - 11) = length rest" using frame len(2) by simp
  obtain p2 where p2: "acr_receive (length rest) True timeout (on_acr (\<lambda>d. d\<lparr>acr_port := p1\<rparr>) dv) =
      Ret ((0, rest), on_acr (\<lambda>d. d\<lparr>acr_port := p2\<rparr>) dv)"
    using acr_receive_brings [of "on_acr (\<lambda>d. d\<lparr>acr_port := p1\<rparr>) dv" rest s timeout "length rest" True] p1(2) len(2,5) assms(3)
    by (auto simp: on_acr_def NFC_SUCCESS_def)
  have "acr122s_recv_frame MAX_FRAME_SIZE True timeout dv = Ret ((0, head @ rest), on_acr (\<lambda>d. d\<lparr>acr_port := p2\<rparr>) dv)"
    using assms(2) p1(1) p2 frame left len(2,3) number by (simp add: acr122s_recv_frame_def) (simp add: on_acr_def)
  then show thesis using that answer by metis
qed

interpretation acr122s: delivering_driver acr122s_io acr_on_line 253 not_negative
proof
  fix cmd pbtData szDataLen and timeout :: int and dv :: "acr122s_data nfc_device"
  assume a: "acr_on_line cmd pbtData (driver_data dv)" "length pbtData \<le> szDataLen" "length pbtData \<le> 253" "0 \<le> timeout"
  then obtain p number cs where f: "acr122s_recv_frame MAX_FRAME_SIZE True timeout dv =
      Ret ((0, acr122s_answer number cmd pbtData cs), on_acr (\<lambda>d. d\<lparr>acr_port := p\<rparr>) dv)"
    using recv_frame_brings [of cmd pbtData dv timeout] by metis
  have "APDU_SIZE (acr122s_answer number cmd pbtData cs) = word_of_nat (length pbtData + 4)"
    unfolding acr122s_answer_def using a(3) by (intro APDU_SIZE_header) simp
  then have "FRAME_SIZE (acr122s_answer number cmd pbtData cs) - 17 = word_of_nat (length pbtData)" by (simp add: FRAME_SIZE_def)
  moreover have "unat (word_of_nat (length pbtData) :: 32 word) = length pbtData" unfolding unat_of_nat using a(3) by simp
  ultimately show "\<exists>dv'. io_receive acr122s_io szDataLen timeout dv = Ret ((int (length pbtData), pbtData), dv') \<and> chip_data dv' = chip_data dv"
    using a(2) by (simp add: acr122s_io_def acr122s_receive_def f nfc_errors Let_def acr122s_answer_def on_acr_def)
qed

section \<open>The two USB drivers\<close>

text \<open>These drivers wait in passes of 200 ms, without limit when the time is 0, and give up before the last pass.\<close>

abbreviation (input) beyond_a_pass :: "int \<Rightarrow> bool" where
  "beyond_a_pass t \<equiv> t = 0 \<or> 200 < t"

text \<open>A transfer that brings these bytes, however long it is waited for.\<close>

definition transfer_waits :: "'u usb_lib \<Rightarrow> bytes \<Rightarrow> ('u, 'm) usb_data \<Rightarrow> bool" where
  "transfer_waits lib rx d \<longleftrightarrow>
     (\<forall>t > 0. \<exists>u. usb_bulk_read lib (uiEndPointIn d) USB_BUFFER_LEN t (pudh d) = ((int (length rx), rx, False), u))"

lemma transfer_read:
  assumes "transfer_waits lib rx (driver_data dv)" "0 < t"
  shows "\<exists>u. bulk_read lib USB_BUFFER_LEN t dv = Ret ((int (length rx), rx), on_usb (\<lambda>d. d\<lparr>pudh := u\<rparr>) dv)"
  using assms by (fastforce simp: transfer_waits_def bulk_read_def on_usb_def)

lemma answer_frame_transfer:
  assumes "cmd \<noteq> 0xff" "length pbtData \<le> szDataLen" "length pbtData \<le> 253"
  shows "usb_frame szDataLen cmd (answer_frame cmd pbtData) = Ret (int (length pbtData), pbtData)"
proof -
  obtain l :: byte where l: "l = word_of_nat (length pbtData + 2)" by blast
  have "unat l = length pbtData + 2" using assms(3) unfolding l unat_of_nat by simp
  then have u: "uint l = int (length pbtData) + 2" by (simp only: uint_nat)
  then have sum: "uint l + uint (- l) = 256" by (intro byte_sum) auto
  have f: "answer_frame cmd pbtData = [0x00, 0x00, 0xff, l, - l] @ [0xD5, cmd + 1] @ pbtData @ [- (0xD5 + (cmd + 1) + sum_list pbtData), 0x00]"
    using assms(3) unfolding answer_frame_cases l by simp
  have "l \<noteq> 1" using u by auto
  moreover have "\<not> (l = 0xff \<and> - l = 0xff)" by auto
  ultimately show ?thesis
    using usb_body_answer [OF assms(1,2), of "[]"] sum u unfolding f usb_frame_def byte_at_def by auto
qed

definition usb_answer_waits :: "'u usb_lib \<Rightarrow> byte \<Rightarrow> bytes \<Rightarrow> ('u, 'm) usb_data \<Rightarrow> bool" where
  "usb_answer_waits lib cmd pbtData = transfer_waits lib (answer_frame cmd pbtData)"

interpretation pn53x_usb: delivering_driver "pn53x_usb_io lib" "usb_answer_waits lib" 253 beyond_a_pass for lib
proof
  fix cmd pbtData szDataLen and timeout :: int and dv :: "'a pn53x_usb_data nfc_device"
  assume w: "usb_answer_waits lib cmd pbtData (driver_data dv)" and a: "last_command (chip_data dv) = cmd" "cmd \<noteq> 0xff"
    "length pbtData \<le> szDataLen" "length pbtData \<le> 253" "timeout = 0 \<or> 200 < timeout"
  from transfer_read [OF w [unfolded usb_answer_waits_def], of "if timeout = 0 then 200 else min (timeout - 200) 200"] a(5) obtain u where
    u: "bulk_read lib USB_BUFFER_LEN (if timeout = 0 then 200 else min (timeout - 200) 200) dv =
      Ret ((int (length (answer_frame cmd pbtData)), answer_frame cmd pbtData), on_usb (\<lambda>d. d\<lparr>pudh := u\<rparr>) dv)" by auto
  have "pn53x_usb_receive lib szDataLen timeout dv = decode_frame szDataLen (answer_frame cmd pbtData) (on_usb (\<lambda>d. d\<lparr>pudh := u\<rparr>) dv)"
    unfolding pn53x_usb_receive_def using a(5) u by (intro first_pass_got) (simp_all add: read_pass_def)
  then show "\<exists>dv'. io_receive (pn53x_usb_io lib) szDataLen timeout dv = Ret ((int (length pbtData), pbtData), dv') \<and> chip_data dv' = chip_data dv"
    using answer_frame_transfer [OF a(2-4)] a(1) by (simp add: pn53x_usb_io_def decode_frame_def)
qed

definition acr_answer_waits :: "'u usb_lib \<Rightarrow> byte \<Rightarrow> bytes \<Rightarrow> ('u, 'm) usb_data \<Rightarrow> bool" where
  "acr_answer_waits lib cmd pbtData = transfer_waits lib (acr122_answer cmd pbtData)"

interpretation acr122_usb: delivering_driver "acr122_usb_io lib" "acr_answer_waits lib" 251 beyond_a_pass for lib
proof
  fix cmd pbtData szDataLen and timeout :: int and dv :: "'a acr122_usb_data nfc_device"
  assume w: "acr_answer_waits lib cmd pbtData (driver_data dv)" and a: "last_command (chip_data dv) = cmd" "cmd \<noteq> 0xff"
    "length pbtData \<le> szDataLen" "length pbtData \<le> 251" "timeout = 0 \<or> 200 < timeout"
  from transfer_read [OF w [unfolded acr_answer_waits_def], of "if timeout = 0 then 200 else min (timeout - 200) 200"] a(5) obtain u where
    u: "bulk_read lib USB_BUFFER_LEN (if timeout = 0 then 200 else min (timeout - 200) 200) dv =
      Ret ((int (length (acr122_answer cmd pbtData)), acr122_answer cmd pbtData), on_usb (\<lambda>d. d\<lparr>pudh := u\<rparr>) dv)" by auto
  have "acr122_usb_receive lib szDataLen timeout dv = decode_acr122 szDataLen (acr122_answer cmd pbtData) (on_usb (\<lambda>d. d\<lparr>pudh := u\<rparr>) dv)"
    unfolding acr122_usb_receive_def using a(5) u
    by (intro first_pass_got) (simp_all add: read_pass_def acr122_usb_bulk_read_def usb_error_def nfc_errors)
  then show "\<exists>dv'. io_receive (acr122_usb_io lib) szDataLen timeout dv = Ret ((int (length pbtData), pbtData), dv') \<and> chip_data dv' = chip_data dv"
    using acr122_frame_answer [OF a(2-4), of "[]"] a(1) by (simp add: acr122_usb_io_def decode_acr122_def)
qed

section \<open>The smart card service\<close>

text \<open>With the protocol T=0 the answer is asked for; with the others it came with the command.\<close>

definition service_holds :: "'u pcsc_lib \<Rightarrow> byte \<Rightarrow> bytes \<Rightarrow> 'u pcsc_data \<Rightarrow> bool" where
  "service_holds lib cmd pbtData d \<longleftrightarrow>
     (if dwProtocol d = SCARD_PROTOCOL_T0 then
        length pbtData + 4 \<le> length (pcsc_abtRx d) \<and>
        fst (SCardTransmit lib [0xFF, 0xC0, 0x00, 0x00, pcsc_abtRx d ! 1] ACR122_PCSC_RESPONSE_LEN (hCard d)) = Some (pcsc_answer cmd pbtData)
      else pcsc_szRx d = length pbtData + 4 \<and> take (length pbtData + 4) (pcsc_abtRx d) = pcsc_answer cmd pbtData)"

interpretation pcsc: delivering_driver "acr122_pcsc_io lib" "service_holds lib" 264 "\<lambda>_. True" for lib
proof
  fix cmd pbtData szDataLen and timeout :: int and dv :: "'a pcsc_data nfc_device"
  assume h: "service_holds lib cmd pbtData (driver_data dv)" and a: "length pbtData \<le> szDataLen"
  show "\<exists>dv'. io_receive (acr122_pcsc_io lib) szDataLen timeout dv = Ret ((int (length pbtData), pbtData), dv') \<and> chip_data dv' = chip_data dv"
  proof (cases "dwProtocol (driver_data dv) = SCARD_PROTOCOL_T0")
    case False
    then show ?thesis
      using pcsc_answer_received [of dv pbtData cmd szDataLen] h a by (simp add: acr122_pcsc_io_def acr122_pcsc_receive_def service_holds_def)
  next
    case True
    let ?d = "driver_data dv"
    let ?rx = "pcsc_answer cmd pbtData"
    obtain u where u: "SCardTransmit lib [0xFF, 0xC0, 0x00, 0x00, pcsc_abtRx ?d ! 1] ACR122_PCSC_RESPONSE_LEN (hCard ?d) = (Some ?rx, u)"
      using h True by (auto simp: service_holds_def prod_eq_iff)
    have len: "length pbtData + 4 \<le> length (pcsc_abtRx ?d)" using h True by (simp add: service_holds_def)
    have rx: "length ?rx = length pbtData + 4" by (simp add: pcsc_answer_def)
    let ?dv = "on_pcsc (\<lambda>d. d\<lparr>hCard := u, pcsc_abtRx := splice (pcsc_abtRx d) 0 ?rx, pcsc_szRx := length ?rx\<rparr>) dv"
    have "acr122_pcsc_receive lib szDataLen timeout dv = acr122_pcsc_answer szDataLen ?dv"
      using True u len rx by (simp add: acr122_pcsc_receive_def pcsc_call_def byte_at_def copy_into_def on_pcsc_def Let_def)
    also have "\<dots> = Ret ((int (length pbtData), pbtData), ?dv)"
      using a rx by (intro pcsc_answer_received [where cmd = cmd]) (simp_all add: on_pcsc_def splice_def)
    finally show ?thesis by (simp add: acr122_pcsc_io_def on_pcsc_def)
  qed
qed

section \<open>All readers\<close>

definition waits :: "(byte \<Rightarrow> bytes \<Rightarrow> 's \<Rightarrow> bool) \<Rightarrow> byte \<Rightarrow> bytes \<Rightarrow> 's nfc_device \<Rightarrow> bool" where
  "waits holds cmd pbtData dv \<longleftrightarrow> holds cmd pbtData (driver_data dv) \<and> last_command (chip_data dv) = cmd"

definition gives :: "bytes \<Rightarrow> 's nfc_device \<Rightarrow> ((int \<times> bytes) \<times> 's nfc_device) outcome \<Rightarrow> bool" where
  "gives pbtData dv m \<longleftrightarrow> (\<exists>dv'. m = Ret ((int (length pbtData), pbtData), dv') \<and> chip_data dv' = chip_data dv)"

lemma short_usb_times:
  assumes "timeout \<noteq> 0" "timeout \<le> 200"
  shows "pn53x_usb_receive lib szDataLen timeout dv = Ret ((NFC_ETIMEOUT, []), dv\<lparr>last_error := NFC_ETIMEOUT\<rparr>)"
    "acr122_usb_receive lib szDataLen timeout dv' = Ret ((NFC_ETIMEOUT, []), dv'\<lparr>last_error := NFC_ETIMEOUT\<rparr>)"
  unfolding pn53x_usb_receive_def acr122_usb_receive_def by (rule short_time_reads_nothing [OF assms])+

text \<open>C28. The readers wrap what the chip says in five ways: in a frame of the line behind a microcontroller, in a numbered frame on a line,
  in a transfer, in a transfer of the reader's own firmware, in a reply of the smart card service.  When an answer to a command (other
  than 0xff, which no chip has) waits and the caller has room for it, the receive of the driver returns its data and its length and
  leaves what is known of the chip: on a line up to 253 bytes and in any time that is not negative; through the service up to 264 bytes;
  in a transfer up to 253 bytes, 251 through the reader's firmware, when the time is 0, for no limit, or more than 200 ms.  In any other
  time the two USB drivers read nothing and report a timeout, although the answer waits.\<close>
theorem drivers_deliver_answer:
  assumes "cmd \<noteq> 0xff" "length pbtData \<le> szDataLen"
    and "waits on_line cmd pbtData dv1" "waits acr_on_line cmd pbtData dv2" "waits (usb_answer_waits lib) cmd pbtData dv3"
    and "waits (acr_answer_waits lib') cmd pbtData dv4" "waits (service_holds service) cmd pbtData dv5"
  shows "(0 \<le> timeout \<and> length pbtData \<le> 253 \<longrightarrow>
      gives pbtData dv1 (arygon_tama_receive szDataLen timeout dv1) \<and> gives pbtData dv2 (acr122s_receive szDataLen timeout dv2)) \<and>
    (if timeout = 0 \<or> 200 < timeout
     then (length pbtData \<le> 253 \<longrightarrow> gives pbtData dv3 (pn53x_usb_receive lib szDataLen timeout dv3)) \<and>
       (length pbtData \<le> 251 \<longrightarrow> gives pbtData dv4 (acr122_usb_receive lib' szDataLen timeout dv4))
     else pn53x_usb_receive lib szDataLen timeout dv3 = Ret ((NFC_ETIMEOUT, []), dv3\<lparr>last_error := NFC_ETIMEOUT\<rparr>) \<and>
       acr122_usb_receive lib' szDataLen timeout dv4 = Ret ((NFC_ETIMEOUT, []), dv4\<lparr>last_error := NFC_ETIMEOUT\<rparr>)) \<and>
    (length pbtData \<le> 264 \<longrightarrow> gives pbtData dv5 (acr122_pcsc_receive service szDataLen timeout dv5))"
  using assms arygon.delivers [of cmd pbtData dv1 szDataLen timeout] acr122s.delivers [of cmd pbtData dv2 szDataLen timeout]
    pn53x_usb.delivers [of lib cmd pbtData dv3 szDataLen timeout] acr122_usb.delivers [of lib' cmd pbtData dv4 szDataLen timeout]
    pcsc.delivers [of service cmd pbtData dv5 szDataLen timeout]
  by (simp add: waits_def gives_def arygon_tama_io_def acr122s_io_def pn53x_usb_io_def acr122_usb_io_def acr122_pcsc_io_def
      short_usb_times)

definition asked_device :: "'s \<Rightarrow> 's nfc_device" where
  "asked_device s = set_chip (\<lambda>c. c\<lparr>last_command := GetFirmwareVersion\<rparr>) (blank_device s)"

definition transfer_of :: "bytes \<Rightarrow> unit usb_lib" where
  "transfer_of rx = \<lparr>usb_bulk_read = (\<lambda>_ _ _ u. ((int (length rx), rx, False), u)), usb_bulk_write = (\<lambda>_ tx _ u. (int (length tx), u))\<rparr>"

definition opened_usb :: "'m \<Rightarrow> (unit, 'm) usb_data" where
  "opened_usb m = \<lparr>pudh = (), usb_model = m, uiEndPointIn = 0x84, uiEndPointOut = 0x04, uiMaxPacketSize = 64, abort_flag = False\<rparr>"

definition silent_service :: "unit pcsc_lib" where
  "silent_service = \<lparr>SCardControl = (\<lambda>_ _ u. (None, u)), SCardTransmit = (\<lambda>_ _ u. (None, u)), SCardConnect = (\<lambda>_ _. None), SCardListReaders = None\<rparr>"

definition told_by_service :: "bytes \<Rightarrow> unit pcsc_data" where
  "told_by_service rx = \<lparr>hCard = (), dwProtocol = SCARD_PROTOCOL_T1, pcsc_abtRx = rx @ replicate (268 - length rx) 0, pcsc_szRx = length rx\<rparr>"

lemma asked_simps:
  "driver_data (asked_device s) = s" "last_command (chip_data (asked_device s)) = GetFirmwareVersion"
  by (simp_all add: asked_device_def blank_device_def pn53x_data_new_def nfc_device_new_def)

lemma transfer_of_waits: "transfer_waits (transfer_of rx) rx d"
  by (simp add: transfer_waits_def transfer_of_def)

definition said :: bytes where
  "said = [0x32, 0x01, 0x06, 0x07]"

definition line_reader :: "uart_port nfc_device" where
  "line_reader = asked_device (port_with [Arrived (answer_frame GetFirmwareVersion said)])"

definition numbered_reader :: "acr122s_data nfc_device" where
  "numbered_reader = asked_device \<lparr>acr_port = port_with [Arrived (acr122s_answer 8 GetFirmwareVersion said 0)], acr_seq = 9\<rparr>"

definition service_reader :: "unit pcsc_data nfc_device" where
  "service_reader = asked_device (told_by_service (pcsc_answer GetFirmwareVersion said))"

lemma drivers_deliver_answer_witness:
  "gives said line_reader (arygon_tama_receive 4 1000 line_reader) \<and>
    gives said numbered_reader (acr122s_receive 4 1000 numbered_reader) \<and>
    gives said (asked_device (opened_usb NXP_PN533))
      (pn53x_usb_receive (transfer_of (answer_frame GetFirmwareVersion said)) 4 1000 (asked_device (opened_usb NXP_PN533))) \<and>
    gives said (asked_device (opened_usb ACR122))
      (acr122_usb_receive (transfer_of (acr122_answer GetFirmwareVersion said)) 4 1000 (asked_device (opened_usb ACR122))) \<and>
    gives said service_reader (acr122_pcsc_receive silent_service 4 1000 service_reader)"
proof -
  have l: "waits on_line GetFirmwareVersion said line_reader"
    by (simp add: line_reader_def waits_def asked_simps on_line_def brings_def arrivals_def port_with_def)
  have "brings (acr_port (driver_data numbered_reader)) (acr122s_answer 8 GetFirmwareVersion said 0 @ [])"
    by (simp add: numbered_reader_def asked_simps brings_def arrivals_def port_with_def)
  then have n: "waits acr_on_line GetFirmwareVersion said numbered_reader"
    unfolding waits_def acr_on_line_def by (intro conjI exI [of _ 8] exI [of _ 0] exI [of _ "[]"]) (simp_all add: numbered_reader_def asked_simps)
  have u: "waits (usb_answer_waits (transfer_of (answer_frame GetFirmwareVersion said))) GetFirmwareVersion said (asked_device (opened_usb NXP_PN533))"
    by (simp add: waits_def asked_simps usb_answer_waits_def transfer_of_waits)
  have a: "waits (acr_answer_waits (transfer_of (acr122_answer GetFirmwareVersion said))) GetFirmwareVersion said (asked_device (opened_usb ACR122))"
    by (simp add: waits_def asked_simps acr_answer_waits_def transfer_of_waits)
  have s: "waits (service_holds silent_service) GetFirmwareVersion said service_reader"
    by (simp add: service_reader_def waits_def asked_simps service_holds_def told_by_service_def pcsc_answer_def said_def)
  have "GetFirmwareVersion \<noteq> 0xff" "length said \<le> 4" "length said = 4" by (simp_all add: said_def)
  with drivers_deliver_answer [OF this(1,2) l n u a s, of 1000] show ?thesis by simp
qed

end
