(* ===== verification/Device_Types.thy ===== *)
theory Device_Types
  imports Nfc_Api
begin

text \<open>
  The type invariant of a device: the cache of registers has its size, the bits to be sent of a last byte are fewer than
  eight, and the current target's counts stay inside its arrays.  Every operation of the chip keeps it, whatever the
  chip answers, as long as the two functions of the driver do; they are the interface of the locale
  \<open>keeping_driver\<close>.
\<close>

section \<open>What holds after a run that returns\<close>

definition wlp :: "('a \<Rightarrow> bool) \<Rightarrow> 'a outcome \<Rightarrow> bool" where
  "wlp P m \<longleftrightarrow> (\<forall>x. m = Ret x \<longrightarrow> P x)"

lemma wlp_mono: "wlp P m \<Longrightarrow> (\<And>x. P x \<Longrightarrow> P' x) \<Longrightarrow> wlp P' m"
  by (simp add: wlp_def)

named_theorems wlp_simps "what holds after an operation, from its parts"

lemma wlp_outcomes [wlp_simps]:
  "wlp P (Ret x) \<longleftrightarrow> P x" "wlp P Blocks" "wlp P Aborts" "wlp P Undefined"
  by (simp_all add: wlp_def)

lemma wlp_and_then [wlp_simps]: "wlp P (and_then m k) \<longleftrightarrow> wlp (\<lambda>x. wlp P (k x)) m"
  by (cases m) (simp_all add: wlp_def)

lemma wlp_on_ok [wlp_simps]:
  "wlp P (on_ok err m k) \<longleftrightarrow> wlp (\<lambda>(res, dv). if res < 0 then P (err res, dv) else wlp P (k res dv)) m"
  unfolding on_ok_def by (cases m) (auto simp: wlp_simps)

lemma wlp_on_rx [wlp_simps]:
  "wlp P (on_rx err m k) \<longleftrightarrow> wlp (\<lambda>((res, rx), dv). if res < 0 then P (err res, dv) else wlp P (k res rx dv)) m"
  unfolding on_rx_def by (cases m) (auto simp: wlp_simps)

lemma wlp_rx_dropped [wlp_simps]: "wlp P (rx_dropped m) \<longleftrightarrow> wlp (\<lambda>((res, rx), dv). P (res, dv)) m"
  unfolding rx_dropped_def by (cases m) (auto simp: wlp_simps)

lemma wlp_ignoring [wlp_simps]: "wlp P (ignoring m k) \<longleftrightarrow> wlp (\<lambda>(res, dv). wlp P (k dv)) m"
  unfolding ignoring_def by (cases m) (auto simp: wlp_simps)

lemma wlp_fail_with [wlp_simps]: "wlp P (fail_with e dv) \<longleftrightarrow> P (e, dv\<lparr>last_error := e\<rparr>)"
  unfolding fail_with_def by (simp add: wlp_simps)

lemma wlp_if [wlp_simps]: "wlp P (if b then m else m') \<longleftrightarrow> (if b then wlp P m else wlp P m')"
  by simp

lemma wlpI: "(\<And>x. P x) \<Longrightarrow> wlp P m"
  by (simp add: wlp_def)

lemma wlp_True [simp]: "wlp (\<lambda>_. True) m"
  by (simp add: wlp_def)

lemma wlp_of_run: "(\<And>m. r = Some m \<Longrightarrow> wlp P m) \<Longrightarrow> wlp (wlp P) (of_run r)"
  by (cases r) (simp_all add: wlp_simps)

section \<open>Targets\<close>

definition target_ok :: "nfc_target \<Rightarrow> bool" where
  "target_ok t \<longleftrightarrow>
     target_info_ok (nti t) \<and> nai_szUidLen (nai (nti t)) \<le> 10 \<and> nai_szAtsLen (nai (nti t)) \<le> 254 \<and>
     nii_szAtrLen (nii (nti t)) \<le> 33 \<and> dep_szGB (ndi (nti t)) \<le> 48"

lemma wlp_read_byte [wlp_simps]: "wlp P (read_byte p k) \<longleftrightarrow> (\<forall>b q. p = b # q \<longrightarrow> wlp P (k b q))"
  by (cases p) (simp_all add: read_byte_def wlp_simps)

lemma wlp_copy_into [wlp_simps]:
  "wlp P (copy_into a i src n) \<longleftrightarrow> (i + n \<le> length a \<and> n \<le> length src \<longrightarrow> P (splice a i (take n src)))"
  by (auto simp: copy_into_def wlp_simps)

lemma wlp_read_array [wlp_simps]:
  "wlp P (read_array a i p n k) \<longleftrightarrow>
     (i + n \<le> length a \<and> n \<le> length p \<longrightarrow> wlp P (k (splice a i (take n p)) (drop n p)))"
  by (simp add: read_array_def wlp_simps)

lemma wlp_byte_at [wlp_simps]: "wlp P (byte_at bs i) \<longleftrightarrow> (i < length bs \<longrightarrow> P (bs ! i))"
  by (simp add: byte_at_def wlp_simps)

lemma target_ok_modulation [simp]: "target_ok (t\<lparr>nm := m\<rparr>) = target_ok t" "target_ok \<lparr>nti = nti t, nm = m\<rparr> = target_ok t"
  by (simp_all add: target_ok_def)

lemma stripped:
  "n \<le> 10 \<Longrightarrow> length u = 10 \<Longrightarrow> strip_cascade_tags n u = (n', u') \<Longrightarrow> n' \<le> 10 \<and> length u' = 10"
  by (auto simp: strip_cascade_tags_def Let_def length_splice split: if_splits)

lemma decoded_a:
  assumes "length (nai_abtUid i) = 10" "length (nai_abtAts i) = 254"
  shows "wlp (\<lambda>i. length (nai_abtAtqa i) = 2 \<and> length (nai_abtUid i) = 10 \<and> length (nai_abtAts i) = 254 \<and> nai_szUidLen i \<le> 10 \<and>
      nai_szAtsLen i \<le> 254) (decode_iso14443a raw szRaw type i)"
proof -
  have ats: "wlp (\<lambda>(n, a). n \<le> 254 \<and> length a = 254)
      (if b then read_byte p (\<lambda>l p. if l = 0 then Undefined
         else read_array (nai_abtAts i) 0 p (unat l - 1) (\<lambda>ats p. Ret (unat l - 1, ats))) else Ret (0, nai_abtAts i))" for b p
    using assms(2) by (simp add: wlp_simps length_splice)
  have uid: "wlp (\<lambda>i. length (nai_abtAtqa i) = 2 \<and> length (nai_abtUid i) = 10 \<and> length (nai_abtAts i) = 254 \<and> nai_szUidLen i \<le> 10 \<and>
      nai_szAtsLen i \<le> 254)
      (case strip_cascade_tags n u of (n', u') \<Rightarrow> and_then m (\<lambda>(szAts, ats).
         Ret \<lparr>nai_abtAtqa = (if type = PN531 then [y, x] else [x, y]), nai_btSak = sak, nai_szUidLen = n',
              nai_abtUid = u', nai_szAtsLen = szAts, nai_abtAts = ats\<rparr>))"
    if "n \<le> 10" "length u = 10" "wlp (\<lambda>(n, a). n \<le> 254 \<and> length a = 254) m" for n u m x y sak
  proof -
    obtain n' u' where s: "strip_cascade_tags n u = (n', u')" by fastforce
    with stripped [OF that(1,2) s] show ?thesis by (simp only: prod.case wlp_and_then) (auto intro: wlp_mono [OF that(3)] simp: wlp_outcomes)
  qed
  show ?thesis
    unfolding decode_iso14443a_def Let_def wlp_read_byte wlp_read_array
    by (intro allI impI uid ats) (use assms(1) in \<open>simp_all add: length_splice\<close>)
qed

lemma decoded_bi:
  assumes "length (nii_abtDIV i) = 4" "length (nii_abtAtr i) = 33" "nii_szAtrLen i \<le> 33"
  shows "wlp (\<lambda>(res, i). length (nii_abtDIV i) = 4 \<and> length (nii_abtAtr i) = 33 \<and> nii_szAtrLen i \<le> 33) (decode_iso14443bi raw szRaw i)"
  unfolding decode_iso14443bi_def Let_def wlp_read_byte wlp_if wlp_read_array wlp_outcomes
  using assms by (auto simp: length_splice wlp_outcomes)

lemma decoded_others:
  "length (nbi_abtPupi b) = 4 \<Longrightarrow> length (nbi_abtApplicationData b) = 4 \<Longrightarrow> length (nbi_abtProtocolInfo b) = 3 \<Longrightarrow>
     wlp (\<lambda>b. length (nbi_abtPupi b) = 4 \<and> length (nbi_abtApplicationData b) = 4 \<and> length (nbi_abtProtocolInfo b) = 3)
       (decode_iso14443b raw b)"
  "length (nci_abtUID c) = 4 \<Longrightarrow> wlp (\<lambda>c. length (nci_abtUID c) = 4) (decode_iso14443b2ct raw c)"
  "length (nfi_abtId f) = 8 \<Longrightarrow> length (nfi_abtPad f) = 8 \<Longrightarrow> length (nfi_abtSysCode f) = 2 \<Longrightarrow>
     wlp (\<lambda>f. length (nfi_abtId f) = 8 \<and> length (nfi_abtPad f) = 8 \<and> length (nfi_abtSysCode f) = 2) (decode_felica raw f)"
  "length (nji_btSensRes j) = 2 \<Longrightarrow> length (nji_btId j) = 4 \<Longrightarrow>
     wlp (\<lambda>j. length (nji_btSensRes j) = 2 \<and> length (nji_btId j) = 4) (decode_jewel raw j)"
  unfolding decode_iso14443b_def decode_iso14443b2ct_def decode_felica_def decode_jewel_def Let_def
  by (simp_all add: wlp_simps length_splice)

lemma decoded_ok:
  assumes "target_ok t"
  shows "wlp (\<lambda>(res, i). target_ok \<lparr>nti = i, nm = m\<rparr>) (pn53x_decode_target_data raw szRaw type mt (nti t))"
  using assms
  by (cases mt)
     (auto simp: wlp_and_then wlp_outcomes wlp_read_array target_ok_def target_info_ok_def length_splice
       intro: wlp_mono [OF decoded_a] wlp_mono [OF decoded_bi] wlp_mono [OF decoded_others(1)] wlp_mono [OF decoded_others(2)]
         wlp_mono [OF decoded_others(3)] wlp_mono [OF decoded_others(4)])

section \<open>Devices\<close>

definition chip_ok :: "pn53x_data \<Rightarrow> bool" where
  "chip_ok c \<longleftrightarrow>
     length (wb_data c) = 62 \<and> length (wb_mask c) = 62 \<and> ui8TxBits c < 8 \<and> pred_option target_ok (current_target c)"

definition device_ok :: "'s nfc_device \<Rightarrow> bool" where
  "device_ok dv \<longleftrightarrow> chip_ok (chip_data dv)"

text \<open>What the operations change without touching the invariant.\<close>

lemma chip_ok_frame [simp]:
  "chip_ok (c\<lparr>ch_type := a\<rparr>) = chip_ok c" "chip_ok (c\<lparr>firmware_text := s\<rparr>) = chip_ok c" "chip_ok (c\<lparr>power_mode := pm\<rparr>) = chip_ok c"
  "chip_ok (c\<lparr>operating_mode := om\<rparr>) = chip_ok c" "chip_ok (c\<lparr>sam_mode := sm\<rparr>) = chip_ok c" "chip_ok (c\<lparr>last_status_byte := b\<rparr>) = chip_ok c"
  "chip_ok (c\<lparr>ui8Parameters := b\<rparr>) = chip_ok c" "chip_ok (c\<lparr>last_command := b\<rparr>) = chip_ok c" "chip_ok (c\<lparr>timer_prescaler := w\<rparr>) = chip_ok c"
  "chip_ok (c\<lparr>wb_trigged := t\<rparr>) = chip_ok c" "chip_ok (c\<lparr>timeout_command := n\<rparr>) = chip_ok c" "chip_ok (c\<lparr>timeout_atr := n\<rparr>) = chip_ok c"
  "chip_ok (c\<lparr>timeout_communication := n\<rparr>) = chip_ok c" "chip_ok (c\<lparr>supported_modulation_as_initiator := l\<rparr>) = chip_ok c"
  "chip_ok (c\<lparr>supported_modulation_as_target := l\<rparr>) = chip_ok c"
  by (simp_all add: chip_ok_def)

lemma chip_ok_changes [simp]:
  "chip_ok c \<Longrightarrow> chip_ok (c\<lparr>current_target := None\<rparr>)" "chip_ok c \<Longrightarrow> target_ok t \<Longrightarrow> chip_ok (c\<lparr>current_target := Some t\<rparr>)"
  "chip_ok c \<Longrightarrow> b < 8 \<Longrightarrow> chip_ok (c\<lparr>ui8TxBits := b\<rparr>)" "chip_ok c \<Longrightarrow> length d = 62 \<Longrightarrow> chip_ok (c\<lparr>wb_data := d\<rparr>)"
  "chip_ok c \<Longrightarrow> length m = 62 \<Longrightarrow> chip_ok (c\<lparr>wb_mask := m\<rparr>)" "chip_ok c \<Longrightarrow> chip_ok (cache_write n m' v c)"
  by (simp_all add: chip_ok_def cache_write_def)

lemma device_ok_frame [simp]:
  "device_ok (dv\<lparr>last_error := e\<rparr>) = device_ok dv" "device_ok (dv\<lparr>bCrc := b\<rparr>) = device_ok dv" "device_ok (dv\<lparr>bPar := b\<rparr>) = device_ok dv"
  "device_ok (dv\<lparr>bEasyFraming := b\<rparr>) = device_ok dv" "device_ok (dv\<lparr>bAutoIso14443_4 := b\<rparr>) = device_ok dv"
  "device_ok (dv\<lparr>btSupportByte := s\<rparr>) = device_ok dv" "device_ok (dv\<lparr>driver_data := x\<rparr>) = device_ok dv"
  by (simp_all add: device_ok_def)

lemma device_ok_set_chip [simp]: "device_ok (set_chip f dv) \<longleftrightarrow> chip_ok (f (chip_data dv))"
  by (simp add: device_ok_def)

lemma device_ok_chip [simp]: "device_ok dv \<Longrightarrow> chip_ok (chip_data dv)"
  by (simp add: device_ok_def)

lemma device_ok_target [simp]:
  "device_ok dv \<Longrightarrow> device_ok (pn53x_current_target_free dv)" "device_ok dv \<Longrightarrow> target_ok t \<Longrightarrow> device_ok (pn53x_current_target_new t dv)"
  "device_ok dv \<Longrightarrow> device_ok (sets_power_mode tx md dv)" "device_ok dv \<Longrightarrow> device_ok (learn_modulations dv)"
  by (simp_all add: pn53x_current_target_free_def pn53x_current_target_new_def sets_power_mode_def learn_modulations_def)

text \<open>An operation that keeps the invariant, as a rule for whatever is to hold after it.\<close>

definition keeps :: "('a \<times> 's nfc_device) outcome \<Rightarrow> bool" where
  "keeps m \<longleftrightarrow> wlp (\<lambda>(r, dv). device_ok dv) m"

lemma keepsE: "keeps m \<Longrightarrow> (\<And>r dv. device_ok dv \<Longrightarrow> P (r, dv)) \<Longrightarrow> wlp P m"
  by (auto simp: keeps_def elim!: wlp_mono)

lemma keepsI: "wlp (\<lambda>(r, dv). device_ok dv) m \<Longrightarrow> keeps m"
  by (simp add: keeps_def)

lemma keeps_outcomes [simp]: "keeps (Ret (r, dv)) = device_ok dv" "keeps Undefined" "keeps Blocks"
  by (simp_all add: keeps_def wlp_simps)

named_theorems kept "operations that keep the invariant, for whatever is to hold after them"

text \<open>The target that is handed back is as well-formed as the one that was handed in.\<close>

abbreviation keeps_target :: "('a \<times> nfc_target option) \<times> 's nfc_device \<Rightarrow> bool" where
  "keeps_target \<equiv> \<lambda>((res, pnt), dv). device_ok dv \<and> pred_option target_ok pnt"

abbreviation keeps_emulated :: "('a \<times> nfc_target \<times> 'b) \<times> 's nfc_device \<Rightarrow> bool" where
  "keeps_emulated \<equiv> \<lambda>((res, t, rx), dv). device_ok dv \<and> target_ok t"

lemma merged_ok: "wlp (\<lambda>(wd', wm'). length wd' = length wd \<and> length wm' = length wm) (merge_answer rx ns i (wd, wm))"
  by (induction rx ns i "(wd, wm)" arbitrary: wd wm rule: merge_answer.induct)
     (auto simp: wlp_simps Let_def elim!: wlp_mono)

lemma collected_ok: "length (snd (collect_writes wd ns wm)) = length wm"
  by (induction wd ns wm rule: collect_writes.induct) (auto simp: Let_def split_beta)

locale keeping_driver =
  fixes io :: "'s pn53x_io"
  assumes send_kept: "device_ok dv \<Longrightarrow> keeps (io_send io tx t dv)"
    and receive_kept: "device_ok dv \<Longrightarrow> keeps (io_receive io n t dv)"
begin

lemmas [kept] = keepsE [OF send_kept] keepsE [OF receive_kept]

lemma transceive_now_kept: "device_ok dv \<Longrightarrow> keeps (transceive_now io tx n t dv)"
  unfolding transceive_now_def Let_def by (auto intro!: keepsI kept intro: wlpI simp: wlp_simps)

lemmas [kept] = keepsE [OF transceive_now_kept]

text \<open>Writing the cache back, over exchanges that keep the invariant.\<close>

lemma writeback_kept:
  assumes "\<And>tx n t dv. device_ok dv \<Longrightarrow> keeps (tr tx n t dv)" "device_ok dv"
  shows "keeps (writeback_with tr dv)"
proof -
  note tr = keepsE [OF assms(1)]
  have reads: "keeps (writeback_reads tr dv)" if "device_ok dv" for dv
    unfolding writeback_reads_def Let_def
    using that by (auto intro!: keepsI tr wlp_mono [OF merged_ok] simp: wlp_simps chip_ok_def device_ok_def)
  have writes: "keeps (writeback_writes tr dv)" if "device_ok dv" for dv
    using that collected_ok [of "wb_data (chip_data dv)" cache_places "wb_mask (chip_data dv)"]
    unfolding writeback_writes_def Let_def
    by (cases "collect_writes (wb_data (chip_data dv)) cache_places (wb_mask (chip_data dv))")
       (auto intro!: keepsI tr simp: wlp_simps device_ok_def chip_ok_def)
  show ?thesis
    unfolding writeback_with_def using assms(2) by (auto intro!: keepsI keepsE [OF reads] keepsE [OF writes] simp: wlp_simps)
qed

lemma transceive_n_kept: "device_ok dv \<Longrightarrow> keeps (pn53x_transceive_n k io tx n t dv)"
proof (induction k arbitrary: tx n t dv)
  case 0
  then show ?case by (simp add: keeps_def wlp_simps)
next
  case (Suc k)
  then show ?case by (intro keepsI) (auto intro!: kept keepsE [OF writeback_kept] simp: wlp_simps)
qed

lemma transceive_kept: "device_ok dv \<Longrightarrow> keeps (pn53x_transceive io tx n t dv)"
  unfolding pn53x_transceive_def by (rule transceive_n_kept)

lemmas [kept] = keepsE [OF transceive_kept]

lemma command_kept: "device_ok dv \<Longrightarrow> keeps (command io tx t dv)"
  unfolding command_def by (auto intro!: keepsI kept simp: wlp_simps)

lemmas [kept] = keepsE [OF command_kept]

lemma read_register_kept: "device_ok dv \<Longrightarrow> keeps (pn53x_read_register io a dv)"
  unfolding pn53x_read_register_def pn53x_ReadRegister_def by (auto intro!: keepsI kept simp: wlp_simps)

lemmas [kept] = keepsE [OF read_register_kept]

lemma write_register_kept: "device_ok dv \<Longrightarrow> keeps (pn53x_write_register io a m v dv)"
  unfolding pn53x_write_register_def pn53x_WriteRegister_def Let_def by (auto intro!: keepsI kept simp: wlp_simps)

lemmas [kept] = keepsE [OF write_register_kept]

lemma set_parameters_kept: "device_ok dv \<Longrightarrow> keeps (pn53x_SetParameters io v dv)"
  and change_parameters_kept: "device_ok dv \<Longrightarrow> keeps (pn53x_set_parameters io v b dv)"
  unfolding pn53x_set_parameters_def pn53x_SetParameters_def Let_def by (auto intro!: keepsI kept simp: wlp_simps)

lemma set_tx_bits_kept: "device_ok dv \<Longrightarrow> b < 8 \<Longrightarrow> keeps (pn53x_set_tx_bits io b dv)"
  unfolding pn53x_set_tx_bits_def by (auto intro!: keepsI kept simp: wlp_simps)

lemma sam_configuration_kept: "device_ok dv \<Longrightarrow> keeps (pn532_SAMConfiguration io md t dv)"
  unfolding pn532_SAMConfiguration_def Let_def by (auto intro!: keepsI kept simp: wlp_simps)

lemma power_down_kept: "device_ok dv \<Longrightarrow> keeps (pn53x_PowerDown io dv)"
  unfolding pn53x_PowerDown_def by (auto intro!: keepsI kept simp: wlp_simps)

lemma drop_target_kept: "device_ok dv \<Longrightarrow> keeps (drop_target io cmd tg dv)"
  unfolding drop_target_def by (auto intro!: keepsI kept simp: wlp_simps)

lemma rf_configuration_kept:
  "device_ok dv \<Longrightarrow> keeps (pn53x_RFConfiguration__RF_field io b dv)"
  "device_ok dv \<Longrightarrow> keeps (pn53x_RFConfiguration__Various_timings io a r dv)"
  "device_ok dv \<Longrightarrow> keeps (pn53x_RFConfiguration__MaxRetries io x y z dv)"
  unfolding pn53x_RFConfiguration__RF_field_def pn53x_RFConfiguration__Various_timings_def pn53x_RFConfiguration__MaxRetries_def
  by (auto intro!: command_kept)

lemmas [kept] = keepsE [OF set_parameters_kept] keepsE [OF change_parameters_kept] keepsE [OF set_tx_bits_kept]
  keepsE [OF sam_configuration_kept] keepsE [OF power_down_kept] keepsE [OF drop_target_kept] keepsE [OF rf_configuration_kept(1)]
  keepsE [OF rf_configuration_kept(2)] keepsE [OF rf_configuration_kept(3)]

text \<open>Settings.\<close>

lemma decode_firmware_version_kept: "device_ok dv \<Longrightarrow> keeps (pn53x_decode_firmware_version io dv)"
  unfolding pn53x_decode_firmware_version_def
  by (auto intro!: keepsI kept intro: wlpI simp: wlp_simps split: option.splits pn53x_type.splits)

lemma set_property_int_kept: "device_ok dv \<Longrightarrow> keeps (pn53x_set_property_int io p v dv)"
  unfolding pn53x_set_property_int_def set_timings_def by (cases p) (auto intro!: keepsI kept simp: wlp_simps)

lemma set_property_bool_kept: "device_ok dv \<Longrightarrow> keeps (pn53x_set_property_bool io p b dv)"
  unfolding pn53x_set_property_bool_def Let_def by (cases p; rule keepsI) (auto intro!: kept simp: wlp_simps)

lemma device_set_property_bool_kept: "device_ok dv \<Longrightarrow> keeps (nfc_device_set_property_bool io p b dv)"
  unfolding nfc_device_set_property_bool_def by (simp add: set_property_bool_kept)

lemmas [kept] = keepsE [OF set_property_bool_kept] keepsE [OF device_set_property_bool_kept] keepsE [OF decode_firmware_version_kept]

lemma reset_settings_kept: "device_ok dv \<Longrightarrow> keeps (pn53x_reset_settings io dv)"
  unfolding pn53x_reset_settings_def by (intro keepsI) (auto intro!: kept simp: wlp_simps)

lemmas [kept] = keepsE [OF reset_settings_kept]

lemma init_kept: "device_ok dv \<Longrightarrow> keeps (pn53x_init io dv)"
  unfolding pn53x_init_def by (intro keepsI) (auto intro!: kept simp: wlp_simps)

lemma idle_over_kept:
  assumes "\<And>dv. device_ok dv \<Longrightarrow> keeps (drop_field dv)" "device_ok dv"
  shows "keeps (pn53x_idle_over drop_field io dv)"
  using assms(2) unfolding pn53x_idle_over_def pn53x_InRelease_def pn53x_InDeselect_def
  by (cases "operating_mode (chip_data dv)"; intro keepsI) (auto intro!: kept keepsE [OF assms(1)] simp: wlp_simps)

lemma idle_kept: "device_ok dv \<Longrightarrow> keeps (pn53x_idle io dv)"
  unfolding pn53x_idle_def by (rule idle_over_kept [OF device_set_property_bool_kept])

lemma check_communication_kept: "device_ok dv \<Longrightarrow> keeps (pn53x_check_communication io dv)"
  unfolding pn53x_check_communication_def Let_def by (intro keepsI) (auto intro!: kept simp: wlp_simps)

lemma initiator_init_kept: "device_ok dv \<Longrightarrow> keeps (pn53x_initiator_init io dv)"
  unfolding pn53x_initiator_init_def by (intro keepsI) (auto intro!: kept simp: wlp_simps)

lemmas [kept] = keepsE [OF init_kept] keepsE [OF idle_kept] keepsE [OF check_communication_kept] keepsE [OF initiator_init_kept]

text \<open>Exchanges with a target.\<close>

lemma bits_command_bits: "wlp (\<lambda>(res, cmd, b). (word_of_nat b :: byte) < 8) (bits_command par cmd tx n px)"
proof -
  have "(word_of_nat (k mod 8) :: byte) < 8" for k
    using unat_byte [of "k mod 8"] by (simp add: word_less_nat_alt)
  then show ?thesis unfolding bits_command_def Let_def by (auto simp: wlp_simps intro: wlpI)
qed

lemma transceive_bits_kept: "device_ok dv \<Longrightarrow> keeps (pn53x_initiator_transceive_bits io tx n px wanted dv)"
  unfolding pn53x_initiator_transceive_bits_def Let_def
  by (intro keepsI) (auto intro!: kept wlp_mono [OF bits_command_bits] intro: wlpI simp: wlp_simps)

lemma transceive_bytes_kept: "device_ok dv \<Longrightarrow> keeps (pn53x_initiator_transceive_bytes io tx room t dv)"
  unfolding pn53x_initiator_transceive_bytes_def Let_def
  by (intro keepsI) (auto intro!: kept simp: wlp_simps split: option.splits)

lemma init_timer_kept: "device_ok dv \<Longrightarrow> wlp device_ok (init_timer io n dv)"
  unfolding init_timer_def Let_def by (auto intro!: kept simp: wlp_simps)

lemma get_timer_kept: "device_ok dv \<Longrightarrow> keeps (get_timer io b dv)"
  unfolding get_timer_def Let_def by (intro keepsI) (auto intro!: kept simp: wlp_simps)

lemma wait_fifo_kept:
  assumes "wait_fifo io i sz dv = Some m" "device_ok dv"
  shows "keeps m"
proof -
  let ?P = "\<lambda>io' i sz dv m. io' = io \<longrightarrow> device_ok dv \<longrightarrow> keeps m"
  have "?P io i sz dv m"
  proof (rule wait_fifo.raw_induct [where P = ?P, OF _ assms(1)], intro impI, goal_cases)
    case (1 f io' i sz dv m)
    show ?case
    proof (cases "uint i < 3 * (uint (timer_prescaler (chip_data dv)) * 2 + 1)")
      case True
      show ?thesis
        using 1 True read_register_kept [OF 1(4), of PN53X_REG_CIU_FIFOLevel]
        by (auto simp: keeps_def wlp_simps Let_def split: outcome.splits option.splits if_splits)
    next
      case False
      then show ?thesis using 1 by (auto simp: keeps_def wlp_simps)
    qed
  qed
  then show ?thesis using assms(2) by simp
qed

lemma read_fifo_kept:
  assumes "read_fifo io off sz szRx out dv = Some m" "device_ok dv"
  shows "keeps m"
proof -
  let ?P = "\<lambda>io' off sz szRx out dv m. io' = io \<longrightarrow> device_ok dv \<longrightarrow> keeps m"
  have "?P io off sz szRx out dv m"
  proof (rule read_fifo.raw_induct [where P = ?P, OF _ assms(1)], intro impI, goal_cases)
    case (1 f io' off sz szRx out dv m)
    show ?case
      using 1 transceive_kept [OF 1(4), of "fifo_read_command sz" PN53x_EXTENDED_FRAME__DATA_MAX_LEN "- 1"]
      by (auto simp: keeps_def wlp_simps Let_def split: outcome.splits if_splits)
  qed
  then show ?thesis using assms(2) by simp
qed

lemma wait_fifo_run:
  "device_ok dv \<Longrightarrow> (\<And>r dv. device_ok dv \<Longrightarrow> P (r, dv)) \<Longrightarrow> wlp (wlp P) (of_run (wait_fifo io i sz dv))"
  by (rule wlp_of_run) (rule keepsE [OF wait_fifo_kept])

lemma read_fifo_run:
  "device_ok dv \<Longrightarrow> (\<And>r dv. device_ok dv \<Longrightarrow> P (r, dv)) \<Longrightarrow> wlp (wlp P) (of_run (read_fifo io off sz szRx out dv))"
  by (rule wlp_of_run) (rule keepsE [OF read_fifo_kept])

lemma timed_exchange_kept: "device_ok dv \<Longrightarrow> keeps (timed_exchange io cmd dv)"
  unfolding timed_exchange_def
  by (intro keepsI) (auto intro!: kept wait_fifo_run read_fifo_run simp: wlp_simps split: option.splits)

lemmas [kept] = keepsE [OF timed_exchange_kept] keepsE [OF get_timer_kept]

lemma timed_result_kept: "keeps m \<Longrightarrow> keeps (timed_result io b u cyc m)"
  unfolding timed_result_def by (rule keepsI, unfold wlp_and_then, erule keepsE) (auto intro!: kept simp: wlp_simps)

lemma bits_timed_kept: "device_ok dv \<Longrightarrow> keeps (pn53x_initiator_transceive_bits_timed io tx n cyc dv)"
  unfolding pn53x_initiator_transceive_bits_timed_def Let_def
  by (intro keepsI)
    (auto intro!: wlp_mono [OF init_timer_kept] keepsE [OF timed_result_kept] timed_exchange_kept simp: wlp_simps)

lemma bytes_timed_kept: "device_ok dv \<Longrightarrow> keeps (pn53x_initiator_transceive_bytes_timed io tx cyc dv)"
proof -
  have ret: "keeps (Ret (r, dv))" if "device_ok dv" for r :: "int \<times> nat \<times> bytes" and dv :: "'s nfc_device"
    using that by (simp add: keeps_def wlp_simps)
  assume "device_ok dv"
  then show ?thesis
    unfolding pn53x_initiator_transceive_bytes_timed_def Let_def
    by (intro keepsI)
      (auto intro!: wlp_mono [OF init_timer_kept] kept keepsE [OF timed_result_kept] ret intro: wlpI simp: wlp_simps)
qed

lemmas [kept] = keepsE [OF transceive_bits_kept] keepsE [OF transceive_bytes_kept]

text \<open>Selecting targets: the target that comes back is as well-formed as the one that was handed in.\<close>

lemma list_passive_kept: "device_ok dv \<Longrightarrow> keeps (pn53x_InListPassiveTarget io pm n d room t dv)"
  unfolding pn53x_InListPassiveTarget_def Let_def by (intro keepsI) (auto intro!: kept simp: wlp_simps split: option.splits)

lemma auto_poll_kept: "device_ok dv \<Longrightarrow> keeps (pn53x_InAutoPoll io types n p ts t dv)"
  unfolding pn53x_InAutoPoll_def Let_def by (cases ts) (auto intro!: keepsI kept intro: wlpI simp: wlp_simps split: prod.splits)

lemma dep_info_ok:
  assumes "length (dep_abtNFCID3 i) = 10" "length (dep_abtGB i) = 48"
  shows "wlp (\<lambda>i. length (dep_abtNFCID3 i) = 10 \<and> length (dep_abtGB i) = 48 \<and> dep_szGB i \<le> 48) (dep_info_of n rx ndm i)"
  using assms unfolding dep_info_of_def Let_def by (auto simp: wlp_simps length_splice)

lemma jump_for_dep_kept:
  assumes "device_ok dv" "pred_option target_ok pnt"
  shows "wlp keeps_target (pn53x_InJumpForDEP io ndm rate passive id3 gb szGB pnt t dv)"
proof -
  have dep: "wlp (\<lambda>i. target_ok \<lparr>nti = (nti tg)\<lparr>ndi := i\<rparr>, nm = m\<rparr>) (dep_info_of n rx ndm (ndi (nti tg)))" if "target_ok tg" for tg m n rx
    using that by (intro wlp_mono [OF dep_info_ok]) (auto simp: target_ok_def target_info_ok_def)
  show ?thesis
    using assms unfolding pn53x_InJumpForDEP_def
    by (auto intro!: kept wlp_mono [OF dep] wlpI [where m = "jump_command _ _ _ _ _ _ _"] simp: wlp_simps split: option.splits)
qed

lemma select_listed_kept:
  assumes "device_ok dv" "pred_option target_ok pnt"
  shows "wlp keeps_target (select_listed io m d pnt t dv)"
  using assms unfolding select_listed_def Let_def
  by (auto intro!: keepsE [OF list_passive_kept] wlp_mono [OF decoded_ok] device_ok_target simp: wlp_simps split: option.splits)

lemma select_steps_kept:
  "device_ok dv \<Longrightarrow> keeps (select_prologue io mt t dv)"
  "device_ok dv \<Longrightarrow> keeps (select_second_half io mt t sz buf dv)"
  "device_ok dv \<Longrightarrow> keeps (select_attrib io mt t known dv)"
  unfolding select_prologue_def select_second_half_def select_attrib_def Let_def
  by (auto intro!: keepsI kept simp: wlp_simps)

lemma select_by_hand_kept:
  assumes "device_ok dv" "pred_option target_ok pnt"
  shows "wlp keeps_target (select_by_hand io m d pnt t dv)"
  using assms unfolding select_by_hand_def Let_def
  by (auto intro!: kept keepsE [OF select_steps_kept(1)] keepsE [OF select_steps_kept(2)] keepsE [OF select_steps_kept(3)]
      wlp_mono [OF decoded_ok] simp: wlp_simps split: option.splits)

lemma select_ext_kept:
  "device_ok dv \<Longrightarrow> pred_option target_ok pnt \<Longrightarrow> wlp keeps_target (select_passive_target_ext io m d pnt t dv)"
  unfolding select_passive_target_ext_def by (simp add: select_by_hand_kept select_listed_kept)

lemma poll_round_kept:
  "device_ok dv \<Longrightarrow> pred_option target_ok pnt \<Longrightarrow> wlp keeps_target (poll_round io ms p pnt dv)"
proof (induction ms arbitrary: pnt dv)
  case (Cons m ms)
  show ?case
    using Cons.prems by (auto intro!: wlp_mono [OF select_ext_kept] Cons.IH simp: wlp_simps)
qed (simp add: wlp_simps)

lemma poll_forever_kept:
  assumes "poll_forever io ms p pnt dv = Some m" "device_ok dv" "pred_option target_ok pnt"
  shows "wlp keeps_target m"
proof -
  let ?P = "\<lambda>io' ms p pnt dv m. io' = io \<longrightarrow> device_ok dv \<longrightarrow> pred_option target_ok pnt \<longrightarrow> wlp keeps_target m"
  have "?P io ms p pnt dv m"
  proof (rule poll_forever.raw_induct [where P = ?P, OF _ assms(1)], intro impI, goal_cases)
    case (1 f io' ms p pnt dv m)
    show ?case
      using 1 poll_round_kept [OF 1(4,5), of ms p]
      by (auto simp: wlp_simps split: outcome.splits option.splits)
  qed
  then show ?thesis using assms(2,3) by simp
qed

lemma poll_forever_run:
  "device_ok dv \<Longrightarrow> pred_option target_ok pnt \<Longrightarrow> (\<And>x. keeps_target x \<Longrightarrow> P x) \<Longrightarrow>
     wlp (wlp P) (of_run (poll_forever io ms p pnt dv))"
  by (rule wlp_of_run) (rule wlp_mono [OF poll_forever_kept])

lemma poll_others_kept:
  assumes "device_ok dv" "pred_option target_ok pnt"
  shows "wlp keeps_target (poll_others io ms n p pnt dv)"
  using assms unfolding poll_others_def Let_def
  by (auto intro!: kept wlp_mono [OF poll_round_kept] poll_forever_run simp: wlp_simps)

lemma poll_target_kept:
  "device_ok dv \<Longrightarrow> target_ok pnt \<Longrightarrow> keeps (pn53x_initiator_poll_target io ms n p fresh pnt dv)"
  unfolding pn53x_initiator_poll_target_def poll_pn532_def
  by (auto intro!: keepsI keepsE [OF auto_poll_kept] wlp_mono [OF poll_others_kept] wlpI [where m = "poll_types _ _ _"]
      simp: wlp_simps split: option.splits)

lemma select_dep_kept:
  assumes "device_ok dv" "pred_option target_ok pnt"
  shows "wlp keeps_target (pn53x_initiator_select_dep_target io ndm rate ini pnt t dv)"
  using assms unfolding pn53x_initiator_select_dep_target_def Let_def
  by (auto intro!: wlp_mono [OF jump_for_dep_kept] device_ok_target simp: wlp_simps split: option.splits)

lemma deselect_kept: "device_ok dv \<Longrightarrow> keeps (pn53x_initiator_deselect_target io dv)"
  unfolding pn53x_initiator_deselect_target_def pn53x_InDeselect_def by (simp add: drop_target_kept)

lemma present_kept: "device_ok dv \<Longrightarrow> keeps (pn53x_initiator_target_is_present io nt dv)"
  unfolding pn53x_initiator_target_is_present_def by (intro keepsI) (auto intro!: kept simp: wlp_simps)

text \<open>As target.\<close>

lemma tg_init_kept: "device_ok dv \<Longrightarrow> keeps (pn53x_TgInitAsTarget io ptm mf tk fe id3 gb n t dv)"
  unfolding pn53x_TgInitAsTarget_def Let_def
  by (intro keepsI) (auto intro!: kept wlpI [where m = "init_as_target_command _ _ _ _ _ _ _"] simp: wlp_simps)

lemma prepare_target_kept: "device_ok dv \<Longrightarrow> keeps (prepare_target io t dv)"
  unfolding prepare_target_def Let_def by (cases "nmt (nm t)"; rule keepsI) (auto intro!: kept simp: wlp_simps)

lemma activated_ok: "target_ok t \<Longrightarrow> target_ok (activated t md)"
  by (simp add: activated_def target_ok_def target_info_ok_def Let_def)

lemma wait_activation_kept:
  assumes "wait_activation f g ptm t dv = Some m" "device_ok dv" "target_ok t"
    and "\<And>dv. device_ok dv \<Longrightarrow> keeps (f dv)" "\<And>dv. device_ok dv \<Longrightarrow> keeps (g dv)"
  shows "wlp keeps_emulated m"
proof -
  let ?P = "\<lambda>f' g' ptm t dv m. f' = f \<longrightarrow> g' = g \<longrightarrow> device_ok dv \<longrightarrow> target_ok t \<longrightarrow> wlp keeps_emulated m"
  have "?P f g ptm t dv m"
  proof (rule wait_activation.raw_induct [where P = ?P, OF _ assms(1)], intro impI, goal_cases)
    case (1 h f' g' ptm t dv m)
    show ?case
    proof (cases "f dv")
      case (Ret x)
      obtain res md rx dv' where x: "x = ((res, md, rx), dv')" by (cases x) auto
      have ok: "device_ok dv'" using assms(4) [OF 1(5)] Ret x by (simp add: keeps_def wlp_simps)
      then have "wlp keeps_emulated (and_then (g dv') (\<lambda>(r, dv). Ret ((r, t, []), dv)))"
        using 1(6) by (auto intro!: keepsE [OF assms(5)] simp: wlp_simps)
      then show ?thesis using 1 Ret x ok by (auto simp: wlp_simps activated_ok device_ok_target split: if_splits)
    qed (use 1 in \<open>auto simp: wlp_simps\<close>)
  qed
  then show ?thesis using assms(2,3) by simp
qed

lemma wait_activation_run:
  "(\<And>dv. device_ok dv \<Longrightarrow> keeps (idle dv)) \<Longrightarrow> device_ok dv \<Longrightarrow> target_ok t \<Longrightarrow> (\<And>x. keeps_emulated x \<Longrightarrow> P x) \<Longrightarrow>
     wlp (wlp P) (of_run (wait_activation (pn53x_TgInitAsTarget io ptm mf tk fe id3 gb n to) idle ptm t dv))"
  by (rule wlp_of_run) (rule wlp_mono [OF wait_activation_kept [OF _ _ _ tg_init_kept]])

lemma target_init_over_kept:
  assumes "\<And>dv. device_ok dv \<Longrightarrow> keeps (idle dv)" "device_ok dv" "target_ok t"
  shows "wlp keeps_emulated (pn53x_target_init_over idle io t n to dv)"
  using assms(2,3) unfolding pn53x_target_init_over_def Let_def
  by (auto intro!: kept keepsE [OF prepare_target_kept] wait_activation_run [OF assms(1)] wlpI [where m = "target_parts _"] simp: wlp_simps)

lemma target_init_kept:
  "device_ok dv \<Longrightarrow> target_ok t \<Longrightarrow> wlp keeps_emulated (pn53x_target_init io t n to dv)"
  unfolding pn53x_target_init_def by (rule target_init_over_kept [OF idle_kept])

lemma target_exchange_kept:
  "device_ok dv \<Longrightarrow> keeps (pn53x_target_receive_bits io n dv)"
  "device_ok dv \<Longrightarrow> keeps (pn53x_target_receive_bytes io n t dv)"
  "device_ok dv \<Longrightarrow> keeps (pn53x_target_send_bits io tx bits px dv)"
  "device_ok dv \<Longrightarrow> keeps (pn53x_target_send_bytes io tx t dv)"
  unfolding pn53x_target_receive_bits_def pn53x_target_receive_bytes_def pn53x_target_send_bits_def pn53x_target_send_bytes_def Let_def
  by (rule keepsI; auto intro!: kept wlp_mono [OF bits_command_bits] wlpI [where m = "target_command _ _ _"]
      wlpI [where m = "received_data _ _ _ _"] simp: wlp_simps)+

end

end
