(* ===== verification/Arygon_Depth.thy ===== *)
theory Arygon_Depth
  imports Arygon Device_Types
begin

text \<open>
  The aborts of an ARYGON reader nest - each sends a command whose answer can be aborted again - but no deeper than there
  are events on the line: from there on the bound of the model does not show.
\<close>

section \<open>Drivers that agree as long as the line has not grown\<close>

definition within :: "nat \<Rightarrow> uart_port nfc_device \<Rightarrow> bool" where
  "within b dv \<longleftrightarrow> length (script (driver_data dv)) \<le> b"

definition same_run :: "nat \<Rightarrow> ('a \<times> uart_port nfc_device) outcome \<Rightarrow> ('a \<times> uart_port nfc_device) outcome \<Rightarrow> bool" where
  "same_run b m m' \<longleftrightarrow> m = m' \<and> wlp (\<lambda>(r, dv). within b dv) m"

lemma within_simps [simp]:
  "within b (set_chip f dv) = within b dv" "within b (dv\<lparr>last_error := e\<rparr>) = within b dv"
  "within b (sets_power_mode tx md dv) = within b dv" "within b (pn53x_current_target_free dv) = within b dv"
  "within b (on_port uart_flush_input dv) = within b dv"
  by (simp_all add: within_def sets_power_mode_def pn53x_current_target_free_def on_port_def uart_flush_input_def)

named_theorems same_intros "how runs that agree are put together"

lemma same_Ret [same_intros]: "within b dv \<Longrightarrow> same_run b (Ret (r, dv)) (Ret (r, dv))"
  by (simp add: same_run_def wlp_simps)

lemma same_Undefined [same_intros]: "same_run b Undefined Undefined"
  by (simp add: same_run_def wlp_simps)

lemma same_Blocks: "same_run b Blocks Blocks"
  by (simp add: same_run_def wlp_simps)

lemma same_and_then:
  "same_run b m m' \<Longrightarrow> (\<And>r dv. within b dv \<Longrightarrow> same_run c (k (r, dv)) (k' (r, dv))) \<Longrightarrow> same_run c (and_then m k) (and_then m' k')"
proof (cases m)
  case (Ret x)
  assume "same_run b m m'" and k: "\<And>r dv. within b dv \<Longrightarrow> same_run c (k (r, dv)) (k' (r, dv))"
  with Ret have "m' = Ret x" "within b (snd x)" by (auto simp: same_run_def wlp_simps split: prod.splits)
  then show ?thesis using k [of "snd x" "fst x"] Ret by simp
qed (auto simp: same_run_def wlp_simps)

lemma same_pure: "(\<And>x. same_run b (k x) (k' x)) \<Longrightarrow> same_run b (and_then m k) (and_then m k')"
  by (cases m) (simp_all add: same_Blocks same_Undefined same_run_def [of _ Aborts] wlp_simps)

lemma same_on_ok:
  "same_run b m m' \<Longrightarrow> (\<And>res dv. within b dv \<Longrightarrow> same_run b (k res dv) (k' res dv)) \<Longrightarrow> same_run b (on_ok err m k) (on_ok err m' k')"
  unfolding on_ok_def by (erule same_and_then) (simp add: same_Ret)

lemma same_on_rx:
  "same_run b m m' \<Longrightarrow> (\<And>res rx dv. within b dv \<Longrightarrow> same_run b (k res rx dv) (k' res rx dv)) \<Longrightarrow>
     same_run b (on_rx err m k) (on_rx err m' k')"
  unfolding on_rx_def by (erule same_and_then) (auto simp: same_Ret split: prod.splits)

lemma same_run_join: "same_run b m n \<Longrightarrow> same_run b m' n \<Longrightarrow> same_run b m m'"
  unfolding same_run_def by metis

locale same_drivers =
  fixes b :: nat and io io' :: "uart_port pn53x_io"
  assumes send: "within b dv \<Longrightarrow> same_run b (io_send io tx t dv) (io_send io' tx t dv)"
    and receive: "within b dv \<Longrightarrow> same_run b (io_receive io n t dv) (io_receive io' n t dv)"
begin

lemma exchange_same: "within b dv \<Longrightarrow> same_run b (transceive_now io tx n t dv) (transceive_now io' tx n t dv)"
  unfolding transceive_now_def Let_def
  by (auto intro!: same_intros same_on_ok [OF send] same_on_rx [OF receive] same_pure split: if_splits)

lemma writeback_same:
  assumes "\<And>tx n t dv. within b dv \<Longrightarrow> same_run b (tr tx n t dv) (tr' tx n t dv)" "within b dv"
  shows "same_run b (writeback_with tr dv) (writeback_with tr' dv)"
proof -
  have "same_run b (writeback_reads tr dv) (writeback_reads tr' dv)" if "within b dv" for dv
    unfolding writeback_reads_def Let_def using that by (auto intro!: same_intros same_on_rx [OF assms(1)] same_pure)
  moreover have "same_run b (writeback_writes tr dv) (writeback_writes tr' dv)" if "within b dv" for dv
    unfolding writeback_writes_def Let_def using that by (auto intro!: same_intros same_on_rx [OF assms(1)] split: prod.splits)
  ultimately show ?thesis using assms(2) unfolding writeback_with_def by (intro same_on_ok) simp_all
qed

lemma transceive_n_same: "within b dv \<Longrightarrow> same_run b (pn53x_transceive_n k io tx n t dv) (pn53x_transceive_n k io' tx n t dv)"
proof (induction k arbitrary: tx n t dv)
  case (Suc k)
  then show ?case by (auto intro!: exchange_same same_on_ok [OF writeback_same])
qed (simp add: same_Blocks)

lemma check_communication_same: "within b dv \<Longrightarrow> same_run b (pn53x_check_communication io dv) (pn53x_check_communication io' dv)"
  unfolding pn53x_check_communication_def Let_def pn53x_transceive_def
  by (auto intro!: same_intros same_on_rx [OF transceive_n_same])

end

section \<open>The line only gets shorter\<close>

lemma uart_wait_shrinks:
  "uart_wait ab t ev = Ret (r, bs, ev') \<Longrightarrow> length ev' \<le> length ev \<and> (r = Some NFC_EOPABORTED \<longrightarrow> length ev' < length ev)"
proof (induction ab t ev rule: uart_wait.induct)
qed (auto simp: nfc_errors split: if_splits)

lemma uart_select_shrinks:
  "uart_select ab t p = Ret (r, p') \<Longrightarrow>
     length (script p') \<le> length (script p) \<and> (r = Some NFC_EOPABORTED \<longrightarrow> length (script p') < length (script p))"
  by (auto simp: uart_select_def outcome_simps split: if_splits dest: uart_wait_shrinks)

lemma receive_loop_shrinks:
  "receive_loop ab t n got p = Ret ((res, bs), p') \<Longrightarrow>
     length (script p') \<le> length (script p) \<and> (res = NFC_EOPABORTED \<longrightarrow> length (script p') < length (script p))"
proof (induction n arbitrary: got p rule: less_induct)
  case (less n)
  from less.prems obtain r p1 where sel: "uart_select ab t p = Ret (r, p1)"
    by (subst (asm) receive_loop.simps) (auto simp: outcome_simps)
  note shrinks = uart_select_shrinks [OF sel]
  define k where "k = min (length (avail p1)) n"
  define p2 where "p2 = p1\<lparr>avail := drop k (avail p1)\<rparr>"
  have step: "receive_loop ab t n got p =
      (case r of Some e \<Rightarrow> Ret ((e, got), p1)
       | None \<Rightarrow> if k = 0 then Ret ((NFC_EIO, got), p1)
                 else if n > k then receive_loop ab t (n - k) (got @ take k (avail p1)) p2
                 else Ret ((NFC_SUCCESS, got @ take k (avail p1)), p2))"
    unfolding receive_loop.simps [of ab t n got p] sel by (simp only: and_then.simps prod.case Let_def k_def p2_def)
  show ?case
  proof (cases "r = None \<and> k \<noteq> 0 \<and> n > k")
    case True
    have "length (script p') \<le> length (script p2) \<and> (res = NFC_EOPABORTED \<longrightarrow> length (script p') < length (script p2))"
      using less.IH [of "n - k" "got @ take k (avail p1)" p2] True less.prems step by simp
    then show ?thesis using shrinks by (auto simp: p2_def)
  next
    case False
    then show ?thesis using less.prems step shrinks by (auto simp: p2_def nfc_errors split: option.splits if_splits)
  qed
qed

lemma port_receive_shrinks:
  assumes "within b dv"
  shows "same_run b (port_receive n ab t dv) (port_receive n ab t dv)"
    and "port_receive n ab t dv = Ret ((NFC_EOPABORTED, bs), dv') \<Longrightarrow> \<exists>c < b. within c dv'"
proof -
  show "same_run b (port_receive n ab t dv) (port_receive n ab t dv)"
    using assms by (auto simp: same_run_def wlp_def port_receive_def uart_receive_def outcome_simps within_def dest!: receive_loop_shrinks)
  show "\<exists>c < b. within c dv'" if "port_receive n ab t dv = Ret ((NFC_EOPABORTED, bs), dv')"
    using assms that
    by (auto simp: port_receive_def uart_receive_def outcome_simps within_def dest!: receive_loop_shrinks
        intro!: exI [of _ "length (script (driver_data dv'))"])
qed

lemma port_send_shrinks: "within b dv \<Longrightarrow> same_run b (port_send tx dv) (port_send tx dv)"
  by (auto simp: same_run_def wlp_def port_send_def uart_send_def within_def Let_def split: if_splits)

lemma tama_send_shrinks: "within b dv \<Longrightarrow> same_run b (arygon_tama_send tx t dv) (arygon_tama_send tx t dv)"
proof -
  have fail: "within b dv \<Longrightarrow> same_run b (fail_with e dv) (fail_with e dv)" for e dv by (simp add: fail_with_def same_Ret)
  have ack: "within b dv \<Longrightarrow> same_run b (pn53x_check_ack_frame rx dv) (pn53x_check_ack_frame rx dv)" for rx dv
    by (simp add: pn53x_check_ack_frame_def fail same_Ret)
  assume "within b dv"
  then show ?thesis
    unfolding arygon_tama_send_def Let_def
    by (auto intro!: fail same_intros same_and_then [OF port_send_shrinks] same_and_then [OF port_receive_shrinks(1)] same_and_then [OF ack]
        split: prod.splits)
qed

lemma tama_read_shrinks:
  "within b dv \<Longrightarrow> (\<And>bs dv. within b dv \<Longrightarrow> same_run b (k bs dv) (k bs dv)) \<Longrightarrow> same_run b (tama_read n t k dv) (tama_read n t k dv)"
  unfolding tama_read_def by (rule same_and_then [OF port_receive_shrinks(1)]) (auto simp: tama_error_def same_Ret split: prod.splits)

lemma tama_body_shrinks: "within b dv \<Longrightarrow> same_run b (tama_body len n t dv) (tama_body len n t dv)"
proof -
  have err: "within b dv \<Longrightarrow> same_run b (tama_error e dv) (tama_error e dv)" for e dv by (simp add: tama_error_def same_Ret)
  have data: "same_run b ((if len \<noteq> 0 then tama_read (nat len) t else (\<lambda>k. k [])) k dv)
      ((if len \<noteq> 0 then tama_read (nat len) t else (\<lambda>k. k [])) k dv)"
    if "within b dv" "\<And>bs dv. within b dv \<Longrightarrow> same_run b (k bs dv) (k bs dv)" for k dv
    using that by (simp add: tama_read_shrinks)
  show "within b dv \<Longrightarrow> ?thesis"
    unfolding tama_body_def Let_def by (auto intro!: err same_Ret tama_read_shrinks data)
qed

section \<open>Enough depth\<close>

lemma depth_enough: "same_drivers b (arygon_io_n (Suc b + j)) (arygon_io_n (Suc b))"
proof (induction b arbitrary: j rule: less_induct)
  case (less b)
  have err: "within b dv \<Longrightarrow> same_run b (tama_error e dv) (tama_error e dv)" for e dv by (simp add: tama_error_def same_Ret)
  have aborted: "same_run b
      (and_then (arygon_abort (arygon_io_n (b + j)) dv) (\<lambda>(_, dv). tama_error NFC_EOPABORTED dv))
      (and_then (arygon_abort (arygon_io_n b) dv) (\<lambda>(_, dv). tama_error NFC_EOPABORTED dv))"
    if "c < b" "within c dv" for c dv
  proof -
    note lt = that(1)
    obtain i where b: "b = Suc c + i" using less_imp_Suc_add [OF lt] by auto
    then have i: "b + j = Suc c + (i + j)" by simp
    have c: "within c dv \<Longrightarrow> within b dv" for dv using that(1) by (simp add: within_def)
    have "same_run c (arygon_abort (arygon_io_n (Suc c + k)) dv) (arygon_abort (arygon_io_n (Suc c)) dv)" for k
      unfolding arygon_abort_def
      by (rule same_and_then [OF port_send_shrinks [OF that(2)]])
        (simp only: prod.case same_drivers.check_communication_same [OF less.IH [OF lt]])
    from same_run_join [OF this [of "i + j"] this [of i]]
    have "same_run c (arygon_abort (arygon_io_n (b + j)) dv) (arygon_abort (arygon_io_n b) dv)"
      unfolding i unfolding b .
    then show ?thesis by (rule same_and_then) (auto intro: err c)
  qed
  show ?case
  proof
    fix dv :: "uart_port nfc_device" and tx t n
    assume dv: "within b dv"
    then show "same_run b (io_send (arygon_io_n (Suc b + j)) tx t dv) (io_send (arygon_io_n (Suc b)) tx t dv)"
      by (simp add: tama_send_shrinks)
    have rest: "same_run b (if res = NFC_EOPABORTED then A else F res bs dv) (if res = NFC_EOPABORTED then B else F res bs dv)"
      if "same_run b A B" "same_run b (F res bs dv) (F res bs dv)" for A B F res bs and dv :: "uart_port nfc_device" using that by simp
    show "same_run b (io_receive (arygon_io_n (Suc b + j)) n t dv) (io_receive (arygon_io_n (Suc b)) n t dv)"
    proof (cases "port_receive 5 True t dv")
      case (Ret x)
      obtain res bs dv1 where x: "x = ((res, bs), dv1)" by (cases x) auto
      have dv1: "within b dv1" using port_receive_shrinks(1) [OF dv, of 5 True t] Ret x by (simp add: same_run_def wlp_simps)
      show ?thesis
      proof (cases "res = NFC_EOPABORTED")
        case True
        then obtain c where "c < b" "within c dv1" using port_receive_shrinks(2) [OF dv] Ret x by blast
        then show ?thesis using aborted [of c "dv1\<lparr>last_error := res\<rparr>"] Ret x True
          by (simp add: arygon_tama_receive_with_def)
      next
        case False
        have ab: "same_run b Aborts Aborts" by (simp add: same_run_def wlp_simps)
        from dv1 False show ?thesis
          by (auto simp: arygon_tama_receive_with_def Ret x Let_def
              intro!: err ab tama_body_shrinks same_and_then [OF port_receive_shrinks(1)] split: prod.splits)
      qed
    qed (simp_all add: arygon_tama_receive_with_def same_run_def wlp_simps)
  qed
qed

interpretation arygon_same: same_drivers b "arygon_io_n (Suc b + j)" "arygon_io_n (Suc b)" for b j
  by (rule depth_enough)

text \<open>Any number of levels above the number of events gives what the model of the driver gives.\<close>

lemma arygon_receive_any_depth:
  assumes "length (script (driver_data dv)) < k"
  shows "io_receive (arygon_io_n k) n t dv = arygon_tama_receive n t dv"
proof -
  let ?b = "length (script (driver_data dv))"
  obtain j where "k = Suc ?b + j" using less_imp_Suc_add [OF assms] by auto
  moreover have "within ?b dv" by (simp add: within_def)
  ultimately show ?thesis
    using arygon_same.receive [of ?b dv j] by (simp add: same_run_def arygon_tama_receive_def del: arygon_io_n.simps)
qed

end
