(* ===== verification/Uart_Waking.thy ===== *)
theory Uart_Waking
  imports Nfc_Api
begin

text \<open>
  What the driver does on a line that is known event by event: a sleeping PN532 wakes up, is configured, passes the
  test of its communication and is opened, though it says nothing more.
\<close>

section \<open>A port whose next event is known\<close>

lemma receive_waiting:
  assumes "0 < n" "n \<le> length av" "0 \<le> t"
  shows "receive_loop ab t n got \<lparr>avail = av, script = ev, writes_fail = w, sent = out\<rparr> =
    Ret ((NFC_SUCCESS, got @ take n av), \<lparr>avail = drop n av, script = ev, writes_fail = w, sent = out\<rparr>)"
  using assms by (subst receive_loop.simps) (auto simp: uart_select_def Let_def min_def)

lemma receive_arriving:
  assumes "0 < n" "n \<le> length bs" "0 \<le> t"
  shows "receive_loop ab t n got \<lparr>avail = [], script = Arrived bs # ev, writes_fail = w, sent = out\<rparr> =
    Ret ((NFC_SUCCESS, got @ take n bs), \<lparr>avail = drop n bs, script = ev, writes_fail = w, sent = out\<rparr>)"
  using assms by (subst receive_loop.simps) (auto simp: uart_select_def Let_def min_def)

lemma receive_silence:
  assumes "0 < t"
  shows "receive_loop ab t n got \<lparr>avail = [], script = [], writes_fail = w, sent = out\<rparr> =
    Ret ((NFC_ETIMEOUT, got), \<lparr>avail = [], script = [], writes_fail = w, sent = out\<rparr>)"
  using assms by (subst receive_loop.simps) (auto simp: uart_select_def Let_def min_def)

lemmas port_runs = port_send_def uart_send_def on_port_def uart_flush_input_def port_receive_def uart_receive_def
  receive_waiting receive_arriving receive_silence

section \<open>One exchange\<close>

lemma send_acknowledged:
  assumes "power_mode (chip_data dv) = NORMAL" "0 < t" "pn53x_build_frame tx = (r, f)" "0 \<le> r"
    and "driver_data dv = \<lparr>avail = av, script = Arrived pn53x_ack_frame # ev, writes_fail = [], sent = out\<rparr>"
  shows "pn532_uart_send_with io tx t dv =
    Ret (0, dv\<lparr>driver_data := \<lparr>avail = [], script = ev, writes_fail = [], sent = out @ [[0x00, 0x00, 0xff] @ f]\<rparr>\<rparr>)"
  using assms
  by (simp add: pn532_uart_send_with_def wake_for_sending_def on_ok_def port_runs pn53x_check_ack_frame_def Let_def nfc_errors
      pn53x_ack_frame_def)

definition sam_answer :: bytes where
  "sam_answer = [0x00, 0x00, 0xff, 0x02, 0xfe, 0xd5, 0x15, 0x16, 0x00]"

definition test_answer :: bytes where
  "test_answer = [0x00, 0x00, 0xff, 0x09, 0xf7, 0xd5, 0x01, 0x00, 0x6c, 0x69, 0x62, 0x6e, 0x66, 0x63, 0xbc, 0x00]"

definition tested :: bytes where
  "tested = [0x00, 0x6c, 0x69, 0x62, 0x6e, 0x66, 0x63]"

lemmas receive_runs = pn532_uart_receive_def receive_or_fail_def receive_body_def port_runs Let_def nfc_errors data_checksum_def

lemma sam_answer_received:
  assumes "last_command (chip_data dv) = SAMConfiguration" "0 < t" "0 < n"
    and "driver_data dv = \<lparr>avail = [], script = Arrived sam_answer # ev, writes_fail = [], sent = out\<rparr>"
  shows "pn532_uart_receive n t dv =
    Ret ((0, []), dv\<lparr>last_error := 0, driver_data := \<lparr>avail = [], script = ev, writes_fail = [], sent = out\<rparr>\<rparr>)"
  using assms by (simp add: receive_runs sam_answer_def cong: if_cong)

lemma test_answer_received:
  assumes "last_command (chip_data dv) = Diagnose" "0 < t" "7 \<le> n"
    and "driver_data dv = \<lparr>avail = [], script = Arrived test_answer # ev, writes_fail = [], sent = out\<rparr>"
  shows "pn532_uart_receive n t dv =
    Ret ((7, tested), dv\<lparr>last_error := 0, driver_data := \<lparr>avail = [], script = ev, writes_fail = [], sent = out\<rparr>\<rparr>)"
  using assms by (simp add: receive_runs test_answer_def tested_def cong: if_cong)

lemma io_calls:
  "io_send (pn532_uart_io_n (Suc n)) = pn532_uart_send_with (pn532_uart_io_n n)"
  "io_receive (pn532_uart_io_n n) = pn532_uart_receive"
  by (simp, cases n) simp_all

lemma nested_once: "pn53x_transceive = pn53x_transceive_n (Suc 1)"
  by (simp add: pn53x_transceive_def numeral_2_eq_2)

lemma plain_exchange:
  assumes "\<not> wb_trigged (chip_data dv)" "0 < t" "c \<notin> set status_commands" "c \<notin> {0x8c, 0x44, 0x52, 0x06, 0x08}"
    "c = 0 \<Longrightarrow> cs ! 0 \<noteq> 6" "cs \<noteq> []" "io_send io (c # cs) t dv = Ret (0, dv1)"
    and "io_receive io (if n = 0 then PN53x_EXTENDED_FRAME__DATA_MAX_LEN else n) t (set_chip (\<lambda>x. x\<lparr>last_command := c\<rparr>) dv1) =
      Ret ((k, rx), dv2)" "0 \<le> k"
  shows "pn53x_transceive io (c # cs) n t dv = Ret ((k, rx), (set_chip (\<lambda>c. c\<lparr>last_status_byte := 0\<rparr>) dv2)\<lparr>last_error := 0\<rparr>)"
  using assms
  by (simp add: nested_once transceive_now_def on_ok_def on_rx_def sets_power_mode_def status_of_answer_def Let_def
      result_of_status_def byte_at_def)

section \<open>The configuration and the wakeup\<close>

declare pn532_uart_io_n.simps [simp del]

lemma configured:
  assumes "power_mode (chip_data dv) = NORMAL" "ch_type (chip_data dv) = PN532" "\<not> wb_trigged (chip_data dv)"
    and port: "driver_data dv =
      \<lparr>avail = av, script = Arrived pn53x_ack_frame # Arrived sam_answer # ev, writes_fail = [], sent = out\<rparr>"
  shows "\<exists>dv' out'. pn532_SAMConfiguration (pn532_uart_io_n (Suc k)) PSM_NORMAL 1000 dv = Ret (0, dv') \<and>
    driver_data dv' = \<lparr>avail = [], script = ev, writes_fail = [], sent = out'\<rparr> \<and>
    chip_data dv' = (chip_data dv)\<lparr>sam_mode := PSM_NORMAL, last_command := SAMConfiguration, last_status_byte := 0\<rparr>"
proof -
  define dv0 where "dv0 = set_chip (\<lambda>c. c\<lparr>sam_mode := PSM_NORMAL\<rparr>) dv"
  have dv0: "chip_data dv0 = (chip_data dv)\<lparr>sam_mode := PSM_NORMAL\<rparr>" "driver_data dv0 = driver_data dv"
    by (simp_all add: dv0_def set_chip_def)
  obtain r f where f: "pn53x_build_frame [SAMConfiguration, 1] = (r, f)" "0 \<le> r" by (simp add: pn53x_build_frame_def Let_def nfc_errors)
  define port where "port = \<lparr>avail = [], script = ev, writes_fail = [], sent = out @ [[0x00, 0x00, 0xff] @ f]\<rparr>"
  have "\<exists>dv1. pn532_uart_send_with (pn532_uart_io_n k) [SAMConfiguration, 1] 1000 dv0 = Ret (0, dv1) \<and> chip_data dv1 = chip_data dv0 \<and>
      driver_data dv1 = port\<lparr>script := Arrived sam_answer # ev\<rparr>"
    using send_acknowledged [of dv0 1000, OF _ _ f assms(4) [folded dv0(2)]] assms(1) dv0 by (simp add: port_def)
  then obtain dv1 where dv1: "io_send (pn532_uart_io_n (Suc k)) [SAMConfiguration, 1] 1000 dv0 = Ret (0, dv1)"
      "chip_data dv1 = chip_data dv0" "driver_data dv1 = port\<lparr>script := Arrived sam_answer # ev\<rparr>"
    by (auto simp only: io_calls)
  define dv2 where "dv2 = set_chip (\<lambda>x. x\<lparr>last_command := SAMConfiguration\<rparr>) dv1"
  have "pn532_uart_receive (if (0::nat) = 0 then PN53x_EXTENDED_FRAME__DATA_MAX_LEN else 0) 1000 dv2 =
      Ret ((0, []), dv2\<lparr>last_error := 0, driver_data := port\<rparr>)"
    using sam_answer_received [of dv2 1000 PN53x_EXTENDED_FRAME__DATA_MAX_LEN ev] dv1 by (simp add: dv2_def set_chip_def port_def)
  from plain_exchange [OF _ _ _ _ _ _ dv1(1) this [folded io_calls(2) [of "Suc k"], unfolded dv2_def]] assms
  have "pn53x_transceive (pn532_uart_io_n (Suc k)) [SAMConfiguration, 1] 0 1000 dv0 =
      Ret ((0, []), set_chip (\<lambda>c. c\<lparr>last_status_byte := 0\<rparr>) (dv2\<lparr>last_error := 0, driver_data := port\<rparr>)\<lparr>last_error := 0\<rparr>)"
    by (simp add: dv0 status_commands_def dv2_def)
  moreover have "pn532_SAMConfiguration io PSM_NORMAL 1000 dv = rx_dropped (pn53x_transceive io [SAMConfiguration, 1] 0 1000 dv0)" for io
    using assms(2) by (simp add: pn532_SAMConfiguration_def command_def Let_def flip: dv0_def)
  ultimately show ?thesis
    using dv1(2) by (simp add: rx_dropped_def dv0(1) port_def dv2_def set_chip_def)
qed

lemma woken:
  assumes "power_mode (chip_data dv) = LOWVBAT" "ch_type (chip_data dv) = PN532" "\<not> wb_trigged (chip_data dv)"
    and "driver_data dv = \<lparr>avail = av, script = Arrived pn53x_ack_frame # Arrived sam_answer # Arrived pn53x_ack_frame # ev,
      writes_fail = [], sent = out\<rparr>"
    and "0 < t" "pn53x_build_frame tx = (r, f)" "0 \<le> r"
  shows "\<exists>dv' out'. pn532_uart_send_with (pn532_uart_io_n (Suc k)) tx t dv = Ret (0, dv') \<and>
    driver_data dv' = \<lparr>avail = [], script = ev, writes_fail = [], sent = out'\<rparr> \<and>
    chip_data dv' = (chip_data dv)\<lparr>power_mode := NORMAL, sam_mode := PSM_NORMAL, last_command := SAMConfiguration,
      last_status_byte := 0\<rparr>"
proof -
  define dv1 where "dv1 = dv\<lparr>driver_data := \<lparr>avail = [], script = script (driver_data dv), writes_fail = [],
      sent = out @ [[0x55, 0x55, 0x00, 0x00, 0x00]]\<rparr>, chip_data := (chip_data dv)\<lparr>power_mode := NORMAL\<rparr>\<rparr>"
  obtain dv' out' where dv': "pn532_SAMConfiguration (pn532_uart_io_n (Suc k)) PSM_NORMAL 1000 dv1 = Ret (0, dv')"
      "driver_data dv' = \<lparr>avail = [], script = Arrived pn53x_ack_frame # ev, writes_fail = [], sent = out'\<rparr>"
      "chip_data dv' = (chip_data dv1)\<lparr>sam_mode := PSM_NORMAL, last_command := SAMConfiguration, last_status_byte := 0\<rparr>"
    using configured [of dv1 "[]" "Arrived pn53x_ack_frame # ev" _ k] assms by (auto simp: dv1_def)
  have "pn532_uart_wakeup (on_port uart_flush_input dv) = Ret (0, dv1)"
    using assms by (simp add: pn532_uart_wakeup_def set_chip_def port_runs dv1_def nfc_errors)
  then have "wake_for_sending (pn532_uart_io_n (Suc k)) (on_port uart_flush_input dv) = Ret (0, dv')"
    using assms(1) dv'(1) by (simp add: wake_for_sending_def on_ok_def nfc_errors on_port_def)
  moreover have "wake_for_sending (pn532_uart_io_n (Suc k)) (on_port uart_flush_input dv') = Ret (0, dv')"
  proof -
    have "on_port uart_flush_input dv' = dv'" using dv'(2) by (cases dv') (simp add: on_port_def uart_flush_input_def)
    then show ?thesis using dv'(3) by (simp add: wake_for_sending_def nfc_errors dv1_def)
  qed
  ultimately have "pn532_uart_send_with (pn532_uart_io_n (Suc k)) tx t dv = pn532_uart_send_with (pn532_uart_io_n (Suc k)) tx t dv'"
    by (simp only: pn532_uart_send_with_def)
  then show ?thesis using send_acknowledged [OF _ assms(5,6,7), of dv' "[]" ev out'] dv' by (simp add: dv1_def)
qed

section \<open>Opening\<close>

text \<open>Something is left on the line from before; then the chip acknowledges and answers two commands.\<close>

definition waking_port :: uart_port where
  "waking_port =
     \<lparr>avail = [0x55], script = [Arrived pn53x_ack_frame, Arrived sam_answer, Arrived pn53x_ack_frame, Arrived test_answer],
      writes_fail = [], sent = []\<rparr>"

lemma communication_checked:
  assumes "power_mode (chip_data dv) = LOWVBAT" "ch_type (chip_data dv) = PN532" "\<not> wb_trigged (chip_data dv)"
    and "driver_data dv = waking_port\<lparr>avail := []\<rparr>"
  shows "\<exists>dv' out. pn53x_check_communication pn532_uart_io dv = Ret (0, dv') \<and> power_mode (chip_data dv') = NORMAL \<and>
    \<not> wb_trigged (chip_data dv') \<and> timeout_command (chip_data dv') = timeout_command (chip_data dv) \<and>
    driver_data dv' = \<lparr>avail = [], script = [], writes_fail = [], sent = out\<rparr>"
proof -
  let ?tx = "Diagnose # tested" and ?io = "pn532_uart_io_n (Suc (Suc 0))"
  have seven: "Suc (Suc (Suc (Suc (Suc (Suc (Suc 0)))))) = 7" by simp
  obtain r f where f: "pn53x_build_frame ?tx = (r, f)" "0 \<le> r" by (simp add: pn53x_build_frame_def Let_def nfc_errors tested_def)
  obtain dv' out' where dv': "pn532_uart_send_with (pn532_uart_io_n (Suc 0)) ?tx 500 dv = Ret (0, dv')"
      "driver_data dv' = \<lparr>avail = [], script = [Arrived test_answer], writes_fail = [], sent = out'\<rparr>"
      "chip_data dv' = (chip_data dv)\<lparr>power_mode := NORMAL, sam_mode := PSM_NORMAL, last_command := SAMConfiguration,
        last_status_byte := 0\<rparr>"
    using woken [of dv "[]" "[Arrived test_answer]" "[]" 500 ?tx r f 0] f assms by (auto simp: waking_port_def)
  define dv2 where "dv2 = set_chip (\<lambda>x. x\<lparr>last_command := Diagnose\<rparr>) dv'"
  define port where "port = \<lparr>avail = [], script = [], writes_fail = [], sent = out'\<rparr>"
  define dv3 where "dv3 = set_chip (\<lambda>c. c\<lparr>last_status_byte := 0\<rparr>) (dv2\<lparr>last_error := 0, driver_data := port\<rparr>)\<lparr>last_error := 0\<rparr>"
  have "pn532_uart_receive (if (7::nat) = 0 then PN53x_EXTENDED_FRAME__DATA_MAX_LEN else 7) 500 dv2 =
      Ret ((7, tested), dv2\<lparr>last_error := 0, driver_data := port\<rparr>)"
    using test_answer_received [of dv2 500 7 "[]"] dv' by (simp add: dv2_def set_chip_def port_def)
  from plain_exchange [of dv 500 Diagnose tested ?io dv' 7,
      OF _ _ _ _ _ _ _ this [folded io_calls(2) [of "Suc (Suc 0)"], unfolded dv2_def]] assms dv'(1)
  have "pn53x_transceive ?io ?tx 7 500 dv = Ret ((7, tested), dv3)"
    by (simp add: status_commands_def dv2_def dv3_def io_calls tested_def)
  then have "pn53x_check_communication ?io dv = Ret (0, dv3)"
    by (simp add: pn53x_check_communication_def bytes_of_string_def of_char_def Let_def on_rx_def nfc_errors tested_def seven)
  then show ?thesis
    using assms dv' unfolding pn532_uart_io_def numeral_2_eq_2 by (simp add: dv2_def dv3_def set_chip_def port_def)
qed

lemma init_in_silence:
  assumes "power_mode (chip_data dv) = NORMAL" "\<not> wb_trigged (chip_data dv)" "0 < timeout_command (chip_data dv)"
    and "driver_data dv = \<lparr>avail = [], script = [], writes_fail = [], sent = out\<rparr>"
  shows "\<exists>dv'. pn53x_init pn532_uart_io dv = Ret (NFC_ETIMEOUT, dv')"
proof -
  have "\<exists>dv'. pn532_uart_send_with (pn532_uart_io_n (Suc 0)) [GetFirmwareVersion] (timeout_command (chip_data dv)) dv =
      Ret (NFC_ETIMEOUT, dv')"
    using assms
    by (simp add: pn532_uart_send_with_def wake_for_sending_def on_ok_def port_runs fail_with_def Let_def nfc_errors pn53x_build_frame_def)
  then obtain dv' where
    "io_send pn532_uart_io [GetFirmwareVersion] (timeout_command (chip_data dv)) dv = Ret (NFC_ETIMEOUT, dv')"
    by (auto simp only: pn532_uart_io_def numeral_2_eq_2 io_calls)
  then show ?thesis
    using assms(2)
    by (simp add: pn53x_init_def pn53x_decode_firmware_version_def nested_once transceive_now_def Let_def on_ok_def on_rx_def nfc_errors)
qed

text \<open>The device is handed out although its initialization has failed.\<close>

lemma waking_port_opens: "\<exists>dv. pn532_uart_open blank_chip (blank_device waking_port) waking_port = Ret (Some dv)"
proof -
  define dv where "dv = set_chip (\<lambda>c. c\<lparr>ch_type := PN532, power_mode := LOWVBAT, timer_correction := 48\<rparr>) (pn53x_data_new blank_chip
    ((nfc_device_new (blank_device waking_port))\<lparr>driver_data := uart_flush_input waking_port\<rparr>))"
  have dv: "power_mode (chip_data dv) = LOWVBAT" "ch_type (chip_data dv) = PN532" "\<not> wb_trigged (chip_data dv)"
      "driver_data dv = waking_port\<lparr>avail := []\<rparr>" "timeout_command (chip_data dv) = 350"
    by (simp_all add: dv_def set_chip_def pn53x_data_new_def nfc_device_new_def uart_flush_input_def)
  from communication_checked [OF dv(1-4)] obtain dv' out where dv': "pn53x_check_communication pn532_uart_io dv = Ret (0, dv')"
      "power_mode (chip_data dv') = NORMAL" "\<not> wb_trigged (chip_data dv')" "timeout_command (chip_data dv') = 350"
      "driver_data dv' = \<lparr>avail = [], script = [], writes_fail = [], sent = out\<rparr>"
    using dv(5) by auto
  from init_in_silence [OF dv'(2,3) _ dv'(5)] dv'(4) obtain dv'' where "pn53x_init pn532_uart_io dv' = Ret (NFC_ETIMEOUT, dv'')"
    by auto
  then show ?thesis using dv'(1) by (simp add: pn532_uart_open_def Let_def flip: dv_def)
qed

end
