(* ===== verification/Nfc_Session.thy ===== *)
theory Nfc_Session
  imports Device_Types Uart_Waking
begin

text \<open>
  Programs over libnfc: any sequence of calls of its interface on an open device.
\<close>

section \<open>Calls and sessions\<close>

datatype api_call =
    Set_bool nfc_property bool
  | Set_int nfc_property int
  | Initiator_init
  | Initiator_init_secure_element
  | Select_passive nfc_modulation bytes "nfc_target option"
  | List_passive nfc_modulation nat nfc_target
  | Poll "nfc_modulation list" byte byte nfc_target
  | Select_dep nfc_dep_mode nfc_baud_rate "nfc_dep_info option" "nfc_target option" int
  | Poll_dep nfc_dep_mode nfc_baud_rate "nfc_dep_info option" "nfc_target option" int
  | Deselect
  | Transceive_bytes bytes "nat option" int
  | Transceive_bits bytes nat bytes bool
  | Transceive_bytes_timed bytes "32 word"
  | Transceive_bits_timed bytes nat "32 word"
  | Is_present nfc_target
  | Target_init nfc_target nat int
  | Send_bytes bytes int
  | Receive_bytes nat int
  | Send_bits bytes nat bytes
  | Receive_bits nat
  | Abort
  | Idle

text \<open>The device after a call; what the call returns is dropped.\<close>

definition device_after :: "('a \<times> 's nfc_device) outcome \<Rightarrow> 's nfc_device outcome" where
  "device_after m = and_then m (\<lambda>(r, dv). Ret dv)"

fun api_run :: "'s nfc_driver \<Rightarrow> api_call \<Rightarrow> 's nfc_device \<Rightarrow> 's nfc_device outcome" where
  "api_run drv (Set_bool p b) dv = device_after (nfc_set_property_bool drv p b dv)"
| "api_run drv (Set_int p v) dv = device_after (nfc_set_property_int drv p v dv)"
| "api_run drv Initiator_init dv = device_after (nfc_initiator_init drv dv)"
| "api_run drv Initiator_init_secure_element dv = device_after (nfc_initiator_init_secure_element drv dv)"
| "api_run drv (Select_passive m d pnt) dv = device_after (nfc_initiator_select_passive_target drv m d pnt dv)"
| "api_run drv (List_passive m n fresh) dv = device_after (nfc_initiator_list_passive_targets drv m n fresh dv)"
| "api_run drv (Poll ms n p pnt) dv = device_after (nfc_initiator_poll_target drv ms n p pnt dv)"
| "api_run drv (Select_dep ndm rate ini pnt t) dv = device_after (nfc_initiator_select_dep_target drv ndm rate ini pnt t dv)"
| "api_run drv (Poll_dep ndm rate ini pnt t) dv = device_after (nfc_initiator_poll_dep_target drv ndm rate ini pnt t dv)"
| "api_run drv Deselect dv = device_after (nfc_initiator_deselect_target drv dv)"
| "api_run drv (Transceive_bytes tx room t) dv = device_after (nfc_initiator_transceive_bytes drv tx room t dv)"
| "api_run drv (Transceive_bits tx n px w) dv = device_after (nfc_initiator_transceive_bits drv tx n px w dv)"
| "api_run drv (Transceive_bytes_timed tx c) dv = device_after (nfc_initiator_transceive_bytes_timed drv tx c dv)"
| "api_run drv (Transceive_bits_timed tx n c) dv = device_after (nfc_initiator_transceive_bits_timed drv tx n c dv)"
| "api_run drv (Is_present nt) dv = device_after (nfc_initiator_target_is_present drv nt dv)"
| "api_run drv (Target_init t n to) dv = device_after (nfc_target_init drv t n to dv)"
| "api_run drv (Send_bytes tx t) dv = device_after (nfc_target_send_bytes drv tx t dv)"
| "api_run drv (Receive_bytes n t) dv = device_after (nfc_target_receive_bytes drv n t dv)"
| "api_run drv (Send_bits tx n px) dv = device_after (nfc_target_send_bits drv tx n px dv)"
| "api_run drv (Receive_bits n) dv = device_after (nfc_target_receive_bits drv n dv)"
| "api_run drv Abort dv = device_after (nfc_abort_command drv dv)"
| "api_run drv Idle dv = device_after (nfc_idle drv dv)"

fun api_session :: "'s nfc_driver \<Rightarrow> api_call list \<Rightarrow> 's nfc_device \<Rightarrow> 's nfc_device outcome" where
  "api_session drv [] dv = Ret dv"
| "api_session drv (c # cs) dv = and_then (api_run drv c dv) (api_session drv cs)"

text \<open>A program that opens a PN532 on a serial line and makes calls: the device at its end, if it could be opened.\<close>

definition uart_program ::
    "pn53x_data \<Rightarrow> uart_port nfc_device \<Rightarrow> uart_port \<Rightarrow> nfc_target \<times> nfc_target \<Rightarrow> api_call list \<Rightarrow> uart_port nfc_device option outcome" where
  "uart_program fresh_chip fresh_device port fresh cs =
     and_then (pn532_uart_open fresh_chip fresh_device port) (\<lambda>pnd.
       case pnd of
         None \<Rightarrow> Ret None
       | Some dv \<Rightarrow> and_then (api_session (pn532_uart_driver fresh) cs dv) (\<lambda>dv. Ret (Some dv)))"

section \<open>Calls keep the types\<close>

text \<open>The targets that are handed in are well-formed.\<close>

fun call_ok :: "api_call \<Rightarrow> bool" where
  "call_ok (Select_passive m d pnt) \<longleftrightarrow> pred_option target_ok pnt"
| "call_ok (List_passive m n fresh) \<longleftrightarrow> target_ok fresh"
| "call_ok (Poll ms n p pnt) \<longleftrightarrow> target_ok pnt"
| "call_ok (Select_dep ndm rate ini pnt t) \<longleftrightarrow> pred_option target_ok pnt"
| "call_ok (Poll_dep ndm rate ini pnt t) \<longleftrightarrow> pred_option target_ok pnt"
| "call_ok (Target_init t n to) \<longleftrightarrow> target_ok t"
| "call_ok c \<longleftrightarrow> True"

lemma device_afterI: "wlp (\<lambda>(r, dv). device_ok dv) m \<Longrightarrow> wlp device_ok (device_after m)"
  by (auto simp: device_after_def wlp_simps elim!: wlp_mono)

text \<open>A call keeps what the function in the table keeps.\<close>

lemma hal_wlp:
  assumes "pred_option (\<lambda>f. wlp P (g f (dv\<lparr>last_error := 0\<rparr>))) t" "P (none, dv\<lparr>last_error := NFC_EDEVNOTSUPP\<rparr>)"
  shows "wlp P (hal (map_option g t) none dv)"
  using assms by (cases t) (simp_all add: hal_def wlp_simps)

lemma hal_keeps:
  assumes "device_ok dv" "\<And>dv. device_ok dv \<Longrightarrow> pred_option (\<lambda>f. keeps (g f dv)) t"
  shows "keeps (hal (map_option g t) none dv)"
  using assms(1) assms(2) [of "dv\<lparr>last_error := 0\<rparr>"] unfolding keeps_def by (intro hal_wlp) simp_all

lemma hal_keeps_plain:
  "device_ok dv \<Longrightarrow> (\<And>dv. device_ok dv \<Longrightarrow> pred_option (\<lambda>f. keeps (f dv)) t) \<Longrightarrow> keeps (hal t none dv)"
  using hal_keeps [of dv "\<lambda>f. f" t none] by (simp add: option.map_ident)

text \<open>What the functions in the table of a driver promise.\<close>

locale keeping_table =
  fixes drv :: "'s nfc_driver"
  assumes plain: "t \<in> {initiator_init drv, initiator_init_secure_element drv, initiator_deselect_target drv, abort_command drv,
      device_idle drv} \<Longrightarrow> device_ok dv \<Longrightarrow> pred_option (\<lambda>f. keeps (f dv)) t"
    and select: "device_ok dv \<Longrightarrow> pred_option target_ok pnt \<Longrightarrow>
      pred_option (\<lambda>f. wlp keeps_target (f m d pnt dv)) (initiator_select_passive_target drv)"
    and poll: "device_ok dv \<Longrightarrow> target_ok tg \<Longrightarrow> pred_option (\<lambda>f. keeps (f ms n p tg dv)) (initiator_poll_target drv)"
    and dep: "device_ok dv \<Longrightarrow> pred_option target_ok pnt \<Longrightarrow>
      pred_option (\<lambda>f. wlp keeps_target (f ndm rate ini pnt to dv)) (initiator_select_dep_target drv)"
    and emulate: "device_ok dv \<Longrightarrow> target_ok tg \<Longrightarrow> pred_option (\<lambda>f. wlp keeps_emulated (f tg room to dv)) (target_init drv)"
    and present: "device_ok dv \<Longrightarrow> pred_option (\<lambda>f. keeps (f tg dv)) (initiator_target_is_present drv)"
    and bytes_exchange: "device_ok dv \<Longrightarrow> pred_option (\<lambda>f. keeps (f tx r to dv)) (initiator_transceive_bytes drv)"
    and bits_exchange: "device_ok dv \<Longrightarrow> pred_option (\<lambda>f. keeps (f tx k px w dv)) (initiator_transceive_bits drv)"
    and bytes_timed: "device_ok dv \<Longrightarrow> pred_option (\<lambda>f. keeps (f tx cyc dv)) (initiator_transceive_bytes_timed drv)"
    and bits_timed: "device_ok dv \<Longrightarrow> pred_option (\<lambda>f. keeps (f tx k cyc dv)) (initiator_transceive_bits_timed drv)"
    and send_bytes: "device_ok dv \<Longrightarrow> pred_option (\<lambda>f. keeps (f tx to dv)) (target_send_bytes drv)"
    and receive_bytes: "device_ok dv \<Longrightarrow> pred_option (\<lambda>f. keeps (f room to dv)) (target_receive_bytes drv)"
    and send_bits: "device_ok dv \<Longrightarrow> pred_option (\<lambda>f. keeps (f tx k px dv)) (target_send_bits drv)"
    and receive_bits: "device_ok dv \<Longrightarrow> pred_option (\<lambda>f. keeps (f room dv)) (target_receive_bits drv)"
    and set_bool: "device_ok dv \<Longrightarrow> pred_option (\<lambda>f. keeps (f np b dv)) (device_set_property_bool drv)"
    and set_int: "device_ok dv \<Longrightarrow> pred_option (\<lambda>f. keeps (f np v dv)) (device_set_property_int drv)"
begin

lemma set_bool_kept: "device_ok dv \<Longrightarrow> keeps (nfc_set_property_bool drv np b dv)"
  unfolding nfc_set_property_bool_def by (rule hal_keeps [OF _ set_bool])

lemma set_properties_kept: "device_ok dv \<Longrightarrow> keeps (set_properties drv ps dv)"
proof (induction ps arbitrary: dv)
  case (Cons p ps)
  obtain np b where "p = (np, b)" by fastforce
  then show ?case using Cons.prems by (intro keepsI) (auto intro!: keepsE [OF set_bool_kept] keepsE [OF Cons.IH] simp: wlp_simps)
qed (simp add: keeps_def wlp_simps)

lemma select_kept:
  assumes "device_ok dv" "pred_option target_ok pnt"
  shows "wlp keeps_target (nfc_initiator_select_passive_target drv m d pnt dv)"
  unfolding nfc_initiator_select_passive_target_def Let_def using assms by (intro hal_wlp select) simp_all

lemma dep_kept:
  assumes "device_ok dv" "pred_option target_ok pnt"
  shows "wlp keeps_target (nfc_initiator_select_dep_target drv ndm rate ini pnt to dv)"
  unfolding nfc_initiator_select_dep_target_def using assms by (intro hal_wlp dep) simp_all

lemma deselect_call_kept: "device_ok dv \<Longrightarrow> keeps (nfc_initiator_deselect_target drv dv)"
  unfolding nfc_initiator_deselect_target_def by (rule hal_keeps_plain [OF _ plain]) simp_all

lemma list_targets_kept:
  assumes "device_ok dv" "target_ok nt" "list_all target_ok found"
  shows "wlp (\<lambda>(ts, dv). device_ok dv \<and> list_all target_ok ts) (list_targets drv m d n nt found dv)"
  using assms
proof (induction "n - length found" arbitrary: nt found dv rule: less_induct)
  case less
  show ?case
    unfolding list_targets.simps [of drv m d n nt found dv] wlp_and_then
    by (rule wlp_mono [OF select_kept], simp_all only: less.prems option.pred_inject)
      (use less in \<open>auto simp: wlp_simps Let_def intro!: keepsE [OF deselect_call_kept] split: option.splits\<close>)
qed

lemma poll_dep_kept:
  assumes "device_ok dv" "pred_option target_ok pnt"
  shows "wlp keeps_target (poll_dep drv ndm rate ini pnt to dv)"
  using assms
proof (induction "nat to" arbitrary: pnt to dv rule: less_induct)
  case less
  then show ?case
    by (subst poll_dep.simps) (auto simp: wlp_simps intro!: wlp_mono [OF dep_kept])
qed

lemma after_keeps: "keeps m \<Longrightarrow> wlp device_ok (device_after m)"
  by (auto simp: keeps_def intro: device_afterI)

lemma after_target: "wlp keeps_target m \<Longrightarrow> wlp device_ok (device_after m)"
  by (rule device_afterI, erule wlp_mono) auto

lemma listed_kept:
  assumes "device_ok dv" "target_ok nt"
  shows "wlp (\<lambda>((res, ts), dv). device_ok dv \<and> list_all target_ok ts) (nfc_initiator_list_passive_targets drv m n nt dv)"
  unfolding nfc_initiator_list_passive_targets_def using assms
  by (auto intro!: keepsE [OF set_bool_kept] wlp_mono [OF list_targets_kept] simp: wlp_simps)

lemma target_init_call_kept:
  assumes "device_ok dv" "target_ok t"
  shows "wlp keeps_emulated (nfc_target_init drv t n to dv)"
  unfolding nfc_target_init_def using assms
  by (auto intro!: keepsE [OF set_properties_kept] hal_wlp emulate simp: wlp_simps simp del: set_properties.simps)

lemma calls_kept:
  assumes "device_ok dv"
  shows "keeps (nfc_set_property_int drv np v dv)" "keeps (nfc_initiator_init drv dv)" "keeps (nfc_initiator_init_secure_element drv dv)"
    "keeps (nfc_initiator_transceive_bytes drv tx r to dv)" "keeps (nfc_initiator_transceive_bits drv tx k px w dv)"
    "keeps (nfc_initiator_transceive_bytes_timed drv tx cyc dv)" "keeps (nfc_initiator_transceive_bits_timed drv tx k cyc dv)"
    "keeps (nfc_initiator_target_is_present drv tg dv)" "keeps (nfc_target_send_bytes drv tx to dv)"
    "keeps (nfc_target_receive_bytes drv room to dv)" "keeps (nfc_target_send_bits drv tx k px dv)"
    "keeps (nfc_target_receive_bits drv room dv)" "keeps (nfc_abort_command drv dv)" "keeps (nfc_idle drv dv)"
proof -
  have init: "keeps (hal (initiator_init drv) 0 dv)" if "device_ok dv" for dv
    using that by (rule hal_keeps_plain [OF _ plain]) simp_all
  show "keeps (nfc_initiator_init drv dv)"
    unfolding nfc_initiator_init_def using assms
    by (intro keepsI) (auto intro!: keepsE [OF set_properties_kept] keepsE [OF init] simp: wlp_on_ok simp del: set_properties.simps)
qed (unfold nfc_set_property_int_def nfc_initiator_init_secure_element_def nfc_initiator_transceive_bytes_def
    nfc_initiator_transceive_bits_def nfc_initiator_transceive_bytes_timed_def nfc_initiator_transceive_bits_timed_def
    nfc_initiator_target_is_present_def nfc_target_send_bytes_def nfc_target_receive_bytes_def nfc_target_send_bits_def
    nfc_target_receive_bits_def nfc_abort_command_def nfc_idle_def,
  (rule hal_keeps hal_keeps_plain, rule assms, erule set_int bytes_exchange bits_exchange bytes_timed bits_timed present send_bytes
    receive_bytes send_bits receive_bits plain [rotated], (simp; fail)?)+)

lemma api_run_ok:
  assumes "device_ok dv" "call_ok c"
  shows "wlp device_ok (api_run drv c dv)"
proof (cases c)
  case (Poll ms n p pnt)
  then show ?thesis
    using assms poll [of "dv\<lparr>last_error := 0\<rparr>" pnt ms n p]
    by (simp, intro after_keeps) (simp add: nfc_initiator_poll_target_def keeps_def hal_wlp)
next
  case (Poll_dep ndm rate ini pnt t)
  then show ?thesis
    using assms by (auto simp: nfc_initiator_poll_dep_target_def wlp_simps intro!: after_target keepsE [OF set_bool_kept] poll_dep_kept)
next
  case (List_passive m n fresh)
  then show ?thesis using assms by (auto intro!: device_afterI wlp_mono [OF listed_kept])
next
  case (Target_init t n to)
  then show ?thesis using assms by (auto intro!: device_afterI wlp_mono [OF target_init_call_kept])
next
  case (Select_passive m d pnt)
  then show ?thesis using assms by (simp add: after_target select_kept)
next
  case (Select_dep ndm rate ini pnt t)
  then show ?thesis using assms by (simp add: after_target dep_kept)
qed (use assms in \<open>simp_all add: after_keeps set_bool_kept deselect_call_kept calls_kept\<close>)

lemma api_session_ok: "device_ok dv \<Longrightarrow> list_all call_ok cs \<Longrightarrow> wlp device_ok (api_session drv cs dv)"
  by (induction cs arbitrary: dv) (auto simp: wlp_simps intro!: wlp_mono [OF api_run_ok])

end

text \<open>The table of the PN53x drivers, over any driver whose two functions keep the types.\<close>

context keeping_driver
begin

lemma pn53x_table:
  assumes "\<And>f dv. secure = Some f \<or> abort = Some f \<Longrightarrow> device_ok dv \<Longrightarrow> keeps (f dv)"
  shows "keeping_table (pn53x_driver io fresh secure abort)"
proof
  show "pred_option (\<lambda>f. keeps (f dv)) t"
    if "t \<in> {initiator_init (pn53x_driver io fresh secure abort), initiator_init_secure_element (pn53x_driver io fresh secure abort),
        initiator_deselect_target (pn53x_driver io fresh secure abort), abort_command (pn53x_driver io fresh secure abort),
        device_idle (pn53x_driver io fresh secure abort)}" "device_ok dv" for t dv
    using that assms by (auto simp: pn53x_driver_def initiator_init_kept deselect_kept idle_kept pred_option_def)
qed (simp_all add: pn53x_driver_def select_ext_kept pn53x_initiator_select_passive_target_def poll_target_kept select_dep_kept
    target_init_kept present_kept transceive_bytes_kept transceive_bits_kept bytes_timed_kept bits_timed_kept
    target_exchange_kept set_property_bool_kept set_property_int_kept)

end

section \<open>The driver on the serial line\<close>

lemma port_kept:
  "device_ok dv \<Longrightarrow> keeps (port_send bs dv)" "device_ok dv \<Longrightarrow> keeps (port_receive n ab t dv)"
  "device_ok dv \<Longrightarrow> keeps (pn532_uart_wakeup dv)"
proof -
  show send: "device_ok dv \<Longrightarrow> keeps (port_send bs dv)" for bs dv
    by (auto simp: port_send_def keeps_def wlp_simps split: prod.splits)
  show "device_ok dv \<Longrightarrow> keeps (port_receive n ab t dv)"
    unfolding port_receive_def by (intro keepsI) (auto intro: wlpI simp: wlp_simps)
  show "device_ok dv \<Longrightarrow> keeps (pn532_uart_wakeup dv)"
    unfolding pn532_uart_wakeup_def by (intro keepsI) (auto intro!: keepsE [OF send] simp: wlp_simps)
qed

lemma on_port_ok [simp]: "device_ok (on_port f dv) = device_ok dv"
  by (simp add: on_port_def)

lemma receive_error_kept: "device_ok dv \<Longrightarrow> keeps (receive_error e dv)"
  by (simp add: receive_error_def keeps_def wlp_simps)

lemma receive_or_fail_kept:
  "device_ok dv \<Longrightarrow> (\<And>bs dv. device_ok dv \<Longrightarrow> keeps (k bs dv)) \<Longrightarrow> keeps (receive_or_fail n t k dv)"
  unfolding receive_or_fail_def
  by (intro keepsI) (auto intro!: keepsE [OF port_kept(2)] keepsE [OF receive_error_kept] simp: wlp_simps keeps_def)

lemma receive_body_kept: "device_ok dv \<Longrightarrow> keeps (receive_body len sz t dv)"
proof -
  have trailer: "keeps (receive_or_fail 2 t (\<lambda>tr dv. if a tr then receive_error NFC_EIO dv
      else if b tr then receive_error NFC_EIO dv else Ret ((len, bs), dv)) dv)" if "device_ok dv"
    for a b bs and dv :: "uart_port nfc_device"
    using that by (intro receive_or_fail_kept) (simp_all add: receive_error_kept)
  have data: "keeps ((if len \<noteq> 0 then receive_or_fail (nat len) t else (\<lambda>k. k [])) k dv)"
    if "device_ok dv" "\<And>bs dv. device_ok dv \<Longrightarrow> keeps (k bs dv)" for k dv
    using that by (simp add: receive_or_fail_kept)
  show "device_ok dv \<Longrightarrow> keeps (receive_body len sz t dv)"
    unfolding receive_body_def Let_def
    by (auto intro!: receive_error_kept receive_or_fail_kept data trailer)
qed

lemma uart_receive_kept: "device_ok dv \<Longrightarrow> keeps (pn532_uart_receive n t dv)"
proof -
  have ack: "keeps (pn532_uart_ack dv)" if "device_ok dv" for dv
    using that unfolding pn532_uart_ack_def by (intro keepsI) (auto intro!: keepsE [OF port_kept(1)] keepsE [OF port_kept(3)] simp: wlp_simps)
  have more: "keeps (receive_or_fail 3 t (\<lambda>e dv. if a e then receive_error NFC_EIO dv else receive_body (l e) n t dv) dv)"
    if "device_ok dv" for a l dv
    using that by (intro receive_or_fail_kept) (simp_all add: receive_error_kept receive_body_kept)
  show "device_ok dv \<Longrightarrow> keeps (pn532_uart_receive n t dv)"
    unfolding pn532_uart_receive_def Let_def
    by (intro keepsI) (auto intro!: keepsE [OF port_kept(2)] keepsE [OF ack] keepsE [OF receive_error_kept] keepsE [OF more]
        keepsE [OF receive_body_kept] simp: wlp_simps)
qed

lemma uart_send_kept:
  assumes "keeping_driver io" "device_ok dv"
  shows "keeps (pn532_uart_send_with io tx t dv)"
proof -
  note sam = keepsE [OF keeping_driver.sam_configuration_kept [OF assms(1)]]
  have wake: "keeps (wake_for_sending io dv)" if "device_ok dv" for dv
    using that unfolding wake_for_sending_def
    by (cases "power_mode (chip_data dv)"; intro keepsI) (auto intro!: keepsE [OF port_kept(3)] sam simp: wlp_simps)
  show ?thesis
    using assms(2) unfolding pn532_uart_send_with_def Let_def pn53x_check_ack_frame_def
    by (intro keepsI)
      (auto intro!: keepsE [OF wake] keepsE [OF port_kept(1)] keepsE [OF port_kept(2)] simp: wlp_simps split: prod.splits)
qed

lemma uart_io_kept: "keeping_driver (pn532_uart_io_n k)"
proof (induction k)
  case 0
  show ?case by unfold_locales (simp_all add: uart_receive_kept)
next
  case (Suc k)
  then show ?case by unfold_locales (simp_all add: uart_receive_kept uart_send_kept)
qed

interpretation uart: keeping_driver pn532_uart_io
  unfolding pn532_uart_io_def by (rule uart_io_kept)

interpretation uart_table: keeping_table "pn532_uart_driver fresh" for fresh
  unfolding pn532_uart_driver_def
  by (rule uart.pn53x_table)
    (auto simp: pn532_initiator_init_secure_element_def uart.sam_configuration_kept pn532_uart_abort_command_def)

lemma opened_ok:
  assumes "length (wb_data fresh_chip) = 62" "ui8TxBits fresh_chip < 8"
  shows "wlp (pred_option device_ok) (pn532_uart_open fresh_chip fresh_device port)"
proof -
  have "device_ok (set_chip f (pn53x_data_new fresh_chip dv))" if "\<And>c. chip_ok (f c) = chip_ok c" for f and dv :: "uart_port nfc_device"
    using assms that by (simp add: pn53x_data_new_def chip_ok_def cache_size)
  then have "device_ok (set_chip (\<lambda>c. c\<lparr>ch_type := PN532, power_mode := LOWVBAT, timer_correction := 48\<rparr>) (pn53x_data_new fresh_chip dv))"
    for dv :: "uart_port nfc_device" by (simp add: chip_ok_def)
  then show ?thesis
    unfolding pn532_uart_open_def Let_def
    by (auto intro!: keepsE [OF uart.check_communication_kept] keepsE [OF uart.init_kept] simp: wlp_simps)
qed

text \<open>C31. A program that opens a PN532 on a serial line and makes any calls: at every point it reaches, after any of its calls that
  have returned, the device has its types: the cache of registers its size, the bits of a last byte below eight, and the counts of the
  current target - of its UID, its answers, its general bytes - inside the arrays they count.  So have the targets that a selection or a
  listing made at that point hands to the program.  This is said of calls that return: an answer with a UID or an ATS longer than its
  array makes the decoding undefined instead (C26).  The targets that the program hands in are taken to have their types, and the fresh
  memory of the chip's data to have the size of the structure and no wild count of bits.\<close>
theorem program_keeps_types:
  assumes "length (wb_data fresh_chip) = 62" "ui8TxBits fresh_chip < 8" "list_all call_ok cs"
    and "uart_program fresh_chip fresh_device port fresh (take k cs) = Ret (Some dv)"
  shows "length (wb_data (chip_data dv)) = 62 \<and> length (wb_mask (chip_data dv)) = 62 \<and> ui8TxBits (chip_data dv) < 8 \<and>
    pred_option target_ok (current_target (chip_data dv)) \<and>
    (\<forall>m d pnt res tg dv'. pred_option target_ok pnt \<longrightarrow>
      nfc_initiator_select_passive_target (pn532_uart_driver fresh) m d pnt dv = Ret ((res, tg), dv') \<longrightarrow> pred_option target_ok tg) \<and>
    (\<forall>m n nt res ts dv'. target_ok nt \<longrightarrow>
      nfc_initiator_list_passive_targets (pn532_uart_driver fresh) m n nt dv = Ret ((res, ts), dv') \<longrightarrow> list_all target_ok ts)"
proof -
  have "list_all call_ok (take k cs)" using assms(3) by (auto simp: list_all_iff dest: in_set_takeD)
  then have "wlp (pred_option device_ok) (uart_program fresh_chip fresh_device port fresh (take k cs))"
    unfolding uart_program_def
    by (auto intro!: wlp_mono [OF opened_ok [OF assms(1,2)]] wlp_mono [OF uart_table.api_session_ok] simp: wlp_simps split: option.splits)
  then have ok: "device_ok dv" using assms(4) by (simp add: wlp_def)
  have "pred_option target_ok tg" if "pred_option target_ok pnt"
    "nfc_initiator_select_passive_target (pn532_uart_driver fresh) m d pnt dv = Ret ((res, tg), dv')" for m d pnt res tg dv'
    using uart_table.select_kept [OF ok that(1), of fresh m d] that(2) by (simp add: wlp_def)
  moreover have "list_all target_ok ts" if "target_ok nt"
    "nfc_initiator_list_passive_targets (pn532_uart_driver fresh) m n nt dv = Ret ((res, ts), dv')" for m n nt res ts dv'
    using uart_table.listed_kept [OF ok that(1), of fresh m n] that(2) by (simp add: wlp_def)
  ultimately show ?thesis using ok by (simp add: device_ok_def chip_ok_def)
qed

lemma program_keeps_types_witness:
  "\<forall>fresh. \<exists>dv. uart_program blank_chip (blank_device waking_port) waking_port fresh
      [Set_int NP_TIMEOUT_COMMAND 100, Set_bool NP_EASY_FRAMING True, Abort] = Ret (Some dv) \<and>
    length (wb_data (chip_data dv)) = 62 \<and> length (wb_mask (chip_data dv)) = 62 \<and> ui8TxBits (chip_data dv) < 8 \<and>
    pred_option target_ok (current_target (chip_data dv))"
proof
  fix fresh
  let ?cs = "[Set_int NP_TIMEOUT_COMMAND 100, Set_bool NP_EASY_FRAMING True, Abort]"
  have runs: "\<exists>dv'. api_session (pn532_uart_driver fresh) ?cs dv = Ret dv'" for dv
    by (simp add: device_after_def nfc_set_property_int_def nfc_set_property_bool_def nfc_abort_command_def hal_def pn532_uart_driver_def
        pn53x_driver_def nfc_device_set_property_int_def nfc_device_set_property_bool_def pn53x_set_property_int_def
        pn53x_set_property_bool_def pn532_uart_abort_command_def)
  obtain dv where opened: "pn532_uart_open blank_chip (blank_device waking_port) waking_port = Ret (Some dv)"
    using waking_port_opens by blast
  from runs [of dv] obtain dv' where "api_session (pn532_uart_driver fresh) ?cs dv = Ret dv'" by blast
  then have "uart_program blank_chip (blank_device waking_port) waking_port fresh ?cs = Ret (Some dv')"
    by (simp only: uart_program_def opened and_then.simps option.case)
  moreover from this have "uart_program blank_chip (blank_device waking_port) waking_port fresh (take 3 ?cs) = Ret (Some dv')"
    by simp
  from program_keeps_types [OF _ _ _ this]
  have "length (wb_data (chip_data dv')) = 62 \<and> length (wb_mask (chip_data dv')) = 62 \<and> ui8TxBits (chip_data dv') < 8 \<and>
      pred_option target_ok (current_target (chip_data dv'))"
    by (simp add: cache_size blank_chip_def)
  ultimately show "\<exists>dv. uart_program blank_chip (blank_device waking_port) waking_port fresh ?cs = Ret (Some dv) \<and>
      length (wb_data (chip_data dv)) = 62 \<and> length (wb_mask (chip_data dv)) = 62 \<and> ui8TxBits (chip_data dv) < 8 \<and>
      pred_option target_ok (current_target (chip_data dv))"
    by blast
qed

end
