(* ===== verification/Driver_Types.thy ===== *)
theory Driver_Types
  imports Driver_Answers Arygon_Depth Nfc_Session
begin

text \<open>
  Every driver keeps the types of its device, whatever the line, the library or the service does: the contract of
  \<open>Device_Types\<close>, and with it that of the table, for the readers behind the other five drivers.
\<close>

section \<open>Steps on the data of the driver\<close>

lemma step_ok [simp]:
  "device_ok (on_usb f dv) = device_ok dv" "device_ok (on_acr g dv') = device_ok dv'" "device_ok (on_pcsc h dv'') = device_ok dv''"
  by (simp_all add: on_usb_def on_acr_def on_pcsc_def)

section \<open>The USB drivers\<close>

lemma bulk_kept: "device_ok dv \<Longrightarrow> keeps (bulk_write lib tx t dv)" "device_ok dv \<Longrightarrow> keeps (bulk_read lib n t dv)"
  by (auto simp: bulk_write_def bulk_read_def Let_def split: prod.splits)

lemma read_pass_kept:
  assumes "\<And>dv. device_ok dv \<Longrightarrow> keeps (rd dv)" "\<And>dv. device_ok dv \<Longrightarrow> keeps (ack dv)" "device_ok dv"
  shows "keeps (read_pass rd ack e dv)"
  using assms(3) unfolding read_pass_def by (intro keepsI) (auto intro!: keepsE [OF assms(1)] keepsE [OF assms(2)] simp: wlp_simps)

lemma read_passes_kept:
  assumes "\<And>t dv. device_ok dv \<Longrightarrow> keeps (pass t dv)"
    and "read_passes pass timeout remaining dv = Some m" "device_ok dv"
  shows "keeps m"
proof -
  let ?P = "\<lambda>pass' timeout remaining dv m. pass' = pass \<longrightarrow> device_ok dv \<longrightarrow> keeps m"
  have "?P pass timeout remaining dv m"
  proof (rule read_passes.raw_induct [where P = ?P, OF _ assms(2)], intro impI, goal_cases)
    case (1 f pass' timeout remaining dv m)
    show ?case
    proof (cases "pass_time timeout remaining")
      case (Some t)
      show ?thesis
      proof (cases "pass t dv")
        case (Ret x)
        have ok: "keeps (pass t dv)" using assms(1) 1(4) .
        obtain r dv' where x: "x = (r, dv')" by (cases x) auto
        have "m = pass t dv \<or> f pass timeout (remaining - USB_TIMEOUT_PER_PASS) dv' = Some m"
          using 1(2,3) Some Ret x by (cases r) auto
        moreover have "device_ok dv'" using ok Ret x by simp
        ultimately show ?thesis using 1(1) ok by blast
      qed (use 1 Some in \<open>auto simp: keeps_def wlp_simps\<close>)
    qed (use 1 in auto)
  qed
  then show ?thesis using assms(3) by simp
qed

lemma usb_receive_kept:
  assumes "\<And>t dv. device_ok dv \<Longrightarrow> keeps (pass t dv)" "\<And>rx dv. device_ok dv \<Longrightarrow> keeps (decode rx dv)" "device_ok dv"
  shows "keeps (usb_receive pass decode timeout dv)"
proof -
  have "wlp (wlp (\<lambda>(r, dv). device_ok dv)) (of_run (read_passes pass timeout timeout dv))"
    using read_passes_kept [of pass, OF assms(1) _ assms(3)] by (intro wlp_of_run) (simp add: keeps_def)
  then show ?thesis
    unfolding usb_receive_def
    by (intro keepsI) (auto simp: wlp_simps split: pass_end.splits intro!: keepsE [OF assms(2)] elim!: wlp_mono)
qed

lemma ack_frame_kept: "device_ok dv \<Longrightarrow> keeps (pn53x_check_ack_frame rx dv)"
  by (simp add: pn53x_check_ack_frame_def keeps_def wlp_simps)

lemma pn53x_usb_steps_kept:
  shows usb_ack_kept: "device_ok dv \<Longrightarrow> keeps (pn53x_usb_ack lib dv)"
    and usb_send_kept: "device_ok dv \<Longrightarrow> keeps (pn53x_usb_send lib tx t dv)"
    and usb_answer_kept: "device_ok dv \<Longrightarrow> keeps (pn53x_usb_receive lib n t dv)"
proof -
  show ack: "device_ok dv \<Longrightarrow> keeps (pn53x_usb_ack lib dv)" for dv by (simp add: pn53x_usb_ack_def bulk_kept)
  have decode: "keeps (decode_frame n rx dv)" if "device_ok dv" for rx dv
    using that by (auto simp: decode_frame_def keeps_def wlp_simps intro!: wlpI [where m = "usb_frame _ _ _"])
  show "device_ok dv \<Longrightarrow> keeps (pn53x_usb_send lib tx t dv)"
    unfolding pn53x_usb_send_def Let_def
    by (intro keepsI)
      (auto intro!: keepsE [OF bulk_kept(1)] keepsE [OF bulk_kept(2)] keepsE [OF ack] keepsE [OF ack_frame_kept] simp: wlp_simps
        split: prod.splits)
  show "device_ok dv \<Longrightarrow> keeps (pn53x_usb_receive lib n t dv)"
    unfolding pn53x_usb_receive_def
    by (rule usb_receive_kept) (auto intro!: read_pass_kept bulk_kept ack decode)
qed

interpretation usb_io: keeping_driver "pn53x_usb_io lib" for lib
  by unfold_locales (simp_all add: pn53x_usb_io_def usb_send_kept usb_answer_kept)

lemma acr_bulk_kept:
  "device_ok dv \<Longrightarrow> keeps (acr122_usb_bulk_write lib tx t dv)" "device_ok dv \<Longrightarrow> keeps (acr122_usb_bulk_read lib n t dv)"
  unfolding acr122_usb_bulk_write_def acr122_usb_bulk_read_def
  by (intro keepsI; auto intro!: keepsE [OF bulk_kept(1)] keepsE [OF bulk_kept(2)] simp: wlp_simps)+

lemma acr122_usb_steps_kept:
  shows acr_send_kept: "device_ok dv \<Longrightarrow> keeps (acr122_usb_send lib tx t dv)"
    and acr_answer_kept: "device_ok dv \<Longrightarrow> keeps (acr122_usb_receive lib n t dv)"
proof -
  have ack: "device_ok dv \<Longrightarrow> keeps (acr122_usb_ack lib dv)" for dv
    unfolding acr122_usb_ack_def Let_def
    by (intro keepsI) (auto intro!: keepsE [OF acr_bulk_kept(1)] keepsE [OF acr_bulk_kept(2)] simp: wlp_simps split: prod.splits)
  have decode: "keeps (decode_acr122 n rx dv)" if "device_ok dv" for rx dv
    using that by (auto simp: decode_acr122_def keeps_def wlp_simps intro!: wlpI [where m = "acr122_frame _ _ _"])
  show "device_ok dv \<Longrightarrow> keeps (acr122_usb_send lib tx t dv)"
    unfolding acr122_usb_send_def Let_def
    by (intro keepsI) (auto intro!: keepsE [OF acr_bulk_kept(1)] simp: wlp_simps split: prod.splits)
  show "device_ok dv \<Longrightarrow> keeps (acr122_usb_receive lib n t dv)"
    unfolding acr122_usb_receive_def
    by (rule usb_receive_kept) (auto intro!: read_pass_kept acr_bulk_kept ack decode)
qed

interpretation acr_usb_io: keeping_driver "acr122_usb_io lib" for lib
  by unfold_locales (simp_all add: acr122_usb_io_def acr_send_kept acr_answer_kept)

section \<open>The serial drivers\<close>

lemma tama_steps_kept:
  shows tama_send_kept: "device_ok dv \<Longrightarrow> keeps (arygon_tama_send tx t dv)"
    and tama_error_kept: "device_ok dv \<Longrightarrow> keeps (tama_error e dv :: ((int \<times> bytes) \<times> uart_port nfc_device) outcome)"
proof -
  show "device_ok dv \<Longrightarrow> keeps (tama_error e dv :: ((int \<times> bytes) \<times> uart_port nfc_device) outcome)" for dv
    by (simp add: tama_error_def)
  show "device_ok dv \<Longrightarrow> keeps (arygon_tama_send tx t dv)"
    unfolding arygon_tama_send_def Let_def
    by (intro keepsI)
      (auto intro!: keepsE [OF port_kept(1)] keepsE [OF port_kept(2)] keepsE [OF ack_frame_kept] simp: wlp_simps split: prod.splits)
qed

lemma tama_read_kept:
  "device_ok dv \<Longrightarrow> (\<And>bs dv. device_ok dv \<Longrightarrow> keeps (k bs dv)) \<Longrightarrow> keeps (tama_read n t k dv)"
  unfolding tama_read_def by (intro keepsI) (auto intro!: keepsE [OF port_kept(2)] simp: wlp_simps keeps_def tama_error_def)

lemma tama_body_kept: "device_ok dv \<Longrightarrow> keeps (tama_body len n t dv)"
proof -
  have data: "keeps ((if len \<noteq> 0 then tama_read (nat len) t else (\<lambda>k. k [])) k dv)"
    if "device_ok dv" "\<And>bs dv. device_ok dv \<Longrightarrow> keeps (k bs dv)" for k dv
    using that by (simp add: tama_read_kept)
  show "device_ok dv \<Longrightarrow> keeps (tama_body len n t dv)"
    unfolding tama_body_def Let_def by (auto intro!: tama_error_kept tama_read_kept data)
qed

lemma tama_receive_kept:
  assumes "keeping_driver io" "device_ok dv"
  shows "keeps (arygon_tama_receive_with io n t dv)"
proof -
  have abort: "keeps (arygon_abort io dv)" if "device_ok dv" for dv
    using that unfolding arygon_abort_def
    by (intro keepsI) (auto intro!: keepsE [OF port_kept(1)] keepsE [OF keeping_driver.check_communication_kept [OF assms(1)]] simp: wlp_simps)
  show ?thesis
    using assms(2) unfolding arygon_tama_receive_with_def Let_def
    by (intro keepsI)
      (auto intro!: keepsE [OF port_kept(2)] keepsE [OF abort] keepsE [OF tama_body_kept] simp: wlp_simps tama_error_def)
qed

lemma arygon_io_kept: "keeping_driver (arygon_io_n k)"
proof (induction k)
  case 0
  show ?case by unfold_locales (simp_all add: tama_send_kept)
next
  case (Suc k)
  then show ?case by unfold_locales (simp_all add: tama_send_kept tama_receive_kept)
qed

interpretation arygon_io: keeping_driver arygon_tama_io
  by unfold_locales
    (simp_all add: arygon_tama_io_def tama_send_kept arygon_tama_receive_def keeping_driver.receive_kept [OF arygon_io_kept] del: arygon_io_n.simps)

lemma acr_port_kept: "device_ok dv \<Longrightarrow> keeps (acr_send bs dv)" "device_ok dv \<Longrightarrow> keeps (acr_receive n ab t dv)"
  by (auto simp: acr_send_def acr_receive_def Let_def keeps_def wlp_simps intro: wlpI split: prod.splits)

lemma acr122s_steps_kept:
  shows frame_sent_kept: "device_ok dv \<Longrightarrow> keeps (acr122s_send_frame f t dv)"
    and frame_received_kept: "device_ok dv \<Longrightarrow> keeps (acr122s_recv_frame k ab t dv)"
proof -
  show "device_ok dv \<Longrightarrow> keeps (acr122s_send_frame f t dv)"
    unfolding acr122s_send_frame_def
    by (intro keepsI) (auto intro!: keepsE [OF acr_port_kept(1)] keepsE [OF acr_port_kept(2)] simp: wlp_simps)
  show "device_ok dv \<Longrightarrow> keeps (acr122s_recv_frame k ab t dv)"
    unfolding acr122s_recv_frame_def by (intro keepsI) (auto intro!: keepsE [OF acr_port_kept(2)] simp: wlp_simps)
qed

interpretation acr122s_types: keeping_driver acr122s_io
proof
  show "keeps (io_send acr122s_io tx t dv)" if "device_ok dv" for tx t dv
    using that unfolding acr122s_io_def acr122s_send_def Let_def
    by (intro keepsI)
      (auto intro!: keepsE [OF frame_sent_kept] wlpI [where m = "acr122s_build_frame _ _ _ _ _ _"] simp: wlp_simps split: option.splits)
  show "keeps (io_receive acr122s_io n t dv)" if "device_ok dv" for n t dv
    using that unfolding acr122s_io_def acr122s_receive_def Let_def
    by (intro keepsI) (auto intro!: keepsE [OF frame_received_kept] simp: wlp_simps)
qed

section \<open>The smart card service\<close>

lemma pcsc_call_kept: "device_ok dv \<Longrightarrow> keeps (pcsc_call f tx dv)"
  unfolding pcsc_call_def Let_def
  by (auto simp: keeps_def wlp_simps intro!: wlpI [where m = "copy_into _ _ _ _"] split: option.splits prod.splits)

interpretation pcsc_io: keeping_driver "acr122_pcsc_io lib" for lib
proof
  show "keeps (io_send (acr122_pcsc_io lib) tx t dv)" if "device_ok dv" for tx t dv
    using that unfolding acr122_pcsc_io_def acr122_pcsc_send_def Let_def
    by (intro keepsI) (auto intro!: keepsE [OF pcsc_call_kept] simp: wlp_simps split: option.splits)
  have answer: "keeps (acr122_pcsc_answer n dv)" if "device_ok dv" for n dv
    using that by (simp add: acr122_pcsc_answer_def Let_def)
  show "keeps (io_receive (acr122_pcsc_io lib) n t dv)" if "device_ok dv" for n t dv
    using that unfolding acr122_pcsc_io_def acr122_pcsc_receive_def
    by (auto intro!: keepsI keepsE [OF pcsc_call_kept] keepsE [OF answer] wlpI [where m = "byte_at _ _"] answer simp: wlp_simps split: option.splits)
qed

section \<open>The tables\<close>

lemma table_without_idle: "keeping_table drv \<Longrightarrow> keeping_table (drv\<lparr>device_idle := None\<rparr>)"
  by (simp add: keeping_table_def)

lemma table_overridden:
  assumes "keeping_table drv" "\<And>np b dv. device_ok dv \<Longrightarrow> keeps (set_bool np b dv)"
    and "\<And>t room to dv. device_ok dv \<Longrightarrow> target_ok t \<Longrightarrow> wlp keeps_emulated (emulate t room to dv)"
    and "\<And>dv. device_ok dv \<Longrightarrow> keeps (idle dv)"
  shows "keeping_table (drv\<lparr>device_set_property_bool := Some set_bool, target_init := Some emulate, device_idle := Some idle\<rparr>)"
  using assms by (simp add: keeping_table_def)

lemma usb_property_kept: "device_ok dv \<Longrightarrow> keeps (pn53x_usb_set_property_bool lib np b dv)"
  unfolding pn53x_usb_set_property_bool_def Let_def
  by (intro keepsI) (auto intro!: kept simp: wlp_simps split: pn53x_usb_model.splits)

lemma usb_idle_kept: "device_ok dv \<Longrightarrow> keeps (pn53x_usb_idle lib dv)"
  unfolding pn53x_usb_idle_def by (rule usb_io.idle_over_kept) (simp_all add: usb_property_kept)

interpretation usb_table: keeping_table "pn53x_usb_driver lib fresh" for lib fresh
  unfolding pn53x_usb_driver_def
  by (rule table_overridden [OF usb_io.pn53x_table])
    (auto simp: pn53x_usb_abort_command_def usb_property_kept usb_idle_kept intro: usb_io.target_init_over_kept)

interpretation acr_usb_table: keeping_table "acr122_usb_driver lib fresh" for lib fresh
  unfolding acr122_usb_driver_def by (rule acr_usb_io.pn53x_table) (auto simp: acr122_usb_abort_command_def)

interpretation arygon_table: keeping_table "arygon_driver fresh" for fresh
  unfolding arygon_driver_def by (rule table_without_idle [OF arygon_io.pn53x_table]) (auto simp: arygon_abort_command_def)

interpretation acr122s_table: keeping_table "acr122s_driver fresh" for fresh
  unfolding acr122s_driver_def by (rule table_without_idle [OF acr122s_types.pn53x_table]) (auto simp: acr122s_abort_command_def)

interpretation pcsc_table: keeping_table "acr122_pcsc_driver lib fresh" for lib fresh
  unfolding acr122_pcsc_driver_def by (rule table_without_idle [OF pcsc_io.pn53x_table]) simp

end
