(* ===== verification/Json_Refcount.thy ===== *)
theory Json_Refcount
  imports Json_Object "HOL-Library.Multiset"
begin

text \<open>
  Objects in memory: \<open>struct json_object\<close> with its reference count (\<open>json-c-0.9/json_object.c\<close>), the destructors that the
  last \<open>json_object_put\<close> runs, and the stores into objects and arrays, which take over a reference and drop those of what
  they replace.  An object stands at an address; a freed one stands nowhere, and touching it is undefined.
\<close>

section \<open>Memory\<close>

type_synonym addr = nat

text \<open>The type tag and the destructor follow from the content; the text buffer is left out.  An array whose block could not be
  had is \<open>NULL\<close>.\<close>

datatype 'd content =
  CBoolean int
| CDouble 'd
| CInt int
| CObject "(string, addr) lh_table"
| CArray "addr array_list option"
| CString string

record 'd json_object =
  ref_count :: int
  json_content :: "'d content"

type_synonym 'd json_heap = "addr \<Rightarrow> 'd json_object option"

definition deref :: "'d json_heap \<Rightarrow> addr \<Rightarrow> 'd json_object outcome" where
  "deref h a = (case h a of None \<Rightarrow> Undefined | Some jso \<Rightarrow> Ret jso)"

definition set_content :: "addr \<Rightarrow> 'd content \<Rightarrow> 'd json_heap \<Rightarrow> 'd json_heap outcome" where
  "set_content a c h = and_then (deref h a) (\<lambda>jso. Ret (h(a \<mapsto> jso\<lparr>json_content := c\<rparr>)))"

text \<open>\<open>fresh\<close> is what \<open>calloc\<close> returns: the address of memory that is not in use, or none.\<close>

definition json_object_new :: "addr option \<Rightarrow> 'd content \<Rightarrow> 'd json_heap \<Rightarrow> addr option \<times> 'd json_heap" where
  "json_object_new fresh c h =
     (case fresh of None \<Rightarrow> (None, h) | Some a \<Rightarrow> (Some a, h(a \<mapsto> \<lparr>ref_count = 1, json_content = c\<rparr>)))"

definition heap_new_object :: "addr option \<Rightarrow> 'd json_heap \<Rightarrow> addr option \<times> 'd json_heap" where
  "heap_new_object fresh = json_object_new fresh (CObject json_object_new_object)"

definition heap_new_array :: "addr option mem \<Rightarrow> addr option \<Rightarrow> 'd json_heap \<Rightarrow> addr option \<times> 'd json_heap" where
  "heap_new_array M fresh = json_object_new fresh (CArray (json_object_new_array M))"

definition json_object_new_string :: "addr option \<Rightarrow> string \<Rightarrow> 'd json_heap \<Rightarrow> addr option \<times> 'd json_heap" where
  "json_object_new_string fresh s = json_object_new fresh (CString s)"

text \<open>\<open>strdup\<close> and \<open>strndup\<close> are taken to have their memory; a negative length is a huge one to \<open>strndup\<close>.\<close>

definition json_object_new_string_len :: "addr option \<Rightarrow> string \<Rightarrow> int \<Rightarrow> 'd json_heap \<Rightarrow> addr option \<times> 'd json_heap" where
  "json_object_new_string_len fresh s len = json_object_new fresh (CString (if len < 0 then s else take (nat len) s))"

definition json_object_new_boolean :: "addr option \<Rightarrow> int \<Rightarrow> 'd json_heap \<Rightarrow> addr option \<times> 'd json_heap" where
  "json_object_new_boolean fresh b = json_object_new fresh (CBoolean b)"

definition json_object_new_int :: "addr option \<Rightarrow> int \<Rightarrow> 'd json_heap \<Rightarrow> addr option \<times> 'd json_heap" where
  "json_object_new_int fresh i = json_object_new fresh (CInt i)"

definition json_object_new_double :: "addr option \<Rightarrow> 'd \<Rightarrow> 'd json_heap \<Rightarrow> addr option \<times> 'd json_heap" where
  "json_object_new_double fresh d = json_object_new fresh (CDouble d)"

section \<open>Reference counts\<close>

definition json_object_get :: "addr option \<Rightarrow> 'd json_heap \<Rightarrow> (addr option \<times> 'd json_heap) outcome" where
  "json_object_get jso h =
     (case jso of
        None \<Rightarrow> Ret (None, h)
      | Some a \<Rightarrow> and_then (deref h a) (\<lambda>ob.
          if ref_count ob = INT_MAX then Undefined else Ret (Some a, h(a \<mapsto> ob\<lparr>ref_count := ref_count ob + 1\<rparr>))))"

text \<open>What the destructor of a content hands to \<open>json_object_put\<close>: the values of a table in the order of its list, and the
  items of an array.  The logs of what tables and arrays have freed before are not part of it.\<close>

definition dropped_values :: "(string, addr) lh_table \<Rightarrow> (string \<times> addr option) list \<Rightarrow> addr list" where
  "dropped_values t log = List.map_filter snd (drop (length (lh_freed t)) log)"

definition held :: "'d content \<Rightarrow> addr list outcome" where
  "held c =
     (case c of
        CObject t \<Rightarrow> and_then (lh_table_free t) (\<lambda>log. Ret (dropped_values t log))
      | CArray None \<Rightarrow> Undefined
      | CArray (Some arr) \<Rightarrow> and_then (array_list_free arr) (\<lambda>log. Ret (drop (length (al_freed arr)) log))
      | _ \<Rightarrow> Ret [])"

fun each_put :: "(addr \<Rightarrow> 'd json_heap \<Rightarrow> 'd json_heap outcome) \<Rightarrow> addr list \<Rightarrow> 'd json_heap \<Rightarrow> 'd json_heap outcome" where
  "each_put put [] h = Ret h"
| "each_put put (a # as) h = and_then (put a h) (each_put put as)"

definition json_object_delete :: "(addr \<Rightarrow> 'd json_heap \<Rightarrow> 'd json_heap outcome) \<Rightarrow> addr \<Rightarrow> 'd json_heap \<Rightarrow> 'd json_heap outcome" where
  "json_object_delete put a h =
     and_then (deref h a) (\<lambda>jso.
     and_then (held (json_content jso)) (\<lambda>as.
     and_then (each_put put as h) (\<lambda>h.
     and_then (deref h a) (\<lambda>_. Ret (h(a := None))))))"

text \<open>Destructors put what they held, which may run destructors: the first argument bounds how deep they nest, and at 0 the
  call has not returned.  Every destructor that has begun is of another object, so that one level more than there are objects
  is enough.\<close>

primrec json_object_put_n :: "nat \<Rightarrow> addr \<Rightarrow> 'd json_heap \<Rightarrow> 'd json_heap outcome" where
  "json_object_put_n 0 a h = Blocks"
| "json_object_put_n (Suc n) a h =
     and_then (deref h a) (\<lambda>jso.
       let h' = h(a \<mapsto> jso\<lparr>ref_count := ref_count jso - 1\<rparr>) in
       if ref_count jso = INT_MIN then Undefined
       else if ref_count jso - 1 \<noteq> 0 then Ret h' else json_object_delete (json_object_put_n n) a h')"

definition put_at :: "addr \<Rightarrow> 'd json_heap \<Rightarrow> 'd json_heap outcome" where
  "put_at a h = json_object_put_n (Suc (card (dom h))) a h"

definition json_object_put :: "addr option \<Rightarrow> 'd json_heap \<Rightarrow> 'd json_heap outcome" where
  "json_object_put jso h = (case jso of None \<Rightarrow> Ret h | Some a \<Rightarrow> put_at a h)"

section \<open>Stores\<close>

definition object_of :: "addr \<Rightarrow> 'd json_heap \<Rightarrow> (string, addr) lh_table outcome" where
  "object_of a h = and_then (deref h a) (\<lambda>jso. case json_content jso of CObject t \<Rightarrow> Ret t | _ \<Rightarrow> Undefined)"

definition array_of :: "addr \<Rightarrow> 'd json_heap \<Rightarrow> addr array_list outcome" where
  "array_of a h = and_then (deref h a) (\<lambda>jso. case json_content jso of CArray (Some arr) \<Rightarrow> Ret arr | _ \<Rightarrow> Undefined)"

text \<open>The free functions of a table and of an array run in the middle of their operations, which then go on to write.  What
  they put are other objects; were it the last reference to this one, it would be gone by then.\<close>

definition heap_object_del :: "addr \<Rightarrow> string \<Rightarrow> 'd json_heap \<Rightarrow> 'd json_heap outcome" where
  "heap_object_del a key h =
     and_then (object_of a h) (\<lambda>t.
     and_then (lh_table_delete t key) (\<lambda>(_, t1).
     and_then (set_content a (CObject t1) h) (\<lambda>h.
     and_then (each_put put_at (dropped_values t (lh_freed t1)) h) (\<lambda>h.
     and_then (deref h a) (\<lambda>_. Ret h)))))"

definition heap_object_add :: "addr \<Rightarrow> string \<Rightarrow> addr option \<Rightarrow> 'd json_heap \<Rightarrow> 'd json_heap outcome" where
  "heap_object_add a key val h =
     and_then (heap_object_del a key h) (\<lambda>h.
     and_then (object_of a h) (\<lambda>t.
     and_then (lh_table_insert t key val) (\<lambda>t1. set_content a (CObject t1) h)))"

definition heap_object_get :: "addr \<Rightarrow> string \<Rightarrow> 'd json_heap \<Rightarrow> (addr option \<times> 'd json_heap) outcome" where
  "heap_object_get a key h =
     and_then (object_of a h) (\<lambda>t.
     and_then (json_object_object_get t key) (\<lambda>(v, t1).
     and_then (set_content a (CObject t1) h) (\<lambda>h. Ret (v, h))))"

definition heap_array_put_idx :: "addr option mem \<Rightarrow> addr \<Rightarrow> int \<Rightarrow> addr option \<Rightarrow> 'd json_heap \<Rightarrow> (int \<times> 'd json_heap) outcome" where
  "heap_array_put_idx M a idx val h =
     and_then (array_of a h) (\<lambda>arr.
     and_then (json_object_array_put_idx M arr idx val) (\<lambda>(rc, arr1).
     and_then (set_content a (CArray (Some arr1)) h) (\<lambda>h.
     and_then (each_put put_at (drop (length (al_freed arr)) (al_freed arr1)) h) (\<lambda>h.
     and_then (deref h a) (\<lambda>_. Ret (rc, h))))))"

definition heap_array_add :: "addr option mem \<Rightarrow> addr \<Rightarrow> addr option \<Rightarrow> 'd json_heap \<Rightarrow> (int \<times> 'd json_heap) outcome" where
  "heap_array_add M a val h = and_then (array_of a h) (\<lambda>arr. heap_array_put_idx M a (al_length arr) val h)"

definition heap_array_get_idx :: "addr \<Rightarrow> int \<Rightarrow> 'd json_heap \<Rightarrow> addr option outcome" where
  "heap_array_get_idx a idx h = and_then (array_of a h) (\<lambda>arr. json_object_array_get_idx arr idx)"

section \<open>Who holds what\<close>

text \<open>The references a content carries; those of an object count as long as its own count is positive: once it is zero the
  destructor has taken them over.\<close>

fun kids :: "'d content \<Rightarrow> addr list" where
  "kids (CObject t) = List.map_filter snd (lh_entries t)"
| "kids (CArray (Some arr)) = free_slots (items arr)"
| "kids _ = []"

fun content_ok :: "'d content \<Rightarrow> bool" where
  "content_ok (CObject t) = lh_map_ok t"
| "content_ok (CArray None) = False"
| "content_ok (CArray (Some arr)) = al_inv arr"
| "content_ok _ = True"

definition carried :: "'d json_object \<Rightarrow> addr multiset" where
  "carried jso = (if 0 < ref_count jso then mset (kids (json_content jso)) else {#})"

definition links :: "'d json_heap \<Rightarrow> addr multiset" where
  "links h = (\<Sum>b\<in>dom h. carried (the (h b)))"

text \<open>\<open>ext\<close> are the references of the client.  Every count is exact, and nothing refers to what is not there.\<close>

definition owned :: "addr multiset \<Rightarrow> 'd json_heap \<Rightarrow> bool" where
  "owned ext h \<longleftrightarrow> finite (dom h) \<and>
     (\<forall>a jso. h a = Some jso \<longrightarrow> content_ok (json_content jso) \<and> ref_count jso = int (count (links h + ext) a)) \<and>
     set_mset (links h + ext) \<subseteq> dom h"

lemma held_kids: "content_ok c \<Longrightarrow> held c = Ret (kids c)"
proof (cases c)
  case (CObject t)
  assume "content_ok c"
  then obtain ns where "lh_repr t ns" using CObject by (auto simp: map_ok_repr)
  then show ?thesis by (simp add: CObject held_def lh_table_free_def dropped_values_def repr_foreach repr_entries)
next
  case (CArray x)
  assume "content_ok c"
  then show ?thesis using CArray al_inv_bounds
    by (cases x) (auto simp: held_def array_list_free_def items_def al_inv_def)
qed (simp_all add: held_def)

lemma links_update:
  assumes "finite (dom h)" "h a = Some jso"
  shows "links (h(a \<mapsto> jso')) + carried jso = links h + carried jso'"
    and "links (h(a := None)) + carried jso = links h"
proof -
  let ?r = "\<Sum>b\<in>dom h - {a}. carried (the (h b))"
  have a: "a \<in> dom h" using assms(2) by auto
  have h: "links h = carried jso + ?r" using sum.remove [OF assms(1) a, of "\<lambda>b. carried (the (h b))"] assms(2) by (simp add: links_def)
  have r: "(\<Sum>b\<in>dom h - {a}. carried (the (if b = a then x else h b))) = ?r" for x
    by (rule sum.cong) auto
  have "insert a (dom h) = dom h" using a by auto
  then have "links (h(a \<mapsto> jso')) = carried jso' + ?r"
    using sum.remove [OF assms(1) a, of "\<lambda>b. carried (the ((h(a \<mapsto> jso')) b))"] r [of "Some jso'"] by (simp add: links_def)
  then show "links (h(a \<mapsto> jso')) + carried jso = links h + carried jso'" using h by (simp add: ac_simps)
  have "links (h(a := None)) = ?r" using r [of None] by (simp add: links_def)
  then show "links (h(a := None)) + carried jso = links h" using h by (simp add: ac_simps)
qed

lemma links_fresh:
  assumes "finite (dom h)" "h a = None"
  shows "links (h(a \<mapsto> jso)) = links h + carried jso"
proof -
  have "a \<notin> dom h" using assms(2) by auto
  moreover have "(\<Sum>b\<in>dom h. carried (the (if b = a then Some jso else h b))) = links h"
    unfolding links_def using calculation by (intro sum.cong) auto
  ultimately show ?thesis using assms(1) by (simp add: links_def ac_simps)
qed

section \<open>Putting a reference\<close>

lemma ownedD:
  assumes "owned ext h"
  shows "finite (dom h)" "h a = Some jso \<Longrightarrow> content_ok (json_content jso)"
    and "h a = Some jso \<Longrightarrow> ref_count jso = int (count (links h + ext) a)"
    and "a \<in># links h + ext \<Longrightarrow> \<exists>jso. h a = Some jso \<and> 0 < ref_count jso"
proof -
  show "finite (dom h)" "h a = Some jso \<Longrightarrow> content_ok (json_content jso)"
    "h a = Some jso \<Longrightarrow> ref_count jso = int (count (links h + ext) a)" using assms by (auto simp: owned_def)
  assume a: "a \<in># links h + ext"
  then obtain jso where "h a = Some jso" using assms unfolding owned_def by blast
  moreover have "0 < count (links h + ext) a" using a by (simp only: count_greater_zero_iff)
  moreover have "ref_count jso = int (count (links h + ext) a)" using assms calculation(1) unfolding owned_def by blast
  ultimately show "\<exists>jso. h a = Some jso \<and> 0 < ref_count jso" by (intro exI [of _ jso]) (simp only: of_nat_0_less_iff)
qed

text \<open>What puts leave: objects may be gone and counts smaller, contents stay, and what waits to be freed is as it was.\<close>

definition below :: "'d json_heap \<Rightarrow> 'd json_heap \<Rightarrow> bool" where
  "below h' h \<longleftrightarrow>
     (\<forall>b jso'. h' b = Some jso' \<longrightarrow>
        (\<exists>jso. h b = Some jso \<and> json_content jso' = json_content jso \<and> ref_count jso' \<le> ref_count jso)) \<and>
     (\<forall>b jso. h b = Some jso \<longrightarrow> ref_count jso = 0 \<longrightarrow> h' b = Some jso) \<and>
     (\<forall>b jso. h' b = Some jso \<longrightarrow> ref_count jso = 0 \<longrightarrow> h b = Some jso)"

definition alive :: "'d json_heap \<Rightarrow> addr set" where
  "alive h = {b. \<exists>jso. h b = Some jso \<and> 0 < ref_count jso}"

lemma below_refl [simp]: "below h h"
  by (auto simp: below_def)

lemma belowD:
  assumes "below h' h"
  shows "h' b = Some jso' \<Longrightarrow> \<exists>jso. h b = Some jso \<and> json_content jso' = json_content jso \<and> ref_count jso' \<le> ref_count jso"
    and "h b = Some jso \<Longrightarrow> ref_count jso = 0 \<Longrightarrow> h' b = Some jso"
    and "h' b = Some jso \<Longrightarrow> ref_count jso = 0 \<Longrightarrow> h b = Some jso"
  using assms unfolding below_def by blast+

lemma belowI:
  assumes "\<And>b jso'. h' b = Some jso' \<Longrightarrow> \<exists>jso. h b = Some jso \<and> json_content jso' = json_content jso \<and> ref_count jso' \<le> ref_count jso"
    and "\<And>b jso. h b = Some jso \<Longrightarrow> ref_count jso = 0 \<Longrightarrow> h' b = Some jso"
    and "\<And>b jso. h' b = Some jso \<Longrightarrow> ref_count jso = 0 \<Longrightarrow> h b = Some jso"
  shows "below h' h"
  using assms unfolding below_def by blast

lemma below_trans:
  assumes "below h2 h1" "below h1 h"
  shows "below h2 h"
proof (rule belowI)
  show "\<exists>jso. h b = Some jso \<and> json_content jso' = json_content jso \<and> ref_count jso' \<le> ref_count jso"
    if "h2 b = Some jso'" for b jso'
    using belowD(1) [OF assms(1) that] belowD(1) [OF assms(2), of b] by fastforce
  show "h2 b = Some jso" if "h b = Some jso" "ref_count jso = 0" for b jso
    using belowD(2) [OF assms(1) belowD(2) [OF assms(2) that] that(2)] .
  show "h b = Some jso" if "h2 b = Some jso" "ref_count jso = 0" for b jso
    using belowD(3) [OF assms(2) belowD(3) [OF assms(1) that] that(2)] .
qed

lemma below_freed:
  assumes "below h2 (h(a \<mapsto> jso\<lparr>ref_count := 0\<rparr>))" "h a = Some jso" "0 < ref_count jso"
  shows "below (h2(a := None)) h"
proof (rule belowI)
  show "\<exists>jso. h b = Some jso \<and> json_content jso' = json_content jso \<and> ref_count jso' \<le> ref_count jso"
    if "(h2(a := None)) b = Some jso'" for b jso'
  proof -
    have b: "b \<noteq> a" "h2 b = Some jso'" using that by (auto split: if_splits)
    show ?thesis using belowD(1) [OF assms(1) b(2)] b(1) by simp
  qed
  show "(h2(a := None)) b = Some ob" if "h b = Some ob" "ref_count ob = 0" for b ob
  proof -
    have b: "b \<noteq> a" using that assms(2,3) by auto
    show ?thesis using belowD(2) [OF assms(1), of b ob] that b by simp
  qed
  show "h b = Some ob" if "(h2(a := None)) b = Some ob" "ref_count ob = 0" for b ob
  proof -
    have b: "b \<noteq> a" "h2 b = Some ob" using that by (auto split: if_splits)
    show ?thesis using belowD(3) [OF assms(1) b(2) that(2)] b(1) by simp
  qed
qed

lemma below_alive:
  assumes "below h' h"
  shows "alive h' \<subseteq> alive h"
proof
  fix b
  assume "b \<in> alive h'"
  then obtain jso' where "h' b = Some jso'" "0 < ref_count jso'" by (auto simp: alive_def)
  moreover then obtain jso where "h b = Some jso" "ref_count jso' \<le> ref_count jso" using belowD(1) [OF assms] by blast
  ultimately show "b \<in> alive h" by (auto simp: alive_def)
qed

lemma alive_dom: "alive h \<subseteq> dom h"
  by (auto simp: alive_def)

text \<open>One reference less, of an object that has more.\<close>

lemma owned_fewer:
  assumes "owned (add_mset a ext) h" "h a = Some jso" "ref_count jso \<noteq> 1"
  shows "owned ext (h(a \<mapsto> jso\<lparr>ref_count := ref_count jso - 1\<rparr>))"
proof -
  let ?jso = "jso\<lparr>ref_count := ref_count jso - 1\<rparr>"
  have c: "ref_count jso = int (count (links h + ext) a) + 1" using ownedD(3) [OF assms(1,2)] by simp
  then have "carried ?jso = carried jso" using assms(3) by (simp add: carried_def)
  then have l: "links (h(a \<mapsto> ?jso)) = links h" using links_update(1) [OF ownedD(1) [OF assms(1)] assms(2), of ?jso] by simp
  show ?thesis
    unfolding owned_def l using assms(1,2) c by (auto simp: owned_def)
qed

text \<open>The last reference: what the object carried is now in the hands of its destructor.\<close>

lemma owned_last:
  assumes "owned (add_mset a ext) h" "h a = Some jso" "ref_count jso = 1"
  defines "h' \<equiv> h(a \<mapsto> jso\<lparr>ref_count := 0\<rparr>)"
  shows "owned (mset (kids (json_content jso)) + ext) h'" "a \<notin># links h + ext" "alive h' = alive h - {a}"
proof -
  have c: "count (links h + ext) a = 0" using ownedD(3) [OF assms(1,2)] assms(3) by simp
  then show "a \<notin># links h + ext" by (simp only: count_eq_zero_iff not_False_eq_True)
  have "links h' + mset (kids (json_content jso)) = links h"
    using links_update(1) [OF ownedD(1) [OF assms(1)] assms(2), of "jso\<lparr>ref_count := 0\<rparr>"] assms(3) by (simp add: h'_def carried_def)
  then have all: "links h' + (mset (kids (json_content jso)) + ext) = links h + ext" by (simp add: ac_simps)
  show "owned (mset (kids (json_content jso)) + ext) h'"
    unfolding owned_def all using assms(1,2) c by (auto simp: owned_def h'_def)
  show "alive h' = alive h - {a}" by (auto simp: alive_def h'_def split: if_splits)
qed

text \<open>An object without a reference is freed, and nothing else changes.\<close>

lemma owned_freed:
  assumes "owned ext h" "h a = Some jso" "ref_count jso = 0"
  shows "owned ext (h(a := None))"
proof -
  have l: "links (h(a := None)) = links h" using links_update(2) [OF ownedD(1) [OF assms(1)] assms(2)] assms(3) by (simp add: carried_def)
  have "a \<notin># links h + ext" using ownedD(3) [OF assms(1,2)] assms(3) by (simp add: not_in_iff)
  then show ?thesis unfolding owned_def l using assms(1) by (auto simp: owned_def)
qed

lemma each_put_ok:
  assumes "\<And>a ext h. owned (add_mset a ext) h \<Longrightarrow> alive h \<subseteq> A \<Longrightarrow> \<exists>h'. put a h = Ret h' \<and> owned ext h' \<and> below h' h"
    and "owned (mset as + ext) h" "alive h \<subseteq> A"
  shows "\<exists>h'. each_put put as h = Ret h' \<and> owned ext h' \<and> below h' h"
  using assms(2,3)
proof (induction as arbitrary: h)
  case (Cons a as)
  then obtain h1 where h1: "put a h = Ret h1" "owned (mset as + ext) h1" "below h1 h" using assms(1) [of a "mset as + ext" h] by auto
  then have "alive h1 \<subseteq> A" using Cons.prems(2) below_alive by blast
  from Cons.IH [OF h1(2) this] h1 show ?case by (auto intro: below_trans)
qed auto

lemma put_n_ok:
  assumes "owned (add_mset a ext) h" "card (alive h) < n"
  shows "\<exists>h'. json_object_put_n n a h = Ret h' \<and> owned ext h' \<and> below h' h"
  using assms
proof (induction n arbitrary: a ext h)
  case (Suc n)
  obtain jso where jso: "h a = Some jso" "0 < ref_count jso" using ownedD(4) [OF Suc.prems(1), of a] by auto
  let ?h = "h(a \<mapsto> jso\<lparr>ref_count := ref_count jso - 1\<rparr>)"
  have min: "ref_count jso \<noteq> INT_MIN" using jso(2) by simp
  show ?case
  proof (cases "ref_count jso = 1")
    case False
    then have "json_object_put_n (Suc n) a h = Ret ?h" using jso min by (simp add: deref_def Let_def)
    moreover have "below ?h h" by (rule belowI) (use jso False in \<open>auto split: if_splits\<close>)
    ultimately show ?thesis using owned_fewer [OF Suc.prems(1) jso(1) False] by blast
  next
    case True
    let ?h1 = "h(a \<mapsto> jso\<lparr>ref_count := 0\<rparr>)"
    note last = owned_last [OF Suc.prems(1) jso(1) True]
    have kids: "held (json_content jso) = Ret (kids (json_content jso))"
      using held_kids ownedD(2) [OF Suc.prems(1) jso(1)] by blast
    have fin: "finite (alive h)" using ownedD(1) [OF Suc.prems(1)] alive_dom finite_subset by metis
    have "a \<in> alive h" using jso by (auto simp: alive_def)
    then have less: "card (alive ?h1) < card (alive h)" unfolding last(3) using fin by (intro card_Diff1_less)
    have "finite (alive ?h1)" using fin last(3) by simp
    then have "card (alive h') < n" if "alive h' \<subseteq> alive ?h1" for h' :: "'a json_heap"
      using card_mono [OF _ that] less Suc.prems(2) by simp
    then have puts: "\<exists>h''. json_object_put_n n b h' = Ret h'' \<and> owned e h'' \<and> below h'' h'"
      if "owned (add_mset b e) h'" "alive h' \<subseteq> alive ?h1" for b e and h' :: "'a json_heap"
      using Suc.IH [OF that(1)] that(2) by blast
    obtain h2 where h2: "each_put (json_object_put_n n) (kids (json_content jso)) ?h1 = Ret h2" "owned ext h2" "below h2 ?h1"
      using each_put_ok [where put = "json_object_put_n n" and A = "alive ?h1", OF puts last(1)] by blast
    have z: "h2 a = Some (jso\<lparr>ref_count := 0\<rparr>)" using h2(3) by (simp add: below_def)
    have "json_object_put_n (Suc n) a h = Ret (h2(a := None))"
      using jso(1) True min kids h2(1) z by (simp add: deref_def json_object_delete_def Let_def)
    moreover have "owned ext (h2(a := None))" using owned_freed [OF h2(2) z] by simp
    moreover have "below (h2(a := None)) h" by (rule below_freed [OF h2(3) jso])
    ultimately show ?thesis by blast
  qed
qed simp

lemma put_at_ok:
  assumes "owned (add_mset a ext) h"
  shows "\<exists>h'. put_at a h = Ret h' \<and> owned ext h' \<and> below h' h"
  unfolding put_at_def
  by (rule put_n_ok [OF assms]) (metis alive_dom assms card_mono le_imp_less_Suc ownedD(1))

lemma each_put_at_ok:
  "owned (mset as + ext) h \<Longrightarrow> \<exists>h'. each_put put_at as h = Ret h' \<and> owned ext h' \<and> below h' h"
  by (rule each_put_ok [where A = UNIV]) (use put_at_ok in auto)

section \<open>Stores keep the counts\<close>

text \<open>The reference a pointer gives, if it is one.\<close>

definition given :: "addr option \<Rightarrow> addr multiset" where
  "given v = (case v of None \<Rightarrow> {#} | Some a \<Rightarrow> {#a#})"

lemma given_simps [simp]: "given None = {#}" "given (Some a) = {#a#}"
  by (simp_all add: given_def)

definition live :: "'d json_heap \<Rightarrow> bool" where
  "live h \<longleftrightarrow> (\<forall>b jso. h b = Some jso \<longrightarrow> ref_count jso \<noteq> 0)"

lemma below_live: "below h' h \<Longrightarrow> live h \<Longrightarrow> live h'"
  unfolding live_def using belowD(3) by blast

lemma owned_store:
  assumes "owned ext h" "h a = Some jso" "0 < ref_count jso" "content_ok c"
    and "mset (kids c) + ext' = mset (kids (json_content jso)) + ext"
  shows "owned ext' (h(a \<mapsto> jso\<lparr>json_content := c\<rparr>))"
proof -
  let ?h = "h(a \<mapsto> jso\<lparr>json_content := c\<rparr>)"
  have "links ?h + mset (kids (json_content jso)) = links h + mset (kids c)"
    using links_update(1) [OF ownedD(1) [OF assms(1)] assms(2), of "jso\<lparr>json_content := c\<rparr>"] assms(3) by (simp add: carried_def)
  then have "links ?h + mset (kids (json_content jso)) + ext' = links h + (mset (kids (json_content jso)) + ext)"
    using assms(5) by (simp add: ac_simps)
  then have all: "links ?h + ext' = links h + ext" by (simp add: ac_simps)
  show ?thesis unfolding owned_def all using assms(1,2,4) by (auto simp: owned_def)
qed

lemma owned_in_ext: "owned ext h \<Longrightarrow> a \<in># ext \<Longrightarrow> \<exists>jso. h a = Some jso \<and> 0 < ref_count jso"
  by (rule ownedD(4)) auto

text \<open>Storing a content whose references, with those that are then dropped, are the old ones and those that were given.\<close>

lemma store_and_put:
  assumes "owned ext h" "live h" "a \<in># ext" "h a = Some jso" "content_ok c" "v \<subseteq># ext"
    and "mset (kids c) + mset dropped = mset (kids (json_content jso)) + v" "a \<in># ext - v \<or> dropped = []"
  shows "\<exists>h'. and_then (set_content a c h) (\<lambda>h. and_then (each_put put_at dropped h) (\<lambda>h. and_then (deref h a) (\<lambda>_. Ret h))) = Ret h' \<and>
    owned (ext - v) h' \<and> live h' \<and> (\<exists>jso'. h' a = Some jso' \<and> json_content jso' = c)"
proof -
  let ?h = "h(a \<mapsto> jso\<lparr>json_content := c\<rparr>)"
  have pos: "0 < ref_count jso" using owned_in_ext [OF assms(1,3)] assms(4) by auto
  have "mset (kids c) + (mset dropped + (ext - v)) = mset (kids (json_content jso)) + ext"
    using assms(6,7) by (metis (no_types) add.assoc subset_mset.add_diff_inverse)
  from owned_store [OF assms(1,4) pos assms(5) this] have o1: "owned (mset dropped + (ext - v)) ?h" .
  from each_put_at_ok [OF o1] obtain h' where
    h': "each_put put_at dropped ?h = Ret h'" "owned (ext - v) h'" "below h' ?h" by blast
  have "live ?h" using assms(2,4) by (auto simp: live_def split: if_splits)
  then have live: "live h'" using below_live [OF h'(3)] by blast
  have "\<exists>jso'. h' a = Some jso'"
  proof (cases "dropped = []")
    case True
    then show ?thesis using h'(1) by auto
  next
    case False
    then show ?thesis using owned_in_ext [OF h'(2)] assms(8) by blast
  qed
  then obtain jso' where "h' a = Some jso'" by blast
  moreover from belowD(1) [OF h'(3) this] have "json_content jso' = c" by auto
  ultimately show ?thesis using h' live assms(4) by (simp add: set_content_def deref_def)
qed

lemma table_kids_deleted:
  assumes "distinct (map fst es)"
  shows "mset (List.map_filter snd (filter (\<lambda>e. fst e \<noteq> k) es)) +
    mset (List.map_filter snd (case map_of es k of None \<Rightarrow> [] | Some v \<Rightarrow> [(k, v)])) = mset (List.map_filter snd es)"
  using assms
proof (induction es)
  case (Cons e es)
  obtain k' v where e: "e = (k', v)" by (cases e)
  show ?case
  proof (cases "k' = k")
    case True
    then have "filter (\<lambda>e. fst e \<noteq> k) es = es" using Cons.prems e by (intro filter_absent) auto
    then show ?thesis using True e by (cases v) (simp_all add: map_filter_simps)
  next
    case False
    then show ?thesis using Cons e by (cases v) (simp_all add: map_filter_simps)
  qed
qed (simp add: map_filter_simps)

lemma map_filter_snoc: "List.map_filter f (xs @ [x]) = List.map_filter f xs @ (case f x of None \<Rightarrow> [] | Some y \<Rightarrow> [y])"
  by (induction xs) (simp_all add: map_filter_simps split: option.splits)

definition searchable :: "(string, addr) lh_table \<Rightarrow> string \<Rightarrow> bool" where
  "searchable t key \<longleftrightarrow> key \<in> fst ` set (lh_entries t) \<or> lh_has_empty t"

lemma del_ok:
  assumes "owned ext h" "live h" "a \<in># ext" "object_of a h = Ret t" "searchable t key"
  shows "\<exists>h' t'. heap_object_del a key h = Ret h' \<and> owned ext h' \<and> live h' \<and> object_of a h' = Ret t' \<and>
    lh_entries t' = filter (\<lambda>e. fst e \<noteq> key) (lh_entries t)"
proof -
  from assms(4) obtain jso where jso: "h a = Some jso" "json_content jso = CObject t"
    by (cases "h a") (auto simp: object_of_def deref_def split: content.splits)
  have t: "lh_map_ok t" using ownedD(2) [OF assms(1) jso(1)] jso(2) by simp
  from delete_contract [OF t, of key] assms(5) obtain t1 where
    t1: "lh_table_delete t key = Ret (if key \<in> fst ` set (lh_entries t) then 0 else - 1, t1)" "lh_map_ok t1"
      "lh_entries t1 = filter (\<lambda>e. fst e \<noteq> key) (lh_entries t)"
      "lh_freed t1 = lh_freed t @ (case map_of (lh_entries t) key of None \<Rightarrow> [] | Some v \<Rightarrow> [(key, v)])"
    unfolding searchable_def by blast
  let ?d = "dropped_values t (lh_freed t1)"
  have "mset (kids (CObject t1)) + mset ?d = mset (kids (json_content jso)) + {#}"
    using table_kids_deleted [OF map_ok_distinct [OF t], of key] t1(3,4) jso(2) by (simp add: dropped_values_def)
  from store_and_put [OF assms(1,2,3) jso(1) _ _ this] t1(2) assms(3) obtain h' where
    h': "and_then (set_content a (CObject t1) h) (\<lambda>h. and_then (each_put put_at ?d h) (\<lambda>h. and_then (deref h a) (\<lambda>_. Ret h))) = Ret h'"
      "owned ext h'" "live h'" "\<exists>jso'. h' a = Some jso' \<and> json_content jso' = CObject t1" by auto
  then have "object_of a h' = Ret t1" by (auto simp: object_of_def deref_def)
  then show ?thesis using h' t1 assms(4) by (auto simp: heap_object_del_def)
qed

lemma add_ok:
  assumes "owned ext h" "live h" "a \<in># ext" "given v \<subseteq># ext" "object_of a h = Ret t" "searchable t key"
  shows "\<exists>h'. heap_object_add a key v h = Ret h' \<and> owned (ext - given v) h' \<and> live h'"
proof -
  from del_ok [OF assms(1-3,5,6)] obtain h1 t1 where
    h1: "heap_object_del a key h = Ret h1" "owned ext h1" "live h1" "object_of a h1 = Ret t1"
      "lh_entries t1 = filter (\<lambda>e. fst e \<noteq> key) (lh_entries t)" by blast
  from h1(4) obtain jso where jso: "h1 a = Some jso" "json_content jso = CObject t1"
    by (cases "h1 a") (auto simp: object_of_def deref_def split: content.splits)
  have ok: "lh_map_ok t1" using ownedD(2) [OF h1(2) jso(1)] jso(2) by simp
  have "key \<notin> fst ` set (lh_entries t1)" using h1(5) by auto
  from lh.ins_appends [OF ok this, of v] obtain t2 where
    t2: "lh_table_insert t1 key v = Ret t2" "lh_map_ok t2" "lh_entries t2 = lh_entries t1 @ [(key, v)]" by blast
  have pos: "0 < ref_count jso" using owned_in_ext [OF h1(2) assms(3)] jso(1) by auto
  have "mset (kids (CObject t2)) = mset (kids (json_content jso)) + given v"
    using jso(2) t2(3) by (cases v) (simp_all add: map_filter_snoc)
  then have "mset (kids (CObject t2)) + (ext - given v) = mset (kids (json_content jso)) + ext"
    using assms(4) by (metis (no_types) add.assoc subset_mset.add_diff_inverse)
  from owned_store [OF h1(2) jso(1) pos _ this] t2(2) have "owned (ext - given v) (h1(a \<mapsto> jso\<lparr>json_content := CObject t2\<rparr>))" by simp
  moreover have "live (h1(a \<mapsto> jso\<lparr>json_content := CObject t2\<rparr>))" using h1(3) jso(1) by (auto simp: live_def)
  ultimately show ?thesis using h1(1,4) jso(1) t2(1) by (simp add: heap_object_add_def set_content_def deref_def)
qed

lemma get_ok:
  assumes "owned ext h" "live h" "object_of a h = Ret t" "searchable t key"
  shows "\<exists>v h'. heap_object_get a key h = Ret (v, h') \<and> owned ext h' \<and> live h'"
proof -
  from assms(3) obtain jso where jso: "h a = Some jso" "json_content jso = CObject t"
    by (cases "h a") (auto simp: object_of_def deref_def split: content.splits)
  have t: "lh_map_ok t" using ownedD(2) [OF assms(1) jso(1)] jso(2) by simp
  from lookup_contract [OF t, of key] assms(4) obtain v t1 where
    t1: "lh_table_lookup t key = Ret (v, t1)" "lh_map_ok t1" "lh_entries t1 = lh_entries t" unfolding searchable_def by blast
  have "0 \<le> ref_count jso" using ownedD(3) [OF assms(1) jso(1)] by simp
  then have pos: "0 < ref_count jso" using assms(2) jso(1) by (fastforce simp: live_def)
  have "mset (kids (CObject t1)) + ext = mset (kids (json_content jso)) + ext" using jso(2) t1(3) by simp
  from owned_store [OF assms(1) jso(1) pos _ this] t1(2) have "owned ext (h(a \<mapsto> jso\<lparr>json_content := CObject t1\<rparr>))" by simp
  moreover have "live (h(a \<mapsto> jso\<lparr>json_content := CObject t1\<rparr>))" using assms(2) jso(1) by (auto simp: live_def)
  ultimately show ?thesis
    using assms(3) jso(1) t1(1) by (simp add: heap_object_get_def json_object_object_get_def set_content_def deref_def)
qed

section \<open>Arrays\<close>

lemma padded_nth: "j < length xs + k \<Longrightarrow> (xs @ replicate k None) ! j = (if j < length xs then xs ! j else None)"
  by (auto simp: nth_append)

lemma put_idx_freed:
  assumes "al_inv arr" "al_size arr * 2 \<le> INT_MAX" "0 \<le> i" "array_list_put_idx M arr i x = Ret (0, arr')"
  shows "al_freed arr' = al_freed arr @ free_slots [if nat i < length (items arr) then items arr ! nat i else None]"
proof -
  obtain n where n: "array_list_expand_internal M arr i =
      Ret (0, arr\<lparr>al_array := al_array arr @ replicate (nat (n - al_size arr)) None, al_size := n\<rparr>)" "al_size arr \<le> n"
    using expand_cases [OF assms(1,2), of M i] assms(4) by (auto simp: array_list_put_idx_def)
  let ?g = "arr\<lparr>al_array := al_array arr @ replicate (nat (n - al_size arr)) None, al_size := n\<rparr>"
  have g: "al_inv ?g" "items ?g = items arr" using items_expand [OF assms(1) n(2)] .
  have i: "i < int (length (al_array ?g))" and freed: "al_freed arr' = al_freed arr @ free_slots [al_array ?g ! nat i]"
    using assms(3,4) n(1) by (auto simp: array_list_put_idx_def split: if_splits)
  have "nat i < length (items arr) + nat (n - al_length arr)"
    using i assms(3) al_array_split(1) [OF g(1)] g(2) by (simp split: if_splits) linarith?
  then have "al_array ?g ! nat i = (if nat i < length (items arr) then items arr ! nat i else None)"
    unfolding al_array_split(1) [OF g(1)] g(2) by (intro padded_nth) simp
  then show ?thesis using freed by simp
qed

lemma stored_kids:
  "mset (free_slots (stored xs i x)) + mset (free_slots [if i < length xs then xs ! i else None]) =
    mset (free_slots xs) + given x"
proof (cases "i < length xs")
  case True
  have "free_slots (v # ys) = free_slots [v] @ free_slots ys" for v :: "addr option" and ys by (cases v) auto
  note slots = free_slots_append this
  have "mset (free_slots xs) = mset (free_slots (take i xs @ xs ! i # drop (Suc i) xs))"
    using True by (simp only: id_take_nth_drop [symmetric])
  also have "\<dots> = mset (free_slots (take i xs)) + mset (free_slots [xs ! i]) + mset (free_slots (drop (Suc i) xs))"
    unfolding slots(1) slots(2) [of "xs ! i" "drop (Suc i) xs"] by simp
  finally have "mset (free_slots xs) = \<dots>" .
  moreover have "mset (free_slots (stored xs i x)) = mset (free_slots (take i xs)) + given x + mset (free_slots (drop (Suc i) xs))"
    using True by (cases x) (simp_all add: stored_def upd_conv_take_nth_drop free_slots_append)
  ultimately show ?thesis using True by (simp add: ac_simps)
next
  case False
  then show ?thesis by (cases x) (simp_all add: stored_def free_slots_append)
qed

lemma array_put_ok:
  assumes "owned ext h" "live h" "array_of a h = Ret arr" "a \<in># ext - given v" "given v \<subseteq># ext"
    and "al_size arr * 2 \<le> INT_MAX" "0 \<le> i" "i < al_size arr * 2"
  shows "\<exists>rc h'. heap_array_put_idx M a i v h = Ret (rc, h') \<and> owned (if rc = 0 then ext - given v else ext) h' \<and> live h'"
proof -
  from assms(3) obtain jso where jso: "h a = Some jso" "json_content jso = CArray (Some arr)"
    by (cases "h a") (auto simp: array_of_def deref_def split: content.splits option.splits)
  have arr: "al_inv arr" using ownedD(2) [OF assms(1) jso(1)] jso(2) by simp
  have ext: "a \<in># ext" using assms(4) by (meson in_diffD)
  from put_idx_cases [OF arr assms(6-8), of M v] show ?thesis
  proof (elim disjE exE conjE)
    assume fail: "array_list_put_idx M arr i v = Ret (- 1, arr)"
    have "h(a \<mapsto> jso\<lparr>json_content := CArray (Some arr)\<rparr>) = h" using jso by (auto simp: fun_eq_iff)
    then show ?thesis
      using fail jso assms(1-3)
      by (simp add: heap_array_put_idx_def json_object_array_put_idx_def set_content_def deref_def)
  next
    fix arr'
    assume put: "array_list_put_idx M arr i v = Ret (0, arr')" and arr': "al_inv arr'" "items arr' = stored (items arr) (nat i) v"
    let ?d = "drop (length (al_freed arr)) (al_freed arr')"
    have "mset (kids (CArray (Some arr'))) + mset ?d = mset (kids (json_content jso)) + given v"
      using stored_kids [of "items arr" "nat i" v] put_idx_freed [OF arr assms(6,7) put] arr'(2) jso(2) by simp
    from store_and_put [OF assms(1,2) ext jso(1) _ assms(5) this] arr'(1) assms(4) obtain h' where
      "and_then (set_content a (CArray (Some arr')) h) (\<lambda>h. and_then (each_put put_at ?d h) (\<lambda>h. and_then (deref h a) (\<lambda>_. Ret h))) = Ret h'"
      "owned (ext - given v) h'" "live h'" by auto
    then show ?thesis
      using assms(3) put by (auto simp: heap_array_put_idx_def json_object_array_put_idx_def outcome_simps)
  qed
qed


section \<open>Sessions\<close>

text \<open>The calls of a client, with what the allocator answers.\<close>

datatype 'd call =
  New_object "addr option"
| New_array "addr option mem" "addr option"
| New_boolean "addr option" int
| New_int "addr option" int
| New_double "addr option" 'd
| New_string "addr option" string
| New_string_len "addr option" string int
| Get "addr option"
| Put "addr option"
| Object_add addr string "addr option"
| Object_get addr string
| Object_del addr string
| Array_add "addr option mem" addr "addr option"
| Array_put_idx "addr option mem" addr int "addr option"
| Array_get_idx addr int

datatype reply = Pointer "addr option" | Code int | Nothing

fun call_run :: "'d call \<Rightarrow> 'd json_heap \<Rightarrow> (reply \<times> 'd json_heap) outcome" where
  "call_run (New_object fresh) h = (let (p, h') = heap_new_object fresh h in Ret (Pointer p, h'))"
| "call_run (New_array M fresh) h = (let (p, h') = heap_new_array M fresh h in Ret (Pointer p, h'))"
| "call_run (New_boolean fresh b) h = (let (p, h') = json_object_new_boolean fresh b h in Ret (Pointer p, h'))"
| "call_run (New_int fresh i) h = (let (p, h') = json_object_new_int fresh i h in Ret (Pointer p, h'))"
| "call_run (New_double fresh d) h = (let (p, h') = json_object_new_double fresh d h in Ret (Pointer p, h'))"
| "call_run (New_string fresh s) h = (let (p, h') = json_object_new_string fresh s h in Ret (Pointer p, h'))"
| "call_run (New_string_len fresh s len) h = (let (p, h') = json_object_new_string_len fresh s len h in Ret (Pointer p, h'))"
| "call_run (Get jso) h = and_then (json_object_get jso h) (\<lambda>(p, h'). Ret (Pointer p, h'))"
| "call_run (Put jso) h = and_then (json_object_put jso h) (\<lambda>h'. Ret (Nothing, h'))"
| "call_run (Object_add a key v) h = and_then (heap_object_add a key v h) (\<lambda>h'. Ret (Nothing, h'))"
| "call_run (Object_get a key) h = and_then (heap_object_get a key h) (\<lambda>(p, h'). Ret (Pointer p, h'))"
| "call_run (Object_del a key) h = and_then (heap_object_del a key h) (\<lambda>h'. Ret (Nothing, h'))"
| "call_run (Array_add M a v) h = and_then (heap_array_add M a v h) (\<lambda>(rc, h'). Ret (Code rc, h'))"
| "call_run (Array_put_idx M a i v) h = and_then (heap_array_put_idx M a i v h) (\<lambda>(rc, h'). Ret (Code rc, h'))"
| "call_run (Array_get_idx a i) h = and_then (heap_array_get_idx a i h) (\<lambda>p. Ret (Pointer p, h))"

text \<open>The references the client has after a call: it owns what it creates and what it gets, and gives away what it puts and
  what it stores, unless the array could not grow.  What a table or an array answers is borrowed.\<close>

fun after :: "'d call \<Rightarrow> reply \<Rightarrow> addr multiset \<Rightarrow> addr multiset" where
  "after (Get jso) rep ext = ext + given jso"
| "after (Put jso) rep ext = ext - given jso"
| "after (Object_add a key v) rep ext = ext - given v"
| "after (Object_get a key) rep ext = ext"
| "after (Array_add M a v) rep ext = (if rep = Code 0 then ext - given v else ext)"
| "after (Array_put_idx M a i v) rep ext = (if rep = Code 0 then ext - given v else ext)"
| "after (Array_get_idx a i) rep ext = ext"
| "after (Object_del a key) rep ext = ext"
| "after _ rep ext = (case rep of Pointer p \<Rightarrow> ext + given p | _ \<Rightarrow> ext)"

definition unused :: "addr option \<Rightarrow> 'd json_heap \<Rightarrow> bool" where
  "unused fresh h \<longleftrightarrow> (case fresh of None \<Rightarrow> True | Some a \<Rightarrow> h a = None)"

definition is_object :: "addr \<Rightarrow> string \<Rightarrow> 'd json_heap \<Rightarrow> bool" where
  "is_object a key h \<longleftrightarrow> (case object_of a h of Ret t \<Rightarrow> searchable t key | _ \<Rightarrow> False)"

definition is_array :: "addr \<Rightarrow> 'd json_heap \<Rightarrow> bool" where
  "is_array a h \<longleftrightarrow> (case array_of a h of Ret _ \<Rightarrow> True | _ \<Rightarrow> False)"

definition fits :: "addr \<Rightarrow> int \<Rightarrow> 'd json_heap \<Rightarrow> bool" where
  "fits a i h \<longleftrightarrow>
     (case array_of a h of Ret arr \<Rightarrow> al_size arr * 2 \<le> INT_MAX \<and> 0 \<le> i \<and> i < al_size arr * 2 | _ \<Rightarrow> False)"

definition next_index :: "addr \<Rightarrow> 'd json_heap \<Rightarrow> int" where
  "next_index a h = (case array_of a h of Ret arr \<Rightarrow> al_length arr | _ \<Rightarrow> 0)"

text \<open>What a client must see to: only what it owns is put, stored or got again; an object it changes is its own, even after it
  has given the value away; the type is right; the index is not negative and at most doubles the array; and the search for a
  key ends, which it does unless no slot of the table is empty and the key is not there.\<close>

fun allowed :: "'d call \<Rightarrow> addr multiset \<Rightarrow> 'd json_heap \<Rightarrow> bool" where
  "allowed (New_object fresh) ext h = unused fresh h"
| "allowed (New_array M fresh) ext h = (unused fresh h \<and> json_object_new_array M \<noteq> None)"
| "allowed (New_boolean fresh b) ext h = unused fresh h"
| "allowed (New_int fresh i) ext h = unused fresh h"
| "allowed (New_double fresh d) ext h = unused fresh h"
| "allowed (New_string fresh s) ext h = unused fresh h"
| "allowed (New_string_len fresh s len) ext h = unused fresh h"
| "allowed (Get jso) ext h =
     (case jso of None \<Rightarrow> True | Some a \<Rightarrow> (case h a of None \<Rightarrow> False | Some ob \<Rightarrow> ref_count ob < INT_MAX))"
| "allowed (Put jso) ext h = (given jso \<subseteq># ext)"
| "allowed (Object_add a key v) ext h = (a \<in># ext \<and> given v \<subseteq># ext \<and> is_object a key h)"
| "allowed (Object_get a key) ext h = is_object a key h"
| "allowed (Object_del a key) ext h = (a \<in># ext \<and> is_object a key h)"
| "allowed (Array_add M a v) ext h = (a \<in># ext - given v \<and> given v \<subseteq># ext \<and> fits a (next_index a h) h)"
| "allowed (Array_put_idx M a i v) ext h = (a \<in># ext - given v \<and> given v \<subseteq># ext \<and> fits a i h)"
| "allowed (Array_get_idx a i) ext h = (0 \<le> i \<and> is_array a h)"

inductive json_reach :: "addr multiset \<Rightarrow> 'd json_heap \<Rightarrow> bool" where
  start: "json_reach {#} Map.empty"
| step: "json_reach ext h \<Longrightarrow> allowed c ext h \<Longrightarrow> call_run c h = Ret (rep, h') \<Longrightarrow> json_reach (after c rep ext) h'"

lemma new_ok:
  assumes "owned ext h" "live h" "unused fresh h" "content_ok c" "kids c = []" "json_object_new fresh c h = (p, h')"
  shows "owned (ext + given p) h' \<and> live h'"
proof (cases fresh)
  case None
  then show ?thesis using assms by (simp add: json_object_new_def)
next
  case (Some a)
  then have a: "h a = None" and p: "p = Some a" and h': "h' = h(a \<mapsto> \<lparr>ref_count = 1, json_content = c\<rparr>)"
    using assms(3,6) by (simp_all add: unused_def json_object_new_def)
  have l: "links h' = links h" unfolding h' using links_fresh [OF ownedD(1) [OF assms(1)] a] assms(5) by (simp add: carried_def)
  have "a \<notin># links h + ext" using ownedD(4) [OF assms(1)] a by fastforce
  then have c: "count (links h + ext) a = 0" by (simp only: count_eq_zero_iff not_False_eq_True)
  have "owned (ext + given p) h'" unfolding owned_def l p given_simps using assms(1,4) c by (auto simp: owned_def h')
  then show ?thesis using assms(2) h' by (auto simp: live_def)
qed

lemma new_call:
  assumes "owned ext h" "live h" "unused fresh h" "content_ok cn" "kids cn = []"
    and "call_run c h = (let (p, h') = json_object_new fresh cn h in Ret (Pointer p, h'))"
    and "\<And>p. after c (Pointer p) ext = ext + given p"
  shows "\<exists>rep h'. call_run c h = Ret (rep, h') \<and> owned (after c rep ext) h' \<and> live h'"
proof -
  obtain p h' where "json_object_new fresh cn h = (p, h')" by (cases "json_object_new fresh cn h")
  moreover from new_ok [OF assms(1-5) this] have "owned (after c (Pointer p) ext) h'" "live h'" unfolding assms(7) by auto
  ultimately show ?thesis using assms(6) by auto
qed

lemma object_get_ok:
  assumes "owned ext h" "live h" "allowed (Get jso) ext h"
  shows "\<exists>h'. json_object_get jso h = Ret (jso, h') \<and> owned (ext + given jso) h' \<and> live h'"
proof (cases jso)
  case None
  then show ?thesis using assms by (simp add: json_object_get_def)
next
  case (Some a)
  then obtain ob where ob: "h a = Some ob" "ref_count ob < INT_MAX" using assms(3) by (auto split: option.splits)
  have c: "ref_count ob = int (count (links h + ext) a)" using ownedD(3) [OF assms(1) ob(1)] .
  then have pos: "0 < ref_count ob" using assms(2) ob(1) by (fastforce simp: live_def)
  let ?ob = "ob\<lparr>ref_count := ref_count ob + 1\<rparr>"
  let ?h = "h(a \<mapsto> ?ob)"
  have "carried ?ob = carried ob" using pos by (simp add: carried_def)
  then have l: "links ?h = links h" using links_update(1) [OF ownedD(1) [OF assms(1)] ob(1), of ?ob] by simp
  have "owned (ext + given jso) ?h" unfolding owned_def l Some given_simps using assms(1) ob(1) c by (auto simp: owned_def)
  moreover have "live ?h" using assms(2) pos by (auto simp: live_def)
  ultimately show ?thesis using Some ob by (auto simp: json_object_get_def deref_def)
qed

lemma object_put_ok:
  assumes "owned ext h" "live h" "given jso \<subseteq># ext"
  shows "\<exists>h'. json_object_put jso h = Ret h' \<and> owned (ext - given jso) h' \<and> live h'"
proof (cases jso)
  case None
  then show ?thesis using assms by (simp add: json_object_put_def)
next
  case (Some a)
  then have "owned (add_mset a (ext - given jso)) h" using assms(1,3) by simp
  from put_at_ok [OF this] below_live [OF _ assms(2)] Some show ?thesis by (auto simp: json_object_put_def)
qed

lemma new_object_empty [simp]:
  "lh_map_ok (json_object_new_object :: (string, addr) lh_table)" "lh_entries (json_object_new_object :: (string, addr) lh_table) = []"
proof -
  have "lh_map_ok (json_object_new_object :: (string, addr) lh_table) \<and> lh_entries (json_object_new_object :: (string, addr) lh_table) = []"
    unfolding json_object_new_object_def lh_kchar_table_new_def JSON_OBJECT_DEF_HASH_ENTRIES_def by (rule new_map_ok) simp
  then show "lh_map_ok (json_object_new_object :: (string, addr) lh_table)"
    "lh_entries (json_object_new_object :: (string, addr) lh_table) = []" by simp_all
qed

lemma new_array_empty [simp]:
  assumes "json_object_new_array M = Some arr"
  shows "al_inv arr" "items arr = []"
  using al_inv_new assms by (auto simp: json_object_new_array_def)

lemma is_objectE:
  assumes "is_object a key h"
  obtains t where "object_of a h = Ret t" "searchable t key"
  using assms by (auto simp: is_object_def split: outcome.splits)

lemma fitsE:
  assumes "fits a i h"
  obtains arr where "array_of a h = Ret arr" "al_size arr * 2 \<le> INT_MAX" "0 \<le> i" "i < al_size arr * 2"
  using assms by (auto simp: fits_def split: outcome.splits)

lemma call_ok:
  assumes "owned ext h" "live h" "allowed c ext h"
  shows "\<exists>rep h'. call_run c h = Ret (rep, h') \<and> owned (after c rep ext) h' \<and> live h'"
proof (cases c)
  case (Get jso)
  then show ?thesis using object_get_ok [OF assms(1,2), of jso] assms(3) by fastforce
next
  case (Put jso)
  then show ?thesis using object_put_ok [OF assms(1,2), of jso] assms(3) by fastforce
next
  case (Object_add a key v)
  then show ?thesis using assms(3) add_ok [OF assms(1,2), of a v] by (fastforce elim: is_objectE)
next
  case (Object_get a key)
  then show ?thesis using assms(3) get_ok [OF assms(1,2), of a] by (fastforce elim: is_objectE)
next
  case (Object_del a key)
  then show ?thesis using assms(3) del_ok [OF assms(1,2), of a] by (fastforce elim: is_objectE)
next
  case (Array_put_idx M a i v)
  then have al: "a \<in># ext - given v" "given v \<subseteq># ext" "fits a i h" using assms(3) by auto
  from al(3) obtain arr where arr: "array_of a h = Ret arr" "al_size arr * 2 \<le> INT_MAX" "0 \<le> i" "i < al_size arr * 2" by (rule fitsE)
  from array_put_ok [OF assms(1,2) arr(1) al(1,2) arr(2-4), of M] obtain rc h' where
    "heap_array_put_idx M a i v h = Ret (rc, h')" "owned (if rc = 0 then ext - given v else ext) h'" "live h'" by blast
  then show ?thesis using Array_put_idx by (intro exI [of _ "Code rc"] exI [of _ h']) simp
next
  case (Array_add M a v)
  then have al: "a \<in># ext - given v" "given v \<subseteq># ext" "fits a (next_index a h) h" using assms(3) by auto
  from al(3) obtain arr where arr: "array_of a h = Ret arr" "al_size arr * 2 \<le> INT_MAX" "0 \<le> next_index a h"
    "next_index a h < al_size arr * 2" by (rule fitsE)
  from array_put_ok [OF assms(1,2) arr(1) al(1,2) arr(2-4), of M] obtain rc h' where
    "heap_array_put_idx M a (next_index a h) v h = Ret (rc, h')" "owned (if rc = 0 then ext - given v else ext) h'" "live h'" by blast
  then show ?thesis using Array_add arr(1)
    by (intro exI [of _ "Code rc"] exI [of _ h']) (simp add: heap_array_add_def next_index_def)
next
  case (Array_get_idx a i)
  then obtain arr where arr: "array_of a h = Ret arr" "0 \<le> i" using assms(3) by (auto simp: is_array_def split: outcome.splits)
  then obtain jso where "h a = Some jso" "json_content jso = CArray (Some arr)"
    by (cases "h a") (auto simp: array_of_def deref_def split: content.splits option.splits)
  then have "al_inv arr" using ownedD(2) [OF assms(1)] by fastforce
  then have "array_list_get_idx arr i \<noteq> Undefined" "array_list_get_idx arr i \<noteq> Blocks"
    "array_list_get_idx arr i \<noteq> Aborts"
    using arr(2) by (auto simp: array_list_get_idx_def al_inv_def)
  then obtain v where "array_list_get_idx arr i = Ret v" by (cases "array_list_get_idx arr i") auto
  then show ?thesis using Array_get_idx arr(1) assms(1,2) by (simp add: heap_array_get_idx_def json_object_array_get_idx_def)
next
  case (New_array M fresh)
  show ?thesis
    by (rule new_call [OF assms(1,2), of fresh "CArray (json_object_new_array M)"])
      (use assms(3) New_array in \<open>auto simp: heap_new_array_def\<close>)
next
  case (New_object fresh)
  show ?thesis by (rule new_call [OF assms(1,2), of fresh "CObject json_object_new_object"]) (use assms(3) New_object in \<open>auto simp: heap_new_object_def map_filter_simps\<close>)
next
  case (New_boolean fresh b)
  show ?thesis
    by (rule new_call [OF assms(1,2), of fresh "CBoolean b"]) (use assms(3) New_boolean in \<open>auto simp: json_object_new_boolean_def\<close>)
next
  case (New_int fresh i)
  show ?thesis by (rule new_call [OF assms(1,2), of fresh "CInt i"]) (use assms(3) New_int in \<open>auto simp: json_object_new_int_def\<close>)
next
  case (New_double fresh d)
  show ?thesis
    by (rule new_call [OF assms(1,2), of fresh "CDouble d"]) (use assms(3) New_double in \<open>auto simp: json_object_new_double_def\<close>)
next
  case (New_string fresh s)
  show ?thesis
    by (rule new_call [OF assms(1,2), of fresh "CString s"]) (use assms(3) New_string in \<open>auto simp: json_object_new_string_def\<close>)
next
  case (New_string_len fresh s len)
  show ?thesis
    by (rule new_call [OF assms(1,2), of fresh "CString (if len < 0 then s else take (nat len) s)"])
      (use assms(3) New_string_len in \<open>auto simp: json_object_new_string_len_def\<close>)
qed

text \<open>The graph of the references between objects.\<close>

definition refs :: "'d json_heap \<Rightarrow> (addr \<times> addr) set" where
  "refs h = {(b, a). \<exists>jso. h b = Some jso \<and> a \<in> set (kids (json_content jso))}"

lemma carried_kids:
  assumes "owned ext h" "live h" "h a = Some jso"
  shows "carried jso = mset (kids (json_content jso))"
proof -
  have "0 \<le> ref_count jso" "ref_count jso \<noteq> 0" using ownedD(3) [OF assms(1,3)] assms(2,3) by (auto simp: live_def)
  then show ?thesis by (simp add: carried_def)
qed

lemma links_kids:
  assumes "owned ext h" "live h"
  shows "links h = (\<Sum>b\<in>dom h. mset (kids (json_content (the (h b)))))"
  unfolding links_def by (rule sum.cong) (auto simp: carried_kids [OF assms])

lemma in_links:
  assumes "owned ext h" "live h"
  shows "a \<in># links h \<longleftrightarrow> (\<exists>b. (b, a) \<in> refs h)"
  unfolding links_kids [OF assms] refs_def using ownedD(1) [OF assms(1)] by (force simp: set_mset_sum)

lemma owned_links:
  assumes "owned ext h" "live h"
  shows "finite (dom h) \<and> set_mset ext \<subseteq> dom h \<and>
    (\<forall>a jso. h a = Some jso \<longrightarrow> content_ok (json_content jso) \<and> set (kids (json_content jso)) \<subseteq> dom h \<and>
       ref_count jso = int (count (\<Sum>b\<in>dom h. mset (kids (json_content (the (h b))))) a + count ext a))"
proof -
  have "set (kids (json_content jso)) \<subseteq> dom h" if "h a = Some jso" for a jso
  proof
    fix b
    assume "b \<in> set (kids (json_content jso))"
    then have "b \<in># links h" using in_links [OF assms] that by (auto simp: refs_def)
    then show "b \<in> dom h" using ownedD(4) [OF assms(1), of b] by auto
  qed
  then show ?thesis using assms(1) unfolding links_kids [OF assms, symmetric] by (auto simp: owned_def)
qed

text \<open>Going back along references from an object that is in memory, one comes to the client or around.\<close>

lemma owned_reached:
  assumes "owned ext h \<and> live h" "a \<in> dom h"
  shows "\<exists>r. (r \<in># ext \<or> (r, r) \<in> (refs h)\<^sup>+) \<and> (r, a) \<in> (refs h)\<^sup>*"
proof (rule ccontr)
  assume none: "\<not> ?thesis"
  let ?A = "{b. (b, a) \<in> (refs h)\<^sup>*}"
  let ?R = "{(c, b). (c, b) \<in> refs h \<and> (b, a) \<in> (refs h)\<^sup>*}"
  have "?R \<subseteq> dom h \<times> dom h"
    using assms(1) owned_links [of ext h] by (fastforce simp: refs_def)
  then have fin: "finite ?R" using assms(1) ownedD(1) finite_subset by blast
  have sub: "?R\<^sup>+ \<subseteq> (refs h)\<^sup>+" by (auto elim!: trancl_mono)
  have "acyclic ?R"
  proof (rule acyclicI, intro allI notI)
    fix x
    assume x: "(x, x) \<in> ?R\<^sup>+"
    then obtain y where "(x, y) \<in> ?R" by (meson tranclD)
    then have "(x, a) \<in> (refs h)\<^sup>*" by (auto intro: converse_rtrancl_into_rtrancl)
    with x sub none show False by blast
  qed
  with fin have "wf ?R" by (rule finite_acyclic_wf)
  then obtain b where b: "b \<in> ?A \<inter> dom h" "\<And>c. (c, b) \<in> ?R \<Longrightarrow> c \<notin> ?A \<inter> dom h"
    using assms(2) by (elim wfE_min [where x = a and Q = "?A \<inter> dom h"]) auto
  have "\<exists>c. (c, b) \<in> ?R \<and> c \<in> ?A" if "b \<in> ?A" "b \<in> dom h" for b
  proof -
    from that(2) obtain jso where jso: "h b = Some jso" by auto
    have "ref_count jso = int (count (links h + ext) b)" "ref_count jso \<noteq> 0"
      using assms(1) jso by (auto simp: owned_def live_def)
    then have "0 < count (links h + ext) b" by (simp only: of_nat_eq_0_iff neq0_conv not_False_eq_True)
    then have "b \<in># links h + ext" by (simp only: count_greater_zero_iff)
    moreover have "b \<notin># ext" using none that(1) by blast
    ultimately obtain c where "(c, b) \<in> refs h" using in_links assms(1) by fastforce
    then show ?thesis using that(1) by (auto intro: converse_rtrancl_into_rtrancl)
  qed
  then obtain c where c: "(c, b) \<in> ?R" "c \<in> ?A" using b(1) by blast
  then have "c \<in> dom h" by (auto simp: refs_def)
  with c b(2) show False by blast
qed

lemma reach_owned: "json_reach ext h \<Longrightarrow> owned ext h \<and> live h"
proof (induction rule: json_reach.induct)
  case start
  show ?case by (simp add: owned_def live_def links_def)
next
  case (step ext h c rep h')
  then show ?case using call_ok [of ext h c] by auto
qed

text \<open>Why \<open>allowed\<close> wants the memory for an array to suffice: \<open>json_object_new_array\<close> returns an object whose array it could
  not have, and putting that object reads through \<open>NULL\<close>.\<close>

lemma array_without_block:
  assumes "json_object_new_array M = None" "heap_new_array M (Some a) h = (p, h')"
  shows "p = Some a" "json_object_put p h' = Undefined"
  using assms
  by (auto simp: heap_new_array_def json_object_new_def json_object_put_def put_at_def deref_def json_object_delete_def held_def Let_def)

text \<open>An object and a number, both in the hands of the client, and then the number in the object.\<close>

definition example_heap :: "nat json_heap" where
  "example_heap = [0 \<mapsto> \<lparr>ref_count = 1, json_content = CObject json_object_new_object\<rparr>, 1 \<mapsto> \<lparr>ref_count = 1, json_content = CInt 7\<rparr>]"

lemma example_reached: "json_reach {#0, 1#} example_heap"
proof -
  let ?h = "[0 \<mapsto> \<lparr>ref_count = 1, json_content = CObject json_object_new_object\<rparr>] :: nat json_heap"
  have "json_reach (after (New_object (Some 0) :: nat call) (Pointer (Some 0)) {#}) ?h"
    by (rule step [OF start]) (simp_all add: unused_def heap_new_object_def json_object_new_def)
  then have "json_reach (after (New_int (Some 1) 7 :: nat call) (Pointer (Some 1)) {#0#}) example_heap"
    by (intro step) (simp_all add: unused_def json_object_new_int_def json_object_new_def example_heap_def)
  then show ?thesis by (simp add: add_mset_commute)
qed

lemma example_allowed: "allowed (Object_add 0 ''k'' (Some 1)) {#0, 1#} example_heap"
  by (simp add: is_object_def object_of_def deref_def example_heap_def searchable_def json_object_new_object_def
      lh_kchar_table_new_def JSON_OBJECT_DEF_HASH_ENTRIES_def lh_has_empty_def lh_table_new_def empty_entry_def)

lemma example_stored: "\<exists>h. json_reach {#0#} h \<and> 1 \<in> dom (h :: nat json_heap)"
proof -
  have own: "owned {#0, 1#} example_heap" "live example_heap" using reach_owned [OF example_reached] by auto
  obtain t where t: "object_of 0 example_heap = Ret t" "searchable t ''k''" using example_allowed by (auto elim: is_objectE)
  obtain h1 t1 where h1: "heap_object_del 0 ''k'' example_heap = Ret h1"
      "owned {#0, 1#} h1" "live h1" "object_of 0 h1 = Ret t1" "lh_entries t1 = filter (\<lambda>e. fst e \<noteq> ''k'') (lh_entries t)"
    using del_ok [OF own _ t] by auto
  obtain h' where h': "heap_object_add 0 ''k'' (Some 1) example_heap = Ret h'" using add_ok [OF own _ _ t, of "Some 1"] by auto
  have "1 \<in> dom h1" using h1(2) by (auto simp: owned_def)
  then have "1 \<in> dom h'" using h' h1(1,4)
    by (auto simp: heap_object_add_def set_content_def deref_def outcome_simps split: option.splits)
  moreover have "json_reach (after (Object_add 0 ''k'' (Some 1) :: nat call) Nothing {#0, 1#}) h'"
    using example_reached example_allowed by (rule step) (simp add: h' [unfolded One_nat_def])
  ultimately show ?thesis by auto
qed



text \<open>C19. Nothing leaks but cycles: an object that is still in memory is reached from an object of which the client holds a
  reference, or from an object that reaches itself.  In particular, without cycles a client that has put all it owned has
  left nothing behind.\<close>

theorem json_nothing_leaks:
  assumes "json_reach ext h" "a \<in> dom h"
  shows "\<exists>r. (r \<in># ext \<or> (r, r) \<in> (refs h)\<^sup>+) \<and> (r, a) \<in> (refs h)\<^sup>*"
  using owned_reached reach_owned [OF assms(1)] assms(2) by blast

lemma json_nothing_leaks_witness:
  "\<exists>h. json_reach {#0#} h \<and> 1 \<in> dom h \<and> (\<exists>r. (r = 0 \<or> (r, r) \<in> (refs h)\<^sup>+) \<and> (r, 1) \<in> (refs (h :: nat json_heap))\<^sup>*)"
proof -
  obtain h where h: "json_reach {#0#} h" "1 \<in> dom (h :: nat json_heap)" using example_stored by blast
  show ?thesis using json_nothing_leaks [OF h] h by (intro exI [of _ h]) auto
qed

end
