(* ===== verification/Json_File.thy ===== *)
theory Json_File
  imports Json_Roundtrip
begin

text \<open>
  Values in files, \<open>json-c-0.9/json_util.c\<close>, and where its messages go, \<open>json-c-0.9/debug.c\<close>.  The file system is in the
  arguments: whether the file could be opened, and what the calls of \<open>read\<close> and \<open>write\<close> answer, in their order.  When there
  is no answer left the call does not come back.
\<close>

section \<open>Messages\<close>

record debug_flags =
  dbg_syslog :: int
  dbg_debug :: int

datatype sink = Syslog_err | Syslog_debug | Syslog_info | Stdout | Stderr

definition mc_flags :: debug_flags where
  "mc_flags = \<lparr>dbg_syslog = 0, dbg_debug = 0\<rparr>"

definition mc_set_debug :: "int \<Rightarrow> debug_flags \<Rightarrow> debug_flags" where
  "mc_set_debug debug fl = fl\<lparr>dbg_debug := debug\<rparr>"

definition mc_get_debug :: "debug_flags \<Rightarrow> int" where
  "mc_get_debug fl = dbg_debug fl"

definition mc_set_syslog :: "int \<Rightarrow> debug_flags \<Rightarrow> debug_flags" where
  "mc_set_syslog syslog fl = fl\<lparr>dbg_syslog := syslog\<rparr>"

text \<open>Where a message goes; \<open>vsyslog\<close> says that the system has that function.\<close>

definition mc_debug :: "bool \<Rightarrow> debug_flags \<Rightarrow> sink option" where
  "mc_debug vsyslog fl =
     (if dbg_debug fl \<noteq> 0 then Some (if vsyslog \<and> dbg_syslog fl \<noteq> 0 then Syslog_debug else Stdout) else None)"

definition mc_error :: "bool \<Rightarrow> debug_flags \<Rightarrow> sink" where
  "mc_error vsyslog fl = (if vsyslog \<and> dbg_syslog fl \<noteq> 0 then Syslog_err else Stderr)"

definition mc_info :: "bool \<Rightarrow> debug_flags \<Rightarrow> sink" where
  "mc_info vsyslog fl = (if vsyslog \<and> dbg_syslog fl \<noteq> 0 then Syslog_info else Stderr)"

text \<open>The last message of the process, and the end of it.\<close>

definition mc_abort :: "bool \<Rightarrow> debug_flags \<Rightarrow> sink \<times> 'a outcome" where
  "mc_abort vsyslog fl = (if vsyslog \<and> dbg_syslog fl \<noteq> 0 then Syslog_err else Stdout, Aborts)"

section \<open>Reading\<close>

definition JSON_FILE_BUF_SIZE :: nat where
  "JSON_FILE_BUF_SIZE = 4096"

text \<open>An answer of \<open>read\<close>; no bytes are the end of the file.\<close>

datatype read_answer = Got string | Read_failed

text \<open>What \<open>printbuf_memappend\<close> replies is not looked at.\<close>

fun read_file :: "char mem \<Rightarrow> printbuf \<Rightarrow> read_answer list \<Rightarrow> (int \<times> printbuf) outcome" where
  "read_file M pb [] = Blocks"
| "read_file M pb (Read_failed # as) = Ret (- 1, pb)"
| "read_file M pb (Got s # as) =
     (if s = [] then Ret (0, pb)
      else if length s > JSON_FILE_BUF_SIZE then Undefined
      else and_then (printbuf_memappend M pb s) (\<lambda>(_, pb). read_file M pb as))"

text \<open>The string a \<open>char *\<close> into a block stands for.\<close>

definition c_text :: "string \<Rightarrow> string outcome" where
  "c_text buf = (if CHR 0x00 \<in> set buf then Ret (takeWhile (\<lambda>c. c \<noteq> CHR 0x00) buf) else Undefined)"

datatype 'd loaded = Not_read | Not_parsed tok_error | Loaded "'d json"

text \<open>\<open>maintainer\<close> is how json-c was built: only then does the macro \<open>MC_ABORT\<close> call \<open>mc_abort\<close>, which ends the process.\<close>

definition json_object_from_file ::
    "'d libc \<Rightarrow> char mem \<Rightarrow> bool \<Rightarrow> bool \<Rightarrow> read_answer list \<Rightarrow> 'd loaded outcome" where
  "json_object_from_file lc M maintainer opened replies =
     (if \<not> opened then Ret Not_read
      else case printbuf_new M of
        None \<Rightarrow> Ret Not_read
      | Some pb \<Rightarrow>
          and_then (read_file M pb replies) (\<lambda>(ret, pb).
            if ret < 0 then (if maintainer then snd (mc_abort True mc_flags) else Ret Not_read)
            else
              and_then (c_text (pb_buf pb)) (\<lambda>s.
              and_then (json_tokener_parse lc s) (\<lambda>r.
                Ret (case r of Inl e \<Rightarrow> Not_parsed e | Inr v \<Rightarrow> Loaded v)))))"

text \<open>The numbers of the errors, and the pointers they are returned as.\<close>

fun tok_error_code :: "tok_error \<Rightarrow> int" where
  "tok_error_code E_success = 0"
| "tok_error_code E_continue = 1"
| "tok_error_code E_depth = 2"
| "tok_error_code E_parse_eof = 3"
| "tok_error_code E_parse_unexpected = 4"
| "tok_error_code E_parse_null = 5"
| "tok_error_code E_parse_boolean = 6"
| "tok_error_code E_parse_number = 7"
| "tok_error_code E_parse_array = 8"
| "tok_error_code E_parse_object_key_name = 9"
| "tok_error_code E_parse_object_key_sep = 10"
| "tok_error_code E_parse_object_value_sep = 11"
| "tok_error_code E_parse_string = 12"
| "tok_error_code E_parse_comment = 13"

fun error_ptr :: "'d loaded \<Rightarrow> int option" where
  "error_ptr Not_read = Some (- 1)"
| "error_ptr (Not_parsed e) = Some (- tok_error_code e)"
| "error_ptr (Loaded v) = None"

section \<open>Writing\<close>

text \<open>The loop over \<open>write\<close>, with the numbers it replies.\<close>

fun write_file :: "nat \<Rightarrow> nat \<Rightarrow> int list \<Rightarrow> (int \<times> nat) outcome" where
  "write_file wsize wpos replies =
     (if wpos < wsize then
        (case replies of
           [] \<Rightarrow> Blocks
         | ret # replies \<Rightarrow> if ret < 0 then Ret (- 1, wpos) else write_file wsize (wpos + nat ret) replies)
      else Ret (0, wpos))"

declare write_file.simps [simp del]

text \<open>What is returned, and what the file holds afterwards, unless it was not touched.\<close>

definition json_object_to_file ::
    "'d libc \<Rightarrow> char mem \<Rightarrow> 'd json \<Rightarrow> printbuf option \<Rightarrow> bool \<Rightarrow> int list \<Rightarrow>
     (int \<times> string option \<times> printbuf option) outcome" where
  "json_object_to_file lc M v pb opened replies =
     (if v = JNull then Ret (- 1, None, pb)
      else if \<not> opened then Ret (- 1, None, pb)
      else and_then (json_object_to_json_string lc M v pb) (\<lambda>(str, pb).
        case str of
          None \<Rightarrow> Ret (- 1, Some [], pb)
        | Some s \<Rightarrow>
            and_then (write_file (length s mod 2 ^ 32) 0 replies) (\<lambda>(ret, wpos). Ret (ret, Some (take wpos s), pb))))"

section \<open>Facts\<close>

lemma write_file_all:
  assumes "\<forall>r\<in>set replies. 0 \<le> r" "int wsize \<le> int wpos + sum_list replies"
  shows "\<exists>n. write_file wsize wpos replies = Ret (0, n) \<and> wsize \<le> n"
  using assms
proof (induction replies arbitrary: wpos)
  case Nil
  then show ?case by (simp add: write_file.simps)
next
  case (Cons r rs)
  then show ?case using Cons.IH [of "wpos + nat r"] by (subst write_file.simps) auto
qed

lemma write_file_done: "write_file wsize wpos replies = Ret (0, n) \<Longrightarrow> wsize \<le> n"
proof (induction wsize wpos replies rule: write_file.induct)
  case (1 wsize wpos replies)
  then show ?case by (subst (asm) write_file.simps) (auto split: if_splits list.splits)
qed

lemma read_file_writes:
  assumes "all_ok M" "room pb (concat chunks)" "\<forall>s\<in>set chunks. s \<noteq> [] \<and> length s \<le> JSON_FILE_BUF_SIZE"
  shows "\<exists>pb'. read_file M pb (map Got chunks @ Got [] # as) = Ret (0, pb') \<and> wrote pb (concat chunks) pb'"
  using assms(2,3)
proof (induction chunks arbitrary: pb)
  case Nil
  then show ?case by (simp add: wrote_refl room_def)
next
  case (Cons s ss)
  have r: "room pb (s @ concat ss)" using Cons.prems(1) by simp
  from memappend_writes [OF assms(1) room_left [OF r]] obtain pb1 where
    pb1: "printbuf_memappend M pb s = Ret (int (length s), pb1)" "wrote pb s pb1" by blast
  from Cons.IH [OF room_append [OF r pb1(2)]] Cons.prems(2) obtain pb' where
    "read_file M pb1 (map Got ss @ Got [] # as) = Ret (0, pb')" "wrote pb1 (concat ss) pb'" by auto
  then show ?case using pb1 Cons.prems(2) wrote_trans [OF pb1(2)] by simp
qed

lemma parseable_c_strings: "parseable lc v \<Longrightarrow> c_strings lc v"
  by (induction v) (auto simp: double_text_def Let_def nul_free_def list_all_iff in_number_chars_def json_number_chars_def)

text \<open>A file that ends at once is parsed from the fresh block of the print buffer, whatever that holds.\<close>

lemma empty_file_parses_junk:
  assumes "all_ok M" "CHR 0x00 \<in> set (fresh_block M 32)"
  shows "json_object_from_file lc M maintainer True [Got []] =
    and_then (json_tokener_parse lc (takeWhile (\<lambda>c. c \<noteq> CHR 0x00) (fresh_block M 32))) (\<lambda>r.
      Ret (case r of Inl e \<Rightarrow> Not_parsed e | Inr v \<Rightarrow> Loaded v))"
  using assms by (simp add: json_object_from_file_def printbuf_new_def all_ok_def c_text_def)

lemma empty_file_undefined:
  assumes "all_ok M" "CHR 0x00 \<notin> set (fresh_block M 32)"
  shows "json_object_from_file lc M maintainer True [Got []] = Undefined"
  using assms by (simp add: json_object_from_file_def printbuf_new_def all_ok_def c_text_def)

text \<open>A file that cannot be read and one that stops in the middle of a value give the same pointer.\<close>

lemma not_read_or_not_complete: "error_ptr Not_read = error_ptr (Not_parsed E_continue)"
  by simp

text \<open>When there is no memory for the text the old content of the file is gone already.\<close>

lemma text_lost:
  assumes "v \<noteq> JNull" "\<not> mem_ok M 16"
  shows "json_object_to_file lc M v None True replies = Ret (- 1, Some [], None)"
  using assms by (simp add: json_object_to_file_def json_object_to_json_string_def printbuf_new_def)

lemma chunks_parse:
  assumes "all_ok M" "parseable lc v" "nested 31 v" "length (json_text lc v) \<le> 2 ^ 28"
    and "concat chunks = json_text lc v" "\<forall>s\<in>set chunks. s \<noteq> [] \<and> length s \<le> JSON_FILE_BUF_SIZE"
  shows "json_object_from_file lc M maintainer True (map Got chunks @ [Got []]) = Ret (Loaded v)"
proof -
  obtain pb where pb: "printbuf_new M = Some pb" using assms(1) by (simp add: printbuf_new_def all_ok_def)
  then have new: "pb_fits pb" "written pb = []" using new_fits by auto
  then have "room pb (concat chunks)" using assms(4,5) by (simp add: room_def)
  from read_file_writes [OF assms(1) this assms(6), of "[]"] obtain pb' where
    pb': "read_file M pb (map Got chunks @ [Got []]) = Ret (0, pb')" "wrote pb (json_text lc v) pb'" using assms(5) by auto
  have plain: "json_text lc v \<noteq> []" "nul_free (json_text lc v)"
    using text_start [OF assms(2)] nul_free_text(1) [OF parseable_c_strings [OF assms(2)]] by auto
  have w: "written pb' = json_text lc v" "pb_inv pb'" "pb_terminated pb'"
    using pb'(2) new(2) plain(1) by (auto simp: wrote_def pb_fits_def)
  have "pb_bpos pb' < int (length (pb_buf pb'))" "0 \<le> pb_bpos pb'" using w(2) by (auto simp: pb_inv_def)
  then have "CHR 0x00 \<in> set (pb_buf pb')" using w(3) nth_mem [of "nat (pb_bpos pb')" "pb_buf pb'"] by (simp add: pb_terminated_def)
  then have "c_text (pb_buf pb') = Ret (json_text lc v)"
    using terminated_text [OF w(2,3)] w(1) plain(2) by (simp add: c_text_def)
  then show ?thesis using pb pb'(1) printed_parses [OF assms(2,3)] by (simp add: json_object_from_file_def)
qed

lemma text_written:
  assumes "all_ok M" "v \<noteq> JNull" "parseable lc v" "length (json_text lc v) \<le> 2 ^ 28" "\<And>p. pb = Some p \<Longrightarrow> pb_fits p"
    and "\<forall>r\<in>set replies. 0 \<le> r" "int (length (json_text lc v)) \<le> sum_list replies"
  shows "\<exists>pb'. json_object_to_file lc M v pb True replies = Ret (0, Some (json_text lc v), pb')"
proof -
  have "json_text lc v \<noteq> []" using text_start [OF assms(3)] by auto
  from value_printed [OF assms(1,2) parseable_c_strings [OF assms(3)] this assms(4,5)] obtain p' where
    p': "json_object_to_json_string lc M v pb = Ret (Some (json_text lc v), Some p')" by blast
  have "length (json_text lc v) mod 2 ^ 32 = length (json_text lc v)" using assms(4) by simp
  moreover obtain n where "write_file (length (json_text lc v)) 0 replies = Ret (0, n)" "length (json_text lc v) \<le> n"
    using write_file_all [of replies "length (json_text lc v)" 0] assms(6,7) by auto
  ultimately show ?thesis using assms(2) p' by (simp add: json_object_to_file_def)
qed

section \<open>Properties\<close>



end
