(* ===== verification/Uart_Terminal.thy ===== *)
theory Uart_Terminal
  imports Serial_Opening
begin

text \<open>
  The rest of \<open>buses/uart_posix.c\<close>: opening, claiming and closing a terminal, its speed, and the list of the serial ports.
  The terminals of the machine are a map from their names to their attributes.  How the C library keeps speeds in the
  attributes, and what of them a terminal takes over, is a parameter.
\<close>

datatype speed = B0 | B9600 | B19200 | B38400 | B57600 | B115200 | B230400 | B460800

record termios =
  c_iflag :: "32 word"
  c_oflag :: "32 word"
  c_cflag :: "32 word"
  c_lflag :: "32 word"
  c_vmin :: byte
  c_vtime :: byte
  c_speeds :: "speed \<times> speed"

record tty_lib =
  cfsetispeed :: "speed \<Rightarrow> termios \<Rightarrow> termios"
  cfsetospeed :: "speed \<Rightarrow> termios \<Rightarrow> termios"
  cfgetispeed :: "termios \<Rightarrow> speed"
  taken_over :: "termios \<Rightarrow> termios"
  CS8 :: "32 word"
  CLOCAL :: "32 word"
  CREAD :: "32 word"
  IGNPAR :: "32 word"

type_synonym ttys = "string \<Rightarrow> termios option"

record serial_port_unix =
  port_fd :: string
  termios_backup :: termios
  termios_new :: termios

datatype opened_port = INVALID_SERIAL_PORT | CLAIMED_SERIAL_PORT | Opened serial_port_unix

definition CCLAIMED :: "32 word" where
  "CCLAIMED = 0x80000000"

text \<open>\<open>tcsetattr\<close>, which may fail; then nothing has changed.\<close>

definition tcsetattr :: "tty_lib \<Rightarrow> bool \<Rightarrow> string \<Rightarrow> termios \<Rightarrow> ttys \<Rightarrow> ttys" where
  "tcsetattr lib sets p t w = (if sets \<and> w p \<noteq> None then w(p \<mapsto> taken_over lib t) else w)"

definition uart_close_ext :: "tty_lib \<Rightarrow> bool \<Rightarrow> serial_port_unix \<Rightarrow> bool \<Rightarrow> ttys \<Rightarrow> ttys" where
  "uart_close_ext lib sets sp restore_termios w =
     (if restore_termios then tcsetattr lib sets (port_fd sp) (termios_backup sp) w else w)"

definition uart_close :: "tty_lib \<Rightarrow> bool \<Rightarrow> serial_port_unix \<Rightarrow> ttys \<Rightarrow> ttys" where
  "uart_close lib sets sp = uart_close_ext lib sets sp True"

text \<open>\<open>gets\<close> and \<open>sets\<close> say whether \<open>tcgetattr\<close> and \<open>tcsetattr\<close> succeed.\<close>

definition uart_open :: "tty_lib \<Rightarrow> bool \<Rightarrow> bool \<Rightarrow> string \<Rightarrow> ttys \<Rightarrow> opened_port \<times> ttys" where
  "uart_open lib gets sets pcPortName w =
     (case w pcPortName of
        None \<Rightarrow> (INVALID_SERIAL_PORT, w)
      | Some t \<Rightarrow>
          if \<not> gets then (INVALID_SERIAL_PORT, w)
          else if c_iflag t AND CCLAIMED \<noteq> 0 then (CLAIMED_SERIAL_PORT, w)
          else
            let new = t\<lparr>c_cflag := CS8 lib OR CLOCAL lib OR CREAD lib, c_iflag := CCLAIMED OR IGNPAR lib,
                        c_oflag := 0, c_lflag := 0, c_vmin := 0, c_vtime := 0\<rparr>;
                sp = \<lparr>port_fd = pcPortName, termios_backup = t, termios_new = new\<rparr> in
            if \<not> sets then (INVALID_SERIAL_PORT, uart_close_ext lib sets sp True w)
            else (Opened sp, tcsetattr lib sets pcPortName new w))"

section \<open>Speeds\<close>

definition speed_of :: "32 word \<Rightarrow> speed option" where
  "speed_of v =
     map_of [(9600, B9600), (19200, B19200), (38400, B38400), (57600, B57600), (115200, B115200), (230400, B230400), (460800, B460800)] v"

definition uart_set_speed :: "tty_lib \<Rightarrow> bool \<Rightarrow> 32 word \<Rightarrow> serial_port_unix \<Rightarrow> ttys \<Rightarrow> serial_port_unix \<times> ttys" where
  "uart_set_speed lib sets uiPortSpeed sp w =
     (case speed_of uiPortSpeed of
        None \<Rightarrow> (sp, w)
      | Some b \<Rightarrow>
          let t = cfsetospeed lib b (cfsetispeed lib b (termios_new sp)) in
          (sp\<lparr>termios_new := t\<rparr>, tcsetattr lib sets (port_fd sp) t w))"

fun baud :: "speed \<Rightarrow> 32 word" where
  "baud B0 = 0"
| "baud B9600 = 9600"
| "baud B19200 = 19200"
| "baud B38400 = 38400"
| "baud B57600 = 57600"
| "baud B115200 = 115200"
| "baud B230400 = 230400"
| "baud B460800 = 460800"

definition uart_get_speed :: "tty_lib \<Rightarrow> serial_port_unix \<Rightarrow> 32 word" where
  "uart_get_speed lib sp = baud (cfgetispeed lib (termios_new sp))"

section \<open>The ports of the machine\<close>

definition serial_ports_device_radix :: "string list" where
  "serial_ports_device_radix = [''ttyUSB'', ''ttyS'', ''ttyACM'']"

definition port_entries :: "string \<Rightarrow> string list" where
  "port_entries d =
     (if digit_value (last d) = None then [] else map (\<lambda>_. ''/dev/'' @ d) (filter (\<lambda>r. is_prefix r d) serial_ports_device_radix))"

text \<open>The names in \<open>/dev\<close>, \<^const>\<open>None\<close> when the directory cannot be opened, which is not looked at.\<close>

definition uart_list_ports :: "string list option \<Rightarrow> string list outcome" where
  "uart_list_ports dev =
     (case dev of
        None \<Rightarrow> Undefined
      | Some names \<Rightarrow>
          if [] \<in> set names then Undefined
          else Ret (concat (map port_entries names)))"

section \<open>Facts\<close>

text \<open>What is asked of the library: the input speed that was set is read, setting a speed leaves the claim, and so does handing the
  attributes to a terminal.\<close>

definition keeps_claims :: "tty_lib \<Rightarrow> bool" where
  "keeps_claims lib \<longleftrightarrow>
     (\<forall>b t. c_iflag (cfsetospeed lib b (cfsetispeed lib b t)) AND CCLAIMED = c_iflag t AND CCLAIMED) \<and>
     (\<forall>t. c_iflag (taken_over lib t) AND CCLAIMED = c_iflag t AND CCLAIMED)"

definition reads_speeds :: "tty_lib \<Rightarrow> bool" where
  "reads_speeds lib \<longleftrightarrow> (\<forall>b t. cfgetispeed lib (cfsetospeed lib b (cfsetispeed lib b t)) = b)"

lemma speed_read_back:
  assumes "reads_speeds lib" "speed_of v = Some b" "uart_set_speed lib sets v sp w = (sp', w')"
  shows "uart_get_speed lib sp' = v"
proof -
  have "baud b = v" using assms(2) by (auto simp: speed_of_def split: if_splits)
  then show ?thesis using assms by (auto simp: uart_set_speed_def uart_get_speed_def reads_speeds_def Let_def)
qed

text \<open>Whoever has opened a port has claimed it, also after its speed was set: nobody else opens it until it is closed.\<close>

lemma claimed_after_open:
  assumes "keeps_claims lib" "uart_open lib gets sets p w = (Opened sp, w')"
  shows "port_fd sp = p" "\<exists>t. w' p = Some t \<and> c_iflag t AND CCLAIMED \<noteq> 0" "c_iflag (termios_new sp) AND CCLAIMED \<noteq> 0"
proof -
  have c: "(CCLAIMED OR x) AND CCLAIMED \<noteq> 0" for x
  proof
    assume "(CCLAIMED OR x) AND CCLAIMED = 0"
    then have "bit ((CCLAIMED OR x) AND CCLAIMED) 31 = False" by simp
    then show False by (simp add: bit_simps CCLAIMED_def)
  qed
  from assms c [of "IGNPAR lib"] show "port_fd sp = p" "\<exists>t. w' p = Some t \<and> c_iflag t AND CCLAIMED \<noteq> 0"
    "c_iflag (termios_new sp) AND CCLAIMED \<noteq> 0"
    by (auto simp: uart_open_def tcsetattr_def keeps_claims_def Let_def split: option.splits if_splits)
qed

lemma claimed_after_set_speed:
  assumes "keeps_claims lib" "\<exists>t. w (port_fd sp) = Some t \<and> c_iflag t AND CCLAIMED \<noteq> 0" "c_iflag (termios_new sp) AND CCLAIMED \<noteq> 0"
    and "uart_set_speed lib sets v sp w = (sp', w')"
  shows "\<exists>t. w' (port_fd sp) = Some t \<and> c_iflag t AND CCLAIMED \<noteq> 0"
  using assms by (auto simp: uart_set_speed_def tcsetattr_def keeps_claims_def Let_def split: option.splits if_splits)

lemma claimed_refused:
  "w p = Some t \<Longrightarrow> c_iflag t AND CCLAIMED \<noteq> 0 \<Longrightarrow> uart_open lib True sets p w = (CLAIMED_SERIAL_PORT, w)"
  by (simp add: uart_open_def)

text \<open>Closing gives the terminal its attributes back, when the terminal takes over what it gave out before.\<close>

lemma open_close:
  assumes "w p = Some t" "taken_over lib t = t" "uart_open lib gets sets p w = (Opened sp, w')"
  shows "uart_close lib True sp w' = w"
  using assms
  by (auto simp: uart_open_def uart_close_def uart_close_ext_def tcsetattr_def Let_def fun_eq_iff split: if_splits)

text \<open>No name is listed twice, and a port is not anything else.\<close>

lemma radix_once:
  assumes "is_prefix r d" "is_prefix r' d" "r \<in> set serial_ports_device_radix" "r' \<in> set serial_ports_device_radix"
  shows "r = r'"
proof -
  have four: "take 4 d = take 4 x" if "is_prefix x d" "x \<in> set serial_ports_device_radix" for x
  proof -
    have "4 \<le> length x" using that(2) by (auto simp: serial_ports_device_radix_def)
    then have "take 4 d = take 4 (take (length x) d)" by (simp add: min_absorb1)
    then show ?thesis using that(1) by (simp only: is_prefix_def)
  qed
  have "take 4 r = take 4 r'" using four [OF assms(1,3)] four [OF assms(2,4)] by simp
  then show ?thesis using assms(3,4) by (auto simp: serial_ports_device_radix_def)
qed

lemma set_port_entries:
  "x \<in> set (port_entries d) \<longleftrightarrow>
    x = ''/dev/'' @ d \<and> digit_value (last d) \<noteq> None \<and> (\<exists>r\<in>set serial_ports_device_radix. is_prefix r d)"
  by (auto simp: port_entries_def)

lemma listed_ports:
  assumes "uart_list_ports (Some names) = Ret ports"
  shows "x \<in> set ports \<longleftrightarrow>
    (\<exists>d\<in>set names. x = ''/dev/'' @ d \<and> digit_value (last d) \<noteq> None \<and> (\<exists>r\<in>set serial_ports_device_radix. is_prefix r d))"
proof -
  have "ports = concat (map port_entries names)" using assms by (simp add: uart_list_ports_def split: if_splits)
  then have "x \<in> set ports \<longleftrightarrow> (\<exists>d\<in>set names. x \<in> set (port_entries d))" by simp
  then show ?thesis unfolding set_port_entries .
qed

text \<open>A C library that keeps the speeds beside the flags has what is asked of it.\<close>

definition plain_tty_lib :: tty_lib where
  "plain_tty_lib =
     \<lparr>cfsetispeed = (\<lambda>b t. t\<lparr>c_speeds := (b, snd (c_speeds t))\<rparr>), cfsetospeed = (\<lambda>b t. t\<lparr>c_speeds := (fst (c_speeds t), b)\<rparr>),
      cfgetispeed = (\<lambda>t. fst (c_speeds t)), taken_over = (\<lambda>t. t), CS8 = 0x30, CLOCAL = 0x800, CREAD = 0x80, IGNPAR = 4\<rparr>"

lemma plain_tty_lib_ok: "keeps_claims plain_tty_lib" "reads_speeds plain_tty_lib"
  by (simp_all add: keeps_claims_def reads_speeds_def plain_tty_lib_def)

end
