(* ===== verification/Mifare.thy ===== *)
theory Mifare
  imports Nfc_Api
begin

text \<open>
  Commands for MIFARE cards, \<open>utils/mifare.c\<close>, and what it is for a device to have a card in its field.
\<close>

section \<open>The command\<close>

datatype mifare_cmd = MC_AUTH_A | MC_AUTH_B | MC_READ | MC_WRITE | MC_TRANSFER | MC_DECREMENT | MC_INCREMENT | MC_STORE

fun mc_code :: "mifare_cmd \<Rightarrow> byte" where
  "mc_code MC_AUTH_A = 0x60"
| "mc_code MC_AUTH_B = 0x61"
| "mc_code MC_READ = 0x30"
| "mc_code MC_WRITE = 0xA0"
| "mc_code MC_TRANSFER = 0xB0"
| "mc_code MC_DECREMENT = 0xC0"
| "mc_code MC_INCREMENT = 0xC1"
| "mc_code MC_STORE = 0xC2"

text \<open>How many bytes of the union of parameters a command sends.\<close>

fun szParamLen :: "mifare_cmd \<Rightarrow> nat" where
  "szParamLen MC_READ = 0"
| "szParamLen MC_STORE = 0"
| "szParamLen MC_AUTH_A = 10"
| "szParamLen MC_AUTH_B = 10"
| "szParamLen MC_WRITE = 16"
| "szParamLen MC_DECREMENT = 4"
| "szParamLen MC_INCREMENT = 4"
| "szParamLen MC_TRANSFER = 4"

text \<open>The union is the array of its 16 bytes.\<close>

definition nfc_initiator_mifare_cmd :: "'s nfc_driver \<Rightarrow> mifare_cmd \<Rightarrow> byte \<Rightarrow> bytes \<Rightarrow> ('s, bool \<times> bytes) op" where
  "nfc_initiator_mifare_cmd drv mc ui8Block pmp dv =
     (if length pmp < szParamLen mc then Undefined
      else on_ok (\<lambda>_. (False, pmp)) (nfc_set_property_bool drv NP_EASY_FRAMING True dv) (\<lambda>_ dv.
        and_then (nfc_initiator_transceive_bytes drv (mc_code mc # ui8Block # take (szParamLen mc) pmp) (Some 265) (- 1) dv)
          (\<lambda>((res, abtRx), dv).
            if res < 0 then Ret ((False, pmp), dv)
            else if mc = MC_READ then
              (if res = 16 then and_then (copy_into pmp 0 abtRx 16) (\<lambda>pmp. Ret ((True, pmp), dv)) else Ret ((False, pmp), dv))
            else Ret ((True, pmp), dv))))"

section \<open>A card in the field\<close>

text \<open>What a card answers to the bytes it is sent, \<^const>\<open>None\<close> when it refuses them, with the card afterwards, is a function
  \<open>answer\<close>.  It replies to a device in a way of exchanging bytes - the room there is for an answer, the timeout - when \<open>tag dv\<close>
  is what the card has come to when the device is \<open>dv\<close>.\<close>

definition card_replies ::
    "(bytes \<Rightarrow> 'c \<Rightarrow> bytes option \<times> 'c) \<Rightarrow> nat option \<Rightarrow> int \<Rightarrow> 's nfc_driver \<Rightarrow> ('s nfc_device \<Rightarrow> 'c) \<Rightarrow> bool" where
  "card_replies answer room timeout drv tag \<longleftrightarrow>
     (\<forall>cmd dv. \<exists>res rx dv'.
        nfc_initiator_transceive_bytes drv cmd room timeout dv = Ret ((res, rx), dv') \<and>
        tag dv' = snd (answer cmd (tag dv)) \<and>
        (case fst (answer cmd (tag dv)) of None \<Rightarrow> res < 0 | Some bs \<Rightarrow> res = int (length bs) \<and> rx = bs))"

text \<open>The device has a MIFARE card in its field: the card replies to commands, and framing can be switched on.\<close>

definition in_field ::
    "(bytes \<Rightarrow> 'c \<Rightarrow> bytes option \<times> 'c) \<Rightarrow> 's nfc_driver \<Rightarrow> ('s nfc_device \<Rightarrow> 'c) \<Rightarrow> bool" where
  "in_field answer drv tag \<longleftrightarrow>
     (\<forall>dv. \<exists>res dv'. nfc_set_property_bool drv NP_EASY_FRAMING True dv = Ret (res, dv') \<and> 0 \<le> res \<and> tag dv' = tag dv) \<and>
     card_replies answer (Some 265) (- 1) drv tag"

text \<open>A command to the card.\<close>

lemma card_repliesD:
  assumes "card_replies answer room timeout drv tag" "answer cmd (tag dv) = (reply, c)"
  shows "\<exists>res rx dv'.
      nfc_initiator_transceive_bytes drv cmd room timeout dv = Ret ((res, rx), dv') \<and> tag dv' = c \<and>
      (case reply of None \<Rightarrow> res < 0 | Some bs \<Rightarrow> res = int (length bs) \<and> rx = bs)"
proof -
  from assms(1) have "\<exists>res rx dv'. nfc_initiator_transceive_bytes drv cmd room timeout dv = Ret ((res, rx), dv') \<and>
      tag dv' = snd (answer cmd (tag dv)) \<and>
      (case fst (answer cmd (tag dv)) of None \<Rightarrow> res < 0 | Some bs \<Rightarrow> res = int (length bs) \<and> rx = bs)"
    unfolding card_replies_def by blast
  then show ?thesis by (simp only: assms(2) fst_conv snd_conv)
qed

lemma in_fieldD:
  assumes "in_field answer drv tag"
  shows "\<exists>res dv'. nfc_set_property_bool drv NP_EASY_FRAMING True dv = Ret (res, dv') \<and> 0 \<le> res \<and> tag dv' = tag dv"
    and "answer cmd (tag dv) = (reply, c) \<Longrightarrow> \<exists>res rx dv'.
      nfc_initiator_transceive_bytes drv cmd (Some 265) (- 1) dv = Ret ((res, rx), dv') \<and> tag dv' = c \<and>
      (case reply of None \<Rightarrow> res < 0 | Some bs \<Rightarrow> res = int (length bs) \<and> rx = bs)"
proof -
  note h = assms [unfolded in_field_def]
  show "\<exists>res dv'. nfc_set_property_bool drv NP_EASY_FRAMING True dv = Ret (res, dv') \<and> 0 \<le> res \<and> tag dv' = tag dv"
    using h by blast
  show "\<exists>res rx dv'. nfc_initiator_transceive_bytes drv cmd (Some 265) (- 1) dv = Ret ((res, rx), dv') \<and> tag dv' = c \<and>
      (case reply of None \<Rightarrow> res < 0 | Some bs \<Rightarrow> res = int (length bs) \<and> rx = bs)" if "answer cmd (tag dv) = (reply, c)"
    using card_repliesD [of answer "Some 265" "- 1" drv tag cmd dv reply c] h that by blast
qed


lemma copy_union: "length pmp = 16 \<Longrightarrow> length rx = 16 \<Longrightarrow> copy_into pmp 0 rx 16 = Ret rx"
  by (simp add: copy_into_def splice_def)

lemma mifare_cmd_answer:
  assumes "in_field answer drv tag" "length pmp = 16"
    and "answer (mc_code mc # b # take (szParamLen mc) pmp) (tag dv) = (reply, c)"
  shows "\<exists>dv'. tag dv' = c \<and>
    nfc_initiator_mifare_cmd drv mc b pmp dv =
      Ret (case reply of
             None \<Rightarrow> (False, pmp)
           | Some bs \<Rightarrow> if mc = MC_READ then (if length bs = 16 then (True, bs) else (False, pmp)) else (True, pmp), dv')"
proof -
  let ?cmd = "mc_code mc # b # take (szParamLen mc) pmp"
  obtain res dv1 where dv1: "nfc_set_property_bool drv NP_EASY_FRAMING True dv = Ret (res, dv1)" "0 \<le> res" "tag dv1 = tag dv"
    using in_fieldD(1) [OF assms(1)] by blast
  have "answer ?cmd (tag dv1) = (reply, c)" using assms(3) dv1(3) by simp
  from in_fieldD(2) [OF assms(1) this] obtain r rx dv2 where dv2:
    "nfc_initiator_transceive_bytes drv ?cmd (Some 265) (- 1) dv1 = Ret ((r, rx), dv2)"
    "tag dv2 = c" "case reply of None \<Rightarrow> r < 0 | Some bs \<Rightarrow> r = int (length bs) \<and> rx = bs" by blast
  have len: "\<not> length pmp < szParamLen mc" using assms(2) by (cases mc) simp_all
  have run: "nfc_initiator_mifare_cmd drv mc b pmp dv =
      (if r < 0 then Ret ((False, pmp), dv2)
       else if mc = MC_READ then
         (if r = 16 then and_then (copy_into pmp 0 rx 16) (\<lambda>pmp. Ret ((True, pmp), dv2)) else Ret ((False, pmp), dv2))
       else Ret ((True, pmp), dv2))"
    unfolding nfc_initiator_mifare_cmd_def on_ok_def using len dv1(1,2) dv2(1) by simp
  show ?thesis
  proof (cases reply)
    case None
    then show ?thesis using run dv2(2,3) by auto
  next
    case (Some bs)
    then have r: "r = int (length bs)" "rx = bs" using dv2(3) by auto
    then show ?thesis using run dv2(2) Some copy_union [OF assms(2), of bs] by (intro exI [of _ dv2]) auto
  qed
qed

text \<open>A reader that is made for a card.\<close>

definition simulated_reader :: "(bytes \<Rightarrow> 'c \<Rightarrow> bytes option \<times> 'c) \<Rightarrow> 'c nfc_driver" where
  "simulated_reader answer =
     \<lparr>initiator_init = None, initiator_init_secure_element = None, initiator_select_passive_target = None,
      initiator_poll_target = None, initiator_select_dep_target = None, initiator_deselect_target = None,
      initiator_transceive_bytes = Some (\<lambda>cmd room timeout dv.
        case answer cmd (driver_data dv) of
          (None, c) \<Rightarrow> Ret ((- 20, []), dv\<lparr>driver_data := c\<rparr>)
        | (Some bs, c) \<Rightarrow> Ret ((int (length bs), bs), dv\<lparr>driver_data := c\<rparr>)),
      initiator_transceive_bits = None, initiator_transceive_bytes_timed = None, initiator_transceive_bits_timed = None,
      initiator_target_is_present = None, target_init = None, target_send_bytes = None, target_receive_bytes = None,
      target_send_bits = None, target_receive_bits = None, device_set_property_bool = Some (\<lambda>p b dv. Ret (0, dv)),
      device_set_property_int = None, get_supported_modulation = None, get_supported_baud_rate = None,
      abort_command = None, device_idle = None\<rparr>"

lemma simulated_reader_replies: "card_replies answer room timeout (simulated_reader answer) driver_data"
  unfolding card_replies_def
proof (intro allI)
  show "\<exists>res rx dv'. nfc_initiator_transceive_bytes (simulated_reader answer) cmd room timeout dv = Ret ((res, rx), dv') \<and>
      driver_data dv' = snd (answer cmd (driver_data dv)) \<and>
      (case fst (answer cmd (driver_data dv)) of None \<Rightarrow> res < 0 | Some bs \<Rightarrow> res = int (length bs) \<and> rx = bs)" for cmd dv
    by (cases "answer cmd (driver_data dv)")
      (auto simp: simulated_reader_def nfc_initiator_transceive_bytes_def hal_def split: option.splits)
qed

lemma simulated_reader_field: "in_field answer (simulated_reader answer) driver_data"
  using simulated_reader_replies
  by (auto simp: in_field_def simulated_reader_def nfc_set_property_bool_def hal_def)

end
