(* ===== verification/Mf_Classic.thy ===== *)
theory Mf_Classic
  imports Mifare
begin

text \<open>
  \<open>utils/nfc-mfclassic.c\<close>: reading a MIFARE Classic card into a dump and writing a dump to a card.  What is printed is left out.
\<close>

section \<open>State\<close>

text \<open>The static variables of the program; a dump is 256 blocks of 16 bytes.\<close>

record mfc =
  mp :: bytes
  mtKeys :: "bytes list"
  mtDump :: "bytes list"
  bUseKeyA :: bool
  bUseKeyFile :: bool
  uiBlocks :: nat
  mfc_nt :: nfc_target

definition default_keys :: "bytes list" where
  "default_keys =
     [[0xff, 0xff, 0xff, 0xff, 0xff, 0xff], [0xd3, 0xf7, 0xd3, 0xf7, 0xd3, 0xf7], [0xa0, 0xa1, 0xa2, 0xa3, 0xa4, 0xa5],
      [0xb0, 0xb1, 0xb2, 0xb3, 0xb4, 0xb5], [0x4d, 0x3a, 0x99, 0xc3, 0x51, 0xdd], [0x1a, 0x98, 0x2c, 0x7e, 0x45, 0x9a],
      [0xaa, 0xbb, 0xcc, 0xdd, 0xee, 0xff], [0x00, 0x00, 0x00, 0x00, 0x00, 0x00], [0xab, 0xcd, 0xef, 0x12, 0x34, 0x56]]"

definition nmMifare :: nfc_modulation where
  "nmMifare = \<lparr>nmt = NMT_ISO14443A, nbr = NBR_106\<rparr>"

definition is_first_block :: "nat \<Rightarrow> bool" where
  "is_first_block uiBlock \<longleftrightarrow> (if uiBlock < 128 then uiBlock mod 4 = 0 else uiBlock mod 16 = 0)"

definition is_trailer_block :: "nat \<Rightarrow> bool" where
  "is_trailer_block uiBlock \<longleftrightarrow> (if uiBlock < 128 then (uiBlock + 1) mod 4 = 0 else (uiBlock + 1) mod 16 = 0)"

definition get_trailer_block :: "nat \<Rightarrow> nat" where
  "get_trailer_block uiFirstBlock =
     (if uiFirstBlock < 128 then uiFirstBlock + (3 - uiFirstBlock mod 4) else uiFirstBlock + (15 - uiFirstBlock mod 16))"

text \<open>The parts of a trailer.\<close>

definition key_a :: "bytes \<Rightarrow> bytes" where "key_a t = take 6 t"
definition access_bits :: "bytes \<Rightarrow> bytes" where "access_bits t = take 4 (drop 6 t)"
definition key_b :: "bytes \<Rightarrow> bytes" where "key_b t = drop 10 t"

type_synonym ('s, 'a) mfc_op = "mfc \<Rightarrow> 's nfc_device \<Rightarrow> (('a \<times> mfc) \<times> 's nfc_device) outcome"

text \<open>A command on the parameters of the program.\<close>

definition card_cmd :: "'s nfc_driver \<Rightarrow> mifare_cmd \<Rightarrow> nat \<Rightarrow> ('s, bool) mfc_op" where
  "card_cmd drv mc b st dv =
     and_then (nfc_initiator_mifare_cmd drv mc (word_of_nat b) (mp st) dv) (\<lambda>((ok, p), dv). Ret ((ok, st\<lparr>mp := p\<rparr>), dv))"

section \<open>Authentication\<close>

definition put_key :: "bool \<Rightarrow> bytes \<Rightarrow> bytes \<Rightarrow> bytes" where
  "put_key a key block = (if a then key @ drop 6 block else take 10 block @ key)"

text \<open>The known keys one after the other; after each failure the card is selected again.  The key that was found goes where the
  block is.\<close>

fun guess_key :: "'s nfc_driver \<Rightarrow> mifare_cmd \<Rightarrow> nat \<Rightarrow> bytes list \<Rightarrow> ('s, bool) mfc_op" where
  "guess_key drv mc b [] st dv = Ret ((False, st), dv)"
| "guess_key drv mc b (key # keys) st dv =
     and_then (card_cmd drv mc b (st\<lparr>mp := key @ drop 6 (mp st)\<rparr>) dv) (\<lambda>((ok, st), dv).
       if ok then
         (if length (mtKeys st) \<le> b then Undefined
          else Ret ((True, st\<lparr>mtKeys := (mtKeys st)[b := put_key (bUseKeyA st) (take 6 (mp st)) (mtKeys st ! b)]\<rparr>), dv))
       else
         let a = nai (nti (mfc_nt st)) in
         and_then (nfc_initiator_select_passive_target drv nmMifare (take (nai_szUidLen a) (nai_abtUid a)) None dv) (\<lambda>(_, dv).
           guess_key drv mc b keys st dv))"

definition authenticate :: "'s nfc_driver \<Rightarrow> nat \<Rightarrow> ('s, bool) mfc_op" where
  "authenticate drv b st dv =
     (let a = nai (nti (mfc_nt st)); mc = (if bUseKeyA st then MC_AUTH_A else MC_AUTH_B) in
      if nai_szUidLen a < 4 \<or> length (nai_abtUid a) < nai_szUidLen a then Undefined
      else
        let st = st\<lparr>mp := take 6 (mp st) @ take 4 (drop (nai_szUidLen a - 4) (nai_abtUid a)) @ drop 10 (mp st)\<rparr> in
        if bUseKeyFile st then
          let t = get_trailer_block b in
          if length (mtKeys st) \<le> t then Undefined
          else card_cmd drv mc b (st\<lparr>mp := (if bUseKeyA st then key_a else key_b) (mtKeys st ! t) @ drop 6 (mp st)\<rparr>) dv
        else guess_key drv mc b default_keys st dv)"

section \<open>Unlocking\<close>

definition transmit_bits :: "'s nfc_driver \<Rightarrow> bytes \<Rightarrow> nat \<Rightarrow> ('s, bool) op" where
  "transmit_bits drv pbtTx szTxBits dv =
     and_then (nfc_initiator_transceive_bits drv pbtTx szTxBits [] False dv) (\<lambda>((res, _, _), dv). Ret (0 \<le> res, dv))"

definition transmit_bytes :: "'s nfc_driver \<Rightarrow> bytes \<Rightarrow> ('s, bool) op" where
  "transmit_bytes drv pbtTx dv =
     and_then (nfc_initiator_transceive_bytes drv pbtTx (Some 264) 0 dv) (\<lambda>((res, _), dv). Ret (0 \<le> res, dv))"

text \<open>A property that cannot be set ends the process.\<close>

definition set_or_exit :: "'s nfc_driver \<Rightarrow> nfc_property \<Rightarrow> bool \<Rightarrow> 's nfc_device \<Rightarrow> 's nfc_device outcome" where
  "set_or_exit drv p b dv = and_then (nfc_set_property_bool drv p b dv) (\<lambda>(res, dv). if res < 0 then Aborts else Ret dv)"

definition unlock_card :: "'s nfc_driver \<Rightarrow> ('s, bool) op" where
  "unlock_card drv dv =
     and_then (set_or_exit drv NP_HANDLE_CRC False dv) (\<lambda>dv.
     and_then (set_or_exit drv NP_EASY_FRAMING False dv) (\<lambda>dv.
     and_then (iso14443a_crc_append [0x50, 0x00]) (\<lambda>halt.
     and_then (transmit_bytes drv halt dv) (\<lambda>(_, dv).
     and_then (transmit_bits drv [0x40] 7 dv) (\<lambda>(ok, dv).
       if \<not> ok then Ret (False, dv)
       else and_then (transmit_bytes drv [0x43] dv) (\<lambda>(ok, dv).
         if \<not> ok then Ret (False, dv)
         else
           and_then (set_or_exit drv NP_HANDLE_CRC True dv) (\<lambda>dv.
           and_then (set_or_exit drv NP_EASY_FRAMING True dv) (\<lambda>dv. Ret (True, dv)))))))))"

section \<open>Reading\<close>

text \<open>After a failure the card is selected again, into the target of the program; \<^const>\<open>None\<close> when it is gone.\<close>

definition select_again :: "'s nfc_driver \<Rightarrow> ('s, bool) mfc_op" where
  "select_again drv st dv =
     and_then (nfc_initiator_select_passive_target drv nmMifare [] (Some (mfc_nt st)) dv) (\<lambda>((res, pnt), dv).
       Ret ((0 \<le> res, st\<lparr>mfc_nt := (case pnt of Some t \<Rightarrow> t | None \<Rightarrow> mfc_nt st)\<rparr>), dv))"

definition store_dump :: "nat \<Rightarrow> bytes \<Rightarrow> mfc \<Rightarrow> mfc" where
  "store_dump b block st = st\<lparr>mtDump := (mtDump st)[b := block]\<rparr>"

text \<open>A trailer: its keys are those of the key dump, its access bits those of the card.\<close>

definition read_trailer :: "'s nfc_driver \<Rightarrow> bool \<Rightarrow> nat \<Rightarrow> ('s, bool) mfc_op" where
  "read_trailer drv unlocked b st dv =
     and_then (if unlocked then Ret ((True, st), dv) else authenticate drv b st dv) (\<lambda>((ok, st), dv).
       if \<not> ok then Ret ((False, st), dv)
       else and_then (card_cmd drv MC_READ b st dv) (\<lambda>((ok, st), dv).
         if length (mtDump st) \<le> b \<or> length (mtKeys st) \<le> b then Undefined
         else Ret ((True,
           if \<not> ok then st
           else if unlocked then store_dump b (mp st) st
           else store_dump b (key_a (mtKeys st ! b) @ access_bits (mp st) @ key_b (mtKeys st ! b)) st), dv)))"

text \<open>The blocks below \<open>n\<close>, from the end to the begin.\<close>

fun read_blocks :: "'s nfc_driver \<Rightarrow> bool \<Rightarrow> bool \<Rightarrow> nat \<Rightarrow> ('s, bool) mfc_op" where
  "read_blocks drv unlocked bFailure 0 st dv = Ret ((True, st), dv)"
| "read_blocks drv unlocked bFailure (Suc b) st dv =
     (if is_trailer_block b then
        and_then (if bFailure then select_again drv st dv else Ret ((True, st), dv)) (\<lambda>((ok, st), dv).
          if \<not> ok then Ret ((False, st), dv)
          else and_then (read_trailer drv unlocked b st dv) (\<lambda>((ok, st), dv).
            if \<not> ok then Ret ((False, st), dv) else read_blocks drv unlocked False b st dv))
      else if bFailure then read_blocks drv unlocked bFailure b st dv
      else and_then (card_cmd drv MC_READ b st dv) (\<lambda>((ok, st), dv).
        if length (mtDump st) \<le> b then Undefined
        else if ok then read_blocks drv unlocked bFailure b (store_dump b (mp st) st) dv
        else Ret ((False, st), dv)))"

definition read_card :: "'s nfc_driver \<Rightarrow> bool \<Rightarrow> ('s, bool) mfc_op" where
  "read_card drv read_unlocked st dv =
     and_then (if read_unlocked then unlock_card drv dv else Ret (True, dv)) (\<lambda>(ok, dv).
       if \<not> ok then Ret ((False, st), dv) else read_blocks drv read_unlocked False (uiBlocks st + 1) st dv)"

section \<open>Writing\<close>

definition bcc_ok :: "bytes \<Rightarrow> bool" where
  "bcc_ok p \<longleftrightarrow> p ! 0 XOR p ! 1 XOR p ! 2 XOR p ! 3 XOR p ! 4 = 0"

text \<open>The block at hand, and whether it failed; \<open>Inl\<close> is the end of the whole, with its result.\<close>

definition write_block :: "'s nfc_driver \<Rightarrow> bool \<Rightarrow> bool \<Rightarrow> nat \<Rightarrow> ('s, bool + bool) mfc_op" where
  "write_block drv write_block_zero bFailure b st dv =
     (if length (mtDump st) \<le> b then Undefined
      else if is_trailer_block b then
        and_then (card_cmd drv MC_WRITE b (st\<lparr>mp := key_a (mtDump st ! b) @ access_bits (mtDump st ! b) @ key_b (mtDump st ! b)\<rparr>) dv)
          (\<lambda>((ok, st), dv). Ret ((Inr (bFailure \<or> \<not> ok), st), dv))
      else if b = 0 \<and> \<not> write_block_zero then Ret ((Inr bFailure, st), dv)
      else if bFailure then Ret ((Inr bFailure, st), dv)
      else
        let st = st\<lparr>mp := mtDump st ! b\<rparr> in
        if b = 0 \<and> \<not> bcc_ok (mp st) then Ret ((Inl False, st), dv)
        else and_then (card_cmd drv MC_WRITE b st dv) (\<lambda>((ok, st), dv). Ret ((Inr (\<not> ok), st), dv)))"

text \<open>The blocks of a list, from the begin to the end.\<close>

fun write_blocks :: "'s nfc_driver \<Rightarrow> bool \<Rightarrow> bool \<Rightarrow> nat list \<Rightarrow> ('s, bool) mfc_op" where
  "write_blocks drv write_block_zero bFailure [] st dv = Ret ((True, st), dv)"
| "write_blocks drv write_block_zero bFailure (b # bs) st dv =
     and_then
       (if is_first_block b then
          and_then (if bFailure then select_again drv st dv else Ret ((True, st), dv)) (\<lambda>((ok, st), dv).
            if \<not> ok then Ret ((Inl False, st), dv)
            else and_then (if write_block_zero then Ret ((True, st), dv) else authenticate drv b st dv) (\<lambda>((ok, st), dv).
              if \<not> ok then Ret ((Inl False, st), dv) else write_block drv write_block_zero False b st dv))
        else write_block drv write_block_zero bFailure b st dv)
       (\<lambda>((r, st), dv). case r of Inl res \<Rightarrow> Ret ((res, st), dv) | Inr bFailure \<Rightarrow> write_blocks drv write_block_zero bFailure bs st dv)"

definition write_card :: "'s nfc_driver \<Rightarrow> bool \<Rightarrow> ('s, bool) mfc_op" where
  "write_card drv write_block_zero st dv =
     and_then (if write_block_zero then unlock_card drv dv else Ret (True, dv)) (\<lambda>(ok, dv).
       if \<not> ok then Ret ((False, st), dv) else write_blocks drv write_block_zero False [0..<uiBlocks st + 1] st dv)"

section \<open>The program\<close>

text \<open>A file as 256 blocks; one that is shorter is refused.\<close>

definition load_blocks :: "bytes option \<Rightarrow> bytes list option" where
  "load_blocks file =
     (case file of
        None \<Rightarrow> None
      | Some bs \<Rightarrow> if length bs < 4096 then None else Some (map (\<lambda>i. take 16 (drop (16 * i) bs)) [0..<256]))"

definition zero_blocks :: "bytes list" where
  "zero_blocks = replicate 256 (replicate 16 0)"

text \<open>The last block of the card, from what it said of itself.\<close>

definition guess_size :: "nfc_iso14443a_info \<Rightarrow> nat" where
  "guess_size a =
     (if nai_abtAtqa a ! 1 AND 0x02 = 0x02 then 0xff else if nai_btSak a AND 0x01 = 0x01 then 0x13 else 0x3f)"

text \<open>From the open device on: the exit status, and what is written to the dump file, if it can be written.\<close>

definition mfclassic_device :: "'s nfc_driver \<Rightarrow> bool \<Rightarrow> bool \<Rightarrow> bool \<Rightarrow> mfc \<Rightarrow> 's nfc_device \<Rightarrow> (int \<times> bytes option) outcome" where
  "mfclassic_device drv reading unlock writable st dv =
     and_then (nfc_initiator_init drv dv) (\<lambda>(res, dv).
       if res < 0 then Ret (1, None)
       else and_then (nfc_set_property_bool drv NP_INFINITE_SELECT False dv) (\<lambda>(res, dv).
         if res < 0 then Ret (1, None)
         else and_then (nfc_set_property_bool drv NP_AUTO_ISO14443_4 False dv) (\<lambda>(_, dv).
           and_then (select_again drv st dv) (\<lambda>((ok, st), dv).
             if \<not> ok then Ret (1, None)
             else
               let st = st\<lparr>uiBlocks := guess_size (nai (nti (mfc_nt st)))\<rparr> in
               if reading then
                 and_then (read_card drv unlock st dv) (\<lambda>((ok, st), dv).
                   if \<not> ok then Ret (0, None)
                   else if \<not> writable then Ret (1, None)
                   else Ret (0, Some (concat (mtDump st))))
               else and_then (write_card drv unlock st dv) (\<lambda>_. Ret (0, None))))))"

text \<open>\<open>args\<close> are the arguments behind the name of the program, \<open>fresh\<close> is the zeroed target.\<close>

definition mfclassic_main ::
    "'s nfc_driver \<Rightarrow> string list \<Rightarrow> bytes option \<Rightarrow> bytes option \<Rightarrow> bool \<Rightarrow> 's nfc_device option \<Rightarrow> nfc_target \<Rightarrow>
     (int \<times> bytes option) outcome" where
  "mfclassic_main drv args keys_file dump_file writable pnd fresh =
     (if length args < 3 \<or> hd args \<notin> {''r'', ''R'', ''w'', ''W''} then Ret (1, None)
      else
        let reading = (hd args = ''r'' \<or> hd args = ''R''); unlock = (hd args = ''R'' \<or> hd args = ''W'');
            a = (args ! 1 \<noteq> [] \<and> (hd (args ! 1) = CHR ''a'' \<or> hd (args ! 1) = CHR ''A'')); key_file = 3 < length args in
        case (if key_file then load_blocks keys_file else Some zero_blocks) of
          None \<Rightarrow> Ret (1, None)
        | Some keys \<Rightarrow>
            (case (if reading then Some zero_blocks else load_blocks dump_file) of
               None \<Rightarrow> Ret (1, None)
             | Some dump \<Rightarrow>
                 (case pnd of
                    None \<Rightarrow> Ret (1, None)
                  | Some dv \<Rightarrow>
                      mfclassic_device drv reading unlock writable
                        \<lparr>mp = replicate 16 0, mtKeys = keys, mtDump = dump, bUseKeyA = a, bUseKeyFile = key_file, uiBlocks = 0,
                         mfc_nt = fresh\<rparr> dv)))"

section \<open>A MIFARE Classic card\<close>

text \<open>A MIFARE Classic card: its blocks, the four bytes of its UID that take part in the authentication, and the sector it is
  open for, with the key: A or not.  The first 32 sectors have 4 blocks, the others 16; the last block of each is its trailer,
  which holds key A, the access bits and key B.\<close>

record mf_card =
  cd_blocks :: "bytes list"
  cd_uid :: bytes
  cd_open :: "(nat \<times> bool) option"

definition sector :: "nat \<Rightarrow> nat" where
  "sector n = (if n < 128 then n div 4 else 32 + (n - 128) div 16)"

definition last_block :: "nat \<Rightarrow> nat" where
  "last_block s = (if s < 32 then 4 * s + 3 else 128 + 16 * (s - 32) + 15)"

text \<open>The access bits of a trailer, as the data sheet of the card has them: three bits for each of four groups of blocks, the last
  of which is the trailer itself, stored as they are and inverted.\<close>

definition block_group :: "nat \<Rightarrow> nat" where
  "block_group n = (if n < 128 then n mod 4 else (n - 128) mod 16 div 5)"

definition condition :: "bytes \<Rightarrow> nat \<Rightarrow> bool \<times> bool \<times> bool" where
  "condition t g = (bit (t ! 7) (4 + g), bit (t ! 8) g, bit (t ! 8) (4 + g))"

definition inverted :: "bytes \<Rightarrow> nat \<Rightarrow> bool \<times> bool \<times> bool" where
  "inverted t g = (bit (t ! 6) g, bit (t ! 6) (4 + g), bit (t ! 7) g)"

definition well_formed :: "bytes \<Rightarrow> bool" where
  "well_formed t \<longleftrightarrow> list_all (\<lambda>g. case (condition t g, inverted t g) of ((c1, c2, c3), (n1, n2, n3)) \<Rightarrow> c1 \<noteq> n1 \<and> c2 \<noteq> n2 \<and> c3 \<noteq> n3) [0, 1, 2, 3]"

text \<open>Key B can be read: then it opens nothing.\<close>

definition key_b_shown :: "bytes \<Rightarrow> bool" where
  "key_b_shown t \<longleftrightarrow> condition t 3 \<in> {(False, False, False), (False, True, False), (False, False, True)}"

text \<open>What the key in use, A or B, may do to a block of the sector of a trailer.  Of a trailer, reading it is reading its access
  bits, and writing it is writing its keys and its access bits: where a key may write only some of them, the card is taken to
  refuse.\<close>

definition may_read :: "bool \<Rightarrow> bytes \<Rightarrow> nat \<Rightarrow> bool" where
  "may_read a t n \<longleftrightarrow>
     well_formed t \<and> (a \<or> \<not> key_b_shown t) \<and>
     (block_group n = 3 \<or>
      condition t (block_group n) \<notin>
        (if a then {(False, True, True), (True, False, True), (True, True, True)} else {(True, True, True)}))"

definition may_write :: "bool \<Rightarrow> bytes \<Rightarrow> nat \<Rightarrow> bool" where
  "may_write a t n \<longleftrightarrow>
     well_formed t \<and> (a \<or> \<not> key_b_shown t) \<and>
     (if block_group n = 3 then condition t 3 = (if a then (False, False, True) else (False, True, True))
      else condition t (block_group n) \<in>
        (if a then {(False, False, False)}
         else {(False, False, False), (True, False, False), (True, True, False), (False, True, True)}))"

text \<open>What a card shows of a block, and what it answers: key A is never shown, and the first block is never written.\<close>

definition card_shows :: "nat \<Rightarrow> bytes \<Rightarrow> bytes" where
  "card_shows n block =
     (if n = last_block (sector n)
      then replicate 6 0 @ access_bits block @ (if key_b_shown block then key_b block else replicate 6 0)
      else block)"

definition card_answer :: "bytes \<Rightarrow> mf_card \<Rightarrow> bytes option \<times> mf_card" where
  "card_answer cmd c =
     (let refuse = (None, c\<lparr>cd_open := None\<rparr>) in
      case cmd of
        mc # b # arg \<Rightarrow>
          let n = unat b; t = last_block (sector n) in
          if length (cd_blocks c) \<le> t then refuse
          else if mc = 0x60 \<or> mc = 0x61 then
            (if arg = (if mc = 0x60 then key_a else key_b) (cd_blocks c ! t) @ cd_uid c
             then (Some [], c\<lparr>cd_open := Some (sector n, mc = 0x60)\<rparr>) else refuse)
          else
            (case cd_open c of
               None \<Rightarrow> refuse
             | Some (s, a) \<Rightarrow>
                 if s \<noteq> sector n then refuse
                 else if mc = 0x30 \<and> arg = [] \<and> may_read a (cd_blocks c ! t) n then (Some (card_shows n (cd_blocks c ! n)), c)
                 else if mc = 0xA0 \<and> length arg = 16 \<and> n \<noteq> 0 \<and> may_write a (cd_blocks c ! t) n
                 then (Some [], c\<lparr>cd_blocks := (cd_blocks c)[n := arg]\<rparr>)
                 else refuse)
      | _ \<Rightarrow> refuse)"

section \<open>Blocks and sectors\<close>

lemma sector_cases:
  obtains (small) q r where "b = 4 * q + r" "r < 4" "q < 32" | (large) q r where "b = 128 + (16 * q + r)" "r < (16 :: nat)"
proof (cases "b < 128")
  case True
  then show ?thesis using small [of "b div 4" "b mod 4"] by simp
next
  case False
  then show ?thesis using large [of "(b - 128) div 16" "(b - 128) mod 16"] by simp
qed

lemma small_block:
  assumes "b = 4 * q + r" "r < 4" "q < 32"
  shows "b < 128" "b mod 4 = r" "(b + 1) mod 4 = 0 \<longleftrightarrow> r = 3" "sector b = q" "last_block q = 4 * q + 3"
proof -
  show b: "b < 128" "b mod 4 = r" "last_block q = 4 * q + 3" using assms by (simp_all add: last_block_def)
  show "sector b = q" using assms b(1) by (simp add: sector_def)
  have "(b + 1) mod 4 = (r + 1) mod 4" using assms(1) by simp
  then show "(b + 1) mod 4 = 0 \<longleftrightarrow> r = 3" using assms(2) by (cases "r = 3") simp_all
qed

lemma large_block:
  assumes "b = 128 + (16 * q + r)" "r < 16"
  shows "\<not> b < 128" "b mod 16 = r" "(b + 1) mod 16 = 0 \<longleftrightarrow> r = 15" "sector b = 32 + q" "last_block (32 + q) = 128 + 16 * q + 15"
proof -
  show b: "\<not> b < 128" "last_block (32 + q) = 128 + 16 * q + 15" using assms by (simp_all add: last_block_def)
  show "sector b = 32 + q" using assms by (simp add: sector_def)
  have e: "b = r + 16 * (8 + q)" using assms(1) by simp
  show "b mod 16 = r" unfolding e using assms(2) by (simp only: mod_mult_self2 mod_less)
  have "(b + 1) mod 16 = (r + 1 + 16 * (8 + q)) mod 16" unfolding e by (simp only: ac_simps)
  also have "\<dots> = (r + 1) mod 16" by (rule mod_mult_self2)
  finally show "(b + 1) mod 16 = 0 \<longleftrightarrow> r = 15" using assms(2) by (cases "r = 15") simp_all
qed

lemma trailer_block: "get_trailer_block b = last_block (sector b)"
  by (cases b rule: sector_cases) (simp_all add: get_trailer_block_def small_block large_block del: add.assoc)

lemma is_trailer: "is_trailer_block b \<longleftrightarrow> b = last_block (sector b)"
proof (cases b rule: sector_cases)
  case (small q r)
  then show ?thesis using small_block [OF small] by (simp only: is_trailer_block_def if_True) simp
next
  case (large q r)
  then show ?thesis using large_block [OF large] by (simp only: is_trailer_block_def if_False) simp
qed

lemma last_block_ge: "b \<le> last_block (sector b)"
proof (cases b rule: sector_cases)
  case (small q r)
  then show ?thesis using small_block(4,5) [OF small] by simp
next
  case (large q r)
  then show ?thesis using large_block(4,5) [OF large] by simp
qed

lemma sector_Suc: "\<not> is_trailer_block b \<Longrightarrow> sector (Suc b) = sector b"
proof (cases b rule: sector_cases)
  case (small q r)
  assume "\<not> is_trailer_block b"
  then have "r + 1 < 4" using small_block [OF small] small(2) by (auto simp: is_trailer_block_def)
  then show ?thesis using small_block(4) [of "Suc b" q "r + 1"] small_block(4) [OF small] small by simp
next
  case (large q r)
  assume "\<not> is_trailer_block b"
  then have "r + 1 < 16" using large_block [OF large] large(2) by (auto simp: is_trailer_block_def)
  then show ?thesis using large_block(4) [of "Suc b" q "r + 1"] large_block(4) [OF large] large by simp
qed

lemma is_first: "is_first_block 0" "is_first_block (Suc b) \<longleftrightarrow> is_trailer_block b"
proof -
  show "is_first_block 0" by (simp add: is_first_block_def)
  show "is_first_block (Suc b) \<longleftrightarrow> is_trailer_block b"
    by (cases "b = 127") (auto simp: is_first_block_def is_trailer_block_def)
qed

text \<open>A card that ends with a trailer holds its sectors whole.\<close>

lemma whole_sectors:
  assumes "is_trailer_block n" "b \<le> n"
  shows "last_block (sector b) \<le> n"
proof -
  have "sector b \<le> sector n" using assms(2) unfolding sector_def by (auto simp: div_le_mono)
  then have "last_block (sector b) \<le> last_block (sector n)" unfolding last_block_def by auto
  then show ?thesis using assms(1) is_trailer by metis
qed

lemma block_parts [simp]: "key_a t @ access_bits t @ key_b t = t"
proof -
  have "drop 6 t = take 4 (drop 6 t) @ drop 4 (drop 6 t)" by (simp only: append_take_drop_id)
  then have "t = take 6 t @ take 4 (drop 6 t) @ drop 4 (drop 6 t)" by (metis append_take_drop_id)
  then show ?thesis by (simp add: key_a_def access_bits_def key_b_def)
qed

section \<open>With a card in the field\<close>

text \<open>The keys come from a file; the target of the program is the card, which has \<open>uiBlocks + 1\<close> blocks in whole sectors.\<close>

definition ready :: "mfc \<Rightarrow> mf_card \<Rightarrow> bool" where
  "ready st c \<longleftrightarrow>
     bUseKeyFile st \<and> length (mp st) = 16 \<and>
     (let a = nai (nti (mfc_nt st)) in
        4 \<le> nai_szUidLen a \<and> nai_szUidLen a \<le> length (nai_abtUid a) \<and>
        take 4 (drop (nai_szUidLen a - 4) (nai_abtUid a)) = cd_uid c) \<and>
     length (mtKeys st) = 256 \<and> (\<forall>k\<in>set (mtKeys st). length k = 16) \<and> length (mtDump st) = 256 \<and>
     is_trailer_block (uiBlocks st) \<and> uiBlocks st < 256 \<and>
     length (cd_blocks c) = uiBlocks st + 1 \<and> (\<forall>k\<in>set (cd_blocks c). length k = 16)"

definition used_key :: "mfc \<Rightarrow> bytes \<Rightarrow> bytes" where
  "used_key st = (if bUseKeyA st then key_a else key_b)"

text \<open>The key file opens the sector of a block, and the access bits let the key in use read the block.\<close>

definition opens :: "mfc \<Rightarrow> mf_card \<Rightarrow> nat \<Rightarrow> bool" where
  "opens st c b \<longleftrightarrow>
     used_key st (mtKeys st ! last_block (sector b)) = used_key st (cd_blocks c ! last_block (sector b)) \<and>
     may_read (bUseKeyA st) (cd_blocks c ! last_block (sector b)) b"

lemma card_block:
  assumes "ready st c" "b \<le> uiBlocks st"
  shows "unat (word_of_nat b :: byte) = b" "last_block (sector b) \<le> uiBlocks st" "length (cd_blocks c ! b) = 16"
proof -
  have u: "is_trailer_block (uiBlocks st)" "uiBlocks st < 256" using assms(1) by (simp_all add: ready_def)
  show "unat (word_of_nat b :: byte) = b" using assms(2) u(2) by (simp add: unat_of_nat)
  show "last_block (sector b) \<le> uiBlocks st" using whole_sectors [OF u(1) assms(2)] .
  show "length (cd_blocks c ! b) = 16" using assms by (simp add: ready_def)
qed

lemma mf_authenticates:
  assumes "in_field card_answer drv tag" "ready st (tag dv)" "b \<le> uiBlocks st" "opens st (tag dv) b"
  shows "\<exists>p dv'. authenticate drv b st dv = Ret ((True, st\<lparr>mp := p\<rparr>), dv') \<and> length p = 16 \<and>
    tag dv' = (tag dv)\<lparr>cd_open := Some (sector b, bUseKeyA st)\<rparr>"
proof -
  let ?a = "nai (nti (mfc_nt st))" and ?t = "last_block (sector b)" and ?mc = "if bUseKeyA st then MC_AUTH_A else MC_AUTH_B"
  note b = card_block [OF assms(2,3)]
  have a: "\<not> nai_szUidLen ?a < 4" "\<not> length (nai_abtUid ?a) < nai_szUidLen ?a"
    "take 4 (drop (nai_szUidLen ?a - 4) (nai_abtUid ?a)) = cd_uid (tag dv)" "bUseKeyFile st" "length (mp st) = 16"
    "length (mtKeys st) = 256" "uiBlocks st < 256" "length (cd_blocks (tag dv)) = uiBlocks st + 1"
    using assms(2) by (simp_all add: ready_def Let_def)
  have t: "?t < 256" using b(2) a(7) by simp
  then have "length (mtKeys st ! ?t) = 16" using assms(2) by (simp add: ready_def)
  then have k: "length (used_key st (mtKeys st ! ?t)) = 6" by (simp add: used_key_def key_a_def key_b_def)
  have uid: "length (cd_uid (tag dv)) = 4" unfolding a(3) [symmetric] using a(1,2) by simp
  let ?p = "used_key st (mtKeys st ! ?t) @ cd_uid (tag dv) @ drop 10 (mp st)"
  have p: "length ?p = 16" using k uid a(5) by simp
  have cmd: "take (szParamLen ?mc) ?p = used_key st (mtKeys st ! ?t) @ cd_uid (tag dv)" using k uid by simp
  have "card_answer (mc_code ?mc # word_of_nat b # take (szParamLen ?mc) ?p) (tag dv) =
      (Some [], (tag dv)\<lparr>cd_open := Some (sector b, bUseKeyA st)\<rparr>)"
    unfolding cmd card_answer_def using b(1,2) a(8) assms(4) by (simp add: opens_def used_key_def)
  from mifare_cmd_answer [OF assms(1) p this] obtain dv' where
    dv': "tag dv' = (tag dv)\<lparr>cd_open := Some (sector b, bUseKeyA st)\<rparr>"
      "nfc_initiator_mifare_cmd drv ?mc (word_of_nat b) ?p dv = Ret ((True, ?p), dv')" by auto
  have "authenticate drv b st dv = card_cmd drv ?mc b (st\<lparr>mp := ?p\<rparr>) dv"
    using a t k uid by (simp add: authenticate_def trailer_block used_key_def)
  then show ?thesis using dv' p by (intro exI [of _ ?p] exI [of _ dv']) (simp add: card_cmd_def)
qed

lemma mf_reads:
  assumes "in_field card_answer drv tag" "ready st (tag dv)" "b \<le> uiBlocks st" "cd_open (tag dv) = Some (sector b, bUseKeyA st)"
    and "opens st (tag dv) b"
  shows "\<exists>dv'. card_cmd drv MC_READ b st dv = Ret ((True, st\<lparr>mp := card_shows b (cd_blocks (tag dv) ! b)\<rparr>), dv') \<and> tag dv' = tag dv"
proof -
  note b = card_block [OF assms(2,3)]
  have l: "length (mp st) = 16" "length (cd_blocks (tag dv)) = uiBlocks st + 1" using assms(2) by (simp_all add: ready_def)
  have "card_answer (mc_code MC_READ # word_of_nat b # take (szParamLen MC_READ) (mp st)) (tag dv) =
      (Some (card_shows b (cd_blocks (tag dv) ! b)), tag dv)"
    unfolding card_answer_def using b(1,2) l(2) assms(4,5) by (simp add: opens_def)
  moreover have "length (card_shows b (cd_blocks (tag dv) ! b)) = 16"
    using b(3) by (simp add: card_shows_def access_bits_def key_b_def)
  ultimately show ?thesis using mifare_cmd_answer [OF assms(1) l(1)] by (fastforce simp: card_cmd_def)
qed

lemma mf_writes:
  assumes "in_field card_answer drv tag" "ready st (tag dv)" "b \<le> uiBlocks st" "cd_open (tag dv) = Some (sector b, bUseKeyA st)" "b \<noteq> 0"
    and "may_write (bUseKeyA st) (cd_blocks (tag dv) ! last_block (sector b)) b"
  shows "\<exists>dv'. card_cmd drv MC_WRITE b st dv = Ret ((True, st), dv') \<and>
    tag dv' = (tag dv)\<lparr>cd_blocks := (cd_blocks (tag dv))[b := mp st]\<rparr>"
proof -
  note b = card_block [OF assms(2,3)]
  have l: "length (mp st) = 16" "length (cd_blocks (tag dv)) = uiBlocks st + 1" using assms(2) by (simp_all add: ready_def)
  have "card_answer (mc_code MC_WRITE # word_of_nat b # take (szParamLen MC_WRITE) (mp st)) (tag dv) =
      (Some [], (tag dv)\<lparr>cd_blocks := (cd_blocks (tag dv))[b := mp st]\<rparr>)"
    unfolding card_answer_def using b(1,2) l assms(4-6) by simp
  then show ?thesis using mifare_cmd_answer [OF assms(1) l(1)] by (fastforce simp: card_cmd_def)
qed

text \<open>Only the parameters and the dump change, and the card but for what it is open for.\<close>

lemma ready_cong:
  assumes "ready st c" "length p = 16" "length d = 256" "cd_uid c' = cd_uid c" "length (cd_blocks c') = length (cd_blocks c)"
    "\<forall>k\<in>set (cd_blocks c'). length k = 16"
  shows "ready (st\<lparr>mp := p, mtDump := d\<rparr>) c'"
  using assms by (simp add: ready_def)

text \<open>What the program takes a block for: of a trailer it only learns the access bits.\<close>

definition dumped :: "bytes list \<Rightarrow> bytes list \<Rightarrow> nat \<Rightarrow> bytes" where
  "dumped keys blocks b =
     (if is_trailer_block b then key_a (keys ! b) @ access_bits (blocks ! b) @ key_b (keys ! b) else blocks ! b)"

lemma stored_dump:
  assumes "b < length d"
  shows "map f [0..<b] @ drop b (d[b := f b]) = map f [0..<Suc b] @ drop (Suc b) d"
proof -
  have "drop b (d[b := f b]) = f b # drop (Suc b) d"
    using assms Cons_nth_drop_Suc [of b "d[b := f b]"] by simp
  then show ?thesis by simp
qed

lemma read_blocks_dump:
  assumes "in_field card_answer drv tag" "n \<le> uiBlocks st + 1" "ready st (tag dv)" "\<forall>b\<le>uiBlocks st. opens st (tag dv) b"
    and "\<And>b. n = Suc b \<Longrightarrow> \<not> is_trailer_block b \<Longrightarrow> cd_open (tag dv) = Some (sector b, bUseKeyA st)"
  shows "\<exists>p dv'. read_blocks drv False False n st dv =
      Ret ((True, st\<lparr>mp := p, mtDump := map (dumped (mtKeys st) (cd_blocks (tag dv))) [0..<n] @ drop n (mtDump st)\<rparr>), dv') \<and>
    length p = 16 \<and> cd_blocks (tag dv') = cd_blocks (tag dv) \<and> cd_uid (tag dv') = cd_uid (tag dv)"
  using assms(2-5)
proof (induction n arbitrary: st dv)
  case 0
  then have "length (mp st) = 16" by (simp add: ready_def)
  then show ?case by (intro exI [of _ "mp st"] exI [of _ dv]) simp
next
  case (Suc b)
  let ?c = "cd_blocks (tag dv)" and ?f = "dumped (mtKeys st) (cd_blocks (tag dv))"
  have b: "b \<le> uiBlocks st" "b < 256" and l: "length (mtDump st) = 256" "length (mtKeys st) = 256"
    and blocks: "\<forall>k\<in>set ?c. length k = 16"
    using Suc.prems(1,2) by (simp_all add: ready_def)
  have rest: "\<exists>p dv'. read_blocks drv False False b (st\<lparr>mp := q, mtDump := (mtDump st)[b := ?f b]\<rparr>) dv1 =
      Ret ((True, st\<lparr>mp := p, mtDump := map ?f [0..<Suc b] @ drop (Suc b) (mtDump st)\<rparr>), dv') \<and>
      length p = 16 \<and> cd_blocks (tag dv') = ?c \<and> cd_uid (tag dv') = cd_uid (tag dv)"
    if "length q = 16" "tag dv1 = (tag dv)\<lparr>cd_open := Some (sector b, bUseKeyA st)\<rparr>" for q dv1
  proof -
    let ?st = "st\<lparr>mp := q, mtDump := (mtDump st)[b := ?f b]\<rparr>"
    have r: "ready ?st (tag dv1)" by (rule ready_cong [OF Suc.prems(2)]) (use that l blocks in simp_all)
    have op: "\<forall>b\<le>uiBlocks ?st. opens ?st (tag dv1) b" using Suc.prems(3) that(2) by (simp add: opens_def used_key_def)
    have opn: "cd_open (tag dv1) = Some (sector i, bUseKeyA ?st)" if "b = Suc i" "\<not> is_trailer_block i" for i
      using that sector_Suc [of i] \<open>tag dv1 = _\<close> by simp
    from Suc.IH [OF _ r op opn] b(1) obtain p dv' where
      "read_blocks drv False False b ?st dv1 =
        Ret ((True, ?st\<lparr>mp := p, mtDump := map (dumped (mtKeys ?st) (cd_blocks (tag dv1))) [0..<b] @ drop b (mtDump ?st)\<rparr>), dv')"
      "length p = 16" "cd_blocks (tag dv') = cd_blocks (tag dv1)" "cd_uid (tag dv') = cd_uid (tag dv1)" by auto
    then show ?thesis using that(2) stored_dump [of b "mtDump st" ?f] l(1) b(2) by (intro exI [of _ p] exI [of _ dv']) simp
  qed
  show ?case
  proof (cases "is_trailer_block b")
    case True
    have "opens st (tag dv) b" using Suc.prems(3) b(1) by blast
    from mf_authenticates [OF assms(1) Suc.prems(2) b(1) this] obtain p1 dv1 where
      a: "authenticate drv b st dv = Ret ((True, st\<lparr>mp := p1\<rparr>), dv1)" "length p1 = 16"
        "tag dv1 = (tag dv)\<lparr>cd_open := Some (sector b, bUseKeyA st)\<rparr>" by blast
    have "ready (st\<lparr>mp := p1\<rparr>) (tag dv1)"
      using ready_cong [OF Suc.prems(2) a(2) l(1), of "tag dv1"] a(3) blocks by simp
    moreover have "opens (st\<lparr>mp := p1\<rparr>) (tag dv1) b" using \<open>opens st (tag dv) b\<close> a(3) by (simp add: opens_def used_key_def)
    ultimately obtain dv2 where
      r: "card_cmd drv MC_READ b (st\<lparr>mp := p1\<rparr>) dv1 = Ret ((True, st\<lparr>mp := card_shows b (?c ! b)\<rparr>), dv2)" "tag dv2 = tag dv1"
      using mf_reads [OF assms(1), of "st\<lparr>mp := p1\<rparr>" dv1 b] b(1) a(3) by auto
    obtain k where sh: "card_shows b (?c ! b) = replicate 6 0 @ access_bits (?c ! b) @ k" "length k = 6"
      using True is_trailer card_block(3) [OF Suc.prems(2) b(1)]
      by (cases "key_b_shown (?c ! b)") (auto simp: card_shows_def key_b_def)
    have "length (?c ! b) = 16" using card_block(3) [OF Suc.prems(2) b(1)] .
    then have "access_bits (card_shows b (?c ! b)) = access_bits (?c ! b)" "length (card_shows b (?c ! b)) = 16"
      unfolding sh(1) using sh(2) by (simp_all add: access_bits_def)
    moreover have "?f b = key_a (mtKeys st ! b) @ access_bits (?c ! b) @ key_b (mtKeys st ! b)" using True by (simp add: dumped_def)
    ultimately show ?thesis using rest [of "card_shows b (?c ! b)" dv2] a r True b l by (simp add: read_trailer_def store_dump_def)
  next
    case False
    then have opn: "cd_open (tag dv) = Some (sector b, bUseKeyA st)" using Suc.prems(4) by blast
    moreover have "opens st (tag dv) b" using Suc.prems(3) b(1) by blast
    ultimately obtain dv1 where
      r: "card_cmd drv MC_READ b st dv = Ret ((True, st\<lparr>mp := card_shows b (?c ! b)\<rparr>), dv1)" "tag dv1 = tag dv"
      using mf_reads [OF assms(1) Suc.prems(2) b(1)] by blast
    have "card_shows b (?c ! b) = ?c ! b" using False is_trailer by (simp add: card_shows_def)
    moreover have "length (?c ! b) = 16" using card_block(3) [OF Suc.prems(2) b(1)] .
    moreover have "tag dv1 = (tag dv)\<lparr>cd_open := Some (sector b, bUseKeyA st)\<rparr>" using r(2) opn by simp
    moreover have "?f b = ?c ! b" using False by (simp add: dumped_def)
    ultimately show ?thesis using rest [of "?c ! b" dv1] r(1) False b l by (simp add: store_dump_def)
  qed
qed

text \<open>The key in use may write the blocks of a card but the first.\<close>

definition rewritable :: "mfc \<Rightarrow> bytes list \<Rightarrow> nat \<Rightarrow> bool" where
  "rewritable st blocks b \<longleftrightarrow> b = 0 \<or> may_write (bUseKeyA st) (blocks ! last_block (sector b)) b"

text \<open>The card as it is written: all blocks of the dump but the first.\<close>

definition dump_block :: "bytes list \<Rightarrow> bytes list \<Rightarrow> nat \<Rightarrow> bytes" where
  "dump_block dump blocks b = (if b = 0 then blocks ! 0 else dump ! b)"

lemma write_block_card:
  assumes "in_field card_answer drv tag" "ready st (tag dv)" "b \<le> uiBlocks st" "cd_open (tag dv) = Some (sector b, bUseKeyA st)"
    and "\<forall>k\<in>set (mtDump st). length k = 16" "rewritable st (cd_blocks (tag dv)) b"
  shows "\<exists>p dv'. write_block drv False False b st dv = Ret ((Inr False, st\<lparr>mp := p\<rparr>), dv') \<and> length p = 16 \<and>
    tag dv' = (tag dv)\<lparr>cd_blocks := (cd_blocks (tag dv))[b := dump_block (mtDump st) (cd_blocks (tag dv)) b]\<rparr>"
proof (cases "b = 0")
  case True
  have "\<not> is_trailer_block 0" by (simp add: is_trailer_block_def)
  moreover have "length (mtDump st) = 256" "length (mp st) = 16" using assms(2) by (simp_all add: ready_def)
  moreover have "(cd_blocks (tag dv))[0 := cd_blocks (tag dv) ! 0] = cd_blocks (tag dv)" by simp
  ultimately show ?thesis using True by (intro exI [of _ "mp st"] exI [of _ dv]) (simp add: write_block_def dump_block_def)
next
  case False
  have l: "length (mtDump st) = 256" "uiBlocks st < 256" using assms(2) by (simp_all add: ready_def)
  then have b: "b < length (mtDump st)" "length (mtDump st ! b) = 16" using assms(3,5) by simp_all
  let ?st = "st\<lparr>mp := mtDump st ! b\<rparr>"
  have "ready ?st (tag dv)" using assms(2) b(2) by (simp add: ready_def)
  from mf_writes [OF assms(1) this _ _ False] assms(3,4,6) False obtain dv' where
    "card_cmd drv MC_WRITE b ?st dv = Ret ((True, ?st), dv')"
    "tag dv' = (tag dv)\<lparr>cd_blocks := (cd_blocks (tag dv))[b := mtDump st ! b]\<rparr>" by (auto simp: rewritable_def)
  then show ?thesis using False b by (intro exI [of _ "mtDump st ! b"] exI [of _ dv']) (simp add: write_block_def dump_block_def)
qed

lemma written_prefix:
  assumes "b < length c"
  shows "take (Suc b) (c[b := f b]) @ map f [Suc b..<length c] = take b c @ map f [b..<length c]"
proof -
  have "take (Suc b) (c[b := f b]) = take b c @ [f b]" using assms by (simp add: take_Suc_conv_app_nth)
  moreover have "[b..<length c] = b # [Suc b..<length c]" using assms by (simp add: upt_conv_Cons)
  ultimately show ?thesis by simp
qed

lemma opens_cong:
  assumes "opens st c b" "cd_blocks c' ! last_block (sector b) = cd_blocks c ! last_block (sector b)"
  shows "opens (st\<lparr>mp := p\<rparr>) c' b"
  using assms by (simp add: opens_def used_key_def)

lemma write_blocks_card:
  assumes "in_field card_answer drv tag" "b \<le> uiBlocks st + 1" "ready st (tag dv)" "\<forall>i. b \<le> i \<longrightarrow> i \<le> uiBlocks st \<longrightarrow> opens st (tag dv) i"
    and "\<forall>k\<in>set (mtDump st). length k = 16"
    and "\<And>i. b = Suc i \<Longrightarrow> \<not> is_trailer_block i \<Longrightarrow> cd_open (tag dv) = Some (sector i, bUseKeyA st)"
    and "\<forall>i. b \<le> i \<longrightarrow> i \<le> uiBlocks st \<longrightarrow> rewritable st (cd_blocks (tag dv)) i"
  shows "\<exists>p dv'. write_blocks drv False False [b..<uiBlocks st + 1] st dv = Ret ((True, st\<lparr>mp := p\<rparr>), dv') \<and> length p = 16 \<and>
    cd_uid (tag dv') = cd_uid (tag dv) \<and>
    cd_blocks (tag dv') =
      take b (cd_blocks (tag dv)) @ map (dump_block (mtDump st) (cd_blocks (tag dv))) [b..<uiBlocks st + 1]"
  using assms(2-7)
proof (induction "uiBlocks st + 1 - b" arbitrary: b st dv)
  case 0
  then have "length (mp st) = 16" "length (cd_blocks (tag dv)) = uiBlocks st + 1" by (simp_all add: ready_def)
  then show ?case using 0 by (intro exI [of _ "mp st"] exI [of _ dv]) simp
next
  case (Suc n)
  let ?c = "cd_blocks (tag dv)" and ?f = "dump_block (mtDump st) (cd_blocks (tag dv))"
  have b: "b \<le> uiBlocks st" using Suc.hyps(2) by simp
  have l: "length ?c = uiBlocks st + 1" "length (mp st) = 16" "length (mtDump st) = 256" "uiBlocks st < 256"
    "\<forall>k\<in>set ?c. length k = 16"
    using Suc.prems(2) by (simp_all add: ready_def)
  have fb: "length (?f b) = 16" using b l Suc.prems(4) by (simp add: dump_block_def)
  have auth: "\<exists>p dv1. (if is_first_block b then authenticate drv b st dv else Ret ((True, st), dv)) = Ret ((True, st\<lparr>mp := p\<rparr>), dv1) \<and>
      length p = 16 \<and> tag dv1 = (tag dv)\<lparr>cd_open := Some (sector b, bUseKeyA st)\<rparr>"
  proof (cases "is_first_block b")
    case True
    then show ?thesis using mf_authenticates [OF assms(1) Suc.prems(2) b] Suc.prems(3) b by auto
  next
    case False
    then obtain i where i: "b = Suc i" "\<not> is_trailer_block i" using is_first by (cases b) auto
    then have "cd_open (tag dv) = Some (sector b, bUseKeyA st)" using Suc.prems(5) [OF i] sector_Suc by simp
    then show ?thesis using False l(2) by (intro exI [of _ "mp st"] exI [of _ dv]) simp
  qed
  then obtain p1 dv1 where a: "(if is_first_block b then authenticate drv b st dv else Ret ((True, st), dv)) = Ret ((True, st\<lparr>mp := p1\<rparr>), dv1)"
    "length p1 = 16" "tag dv1 = (tag dv)\<lparr>cd_open := Some (sector b, bUseKeyA st)\<rparr>" by blast
  let ?st1 = "st\<lparr>mp := p1\<rparr>"
  have r1: "ready ?st1 (tag dv1)" using Suc.prems(2) a(2,3) by (simp add: ready_def)
  have "rewritable ?st1 (cd_blocks (tag dv1)) b" using Suc.prems(6) b a(3) by (simp add: rewritable_def)
  with write_block_card [OF assms(1) r1, of b] a(3) b Suc.prems(4) obtain p2 dv2 where
    w: "write_block drv False False b ?st1 dv1 = Ret ((Inr False, st\<lparr>mp := p2\<rparr>), dv2)" "length p2 = 16"
      "tag dv2 = (tag dv)\<lparr>cd_blocks := ?c[b := ?f b], cd_open := Some (sector b, bUseKeyA st)\<rparr>" by auto
  let ?st2 = "st\<lparr>mp := p2\<rparr>"
  have "\<forall>k\<in>set (?c[b := ?f b]). length k = 16" using set_update_subset_insert [of ?c b "?f b"] l(5) fb by blast
  then have r2: "ready ?st2 (tag dv2)" using Suc.prems(2) w(2,3) by (simp add: ready_def)
  have op2: "\<forall>i. Suc b \<le> i \<longrightarrow> i \<le> uiBlocks ?st2 \<longrightarrow> opens ?st2 (tag dv2) i"
  proof (intro allI impI)
    fix i assume i: "Suc b \<le> i" "i \<le> uiBlocks ?st2"
    then have "b < last_block (sector i)" using last_block_ge [of i] by simp
    then show "opens ?st2 (tag dv2) i" using Suc.prems(3) i w(3) by (intro opens_cong [of st "tag dv"]) simp_all
  qed
  have wr2: "\<forall>i. Suc b \<le> i \<longrightarrow> i \<le> uiBlocks ?st2 \<longrightarrow> rewritable ?st2 (cd_blocks (tag dv2)) i"
  proof (intro allI impI)
    fix i assume i: "Suc b \<le> i" "i \<le> uiBlocks ?st2"
    then have "b < last_block (sector i)" using last_block_ge [of i] by simp
    then show "rewritable ?st2 (cd_blocks (tag dv2)) i" using Suc.prems(6) [rule_format, of i] i w(3) by (simp add: rewritable_def)
  qed
  have opn: "cd_open (tag dv2) = Some (sector i, bUseKeyA ?st2)" if "Suc b = Suc i" "\<not> is_trailer_block i" for i using that w(3) by simp
  have dump2: "\<forall>k\<in>set (mtDump ?st2). length k = 16" using Suc.prems(4) by simp
  have "n = uiBlocks ?st2 + 1 - Suc b" "Suc b \<le> uiBlocks ?st2 + 1" using Suc.hyps(2) b by simp_all
  from Suc.hyps(1) [OF this r2 op2 dump2 opn wr2] obtain p3 dv3 where
    rest: "write_blocks drv False False [Suc b..<uiBlocks st + 1] ?st2 dv2 = Ret ((True, st\<lparr>mp := p3\<rparr>), dv3)" "length p3 = 16"
      "cd_uid (tag dv3) = cd_uid (tag dv)"
      "cd_blocks (tag dv3) = take (Suc b) (?c[b := ?f b]) @ map (dump_block (mtDump st) (?c[b := ?f b])) [Suc b..<uiBlocks st + 1]"
    using w(3) by auto
  have "map (dump_block (mtDump st) (?c[b := ?f b])) [Suc b..<uiBlocks st + 1] = map ?f [Suc b..<uiBlocks st + 1]"
    by (intro map_cong) (auto simp: dump_block_def)
  note same = this
  have bl: "b < length ?c" using b l(1) by simp
  have blocks: "cd_blocks (tag dv3) = take b ?c @ map ?f [b..<uiBlocks st + 1]"
    unfolding rest(4) same by (rule written_prefix [of b ?c ?f, unfolded l(1), OF bl [unfolded l(1)]])
  have "[b..<uiBlocks st + 1] = b # [Suc b..<uiBlocks st + 1]" using b by (simp add: upt_conv_Cons)
  then have "write_blocks drv False False [b..<uiBlocks st + 1] st dv = Ret ((True, st\<lparr>mp := p3\<rparr>), dv3)"
    using a(1) w(1) rest(1) by (cases "is_first_block b") simp_all
  then show ?case using rest(2,3) blocks by blast
qed

section \<open>Properties\<close>

lemma read_card_dump:
  assumes "in_field card_answer drv tag" "ready st (tag dv)" "\<forall>b\<le>uiBlocks st. opens st (tag dv) b"
  shows "\<exists>p dv'. read_card drv False st dv =
      Ret ((True, st\<lparr>mp := p, mtDump := map (dumped (mtKeys st) (cd_blocks (tag dv))) [0..<uiBlocks st + 1] @
        drop (uiBlocks st + 1) (mtDump st)\<rparr>), dv') \<and> cd_blocks (tag dv') = cd_blocks (tag dv)"
proof -
  have "is_trailer_block (uiBlocks st)" using assms(2) by (simp add: ready_def)
  then have "cd_open (tag dv) = Some (sector b, bUseKeyA st)" if "uiBlocks st + 1 = Suc b" "\<not> is_trailer_block b" for b using that by simp
  from read_blocks_dump [OF assms(1) order_refl assms(2,3) this] show ?thesis by (auto simp: read_card_def)
qed

lemma write_card_dump:
  assumes "in_field card_answer drv tag" "ready st (tag dv)" "\<forall>b\<le>uiBlocks st. opens st (tag dv) b" "\<forall>k\<in>set (mtDump st). length k = 16"
    and "\<forall>b\<le>uiBlocks st. rewritable st (cd_blocks (tag dv)) b"
  shows "\<exists>p dv'. write_card drv False st dv = Ret ((True, st\<lparr>mp := p\<rparr>), dv') \<and> length p = 16 \<and> cd_uid (tag dv') = cd_uid (tag dv) \<and>
    cd_blocks (tag dv') = map (dump_block (mtDump st) (cd_blocks (tag dv))) [0..<uiBlocks st + 1]"
  using write_blocks_card [OF assms(1) _ assms(2) _ assms(4), of 0] assms(3,5) by (auto simp: write_card_def)

text \<open>With the keys of the card the dump is the card.\<close>

lemma dumped_own: "dumped blocks blocks = (!) blocks"
  by (auto simp: dumped_def)

text \<open>A small card as it is delivered, with other keys, which are those of the file: key A reads and writes everything.\<close>

definition plain_trailer :: "byte \<Rightarrow> bytes" where
  "plain_trailer k = replicate 6 k @ [0xFF, 0x07, 0x80, 0x69] @ replicate 6 k"

definition plain_sectors :: "nat \<Rightarrow> byte \<Rightarrow> bytes list" where
  "plain_sectors n k = concat (replicate n [replicate 16 k, replicate 16 k, replicate 16 k, plain_trailer k])"

definition small_card :: mf_card where
  "small_card = \<lparr>cd_blocks = plain_sectors 5 7, cd_uid = [1, 2, 3, 4], cd_open = None\<rparr>"

definition small_card_state :: mfc where
  "small_card_state =
     \<lparr>mp = replicate 16 0, mtKeys = plain_sectors 64 7, mtDump = plain_sectors 64 9, bUseKeyA = True,
      bUseKeyFile = True, uiBlocks = 19,
      mfc_nt = \<lparr>nti = blank_info\<lparr>nai := (nai blank_info)\<lparr>nai_szUidLen := 4, nai_abtUid := [1, 2, 3, 4, 0, 0, 0, 0, 0, 0]\<rparr>\<rparr>,
                nm = nmMifare\<rparr>\<rparr>"

lemma plain_sectors_nth:
  "b < 4 * n \<Longrightarrow> plain_sectors n k ! b = (if b mod 4 = 3 then plain_trailer k else replicate 16 k)"
proof (induction n arbitrary: b)
  case (Suc n)
  show ?case
  proof (cases "b < 4")
    case True
    then have "b = 0 \<or> b = 1 \<or> b = 2 \<or> b = 3" by auto
    then show ?thesis by (auto simp: plain_sectors_def)
  next
    case False
    then have "plain_sectors (Suc n) k ! b = plain_sectors n k ! (b - 4)" by (simp add: plain_sectors_def nth_append eval_nat_numeral)
    moreover have "(b - 4) mod 4 = b mod 4" using False by (metis le_add_diff_inverse2 mod_add_self2 not_less)
    ultimately show ?thesis using Suc.IH [of "b - 4"] Suc.prems False by simp
  qed
qed simp

lemma plain_sectors_shape:
  "length (plain_sectors n k) = 4 * n" "x \<in> set (plain_sectors n k) \<Longrightarrow> length x = 16"
  by (induction n) (auto simp: plain_sectors_def plain_trailer_def)

lemma plain_trailer_access: "may_read True (plain_trailer k) b" "may_write True (plain_trailer k) b"
proof -
  have c: "condition (plain_trailer k) g = (False, False, g = 3)" if "g < 4" for g
  proof -
    have "g = 0 \<or> g = 1 \<or> g = 2 \<or> g = 3" using that by auto
    then show ?thesis by (auto simp: condition_def plain_trailer_def nth_append)
  qed
  have "(b - 128) mod 16 < 16" "b mod 4 < 4" by simp_all
  then have g: "block_group b < 4" by (simp add: block_group_def div_less_iff_less_mult del: mod_less_divisor)
  have "well_formed (plain_trailer k)" by (simp add: well_formed_def condition_def inverted_def plain_trailer_def nth_append)
  then show "may_read True (plain_trailer k) b" "may_write True (plain_trailer k) b"
    using c [OF g] c [of 3] by (auto simp: may_read_def may_write_def)
qed

lemma last_block_small:
  assumes "b \<le> 19"
  shows "last_block (sector b) < 20" "last_block (sector b) mod 4 = 3"
proof -
  have "last_block (sector b) = 4 * (b div 4) + 3" using assms by (simp add: sector_def last_block_def)
  then show "last_block (sector b) < 20" "last_block (sector b) mod 4 = 3" using assms by presburger+
qed

lemma small_card_ready:
  assumes "b \<le> 19"
  shows "ready small_card_state small_card" "opens small_card_state small_card b" "rewritable small_card_state (cd_blocks small_card) b"
    "may_read (bUseKeyA small_card_state) (mtDump small_card_state ! last_block (sector b)) b"
proof -
  have l: "length (mtKeys small_card_state) = 256" "length (mtDump small_card_state) = 256" "length (cd_blocks small_card) = 20"
    by (simp_all add: small_card_state_def small_card_def plain_sectors_shape)
  have s: "\<forall>k\<in>set (mtKeys small_card_state). length k = 16" "\<forall>k\<in>set (cd_blocks small_card). length k = 16"
    by (auto simp: small_card_state_def small_card_def plain_sectors_shape(2))
  show "ready small_card_state small_card"
    using l s by (simp add: ready_def Let_def) (simp add: small_card_state_def small_card_def is_trailer_block_def)
  note t = last_block_small [OF assms]
  have c: "cd_blocks small_card ! last_block (sector b) = plain_trailer 7" "mtKeys small_card_state ! last_block (sector b) = plain_trailer 7"
    "mtDump small_card_state ! last_block (sector b) = plain_trailer 9" "bUseKeyA small_card_state"
    using t by (simp_all add: small_card_def small_card_state_def plain_sectors_nth)
  then show "opens small_card_state small_card b" "rewritable small_card_state (cd_blocks small_card) b"
    "may_read (bUseKeyA small_card_state) (mtDump small_card_state ! last_block (sector b)) b"
    by (simp_all add: opens_def rewritable_def used_key_def plain_trailer_access)
qed

text \<open>C33. Reading a card with a key file, when the access bits of the card let the key in use read it, gives its blocks, from the
  first to the last; of the trailers it gives the access bits of the card between the keys of the file.  The card is left as it was, and what the dump holds
  behind the card is not touched.\<close>
theorem card_read_into_dump:
  assumes "in_field card_answer drv tag" "ready st (tag dv)" "\<forall>b\<le>uiBlocks st. opens st (tag dv) b"
  shows "\<exists>st' dv'. read_card drv False st dv = Ret ((True, st'), dv') \<and> cd_blocks (tag dv') = cd_blocks (tag dv) \<and>
    (\<forall>b<256. mtDump st' ! b =
       (if uiBlocks st < b then mtDump st ! b
        else if is_trailer_block b then key_a (mtKeys st ! b) @ access_bits (cd_blocks (tag dv) ! b) @ key_b (mtKeys st ! b)
        else cd_blocks (tag dv) ! b))"
proof -
  have l: "length (mtDump st) = 256" "uiBlocks st < 256" using assms(2) by (simp_all add: ready_def)
  obtain p dv' where r: "read_card drv False st dv =
      Ret ((True, st\<lparr>mp := p, mtDump := map (dumped (mtKeys st) (cd_blocks (tag dv))) [0..<uiBlocks st + 1] @
        drop (uiBlocks st + 1) (mtDump st)\<rparr>), dv')" "cd_blocks (tag dv') = cd_blocks (tag dv)"
    using read_card_dump [OF assms] by blast
  have "(map f [0..<uiBlocks st + 1] @ drop (uiBlocks st + 1) (mtDump st)) ! b = (if uiBlocks st < b then mtDump st ! b else f b)"
    if "b < 256" for b and f :: "nat \<Rightarrow> bytes" using that l by (auto simp: nth_append nth_drop simp del: upt_Suc)
  note nth = this
  let ?st = "st\<lparr>mp := p, mtDump := map (dumped (mtKeys st) (cd_blocks (tag dv))) [0..<uiBlocks st + 1] @ drop (uiBlocks st + 1) (mtDump st)\<rparr>"
  have "mtDump ?st ! b = (if uiBlocks st < b then mtDump st ! b else dumped (mtKeys st) (cd_blocks (tag dv)) b)" if "b < 256" for b
    using nth [OF that] by (simp del: upt_Suc)
  then have "\<forall>b<256. mtDump ?st ! b = (if uiBlocks st < b then mtDump st ! b
        else if is_trailer_block b then key_a (mtKeys st ! b) @ access_bits (cd_blocks (tag dv) ! b) @ key_b (mtKeys st ! b)
        else cd_blocks (tag dv) ! b)"
    unfolding dumped_def by blast
  then show ?thesis using r by blast
qed

lemma card_read_into_dump_witness:
  "\<exists>st' dv'. read_card (simulated_reader card_answer) False small_card_state (blank_device small_card) = Ret ((True, st'), dv') \<and>
     mtDump st' ! 5 = replicate 16 7 \<and> mtDump st' ! 20 = replicate 16 9"
proof -
  have dv: "driver_data (blank_device small_card) = small_card" by (simp add: blank_device_def pn53x_data_new_def nfc_device_new_def)
  have n: "uiBlocks small_card_state = 19" by (simp add: small_card_state_def)
  from card_read_into_dump [OF simulated_reader_field, of small_card_state "blank_device small_card"] small_card_ready
  obtain st' dv' where r: "read_card (simulated_reader card_answer) False small_card_state (blank_device small_card) = Ret ((True, st'), dv')"
    "\<forall>b<256. mtDump st' ! b =
       (if 19 < b then mtDump small_card_state ! b
        else if is_trailer_block b then key_a (mtKeys small_card_state ! b) @ access_bits (cd_blocks small_card ! b) @ key_b (mtKeys small_card_state ! b)
        else cd_blocks small_card ! b)" unfolding dv n by blast
  have "mtDump st' ! 5 = cd_blocks small_card ! 5" "mtDump st' ! 20 = mtDump small_card_state ! 20"
    using r(2) [rule_format, of 5] r(2) [rule_format, of 20] by (simp_all add: is_trailer_block_def)
  then show ?thesis using r(1) by (simp add: small_card_def small_card_state_def plain_sectors_nth)
qed

text \<open>C34. A dump that is written to a card is read back, when the access bits of the card let the key in use write it - all but its
  first block - and those of the trailers in the dump let the same key read it afterwards: the card takes over every block but its
  first, which cannot be written, and reading the card with the dump as key file gives the card, blocks, keys and access bits.  A
  dump whose trailers lock a sector is not one of them.\<close>
theorem dump_written_and_read_back:
  assumes "in_field card_answer drv tag" "ready st (tag dv)" "\<forall>b\<le>uiBlocks st. opens st (tag dv) b" "\<forall>k\<in>set (mtDump st). length k = 16"
    and "\<forall>b\<le>uiBlocks st. rewritable st (cd_blocks (tag dv)) b"
    and "\<forall>b\<le>uiBlocks st. may_read (bUseKeyA st) (mtDump st ! last_block (sector b)) b"
    and "length d = 256"
  shows "\<exists>st' dv'. write_card drv False st dv = Ret ((True, st'), dv') \<and>
    cd_blocks (tag dv') = cd_blocks (tag dv) ! 0 # take (uiBlocks st) (drop 1 (mtDump st)) \<and>
    (\<exists>st'' dv''. read_card drv False (st'\<lparr>mtKeys := mtDump st, mtDump := d\<rparr>) dv' = Ret ((True, st''), dv'') \<and>
       take (uiBlocks st + 1) (mtDump st'') = cd_blocks (tag dv'))"
proof -
  let ?n = "uiBlocks st + 1"
  have l: "length (mtDump st) = 256" "uiBlocks st < 256" "length (cd_blocks (tag dv)) = ?n" "\<forall>k\<in>set (cd_blocks (tag dv)). length k = 16"
    "is_trailer_block (uiBlocks st)"
    using assms(2) by (simp_all add: ready_def)
  obtain p dv' where w: "write_card drv False st dv = Ret ((True, st\<lparr>mp := p\<rparr>), dv')" "length p = 16" "cd_uid (tag dv') = cd_uid (tag dv)"
    "cd_blocks (tag dv') = map (dump_block (mtDump st) (cd_blocks (tag dv))) [0..<?n]"
    using write_card_dump [OF assms(1-5)] by blast
  have blocks: "cd_blocks (tag dv') = cd_blocks (tag dv) ! 0 # take (uiBlocks st) (drop 1 (mtDump st))"
    unfolding w(4) using l by (intro nth_equalityI) (auto simp: dump_block_def nth_Cons' simp del: upt_Suc)
  let ?st = "st\<lparr>mp := p, mtKeys := mtDump st, mtDump := d\<rparr>"
  have nth: "cd_blocks (tag dv') ! b = dump_block (mtDump st) (cd_blocks (tag dv)) b" if "b \<le> uiBlocks st" for b
    unfolding w(4) using that by (simp del: upt_Suc)
  have "\<forall>k\<in>set (cd_blocks (tag dv')). length k = 16"
    unfolding w(4) using assms(4) l by (auto simp: dump_block_def)
  then have r: "ready ?st (tag dv')" using assms(2,4,7) w by (simp add: ready_def)
  have key: "mtDump st ! b = cd_blocks (tag dv') ! b" if "b \<le> uiBlocks st" "is_trailer_block b" for b
  proof -
    have "b \<noteq> 0" using that(2) by (cases b) (simp_all add: is_trailer_block_def)
    then show ?thesis using nth [OF that(1)] by (simp add: dump_block_def)
  qed
  have "opens ?st (tag dv') b" if "b \<le> uiBlocks ?st" for b
  proof -
    let ?t = "last_block (sector b)"
    have t: "?t \<le> uiBlocks st" using whole_sectors [OF l(5)] that by simp
    have "sector ?t = sector b"
      by (cases b rule: sector_cases) (simp_all add: small_block large_block sector_def last_block_def)
    then have "is_trailer_block ?t" unfolding is_trailer by simp
    then show ?thesis using key [OF t] assms(6) [rule_format, of b] that by (simp add: opens_def used_key_def)
  qed
  then have op: "\<forall>b\<le>uiBlocks ?st. opens ?st (tag dv') b" by blast
  obtain q dv'' where rd: "read_card drv False ?st dv' =
      Ret ((True, ?st\<lparr>mp := q, mtDump := map (dumped (mtDump st) (cd_blocks (tag dv'))) [0..<?n] @ drop ?n d\<rparr>), dv'')"
    using read_card_dump [OF assms(1) r op] by auto
  have "map (dumped (mtDump st) (cd_blocks (tag dv'))) [0..<?n] = map ((!) (cd_blocks (tag dv'))) [0..<?n]"
    by (intro map_cong) (auto simp: dumped_def key simp del: upt_Suc)
  also have "\<dots> = cd_blocks (tag dv')" using w(4) map_nth [of "cd_blocks (tag dv')"] by simp
  finally have m: "map (dumped (mtDump st) (cd_blocks (tag dv'))) [0..<?n] = cd_blocks (tag dv')" .
  have "take ?n (cd_blocks (tag dv') @ drop ?n d) = cd_blocks (tag dv')" using w(4) by simp
  moreover have "read_card drv False ((st\<lparr>mp := p\<rparr>)\<lparr>mtKeys := mtDump st, mtDump := d\<rparr>) dv' =
      Ret ((True, ?st\<lparr>mp := q, mtDump := cd_blocks (tag dv') @ drop ?n d\<rparr>), dv'')" using rd unfolding m by simp
  ultimately show ?thesis using w(1) blocks by (intro exI [of _ "st\<lparr>mp := p\<rparr>"] exI [of _ dv'] conjI exI) (assumption+, simp)
qed

lemma dump_written_and_read_back_witness:
  "\<exists>st' dv'. write_card (simulated_reader card_answer) False small_card_state (blank_device small_card) = Ret ((True, st'), dv') \<and>
     cd_blocks (driver_data dv') = replicate 16 7 # drop 1 (plain_sectors 5 9)"
proof -
  have dv: "driver_data (blank_device small_card) = small_card" by (simp add: blank_device_def pn53x_data_new_def nfc_device_new_def)
  have n: "uiBlocks small_card_state = 19" by (simp add: small_card_state_def)
  have d: "\<forall>k\<in>set (mtDump small_card_state). length k = 16" by (auto simp: small_card_state_def plain_sectors_shape(2))
  have c: "cd_blocks small_card ! 0 # take 19 (drop 1 (mtDump small_card_state)) = replicate 16 7 # drop 1 (plain_sectors 5 9)"
    by (simp add: small_card_state_def small_card_def plain_sectors_def numeral_eq_Suc)
  have z: "length zero_blocks = 256" by (simp add: zero_blocks_def)
  from dump_written_and_read_back [OF simulated_reader_field, of small_card_state "blank_device small_card" zero_blocks] small_card_ready d z
  show ?thesis unfolding dv n c by auto
qed

text \<open>Access bits in which a bit and its inverse agree: no key reads the sector.\<close>

lemma locked_sector: "\<not> may_read a (replicate 16 9) b"
  by (simp add: may_read_def well_formed_def condition_def inverted_def)

text \<open>What the properties do not show: a target without a UID - the zeroed one of a program that met no card - makes the program
  read in front of the UID; and the result of \<open>read_card\<close> does not say that a trailer could not be read.\<close>

lemma no_card_undefined: "nai_szUidLen (nai (nti (mfc_nt st))) < 4 \<Longrightarrow> authenticate drv b st dv = Undefined"
  by (simp add: authenticate_def Let_def)

lemma unread_trailer_passes:
  assumes "authenticate drv b st dv = Ret ((True, st1), dv1)" "card_cmd drv MC_READ b st1 dv1 = Ret ((False, st2), dv2)"
    and "b < length (mtDump st2)" "b < length (mtKeys st2)"
  shows "read_trailer drv False b st dv = Ret ((True, st2), dv2)"
  using assms by (simp add: read_trailer_def)

end
