(* ===== verification/Mf_Ultralight.thy ===== *)
theory Mf_Ultralight
  imports Mf_Classic
begin

text \<open>
  \<open>utils/nfc-mfultralight.c\<close>: reading a MIFARE Ultralight card, 16 pages of 4 bytes, into a dump and writing a dump to a card.
\<close>

section \<open>State\<close>

text \<open>The dump is the 64 bytes of its four blocks; \<open>behind_dump\<close> is what follows them in memory, as far as it may be read.\<close>

record mfu =
  mfu_mp :: bytes
  mfu_dump :: bytes
  behind_dump :: bytes
  mfu_nt :: nfc_target

type_synonym ('s, 'a) mfu_op = "mfu \<Rightarrow> 's nfc_device \<Rightarrow> (('a \<times> mfu) \<times> 's nfc_device) outcome"

definition page_cmd :: "'s nfc_driver \<Rightarrow> mifare_cmd \<Rightarrow> nat \<Rightarrow> ('s, bool) mfu_op" where
  "page_cmd drv mc page st dv =
     and_then (nfc_initiator_mifare_cmd drv mc (word_of_nat page) (mfu_mp st) dv) (\<lambda>((ok, p), dv). Ret ((ok, st\<lparr>mfu_mp := p\<rparr>), dv))"

section \<open>Reading and writing\<close>

text \<open>Four pages are read at once.\<close>

fun read_pages :: "'s nfc_driver \<Rightarrow> nat list \<Rightarrow> ('s, bool) mfu_op" where
  "read_pages drv [] st dv = Ret ((True, st), dv)"
| "read_pages drv (page # pages) st dv =
     and_then (page_cmd drv MC_READ page st dv) (\<lambda>((ok, st), dv).
       if ok then
         and_then (copy_into (mfu_dump st) (16 * (page div 4)) (mfu_mp st) 16) (\<lambda>dump.
           read_pages drv pages (st\<lparr>mfu_dump := dump\<rparr>) dv)
       else Ret ((False, st), dv))"

definition mfu_read_card :: "'s nfc_driver \<Rightarrow> ('s, bool) mfu_op" where
  "mfu_read_card drv = read_pages drv [0, 4, 8, 12]"

definition mfu_select_again :: "'s nfc_driver \<Rightarrow> ('s, bool) mfu_op" where
  "mfu_select_again drv st dv =
     and_then (nfc_initiator_select_passive_target drv nmMifare [] (Some (mfu_nt st)) dv) (\<lambda>((res, pnt), dv).
       Ret ((0 \<le> res, st\<lparr>mfu_nt := (case pnt of Some t \<Rightarrow> t | None \<Rightarrow> mfu_nt st)\<rparr>), dv))"

text \<open>The 16 bytes the command takes, of which the card keeps four, begin at the page.\<close>

definition load_page :: "nat \<Rightarrow> mfu \<Rightarrow> mfu outcome" where
  "load_page page st =
     (let memory = mfu_dump st @ behind_dump st; from = 16 * (page div 4) + 4 * (page mod 4) in
      if length memory < from + 16 then Undefined else Ret (st\<lparr>mfu_mp := take 16 (drop from memory)\<rparr>))"

fun write_pages :: "'s nfc_driver \<Rightarrow> bool \<Rightarrow> bool \<Rightarrow> bool \<Rightarrow> nat list \<Rightarrow> ('s, bool) mfu_op" where
  "write_pages drv write_otp write_lock bFailure [] st dv = Ret ((True, st), dv)"
| "write_pages drv write_otp write_lock bFailure (page # pages) st dv =
     (if page = 2 \<and> \<not> write_lock \<or> page = 3 \<and> \<not> write_otp then write_pages drv write_otp write_lock bFailure pages st dv
      else and_then (if bFailure then mfu_select_again drv st dv else Ret ((True, st), dv)) (\<lambda>((ok, st), dv).
        if \<not> ok then Ret ((False, st), dv)
        else and_then (load_page page st) (\<lambda>st.
          and_then (page_cmd drv MC_WRITE page st dv) (\<lambda>((ok, st), dv).
            write_pages drv write_otp write_lock (\<not> ok) pages st dv))))"

text \<open>What the user answers to the two questions; a line that cannot be read leaves the array as it is.\<close>

definition mfu_write_card :: "'s nfc_driver \<Rightarrow> char \<Rightarrow> char \<Rightarrow> ('s, bool) mfu_op" where
  "mfu_write_card drv otp_answer lock_answer =
     write_pages drv (otp_answer = CHR ''y'' \<or> otp_answer = CHR ''Y'') (lock_answer = CHR ''y'' \<or> lock_answer = CHR ''Y'') False [2..<16]"

section \<open>The program\<close>

text \<open>\<open>tolower\<close> is applied to the result of the comparison, which it leaves as it is.\<close>

definition mfu_reading :: "string \<Rightarrow> bool" where
  "mfu_reading arg \<longleftrightarrow> arg \<noteq> [] \<and> hd arg = CHR ''r''"

definition mfu_device :: "'s nfc_driver \<Rightarrow> bool \<Rightarrow> char \<Rightarrow> char \<Rightarrow> bool \<Rightarrow> mfu \<Rightarrow> 's nfc_device \<Rightarrow> (int \<times> bytes option) outcome" where
  "mfu_device drv bReadAction otp_answer lock_answer writable st dv =
     and_then (nfc_initiator_init drv dv) (\<lambda>(res, dv).
       if res < 0 then Ret (1, None)
       else and_then (nfc_set_property_bool drv NP_INFINITE_SELECT False dv) (\<lambda>(res, dv).
         if res < 0 then Ret (1, None)
         else and_then (mfu_select_again drv st dv) (\<lambda>((ok, st), dv).
           if \<not> ok then Ret (1, None)
           else if nai_abtAtqa (nai (nti (mfu_nt st))) ! 1 \<noteq> 0x44 then Ret (1, None)
           else if bReadAction then
             and_then (mfu_read_card drv st dv) (\<lambda>((ok, st), dv).
               if \<not> ok then Ret (0, None) else if \<not> writable then Ret (1, None) else Ret (0, Some (mfu_dump st)))
           else and_then (mfu_write_card drv otp_answer lock_answer st dv) (\<lambda>_. Ret (0, None)))))"

definition mfultralight_main ::
    "'s nfc_driver \<Rightarrow> string list \<Rightarrow> bytes option \<Rightarrow> bytes \<Rightarrow> char \<Rightarrow> char \<Rightarrow> bool \<Rightarrow> 's nfc_device option \<Rightarrow> nfc_target \<Rightarrow>
     (int \<times> bytes option) outcome" where
  "mfultralight_main drv args dump_file behind otp_answer lock_answer writable pnd fresh =
     (if length args < 2 then Ret (1, None)
      else
        let bReadAction = mfu_reading (hd args) in
        case (if bReadAction then Some (replicate 64 0) else case dump_file of None \<Rightarrow> None | Some bs \<Rightarrow> if length bs < 64 then None else Some (take 64 bs)) of
          None \<Rightarrow> Ret (1, None)
        | Some dump \<Rightarrow>
            (case pnd of
               None \<Rightarrow> Ret (1, None)
             | Some dv \<Rightarrow>
                 mfu_device drv bReadAction otp_answer lock_answer writable
                   \<lparr>mfu_mp = replicate 16 0, mfu_dump = dump, behind_dump = behind, mfu_nt = fresh\<rparr> dv))"

section \<open>A MIFARE Ultralight card\<close>

text \<open>A card of 16 pages: reading gives four pages from the one that is asked for, around the end; the first two pages are never
  written, of the third only the lock bits and of the fourth all bits can be set and not cleared, of the others a write keeps the first four bytes.\<close>

type_synonym mfu_card = "bytes list"

definition or_bytes :: "bytes \<Rightarrow> bytes \<Rightarrow> bytes" where
  "or_bytes xs ys = map (\<lambda>(x, y). x OR y) (zip xs ys)"

definition written_page :: "nat \<Rightarrow> bytes \<Rightarrow> bytes \<Rightarrow> bytes" where
  "written_page page old new =
     (if page = 2 then take 2 old @ or_bytes (drop 2 old) (drop 2 new) else if page = 3 then or_bytes old new else new)"

definition mfu_answer :: "bytes \<Rightarrow> mfu_card \<Rightarrow> bytes option \<times> mfu_card" where
  "mfu_answer cmd c =
     (case cmd of
        mc # b # arg \<Rightarrow>
          let n = unat b in
          if mc = 0x30 \<and> arg = [] \<and> n < 16 then (Some (concat (map (\<lambda>i. c ! ((n + i) mod 16)) [0..<4])), c)
          else if mc = 0xA0 \<and> length arg = 16 \<and> 2 \<le> n \<and> n < 16 then (Some [], c[n := written_page n (c ! n) (take 4 arg)])
          else (None, c)
      | _ \<Rightarrow> (None, c))"

definition mfu_card_ok :: "mfu_card \<Rightarrow> bool" where
  "mfu_card_ok c \<longleftrightarrow> length c = 16 \<and> (\<forall>p\<in>set c. length p = 4)"

section \<open>Reading a card\<close>

lemma paged:
  assumes "\<forall>p\<in>set c. length p = (k :: nat)"
  shows "length (concat c) = k * length c" "take (k * n) (concat c) = concat (take n c)" "drop (k * n) (concat c) = concat (drop n c)"
proof -
  show "length (concat c) = k * length c" using assms by (induction c) auto
  show "take (k * n) (concat c) = concat (take n c)" using assms
  proof (induction c arbitrary: n)
    case (Cons p c)
    then show ?case by (cases n) auto
  qed simp
  show "drop (k * n) (concat c) = concat (drop n c)" using assms
  proof (induction c arbitrary: n)
    case (Cons p c)
    then show ?case by (cases n) auto
  qed simp
qed

lemma four_pages:
  assumes "mfu_card_ok c" "n \<in> {0, 4, 8, 12}"
  shows "concat (map (\<lambda>i. c ! ((n + i) mod 16)) [0..<4]) = take 16 (drop (4 * n) (concat c))"
proof -
  have c: "\<forall>p\<in>set c. length p = 4" "length c = 16" using assms(1) by (simp_all add: mfu_card_ok_def)
  have "map (\<lambda>i. c ! ((n + i) mod 16)) [0..<4] = take 4 (drop n c)"
    using c(2) assms(2) by (intro nth_equalityI) auto
  moreover have "\<forall>p\<in>set (drop n c). length p = 4" using c(1) set_drop_subset [of n c] by blast
  from paged(2) [OF this, of 4] have "take 16 (concat (drop n c)) = concat (take 4 (drop n c))" by simp
  ultimately show ?thesis unfolding paged(3) [OF c(1)] by simp
qed

lemma page_read:
  assumes "in_field mfu_answer drv tag" "length (mfu_mp st) = 16" "mfu_card_ok (tag dv)" "n \<in> {0, 4, 8, 12}"
  shows "\<exists>dv'. page_cmd drv MC_READ n st dv = Ret ((True, st\<lparr>mfu_mp := take 16 (drop (4 * n) (concat (tag dv)))\<rparr>), dv') \<and> tag dv' = tag dv"
proof -
  let ?r = "take 16 (drop (4 * n) (concat (tag dv)))"
  have n: "unat (word_of_nat n :: byte) = n" "n < 16" using assms(4) by auto
  have "length (concat (tag dv)) = 64" using assms(3) paged(1) [of "tag dv" 4] by (simp add: mfu_card_ok_def)
  then have "length ?r = 16" using assms(4) by auto
  moreover have "mfu_answer (mc_code MC_READ # word_of_nat n # take (szParamLen MC_READ) (mfu_mp st)) (tag dv) = (Some ?r, tag dv)"
    unfolding mfu_answer_def using n four_pages [OF assms(3,4)] by (simp del: upt_conv_Nil)
  ultimately show ?thesis using mifare_cmd_answer [OF assms(1,2)] by (fastforce simp: page_cmd_def)
qed

lemma copied_block:
  assumes "length dump = 64" "length c = 64" "take n dump = take n c" "n + 16 \<le> 64"
  shows "\<exists>dump'. copy_into dump n (take 16 (drop n c)) 16 = Ret dump' \<and> length dump' = 64 \<and> take (n + 16) dump' = take (n + 16) c"
proof -
  have "copy_into dump n (take 16 (drop n c)) 16 = Ret (splice dump n (take 16 (drop n c)))"
    using assms by (simp add: copy_into_def)
  moreover have "splice dump n (take 16 (drop n c)) = take n c @ take 16 (drop n c) @ drop (n + 16) dump"
    using assms by (simp add: splice_def)
  then have "splice dump n (take 16 (drop n c)) = take (n + 16) c @ drop (n + 16) dump" by (simp add: take_add)
  ultimately show ?thesis using assms by simp
qed

lemma read_pages_card:
  assumes "in_field mfu_answer drv tag" "length (mfu_mp st) = 16" "length (mfu_dump st) = 64" "mfu_card_ok (tag dv)"
  shows "\<exists>p dv'. mfu_read_card drv st dv = Ret ((True, st\<lparr>mfu_mp := p, mfu_dump := concat (tag dv)\<rparr>), dv') \<and> tag dv' = tag dv"
proof -
  let ?c = "concat (tag dv)"
  have c: "length ?c = 64" using assms(4) paged(1) [of "tag dv" 4] by (simp add: mfu_card_ok_def)
  have step: "\<exists>st' dv'. read_pages drv (n # ns) s d = read_pages drv ns st' dv' \<and> length (mfu_mp st') = 16 \<and> tag dv' = tag dv \<and>
      (\<exists>p q. st' = st\<lparr>mfu_mp := p, mfu_dump := q\<rparr>) \<and> length (mfu_dump st') = 64 \<and> take (4 * n + 16) (mfu_dump st') = take (4 * n + 16) ?c"
    if "length (mfu_mp s) = 16" "tag d = tag dv" "\<exists>p q. s = st\<lparr>mfu_mp := p, mfu_dump := q\<rparr>" "length (mfu_dump s) = 64"
      "take (4 * n) (mfu_dump s) = take (4 * n) ?c" "n \<in> {0, 4, 8, 12}" for n ns s d
  proof -
    note h = that
    let ?r = "take 16 (drop (4 * n) ?c)"
    obtain d' where d': "page_cmd drv MC_READ n s d = Ret ((True, s\<lparr>mfu_mp := ?r\<rparr>), d')" "tag d' = tag dv"
      using page_read [OF assms(1) h(1) _ h(6)] h(2) assms(4) by metis
    have n: "16 * (n div 4) = 4 * n" "4 * n + 16 \<le> 64" using h(6) by auto
    obtain q where q: "copy_into (mfu_dump s) (4 * n) ?r 16 = Ret q" "length q = 64" "take (4 * n + 16) q = take (4 * n + 16) ?c"
      using copied_block [OF h(4) c h(5) n(2)] by blast
    have r: "length ?r = 16" using c n(2) by simp
    have "read_pages drv (n # ns) s d = read_pages drv ns (s\<lparr>mfu_mp := ?r, mfu_dump := q\<rparr>) d'" using d' q(1) by (simp add: n(1))
    moreover have "s\<lparr>mfu_mp := ?r, mfu_dump := q\<rparr> = st\<lparr>mfu_mp := ?r, mfu_dump := q\<rparr>" using h(3) by auto
    ultimately show ?thesis using d'(2) q(2,3) r by (intro exI [of _ "st\<lparr>mfu_mp := ?r, mfu_dump := q\<rparr>"] exI [of _ d']) auto
  qed
  have st: "\<exists>p q. st = st\<lparr>mfu_mp := p, mfu_dump := q\<rparr>" by (intro exI [of _ "mfu_mp st"] exI [of _ "mfu_dump st"]) simp
  from step [OF assms(2) refl st assms(3), of 0 "[4, 8, 12]"] obtain s1 d1 where
    s1: "mfu_read_card drv st dv = read_pages drv [4, 8, 12] s1 d1" "length (mfu_mp s1) = 16" "tag d1 = tag dv"
      "\<exists>p q. s1 = st\<lparr>mfu_mp := p, mfu_dump := q\<rparr>" "length (mfu_dump s1) = 64" "take 16 (mfu_dump s1) = take 16 ?c"
    unfolding mfu_read_card_def by auto
  from step [OF s1(2-5), of 4 "[8, 12]"] s1(6) obtain s2 d2 where
    s2: "read_pages drv [4, 8, 12] s1 d1 = read_pages drv [8, 12] s2 d2" "length (mfu_mp s2) = 16" "tag d2 = tag dv"
      "\<exists>p q. s2 = st\<lparr>mfu_mp := p, mfu_dump := q\<rparr>" "length (mfu_dump s2) = 64" "take 32 (mfu_dump s2) = take 32 ?c"
    by auto
  from step [OF s2(2-5), of 8 "[12]"] s2(6) obtain s3 d3 where
    s3: "read_pages drv [8, 12] s2 d2 = read_pages drv [12] s3 d3" "length (mfu_mp s3) = 16" "tag d3 = tag dv"
      "\<exists>p q. s3 = st\<lparr>mfu_mp := p, mfu_dump := q\<rparr>" "length (mfu_dump s3) = 64" "take 48 (mfu_dump s3) = take 48 ?c"
    by auto
  from step [OF s3(2-5), of 12 "[]"] s3(6) obtain p q d4 where
    s4: "read_pages drv [12] s3 d3 = Ret ((True, st\<lparr>mfu_mp := p, mfu_dump := q\<rparr>), d4)" "tag d4 = tag dv" "length q = 64" "take 64 q = take 64 ?c"
    by auto
  then have "q = ?c" using c by simp
  then show ?thesis using s1(1) s2(1) s3(1) s4(1,2) by (intro exI [of _ p] exI [of _ d4]) simp
qed

section \<open>Writing a card\<close>

text \<open>What a page is after a write, with the answers of the user.\<close>

definition page_after :: "bytes \<Rightarrow> bool \<Rightarrow> bool \<Rightarrow> mfu_card \<Rightarrow> nat \<Rightarrow> bytes" where
  "page_after dump write_otp write_lock c i =
     (if i < 2 \<or> i = 2 \<and> \<not> write_lock \<or> i = 3 \<and> \<not> write_otp then c ! i
      else written_page i (c ! i) (take 4 (drop (4 * i) dump)))"

lemma loaded_page:
  assumes "length (mfu_dump st) = 64" "page < 16"
  shows "load_page page st =
    (if length (behind_dump st) + 48 < 4 * page then Undefined
     else Ret (st\<lparr>mfu_mp := take 16 (drop (4 * page) (mfu_dump st @ behind_dump st))\<rparr>))"
proof -
  have "16 * (page div 4) + 4 * (page mod 4) = 4 * page" by presburger
  then show ?thesis using assms by (simp add: load_page_def Let_def del: drop_append)
qed

lemma page_written:
  assumes "in_field mfu_answer drv tag" "length (mfu_mp st) = 16" "mfu_card_ok (tag dv)" "2 \<le> n" "n < 16"
  shows "\<exists>dv'. page_cmd drv MC_WRITE n st dv = Ret ((True, st), dv') \<and>
    tag dv' = (tag dv)[n := written_page n (tag dv ! n) (take 4 (mfu_mp st))]"
proof -
  have n: "unat (word_of_nat n :: byte) = n" using assms(5) by (simp add: unat_of_nat)
  have "mfu_answer (mc_code MC_WRITE # word_of_nat n # take (szParamLen MC_WRITE) (mfu_mp st)) (tag dv) =
      (Some [], (tag dv)[n := written_page n (tag dv ! n) (take 4 (mfu_mp st))])"
    unfolding mfu_answer_def using n assms(2,4,5) by simp
  then show ?thesis using mifare_cmd_answer [OF assms(1,2)] by (fastforce simp: page_cmd_def)
qed

lemma written_page_length: "length old = 4 \<Longrightarrow> length new = 4 \<Longrightarrow> length (written_page n old new) = 4"
  by (simp add: written_page_def or_bytes_def)

lemma write_pages_step:
  assumes "in_field mfu_answer drv tag" "length (mfu_mp st) = 16" "mfu_card_ok (tag dv)" "2 \<le> n" "n < 16"
    and "length (mfu_dump st) = 64" "4 * n \<le> length (behind_dump st) + 48"
  shows "\<exists>p dv'. write_pages drv write_otp write_lock False (n # ns) st dv = write_pages drv write_otp write_lock False ns (st\<lparr>mfu_mp := p\<rparr>) dv' \<and>
    length p = 16 \<and> mfu_card_ok (tag dv') \<and> tag dv' = (tag dv)[n := page_after (mfu_dump st) write_otp write_lock (tag dv) n]"
proof (cases "n = 2 \<and> \<not> write_lock \<or> n = 3 \<and> \<not> write_otp")
  case True
  then have "page_after (mfu_dump st) write_otp write_lock (tag dv) n = tag dv ! n" by (simp add: page_after_def)
  then show ?thesis using True assms(2,3) by (intro exI [of _ "mfu_mp st"] exI [of _ dv]) simp
next
  case False
  define p where "p = take 16 (drop (4 * n) (mfu_dump st @ behind_dump st))"
  have p: "length p = 16" unfolding p_def using assms(6,7) by simp
  have "drop (4 * n) (mfu_dump st @ behind_dump st) = drop (4 * n) (mfu_dump st) @ behind_dump st" using assms(5,6) by simp
  then have p4: "take 4 p = take 4 (drop (4 * n) (mfu_dump st))" unfolding p_def using assms(5,6) by (simp add: min_absorb1)
  obtain dv' where w: "page_cmd drv MC_WRITE n (st\<lparr>mfu_mp := p\<rparr>) dv = Ret ((True, st\<lparr>mfu_mp := p\<rparr>), dv')"
    "tag dv' = (tag dv)[n := written_page n (tag dv ! n) (take 4 p)]"
    using page_written [OF assms(1) _ assms(3-5), of "st\<lparr>mfu_mp := p\<rparr>"] p by auto
  have after: "page_after (mfu_dump st) write_otp write_lock (tag dv) n = written_page n (tag dv ! n) (take 4 p)"
    using False assms(4) unfolding page_after_def p4 by auto
  have c: "length (tag dv) = 16" "\<forall>q\<in>set (tag dv). length q = 4" using assms(3) by (simp_all add: mfu_card_ok_def)
  have len: "length (written_page n (tag dv ! n) (take 4 p)) = 4"
    using c assms(5) p by (intro written_page_length) simp_all
  have "\<forall>q\<in>set (tag dv'). length q = 4"
  proof
    fix q assume "q \<in> set (tag dv')"
    then have "q = written_page n (tag dv ! n) (take 4 p) \<or> q \<in> set (tag dv)"
      unfolding w(2) using set_update_subset_insert by fast
    then show "length q = 4" using len c(2) by blast
  qed
  then have ok: "mfu_card_ok (tag dv')" unfolding mfu_card_ok_def w(2) using c(1) by simp
  have "load_page n st = Ret (st\<lparr>mfu_mp := p\<rparr>)" unfolding p_def using loaded_page [OF assms(6,5)] assms(7) by simp
  then have "write_pages drv write_otp write_lock False (n # ns) st dv =
      write_pages drv write_otp write_lock False ns (st\<lparr>mfu_mp := p\<rparr>) dv'"
    using False w(1) by auto
  then show ?thesis using p ok w(2) after by (intro exI [of _ p] exI [of _ dv'] conjI) simp_all
qed

lemma write_pages_card:
  assumes "in_field mfu_answer drv tag" "length (mfu_mp st) = 16" "mfu_card_ok (tag dv)" "2 \<le> b" "b \<le> m" "m \<le> 16"
    and "length (mfu_dump st) = 64" "4 * m \<le> length (behind_dump st) + 52"
  shows "\<exists>p dv'. write_pages drv write_otp write_lock False ([b..<m] @ ns) st dv = write_pages drv write_otp write_lock False ns (st\<lparr>mfu_mp := p\<rparr>) dv' \<and>
    length p = 16 \<and> mfu_card_ok (tag dv') \<and>
    tag dv' = take b (tag dv) @ map (page_after (mfu_dump st) write_otp write_lock (tag dv)) [b..<m] @ drop m (tag dv)"
  using assms(2-8)
proof (induction "m - b" arbitrary: b st dv)
  case 0
  then show ?case by (intro exI [of _ "mfu_mp st"] exI [of _ dv]) simp
next
  case (Suc k)
  let ?f = "page_after (mfu_dump st) write_otp write_lock"
  have b: "b < m" using Suc.hyps(2) by simp
  have s: "[b..<m] = b # [Suc b..<m]" using b by (simp add: upt_conv_Cons)
  from write_pages_step [OF assms(1) Suc.prems(1-3) _ Suc.prems(6), of write_otp write_lock "[Suc b..<m] @ ns"] b Suc.prems obtain p1 dv1 where
    w: "write_pages drv write_otp write_lock False ([b..<m] @ ns) st dv = write_pages drv write_otp write_lock False ([Suc b..<m] @ ns) (st\<lparr>mfu_mp := p1\<rparr>) dv1"
      "length p1 = 16" "mfu_card_ok (tag dv1)" "tag dv1 = (tag dv)[b := ?f (tag dv) b]" unfolding s by auto
  have k: "k = m - Suc b" using Suc.hyps(2) by simp
  have pre: "length (mfu_mp (st\<lparr>mfu_mp := p1\<rparr>)) = 16" "2 \<le> Suc b" "Suc b \<le> m" "length (mfu_dump (st\<lparr>mfu_mp := p1\<rparr>)) = 64"
    "4 * m \<le> length (behind_dump (st\<lparr>mfu_mp := p1\<rparr>)) + 52"
    using w(2) b Suc.prems by simp_all
  from Suc.hyps(1) [OF k pre(1) w(3) pre(2,3) Suc.prems(5) pre(4,5)] obtain p dv' where
    r: "write_pages drv write_otp write_lock False ([Suc b..<m] @ ns) (st\<lparr>mfu_mp := p1\<rparr>) dv1 =
        write_pages drv write_otp write_lock False ns (st\<lparr>mfu_mp := p\<rparr>) dv'" "length p = 16" "mfu_card_ok (tag dv')"
      "tag dv' = take (Suc b) (tag dv1) @ map (?f (tag dv1)) [Suc b..<m] @ drop m (tag dv1)" by auto
  have c: "length (tag dv) = 16" using Suc.prems(2) by (simp add: mfu_card_ok_def)
  have same: "map (?f (tag dv1)) [Suc b..<m] = map (?f (tag dv)) [Suc b..<m]"
    unfolding w(4) by (intro map_cong) (auto simp: page_after_def)
  have "take (Suc b) (tag dv1) = take b (tag dv) @ [?f (tag dv) b]" "drop m (tag dv1) = drop m (tag dv)"
    unfolding w(4) using c b Suc.prems(5) by (simp_all add: take_Suc_conv_app_nth)
  then have "tag dv' = take b (tag dv) @ map (?f (tag dv)) [b..<m] @ drop m (tag dv)" unfolding r(4) same s by simp
  then show ?case using w(1) r(1-3) by (intro exI [of _ p] exI [of _ dv']) simp
qed

definition yes :: "char \<Rightarrow> bool" where
  "yes c \<longleftrightarrow> c = CHR ''y'' \<or> c = CHR ''Y''"

lemma mfu_write_pages: "mfu_write_card drv otp_answer lock_answer = write_pages drv (yes otp_answer) (yes lock_answer) False [2..<16]"
  by (simp add: mfu_write_card_def yes_def)

lemma write_past_dump:
  assumes "in_field mfu_answer drv tag" "length (mfu_mp st) = 16" "length (mfu_dump st) = 64" "mfu_card_ok (tag dv)"
    and "length (behind_dump st) < 12"
  shows "mfu_write_card drv otp_answer lock_answer st dv = Undefined"
proof -
  define l where "l = length (behind_dump st)"
  let ?m = "(l + 48) div 4 + 1"
  have "l < 12" using assms(5) by (simp add: l_def)
  then have m': "13 \<le> ?m" "?m \<le> 15" "4 * ?m \<le> l + 52" "l + 48 < 4 * ?m" by presburger+
  note m = m' [folded l_def]
  have "[2..<16] = [2..<?m] @ [?m..<16]" using m upt_add_eq_append [of 2 ?m "16 - ?m"] by simp
  moreover have "[?m..<16] = ?m # [Suc ?m..<16]" using m by (simp add: upt_conv_Cons)
  moreover obtain p dv' where "write_pages drv (yes otp_answer) (yes lock_answer) False ([2..<?m] @ [?m..<16]) st dv =
      write_pages drv (yes otp_answer) (yes lock_answer) False [?m..<16] (st\<lparr>mfu_mp := p\<rparr>) dv'"
    using write_pages_card [OF assms(1,2,4) order_refl _ _ assms(3) m(3) [unfolded l_def]] m(1,2) unfolding l_def by force
  moreover have "load_page ?m (st\<lparr>mfu_mp := p\<rparr>) = Undefined" for p
    using loaded_page [of "st\<lparr>mfu_mp := p\<rparr>" ?m] assms(3) m(2,4) by (simp add: l_def)
  moreover have "?m \<noteq> 2" "?m \<noteq> 3" using m(1) by auto
  ultimately show ?thesis unfolding mfu_write_pages by simp
qed

lemma write_whole_dump:
  assumes "in_field mfu_answer drv tag" "length (mfu_mp st) = 16" "length (mfu_dump st) = 64" "mfu_card_ok (tag dv)"
    and "12 \<le> length (behind_dump st)"
  shows "\<exists>p dv'. mfu_write_card drv otp_answer lock_answer st dv = Ret ((True, st\<lparr>mfu_mp := p\<rparr>), dv') \<and> length p = 16 \<and>
    mfu_card_ok (tag dv') \<and> tag dv' = map (page_after (mfu_dump st) (yes otp_answer) (yes lock_answer) (tag dv)) [0..<16]"
proof -
  let ?f = "page_after (mfu_dump st) (yes otp_answer) (yes lock_answer) (tag dv)"
  obtain p dv' where w: "write_pages drv (yes otp_answer) (yes lock_answer) False ([2..<16] @ []) st dv =
      write_pages drv (yes otp_answer) (yes lock_answer) False [] (st\<lparr>mfu_mp := p\<rparr>) dv'" "length p = 16" "mfu_card_ok (tag dv')"
      "tag dv' = take 2 (tag dv) @ map ?f [2..<16] @ drop 16 (tag dv)"
    using write_pages_card [where m = 16 and b = 2 and ns = "[]", OF assms(1,2,4) order_refl _ order_refl assms(3)] assms(5) by force
  have c: "length (tag dv) = 16" using assms(4) by (simp add: mfu_card_ok_def)
  have "take 2 (tag dv) = map ?f [0..<2]" using c by (intro nth_equalityI) (auto simp: page_after_def)
  then have "tag dv' = map ?f ([0..<2] @ [2..<16])" unfolding w(4) using c by (simp del: upt_rec)
  also have "[0..<2] @ [2..<16] = [0..<16 :: nat]" using upt_add_eq_append [of 0 2 14] by simp
  finally show ?thesis using w(1-3) unfolding mfu_write_pages by (intro exI [of _ p] exI [of _ dv']) simp
qed

text \<open>C37. Writing a dump to a MIFARE Ultralight card reads past its end: the command takes 16 bytes from each page on, and of the
  last three pages there are fewer.  Only where memory goes on for twelve bytes behind the dump the program is defined; then
  it writes the pages the user allows, the first two excepted, whatever stands there, and reading the card gives the dump back from the fifth page on.\<close>
theorem ultralight_write:
  assumes "in_field mfu_answer drv tag" "length (mfu_mp st) = 16" "length (mfu_dump st) = 64" "mfu_card_ok (tag dv)"
  shows "if length (behind_dump st) < 12 then mfu_write_card drv otp_answer lock_answer st dv = Undefined
    else \<exists>st' dv'. mfu_write_card drv otp_answer lock_answer st dv = Ret ((True, st'), dv') \<and>
      tag dv' = map (page_after (mfu_dump st) (yes otp_answer) (yes lock_answer) (tag dv)) [0..<16] \<and>
      (\<exists>st'' dv''. mfu_read_card drv st' dv' = Ret ((True, st''), dv'') \<and> mfu_dump st'' = concat (tag dv') \<and>
         drop 16 (mfu_dump st'') = drop 16 (mfu_dump st))"
proof (cases "length (behind_dump st) < 12")
  case True
  then show ?thesis using write_past_dump [OF assms] by simp
next
  case False
  let ?f = "page_after (mfu_dump st) (yes otp_answer) (yes lock_answer) (tag dv)"
  obtain p dv' where w: "mfu_write_card drv otp_answer lock_answer st dv = Ret ((True, st\<lparr>mfu_mp := p\<rparr>), dv')" "length p = 16"
    "mfu_card_ok (tag dv')" "tag dv' = map ?f [0..<16]"
    using write_whole_dump [OF assms] False by (metis not_less)
  from read_pages_card [OF assms(1) _ _ w(3), of "st\<lparr>mfu_mp := p\<rparr>"] w(2) assms(3) obtain q dv'' where
    r: "mfu_read_card drv (st\<lparr>mfu_mp := p\<rparr>) dv' = Ret ((True, st\<lparr>mfu_mp := q, mfu_dump := concat (tag dv')\<rparr>), dv'')" by auto
  have pages: "\<forall>q\<in>set (tag dv'). length q = 4" using w(3) by (simp add: mfu_card_ok_def)
  have "drop 16 (concat (tag dv')) = concat (drop 4 (tag dv'))" using paged(3) [OF pages, of 4] by simp
  also have "drop 4 (tag dv') = map ?f [4..<16]" unfolding w(4) drop_map drop_upt by simp
  also have "\<dots> = map (\<lambda>i. take 4 (drop (4 * i) (mfu_dump st))) [4..<16]"
    by (intro map_cong) (auto simp: page_after_def written_page_def)
  also have "concat \<dots> = drop 16 (mfu_dump st)"
  proof -
    have "concat (map (\<lambda>i. take 4 (drop (4 * i) xs)) [a..<b]) = take (4 * (b - a)) (drop (4 * a) xs)" if "a \<le> b" for a b and xs :: bytes
      using that
    proof (induction "b - a" arbitrary: a)
      case (Suc k)
      then have "[a..<b] = a # [Suc a..<b]" "4 * (b - a) = 4 + 4 * (b - Suc a)" by (simp_all add: upt_conv_Cons)
      then show ?case using Suc.hyps(1) [of "Suc a"] Suc.hyps(2) Suc.prems by (simp add: take_add ac_simps)
    qed simp
    from this [of 4 16 "mfu_dump st"] show ?thesis using assms(3) by simp
  qed
  finally have tail: "drop 16 (concat (tag dv')) = drop 16 (mfu_dump st)" .
  have rd: "\<exists>st'' dv''. mfu_read_card drv (st\<lparr>mfu_mp := p\<rparr>) dv' = Ret ((True, st''), dv'') \<and> mfu_dump st'' = concat (tag dv') \<and>
      drop 16 (mfu_dump st'') = drop 16 (mfu_dump st)"
    by (rule exI [of _ "st\<lparr>mfu_mp := q, mfu_dump := concat (tag dv')\<rparr>"], rule exI [of _ dv'']) (simp add: r tail)
  show ?thesis unfolding if_not_P [OF False]
    by (rule exI, rule exI, rule conjI, rule w(1), rule conjI, rule w(4), rule rd)
qed

lemma ultralight_write_witness:
  "mfu_write_card (simulated_reader mfu_answer) CHR ''y'' CHR ''n''
     \<lparr>mfu_mp = replicate 16 0, mfu_dump = replicate 64 5, behind_dump = [], mfu_nt = mfc_nt small_card_state\<rparr>
     (blank_device (replicate 16 (replicate 4 0))) = Undefined \<and>
   (\<exists>st' dv'. mfu_write_card (simulated_reader mfu_answer) CHR ''y'' CHR ''n''
     \<lparr>mfu_mp = replicate 16 0, mfu_dump = replicate 64 5, behind_dump = replicate 12 0, mfu_nt = mfc_nt small_card_state\<rparr>
     (blank_device (replicate 16 (replicate 4 0))) = Ret ((True, st'), dv') \<and>
     driver_data dv' = replicate 3 (replicate 4 0) @ replicate 13 (replicate 4 5))"
proof -
  let ?st = "\<lambda>behind. \<lparr>mfu_mp = replicate 16 0, mfu_dump = replicate 64 5, behind_dump = behind, mfu_nt = mfc_nt small_card_state\<rparr>"
  let ?dv = "blank_device (replicate 16 (replicate 4 0))"
  have dv: "driver_data ?dv = replicate 16 (replicate 4 0)" by (simp add: blank_device_def pn53x_data_new_def nfc_device_new_def)
  have pages: "map (page_after (replicate 64 5) True False (replicate 16 (replicate 4 0))) [0..<16] =
      replicate 3 (replicate 4 0) @ replicate 13 (replicate 4 5)"
    by (simp add: page_after_def written_page_def or_bytes_def upt_rec numeral_eq_Suc)
  have yes: "yes CHR ''y''" "\<not> yes CHR ''n''" by (simp_all add: yes_def)
  have ok: "mfu_card_ok (driver_data ?dv)" unfolding dv by (simp add: mfu_card_ok_def)
  have len: "length (mfu_mp (?st b)) = 16" "length (mfu_dump (?st b)) = 64" for b by simp_all
  have "\<exists>st' dv'. mfu_write_card (simulated_reader mfu_answer) CHR ''y'' CHR ''n'' (?st (replicate 12 0)) ?dv = Ret ((True, st'), dv') \<and>
     driver_data dv' = replicate 3 (replicate 4 0) @ replicate 13 (replicate 4 5)"
    using ultralight_write [OF simulated_reader_field len ok, of "replicate 12 0" "CHR ''y''" "CHR ''n''"] pages yes unfolding dv by auto
  moreover have "mfu_write_card (simulated_reader mfu_answer) CHR ''y'' CHR ''n'' (?st []) ?dv = Undefined"
    using ultralight_write [OF simulated_reader_field len ok, of "[]" "CHR ''y''" "CHR ''n''"] by simp
  ultimately show ?thesis by blast
qed

end
