(* ===== verification/Forum_Tags.thy ===== *)
theory Forum_Tags
  imports Nfc_Api
begin

text \<open>
  The emulated tags of the NFC Forum: type 4, \<open>utils/nfc-emulate-forum-tag4.c\<close>, a small file system behind APDUs, and type 2,
  \<open>examples/nfc-emulate-forum-tag2.c\<close>, a memory behind one command.
\<close>

abbreviation (input) ENOTSUP :: int where "ENOTSUP \<equiv> 95"
abbreviation (input) ENOSPC :: int where "ENOSPC \<equiv> 28"
abbreviation (input) ECONNABORTED :: int where "ECONNABORTED \<equiv> 103"

section \<open>Type 4\<close>

datatype tag4_file = No_file | CC_file | NDEF_file

record tag4 =
  ndef_file :: bytes
  ndef_file_len :: nat
  current_file :: tag4_file
  capability_container :: bytes
  type4v :: nat

definition nfcforum_capability_container :: bytes where
  "nfcforum_capability_container =
     [0x00, 0x0F, 0x20, 0x00, 0x54, 0x00, 0xFF, 0x04, 0x06, 0xE1, 0x04, 0xFF, 0xFE, 0x00, 0x00]"

definition application_name :: "nat \<Rightarrow> bytes" where
  "application_name v = [0xD2, 0x76, 0x00, 0x00, 0x85, 0x01, (if v = 1 then 0x00 else 0x01)]"

text \<open>The big-endian offset of a command.\<close>

definition apdu_offset :: "bytes \<Rightarrow> nat" where
  "apdu_offset data_in = unat (data_in ! 2) * 256 + unat (data_in ! 3)"

type_synonym tag4_answer = "(int \<times> bytes \<times> tag4) outcome"

definition select_by_id :: "tag4 \<Rightarrow> bytes \<Rightarrow> tag4_answer" where
  "select_by_id st data_in =
     and_then (byte_at data_in 4) (\<lambda>lc.
       if lc \<noteq> 2 then Ret (2, [0x6a, 0x00], st\<lparr>current_file := No_file\<rparr>)
       else and_then (read_at data_in 5 2) (\<lambda>name.
         if name = [0xE1, 0x03] then Ret (2, [0x90, 0x00], st\<lparr>current_file := CC_file\<rparr>)
         else if name = [0xE1, 0x04] then Ret (2, [0x90, 0x00], st\<lparr>current_file := NDEF_file\<rparr>)
         else Ret (2, [0x6a, 0x00], st\<lparr>current_file := No_file\<rparr>)))"

definition select_by_name :: "tag4 \<Rightarrow> bytes \<Rightarrow> tag4_answer" where
  "select_by_name st data_in =
     (if type4v st \<noteq> 1 \<and> type4v st \<noteq> 2 then Ret (2, [0x6a, 0x82], st)
      else and_then (byte_at data_in 4) (\<lambda>lc.
        if lc \<noteq> 7 then Ret (2, [0x6a, 0x82], st)
        else and_then (read_at data_in 5 7) (\<lambda>name.
          Ret (2, if name = application_name (type4v st) then [0x90, 0x00] else [0x6a, 0x82], st))))"

definition read_binary :: "tag4 \<Rightarrow> bytes \<Rightarrow> nat \<Rightarrow> tag4_answer" where
  "read_binary st data_in data_out_len =
     and_then (byte_at data_in 4) (\<lambda>lc.
       if data_out_len < unat lc + 2 then Ret (- ENOSPC, [], st)
       else case current_file st of
         No_file \<Rightarrow> Ret (2, [0x6a, 0x82], st)
       | CC_file \<Rightarrow>
           and_then (read_at (capability_container st) (apdu_offset data_in) (unat lc)) (\<lambda>d.
             Ret (int (unat lc) + 2, d @ [0x90, 0x00], st))
       | NDEF_file \<Rightarrow>
           and_then (read_at (ndef_file st) (apdu_offset data_in) (unat lc)) (\<lambda>d.
             Ret (int (unat lc) + 2, d @ [0x90, 0x00], st)))"

definition update_binary :: "tag4 \<Rightarrow> bytes \<Rightarrow> tag4_answer" where
  "update_binary st data_in =
     and_then (byte_at data_in 4) (\<lambda>lc.
     and_then (read_at data_in 5 (unat lc)) (\<lambda>d.
     and_then (copy_into (ndef_file st) (apdu_offset data_in) d (unat lc)) (\<lambda>f.
       let st = st\<lparr>ndef_file := f\<rparr> in
       if apdu_offset data_in = 0 then
         and_then (read_at f 0 2) (\<lambda>n. Ret (2, [0x90, 0x00], st\<lparr>ndef_file_len := unat (n ! 0) * 256 + unat (n ! 1) + 2\<rparr>))
       else Ret (2, [0x90, 0x00], st))))"

definition nfcforum_tag4_io :: "tag4 emulator_io" where
  "nfcforum_tag4_io st t data_in data_out_len =
     and_then
       (if data_in = [] then Ret (0, [], st)
        else if length data_in < 4 then Ret (- ENOTSUP, [], st)
        else if data_in ! 0 \<noteq> 0x00 then Ret (- ENOTSUP, [], st)
        else if data_in ! 1 = 0xA4 then
          (if data_in ! 2 = 0x00 then
             (if data_in ! 3 OR 0x0C \<noteq> 0x0C then Ret (- ENOTSUP, [], st) else select_by_id st data_in)
           else if data_in ! 2 = 0x04 then
             (if data_in ! 3 \<noteq> 0x00 then Ret (- ENOTSUP, [], st) else select_by_name st data_in)
           else Ret (- ENOTSUP, [], st))
        else if data_in ! 1 = 0xB0 then read_binary st data_in data_out_len
        else if data_in ! 1 = 0xD6 then update_binary st data_in
        else Ret (- ENOTSUP, [], st))
       (\<lambda>(res, out, st). Ret (res, out, st, t))"

text \<open>Files: a message is loaded behind its length, and saved without it.  \<open>file\<close> is the file of the name, if there is one, and
  \<open>opens\<close> says that it can be opened.  A call that fails ends the process.\<close>

definition ndef_message_load :: "bytes option \<Rightarrow> bool \<Rightarrow> tag4 \<Rightarrow> (nat \<times> tag4) outcome" where
  "ndef_message_load file opens st =
     (case file of
        None \<Rightarrow> Ret (0, st)
      | Some bs \<Rightarrow>
          if length bs > 0xFFFF then Aborts
          else if length (ndef_file st) < 2 then Undefined
          else if \<not> opens then Aborts
          else if bs = [] then Aborts
          else and_then (copy_into (ndef_file st) 0 ([word_of_nat (length bs div 256), word_of_nat (length bs)] @ bs) (length bs + 2)) (\<lambda>f.
            Ret (length bs, st\<lparr>ndef_file := f, ndef_file_len := length bs + 2\<rparr>)))"

definition ndef_message_save :: "bool \<Rightarrow> tag4 \<Rightarrow> (nat \<times> bytes) outcome" where
  "ndef_message_save opens st =
     (if \<not> opens then Aborts
      else if ndef_file_len st = 2 then Aborts
      else and_then (read_at (ndef_file st) 2 (ndef_file_len st - 2)) (\<lambda>bs. Ret (ndef_file_len st - 2, bs)))"

text \<open>The message of the program, and the program from the open device on: the result of the emulation is not looked at.  With
  \<open>save\<close> the message is saved in the end, unless there is none.\<close>

definition sample_ndef :: bytes where
  "sample_ndef =
     [0x00, 33,
      0xd1, 0x02, 0x1c, 0x53, 0x70, 0x91, 0x01, 0x09, 0x54, 0x02, 0x65, 0x6e, 0x4c, 0x69, 0x62, 0x6e, 0x66, 0x63, 0x51, 0x01,
      0x0b, 0x55, 0x03, 0x6c, 0x69, 0x62, 0x6e, 0x66, 0x63, 0x2e, 0x6f, 0x72, 0x67]"

definition tag4_initial :: "bool \<Rightarrow> tag4" where
  "tag4_initial force_v1 =
     \<lparr>ndef_file = sample_ndef @ replicate (0xfffe - length sample_ndef) 0, ndef_file_len = 35, current_file = No_file,
      capability_container = (if force_v1 then nfcforum_capability_container[2 := 0x10] else nfcforum_capability_container),
      type4v = (if force_v1 then 1 else 2)\<rparr>"

definition tag4_target :: "nfc_target \<Rightarrow> nfc_target" where
  "tag4_target zeroed =
     zeroed\<lparr>nm := \<lparr>nmt = NMT_ISO14443A, nbr = NBR_UNDEFINED\<rparr>,
            nti := (nti zeroed)\<lparr>nai := \<lparr>nai_abtAtqa = [0x00, 0x04], nai_btSak = 0x20, nai_szUidLen = 4,
              nai_abtUid = [0x08, 0x00, 0xb0, 0x0b] @ replicate 6 0, nai_szAtsLen = 4,
              nai_abtAts = [0x75, 0x33, 0x92, 0x03] @ replicate 250 0\<rparr>\<rparr>\<rparr>"

definition tag4_main ::
    "'s nfc_driver \<Rightarrow> string list \<Rightarrow> bytes option \<Rightarrow> bool \<Rightarrow> bool \<Rightarrow> 's nfc_device option \<Rightarrow> nfc_target \<Rightarrow> (int \<times> bytes option) outcome" where
  "tag4_main drv args file in_opens out_opens pnd zeroed =
     (if args \<noteq> [] \<and> hd args = ''-h'' then Ret (0, None)
      else
        let force_v1 = (args \<noteq> [] \<and> hd args = ''-1''); args = (if force_v1 then tl args else args); st = tag4_initial force_v1 in
        if length args > 2 then Ret (1, None)
        else and_then (if args \<noteq> [] then ndef_message_load file in_opens st else Ret (1, st)) (\<lambda>(n, st).
          if n = 0 then Ret (1, None)
          else case pnd of
            None \<Rightarrow> Ret (1, None)
          | Some dv \<Rightarrow>
              and_then (nfc_emulate_target drv nfcforum_tag4_io st (tag4_target zeroed) dv) (\<lambda>((_, st, _), dv).
                if length args = 2 then
                  and_then (ndef_message_save out_opens st) (\<lambda>(n, bs). if n = 0 then Ret (1, Some bs) else Ret (0, Some bs))
                else Ret (0, None))))"

section \<open>Type 2\<close>

definition tag2_memory_area :: bytes where
  "tag2_memory_area =
     [0x00, 0x00, 0x00, 0x00, 0x00, 0x00, 0x00, 0x00, 0x00, 0x00, 0xFF, 0xFF, 0xE1, 0x10, 0x06, 0x0F,
      0x03, 33, 0xd1, 0x02, 0x1c, 0x53, 0x70, 0x91, 0x01, 0x09, 0x54, 0x02, 0x65, 0x6e, 0x4c, 0x69,
      0x62, 0x6e, 0x66, 0x63, 0x51, 0x01, 0x0b, 0x55, 0x03, 0x6c, 0x69, 0x62, 0x6e, 0x66, 0x63, 0x2e,
      0x6f, 0x72, 0x67, 0x00, 0x00, 0x00, 0x00, 0x00, 0x00, 0x00, 0x00, 0x00, 0x00, 0x00, 0x00, 0x00]"

definition nfcforum_tag2_io :: "bytes emulator_io" where
  "nfcforum_tag2_io memory t data_in data_out_len =
     and_then (byte_at data_in 0) (\<lambda>c.
       if c = 0x30 then
         (if 16 \<le> data_out_len then
            and_then (byte_at data_in 1) (\<lambda>b. and_then (read_at memory (unat b * 4) 16) (\<lambda>d. Ret (16, d, memory, t)))
          else Ret (- ENOSPC, [], memory, t))
       else if c = 0x50 then Ret (- ECONNABORTED, [], memory, t)
       else Ret (- ENOTSUP, [], memory, t))"

definition tag2_target :: "nfc_target \<Rightarrow> nfc_target" where
  "tag2_target zeroed =
     zeroed\<lparr>nm := \<lparr>nmt = NMT_ISO14443A, nbr = NBR_UNDEFINED\<rparr>,
            nti := (nti zeroed)\<lparr>nai := \<lparr>nai_abtAtqa = [0x00, 0x04], nai_btSak = 0x00, nai_szUidLen = 4,
              nai_abtUid = [0x08, 0x00, 0xb0, 0x0b] @ replicate 6 0, nai_szAtsLen = 0, nai_abtAts = replicate 254 0\<rparr>\<rparr>\<rparr>"

definition tag2_main :: "'s nfc_driver \<Rightarrow> 's nfc_device option \<Rightarrow> nfc_target \<Rightarrow> int outcome" where
  "tag2_main drv pnd zeroed =
     (case pnd of
        None \<Rightarrow> Ret 1
      | Some dv \<Rightarrow> and_then (nfc_emulate_target drv nfcforum_tag2_io tag2_memory_area (tag2_target zeroed) dv) (\<lambda>_. Ret 0))"

section \<open>A reader at work\<close>

text \<open>Commands one after the other, with the room the emulation gives for an answer.\<close>

fun apdus :: "tag4 \<Rightarrow> nfc_target \<Rightarrow> bytes list \<Rightarrow> ((int \<times> bytes) list \<times> tag4) outcome" where
  "apdus st t [] = Ret ([], st)"
| "apdus st t (c # cs) =
     and_then (nfcforum_tag4_io st t c 262) (\<lambda>(res, out, st, t).
     and_then (apdus st t cs) (\<lambda>(rs, st). Ret ((res, out) # rs, st)))"

definition be16 :: "nat \<Rightarrow> bytes" where
  "be16 n = [word_of_nat (n div 256), word_of_nat n]"

definition select_ndef :: bytes where
  "select_ndef = [0x00, 0xA4, 0x00, 0x0C, 0x02, 0xE1, 0x04]"

definition read_cmd :: "nat \<Rightarrow> nat \<Rightarrow> bytes" where
  "read_cmd from n = [0x00, 0xB0] @ be16 from @ [word_of_nat n]"

definition update_cmd :: "nat \<Rightarrow> bytes \<Rightarrow> bytes" where
  "update_cmd from d = [0x00, 0xD6] @ be16 from @ [word_of_nat (length d)] @ d"

text \<open>A message in pieces, from an offset on.\<close>

fun read_cmds :: "nat \<Rightarrow> nat list \<Rightarrow> bytes list" where
  "read_cmds from [] = []"
| "read_cmds from (n # ns) = read_cmd from n # read_cmds (from + n) ns"

fun update_cmds :: "nat \<Rightarrow> bytes list \<Rightarrow> bytes list" where
  "update_cmds from [] = []"
| "update_cmds from (d # ds) = update_cmd from d # update_cmds (from + length d) ds"

lemma be16_shape [simp]: "be16 n \<noteq> []" "length (be16 n) = 2"
  by (simp_all add: be16_def)

lemma be16_value:
  assumes "n < 65536"
  shows "unat (word_of_nat (n div 256) :: byte) * 256 + unat (word_of_nat n :: byte) = n"
proof -
  have "n div 256 < 256" using assms by (simp add: div_less_iff_less_mult)
  then have "unat (word_of_nat (n div 256) :: byte) = n div 256" by (simp add: unat_of_nat)
  moreover have "unat (word_of_nat n :: byte) = n mod 256" by (simp add: unat_of_nat)
  ultimately show ?thesis by simp
qed

lemma len_byte: "n < 256 \<Longrightarrow> unat (word_of_nat n :: byte) = n"
  by (simp add: unat_of_nat)

lemma selected: "nfcforum_tag4_io st t select_ndef room = Ret (2, [0x90, 0x00], st\<lparr>current_file := NDEF_file\<rparr>, t)"
  by (simp add: nfcforum_tag4_io_def select_ndef_def select_by_id_def byte_at_def read_at_def)

lemma read_step:
  assumes "current_file st = NDEF_file" "from + n \<le> length (ndef_file st)" "length (ndef_file st) < 65536" "n < 256"
  shows "nfcforum_tag4_io st t (read_cmd from n) 262 =
    Ret (int n + 2, take n (drop from (ndef_file st)) @ [0x90, 0x00], st, t)"
proof -
  have "apdu_offset (read_cmd from n) = from"
    using be16_value [of "from"] assms(2,3) by (simp add: apdu_offset_def read_cmd_def be16_def)
  moreover have "byte_at (read_cmd from n) 4 = Ret (word_of_nat n)" by (simp add: byte_at_def read_cmd_def be16_def)
  ultimately have "read_binary st (read_cmd from n) 262 = Ret (int n + 2, take n (drop from (ndef_file st)) @ [0x90, 0x00], st)"
    using assms len_byte [OF assms(4)] by (simp add: read_binary_def read_at_def)
  then show ?thesis by (simp add: nfcforum_tag4_io_def read_cmd_def)
qed

lemma update_step:
  assumes "from + length d \<le> length (ndef_file st)" "2 \<le> length (ndef_file st)" "length (ndef_file st) < 65536" "length d < 256"
  defines "f \<equiv> splice (ndef_file st) from d"
  shows "nfcforum_tag4_io st t (update_cmd from d) 262 =
    Ret (2, [0x90, 0x00],
      st\<lparr>ndef_file := f, ndef_file_len := (if from = 0 then unat (f ! 0) * 256 + unat (f ! 1) + 2 else ndef_file_len st)\<rparr>, t)"
proof -
  have off: "apdu_offset (update_cmd from d) = from"
    using be16_value [of "from"] assms(1,3) by (simp add: apdu_offset_def update_cmd_def be16_def)
  have lc: "byte_at (update_cmd from d) 4 = Ret (word_of_nat (length d))" by (simp add: byte_at_def update_cmd_def be16_def)
  have d: "read_at (update_cmd from d) 5 (length d) = Ret d" by (simp add: read_at_def update_cmd_def be16_def)
  have f: "copy_into (ndef_file st) from d (length d) = Ret f" using assms(1) by (simp add: copy_into_def f_def)
  have "length f = length (ndef_file st)" using assms(1) by (simp add: f_def length_splice)
  then have h: "read_at f 0 2 = Ret (take 2 f)" "2 \<le> length f" using assms(2) by (simp_all add: read_at_def)
  have "update_binary st (update_cmd from d) =
      Ret (2, [0x90, 0x00],
        st\<lparr>ndef_file := f, ndef_file_len := (if from = 0 then unat (f ! 0) * 256 + unat (f ! 1) + 2 else ndef_file_len st)\<rparr>)"
    using len_byte [OF assms(4)] off lc d f h by (cases "from = 0") (simp_all add: update_binary_def Let_def)
  then show ?thesis by (simp add: nfcforum_tag4_io_def update_cmd_def)
qed

lemma splice_append:
  assumes "i + length xs + length ys \<le> length a"
  shows "splice (splice a i xs) (i + length xs) ys = splice a i (xs @ ys)"
  using assms by (simp add: splice_def min_absorb2 ac_simps)

lemma updates_run:
  assumes "2 \<le> from" "from + length (concat ds) \<le> length (ndef_file st)" "length (ndef_file st) < 65536" "\<forall>d\<in>set ds. length d < 256"
  shows "apdus st t (update_cmds from ds @ cs) =
    and_then (apdus (st\<lparr>ndef_file := splice (ndef_file st) from (concat ds)\<rparr>) t cs) (\<lambda>(rs, st).
      Ret (replicate (length ds) (2, [0x90, 0x00]) @ rs, st))"
  using assms
proof (induction ds arbitrary: "from" st)
  case Nil
  then have "splice (ndef_file st) from [] = ndef_file st" by (simp add: splice_def)
  then show ?case by (cases "apdus st t cs") auto
next
  case (Cons d ds)
  let ?st = "st\<lparr>ndef_file := splice (ndef_file st) from d\<rparr>"
  have l: "length (splice (ndef_file st) from d) = length (ndef_file st)" using Cons.prems(2) by (simp add: length_splice)
  have step: "nfcforum_tag4_io st t (update_cmd from d) 262 = Ret (2, [0x90, 0x00], ?st, t)"
    using update_step [of "from" d st t] Cons.prems by simp
  have "apdus ?st t (update_cmds (from + length d) ds @ cs) =
      and_then (apdus (?st\<lparr>ndef_file := splice (ndef_file ?st) (from + length d) (concat ds)\<rparr>) t cs) (\<lambda>(rs, st).
        Ret (replicate (length ds) (2, [0x90, 0x00]) @ rs, st))"
    using Cons.prems l by (intro Cons.IH) simp_all
  then show ?case
    using step splice_append [of "from" d "concat ds" "ndef_file st"] Cons.prems(2)
    by (cases "apdus (st\<lparr>ndef_file := splice (ndef_file st) from (concat (d # ds))\<rparr>) t cs") (auto simp: and_then_assoc)
qed

lemma reads_run:
  assumes "current_file st = NDEF_file" "from + sum_list ns \<le> length (ndef_file st)" "length (ndef_file st) < 65536" "\<forall>n\<in>set ns. n < 256"
  shows "\<exists>rs. apdus st t (read_cmds from ns) = Ret (map (\<lambda>bs. (int (length bs), bs)) rs, st) \<and> [] \<notin> set rs \<and>
    concat (map (\<lambda>bs. take (length bs - 2) bs) rs) = take (sum_list ns) (drop from (ndef_file st))"
  using assms
proof (induction ns arbitrary: "from")
  case (Cons n ns)
  have "from + n + sum_list ns \<le> length (ndef_file st)" "\<forall>n\<in>set ns. n < 256" using Cons.prems by simp_all
  from Cons.IH [OF Cons.prems(1) this(1) Cons.prems(3) this(2)] obtain rs where rs:
    "apdus st t (read_cmds (from + n) ns) = Ret (map (\<lambda>bs. (int (length bs), bs)) rs, st)" "[] \<notin> set rs"
    "concat (map (\<lambda>bs. take (length bs - 2) bs) rs) = take (sum_list ns) (drop (from + n) (ndef_file st))" by blast
  have "nfcforum_tag4_io st t (read_cmd from n) 262 = Ret (int n + 2, take n (drop from (ndef_file st)) @ [0x90, 0x00], st, t)"
    using Cons.prems by (intro read_step) simp_all
  moreover have "length (take n (drop from (ndef_file st))) = n" using Cons.prems(2) by simp
  moreover have "take (n + sum_list ns) (drop from (ndef_file st)) =
      take n (drop from (ndef_file st)) @ take (sum_list ns) (drop (from + n) (ndef_file st))"
    by (simp add: take_add add.commute)
  ultimately show ?case using rs
    by (intro exI [of _ "(take n (drop from (ndef_file st)) @ [0x90, 0x00]) # rs"]) simp
qed simp

lemma tag4_target_kept: "nfcforum_tag4_io st t c room = Ret (res, out, st', t') \<Longrightarrow> t' = t"
  by (auto simp: nfcforum_tag4_io_def and_then_Ret_iff)

lemma apdus_append:
  "apdus st t as = Ret (rs, st1) \<Longrightarrow> apdus st1 t bs = Ret (qs, st2) \<Longrightarrow> apdus st t (as @ bs) = Ret (rs @ qs, st2)"
proof (induction as arbitrary: st rs)
  case (Cons a as)
  then show ?case by (fastforce simp: and_then_Ret_iff dest: tag4_target_kept)
qed simp

lemma update_cmds_fit: "\<forall>d\<in>set ds. length d \<le> 253 \<Longrightarrow> c \<in> set (update_cmds from ds) \<Longrightarrow> length c \<le> 258"
  by (induction ds arbitrary: "from") (auto simp: update_cmd_def)

lemma read_cmds_fit: "c \<in> set (read_cmds from ns) \<Longrightarrow> length c \<le> 258"
  by (induction ns arbitrary: "from") (auto simp: read_cmd_def)

text \<open>The file system by itself: a message written in pieces is in the file, and comes back in pieces.\<close>

lemma message_in_file:
  assumes "length (ndef_file st) = 0xfffe" "length (concat ds) + 2 \<le> 0xfffe" "concat ds \<noteq> []"
    and "\<forall>d\<in>set ds. length d < 256" "\<forall>n\<in>set ns. n < 256" "sum_list ns = length (concat ds)"
  shows "\<exists>st'. apdus st t ([select_ndef, update_cmd 0 [0x00, 0x00]] @ update_cmds 2 ds @ [update_cmd 0 (be16 (length (concat ds)))]) =
      Ret (replicate (length ds + 3) (2, [0x90, 0x00]), st') \<and>
    (\<exists>rs. apdus st' t (select_ndef # read_cmd 0 2 # read_cmds 2 ns) =
        Ret ((2, [0x90, 0x00]) # (4, be16 (length (concat ds)) @ [0x90, 0x00]) # map (\<lambda>bs. (int (length bs), bs)) rs, st') \<and>
       [] \<notin> set rs \<and> concat (map (\<lambda>bs. take (length bs - 2) bs) rs) = concat ds) \<and>
    ndef_message_save True st' = Ret (length (concat ds), concat ds)"
proof -
  let ?m = "concat ds" and ?f = "ndef_file st"
  let ?n = "length (concat ds)"
  define f1 where "f1 = splice ?f 0 [0x00, 0x00 :: byte]"
  define f2 where "f2 = splice f1 2 ?m"
  define f3 where "f3 = splice f2 0 (be16 ?n)"
  have l: "length f1 = 0xfffe" "length f2 = 0xfffe" "length f3 = 0xfffe"
    using assms(1,2) by (simp_all add: f1_def f2_def f3_def length_splice)
  have n: "?n < 65536" using assms(2) by simp
  have f3: "f3 = be16 ?n @ ?m @ drop (2 + ?n) f2"
  proof -
    have "f2 = take 2 f1 @ ?m @ drop (2 + ?n) f1" by (simp add: f2_def splice_def)
    then have "drop 2 f2 = ?m @ drop (2 + ?n) f1" using l(1) by simp
    moreover have "drop (2 + ?n) f2 = drop ?n (drop 2 f2)" by (simp add: add.commute)
    ultimately have "drop 2 f2 = ?m @ drop (2 + ?n) f2" by simp
    then show ?thesis by (simp add: f3_def splice_def numeral_2_eq_2)
  qed
  have head: "f3 ! 0 = word_of_nat (?n div 256)" "f3 ! 1 = word_of_nat ?n" unfolding f3 by (simp_all add: be16_def)
  let ?st0 = "st\<lparr>current_file := NDEF_file\<rparr>"
  let ?st1 = "?st0\<lparr>ndef_file := f1, ndef_file_len := unat (f1 ! 0) * 256 + unat (f1 ! 1) + 2\<rparr>"
  let ?st3 = "?st0\<lparr>ndef_file := f3, ndef_file_len := ?n + 2\<rparr>"
  have u0: "nfcforum_tag4_io ?st0 t (update_cmd 0 [0x00, 0x00]) 262 = Ret (2, [0x90, 0x00], ?st1, t)"
    using update_step [of 0 "[0x00, 0x00]" ?st0 t] assms(1) by (simp add: f1_def)
  have u3: "nfcforum_tag4_io (?st1\<lparr>ndef_file := f2\<rparr>) t (update_cmd 0 (be16 ?n)) 262 = Ret (2, [0x90, 0x00], ?st3, t)"
    using update_step [of 0 "be16 ?n" "?st1\<lparr>ndef_file := f2\<rparr>" t] l(2) head be16_value [OF n] by (simp add: f3_def)
  have us: "apdus ?st1 t (update_cmds 2 ds @ [update_cmd 0 (be16 ?n)]) =
      and_then (apdus (?st1\<lparr>ndef_file := splice (ndef_file ?st1) 2 (concat ds)\<rparr>) t [update_cmd 0 (be16 ?n)]) (\<lambda>(rs, st).
        Ret (replicate (length ds) (2, [0x90, 0x00]) @ rs, st))"
    by (rule updates_run) (use l(1) assms(2,4) in simp_all)
  have "splice (ndef_file ?st1) 2 (concat ds) = f2" by (simp add: f2_def)
  then have wr: "apdus ?st1 t (update_cmds 2 ds @ [update_cmd 0 (be16 ?n)]) = Ret (replicate (length ds + 1) (2, [0x90, 0x00]), ?st3)"
    using us u3 by (simp add: replicate_append_same)
  then have written: "apdus st t ([select_ndef, update_cmd 0 [0x00, 0x00]] @ update_cmds 2 ds @ [update_cmd 0 (be16 ?n)]) =
      Ret (replicate (length ds + 3) (2, [0x90, 0x00]), ?st3)"
    using selected [of st t 262] u0 by (simp add: numeral_3_eq_3)
  have r0: "nfcforum_tag4_io ?st3 t (read_cmd 0 2) 262 = Ret (4, be16 ?n @ [0x90, 0x00], ?st3, t)"
    using read_step [of ?st3 0 2 t] l(3) f3 by simp
  have s3: "nfcforum_tag4_io ?st3 t select_ndef 262 = Ret (2, [0x90, 0x00], ?st3, t)"
    by (simp add: selected)
  obtain rs where rs: "apdus ?st3 t (read_cmds 2 ns) = Ret (map (\<lambda>bs. (int (length bs), bs)) rs, ?st3)"
    "concat (map (\<lambda>bs. take (length bs - 2) bs) rs) = take (sum_list ns) (drop 2 f3)" "[] \<notin> set rs"
    using reads_run [of ?st3 2 ns t] l(3) assms(2,5,6) by auto
  have m: "take ?n (drop 2 f3) = ?m" unfolding f3 by simp
  have "apdus ?st3 t (select_ndef # read_cmd 0 2 # read_cmds 2 ns) =
      Ret ((2, [0x90, 0x00]) # (4, be16 ?n @ [0x90, 0x00]) # map (\<lambda>bs. (int (length bs), bs)) rs, ?st3)"
    by (simp only: apdus.simps s3 r0 rs(1) and_then.simps prod.case)
  moreover have "ndef_message_save True ?st3 = Ret (?n, ?m)"
    using m l(3) assms(2,3) by (simp add: ndef_message_save_def read_at_def)
  ultimately show ?thesis using written rs(2,3) m assms(6) by auto
qed

section \<open>The loop of the emulation\<close>

text \<open>A reader behind a device: the commands it still has for the emulation, and what it has heard.  A command for which there is
  no room is an overflow, as the drivers have it, and a reader without commands has gone.  \<open>at dv\<close> is what the reader has come
  to when the device is \<open>dv\<close>.\<close>

record reader =
  rd_sends :: "bytes list"
  rd_hears :: "bytes list"

definition serves :: "'s nfc_driver \<Rightarrow> ('s nfc_device \<Rightarrow> reader) \<Rightarrow> bool" where
  "serves drv at \<longleftrightarrow>
     (\<forall>room dv. \<exists>res rx dv'. nfc_target_receive_bytes drv room 0 dv = Ret ((res, rx), dv') \<and>
        (case rd_sends (at dv) of
           [] \<Rightarrow> res = NFC_ETGRELEASED \<and> at dv' = at dv
         | c # cs \<Rightarrow> at dv' = (at dv)\<lparr>rd_sends := cs\<rparr> \<and>
             (if room < length c then res = NFC_EOVFLOW else res = int (length c) \<and> rx = c))) \<and>
     (\<forall>bs dv. \<exists>res dv'. nfc_target_send_bytes drv bs 0 dv = Ret (res, dv') \<and> 0 \<le> res \<and>
        at dv' = (at dv)\<lparr>rd_hears := rd_hears (at dv) @ [bs]\<rparr>)"

definition script_reader :: "reader nfc_driver \<Rightarrow> reader nfc_driver" where
  "script_reader drv =
     drv\<lparr>target_receive_bytes := Some (\<lambda>room to dv.
           case rd_sends (driver_data dv) of
             [] \<Rightarrow> Ret ((NFC_ETGRELEASED, []), dv)
           | c # cs \<Rightarrow> Ret (if room < length c then (NFC_EOVFLOW, []) else (int (length c), c), dv\<lparr>driver_data := (driver_data dv)\<lparr>rd_sends := cs\<rparr>\<rparr>)),
         target_send_bytes := Some (\<lambda>bs to dv.
           Ret (int (length bs), dv\<lparr>driver_data := (driver_data dv)\<lparr>rd_hears := rd_hears (driver_data dv) @ [bs]\<rparr>\<rparr>))\<rparr>"

lemma script_reader_serves: "serves (script_reader drv) driver_data"
  by (auto simp: serves_def script_reader_def nfc_target_receive_bytes_def nfc_target_send_bytes_def hal_def split: list.split)

lemma servesD:
  assumes "serves drv at"
  shows "\<exists>res rx dv'. nfc_target_receive_bytes drv room 0 dv = Ret ((res, rx), dv') \<and>
        (case rd_sends (at dv) of
           [] \<Rightarrow> res = NFC_ETGRELEASED \<and> at dv' = at dv
         | c # cs \<Rightarrow> at dv' = (at dv)\<lparr>rd_sends := cs\<rparr> \<and>
             (if room < length c then res = NFC_EOVFLOW else res = int (length c) \<and> rx = c))"
    and "\<exists>res dv'. nfc_target_send_bytes drv bs 0 dv = Ret (res, dv') \<and> 0 \<le> res \<and>
        at dv' = (at dv)\<lparr>rd_hears := rd_hears (at dv) @ [bs]\<rparr>"
  using assms unfolding serves_def by blast+

text \<open>A turn: the answer is heard, and the next command is there, if it fits and there is one.\<close>

lemma turn_serves:
  assumes "serves drv at" "emu e t c 262 = Ret (int (length out), out, e', t)" "out \<noteq> []"
  shows "\<exists>dv'. emulation_turn drv emu e t c dv =
      Ret ((case rd_sends (at dv) of
              [] \<Rightarrow> Inl NFC_ETGRELEASED
            | d # ds \<Rightarrow> if 258 < length d then Inl NFC_EOVFLOW else Inr d, e', t), dv') \<and>
    at dv' = \<lparr>rd_sends = tl (rd_sends (at dv)), rd_hears = rd_hears (at dv) @ [out]\<rparr>"
proof -
  obtain r1 dv1 where s: "nfc_target_send_bytes drv out 0 dv = Ret (r1, dv1)" "0 \<le> r1"
    "at dv1 = (at dv)\<lparr>rd_hears := rd_hears (at dv) @ [out]\<rparr>" using servesD(2) [OF assms(1)] by blast
  obtain r2 rx dv2 where r: "nfc_target_receive_bytes drv 258 0 dv1 = Ret ((r2, rx), dv2)"
    "case rd_sends (at dv1) of
       [] \<Rightarrow> r2 = NFC_ETGRELEASED \<and> at dv2 = at dv1
     | d # ds \<Rightarrow> at dv2 = (at dv1)\<lparr>rd_sends := ds\<rparr> \<and> (if 258 < length d then r2 = NFC_EOVFLOW else r2 = int (length d) \<and> rx = d)"
    using servesD(1) [OF assms(1), of 258 dv1] by blast
  have "0 < int (length out)" using assms(3) by simp
  then have turn: "emulation_turn drv emu e t c dv = Ret ((if r2 < 0 then Inl r2 else Inr (take (nat r2) rx), e', t), dv2)"
    using s(1,2) r(1) by (simp add: emulation_turn_def assms(2) on_ok_def on_rx_def)
  show ?thesis
  proof (cases "rd_sends (at dv)")
    case Nil
    then show ?thesis using r(2) s(3) turn by (intro exI [of _ dv2]) (simp add: nfc_errors)
  next
    case (Cons d ds)
    then show ?thesis using r(2) s(3) turn by (intro exI [of _ dv2]) (simp add: nfc_errors split: if_splits)
  qed
qed

text \<open>Commands that fit are answered one after the other.\<close>

lemma emulation_serves:
  assumes "serves drv at" "\<forall>d\<in>set (rd_sends (at dv)). length d \<le> 258" "apdus st t (c # rd_sends (at dv)) = Ret (rs, st')"
    and "\<forall>(res, out)\<in>set rs. res = int (length out) \<and> out \<noteq> []"
  shows "\<exists>dv'. emulation_loop drv nfcforum_tag4_io st t c dv = Some (Ret ((NFC_ETGRELEASED, st', t), dv')) \<and>
    at dv' = \<lparr>rd_sends = [], rd_hears = rd_hears (at dv) @ map snd rs\<rparr>"
  using assms(2-4)
proof (induction "rd_sends (at dv)" arbitrary: dv st c rs)
  case Nil
  then have "apdus st t [c] = Ret (rs, st')" by simp
  then obtain out u where "nfcforum_tag4_io st t c 262 = Ret (int (length out), out, st', u)" "out \<noteq> []" "rs = [(int (length out), out)]"
    using Nil.prems(3) by (auto simp: and_then_Ret_iff)
  then have io: "nfcforum_tag4_io st t c 262 = Ret (int (length out), out, st', t)" "out \<noteq> []" "rs = [(int (length out), out)]"
    using tag4_target_kept by blast+
  from turn_serves [where emu = nfcforum_tag4_io, OF assms(1) io(1,2), of dv] Nil.hyps show ?case
    by (subst emulation_loop.simps) (auto simp: io(3))
next
  case (Cons d ds)
  have "apdus st t (c # d # ds) = Ret (rs, st')" using Cons.prems(2) Cons.hyps(2) by simp
  then obtain out st1 u rs1 where "nfcforum_tag4_io st t c 262 = Ret (int (length out), out, st1, u)" "out \<noteq> []"
    "rs = (int (length out), out) # rs1" "apdus st1 u (d # ds) = Ret (rs1, st')"
    using Cons.prems(3) by (auto simp: and_then_Ret_iff apdus.simps(2) [of st t c "d # ds"] simp del: apdus.simps(2))
  then have io: "nfcforum_tag4_io st t c 262 = Ret (int (length out), out, st1, t)" "out \<noteq> []"
    "rs = (int (length out), out) # rs1" "apdus st1 t (d # ds) = Ret (rs1, st')"
    using tag4_target_kept by blast+
  from turn_serves [where emu = nfcforum_tag4_io, OF assms(1) io(1,2), of dv] obtain dv1 where
    turn: "emulation_turn drv nfcforum_tag4_io st t c dv = Ret ((Inr d, st1, t), dv1)"
      "at dv1 = \<lparr>rd_sends = ds, rd_hears = rd_hears (at dv) @ [out]\<rparr>"
    using Cons.hyps(2) [symmetric] Cons.prems(1) by auto
  have "\<exists>dv'. emulation_loop drv nfcforum_tag4_io st1 t d dv1 = Some (Ret ((NFC_ETGRELEASED, st', t), dv')) \<and>
      at dv' = \<lparr>rd_sends = [], rd_hears = rd_hears (at dv1) @ map snd rs1\<rparr>"
    by (rule Cons.hyps(1)) (use turn(2) io(3,4) Cons.prems(1,3) Cons.hyps(2) [symmetric] in auto)
  then show ?case using turn io(3) by (subst emulation_loop.simps) simp
qed

text \<open>A command for which there is no room ends the emulation.\<close>

lemma long_command_ends:
  assumes "serves drv at" "nfcforum_tag4_io st t c 262 = Ret (int (length out), out, st', t)" "out \<noteq> []"
    and "rd_sends (at dv) = d # ds" "258 < length d"
  shows "\<exists>dv'. emulation_loop drv nfcforum_tag4_io st t c dv = Some (Ret ((NFC_EOVFLOW, st', t), dv'))"
  using turn_serves [where emu = nfcforum_tag4_io, OF assms(1-3), of dv] assms(4,5) by (subst emulation_loop.simps) auto

section \<open>Properties\<close>

text \<open>C38. A type 4 tag keeps the message a reader writes: a reader that selects the file and writes the message as the NFC Forum has
  it - the length cleared, the message in pieces, the length - and then selects the file, reads the length and the message, in
  pieces of its own, gets every command accepted and the message back; the emulation ends when the reader goes, and the message is
  the one the program saves.  The pieces written have at most 253 bytes: with its header such a command fills the 258 bytes the
  emulation receives into, and a longer one ends it with an overflow (\<open>long_command_ends\<close>).\<close>
theorem tag4_message_kept:
  fixes ds :: "bytes list" and ns :: "nat list"
  defines "written \<equiv> update_cmd 0 [0x00, 0x00] # update_cmds 2 ds @ [update_cmd 0 (be16 (length (concat ds)))]"
  assumes "serves drv at" "at dv = \<lparr>rd_sends = written @ select_ndef # read_cmd 0 2 # read_cmds 2 ns, rd_hears = []\<rparr>"
    and "length (ndef_file st) = 0xfffe" "length (concat ds) + 2 \<le> 0xfffe" "concat ds \<noteq> []"
    and "\<forall>d\<in>set ds. length d \<le> 253" "\<forall>n\<in>set ns. n < 256" "sum_list ns = length (concat ds)"
  shows "\<exists>st' dv' rs. emulation_loop drv nfcforum_tag4_io st t select_ndef dv = Some (Ret ((NFC_ETGRELEASED, st', t), dv')) \<and>
    rd_hears (at dv') = replicate (length ds + 4) [0x90, 0x00] @ (be16 (length (concat ds)) @ [0x90, 0x00]) # rs \<and>
    concat (map (\<lambda>bs. take (length bs - 2) bs) rs) = concat ds \<and>
    ndef_message_save True st' = Ret (length (concat ds), concat ds)"
proof -
  let ?n = "length (concat ds)"
  let ?out = "\<lambda>bs. (int (length bs), bs)"
  have short: "\<forall>d\<in>set ds. length d < 256" using assms(7) by fastforce
  obtain st' where w: "apdus st t ([select_ndef, update_cmd 0 [0x00, 0x00]] @ update_cmds 2 ds @ [update_cmd 0 (be16 ?n)]) =
      Ret (replicate (length ds + 3) (2, [0x90, 0x00]), st')"
    and r: "\<exists>rs. apdus st' t (select_ndef # read_cmd 0 2 # read_cmds 2 ns) =
        Ret ((2, [0x90, 0x00]) # (4, be16 ?n @ [0x90, 0x00]) # map ?out rs, st') \<and>
       [] \<notin> set rs \<and> concat (map (\<lambda>bs. take (length bs - 2) bs) rs) = concat ds"
    and save: "ndef_message_save True st' = Ret (?n, concat ds)"
    using message_in_file [OF assms(4-6) short assms(8,9), of t] by blast
  from r obtain rs where rs: "apdus st' t (select_ndef # read_cmd 0 2 # read_cmds 2 ns) =
        Ret ((2, [0x90, 0x00]) # (4, be16 ?n @ [0x90, 0x00]) # map ?out rs, st')" "[] \<notin> set rs"
    "concat (map (\<lambda>bs. take (length bs - 2) bs) rs) = concat ds" by blast
  let ?heard = "replicate (length ds + 3) (2 :: int, [0x90, 0x00]) @ (2, [0x90, 0x00]) # (4, be16 ?n @ [0x90, 0x00]) # map ?out rs"
  have all: "apdus st t (select_ndef # rd_sends (at dv)) = Ret (?heard, st')"
    using apdus_append [OF w rs(1)] by (simp add: assms(3) written_def del: apdus.simps)
  have fit: "\<forall>d\<in>set (rd_sends (at dv)). length d \<le> 258"
    using assms(7) update_cmds_fit [of ds _ 2] read_cmds_fit [of _ 2 ns]
    by (auto simp: assms(3) written_def update_cmd_def read_cmd_def select_ndef_def)
  have "\<forall>(res, out)\<in>set ?heard. res = int (length out) \<and> out \<noteq> []" using rs(2) by auto
  from emulation_serves [OF assms(2) fit all this] obtain dv' where
    dv': "emulation_loop drv nfcforum_tag4_io st t select_ndef dv = Some (Ret ((NFC_ETGRELEASED, st', t), dv'))"
      "rd_hears (at dv') = map snd ?heard" by (auto simp: assms(3))
  have four: "replicate (length ds + 4) x = replicate (length ds + 3) x @ [x]" for x :: bytes
    using replicate_append_same [of "length ds + 3" x] by (simp add: eval_nat_numeral)
  have "map snd ?heard = replicate (length ds + 4) [0x90, 0x00] @ (be16 ?n @ [0x90, 0x00]) # rs"
    unfolding four by (simp add: comp_def del: replicate.simps)
  with dv'(2) have "rd_hears (at dv') = replicate (length ds + 4) [0x90, 0x00] @ (be16 ?n @ [0x90, 0x00]) # rs" by (rule trans)
  then show ?thesis using dv'(1) rs(3) save by blast
qed

lemma tag4_message_kept_witness:
  "\<forall>drv t dv. \<exists>st' dv' rs.
     emulation_loop (script_reader drv) nfcforum_tag4_io (tag4_initial False) t select_ndef
       (dv\<lparr>driver_data := \<lparr>rd_sends = [update_cmd 0 [0, 0], update_cmd 2 [1, 2], update_cmd 4 [3], update_cmd 0 [0, 3],
          select_ndef, read_cmd 0 2, read_cmd 2 1, read_cmd 3 2], rd_hears = []\<rparr>\<rparr>) =
       Some (Ret ((NFC_ETGRELEASED, st', t), dv')) \<and>
     concat (map (\<lambda>bs. take (length bs - 2) bs) rs) = [1, 2, 3 :: byte] \<and> ndef_message_save True st' = Ret (3, [1, 2, 3])"
proof (intro allI)
  fix drv t and dv :: "reader nfc_device"
  let ?dv = "dv\<lparr>driver_data := \<lparr>rd_sends = (update_cmd 0 [0x00, 0x00] # update_cmds 2 [[1, 2], [3]] @
    [update_cmd 0 (be16 (length (concat [[1, 2], [3 :: byte]])))]) @ select_ndef # read_cmd 0 2 # read_cmds 2 [1, 2], rd_hears = []\<rparr>\<rparr>"
  have f: "length (ndef_file (tag4_initial False)) = 0xfffe" by (simp add: tag4_initial_def sample_ndef_def)
  have "\<exists>st' dv' rs. emulation_loop (script_reader drv) nfcforum_tag4_io (tag4_initial False) t select_ndef ?dv =
      Some (Ret ((NFC_ETGRELEASED, st', t), dv')) \<and>
    rd_hears (driver_data dv') = replicate (length [[1, 2], [3 :: byte]] + 4) [0x90, 0x00] @
      (be16 (length (concat [[1, 2], [3 :: byte]])) @ [0x90, 0x00]) # rs \<and>
    concat (map (\<lambda>bs. take (length bs - 2) bs) rs) = concat [[1, 2], [3]] \<and>
    ndef_message_save True st' = Ret (length (concat [[1, 2], [3 :: byte]]), concat [[1, 2], [3]])"
    by (rule tag4_message_kept [OF script_reader_serves _ f, where ns = "[1, 2]"]) simp_all
  then show "\<exists>st' dv' rs.
     emulation_loop (script_reader drv) nfcforum_tag4_io (tag4_initial False) t select_ndef
       (dv\<lparr>driver_data := \<lparr>rd_sends = [update_cmd 0 [0, 0], update_cmd 2 [1, 2], update_cmd 4 [3], update_cmd 0 [0, 3],
          select_ndef, read_cmd 0 2, read_cmd 2 1, read_cmd 3 2], rd_hears = []\<rparr>\<rparr>) =
       Some (Ret ((NFC_ETGRELEASED, st', t), dv')) \<and>
     concat (map (\<lambda>bs. take (length bs - 2) bs) rs) = [1, 2, 3 :: byte] \<and> ndef_message_save True st' = Ret (3, [1, 2, 3])"
    by (auto simp: be16_def)
qed

text \<open>A loaded message is the one a reader finds and the one that is saved.\<close>

lemma loaded_message_saved:
  assumes "length (ndef_file st) = 0xfffe" "bs \<noteq> []" "length bs + 2 \<le> 0xfffe"
  shows "\<exists>st'. ndef_message_load (Some bs) True st = Ret (length bs, st') \<and> ndef_message_save True st' = Ret (length bs, bs)"
proof -
  have "copy_into (ndef_file st) 0 ([word_of_nat (length bs div 256), word_of_nat (length bs)] @ bs) (length bs + 2) =
      Ret (splice (ndef_file st) 0 ([word_of_nat (length bs div 256), word_of_nat (length bs)] @ bs))"
    using assms(1,3) by (simp add: copy_into_def)
  then show ?thesis
    using assms by (simp add: ndef_message_load_def ndef_message_save_def read_at_def splice_def)
qed

text \<open>The last three lengths that are let through do not fit behind the length of the message.\<close>

lemma long_message_overflows:
  assumes "length (ndef_file st) = 0xfffe" "0xfffd \<le> length bs" "length bs \<le> 0xffff"
  shows "ndef_message_load (Some bs) True st = Undefined"
  using assms by (auto simp: ndef_message_load_def copy_into_def)

text \<open>READ BINARY takes the offset and the length of the command as they are: past the capability container the answer is made of
  what lies behind it.\<close>

lemma capability_container_overread:
  "nfcforum_tag4_io (tag4_initial False\<lparr>current_file := CC_file\<rparr>) t (read_cmd 0 16) 262 = Undefined"
  by (simp add: nfcforum_tag4_io_def read_cmd_def be16_def read_binary_def byte_at_def read_at_def apdu_offset_def
      tag4_initial_def nfcforum_capability_container_def)

text \<open>UPDATE BINARY does not ask which file is selected.\<close>

lemma update_without_selection:
  assumes "length (ndef_file st) = 0xfffe" "current_file st = No_file"
  shows "nfcforum_tag4_io st t (update_cmd 2 [0xff]) 262 = Ret (2, [0x90, 0x00], st\<lparr>ndef_file := splice (ndef_file st) 2 [0xff]\<rparr>, t)"
  using update_step [of 2 "[0xff]" st t] assms(1) by simp

text \<open>Type 2: a block is four bytes and sixteen are sent.  The reads of the reader are inside of the memory up to block 12.\<close>

lemma tag2_read:
  assumes "16 \<le> room" "unat b * 4 + 16 \<le> length m"
  shows "nfcforum_tag2_io m t [0x30, b] room = Ret (16, take 16 (drop (unat b * 4) m), m, t)"
  using assms by (simp add: nfcforum_tag2_io_def byte_at_def read_at_def)

lemma tag2_overread:
  assumes "16 \<le> room" "12 < unat b"
  shows "nfcforum_tag2_io tag2_memory_area t [0x30, b] room = Undefined"
  using assms by (simp add: nfcforum_tag2_io_def byte_at_def read_at_def tag2_memory_area_def)

end
