(* ===== verification/Forum_Tag3.thy ===== *)
theory Forum_Tag3
  imports Forum_Tags Mifare
begin

text \<open>
  \<open>utils/nfc-read-forum-tag3.c\<close>: the message of an NFC Forum tag of type 3 into a file.  What is printed and the options are
  left out.
\<close>

section \<open>Reading blocks\<close>

text \<open>The frame and its length, which the first byte holds.\<close>

definition build_felica_frame :: "nfc_felica_info \<Rightarrow> byte \<Rightarrow> bytes \<Rightarrow> bytes \<times> nat" where
  "build_felica_frame fi cmd payload =
     (let n = word_of_nat (1 + 1 + 8 + length payload) :: byte in ([n, cmd] @ nfi_abtId fi @ payload, unat n))"

text \<open>The elements of a block list.\<close>

definition block_list :: "nat \<Rightarrow> nat \<Rightarrow> bytes" where
  "block_list block block_count =
     concat (map (\<lambda>b. if block < 0x100 then [0x80, word_of_nat (block + b)]
                      else [0x00, word_of_nat ((block + b) div 256), word_of_nat (block + b)]) [0..<block_count])"

text \<open>The result and what is copied to the caller, if anything is.  \<open>fresh\<close> is the local array before the answer comes.\<close>

definition nfc_forum_tag_type3_check ::
    "'s nfc_driver \<Rightarrow> bytes \<Rightarrow> nfc_felica_info \<Rightarrow> nat \<Rightarrow> nat \<Rightarrow> ('s, int \<times> bytes) op" where
  "nfc_forum_tag_type3_check drv fresh fi block block_count dv =
     (let payload = [1, 0x0B, 0x00, word_of_nat block_count] @ block_list block block_count;
          (frame, frame_len) = build_felica_frame fi 0x06 payload in
      and_then (nfc_initiator_transceive_bytes drv (take frame_len frame) (Some 1024) 0 dv) (\<lambda>((res, received), dv).
        let rx = received @ drop (length received) fresh in
        if res < 0 then Ret ((res, []), dv)
        else if res < 12 then Ret ((- 1, []), dv)
        else and_then (read_at rx 0 12) (\<lambda>h.
          if res \<noteq> int (unat (h ! 0)) then Ret ((- 1, []), dv)
          else if h ! 1 \<noteq> 0x07 then Ret ((- 1, []), dv)
          else if take 8 (drop 2 h) \<noteq> nfi_abtId fi then Ret ((- 1, []), dv)
          else if h ! 10 \<noteq> 0 \<or> h ! 11 \<noteq> 0 then Ret ((- 1, []), dv)
          else and_then (read_at rx (12 + 1) (nat (res - 12 + 1))) (\<lambda>data. Ret ((res - 12 + 1, data), dv)))))"

section \<open>The program\<close>

text \<open>The loop over the blocks \<open>b\<close> it begins a read with, storing behind what is there; a read that fails leaves the size as it
  was handed in, which is all the room there is.  \<open>fresh\<close> says what the local array holds when a block is asked for.\<close>

fun read_chunks ::
    "'s nfc_driver \<Rightarrow> (nat \<Rightarrow> bytes) \<Rightarrow> nfc_felica_info \<Rightarrow> nat \<Rightarrow> nat \<Rightarrow> nat list \<Rightarrow> bytes \<Rightarrow> nat \<Rightarrow> ('s, bool \<times> bytes \<times> nat) op" where
  "read_chunks drv fresh fi count per_check [] data data_len dv = Ret ((True, data, data_len), dv)"
| "read_chunks drv fresh fi count per_check (b # bs) data data_len dv =
     (let size = length data - data_len;
          n = unat (word_of_int (min (int per_check) (int count - int b * int per_check)) :: byte) in
      and_then (nfc_forum_tag_type3_check drv (fresh (1 + b)) fi ((1 + b) mod 65536) n dv) (\<lambda>((res, d), dv).
        if res = 0 then Ret ((False, data, data_len), dv)
        else if res < 0 then read_chunks drv fresh fi count per_check bs data (data_len + size) dv
        else and_then (copy_into data data_len d (nat res)) (\<lambda>data.
          read_chunks drv fresh fi count per_check bs data (data_len + nat res) dv)))"

text \<open>The counter of the loop is below 65536 with its step added, as its bound is at most 65535 divided by the step.\<close>

definition chunk_starts :: "nat \<Rightarrow> nat \<Rightarrow> nat list" where
  "chunk_starts count per_check = filter (\<lambda>b. b mod per_check = 0) [0..<count div per_check]"

definition checksum :: "bytes \<Rightarrow> nat" where
  "checksum data = sum_list (map unat (take 14 data)) mod 65536"

definition ndef_length :: "bytes \<Rightarrow> nat" where
  "ndef_length data = unat (data ! 11) * 65536 + unat (data ! 12) * 256 + unat (data ! 13)"

text \<open>From the first read on: the exit status and what is written to the file.  \<open>data\<close> is the local array.\<close>

definition tag3_read :: "'s nfc_driver \<Rightarrow> (nat \<Rightarrow> bytes) \<Rightarrow> bytes \<Rightarrow> bool \<Rightarrow> nfc_felica_info \<Rightarrow> ('s, int \<times> bytes) op" where
  "tag3_read drv fresh data writes fi dv =
     and_then (nfc_forum_tag_type3_check drv (fresh 0) fi 0 1 dv) (\<lambda>((len, d), dv).
       if len \<le> 0 then Ret ((1, []), dv)
       else
         and_then (copy_into data 0 d (nat len)) (\<lambda>data.
         and_then (read_at data 0 16) (\<lambda>h.
           if checksum h \<noteq> unat (h ! 14) * 256 + unat (h ! 15) then Ret ((1, []), dv)
           else if ndef_length h = 0 then Ret ((1, []), dv)
           else
             let per_check = unat (h ! 1); count = (ndef_length h div 16 + 1) mod 65536 in
             if per_check = 0 then Undefined
             else
               and_then (read_chunks drv fresh fi count per_check (chunk_starts count per_check) data 0 dv)
                 (\<lambda>((ok, data, data_len), dv).
                   if \<not> ok then Ret ((1, []), dv)
                   else and_then (read_at data 0 data_len) (\<lambda>file.
                     if writes then Ret ((0, file), dv) else Ret ((1, []), dv))))))"

text \<open>From the open device on; \<open>nt\<close> is the local target.\<close>

definition tag3_device :: "'s nfc_driver \<Rightarrow> (nat \<Rightarrow> bytes) \<Rightarrow> bytes \<Rightarrow> bool \<Rightarrow> nfc_target \<Rightarrow> ('s, int \<times> bytes) op" where
  "tag3_device drv fresh data writes nt dv =
     (let nm = \<lparr>nmt = NMT_FELICA, nbr = NBR_212\<rparr>; failed = (\<lambda>_. (1, []));
          chosen = (\<lambda>pnt. case pnt of Some t \<Rightarrow> t | None \<Rightarrow> nt);
          read = (\<lambda>nt dv.
            on_ok failed (nfc_set_property_bool drv NP_EASY_FRAMING False dv) (\<lambda>_ dv.
            on_ok failed (nfc_set_property_bool drv NP_INFINITE_SELECT False dv) (\<lambda>_ dv.
              tag3_read drv fresh data writes (nfi (nti nt)) dv))) in
      on_ok failed (nfc_initiator_init drv dv) (\<lambda>_ dv.
      and_then (nfc_initiator_select_passive_target drv nm [0x00, 0xff, 0xff, 0x01, 0x00] (Some nt) dv) (\<lambda>((res, pnt), dv).
        if res < 0 then Ret ((1, []), dv)
        else if nfi_abtSysCode (nfi (nti (chosen pnt))) = [0x12, 0xfc] then read (chosen pnt) dv
        else
          and_then (nfc_initiator_select_passive_target drv nm [0x00, 0x12, 0xfc, 0x01, 0x00] (Some (chosen pnt)) dv) (\<lambda>((res, pnt'), dv).
            let nt = (case pnt' of Some t \<Rightarrow> t | None \<Rightarrow> chosen pnt) in
            if res < 0 then Ret ((1, []), dv)
            else if nfi_abtSysCode (nfi (nti nt)) \<noteq> [0x12, 0xfc] then Ret ((1, []), dv)
            else read nt dv))))"

section \<open>A type 3 tag\<close>

text \<open>A tag of at most 256 blocks that answers reads of blocks of its NFC Forum service, of at most 15 blocks at once.\<close>

record tag3 =
  t3_id :: bytes
  t3_blocks :: "bytes list"

definition tag3_answer :: "bytes \<Rightarrow> tag3 \<Rightarrow> bytes option \<times> tag3" where
  "tag3_answer cmd c =
     (let n = unat (cmd ! 13); els = drop 14 cmd in
      if 14 \<le> length cmd \<and> cmd ! 0 = word_of_nat (length cmd) \<and> take 12 (drop 1 cmd) = 0x06 # t3_id c @ [0x01, 0x0B, 0x00] \<and>
         1 \<le> n \<and> n \<le> 15 \<and> length els = 2 * n \<and>
         list_all (\<lambda>i. els ! (2 * i) = 0x80 \<and> unat (els ! (2 * i + 1)) < length (t3_blocks c)) [0..<n]
      then (Some ([word_of_nat (13 + 16 * n), 0x07] @ t3_id c @ [0x00, 0x00, word_of_nat n] @
        concat (map (\<lambda>i. t3_blocks c ! unat (els ! (2 * i + 1))) [0..<n])), c)
      else (None, c))"

definition tag3_ok :: "tag3 \<Rightarrow> bool" where
  "tag3_ok c \<longleftrightarrow> length (t3_id c) = 8 \<and> length (t3_blocks c) \<le> 256 \<and> (\<forall>k\<in>set (t3_blocks c). length k = 16)"

lemma short_block_list:
  "block < 0x100 \<Longrightarrow> block_list block n = concat (map (\<lambda>b. [0x80, word_of_nat (block + b)]) [0..<n])"
  by (simp add: block_list_def)

lemma pairs:
  "length (concat (map (\<lambda>b. [x b, y b]) [0..<n])) = 2 * n"
  "i < n \<Longrightarrow> concat (map (\<lambda>b. [x b, y b]) [0..<n]) ! (2 * i) = x i"
  "i < n \<Longrightarrow> concat (map (\<lambda>b. [x b, y b]) [0..<n]) ! (2 * i + 1) = y i"
proof -
  show l: "length (concat (map (\<lambda>b. [x b, y b]) [0..<n])) = 2 * n" for n by (induction n) simp_all
  show "concat (map (\<lambda>b. [x b, y b]) [0..<n]) ! (2 * i) = x i" if "i < n"
    using that by (induction n) (auto simp: nth_append l less_Suc_eq)
  show "concat (map (\<lambda>b. [x b, y b]) [0..<n]) ! (2 * i + 1) = y i" if "i < n"
    using that by (induction n) (auto simp: nth_append l less_Suc_eq)
qed

text \<open>What the tag answers to the frame of a read.\<close>

lemma tag3_blocks_answered:
  assumes "tag3_ok c" "nfi_abtId fi = t3_id c" "1 \<le> n" "n \<le> 15" "block + n \<le> length (t3_blocks c)"
  defines "f \<equiv> build_felica_frame fi 0x06 ([1, 0x0B, 0x00, word_of_nat n] @ block_list block n)"
  shows "tag3_answer (take (snd f) (fst f)) c =
    (Some ([word_of_nat (13 + 16 * n), 0x07] @ t3_id c @ [0x00, 0x00, word_of_nat n] @ concat (take n (drop block (t3_blocks c)))), c)"
proof -
  let ?els = "concat (map (\<lambda>b. [0x80, word_of_nat (block + b) :: byte]) [0..<n])"
  have small: "block < 0x100" using assms(1,3,5) by (simp add: tag3_ok_def)
  have id: "length (t3_id c) = 8" using assms(1) by (simp add: tag3_ok_def)
  have els: "length ?els = 2 * n" by (rule pairs)
  have n: "unat (word_of_nat (14 + 2 * n) :: byte) = 14 + 2 * n" "unat (word_of_nat n :: byte) = n"
    by (rule len_byte, use assms(4) in simp)+
  define frame where "frame = [word_of_nat (14 + 2 * n), 0x06] @ t3_id c @ [0x01, 0x0B, 0x00, word_of_nat n] @ ?els"
  have f: "fst f = frame" "snd f = 14 + 2 * n"
    using n(1) els unfolding f_def build_felica_frame_def short_block_list [OF small] frame_def by (simp_all add: assms(2) Let_def)
  have l: "length frame = 14 + 2 * n" using id els by (simp add: frame_def)
  have parts: "frame ! 0 = word_of_nat (length frame)" "frame ! 13 = word_of_nat n" "drop 14 frame = ?els"
    "take 12 (drop 1 frame) = 0x06 # t3_id c @ [0x01, 0x0B, 0x00]"
    using id els unfolding l by (simp_all add: frame_def nth_append nth_Cons')
  have block: "unat (word_of_nat (block + i) :: byte) = block + i" "block + i < length (t3_blocks c)" if "i < n" for i
    using that assms(1,5) len_byte [of "block + i"] by (simp_all add: tag3_ok_def)
  define els where "els = ?els"
  have el: "els ! (2 * i) = 0x80" "unat (els ! (2 * i + 1)) = block + i" if "i < n" for i
    using pairs(2,3) [where n = n and x = "\<lambda>_. 0x80" and y = "\<lambda>b. word_of_nat (block + b) :: byte", OF that] block(1) [OF that]
    unfolding els_def by simp_all
  have all: "list_all (\<lambda>i. els ! (2 * i) = 0x80 \<and> unat (els ! (2 * i + 1)) < length (t3_blocks c)) [0..<n]"
    using el block(2) by (simp add: list_all_iff del: One_nat_def)
  have "map (\<lambda>i. t3_blocks c ! unat (els ! (2 * i + 1))) [0..<n] = take n (drop block (t3_blocks c))"
    using el(2) assms(5) by (intro nth_equalityI) simp_all
  then show ?thesis
    using all assms(3,4) parts l els n(2) unfolding tag3_answer_def f Let_def els_def by simp
qed

lemma bytes_of_blocks: "\<forall>k\<in>set bs. length k = 16 \<Longrightarrow> length (concat bs) = 16 * length bs"
  by (induction bs) simp_all

lemma checked_answer:
  assumes "nfc_initiator_transceive_bytes drv
      (let f = build_felica_frame fi 0x06 ([1, 0x0B, 0x00, word_of_nat n] @ block_list block n) in take (snd f) (fst f)) (Some 1024) 0 dv =
      Ret ((res, rx), dv')"
    and "rx @ drop (length rx) fresh = a" "12 \<le> res" "read_at a 0 12 = Ret h" "res = int (unat (h ! 0))" "h ! 1 = 0x07"
    and "take 8 (drop 2 h) = nfi_abtId fi" "h ! 10 = 0" "h ! 11 = 0" "read_at a 13 (nat (res - 11)) = Ret d"
  shows "nfc_forum_tag_type3_check drv fresh fi block n dv = Ret ((res - 11, d), dv')"
  using assms by (simp add: nfc_forum_tag_type3_check_def Let_def split_beta)

text \<open>A read gives the blocks, and two bytes more than came.\<close>

lemma check_blocks:
  assumes "card_replies tag3_answer (Some 1024) 0 drv tag" "tag3_ok (tag dv)" "nfi_abtId fi = t3_id (tag dv)"
    and "1 \<le> n" "n \<le> 15" "block + n \<le> length (t3_blocks (tag dv))" "13 + 16 * n + 2 \<le> length fresh"
  shows "\<exists>dv'. tag dv' = tag dv \<and> nfc_forum_tag_type3_check drv fresh fi block n dv =
    Ret ((int (16 * n + 2), concat (take n (drop block (t3_blocks (tag dv)))) @ take 2 (drop (13 + 16 * n) fresh)), dv')"
proof -
  let ?bs = "take n (drop block (t3_blocks (tag dv)))"
  let ?rx = "[word_of_nat (13 + 16 * n), 0x07] @ t3_id (tag dv) @ [0x00, 0x00, word_of_nat n] @ concat ?bs"
  define f where "f = build_felica_frame fi 0x06 ([1, 0x0B, 0x00, word_of_nat n] @ block_list block n)"
  obtain res rx dv' where r: "nfc_initiator_transceive_bytes drv (take (snd f) (fst f)) (Some 1024) 0 dv = Ret ((res, rx), dv')"
    "tag dv' = tag dv" "res = int (length ?rx)" "rx = ?rx"
    using card_repliesD [OF assms(1) tag3_blocks_answered [OF assms(2,3,4,5,6)]] unfolding f_def by auto
  have "\<forall>k\<in>set ?bs. length k = 16" using assms(2) by (auto simp: tag3_ok_def dest: in_set_takeD in_set_dropD)
  then have c: "length (concat ?bs) = 16 * n" using bytes_of_blocks [of ?bs] assms(6) by simp
  have id: "length (t3_id (tag dv)) = 8" using assms(2) by (simp add: tag3_ok_def)
  have l: "length ?rx = 13 + 16 * n" using c id by simp
  define a where "a = ?rx @ drop (13 + 16 * n) fresh"
  have a: "a ! 0 = word_of_nat (13 + 16 * n)" "a ! 1 = 0x07" "take 8 (drop 2 a) = t3_id (tag dv)" "a ! 10 = 0" "a ! 11 = 0"
    using id by (simp_all add: a_def nth_append nth_Cons')
  have la: "length a = length fresh" using l assms(7) by (simp add: a_def)
  have "drop 13 a = concat ?bs @ drop (13 + 16 * n) fresh" using id by (simp add: a_def)
  then have "take (16 * n + 2) (drop 13 a) = concat ?bs @ take 2 (drop (13 + 16 * n) fresh)" using c by simp
  then have d: "read_at a 13 (16 * n + 2) = Ret (concat ?bs @ take 2 (drop (13 + 16 * n) fresh))"
    using la assms(7) by (simp add: read_at_def)
  have h: "read_at a 0 12 = Ret (take 12 a)" using la assms(7) by (simp add: read_at_def)
  have u: "unat (word_of_nat (13 + 16 * n) :: byte) = 13 + 16 * n" by (rule len_byte, use assms(5) in simp)
  have tk: "take 8 (drop 2 (take 12 a)) = t3_id (tag dv)" using a(3) by (simp add: drop_take)
  have n2: "nat (res - 11) = 16 * n + 2" "res - 11 = int (16 * n + 2)" "12 \<le> res" "res = int (unat (take 12 a ! 0))"
    using r(3) l a(1) u by simp_all
  have "nfc_forum_tag_type3_check drv fresh fi block n dv = Ret ((res - 11, concat ?bs @ take 2 (drop (13 + 16 * n) fresh)), dv')"
  proof (rule checked_answer)
    show "nfc_initiator_transceive_bytes drv
      (let f = build_felica_frame fi 0x06 ([1, 0x0B, 0x00, word_of_nat n] @ block_list block n) in take (snd f) (fst f)) (Some 1024) 0 dv =
      Ret ((res, rx), dv')" using r(1) by (simp only: f_def Let_def)
    show "rx @ drop (length rx) fresh = a" unfolding r(4) l a_def ..
    show "read_at a 0 12 = Ret (take 12 a)" by (rule h)
    show "read_at a 13 (nat (res - 11)) = Ret (concat ?bs @ take 2 (drop (13 + 16 * n) fresh))" unfolding n2(1) by (rule d)
    show "12 \<le> res" "res = int (unat (take 12 a ! 0))" by (rule n2)+
    show "take 8 (drop 2 (take 12 a)) = nfi_abtId fi" using tk assms(3) by simp
  qed (use a(2,4,5) in simp_all)
  then show ?thesis using n2(2) r(2) by (intro exI [of _ dv']) simp
qed

section \<open>What the program writes\<close>

definition chunk :: "(nat \<Rightarrow> bytes) \<Rightarrow> bytes list \<Rightarrow> nat \<Rightarrow> nat \<Rightarrow> bytes" where
  "chunk fresh blocks m b = concat (take m (drop (1 + b) blocks)) @ take 2 (drop (13 + 16 * m) (fresh (1 + b)))"

lemma read_chunks_run:
  assumes "card_replies tag3_answer (Some 1024) 0 drv tag" "nfi_abtId fi = t3_id c" "tag3_ok c" "1 \<le> m" "m \<le> 15"
    and "1 + count \<le> length (t3_blocks c)" "\<forall>n. length (fresh n) = 1024" "w = 16 * m + 2"
    and "\<forall>b\<in>set bs. b < count div m" "tag dv = c" "data_len + length bs * w \<le> length data"
  shows "\<exists>data' dv'. read_chunks drv fresh fi count m bs data data_len dv = Ret ((True, data', data_len + length bs * w), dv') \<and>
    tag dv' = c \<and> length data' = length data \<and>
    take (data_len + length bs * w) data' = take data_len data @ concat (map (chunk fresh (t3_blocks c) m) bs)"
  using assms(9-)
proof (induction bs arbitrary: data data_len dv)
  case (Cons b bs)
  have "b + 1 \<le> count div m" using Cons.prems(1) by simp
  then have "(b + 1) * m \<le> count" using assms(4) by (metis div_times_less_eq_dividend le_trans mult_le_mono1)
  then have bm: "b * m + m \<le> count" by simp
  have "b * 1 \<le> b * m" using assms(4) by (intro mult_le_mono2)
  then have fit: "(1 + b) + m \<le> length (t3_blocks c)" using bm assms(6) by linarith
  have "int b * int m + int m \<le> int count" using bm by (metis of_nat_add of_nat_le_iff of_nat_mult)
  then have "min (int m) (int count - int b * int m) = int m" by simp
  then have n: "unat (word_of_int (min (int m) (int count - int b * int m)) :: byte) = m"
    using assms(5) len_byte [of m] by simp
  have block: "(1 + b) mod 65536 = 1 + b" using fit assms(3) by (simp add: tag3_ok_def)
  obtain dv1 where step: "tag dv1 = c" "nfc_forum_tag_type3_check drv (fresh (1 + b)) fi (1 + b) m dv =
      Ret ((int w, chunk fresh (t3_blocks c) m b), dv1)"
    using check_blocks [OF assms(1), of dv fi m "1 + b" "fresh (1 + b)"] assms(2-5,7,8) fit Cons.prems(2) by (auto simp: chunk_def)
  have "\<forall>k\<in>set (take m (drop (1 + b) (t3_blocks c))). length k = 16"
    using assms(3) by (auto simp: tag3_ok_def dest: in_set_takeD in_set_dropD)
  then have l: "length (chunk fresh (t3_blocks c) m b) = w"
    using bytes_of_blocks [of "take m (drop (1 + b) (t3_blocks c))"] fit assms(5,7,8) by (simp add: chunk_def)
  let ?data = "splice data data_len (chunk fresh (t3_blocks c) m b)"
  have room: "data_len + w \<le> length data" using Cons.prems(3) by simp
  have copy: "copy_into data data_len (chunk fresh (t3_blocks c) m b) w = Ret ?data"
    using l room by (simp add: copy_into_def)
  have ld: "length ?data = length data" using room l by (simp add: length_splice)
  have "(data_len + w) + length bs * w \<le> length ?data" using Cons.prems(3) ld by simp
  then obtain data' dv' where ih: "read_chunks drv fresh fi count m bs ?data (data_len + w) dv1 =
      Ret ((True, data', (data_len + w) + length bs * w), dv')" "tag dv' = c" "length data' = length data"
    "take ((data_len + w) + length bs * w) data' = take (data_len + w) ?data @ concat (map (chunk fresh (t3_blocks c) m) bs)"
    using Cons.IH [of dv1 "data_len + w" ?data] Cons.prems(1) step(1) ld by auto
  have w: "int w \<noteq> 0" "\<not> int w < 0" using assms(8) by simp_all
  have sum: "data_len + length (b # bs) * w = (data_len + w) + length bs * w" by simp
  have "take (data_len + w) ?data = take data_len data @ chunk fresh (t3_blocks c) m b"
    using take_splice [of data_len data "chunk fresh (t3_blocks c) m b"] room l by simp
  then have "take (data_len + length (b # bs) * w) data' = take data_len data @ concat (map (chunk fresh (t3_blocks c) m) (b # bs))"
    using ih(4) unfolding sum by simp
  moreover have "read_chunks drv fresh fi count m (b # bs) data data_len dv =
      Ret ((True, data', data_len + length (b # bs) * w), dv')"
    using step(2) copy ih(1) w unfolding sum read_chunks.simps Let_def n block by simp
  ultimately show ?case using ih(2,3) by blast
qed simp

text \<open>The attribute block of a tag: the blocks one read may take, and the length of the message.\<close>

abbreviation (input) per_read :: "bytes \<Rightarrow> nat" where "per_read h \<equiv> unat (h ! 1)"

definition attributes_ok :: "bytes \<Rightarrow> bool" where
  "attributes_ok h \<longleftrightarrow>
     checksum h = unat (h ! 14) * 256 + unat (h ! 15) \<and> 1 \<le> per_read h \<and> per_read h \<le> 15 \<and> ndef_length h \<noteq> 0"

text \<open>C39. What the program that extracts the message of a type 3 tag writes, for a tag whose message it has room for: of the blocks
  of the message only those that begin at a multiple of the blocks per read below the count divided by it, with two bytes
  that were never received behind each read; in particular a message that one read could take in whole, with blocks to spare,
  comes out as an empty file, and the program reports success.\<close>
theorem tag3_file:
  fixes drv fresh data h
  defines "m \<equiv> per_read h" and "count \<equiv> ndef_length h div 16 + 1"
  defines "starts \<equiv> filter (\<lambda>b. m dvd b) [0..<count div m]"
  assumes "card_replies tag3_answer (Some 1024) 0 drv tag" "tag3_ok (tag dv)" "nfi_abtId fi = t3_id (tag dv)"
    and "t3_blocks (tag dv) = h # blocks" "attributes_ok h" "count \<le> length blocks"
    and "\<forall>n. length (fresh n) = 1024" "length data = 1024" "length starts * (16 * m + 2) \<le> 1024"
  shows "\<exists>dv'. tag3_read drv fresh data True fi dv =
      Ret ((0, concat (map (\<lambda>b. concat (take m (drop b blocks)) @ take 2 (drop (13 + 16 * m) (fresh (1 + b)))) starts)), dv') \<and>
    tag dv' = tag dv \<and> (count < m \<longrightarrow> starts = [])"
proof -
  let ?c = "tag dv"
  have cs: "chunk_starts count m = starts" by (simp add: chunk_starts_def starts_def dvd_eq_mod_eq_0)
  have m: "1 \<le> m" "m \<le> 15" "unat (h ! 1) = m" using assms(8) by (simp_all add: attributes_ok_def m_def)
  have len: "length h = 16" "count \<le> 255" using assms(5,7,9) by (auto simp: tag3_ok_def)
  obtain dv1 where one: "tag dv1 = ?c" "nfc_forum_tag_type3_check drv (fresh 0) fi 0 1 dv = Ret ((18, h @ take 2 (drop 29 (fresh 0))), dv1)"
    using check_blocks [OF assms(4,5,6), of 1 0 "fresh 0"] assms(7,10) by auto
  define d where "d = h @ take 2 (drop 29 (fresh 0))"
  have ld: "length d = 18" "take 16 d = h" using len(1) assms(10) by (simp_all add: d_def)
  then have copy: "copy_into data 0 d 18 = Ret (splice data 0 d)" "length (splice data 0 d) = 1024"
    using assms(11) by (simp_all add: copy_into_def length_splice)
  have "take 16 (splice data 0 d) = h" using ld by (simp add: splice_def)
  then have head: "read_at (splice data 0 d) 0 16 = Ret h" using copy(2) by (simp add: read_at_def)
  have below: "\<forall>b\<in>set starts. b < count div m" by (simp add: starts_def)
  obtain data' dv' where run: "read_chunks drv fresh fi count m starts (splice data 0 d) 0 dv1 =
      Ret ((True, data', 0 + length starts * (16 * m + 2)), dv')" "tag dv' = ?c" "length data' = 1024"
    "take (0 + length starts * (16 * m + 2)) data' =
      take 0 (splice data 0 d) @ concat (map (chunk fresh (t3_blocks ?c) m) starts)"
    using read_chunks_run [OF assms(4,6,5) m(1,2) _ assms(10) refl below one(1), of 0 "splice data 0 d"] assms(7,9,12) copy(2) by auto
  have "tag3_read drv fresh data True fi dv = Ret ((0, concat (map (chunk fresh (t3_blocks ?c) m) starts)), dv')"
  proof -
    have cm: "(ndef_length h div 16 + 1) mod 65536 = count" using len(2) by (simp add: count_def)
    have rd: "read_at data' 0 (0 + length starts * (16 * m + 2)) =
        Ret (concat (map (chunk fresh (t3_blocks ?c) m) starts))"
      using run(3,4) assms(12) by (simp add: read_at_def)
    show ?thesis
      using assms(8) m(1) unfolding tag3_read_def attributes_ok_def one(2) [folded d_def] Let_def
      by (simp add: copy(1) head cm [simplified] m(3) [simplified] cs [simplified] run(1) [simplified] rd [simplified])
  qed
  moreover have "chunk fresh (t3_blocks ?c) m = (\<lambda>b. concat (take m (drop b blocks)) @ take 2 (drop (13 + 16 * m) (fresh (1 + b))))"
    using assms(7) by (simp add: chunk_def fun_eq_iff)
  moreover have "count < m \<longrightarrow> starts = []" by (simp add: starts_def)
  ultimately show ?thesis using run(2) by auto
qed

definition small_tag3 :: tag3 where
  "small_tag3 =
     \<lparr>t3_id = replicate 8 5,
      t3_blocks = [[0x10, 1, 1, 0, 13, 0, 0, 0, 0, 0, 1, 0, 0, 20, 0, 52], replicate 16 7, replicate 16 8]\<rparr>"

lemma tag3_file_witness:
  "\<exists>dv'. tag3_read (simulated_reader tag3_answer) (\<lambda>_. replicate 1024 0xEE) (replicate 1024 0) True
      \<lparr>nfi_szLen = 18, nfi_btResCode = 1, nfi_abtId = replicate 8 5, nfi_abtPad = replicate 8 0, nfi_abtSysCode = [0x12, 0xfc]\<rparr>
      (blank_device small_tag3) = Ret ((0, replicate 16 7 @ [0xEE, 0xEE] @ replicate 16 8 @ [0xEE, 0xEE]), dv')"
proof -
  have dv: "driver_data (blank_device small_tag3) = small_tag3" by (simp add: blank_device_def pn53x_data_new_def nfc_device_new_def)
  let ?h = "[0x10, 1, 1, 0, 13, 0, 0, 0, 0, 0, 1, 0, 0, 20, 0, 52] :: bytes"
  let ?fi = "\<lparr>nfi_szLen = 18, nfi_btResCode = 1, nfi_abtId = replicate 8 5, nfi_abtPad = replicate 8 0, nfi_abtSysCode = [0x12, 0xfc]\<rparr>"
  have n: "ndef_length ?h div 16 + 1 = 2" "unat (?h ! 1) = 1" by (simp_all add: ndef_length_def)
  have h: "attributes_ok ?h" by (simp add: attributes_ok_def checksum_def ndef_length_def)
  have tag: "tag3_ok small_tag3" "t3_blocks small_tag3 = [?h, replicate 16 7, replicate 16 8]" "nfi_abtId ?fi = t3_id small_tag3"
    by (simp_all add: small_tag3_def tag3_ok_def)
  have two: "replicate 2 x = [x, x]" for x :: byte by (simp add: numeral_2_eq_2)
  have starts: "filter (\<lambda>b. 1 dvd b) [0..<2 div 1] = [0, 1 :: nat]" by (simp add: upt_rec)
  from tag3_file [OF simulated_reader_replies, of "blank_device small_tag3" ?fi ?h "[replicate 16 7, replicate 16 8]"
      "\<lambda>_. replicate 1024 0xEE" "replicate 1024 0"] tag h
  show ?thesis unfolding dv n starts by (auto simp: two)
qed

text \<open>A tag that allows no block per read makes the program divide by zero.\<close>

lemma no_block_per_read_undefined:
  assumes "nfc_forum_tag_type3_check drv (fresh 0) fi 0 1 dv = Ret ((18, d), dv1)" "length d = 18" "length data = 1024"
    and "checksum (take 16 d) = unat (d ! 14) * 256 + unat (d ! 15)" "ndef_length d \<noteq> 0" "d ! 1 = 0"
  shows "tag3_read drv fresh data writes fi dv = Undefined"
proof -
  have "copy_into data 0 d 18 = Ret (splice data 0 d)" "length (splice data 0 d) = 1024" "take 16 (splice data 0 d) = take 16 d"
    using assms(2,3) by (simp_all add: copy_into_def length_splice) (simp add: splice_def)
  then show ?thesis using assms(1,4-6) by (simp add: tag3_read_def read_at_def ndef_length_def Let_def)
qed

end
