(* ===== verification/Anticollision.thy ===== *)
theory Anticollision
  imports Mifare
begin

text \<open>
  Identifying a card of ISO 14443 type A frame by frame, \<open>examples/nfc-anticol.c\<close>, and giving a special MIFARE card another
  UID, \<open>examples/nfc-mfsetuid.c\<close>.  What is printed is left out, but for what is said of the card.
\<close>

section \<open>Frames\<close>

text \<open>The array \<open>abtRx\<close> keeps what it held behind an answer, and all of it when there is none.\<close>

definition raw_bits :: "'s nfc_driver \<Rightarrow> bytes \<Rightarrow> nat \<Rightarrow> bytes \<Rightarrow> ('s, bool \<times> bytes) op" where
  "raw_bits drv pbtTx szTxBits abtRx dv =
     and_then (nfc_initiator_transceive_bits drv pbtTx szTxBits [] False dv) (\<lambda>((res, rx, _), dv).
       if res < 0 then Ret ((False, abtRx), dv)
       else and_then (copy_into abtRx 0 rx (length rx)) (\<lambda>abtRx. Ret ((True, abtRx), dv)))"

definition raw_bytes :: "'s nfc_driver \<Rightarrow> bytes \<Rightarrow> bytes \<Rightarrow> ('s, bool \<times> bytes) op" where
  "raw_bytes drv pbtTx abtRx dv =
     and_then (nfc_initiator_transceive_bytes drv pbtTx (Some 264) 0 dv) (\<lambda>((res, rx), dv).
       if res < 0 then Ret ((False, abtRx), dv)
       else and_then (copy_into abtRx 0 rx (length rx)) (\<lambda>abtRx. Ret ((True, abtRx), dv)))"

section \<open>Anti-collision\<close>

text \<open>A cascade level: the part of the UID, which goes to \<open>abtRawUid\<close>, and its selection, answered by the SAK.  Neither answer
  is looked at.\<close>

definition cascade_level :: "'s nfc_driver \<Rightarrow> byte \<Rightarrow> nat \<Rightarrow> bytes \<Rightarrow> bytes \<Rightarrow> ('s, bytes \<times> bytes) op" where
  "cascade_level drv sel i abtRx abtRawUid dv =
     and_then (raw_bytes drv [sel, 0x20] abtRx dv) (\<lambda>((_, abtRx), dv).
     and_then (copy_into abtRawUid (4 * i) abtRx 4) (\<lambda>abtRawUid.
     and_then (read_at abtRx 0 5) (\<lambda>part.
     and_then (iso14443a_crc_append ([sel, 0x70] @ part)) (\<lambda>abtSelectTag.
     and_then (raw_bytes drv abtSelectTag abtRx dv) (\<lambda>((_, abtRx), dv). Ret ((abtRx, abtRawUid), dv))))))"

text \<open>The levels, their number, and the array with the last SAK.\<close>

definition anticollision :: "'s nfc_driver \<Rightarrow> bytes \<Rightarrow> ('s, bytes \<times> bytes \<times> nat) op" where
  "anticollision drv abtRx dv =
     and_then (cascade_level drv 0x93 0 abtRx (replicate 12 0) dv) (\<lambda>((abtRx, abtRawUid), dv).
     and_then (byte_at abtRx 0) (\<lambda>abtSak.
       if abtSak AND 0x04 = 0 then Ret ((abtRx, abtRawUid, 1), dv)
       else
         and_then (cascade_level drv 0x95 1 abtRx abtRawUid dv) (\<lambda>((abtRx, abtRawUid), dv).
         and_then (byte_at abtRx 0) (\<lambda>abtSak.
           if abtSak AND 0x04 = 0 then Ret ((abtRx, abtRawUid, 2), dv)
           else
             and_then (cascade_level drv 0x97 2 abtRx abtRawUid dv) (\<lambda>((abtRx, abtRawUid), dv).
               Ret ((abtRx, abtRawUid, 3), dv))))))"

text \<open>The bytes that are printed as the UID.\<close>

definition printed_uid :: "nat \<Rightarrow> bytes \<Rightarrow> bytes" where
  "printed_uid szCL uid =
     (if szCL = 1 then take 4 uid
      else if szCL = 2 then take 3 (drop 1 uid) @ take 4 (drop 4 uid)
      else take 3 (drop 1 uid) @ take 3 (drop 5 uid) @ take 4 (drop 8 uid))"

record card_report =
  rp_uid :: bytes
  rp_atqa :: bytes
  rp_sak :: byte
  rp_ats :: "bytes option"

text \<open>The program from the request on: the exit status, and what is said of the card.  The length of the ATS is the size of the
  array, in a byte.\<close>

definition anticol_identify :: "'s nfc_driver \<Rightarrow> bool \<Rightarrow> ('s, int \<times> card_report option) op" where
  "anticol_identify drv force_rats dv =
     and_then (raw_bits drv [0x26] 7 (replicate 264 0) dv) (\<lambda>((ok, abtRx), dv).
       if \<not> ok then Ret ((1, None), dv)
       else
         and_then (read_at abtRx 0 2) (\<lambda>abtAtqa.
         and_then (anticollision drv abtRx dv) (\<lambda>((abtRx, abtRawUid, szCL), dv).
         and_then (byte_at abtRx 0) (\<lambda>abtSak.
         and_then
           (if abtSak AND 0x20 \<noteq> 0 \<or> force_rats then
              and_then (iso14443a_crc_append [0xe0, 0x50]) (\<lambda>abtRats. raw_bytes drv abtRats abtRx dv)
            else Ret ((False, abtRx), dv)) (\<lambda>((ats, abtRx), dv).
         and_then (iso14443a_crc_append [0x50, 0x00]) (\<lambda>abtHalt.
         and_then (raw_bytes drv abtHalt abtRx dv) (\<lambda>(_, dv).
           Ret ((0, Some \<lparr>rp_uid = printed_uid szCL abtRawUid, rp_atqa = abtAtqa, rp_sak = abtSak,
                          rp_ats = (if ats then Some (take (unat (word_of_nat 264 :: byte)) abtRx) else None)\<rparr>), dv))))))))"

text \<open>From the open device on.\<close>

definition raw_setup :: "'s nfc_driver \<Rightarrow> ('s, int) op" where
  "raw_setup drv dv =
     on_ok (\<lambda>res. res) (nfc_initiator_init drv dv) (\<lambda>_ dv.
     on_ok (\<lambda>res. res) (nfc_set_property_bool drv NP_HANDLE_CRC False dv) (\<lambda>_ dv.
     on_ok (\<lambda>res. res) (nfc_set_property_bool drv NP_EASY_FRAMING False dv) (\<lambda>_ dv.
       nfc_set_property_bool drv NP_AUTO_ISO14443_4 False dv)))"

definition anticol_device :: "'s nfc_driver \<Rightarrow> bool \<Rightarrow> ('s, int \<times> card_report option) op" where
  "anticol_device drv force_rats dv = on_ok (\<lambda>_. (1, None)) (raw_setup drv dv) (\<lambda>_ dv. anticol_identify drv force_rats dv)"

text \<open>The options, with the device that was opened.\<close>

fun anticol_options :: "string list \<Rightarrow> bool \<Rightarrow> int + bool" where
  "anticol_options [] force_rats = Inr force_rats"
| "anticol_options (a # as) force_rats =
     (if a = ''-h'' then Inl 0 else if a = ''-q'' then anticol_options as force_rats
      else if a = ''-f'' then anticol_options as True else Inl 1)"

definition anticol_main :: "'s nfc_driver \<Rightarrow> string list \<Rightarrow> 's nfc_device option \<Rightarrow> (int \<times> card_report option) outcome" where
  "anticol_main drv args pnd =
     (case anticol_options args False of
        Inl status \<Rightarrow> Ret (status, None)
      | Inr force_rats \<Rightarrow>
          (case pnd of None \<Rightarrow> Ret (1, None) | Some dv \<Rightarrow> and_then (anticol_device drv force_rats dv) (\<lambda>(r, _). Ret r)))"

section \<open>Another UID\<close>

definition abtData :: bytes where
  "abtData = [0x01, 0x23, 0x45, 0x67, 0x00, 0x08, 0x04, 0x00, 0x46, 0x59, 0x25, 0x58, 0x49, 0x10, 0x23, 0x02, 0x23, 0xeb]"

definition abtBlank :: bytes where
  "abtBlank = [0xFF, 0xFF, 0xFF, 0xFF, 0xFF, 0xFF, 0xFF, 0x07, 0x80, 0x69, 0xFF, 0xFF, 0xFF, 0xFF, 0xFF, 0xFF, 0x36, 0xCC]"

definition abtWrite :: bytes where
  "abtWrite = [0xa0, 0x00, 0x5f, 0xb1]"

text \<open>The block with the UID: \<open>uid\<close> are the four bytes of the argument, if there is one.\<close>

definition uid_block :: "bytes option \<Rightarrow> bytes outcome" where
  "uid_block uid =
     (case uid of
        None \<Rightarrow> Ret abtData
      | Some u \<Rightarrow> iso14443a_crc_append (u @ [u ! 0 XOR u ! 1 XOR u ! 2 XOR u ! 3] @ drop 5 (take 16 abtData)))"

text \<open>Frames one after the other, of seven bits or of bytes; what comes of them is not looked at.\<close>

datatype raw_frame = Bits byte | Bytes bytes

fun send_frames :: "'s nfc_driver \<Rightarrow> raw_frame list \<Rightarrow> bytes \<Rightarrow> ('s, bytes) op" where
  "send_frames drv [] abtRx dv = Ret (abtRx, dv)"
| "send_frames drv (Bits b # fs) abtRx dv =
     and_then (raw_bits drv [b] 7 abtRx dv) (\<lambda>((_, abtRx), dv). send_frames drv fs abtRx dv)"
| "send_frames drv (Bytes bs # fs) abtRx dv =
     and_then (raw_bytes drv bs abtRx dv) (\<lambda>((_, abtRx), dv). send_frames drv fs abtRx dv)"

fun blank_frames :: "nat list \<Rightarrow> raw_frame list outcome" where
  "blank_frames [] = Ret []"
| "blank_frames (i # is) =
     and_then (iso14443a_crc_append [0xa0, word_of_nat i]) (\<lambda>w.
     and_then (blank_frames is) (\<lambda>fs. Ret (Bytes w # Bytes abtBlank # fs)))"

definition mfsetuid_frames :: "bytes option \<Rightarrow> bool \<Rightarrow> raw_frame list outcome" where
  "mfsetuid_frames uid format =
     and_then (uid_block uid) (\<lambda>block.
     and_then (iso14443a_crc_append [0x50, 0x00]) (\<lambda>halt.
     and_then (if format then blank_frames (map (\<lambda>k. 4 * k + 3) [0..<16]) else Ret []) (\<lambda>blank.
       Ret ([Bytes halt, Bits 0x40] @ (if format then [Bytes [0x41], Bytes halt, Bits 0x40] else []) @
         [Bytes [0x43], Bytes abtWrite, Bytes block] @ blank))))"

definition mfsetuid_device :: "'s nfc_driver \<Rightarrow> bytes option \<Rightarrow> bool \<Rightarrow> ('s, int) op" where
  "mfsetuid_device drv uid format dv =
     on_ok (\<lambda>_. 1) (raw_setup drv dv) (\<lambda>_ dv.
     and_then (raw_bits drv [0x26] 7 (replicate 264 0) dv) (\<lambda>((ok, abtRx), dv).
       if \<not> ok then Ret (1, dv)
       else
         and_then (anticollision drv abtRx dv) (\<lambda>((abtRx, _, _), dv).
         and_then (mfsetuid_frames uid format) (\<lambda>fs.
         and_then (send_frames drv fs abtRx dv) (\<lambda>(_, dv). Ret (0, dv))))))"

text \<open>The frames the program has ready made carry the CRC of the standard, and so do those it makes.\<close>

lemma ready_made_crcs:
  "iso14443a_crc_append (take 16 abtData) = Ret abtData"
  "iso14443a_crc_append (take 16 abtBlank) = Ret abtBlank"
  "iso14443a_crc_append (take 2 abtWrite) = Ret abtWrite"
  by (simp_all add: iso14443a_crc_append_def iso14443a_crc_def crc_round_def abtData_def abtBlank_def abtWrite_def)

section \<open>A card of type A\<close>

text \<open>A card with its UID, which it gives in parts of four bytes and a check byte, one per cascade level; selected on a level, it
  goes on to the next, until its SAK says that the UID is complete.\<close>

record picc =
  pc_uid :: bytes
  pc_atqa :: bytes
  pc_sak :: byte
  pc_ats :: bytes
  pc_level :: nat

definition uid_parts :: "bytes \<Rightarrow> bytes list" where
  "uid_parts uid =
     (if length uid = 4 then [uid]
      else if length uid = 7 then [0x88 # take 3 uid, drop 3 uid]
      else [0x88 # take 3 uid, 0x88 # take 3 (drop 3 uid), drop 6 uid])"

definition with_bcc :: "bytes \<Rightarrow> bytes" where
  "with_bcc part = part @ [fold (XOR) part 0]"

definition with_crc :: "bytes \<Rightarrow> bytes" where
  "with_crc bs = bs @ [ucast (crc_a bs), ucast (drop_bit 8 (crc_a bs))]"

definition sel_code :: "nat \<Rightarrow> byte" where
  "sel_code l = [0x93, 0x95, 0x97] ! l"

definition level_sak :: "picc \<Rightarrow> nat \<Rightarrow> byte" where
  "level_sak c l = (if Suc l < length (uid_parts (pc_uid c)) then 0x04 else pc_sak c)"

definition picc_answer :: "bytes \<Rightarrow> picc \<Rightarrow> bytes option \<times> picc" where
  "picc_answer cmd c =
     (let l = pc_level c; part = with_bcc (uid_parts (pc_uid c) ! l) in
      if l < length (uid_parts (pc_uid c)) then
        (if cmd = [sel_code l, 0x20] then (Some part, c)
         else if cmd = with_crc ([sel_code l, 0x70] @ part) then (Some (with_crc [level_sak c l]), c\<lparr>pc_level := Suc l\<rparr>)
         else (None, c))
      else if cmd = with_crc [0xe0, 0x50] \<and> pc_sak c AND 0x20 \<noteq> 0 then (Some (with_crc (pc_ats c)), c)
      else (None, c))"

definition picc_ok :: "picc \<Rightarrow> bool" where
  "picc_ok c \<longleftrightarrow> length (pc_uid c) \<in> {4, 7, 10} \<and> length (pc_atqa c) = 2 \<and> pc_sak c AND 0x04 = 0 \<and> length (pc_ats c) \<le> 262"

lemma with_crc_append: "bs \<noteq> [] \<Longrightarrow> iso14443a_crc_append bs = Ret (with_crc bs)"
  by (simp add: iso14443a_crc_append_def crc_bytes with_crc_def)

lemma length_with_crc [simp]: "length (with_crc bs) = length bs + 2"
  by (simp add: with_crc_def)

lemma parts_of_four:
  assumes "picc_ok c" "l < length (uid_parts (pc_uid c))"
  shows "length (uid_parts (pc_uid c) ! l) = 4" "l < 3"
  using assms by (auto simp: picc_ok_def uid_parts_def nth_Cons' split: if_splits)

lemma raw_bytes_answered:
  assumes "card_replies picc_answer (Some 264) 0 drv tag" "picc_answer cmd (tag dv) = (Some bs, c)" "length bs \<le> length rx"
  shows "\<exists>dv'. raw_bytes drv cmd rx dv = Ret ((True, bs @ drop (length bs) rx), dv') \<and> tag dv' = c"
proof -
  obtain res r dv' where "nfc_initiator_transceive_bytes drv cmd (Some 264) 0 dv = Ret ((res, r), dv')" "tag dv' = c"
    "res = int (length bs)" "r = bs"
    using card_repliesD [OF assms(1,2)] by auto
  then show ?thesis using assms(3) by (intro exI [of _ dv']) (simp add: raw_bytes_def copy_into_def splice_def)
qed

lemma raw_bytes_returns:
  assumes "card_replies picc_answer (Some 264) 0 drv tag" "\<And>bs c. picc_answer cmd (tag dv) = (Some bs, c) \<Longrightarrow> length bs \<le> length rx"
  shows "\<exists>r dv'. raw_bytes drv cmd rx dv = Ret (r, dv')"
proof (cases "picc_answer cmd (tag dv)")
  case (Pair reply c)
  show ?thesis
  proof (cases reply)
    case None
    with Pair card_repliesD [OF assms(1), of cmd dv None c] show ?thesis by (auto simp: raw_bytes_def)
  next
    case (Some bs)
    with Pair raw_bytes_answered [OF assms(1)] assms(2) show ?thesis by blast
  qed
qed

lemma cascade_level_answered:
  assumes "card_replies picc_answer (Some 264) 0 drv tag" "picc_ok c" "pc_level (tag dv) = l" "tag dv = c\<lparr>pc_level := l\<rparr>"
    and "l < length (uid_parts (pc_uid c))" "length rx = 264" "length uid = 12"
  shows "\<exists>rx' dv'. cascade_level drv (sel_code l) l rx uid dv = Ret ((rx', splice uid (4 * l) (uid_parts (pc_uid c) ! l)), dv') \<and>
    tag dv' = c\<lparr>pc_level := Suc l\<rparr> \<and> length rx' = 264 \<and> byte_at rx' 0 = Ret (level_sak c l)"
proof -
  let ?p = "uid_parts (pc_uid c) ! l"
  note four = parts_of_four [OF assms(2,5)]
  have bcc: "length (with_bcc ?p) = 5" "take 4 (with_bcc ?p) = ?p" using four(1) by (simp_all add: with_bcc_def)
  have a1: "picc_answer [sel_code l, 0x20] (tag dv) = (Some (with_bcc ?p), c\<lparr>pc_level := l\<rparr>)"
    using assms(5) unfolding assms(4) picc_answer_def by simp
  define rx1 where "rx1 = with_bcc ?p @ drop 5 rx"
  obtain dv1 where r1: "raw_bytes drv [sel_code l, 0x20] rx dv = Ret ((True, rx1), dv1)" "tag dv1 = c\<lparr>pc_level := l\<rparr>"
    using raw_bytes_answered [OF assms(1) a1, of rx] bcc(1) assms(6) unfolding rx1_def by auto
  have l1: "length rx1 = 264" "take 5 rx1 = with_bcc ?p" "take 4 rx1 = ?p"
    using bcc assms(6) four(1) by (simp_all add: rx1_def)
  let ?cmd = "with_crc ([sel_code l, 0x70] @ with_bcc ?p)"
  have "?cmd \<noteq> [sel_code l, 0x20]"
  proof
    assume "?cmd = [sel_code l, 0x20]"
    then have "length ?cmd = 2" by simp
    then show False by simp
  qed
  then have a2: "picc_answer ?cmd (tag dv1) = (Some (with_crc [level_sak c l]), c\<lparr>pc_level := Suc l\<rparr>)"
    using assms(5) unfolding r1(2) picc_answer_def by (simp add: level_sak_def)
  define rx2 where "rx2 = with_crc [level_sak c l] @ drop 3 rx1"
  obtain dv2 where r2: "raw_bytes drv ?cmd rx1 dv1 = Ret ((True, rx2), dv2)" "tag dv2 = c\<lparr>pc_level := Suc l\<rparr>"
    using raw_bytes_answered [OF assms(1) a2, of rx1] l1(1) unfolding rx2_def by (auto simp: numeral_3_eq_3)
  have l2: "length rx2 = 264" "byte_at rx2 0 = Ret (level_sak c l)"
    using l1(1) by (simp_all add: rx2_def with_crc_def byte_at_def)
  have "copy_into uid (4 * l) rx1 4 = Ret (splice uid (4 * l) ?p)" using four(2) assms(7) l1 by (simp add: copy_into_def)
  moreover have "read_at rx1 0 5 = Ret (with_bcc ?p)" using l1 by (simp add: read_at_def)
  moreover have "iso14443a_crc_append ([sel_code l, 0x70] @ with_bcc ?p) = Ret ?cmd" by (rule with_crc_append) simp
  ultimately have "cascade_level drv (sel_code l) l rx uid dv = Ret ((rx2, splice uid (4 * l) ?p), dv2)"
    using r1(1) r2(1) unfolding cascade_level_def by simp
  then show ?thesis using r2(2) l2 by blast
qed

text \<open>All levels of a card.\<close>

lemma sel_codes: "sel_code 0 = 0x93" "sel_code 1 = 0x95" "sel_code 2 = 0x97"
  by (simp_all add: sel_code_def)

lemma uid_cases [consumes 1, case_names four seven ten]:
  assumes "length (uid :: bytes) \<in> {4, 7, 10}"
  obtains
    a b c d where "uid = [a, b, c, d]"
  | a b c d e f g where "uid = [a, b, c, d, e, f, g]"
  | a b c d e f g h i j where "uid = [a, b, c, d, e, f, g, h, i, j]"
  using assms by (auto simp: length_Suc_conv eval_nat_numeral)

lemma anticollision_answered:
  assumes "card_replies picc_answer (Some 264) 0 drv tag" "picc_ok c" "tag dv = c\<lparr>pc_level := 0\<rparr>" "length rx = 264"
  defines "n \<equiv> length (uid_parts (pc_uid c))"
  shows "\<exists>rx' uid dv'. anticollision drv rx dv = Ret ((rx', uid, n), dv') \<and> printed_uid n uid = pc_uid c \<and>
    tag dv' = c\<lparr>pc_level := n\<rparr> \<and> length rx' = 264 \<and> byte_at rx' 0 = Ret (pc_sak c)"
proof -
  note level = cascade_level_answered [OF assms(1,2)]
  have sak: "pc_sak c AND 0x04 = 0" using assms(2) by (simp add: picc_ok_def)
  have uid: "length (pc_uid c) \<in> {4, 7, 10}" using assms(2) by (simp add: picc_ok_def)
  then have n: "0 < n" by (auto simp: n_def uid_parts_def)
  let ?u0 = "replicate 12 0 :: bytes"
  let ?u1 = "splice ?u0 0 (uid_parts (pc_uid c) ! 0)"
  obtain rx1 dv1 where r1: "cascade_level drv 0x93 0 rx ?u0 dv = Ret ((rx1, ?u1), dv1)" "tag dv1 = c\<lparr>pc_level := 1\<rparr>"
    "length rx1 = 264" "byte_at rx1 0 = Ret (level_sak c 0)"
    using level [of dv 0 rx ?u0] assms(3,4) n unfolding n_def by (auto simp: sel_codes)
  show ?thesis
    using uid
  proof (cases rule: uid_cases)
    case (four x0 x1 x2 x3)
    then show ?thesis using r1 sak
      by (simp add: anticollision_def n_def uid_parts_def level_sak_def printed_uid_def splice_def)
  next
    case (seven x0 x1 x2 x3 x4 x5 x6)
    then have two: "n = 2" "1 < length (uid_parts (pc_uid c))" by (simp_all add: n_def uid_parts_def)
    let ?u2 = "splice ?u1 4 (uid_parts (pc_uid c) ! 1)"
    have "length ?u1 = 12" using seven by (simp add: uid_parts_def splice_def)
    then obtain rx2 dv2 where r2: "cascade_level drv 0x95 1 rx1 ?u1 dv1 = Ret ((rx2, ?u2), dv2)" "tag dv2 = c\<lparr>pc_level := 2\<rparr>"
      "length rx2 = 264" "byte_at rx2 0 = Ret (level_sak c 1)"
      using level [of dv1 1 rx1 ?u1] r1(2,3) two(2) by (auto simp: sel_codes [simplified] numeral_2_eq_2)
    have s: "level_sak c 0 = 4" "level_sak c 1 = pc_sak c" using two by (simp_all add: level_sak_def n_def)
    have "printed_uid n ?u2 = pc_uid c" using seven two(1) by (simp add: uid_parts_def printed_uid_def splice_def)
    moreover have "anticollision drv rx dv = Ret ((rx2, ?u2, n), dv2)"
      using r1(1,4) r2(1,4) sak s unfolding anticollision_def two(1) by simp
    ultimately show ?thesis using r2(2-4) s two(1) by auto
  next
    case (ten x0 x1 x2 x3 x4 x5 x6 x7 x8 x9)
    then have three: "n = 3" "1 < length (uid_parts (pc_uid c))" "2 < length (uid_parts (pc_uid c))" by (simp_all add: n_def uid_parts_def)
    let ?u2 = "splice ?u1 4 (uid_parts (pc_uid c) ! 1)"
    let ?u3 = "splice ?u2 8 (uid_parts (pc_uid c) ! 2)"
    have l: "length ?u1 = 12" "length ?u2 = 12" using ten by (simp_all add: uid_parts_def splice_def)
    obtain rx2 dv2 where r2: "cascade_level drv 0x95 1 rx1 ?u1 dv1 = Ret ((rx2, ?u2), dv2)" "tag dv2 = c\<lparr>pc_level := 2\<rparr>"
      "length rx2 = 264" "byte_at rx2 0 = Ret (level_sak c 1)"
      using level [of dv1 1 rx1 ?u1] r1(2,3) three(2) l(1) by (auto simp: sel_codes [simplified] numeral_2_eq_2)
    obtain rx3 dv3 where r3: "cascade_level drv 0x97 2 rx2 ?u2 dv2 = Ret ((rx3, ?u3), dv3)" "tag dv3 = c\<lparr>pc_level := 3\<rparr>"
      "length rx3 = 264" "byte_at rx3 0 = Ret (level_sak c 2)"
      using level [of dv2 2 rx2 ?u2] r2(2,3) three(3) l(2) by (auto simp: sel_codes)
    have s: "level_sak c 0 = 4" "level_sak c 1 = 4" "level_sak c 2 = pc_sak c" using three by (simp_all add: level_sak_def n_def)
    have "printed_uid n ?u3 = pc_uid c" using ten three(1) by (simp add: uid_parts_def printed_uid_def splice_def)
    moreover have "anticollision drv rx dv = Ret ((rx3, ?u3, n), dv3)"
      using r1(1,4) r2(1,4) r3(1) s unfolding anticollision_def three(1) by simp
    ultimately show ?thesis using r3(2-4) s three(1) by auto
  qed
qed

text \<open>C35. The program that identifies a card frame by frame says of every card of type A - with a UID of four, seven or ten
  bytes, in one, two or three cascade levels - its whole UID, its ATQA and its SAK; of its ATS it gives no more than the first
  eight bytes, the length being kept in a byte.\<close>
theorem anticol_finds_card:
  assumes "card_replies picc_answer (Some 264) 0 drv tag" "picc_ok c" "tag dv = c\<lparr>pc_level := 0\<rparr>"
    and "nfc_initiator_transceive_bits drv [0x26] 7 [] False dv = Ret ((res, pc_atqa c, par), dv1)" "0 \<le> res" "tag dv1 = tag dv"
  shows "\<exists>ats dv'. anticol_identify drv force_rats dv =
      Ret ((0, Some \<lparr>rp_uid = pc_uid c, rp_atqa = pc_atqa c, rp_sak = pc_sak c, rp_ats = ats\<rparr>), dv') \<and>
    (pc_sak c AND 0x20 \<noteq> 0 \<longrightarrow> 6 \<le> length (pc_ats c) \<longrightarrow> ats = Some (take 8 (with_crc (pc_ats c))))"
proof -
  let ?n = "length (uid_parts (pc_uid c))"
  let ?c = "c\<lparr>pc_level := ?n\<rparr>"
  have ok: "length (pc_atqa c) = 2" "length (pc_ats c) \<le> 262" using assms(2) by (simp_all add: picc_ok_def)
  define rx0 where "rx0 = pc_atqa c @ drop 2 (replicate 264 0)"
  have r0: "raw_bits drv [0x26] 7 (replicate 264 0) dv = Ret ((True, rx0), dv1)" "length rx0 = 264" "read_at rx0 0 2 = Ret (pc_atqa c)"
    using assms(4,5) ok(1) by (simp_all add: raw_bits_def copy_into_def splice_def rx0_def read_at_def)
  from anticollision_answered [OF assms(1,2), of dv1 rx0] assms(3,6) r0(2) obtain rx uid dv2 where
    r: "anticollision drv rx0 dv1 = Ret ((rx, uid, ?n), dv2)" "printed_uid ?n uid = pc_uid c" "tag dv2 = ?c" "length rx = 264"
      "byte_at rx 0 = Ret (pc_sak c)" by auto
  have crcs: "iso14443a_crc_append [0xe0, 0x50] = Ret (with_crc [0xe0, 0x50])" "iso14443a_crc_append [0x50, 0x00] = Ret (with_crc [0x50, 0x00])"
    by (simp_all add: with_crc_append)
  have halt: "\<exists>r dv4. raw_bytes drv (with_crc [0x50, 0x00]) rx' dv3 = Ret (r, dv4)" if "tag dv3 = ?c" "length rx' = 264" for rx' dv3
    using ok(2) that by (intro raw_bytes_returns [OF assms(1)]) (auto simp: picc_answer_def Let_def split: if_splits)
  obtain ats rx' dv3 where a: "(if pc_sak c AND 0x20 \<noteq> 0 \<or> force_rats then raw_bytes drv (with_crc [0xe0, 0x50]) rx dv2
      else Ret ((False, rx), dv2)) = Ret ((ats, rx'), dv3)" "tag dv3 = ?c" "length rx' = 264"
    "pc_sak c AND 0x20 \<noteq> 0 \<longrightarrow> ats \<and> rx' = with_crc (pc_ats c) @ drop (length (pc_ats c) + 2) rx"
  proof (cases "pc_sak c AND 0x20 \<noteq> 0")
    case True
    then have "picc_answer (with_crc [0xe0, 0x50]) (tag dv2) = (Some (with_crc (pc_ats c)), ?c)"
      unfolding r(3) by (simp add: picc_answer_def)
    from raw_bytes_answered [OF assms(1) this, of rx] ok(2) r(4) True that show ?thesis by auto
  next
    case False
    then have no: "picc_answer (with_crc [0xe0, 0x50]) (tag dv2) = (None, ?c)" unfolding r(3) by (simp add: picc_answer_def)
    from card_repliesD [OF assms(1) this] obtain dv3 where "raw_bytes drv (with_crc [0xe0, 0x50]) rx dv2 = Ret ((False, rx), dv3)" "tag dv3 = ?c"
      by (auto simp: raw_bytes_def)
    with False r(3,4) that show ?thesis by (cases force_rats) auto
  qed
  obtain h dv4 where h: "raw_bytes drv (with_crc [0x50, 0x00]) rx' dv3 = Ret (h, dv4)" using halt a(2,3) by blast
  have "anticol_identify drv force_rats dv =
      Ret ((0, Some \<lparr>rp_uid = pc_uid c, rp_atqa = pc_atqa c, rp_sak = pc_sak c, rp_ats = (if ats then Some (take 8 rx') else None)\<rparr>), dv4)"
  proof -
    have ats: "(if pc_sak c AND 0x20 \<noteq> 0 \<or> force_rats
        then and_then (iso14443a_crc_append [0xe0, 0x50]) (\<lambda>abtRats. raw_bytes drv abtRats rx dv2)
        else Ret ((False, rx), dv2)) = Ret ((ats, rx'), dv3)" using a(1) by (simp only: crcs(1) and_then.simps)
    have eight: "unat (word_of_nat 264 :: byte) = 8" by simp
    show ?thesis
      by (simp only: anticol_identify_def r0(1,3) r(1,2,5) ats crcs(2) h eight and_then.simps prod.case not_True_eq_False if_False)
  qed
  then show ?thesis using a(4) by (intro exI conjI) (assumption, auto)
qed

definition seven_card :: picc where
  "seven_card =
     \<lparr>pc_uid = [4, 1, 2, 3, 4, 5, 6], pc_atqa = [0x44, 0x03], pc_sak = 0x20, pc_ats = [6, 0x75, 0x77, 0x81, 2, 0x80], pc_level = 0\<rparr>"

lemma anticol_finds_card_witness:
  "\<exists>ats dv'. anticol_identify (simulated_reader picc_answer
       \<lparr>initiator_transceive_bits := Some (\<lambda>tx n par wanted dv. Ret ((16, [0x44, 0x03], []), dv))\<rparr>) False (blank_device seven_card) =
     Ret ((0, Some \<lparr>rp_uid = [4, 1, 2, 3, 4, 5, 6], rp_atqa = [0x44, 0x03], rp_sak = 0x20, rp_ats = ats\<rparr>), dv') \<and>
     ats = Some (take 8 (with_crc [6, 0x75, 0x77, 0x81, 2, 0x80]))"
proof -
  let ?drv = "simulated_reader picc_answer
       \<lparr>initiator_transceive_bits := Some (\<lambda>tx n par wanted dv. Ret ((16, [0x44, 0x03], []), dv))\<rparr>"
  let ?dv = "blank_device seven_card"
  have dv: "driver_data ?dv = seven_card\<lparr>pc_level := 0\<rparr>"
    by (simp add: blank_device_def pn53x_data_new_def nfc_device_new_def seven_card_def)
  have ok: "picc_ok seven_card" by (simp add: picc_ok_def seven_card_def)
  have cr: "card_replies picc_answer (Some 264) 0 ?drv driver_data"
    using simulated_reader_replies [of picc_answer "Some 264" 0] by (simp add: card_replies_def nfc_initiator_transceive_bytes_def)
  have bits: "nfc_initiator_transceive_bits ?drv [0x26] 7 [] False ?dv = Ret ((16, pc_atqa seven_card, []), ?dv\<lparr>last_error := 0\<rparr>)"
    by (simp add: nfc_initiator_transceive_bits_def hal_def seven_card_def)
  show ?thesis using anticol_finds_card [OF cr ok dv bits, of False] by (simp add: seven_card_def)
qed

end
