(* ===== verification/Emulated_Cards.thy ===== *)
theory Emulated_Cards
  imports Anticollision
begin

text \<open>
  Cards the examples emulate: one that answers the first commands of a MIFARE card, \<open>examples/nfc-emulate-tag.c\<close>, and one
  with a UID of the user's choice, \<open>examples/nfc-emulate-uid.c\<close>; and the parity bits of \<open>utils/nfc-utils.c\<close>.
\<close>

section \<open>Parity\<close>

definition oddparity :: "byte \<Rightarrow> byte" where
  "oddparity bt = ucast (drop_bit (unat ((bt XOR drop_bit 4 bt) AND 0xF)) (0x9669 :: 32 word) AND 1)"

definition oddparity_bytes_ts :: "bytes \<Rightarrow> bytes" where
  "oddparity_bytes_ts pbtData = map oddparity pbtData"

definition bits_set :: "byte \<Rightarrow> nat" where
  "bits_set b = length (filter (bit b) [0..<8])"

lemma nibble_table:
  fixes n :: byte
  assumes "n < 16"
  shows "drop_bit (unat n) (0x9669 :: 32 word) AND 1 = of_bool ((bit n 0 = bit n 1) = (bit n 2 = bit n 3))"
proof -
  have "list_all (\<lambda>k. drop_bit (unat (word_of_nat k :: byte)) (0x9669 :: 32 word) AND 1 =
      of_bool ((bit (word_of_nat k :: byte) 0 = bit (word_of_nat k :: byte) 1) = (bit (word_of_nat k :: byte) 2 = bit (word_of_nat k :: byte) 3)))
      [15, 14, 13, 12, 11, 10, 9, 8, 7, 6, 5, 4, 3, 2, 1, 0]"
    by simp
  moreover have "unat n < 16" using assms by (simp add: word_less_nat_alt)
  then have "unat n \<in> set [15, 14, 13, 12, 11, 10, 9, 8, 7, 6, 5, 4, 3, 2, 1, 0]" by (simp del: One_nat_def) presburger
  ultimately show ?thesis unfolding list_all_iff by fastforce
qed

text \<open>The parity that is looked up is the odd parity of the byte: together with it the number of bits set is odd.\<close>
lemma oddparity_is_odd: "oddparity b = of_bool (even (bits_set b)) \<and> odd (bits_set b + unat (oddparity b))"
proof -
  let ?n = "(b XOR drop_bit 4 b) AND 0xF"
  have "?n < 16" using word_and_le1 [of "b XOR drop_bit 4 b" "0xF"] by (simp add: order_le_less_trans)
  from nibble_table [OF this] have o: "oddparity b = of_bool ((bit ?n 0 = bit ?n 1) = (bit ?n 2 = bit ?n 3))"
    unfolding oddparity_def by (simp only:) (cases "(bit ?n 0 = bit ?n 1) = (bit ?n 2 = bit ?n 3)"; simp only: of_bool_def if_True if_False; simp)
  have bits: "bit ?n i = (bit b i \<noteq> bit b (4 + i))" if "i < 4" for i
  proof -
    have "bit (0xF :: byte) i" using that by (auto simp: less_Suc_eq eval_nat_numeral)
    then show ?thesis by (simp add: bit_simps add.commute)
  qed
  have "even (bits_set b) \<longleftrightarrow> ((bit ?n 0 = bit ?n 1) = (bit ?n 2 = bit ?n 3))"
  proof -
    have "[0..<8] = [0, 1, 2, 3, 4, 5, 6, 7 :: nat]" by code_simp
    then show ?thesis using bits [of 0] bits [of 1] bits [of 2] bits [of 3] by (simp add: bits_set_def)
  qed
  then show ?thesis using o by simp
qed

section \<open>The first commands of a MIFARE card\<close>

text \<open>Whether to go on, what to send, and whether frames go without CRC from now on.\<close>

definition target_io :: "nfc_target \<Rightarrow> bool \<Rightarrow> bytes \<Rightarrow> (bool \<times> bytes \<times> bool) outcome" where
  "target_io pnt init_mfc_auth pbtInput =
     (case pbtInput of
        [] \<Rightarrow> Ret (True, [], init_mfc_auth)
      | c # _ \<Rightarrow>
          if c = 0x30 then and_then (byte_at pbtInput 1) (\<lambda>_. Ret (True, map of_char ''You read block '', init_mfc_auth))
          else if c = 0x50 then Ret (False, [], init_mfc_auth)
          else if c = 0x60 \<or> c = 0x61 then Ret (True, [0x12, 0x34], True)
          else if c = 0xe0 then
            let a = nai (nti pnt) in
            and_then (read_at (nai_abtAts a) 0 (nai_szAtsLen a)) (\<lambda>ats. Ret (True, word_of_nat (nai_szAtsLen a + 1) # ats, init_mfc_auth))
          else Ret (False, [], init_mfc_auth))"

text \<open>A turn of the loop on what was received; \<open>Inl\<close> is its end.\<close>

definition emulate_tag_turn ::
    "'s nfc_driver \<Rightarrow> nfc_target \<Rightarrow> bool \<times> bytes \<Rightarrow> ('s, bool + bool \<times> bytes) op" where
  "emulate_tag_turn drv pnt s dv =
     and_then (target_io pnt (fst s) (snd s)) (\<lambda>(loop, abtTx, auth).
       on_ok (\<lambda>_. Inl False) (if abtTx = [] then Ret (0, dv) else nfc_target_send_bytes drv abtTx 0 dv) (\<lambda>_ dv.
         if \<not> loop then Ret (Inl True, dv)
         else
           and_then (if auth then nfc_set_property_bool drv NP_HANDLE_CRC False dv else Ret (0, dv)) (\<lambda>(_, dv).
           on_rx (\<lambda>_. Inl False) (nfc_target_receive_bytes drv 264 0 dv) (\<lambda>res rx dv.
             Ret (Inr (False, take (nat res) rx), dv)))))"

partial_function (option) emulate_tag_loop ::
    "'s nfc_driver \<Rightarrow> nfc_target \<Rightarrow> bool \<times> bytes \<Rightarrow> 's nfc_device \<Rightarrow> (bool \<times> 's nfc_device) outcome option" where
  "emulate_tag_loop drv pnt s dv =
     (case emulate_tag_turn drv pnt s dv of
        Ret (Inl r, dv') \<Rightarrow> Some (Ret (r, dv'))
      | Ret (Inr s', dv') \<Rightarrow> emulate_tag_loop drv pnt s' dv'
      | Blocks \<Rightarrow> Some Blocks
      | Aborts \<Rightarrow> Some Aborts
      | Undefined \<Rightarrow> Some Undefined)"

definition nfc_target_emulate_tag :: "'s nfc_driver \<Rightarrow> nfc_target \<Rightarrow> ('s, bool) op" where
  "nfc_target_emulate_tag drv pnt dv =
     and_then (nfc_target_init drv pnt 264 0 dv) (\<lambda>((res, pnt, rx), dv).
       if res < 0 then Ret (False, dv) else and_then (of_run (emulate_tag_loop drv pnt (False, take (nat res) rx) dv)) (\<lambda>r. r))"

definition emulated_mini :: "nfc_target \<Rightarrow> nfc_target" where
  "emulated_mini zeroed =
     zeroed\<lparr>nm := \<lparr>nmt = NMT_ISO14443A, nbr = NBR_UNDEFINED\<rparr>,
            nti := (nti zeroed)\<lparr>nai := \<lparr>nai_abtAtqa = [0x00, 0x04], nai_btSak = 0x09, nai_szUidLen = 4,
              nai_abtUid = [0x08, 0xab, 0xcd, 0xef] @ replicate 6 0, nai_szAtsLen = 0, nai_abtAts = replicate 254 0\<rparr>\<rparr>\<rparr>"

definition emulate_tag_main :: "'s nfc_driver \<Rightarrow> 's nfc_device option \<Rightarrow> nfc_target \<Rightarrow> int outcome" where
  "emulate_tag_main drv pnd zeroed =
     (case pnd of
        None \<Rightarrow> Ret 1
      | Some dv \<Rightarrow>
          let nt = emulated_mini zeroed in
          and_then (nfc_set_property_bool drv NP_EASY_FRAMING (nai_btSak (nai (nti nt)) AND 0x20 \<noteq> 0) dv) (\<lambda>(_, dv).
          and_then (nfc_target_emulate_tag drv nt dv) (\<lambda>(ok, _). Ret (if ok then 0 else 1))))"

text \<open>The number of the block is written behind the text and not sent: every block reads the same.\<close>

lemma every_block_reads_the_same: "target_io pnt a [0x30, b] = target_io pnt a [0x30, b']"
  by (simp add: target_io_def byte_at_def)

section \<open>A UID of the user's choice\<close>

text \<open>The UID and its check byte, with the four bytes of the argument or without.\<close>

definition abtUidBcc :: "bytes option \<Rightarrow> bytes" where
  "abtUidBcc uid = (case uid of None \<Rightarrow> [0xDE, 0xAD, 0xBE, 0xEF, 0x62] | Some u \<Rightarrow> u @ [fold (\<lambda>b c. c XOR b) u 0x00])"

text \<open>What is sent back for a frame of so many bits, and how many bits of it; no bits are no answer.\<close>

definition uid_answer :: "bytes \<Rightarrow> int \<Rightarrow> bytes \<times> nat" where
  "uid_answer uid_bcc szRecvBits =
     (if szRecvBits = 7 then ([0x04, 0x00], 16)
      else if szRecvBits = 16 then (uid_bcc, 40)
      else if szRecvBits = 72 then ([0x08, 0xb6, 0xdd], 24)
      else ([], 0))"

text \<open>A turn of the loop, which ends only when sending fails.\<close>

definition emulate_uid_turn :: "'s nfc_driver \<Rightarrow> bytes \<Rightarrow> ('s, bool) op" where
  "emulate_uid_turn drv uid_bcc dv =
     and_then (nfc_target_receive_bits drv 264 dv) (\<lambda>((res, _, _), dv).
       let (pbtTx, szTxBits) = uid_answer uid_bcc res in
       if res > 0 \<and> szTxBits \<noteq> 0 then
         and_then (nfc_target_send_bits drv pbtTx szTxBits [] dv) (\<lambda>(sent, dv). Ret (0 \<le> sent, dv))
       else Ret (True, dv))"

partial_function (option) emulate_uid_loop :: "'s nfc_driver \<Rightarrow> bytes \<Rightarrow> 's nfc_device \<Rightarrow> int outcome option" where
  "emulate_uid_loop drv uid_bcc dv =
     (case emulate_uid_turn drv uid_bcc dv of
        Ret (go_on, dv') \<Rightarrow> if go_on then emulate_uid_loop drv uid_bcc dv' else Some (Ret 1)
      | Blocks \<Rightarrow> Some Blocks
      | Aborts \<Rightarrow> Some Aborts
      | Undefined \<Rightarrow> Some Undefined)"

definition faked_target :: "nfc_target \<Rightarrow> nfc_target" where
  "faked_target zeroed =
     zeroed\<lparr>nm := \<lparr>nmt = NMT_ISO14443A, nbr = NBR_UNDEFINED\<rparr>,
            nti := (nti zeroed)\<lparr>nai := \<lparr>nai_abtAtqa = [0x04, 0x00], nai_btSak = 0x20, nai_szUidLen = 4,
              nai_abtUid = [0x08, 0xad, 0xbe, 0xef] @ replicate 6 0, nai_szAtsLen = 0, nai_abtAts = replicate 254 0\<rparr>\<rparr>\<rparr>"

definition emulate_uid_device :: "'s nfc_driver \<Rightarrow> bytes option \<Rightarrow> nfc_target \<Rightarrow> 's nfc_device \<Rightarrow> int outcome" where
  "emulate_uid_device drv uid zeroed dv =
     and_then (nfc_target_init drv (faked_target zeroed) 264 0 dv) (\<lambda>((res, _, _), dv).
       if res < 0 then Ret 1
       else
         and_then (nfc_set_property_bool drv NP_HANDLE_CRC False dv) (\<lambda>(res, dv).
           if res < 0 then Ret 1
           else
             and_then (nfc_set_property_bool drv NP_HANDLE_PARITY True dv) (\<lambda>(res, dv).
               if res < 0 then Ret 1 else and_then (of_run (emulate_uid_loop drv (abtUidBcc uid) dv)) (\<lambda>r. r))))"

text \<open>C36. To a reader that identifies it, an emulated UID that is given as the argument is a card: to every frame of whole bytes that
  a card of type A with this UID of four bytes and a SAK of 8 answers while it is being selected, the emulation sends the answer
  of the card, check byte and CRC included.  The UID that is emulated without an argument is not: to the frame that asks for the UID
  it sends its four bytes with another check byte than a card that has them, whatever the rest of that card.\<close>
theorem emulated_uid_is_card:
  assumes "length u = 4" "pc_uid c = u" "pc_sak c = 0x08" "pc_level c = 0" "picc_answer cmd c = (Some bs, c')"
  shows "uid_answer (abtUidBcc (Some u)) (8 * int (length cmd)) = (bs, 8 * length bs) \<and>
    (cmd = [0x93, 0x20] \<longrightarrow> u = take 4 (abtUidBcc None) \<longrightarrow>
      take 4 (fst (uid_answer (abtUidBcc None) 16)) = take 4 bs \<and> uid_answer (abtUidBcc None) 16 \<noteq> (bs, 8 * length bs))"
proof -
  have parts: "uid_parts u = [u]" using assms(1) by (simp add: uid_parts_def)
  have bcc: "abtUidBcc (Some u) = with_bcc u" by (simp add: abtUidBcc_def with_bcc_def xor.commute)
  have "iso14443a_crc_append [0x08] = Ret [0x08, 0xb6, 0xdd]"
    by (simp add: iso14443a_crc_append_def iso14443a_crc_def crc_round_def)
  then have crc: "with_crc [0x08] = [0x08, 0xb6, 0xdd]" using with_crc_append [of "[0x08]"] by simp
  have five: "length (with_bcc u) = 5" using assms(1) by (simp add: with_bcc_def)
  from assms(5) consider "cmd = [sel_code 0, 0x20]" "bs = with_bcc u"
    | "cmd = with_crc ([sel_code 0, 0x70] @ with_bcc u)" "bs = with_crc [0x08]"
    unfolding picc_answer_def by (auto simp: assms(2-4) parts level_sak_def Let_def split: if_splits)
  then show ?thesis
  proof cases
    case 1
    moreover have "uid_answer (abtUidBcc None) 16 = ([0xDE, 0xAD, 0xBE, 0xEF, 0x62], 40)" by (simp add: uid_answer_def abtUidBcc_def)
    moreover have "with_bcc (take 4 (abtUidBcc None)) = [0xDE, 0xAD, 0xBE, 0xEF, 0x22]" by (simp add: with_bcc_def abtUidBcc_def)
    ultimately show ?thesis using five bcc by (auto simp: uid_answer_def)
  next
    case 2
    then have "length cmd = 9" using five by simp
    then show ?thesis using 2(2) crc by (auto simp: uid_answer_def)
  qed
qed

lemma emulated_uid_is_card_witness:
  "uid_answer (abtUidBcc (Some [0xDE, 0xAD, 0xBE, 0xEF])) (8 * int (length [0x93, 0x20 :: byte])) = ([0xDE, 0xAD, 0xBE, 0xEF, 0x22], 8 * length [0xDE, 0xAD, 0xBE, 0xEF, 0x22 :: byte]) \<and>
   uid_answer (abtUidBcc None) 16 \<noteq> ([0xDE, 0xAD, 0xBE, 0xEF, 0x22], 8 * length [0xDE, 0xAD, 0xBE, 0xEF, 0x22 :: byte])"
proof -
  let ?c = "\<lparr>pc_uid = [0xDE, 0xAD, 0xBE, 0xEF], pc_atqa = [4, 0], pc_sak = 0x08, pc_ats = [], pc_level = 0\<rparr>"
  have "picc_answer [0x93, 0x20] ?c = (Some [0xDE, 0xAD, 0xBE, 0xEF, 0x22], ?c)"
    by (simp add: picc_answer_def uid_parts_def with_bcc_def sel_code_def)
  from emulated_uid_is_card [OF _ _ _ _ this, of "[0xDE, 0xAD, 0xBE, 0xEF]"] show ?thesis by (simp add: abtUidBcc_def)
qed

text \<open>The UID that is emulated when none is given has a check byte that is not its own: a reader that looks at it does not select the
  card.\<close>

lemma default_bcc_wrong: "abtUidBcc None \<noteq> with_bcc (take 4 (abtUidBcc None))"
  by (simp add: abtUidBcc_def with_bcc_def)

end
