(* ===== verification/Nfc_Relay.thy ===== *)
theory Nfc_Relay
  imports Serial_Opening
begin

text \<open>
  \<open>utils/nfc-relay-picc.c\<close>: relaying the commands of a reader to a card elsewhere, within one program or between two of them
  that talk over file descriptors, in lines of hexadecimal text.  What is printed for people is left out.
\<close>

section \<open>Lines of hexadecimal text\<close>

definition hex_chars :: string where
  "hex_chars = ''0123456789abcdef''"

definition hex2 :: "nat \<Rightarrow> string" where
  "hex2 n = [hex_chars ! (n div 16 mod 16), hex_chars ! (n mod 16)]"

text \<open>Whether it could be written, and what: a length of at most 264 has four digits.  \<open>prints\<close> says that every \<open>fprintf\<close>
  succeeds.\<close>

definition print_hex_fd4 :: "bytes \<Rightarrow> nat \<Rightarrow> string \<Rightarrow> bool \<Rightarrow> (bool \<times> string) outcome" where
  "print_hex_fd4 pbtData szBytes pchPrefix prints =
     (if szBytes > 264 then Ret (False, [])
      else if \<not> prints then Ret (False, [])
      else and_then (read_at pbtData 0 szBytes) (\<lambda>d.
        Ret (True, ''#'' @ pchPrefix @ '' '' @ hex2 (szBytes div 256) @ hex2 szBytes @ '': '' @
          concat (map (\<lambda>b. hex2 (unat b) @ '' '') d) @ [CHR 0x0A])))"

definition hex_value :: "char \<Rightarrow> nat option" where
  "hex_value c =
     (let v = of_char c :: nat in
      if 48 \<le> v \<and> v \<le> 57 then Some (v - 48) else if 97 \<le> v \<and> v \<le> 102 then Some (v - 87)
      else if 65 \<le> v \<and> v \<le> 70 then Some (v - 55) else None)"

definition hex_number :: "string \<Rightarrow> nat" where
  "hex_number ds = foldl (\<lambda>v c. 16 * v + the (hex_value c)) 0 ds"

text \<open>\<open>fscanf ("%x")\<close> with a width, which counts a sign and a leading \<open>0x\<close>: the number and the rest of the input.\<close>

definition scan_hex :: "nat \<Rightarrow> string \<Rightarrow> (32 word \<times> string) option" where
  "scan_hex width s =
     (let s = dropWhile is_blank s; item = take width s;
          sign = (item \<noteq> [] \<and> hd item \<in> {CHR ''-'', CHR ''+''}); neg = (item \<noteq> [] \<and> hd item = CHR ''-'');
          item = (if sign then tl item else item);
          prefix = (take 2 item = ''0x'' \<or> take 2 item = ''0X'');
          ds = takeWhile (\<lambda>c. hex_value c \<noteq> None) (if prefix then drop 2 item else item);
          v = word_of_nat (hex_number ds) in
      if ds = [] then None
      else Some (if neg then - v else v, drop ((if sign then 1 else 0) + (if prefix then 2 else 0) + length ds) s))"

text \<open>So many bytes, into an array with room for \<open>room\<close>.\<close>

fun scan_bytes :: "nat \<Rightarrow> nat \<Rightarrow> string \<Rightarrow> (bytes \<times> string) option outcome" where
  "scan_bytes room 0 s = Ret (Some ([], s))"
| "scan_bytes room (Suc n) s =
     (case scan_hex 2 s of
        None \<Rightarrow> Ret None
      | Some (v, s) \<Rightarrow>
          if room = 0 then Undefined
          else and_then (scan_bytes (room - 1) n s) (\<lambda>r. Ret (map_option (\<lambda>(d, s). (ucast v # d, s)) r)))"

text \<open>\<^const>\<open>None\<close> is a failure, after which the program ends.\<close>

definition scan_hex_fd3 :: "string \<Rightarrow> nat \<Rightarrow> string \<Rightarrow> (bytes \<times> string) option outcome" where
  "scan_hex_fd3 pchPrefix room fd3 =
     (case dropWhile (\<lambda>c. c \<noteq> CHR ''#'') fd3 of
        [] \<Rightarrow> Ret None
      | _ # s \<Rightarrow>
          if \<not> is_prefix pchPrefix s then Ret None
          else (case scan_hex 4 (drop (length pchPrefix) s) of
                  None \<Rightarrow> Ret None
                | Some (n, s) \<Rightarrow>
                    if unat n > 264 then Ret None
                    else scan_bytes room (unat n) (if s \<noteq> [] \<and> hd s = CHR '':'' then tl s else s)))"

section \<open>The card that is relayed\<close>

text \<open>What the side of the card says of it, and what the side of the reader makes of that.\<close>

fun print_all :: "(bytes \<times> nat \<times> string) list \<Rightarrow> bool \<Rightarrow> (bool \<times> string) outcome" where
  "print_all [] prints = Ret (True, [])"
| "print_all ((d, n, p) # xs) prints =
     and_then (print_hex_fd4 d n p prints) (\<lambda>(ok, out).
       if \<not> ok then Ret (False, out) else and_then (print_all xs prints) (\<lambda>(ok, out'). Ret (ok, out @ out')))"

definition describe_card :: "nfc_iso14443a_info \<Rightarrow> bool \<Rightarrow> (bool \<times> string) outcome" where
  "describe_card a prints =
     print_all
       [(nai_abtUid a, nai_szUidLen a, ''UID''), (nai_abtAtqa a, 2, ''ATQA''), ([nai_btSak a], 1, ''SAK''),
        (nai_abtAts a, nai_szAtsLen a, ''ATS'')] prints"

text \<open>Into the zeroed target; no byte for the SAK leaves it as it is.\<close>

definition scan_card :: "nfc_iso14443a_info \<Rightarrow> string \<Rightarrow> (nfc_iso14443a_info \<times> string) option outcome" where
  "scan_card a fd3 =
     and_then (scan_hex_fd3 ''UID'' 10 fd3) (\<lambda>r. case r of None \<Rightarrow> Ret None | Some (uid, fd3) \<Rightarrow>
     and_then (scan_hex_fd3 ''ATQA'' 2 fd3) (\<lambda>r. case r of None \<Rightarrow> Ret None | Some (atqa, fd3) \<Rightarrow>
     and_then (scan_hex_fd3 ''SAK'' 1 fd3) (\<lambda>r. case r of None \<Rightarrow> Ret None | Some (sak, fd3) \<Rightarrow>
     and_then (scan_hex_fd3 ''ATS'' 254 fd3) (\<lambda>r. case r of None \<Rightarrow> Ret None | Some (ats, fd3) \<Rightarrow>
       Ret (Some (a\<lparr>nai_abtUid := uid @ drop (length uid) (nai_abtUid a), nai_szUidLen := length uid,
                    nai_abtAtqa := atqa @ drop (length atqa) (nai_abtAtqa a),
                    nai_btSak := (if sak = [] then nai_btSak a else hd sak),
                    nai_abtAts := ats @ drop (length ats) (nai_abtAts a), nai_szAtsLen := length ats\<rparr>, fd3))))))"

text \<open>The target that is emulated: a short UID, and the answer to select of the chip with at most 48 of the historical bytes.\<close>

definition emulated_info :: "nfc_iso14443a_info \<Rightarrow> nfc_iso14443a_info outcome" where
  "emulated_info a =
     and_then (byte_at (nai_abtAtqa a) 1) (\<lambda>q.
     and_then (byte_at (nai_abtUid a) 0) (\<lambda>_.
     and_then (read_at (nai_abtAts a) 0 (nai_szAtsLen a)) (\<lambda>ats.
       let tk = take 48 (case iso14443a_locate_historical_bytes ats of None \<Rightarrow> [] | Some tk \<Rightarrow> tk) in
       and_then (copy_into (nai_abtAts a) 0 ([0x75, 0x33, 0x92, 0x03] @ tk) (4 + length tk)) (\<lambda>new.
         Ret (a\<lparr>nai_szUidLen := 4, nai_abtAtqa := (nai_abtAtqa a)[1 := q AND (0xFF - 0x40)],
                nai_abtUid := (nai_abtUid a)[0 := 0x08], nai_abtAts := new, nai_szAtsLen := 4 + length tk\<rparr>)))))"

section \<open>Relaying\<close>

datatype relay_mode = Both_sides | Initiator_only | Target_only

record relay =
  abtCapdu :: bytes
  szCapduLen :: nat
  abtRapdu :: bytes
  szRapduLen :: nat
  relay_in :: string
  relay_out :: string

text \<open>Where a command comes from; \<open>Inl\<close> is the exit status of the program.\<close>

definition take_command ::
    "relay_mode \<Rightarrow> bool \<Rightarrow> 't nfc_driver \<Rightarrow> relay \<Rightarrow> 't nfc_device \<Rightarrow> ((int + relay) \<times> 't nfc_device) outcome" where
  "take_command mode prints drvT st dvT =
     (if mode = Initiator_only then
        and_then (scan_hex_fd3 ''C-APDU'' 264 (relay_in st)) (\<lambda>r. case r of
          None \<Rightarrow> Ret (Inl 1, dvT)
        | Some (d, fd3) \<Rightarrow>
            Ret (Inr (st\<lparr>abtCapdu := d @ drop (length d) (abtCapdu st), szCapduLen := length d, relay_in := fd3\<rparr>), dvT))
      else
        and_then (nfc_target_receive_bytes drvT 264 0 dvT) (\<lambda>((res, rx), dvT).
          if res < 0 then Ret (Inl 1, dvT)
          else
            let st = st\<lparr>abtCapdu := rx @ drop (length rx) (abtCapdu st), szCapduLen := nat res\<rparr> in
            if mode = Target_only then
              and_then (print_hex_fd4 (abtCapdu st) (szCapduLen st) ''C-APDU'' prints) (\<lambda>(ok, out).
                Ret (if ok then Inr (st\<lparr>relay_out := relay_out st @ out\<rparr>) else Inl 1, dvT))
            else Ret (Inr st, dvT)))"

text \<open>Where its answer comes from, and whether there is one.  The comparison stands inside the assignment, and what is assigned is
  the length of the command.\<close>

definition take_answer ::
    "relay_mode \<Rightarrow> 'i nfc_driver \<Rightarrow> relay \<Rightarrow> 'i nfc_device \<Rightarrow> ((int + bool \<times> relay) \<times> 'i nfc_device) outcome" where
  "take_answer mode drvI st dvI =
     (if mode = Target_only then
        and_then (scan_hex_fd3 ''R-APDU'' 264 (relay_in st)) (\<lambda>r. case r of
          None \<Rightarrow> Ret (Inl 1, dvI)
        | Some (d, fd3) \<Rightarrow>
            Ret (Inr (True, st\<lparr>abtRapdu := d @ drop (length d) (abtRapdu st), szRapduLen := length d, relay_in := fd3\<rparr>), dvI))
      else
        and_then (read_at (abtCapdu st) 0 (szCapduLen st)) (\<lambda>capdu.
        and_then (nfc_initiator_transceive_bytes drvI capdu (Some 264) (- 1) dvI) (\<lambda>((r, rx), dvI).
          let res = (if r < 0 then 1 else 0 :: int) in
          if res \<noteq> 0 then Ret (Inr (False, st), dvI)
          else Ret (Inr (True, st\<lparr>abtRapdu := rx @ drop (length rx) (abtRapdu st), szCapduLen := nat res\<rparr>), dvI))))"

text \<open>Where it goes.\<close>

definition pass_answer ::
    "relay_mode \<Rightarrow> bool \<Rightarrow> 't nfc_driver \<Rightarrow> relay \<Rightarrow> 't nfc_device \<Rightarrow> ((int + relay) \<times> 't nfc_device) outcome" where
  "pass_answer mode prints drvT st dvT =
     (if mode = Initiator_only then
        and_then (print_hex_fd4 (abtRapdu st) (szRapduLen st) ''R-APDU'' prints) (\<lambda>(ok, out).
          Ret (if ok then Inr (st\<lparr>relay_out := relay_out st @ out\<rparr>) else Inl 1, dvT))
      else
        and_then (read_at (abtRapdu st) 0 (szRapduLen st)) (\<lambda>rapdu.
        and_then (nfc_target_send_bytes drvT rapdu 0 dvT) (\<lambda>(res, dvT).
          Ret (if res < 0 then Inl 1 else Inr st, dvT))))"

text \<open>A turn of the loop.\<close>

definition relay_turn ::
    "relay_mode \<Rightarrow> bool \<Rightarrow> 'i nfc_driver \<Rightarrow> 't nfc_driver \<Rightarrow> relay \<Rightarrow> 'i nfc_device \<Rightarrow> 't nfc_device \<Rightarrow>
     ((int + relay) \<times> 'i nfc_device \<times> 't nfc_device) outcome" where
  "relay_turn mode prints drvI drvT st dvI dvT =
     and_then (take_command mode prints drvT st dvT) (\<lambda>(r, dvT). case r of Inl status \<Rightarrow> Ret (Inl status, dvI, dvT) | Inr st \<Rightarrow>
     and_then (take_answer mode drvI st dvI) (\<lambda>(r, dvI). case r of Inl status \<Rightarrow> Ret (Inl status, dvI, dvT) | Inr (ret, st) \<Rightarrow>
       if \<not> ret then Ret (Inr st, dvI, dvT)
       else and_then (pass_answer mode prints drvT st dvT) (\<lambda>(r, dvT). Ret (r, dvI, dvT))))"

definition relay_start :: "string \<Rightarrow> relay" where
  "relay_start fd3 =
     \<lparr>abtCapdu = replicate 264 0, szCapduLen = 0, abtRapdu = replicate 264 0, szRapduLen = 0, relay_in = fd3, relay_out = []\<rparr>"

text \<open>The loop, for as many turns as the user lets it go on.\<close>

fun relay_turns ::
    "nat \<Rightarrow> relay_mode \<Rightarrow> bool \<Rightarrow> 'i nfc_driver \<Rightarrow> 't nfc_driver \<Rightarrow> relay \<Rightarrow> 'i nfc_device \<Rightarrow> 't nfc_device \<Rightarrow>
     ((int + relay) \<times> 'i nfc_device \<times> 't nfc_device) outcome" where
  "relay_turns 0 mode prints drvI drvT st dvI dvT = Ret (Inl 0, dvI, dvT)"
| "relay_turns (Suc n) mode prints drvI drvT st dvI dvT =
     and_then (relay_turn mode prints drvI drvT st dvI dvT) (\<lambda>(r, dvI, dvT). case r of
       Inl status \<Rightarrow> Ret (Inl status, dvI, dvT)
     | Inr st \<Rightarrow> relay_turns n mode prints drvI drvT st dvI dvT)"

section \<open>Lines are read back\<close>

lemma hex_char:
  "n < 16 \<Longrightarrow> hex_value (hex_chars ! n) = Some n \<and> \<not> is_blank (hex_chars ! n) \<and> hex_chars ! n \<notin> set ''-+xX#'' \<and>
    hex_chars ! n \<in> set hex_chars"
proof -
  have "list_all (\<lambda>n. hex_value (hex_chars ! n) = Some n \<and> \<not> is_blank (hex_chars ! n) \<and> hex_chars ! n \<notin> set ''-+xX#'' \<and>
      hex_chars ! n \<in> set hex_chars) [15, 14, 13, 12, 11, 10, 9, 8, 7, 6, 5, 4, 3, 2, 1, 0]"
    by (simp add: hex_value_def is_blank_def hex_chars_def)
  moreover assume "n < 16"
  then have "n \<in> set [15, 14, 13, 12, 11, 10, 9, 8, 7, 6, 5, 4, 3, 2, 1, 0]" by (auto, presburger)
  ultimately show ?thesis unfolding list_all_iff by blast
qed

definition hex_text :: "string \<Rightarrow> bool" where
  "hex_text ds \<longleftrightarrow> (\<forall>c\<in>set ds. \<exists>n<16. c = hex_chars ! n)"

lemma hex_text_hex2 [simp]: "hex_text (hex2 n)" "hex_text (ds @ es) \<longleftrightarrow> hex_text ds \<and> hex_text es" "length (hex2 n) = 2" "hex2 n \<noteq> []"
proof -
  show "hex_text (hex2 n)" unfolding hex_text_def hex2_def by (auto intro: exI [of _ "n div 16 mod 16"] exI [of _ "n mod 16"])
qed (auto simp: hex_text_def hex2_def)

lemma hex_number_hex2: "foldl (\<lambda>v c. 16 * v + the (hex_value c)) v (hex2 n) = 256 * v + n mod 256"
proof -
  have "n mod 256 = 16 * (n div 16 mod 16) + n mod 16" using mod_mult2_eq [of n 16 16] by simp
  then show ?thesis using hex_char [of "n div 16 mod 16"] hex_char [of "n mod 16"] by (simp add: hex2_def)
qed

lemma hex_number_of:
  "hex_number (hex2 n) = n mod 256"
  "n < 65536 \<Longrightarrow> hex_number (hex2 (n div 256) @ hex2 n) = n"
  by (simp_all add: hex_number_def hex_number_hex2)

lemma scan_hex_blank: "is_blank c \<Longrightarrow> scan_hex w (c # s) = scan_hex w s"
  by (simp add: scan_hex_def)

lemma scan_hex_text:
  assumes "hex_text ds" "ds \<noteq> []" "length ds = w"
  shows "scan_hex w (ds @ s) = Some (word_of_nat (hex_number ds), s)"
proof -
  have c: "hex_value c \<noteq> None \<and> \<not> is_blank c \<and> c \<notin> set ''-+xX#''" if "c \<in> set ds" for c
    using assms(1) that hex_char unfolding hex_text_def by fastforce
  have hd: "hd ds \<in> set ds" using assms(2) by simp
  then have dw: "dropWhile is_blank (ds @ s) = ds @ s" using c assms(2) by (cases ds) auto
  have tk: "take w (ds @ s) = ds" using assms(3) by simp
  have "take 2 ds \<noteq> ''0x''" "take 2 ds \<noteq> ''0X''" using c in_set_takeD [of _ 2 ds] by (metis list.set_intros)+
  then have pre: "(take 2 ds = ''0x'' \<or> take 2 ds = ''0X'') = False" by simp
  have tw: "takeWhile (\<lambda>c. hex_value c \<noteq> None) ds = ds" using c by (simp add: takeWhile_eq_all_conv)
  have sign: "(ds \<noteq> [] \<and> hd ds \<in> {CHR ''-'', CHR ''+''}) = False" "(ds \<noteq> [] \<and> hd ds = CHR ''-'') = False" using c [OF hd] by auto
  show ?thesis unfolding scan_hex_def Let_def dw tk sign if_False pre tw using assms(2,3) by simp
qed

lemma scan_byte_text:
  fixes b :: byte
  shows "scan_hex 2 ('' '' @ hex2 (unat b) @ s) = Some (word_of_nat (unat b), s)"
proof -
  have "unat b < 256" by (rule order_less_le_trans [OF unsigned_less]) simp
  then have "hex_number (hex2 (unat b)) = unat b" by (simp add: hex_number_of)
  then show ?thesis using scan_hex_text [of "hex2 (unat b)" 2 s] by (simp add: scan_hex_blank is_blank_def)
qed

lemma narrow_byte: "(ucast (ucast (b :: byte) :: 32 word) :: byte) = b"
  by (rule bit_word_eqI) (simp add: bit_simps)

lemma scan_bytes_text:
  "scan_bytes room (length d) ('' '' @ concat (map (\<lambda>b. hex2 (unat b) @ '' '') d) @ s) =
    (if length d \<le> room then Ret (Some (d, '' '' @ s)) else Undefined)"
proof (induction d arbitrary: room)
  case (Cons b d)
  let ?s = "'' '' @ concat (map (\<lambda>b. hex2 (unat b) @ '' '') d) @ s"
  have "'' '' @ concat (map (\<lambda>b. hex2 (unat b) @ '' '') (b # d)) @ s = '' '' @ hex2 (unat b) @ ?s" by simp
  moreover have "length d \<le> room - Suc 0 \<longleftrightarrow> Suc (length d) \<le> room" if "0 < room" using that by auto
  ultimately show ?case using Cons.IH [of "room - 1"]
    by (cases "room = 0") (simp_all add: scan_byte_text narrow_byte del: append_Cons)
qed simp

text \<open>A line is read back, with what stands in front of it passed over; what there is no room for is stored past the array.\<close>

lemma line_scanned:
  assumes "print_hex_fd4 d n p prints = Ret (True, t)" "CHR ''#'' \<notin> set junk"
  shows "scan_hex_fd3 p room (junk @ t @ s) =
    (if n \<le> room then Ret (Some (take n d, [CHR '' '', CHR 0x0A] @ s)) else Undefined)"
proof -
  have n: "n \<le> 264" "n \<le> length d" using assms(1) by (auto simp: print_hex_fd4_def read_at_def split: if_splits)
  let ?len = "hex2 (n div 256) @ hex2 n"
  let ?bytes = "concat (map (\<lambda>b. hex2 (unat b) @ '' '') (take n d))"
  have t: "t = ''#'' @ p @ '' '' @ ?len @ '': '' @ ?bytes @ [CHR 0x0A]"
    using assms(1) n by (auto simp: print_hex_fd4_def read_at_def split: if_splits)
  have junk: "dropWhile (\<lambda>c. c \<noteq> CHR ''#'') (junk @ t @ s) = ''#'' @ p @ '' '' @ ?len @ '': '' @ ?bytes @ [CHR 0x0A] @ s"
    unfolding t using assms(2) by (subst dropWhile_append2) auto
  have "scan_hex 4 (?len @ '': '' @ ?bytes @ [CHR 0x0A] @ s) = Some (word_of_nat (hex_number ?len), '': '' @ ?bytes @ [CHR 0x0A] @ s)"
    using scan_hex_text [of ?len 4 "'': '' @ ?bytes @ [CHR 0x0A] @ s"] by simp
  then have len: "scan_hex 4 ('' '' @ ?len @ '': '' @ ?bytes @ [CHR 0x0A] @ s) = Some (word_of_nat n, '': '' @ ?bytes @ [CHR 0x0A] @ s)"
    using n(1) by (simp add: scan_hex_blank is_blank_def hex_number_of)
  have un: "unat (word_of_nat n :: 32 word) = n" using n(1) by (simp add: unat_of_nat)
  have pre: "is_prefix p (p @ x)" for x by (simp add: is_prefix_def)
  have "scan_bytes room n ('' '' @ ?bytes @ [CHR 0x0A] @ s) =
      (if n \<le> room then Ret (Some (take n d, '' '' @ [CHR 0x0A] @ s)) else Undefined)"
    using scan_bytes_text [of room "take n d" "[CHR 0x0A] @ s"] n by simp
  then show ?thesis using n len pre unfolding scan_hex_fd3_def junk by (simp add: un)
qed

section \<open>Properties\<close>

text \<open>The four lines of a card, one after the other.\<close>

lemma no_marker_left: "CHR ''#'' \<notin> set [CHR '' '', CHR 0x0A]"
  by simp

text \<open>C40. The side of the reader takes from the text what the side of the card put there: the UID, the ATQA, the SAK and the ATS of
  the card, when the card has at most as many bytes of each as there is room for.  In front of the text there may be other text
  without the sign that begins a line, and behind it any text.\<close>
theorem relay_card_roundtrip:
  assumes "describe_card a prints = Ret (True, t)" "CHR ''#'' \<notin> set junk"
    and "nai_szUidLen a \<le> 10" "length (nai_abtAtqa a) = 2" "nai_szAtsLen a \<le> 254"
  shows "\<exists>a'. scan_card z (junk @ t @ s) = Ret (Some (a', [CHR '' '', CHR 0x0A] @ s)) \<and>
    nai_szUidLen a' = nai_szUidLen a \<and> take (nai_szUidLen a') (nai_abtUid a') = take (nai_szUidLen a) (nai_abtUid a) \<and>
    take 2 (nai_abtAtqa a') = nai_abtAtqa a \<and> nai_btSak a' = nai_btSak a \<and>
    nai_szAtsLen a' = nai_szAtsLen a \<and> take (nai_szAtsLen a') (nai_abtAts a') = take (nai_szAtsLen a) (nai_abtAts a)"
proof -
  obtain t1 t2 t3 t4 where t: "print_hex_fd4 (nai_abtUid a) (nai_szUidLen a) ''UID'' prints = Ret (True, t1)"
    "print_hex_fd4 (nai_abtAtqa a) 2 ''ATQA'' prints = Ret (True, t2)"
    "print_hex_fd4 [nai_btSak a] 1 ''SAK'' prints = Ret (True, t3)"
    "print_hex_fd4 (nai_abtAts a) (nai_szAtsLen a) ''ATS'' prints = Ret (True, t4)" "t = t1 @ t2 @ t3 @ t4"
    using assms(1) unfolding describe_card_def
    by (auto split: outcome.splits prod.splits if_splits simp: and_then_Ret_iff)
  let ?gap = "[CHR '' '', CHR 0x0A]"
  have len: "nai_szUidLen a \<le> length (nai_abtUid a)" "nai_szAtsLen a \<le> length (nai_abtAts a)"
    using t(1,4) by (auto simp: print_hex_fd4_def read_at_def split: if_splits)
  have "scan_hex_fd3 ''UID'' 10 (junk @ t @ s) = Ret (Some (take (nai_szUidLen a) (nai_abtUid a), ?gap @ t2 @ t3 @ t4 @ s))"
    using line_scanned [OF t(1) assms(2), of 10] assms(3) t(5) by simp
  moreover have "scan_hex_fd3 ''ATQA'' 2 (?gap @ t2 @ t3 @ t4 @ s) = Ret (Some (nai_abtAtqa a, ?gap @ t3 @ t4 @ s))"
    using line_scanned [OF t(2) no_marker_left, of 2 "t3 @ t4 @ s"] assms(4) by simp
  moreover have "scan_hex_fd3 ''SAK'' 1 (?gap @ t3 @ t4 @ s) = Ret (Some ([nai_btSak a], ?gap @ t4 @ s))"
    using line_scanned [OF t(3) no_marker_left, of 1 "t4 @ s"] by simp
  moreover have "scan_hex_fd3 ''ATS'' 254 (?gap @ t4 @ s) = Ret (Some (take (nai_szAtsLen a) (nai_abtAts a), ?gap @ s))"
    using line_scanned [OF t(4) no_marker_left, of 254 s] assms(5) by simp
  ultimately show ?thesis using len assms(4) by (simp add: scan_card_def)
qed

definition desfire_info :: nfc_iso14443a_info where
  "desfire_info =
     \<lparr>nai_abtAtqa = [0x03, 0x44], nai_btSak = 0x20, nai_szUidLen = 4, nai_abtUid = [0x04, 0xab, 0xcd, 0xef] @ replicate 6 0,
      nai_szAtsLen = 5, nai_abtAts = [0x75, 0x77, 0x81, 0x02, 0x80] @ replicate 249 0\<rparr>"

lemma relay_card_roundtrip_witness:
  "\<exists>t a'. describe_card desfire_info True = Ret (True, t) \<and>
     scan_card (desfire_info\<lparr>nai_btSak := 0, nai_abtUid := replicate 10 0\<rparr>) (''talk'' @ t @ []) = Ret (Some (a', [CHR '' '', CHR 0x0A] @ [])) \<and>
     take 4 (nai_abtUid a') = [0x04, 0xab, 0xcd, 0xef] \<and> nai_btSak a' = 0x20"
proof -
  obtain t where t: "describe_card desfire_info True = Ret (True, t)"
    by (simp add: describe_card_def print_hex_fd4_def read_at_def desfire_info_def)
  obtain a' where a': "scan_card (desfire_info\<lparr>nai_btSak := 0, nai_abtUid := replicate 10 0\<rparr>) (''talk'' @ t @ []) = Ret (Some (a', [CHR '' '', CHR 0x0A] @ []))"
    "nai_szUidLen a' = nai_szUidLen desfire_info"
    "take (nai_szUidLen a') (nai_abtUid a') = take (nai_szUidLen desfire_info) (nai_abtUid desfire_info)"
    "nai_btSak a' = nai_btSak desfire_info"
    using relay_card_roundtrip [OF t, of "''talk''" "desfire_info\<lparr>nai_btSak := 0, nai_abtUid := replicate 10 0\<rparr>" "[]"]
    by (auto simp: desfire_info_def)
  then have "take 4 (nai_abtUid a') = [0x04, 0xab, 0xcd, 0xef]" "nai_btSak a' = 0x20" by (simp_all add: desfire_info_def)
  then show ?thesis using t a'(1) by blast
qed

text \<open>Within one program the reader never gets what the card answers: its length is stored as that of the command, the length of the
  answer stays 0, and every answer that is passed on has no bytes.\<close>

definition answer_length_zero :: "relay \<Rightarrow> bool" where
  "answer_length_zero st \<longleftrightarrow> szRapduLen st = 0"

lemma start_zero: "answer_length_zero (relay_start fd3)"
  by (simp add: answer_length_zero_def relay_start_def)

lemma relay_sends_nothing:
  assumes "answer_length_zero st" "nfc_target_receive_bytes drvT 264 0 dvT = Ret ((n, cmd), dvT1)" "0 \<le> n" "length cmd = nat n"
    and "nfc_initiator_transceive_bytes drvI cmd (Some 264) (- 1) dvI = Ret ((k, answer), dvI1)" "0 \<le> k"
  shows "\<exists>st'. answer_length_zero st' \<and> relay_turn Both_sides prints drvI drvT st dvI dvT =
    and_then (nfc_target_send_bytes drvT [] 0 dvT1) (\<lambda>(res, dvT2). Ret (if res < 0 then Inl 1 else Inr st', dvI1, dvT2))"
proof -
  define st1 where "st1 = st\<lparr>abtCapdu := cmd @ drop (length cmd) (abtCapdu st), szCapduLen := nat n\<rparr>"
  define st2 where "st2 = st1\<lparr>abtRapdu := answer @ drop (length answer) (abtRapdu st1), szCapduLen := 0\<rparr>"
  have zero: "szRapduLen st2 = 0" using assms(1) by (simp add: st2_def st1_def answer_length_zero_def)
  have "take_command Both_sides prints drvT st dvT = Ret (Inr st1, dvT1)" using assms(2,3) by (simp add: take_command_def st1_def)
  moreover have "take_answer Both_sides drvI st1 dvI = Ret (Inr (True, st2), dvI1)"
    using assms(4-6) by (simp add: take_answer_def read_at_def st2_def) (simp add: st1_def)
  moreover have "pass_answer Both_sides prints drvT st2 dvT1 =
      and_then (nfc_target_send_bytes drvT [] 0 dvT1) (\<lambda>(res, dvT). Ret (if res < 0 then Inl 1 else Inr st2, dvT))"
    by (simp add: pass_answer_def read_at_def zero)
  ultimately have "relay_turn Both_sides prints drvI drvT st dvI dvT =
      and_then (nfc_target_send_bytes drvT [] 0 dvT1) (\<lambda>(res, dvT2). Ret (if res < 0 then Inl 1 else Inr st2, dvI1, dvT2))"
    by (cases "nfc_target_send_bytes drvT [] 0 dvT1") (auto simp: relay_turn_def)
  then show ?thesis using zero by (intro exI [of _ st2]) (simp add: answer_length_zero_def)
qed

text \<open>More bytes of a UID than ten are stored past the array.\<close>

lemma long_uid_undefined:
  assumes "print_hex_fd4 d n ''UID'' prints = Ret (True, t)" "10 < n"
  shows "scan_card z t = Undefined"
  using line_scanned [OF assms(1), of "[]" 10 "[]"] assms(2) by (simp add: scan_card_def)

end
