(* ===== verification/Reader_Programs.thy ===== *)
theory Reader_Programs
  imports Emulated_Cards Nfc_Relay
begin

text \<open>
  The programs that show what a reader is and sees: \<open>utils/nfc-list.c\<close>, \<open>examples/nfc-poll.c\<close>, and those that talk to the chip
  itself: \<open>examples/pn53x-diagnose.c\<close>, \<open>examples/pn53x-sam.c\<close> and the shell \<open>examples/pn53x-tamashell.c\<close>.  Each from the
  devices on that could be opened; what is printed is the result, without its text.
\<close>

section \<open>Listing and polling\<close>

definition listed_kinds :: "nfc_modulation list" where
  "listed_kinds =
     [\<lparr>nmt = NMT_ISO14443A, nbr = NBR_106\<rparr>, \<lparr>nmt = NMT_FELICA, nbr = NBR_212\<rparr>, \<lparr>nmt = NMT_FELICA, nbr = NBR_424\<rparr>,
      \<lparr>nmt = NMT_ISO14443B, nbr = NBR_106\<rparr>, \<lparr>nmt = NMT_ISO14443BI, nbr = NBR_106\<rparr>, \<lparr>nmt = NMT_ISO14443B2SR, nbr = NBR_106\<rparr>,
      \<lparr>nmt = NMT_ISO14443B2CT, nbr = NBR_106\<rparr>, \<lparr>nmt = NMT_JEWEL, nbr = NBR_106\<rparr>]"

text \<open>The targets of each kind; a kind that cannot be listed shows none.  \<open>fresh\<close> is the local target of the library.\<close>

fun list_kinds :: "'s nfc_driver \<Rightarrow> nfc_target \<Rightarrow> nfc_modulation list \<Rightarrow> ('s, (nfc_modulation \<times> nfc_target list) list) op" where
  "list_kinds drv fresh [] dv = Ret ([], dv)"
| "list_kinds drv fresh (m # ms) dv =
     and_then (nfc_initiator_list_passive_targets drv m 16 fresh dv) (\<lambda>((res, ant), dv).
     and_then (list_kinds drv fresh ms dv) (\<lambda>(shown, dv). Ret ((m, take (nat res) ant) # shown, dv)))"

text \<open>Over the devices that were found, \<^const>\<open>None\<close> for one that could not be opened: the exit status and what is shown.\<close>

fun list_readers :: "nfc_target \<Rightarrow> ('s nfc_driver \<times> 's nfc_device option) list \<Rightarrow>
    (int \<times> (nfc_modulation \<times> nfc_target list) list list) outcome" where
  "list_readers fresh [] = Ret (0, [])"
| "list_readers fresh ((drv, None) # ds) = list_readers fresh ds"
| "list_readers fresh ((drv, Some dv) # ds) =
     and_then (nfc_initiator_init drv dv) (\<lambda>(res, dv).
       if res < 0 then Ret (1, [])
       else
         and_then (list_kinds drv fresh listed_kinds dv) (\<lambda>(shown, _).
         and_then (list_readers fresh ds) (\<lambda>(status, rest). Ret (status, shown # rest))))"

definition nmModulations :: "nfc_modulation list" where
  "nmModulations =
     [\<lparr>nmt = NMT_ISO14443A, nbr = NBR_106\<rparr>, \<lparr>nmt = NMT_ISO14443B, nbr = NBR_106\<rparr>, \<lparr>nmt = NMT_FELICA, nbr = NBR_212\<rparr>,
      \<lparr>nmt = NMT_FELICA, nbr = NBR_424\<rparr>, \<lparr>nmt = NMT_JEWEL, nbr = NBR_106\<rparr>]"

definition poll_device :: "'s nfc_driver \<Rightarrow> nfc_target \<Rightarrow> ('s, int \<times> nfc_target option) op" where
  "poll_device drv nt dv =
     on_ok (\<lambda>_. (1, None)) (nfc_initiator_init drv dv) (\<lambda>_ dv.
     and_then (nfc_initiator_poll_target drv nmModulations 20 2 nt dv) (\<lambda>((res, nt), dv).
       Ret (if res < 0 then (1, None) else if res > 0 then (0, Some nt) else (0, None), dv)))"

section \<open>Diagnosing the chip\<close>

definition line_test :: bytes where
  "line_test = [Diagnose, 0x00, 0x06] @ map of_char ''libnfc''"

text \<open>An exchange into the local array \<open>abtRx\<close> with \<open>szRx\<close> as its room, which the next one finds as the length of this answer:
  the result of the test, if it could be made.\<close>

definition diagnose_test ::
    "'s pn53x_io \<Rightarrow> bytes \<Rightarrow> (bytes \<Rightarrow> nat \<Rightarrow> bool outcome) \<Rightarrow> bytes \<times> nat \<Rightarrow> ('s, bool option \<times> bytes \<times> nat) op" where
  "diagnose_test io cmd passed s dv =
     and_then (pn53x_transceive io cmd (snd s) 0 dv) (\<lambda>((res, rx), dv).
       if res > 0 then
         and_then (copy_into (fst s) 0 rx (length rx)) (\<lambda>abtRx.
         and_then (passed abtRx (nat res)) (\<lambda>result. Ret ((Some result, abtRx, nat res), dv)))
       else Ret ((None, s), dv))"

definition line_passed :: "bytes \<Rightarrow> nat \<Rightarrow> bool outcome" where
  "line_passed abtRx szRx =
     and_then (read_at abtRx 0 8) (\<lambda>a. Ret (a = drop 1 line_test \<or> take 7 a = drop 2 line_test))"

definition memory_passed :: "bytes \<Rightarrow> nat \<Rightarrow> bool outcome" where
  "memory_passed abtRx szRx = and_then (byte_at abtRx 0) (\<lambda>b. Ret (szRx = 1 \<and> b = 0x00))"

definition diagnose_device :: "'s pn53x_io \<Rightarrow> bytes \<times> nat \<Rightarrow> ('s, bool option list \<times> bytes \<times> nat) op" where
  "diagnose_device io s dv =
     and_then (diagnose_test io line_test line_passed s dv) (\<lambda>((line, s), dv).
     and_then (diagnose_test io [Diagnose, 0x01] memory_passed s dv) (\<lambda>((rom, s), dv).
     and_then (diagnose_test io [Diagnose, 0x02] memory_passed s dv) (\<lambda>((ram, s), dv). Ret (([line, rom, ram], s), dv))))"

fun diagnose_readers :: "bytes \<times> nat \<Rightarrow> ('s pn53x_io \<times> 's nfc_device option) list \<Rightarrow> (int \<times> bool option list list) outcome" where
  "diagnose_readers s [] = Ret (0, [])"
| "diagnose_readers s ((io, None) # ds) = Ret (1, [])"
| "diagnose_readers s ((io, Some dv) # ds) =
     and_then (diagnose_device io s dv) (\<lambda>((results, s), _).
     and_then (diagnose_readers s ds) (\<lambda>(status, rest). Ret (status, results # rest)))"

text \<open>\<open>abtRx\<close> is what the local array holds at first.\<close>

definition diagnose_main :: "bytes \<Rightarrow> ('s pn53x_io \<times> 's nfc_device option) list \<Rightarrow> (int \<times> bool option list list) outcome" where
  "diagnose_main abtRx ds = diagnose_readers (abtRx, 264) ds"

text \<open>The room for the answers of the next device is the length of the last answer: with a device in front of it whose memory was
  tested, a device has room for one byte, and not for the answer to the test of its line.\<close>

lemma next_device_has_no_room:
  assumes "diagnose_device io s dv = Ret (([line, rom, Some ok], abtRx, room), dv')" "ok"
  shows "room = 1"
proof -
  obtain s2 dv2 where "diagnose_test io [Diagnose, 0x02] memory_passed s2 dv2 = Ret ((Some True, abtRx, room), dv')"
    using assms by (auto simp: diagnose_device_def and_then_Ret_iff)
  then show ?thesis by (auto simp: diagnose_test_def memory_passed_def and_then_Ret_iff split: if_splits)
qed

section \<open>The secure element\<close>

text \<open>What the user has typed.\<close>

definition sam_choice :: "int \<Rightarrow> pn532_sam_mode option" where
  "sam_choice input =
     (if input = 49 then Some PSM_VIRTUAL_CARD else if input = 50 then Some PSM_WIRED_CARD
      else if input = 51 then Some PSM_DUAL_CARD else None)"

text \<open>On every way out but one the chip is told to go back to its normal mode.\<close>

definition sam_done :: "'s pn53x_io \<Rightarrow> int \<Rightarrow> ('s, int) op" where
  "sam_done io ret dv = and_then (pn532_SAMConfiguration io PSM_NORMAL (- 1) dv) (\<lambda>(_, dv). Ret (ret, dv))"

definition sam_device :: "'s nfc_driver \<Rightarrow> 's pn53x_io \<Rightarrow> int \<Rightarrow> nfc_target \<Rightarrow> nfc_target \<Rightarrow> ('s, int) op" where
  "sam_device drv io input nt zeroed dv =
     (case sam_choice input of
        None \<Rightarrow> sam_done io 1 dv
      | Some PSM_NORMAL \<Rightarrow> sam_done io 0 dv
      | Some PSM_VIRTUAL_CARD \<Rightarrow>
          and_then (pn532_SAMConfiguration io PSM_VIRTUAL_CARD 0 dv) (\<lambda>(res, dv). sam_done io (if res < 0 then 1 else 0) dv)
      | Some PSM_WIRED_CARD \<Rightarrow>
          and_then (nfc_initiator_init_secure_element drv dv) (\<lambda>(res, dv).
            if res < 0 then sam_done io 1 dv
            else
              and_then (nfc_set_property_bool drv NP_INFINITE_SELECT False dv) (\<lambda>(res, dv).
                if res < 0 then sam_done io 1 dv
                else
                  and_then (nfc_initiator_select_passive_target drv \<lparr>nmt = NMT_ISO14443A, nbr = NBR_106\<rparr> [] (Some nt) dv)
                    (\<lambda>((res, _), dv). sam_done io (if res = 1 then 0 else 1) dv)))
      | Some PSM_DUAL_CARD \<Rightarrow>
          and_then (pn532_SAMConfiguration io PSM_DUAL_CARD 0 dv) (\<lambda>(res, dv).
            if res < 0 then sam_done io 1 dv
            else
              and_then (nfc_target_init drv (faked_target zeroed) 264 0 dv) (\<lambda>((res, _, _), dv).
                if res < 0 then Ret (1, dv) else sam_done io 0 dv)))"

lemma left_in_dual_mode:
  assumes "pn532_SAMConfiguration io PSM_DUAL_CARD 0 dv = Ret (r, dv1)" "0 \<le> r"
    and "nfc_target_init drv (faked_target zeroed) 264 0 dv1 = Ret ((res, t, rx), dv2)" "res < 0"
  shows "sam_device drv io 51 nt zeroed dv = Ret (1, dv2)"
  using assms by (simp add: sam_device_def sam_choice_def)

section \<open>The shell\<close>

text \<open>The bytes of a line, at most so many; \<open>s\<close> is the text from the offset on, without its NUL.\<close>

fun shell_bytes :: "nat \<Rightarrow> string \<Rightarrow> bytes" where
  "shell_bytes 0 s = []"
| "shell_bytes (Suc n) s =
     (let s = dropWhile is_blank s in
      case scan_hex 2 s of
        None \<Rightarrow> []
      | Some (v, _) \<Rightarrow> ucast v # (if length s = 1 then [] else shell_bytes n (drop 2 s)))"

text \<open>The lines as \<open>readline\<close> or \<open>fgets\<close> give them, the second of which gives no empty one: the commands and their answers, if
  there were any.  Pauses are left out.\<close>

fun shell :: "bool \<Rightarrow> 's pn53x_io \<Rightarrow> string list \<Rightarrow> ('s, (bytes \<times> bytes option) list) op" where
  "shell readline io [] dv = Ret ([], dv)"
| "shell readline io (cmd # cmds) dv =
     (if cmd = [] \<and> \<not> readline then Ret ([], dv)
      else if cmd \<noteq> [] \<and> hd cmd = CHR ''q'' then Ret ([], dv)
      else if cmd \<noteq> [] \<and> hd cmd = CHR ''p'' then shell readline io cmds dv
      else
        let abtTx = shell_bytes 254 cmd in
        if abtTx = [] then shell readline io cmds dv
        else
          and_then (pn53x_transceive io abtTx 264 0 dv) (\<lambda>((res, rx), dv).
          and_then (shell readline io cmds dv) (\<lambda>(rest, dv).
            Ret ((abtTx, if res < 0 then None else Some (take (nat res) rx)) # rest, dv))))"

text \<open>The exit status is 1 whatever comes.\<close>

definition tamashell_main ::
    "'s nfc_driver \<Rightarrow> bool \<Rightarrow> 's pn53x_io \<Rightarrow> string list \<Rightarrow> 's nfc_device option \<Rightarrow> (int \<times> (bytes \<times> bytes option) list) outcome" where
  "tamashell_main drv readline io cmds pnd =
     (case pnd of
        None \<Rightarrow> Ret (1, [])
      | Some dv \<Rightarrow>
          and_then (nfc_initiator_init drv dv) (\<lambda>(res, dv).
            if res < 0 then Ret (1, []) else and_then (shell readline io cmds dv) (\<lambda>(talk, _). Ret (1, talk))))"

text \<open>A line of bytes with two digits each is taken as these bytes, as far as there is room for them.\<close>

lemma shell_bytes_text:
  "shell_bytes n (concat (map (\<lambda>b. hex2 (unat b) @ '' '') d)) = take n d"
proof (induction d arbitrary: n)
  case Nil
  show ?case by (cases n) (simp_all add: scan_hex_def)
next
  case (Cons b d)
  let ?rest = "concat (map (\<lambda>b. hex2 (unat b) @ '' '') d)"
  show ?case
  proof (cases n)
    case (Suc k)
    have b: "unat b < 256" by (rule order_less_le_trans [OF unsigned_less]) simp
    then have scan: "scan_hex 2 (hex2 (unat b) @ s) = Some (word_of_nat (unat b), s)" for s
      using scan_hex_text [of "hex2 (unat b)" 2 s] by (simp add: hex_number_of)
    have hd: "\<not> is_blank (hd (hex2 (unat b)))" using hex_char [of "unat b div 16 mod 16"] by (simp add: hex2_def)
    have skip: "dropWhile is_blank (hex2 (unat b) @ s) = hex2 (unat b) @ s" for s using hd by (simp add: hex2_def)
    have blank: "shell_bytes k ('' '' @ s) = shell_bytes k s" for s by (cases k) (simp_all add: is_blank_def)
    show ?thesis
      using Suc Cons.IH [of k] blank [of ?rest] skip scan by (simp add: narrow_byte)
  qed simp
qed

text \<open>A shell that is given commands as such lines sends each of them, in order, until one begins with \<open>q\<close>.\<close>

lemma shell_sends:
  assumes "pn53x_transceive io tx 264 0 dv = Ret ((res, rx), dv1)" "tx \<noteq> []" "length tx \<le> 254"
  shows "shell readline io (concat (map (\<lambda>b. hex2 (unat b) @ '' '') tx) # cmds) dv =
    and_then (shell readline io cmds dv1) (\<lambda>(rest, dv2). Ret ((tx, if res < 0 then None else Some (take (nat res) rx)) # rest, dv2))"
proof -
  obtain b d where tx: "tx = b # d" using assms(2) by (cases tx) auto
  let ?line = "concat (map (\<lambda>b. hex2 (unat b) @ '' '') tx)"
  have "hd ?line = hex_chars ! (unat b div 16 mod 16)" "?line \<noteq> []" by (simp_all add: tx hex2_def)
  moreover have "hex_chars ! (unat b div 16 mod 16) \<noteq> CHR ''q''" "hex_chars ! (unat b div 16 mod 16) \<noteq> CHR ''p''"
    using hex_char [of "unat b div 16 mod 16"] by (auto simp: hex_value_def)
  moreover have "shell_bytes 254 ?line = tx" using shell_bytes_text [of 254 tx] assms(3) by simp
  ultimately show ?thesis using assms(1,2) by (simp add: Let_def)
qed

end
