(* ===== verification/Peer_Examples.thy ===== *)
theory Peer_Examples
  imports Nfc_Api
begin

text \<open>
  Programs that hand frames on as they come: \<open>examples/nfc-relay.c\<close>, frame by frame with its parity bits between a reader and a
  card, and the two ends of a talk between peers, \<open>examples/nfc-dep-initiator.c\<close> and \<open>examples/nfc-dep-target.c\<close>.
\<close>

section \<open>Frames with their parity bits\<close>

text \<open>Properties one after the other, up to the first that cannot be set; a failure ends the program.\<close>

fun set_all :: "'s nfc_driver \<Rightarrow> (nfc_property \<times> bool) list \<Rightarrow> ('s, bool) op" where
  "set_all drv [] dv = Ret (True, dv)"
| "set_all drv ((p, b) # ps) dv =
     and_then (nfc_set_property_bool drv p b dv) (\<lambda>(res, dv). if res < 0 then Ret (False, dv) else set_all drv ps dv)"

definition raw_frame_properties :: "(nfc_property \<times> bool) list" where
  "raw_frame_properties = [(NP_HANDLE_CRC, False), (NP_HANDLE_PARITY, False), (NP_ACCEPT_INVALID_FRAMES, True)]"

text \<open>A turn: a frame of the reader goes to the card, after the field has been dropped for a request, and the answer of the card
  back; \<^const>\<open>False\<close> is the end of the program.\<close>

definition bit_relay_turn ::
    "'r nfc_driver \<Rightarrow> 't nfc_driver \<Rightarrow> 'r nfc_device \<Rightarrow> 't nfc_device \<Rightarrow> (bool \<times> 'r nfc_device \<times> 't nfc_device) outcome" where
  "bit_relay_turn drvR drvT dvR dvT =
     and_then (nfc_target_receive_bits drvT 264 dvT) (\<lambda>((res, rx, rxPar), dvT).
       if res \<le> 0 then Ret (True, dvR, dvT)
       else
         and_then (if res = 7 then byte_at rx 0 else Ret 0) (\<lambda>c.
         and_then
           (if res = 7 \<and> c = 0x26 then set_all drvR [(NP_ACTIVATE_FIELD, False), (NP_ACTIVATE_FIELD, True)] dvR else Ret (True, dvR))
           (\<lambda>(ok, dvR).
             if \<not> ok then Ret (False, dvR, dvT)
             else
               and_then (nfc_initiator_transceive_bits drvR rx (nat res) rxPar True dvR) (\<lambda>((n, tag_rx, tag_par), dvR).
                 if n > 0 then
                   and_then (nfc_target_send_bits drvT tag_rx (nat n) tag_par dvT) (\<lambda>(r, dvT). Ret (0 \<le> r, dvR, dvT))
                 else Ret (True, dvR, dvT)))))"

text \<open>From the two open devices on, for as many turns as the user lets it go on: the exit status.\<close>

fun bit_relay_turns :: "nat \<Rightarrow> 'r nfc_driver \<Rightarrow> 't nfc_driver \<Rightarrow> 'r nfc_device \<Rightarrow> 't nfc_device \<Rightarrow> int outcome" where
  "bit_relay_turns 0 drvR drvT dvR dvT = Ret 0"
| "bit_relay_turns (Suc n) drvR drvT dvR dvT =
     and_then (bit_relay_turn drvR drvT dvR dvT) (\<lambda>(ok, dvR, dvT). if ok then bit_relay_turns n drvR drvT dvR dvT else Ret 1)"

definition bit_relay_device ::
    "nat \<Rightarrow> 'r nfc_driver \<Rightarrow> 't nfc_driver \<Rightarrow> nfc_target \<Rightarrow> 'r nfc_device \<Rightarrow> 't nfc_device \<Rightarrow> int outcome" where
  "bit_relay_device n drvR drvT nt dvR dvT =
     and_then (nfc_target_init drvT nt 264 0 dvT) (\<lambda>((res, _, _), dvT).
       if res < 0 then Ret 1
       else
         and_then (set_all drvT raw_frame_properties dvT) (\<lambda>(ok, dvT).
           if \<not> ok then Ret 1
           else
             and_then (nfc_initiator_init drvR dvR) (\<lambda>(res, dvR).
               if res < 0 then Ret 1
               else
                 and_then (set_all drvR raw_frame_properties dvR) (\<lambda>(ok, dvR).
                   if \<not> ok then Ret 1 else bit_relay_turns n drvR drvT dvR dvT))))"

text \<open>What is relayed is what came, with its bits and its parity; a request resets the card first.\<close>

lemma frame_relayed:
  assumes "nfc_target_receive_bits drvT 264 dvT = Ret ((res, rx, rxPar), dvT1)" "0 < res" "rx \<noteq> []" "res \<noteq> 7 \<or> hd rx \<noteq> 0x26"
    and "nfc_initiator_transceive_bits drvR rx (nat res) rxPar True dvR = Ret ((n, tag_rx, tag_par), dvR1)" "0 < n"
    and "nfc_target_send_bits drvT tag_rx (nat n) tag_par dvT1 = Ret (r, dvT2)"
  shows "bit_relay_turn drvR drvT dvR dvT = Ret (0 \<le> r, dvR1, dvT2)"
  using assms by (auto simp: bit_relay_turn_def byte_at_def hd_conv_nth)

lemma silence_relayed:
  assumes "nfc_target_receive_bits drvT 264 dvT = Ret ((res, rx, rxPar), dvT1)" "res \<le> 0"
  shows "bit_relay_turn drvR drvT dvR dvT = Ret (True, dvR, dvT1)"
  using assms by (simp add: bit_relay_turn_def)

section \<open>Peers\<close>

definition nul_ended :: "string \<Rightarrow> bytes" where
  "nul_ended s = map of_char s @ [0x00]"

text \<open>A NUL behind what was received, in an array of 264 bytes.\<close>

definition end_text :: "int \<Rightarrow> bytes \<Rightarrow> bytes outcome" where
  "end_text res rx = (if res < 0 \<or> 264 \<le> res then Undefined else Ret (take (nat res) rx))"

text \<open>The exit status is success in every case; what was received, when it came.\<close>

definition dep_initiator :: "'s nfc_driver \<Rightarrow> nfc_target \<Rightarrow> 's nfc_device option \<Rightarrow> (int \<times> bytes option) outcome" where
  "dep_initiator drv nt pnd =
     (case pnd of
        None \<Rightarrow> Ret (1, None)
      | Some dv \<Rightarrow>
          and_then (nfc_initiator_init drv dv) (\<lambda>(res, dv).
            if res < 0 then Ret (0, None)
            else
              and_then (nfc_initiator_select_dep_target drv NDM_PASSIVE NBR_212 None (Some nt) 1000 dv) (\<lambda>((res, _), dv).
                if res < 0 then Ret (0, None)
                else
                  and_then (nfc_initiator_transceive_bytes drv (nul_ended ''Hello World!'') (Some 264) 0 dv) (\<lambda>((res, rx), dv).
                    if res < 0 then Ret (0, None)
                    else
                      and_then (end_text res rx) (\<lambda>received.
                      and_then (nfc_initiator_deselect_target drv dv) (\<lambda>_. Ret (0, Some received)))))))"

definition dep_target_info :: "nfc_target \<Rightarrow> nfc_target" where
  "dep_target_info zeroed =
     zeroed\<lparr>nm := \<lparr>nmt = NMT_DEP, nbr = NBR_UNDEFINED\<rparr>,
            nti := (nti zeroed)\<lparr>ndi := \<lparr>dep_abtNFCID3 = [0x12, 0x34, 0x56, 0x78, 0x9a, 0xbc, 0xde, 0xff, 0x00, 0x00],
              dep_btDID = 0x00, dep_btBS = 0x00, dep_btBR = 0x00, dep_btTO = 0x00, dep_btPP = 0x01,
              dep_abtGB = [0x12, 0x34, 0x56, 0x78] @ replicate 44 0, dep_szGB = 4, dep_ndm = NDM_UNDEFINED\<rparr>\<rparr>\<rparr>"

definition dep_target :: "'s nfc_driver \<Rightarrow> nfc_target \<Rightarrow> 's nfc_device option \<Rightarrow> (int \<times> bytes option) outcome" where
  "dep_target drv zeroed pnd =
     (case pnd of
        None \<Rightarrow> Ret (1, None)
      | Some dv \<Rightarrow>
          and_then (nfc_target_init drv (dep_target_info zeroed) 264 0 dv) (\<lambda>((res, _, _), dv).
            if res < 0 then Ret (0, None)
            else
              and_then (nfc_target_receive_bytes drv 264 0 dv) (\<lambda>((res, rx), dv).
                if res < 0 then Ret (0, None)
                else
                  and_then (end_text res rx) (\<lambda>received.
                  and_then (nfc_target_send_bytes drv (nul_ended ''Hello Mars!'') 0 dv) (\<lambda>_. Ret (0, Some received))))))"

text \<open>An answer that fills the array has its NUL written behind it.\<close>

lemma full_answer_overflows: "end_text 264 rx = Undefined"
  by (simp add: end_text_def)

lemma peers_talk:
  assumes "nfc_target_init drv (dep_target_info z) 264 0 dv = Ret ((k, t, rx0), dv1)" "0 \<le> k"
    and "nfc_target_receive_bytes drv 264 0 dv1 = Ret ((13, nul_ended ''Hello World!''), dv2)"
    and "nfc_target_send_bytes drv (nul_ended ''Hello Mars!'') 0 dv2 = Ret (r, dv3)"
  shows "dep_target drv z (Some dv) = Ret (0, Some (nul_ended ''Hello World!''))"
  using assms by (simp add: dep_target_def end_text_def nul_ended_def)

end
